(* ===== verification/Prelude.thy ===== *)
theory Prelude
  imports Main "HOL-Library.Word"
begin

text \<open>
  Shared vocabulary of the development: the machine integer types of the C++ code, the
  little-endian memory image of an integer (the supported targets are little endian, so a
  \<open>memcpy\<close> of an integer moves exactly these bytes), and the hint collections that carry the
  component proofs.
\<close>

unbundle bit_operations_syntax

type_synonym u8 = "8 word"
type_synonym u16 = "16 word"
type_synonym u32 = "32 word"
type_synonym u64 = "64 word"

text \<open>
  \<open>stream_simps\<close> holds the equations that execute one field of a stream,
  \<open>wire_intros\<close> the composition rules of the serialisation laws, \<open>safe_intros\<close> the
  composition rules of reader memory safety.
\<close>

named_theorems stream_simps
named_theorems wire_intros
named_theorems safe_intros

subsection \<open>The memory image of an integer\<close>

primrec le_enc :: "nat \<Rightarrow> 'a::len word \<Rightarrow> u8 list" where
  "le_enc 0 w = []"
| "le_enc (Suc n) w = ucast w # le_enc n (drop_bit 8 w)"

primrec le_dec :: "u8 list \<Rightarrow> 'a::len word" where
  "le_dec [] = 0"
| "le_dec (b # bs) = ucast b OR push_bit 8 (le_dec bs)"

lemma length_le_enc [simp]: "length (le_enc n w) = n"
  by (induction n arbitrary: w) auto

lemma bit_le_dec_lt: "bit (le_dec bs :: 'a::len word) k \<Longrightarrow> k < 8 * length bs"
proof (induction bs arbitrary: k)
  case (Cons b bs)
  then show ?case
    by (fastforce simp: bit_or_iff bit_push_bit_iff bit_ucast_iff dest: bit_imp_le_length)
qed simp

lemma le_dec_enc_take_bit: "le_dec (le_enc n w) = take_bit (8 * n) (w :: 'a::len word)"
proof (induction n arbitrary: w)
  case (Suc n)
  show ?case
  proof (rule bit_word_eqI)
    fix k assume "k < LENGTH('a)"
    then show "bit (le_dec (le_enc (Suc n) w) :: 'a word) k = bit (take_bit (8 * Suc n) w) k"
      by (auto simp: Suc bit_or_iff bit_push_bit_iff bit_ucast_iff bit_take_bit_iff bit_drop_bit_eq
          dest: bit_imp_le_length)
  qed
qed simp

lemma le_dec_enc [simp]:
  assumes "LENGTH('a) \<le> 8 * n"
  shows "le_dec (le_enc n (w :: 'a::len word)) = w"
  using assms by (simp add: le_dec_enc_take_bit take_bit_word_eq_self)

lemma le_enc_dec [simp]:
  assumes "8 * length bs \<le> LENGTH('a)" "n = length bs"
  shows "le_enc n (le_dec bs :: 'a::len word) = bs"
  using assms
proof (induction bs arbitrary: n)
  case (Cons b bs)
  have "drop_bit 8 (ucast b OR push_bit 8 (le_dec bs) :: 'a word) = le_dec bs"
  proof (rule bit_word_eqI)
    fix k
    show "bit (drop_bit 8 (ucast b OR push_bit 8 (le_dec bs)) :: 'a word) k = bit (le_dec bs :: 'a word) k"
      using Cons.prems(1) bit_le_dec_lt [of bs k, where 'a = 'a]
      by (auto simp: bit_or_iff bit_push_bit_iff bit_ucast_iff bit_drop_bit_eq
          dest: bit_imp_le_length)
  qed
  moreover have "ucast (ucast b OR push_bit 8 (le_dec bs) :: 'a word) = b"
    using Cons.prems(1)
    by (intro bit_word_eqI) (auto simp: bit_or_iff bit_push_bit_iff bit_ucast_iff
          dest: bit_imp_le_length)
  ultimately show ?case
    using Cons by auto
qed simp


subsection \<open>Sixty-four bit sizes\<close>

lemma unat_of_nat_u64 [simp]: "n < 2 ^ 64 \<Longrightarrow> unat (of_nat n :: u64) = n"
  by (rule of_nat_inverse) simp_all

lemma unat_u64_less [simp]: "unat (w :: u64) < 2 ^ 64"
  using unsigned_less [of w] by simp

lemma of_nat_le_u64: "a < 2 ^ 64 \<Longrightarrow> b < 2 ^ 64 \<Longrightarrow> (of_nat a :: u64) \<le> of_nat b \<longleftrightarrow> a \<le> b"
  by (simp add: word_le_nat_alt)

lemma unat_add_u64: "unat (a + b :: u64) = (unat a + unat b) mod 2 ^ 64"
  by (simp add: unat_word_ariths)

subsection \<open>Loops over a container\<close>

text \<open>A loop over \<open>xs\<close> whose body changes the state; \<open>None\<close> is undefined behaviour, which ends it.\<close>

fun handle_all :: "('p \<Rightarrow> 's \<Rightarrow> 's option) \<Rightarrow> 'p list \<Rightarrow> 's \<Rightarrow> 's option" where
  "handle_all handle [] st = Some st"
| "handle_all handle (p # ps) st = Option.bind (handle p st) (handle_all handle ps)"

lemma handle_all_append: "handle_all h (xs @ ys) st = Option.bind (handle_all h xs st) (handle_all h ys)"
  by (induction xs arbitrary: st) (auto split: bind_splits)

text \<open>An invariant of the body is one of the loop, and so is what it adds to a log.\<close>

lemma handle_all_ConsE:
  assumes "handle_all h (x # xs) st = Some st'"
  obtains st1 where "h x st = Some st1" "handle_all h xs st1 = Some st'"
  using assms by (auto split: bind_splits)

lemma handle_all_invariant:
  assumes "handle_all h xs st = Some st'" "P st" "\<And>x st st'. x \<in> set xs \<Longrightarrow> h x st = Some st' \<Longrightarrow> P st \<Longrightarrow> P st'"
  shows "P st'"
  using assms
proof (induction xs arbitrary: st)
  case (Cons x xs)
  from Cons.prems(1) obtain st1 where "h x st = Some st1" "handle_all h xs st1 = Some st'" by (rule handle_all_ConsE)
  with Cons.prems Cons.IH [of st1] show ?case by (metis list.set_intros)
qed simp

lemma handle_all_log:
  assumes "handle_all h xs st = Some st'" "\<And>x st st'. x \<in> set xs \<Longrightarrow> h x st = Some st' \<Longrightarrow> log st' = log st @ f x"
  shows "log st' = log st @ concat (map f xs)"
  using assms
proof (induction xs arbitrary: st)
  case (Cons x xs)
  from Cons.prems(1) obtain st1 where "h x st = Some st1" "handle_all h xs st1 = Some st'" by (rule handle_all_ConsE)
  with Cons.prems Cons.IH [of st1] show ?case by (metis append.assoc concat.simps(2) list.set_intros list.simps(9))
qed simp

subsection \<open>Numbers as text\<close>

text \<open>\<open>std::to_string\<close>.\<close>

fun show_nat :: "nat \<Rightarrow> string" where
  "show_nat n = (if n < 10 then [char_of (48 + n)] else show_nat (n div 10) @ [char_of (48 + n mod 10)])"

declare show_nat.simps [simp del]

definition show_int :: "int \<Rightarrow> string" where
  "show_int n = (if n < 0 then CHR ''-'' # show_nat (nat (- n)) else show_nat (nat n))"

end
