(* ===== verification/DataStream.thy ===== *)
theory DataStream
  imports Prelude
begin

text \<open>
  The byte streams of \<open>net-base\<close>: \<open>ByteReader\<close>, \<open>ByteWriter\<close> and the counters of
  \<open>ByteCounter.h\<close>, with one definition per \<open>Field\<close> overload. Offsets, capacities and sizes are
  64-bit words, so the sums of the code wrap as they do there. A \<open>memcpy\<close> that would leave the
  buffer is undefined behaviour in C++ and is the outcome \<open>OutOfBounds\<close> here; \<open>Refused\<close> is
  \<open>return false\<close> and \<open>Done\<close> is \<open>return true\<close>.
\<close>

datatype access = Refused | Done | OutOfBounds

subsection \<open>ByteReader\<close>

text \<open>
  \<open>rindet\<close> is not a member of the class: it supplies the values of local variables that the code
  reads without having assigned them (see \<open>SizeOption_Process\<close>). Theorems hold for every choice.
\<close>

record byte_reader =
  rdata :: "u8 list"
  rcapacity :: u64
  roffset :: u64
  rindet :: "nat \<Rightarrow> u64"

definition ByteReader_make :: "u8 list \<Rightarrow> u64 \<Rightarrow> (nat \<Rightarrow> u64) \<Rightarrow> byte_reader" where
  "ByteReader_make data capacity ind =
     \<lparr>rdata = data, rcapacity = capacity, roffset = 0, rindet = ind\<rparr>"

definition ByteReader_CanRead :: "u64 \<Rightarrow> byte_reader \<Rightarrow> bool" where
  "ByteReader_CanRead len r \<longleftrightarrow> roffset r + len \<le> rcapacity r"

definition ByteReader_Seek :: "u64 \<Rightarrow> byte_reader \<Rightarrow> byte_reader" where
  "ByteReader_Seek offset r = r\<lparr>roffset := offset\<rparr>"

definition ByteReader_GetRemaining :: "byte_reader \<Rightarrow> u64" where
  "ByteReader_GetRemaining r = rcapacity r - roffset r"

text \<open>The \<open>memcpy\<close> from \<open>m_data + m_offset\<close> and the advance of \<open>m_offset\<close> behind it.\<close>

definition reader_copy :: "u64 \<Rightarrow> byte_reader \<Rightarrow> access \<times> u8 list \<times> byte_reader" where
  "reader_copy sz r =
     (let off = unat (roffset r); n = unat sz; r' = r\<lparr>roffset := roffset r + sz\<rparr> in
      if off + n \<le> length (rdata r) then (Done, take n (drop off (rdata r)), r')
      else (OutOfBounds, [], r'))"

definition ByteReader_Field :: "nat \<Rightarrow> u8 list \<Rightarrow> byte_reader \<Rightarrow> access \<times> u8 list \<times> byte_reader"
  where
  "ByteReader_Field n value r =
     (if \<not> ByteReader_CanRead (of_nat n) r then (Refused, value, r) else reader_copy (of_nat n) r)"

definition ByteReader_Field_sized ::
  "u8 list \<Rightarrow> u64 \<Rightarrow> byte_reader \<Rightarrow> access \<times> u8 list \<times> byte_reader" where
  "ByteReader_Field_sized value sz r =
     (if \<not> ByteReader_CanRead sz r then (Refused, value, r) else reader_copy sz r)"

text \<open>The span overload multiplies the element count by \<open>sizeof(T)\<close>.\<close>

definition ByteReader_Field_Span ::
  "nat \<Rightarrow> u8 list \<Rightarrow> u64 \<Rightarrow> byte_reader \<Rightarrow> access \<times> u8 list \<times> byte_reader" where
  "ByteReader_Field_Span sizeofT value sz r =
     (let sizeBytes = sz * of_nat sizeofT in
      if \<not> ByteReader_CanRead sizeBytes r then (Refused, value, r) else reader_copy sizeBytes r)"

definition ByteReader_Field_bool :: "u8 list \<Rightarrow> byte_reader \<Rightarrow> access \<times> u8 list \<times> byte_reader" where
  "ByteReader_Field_bool value r = ByteReader_Field 1 value r"

definition ByteReader_Field_string_view ::
  "u8 list \<Rightarrow> u64 \<Rightarrow> byte_reader \<Rightarrow> access \<times> u8 list \<times> byte_reader" where
  "ByteReader_Field_string_view value sz r =
     (if \<not> ByteReader_CanRead sz r then (Refused, value, r) else reader_copy sz r)"

definition ByteReader_Field_string ::
  "u8 list \<Rightarrow> u64 \<Rightarrow> byte_reader \<Rightarrow> access \<times> u8 list \<times> byte_reader" where
  "ByteReader_Field_string value sz r =
     (if \<not> ByteReader_CanRead sz r then (Refused, value, r) else reader_copy sz r)"

subsection \<open>ByteWriter\<close>

record byte_writer =
  wdata :: "u8 list"
  wcapacity :: u64
  woffset :: u64

definition ByteWriter_make :: "u8 list \<Rightarrow> u64 \<Rightarrow> byte_writer" where
  "ByteWriter_make data capacity = \<lparr>wdata = data, wcapacity = capacity, woffset = 0\<rparr>"

definition ByteWriter_CanWrite :: "u64 \<Rightarrow> byte_writer \<Rightarrow> bool" where
  "ByteWriter_CanWrite len w \<longleftrightarrow> woffset w + len \<le> wcapacity w"

definition ByteWriter_Seek :: "u64 \<Rightarrow> byte_writer \<Rightarrow> byte_writer" where
  "ByteWriter_Seek offset w = w\<lparr>woffset := offset\<rparr>"

text \<open>
  The \<open>memcpy\<close> of \<open>size\<close> bytes from the value to \<open>m_data + m_offset\<close>. Both ends can be left: the
  buffer's and the value's own storage.
\<close>

definition writer_copy :: "u8 list \<Rightarrow> u64 \<Rightarrow> byte_writer \<Rightarrow> access \<times> byte_writer" where
  "writer_copy value sz w =
     (let off = unat (woffset w); n = unat sz; w' = w\<lparr>woffset := woffset w + sz\<rparr> in
      if off + n \<le> length (wdata w) \<and> n \<le> length value
      then (Done, w'\<lparr>wdata := take off (wdata w) @ take n value @ drop (off + n) (wdata w)\<rparr>)
      else (OutOfBounds, w'))"

definition ByteWriter_Field :: "nat \<Rightarrow> u8 list \<Rightarrow> byte_writer \<Rightarrow> access \<times> byte_writer" where
  "ByteWriter_Field n value w =
     (if \<not> ByteWriter_CanWrite (of_nat n) w then (Refused, w) else writer_copy value (of_nat n) w)"

definition ByteWriter_Field_sized :: "u8 list \<Rightarrow> u64 \<Rightarrow> byte_writer \<Rightarrow> access \<times> byte_writer" where
  "ByteWriter_Field_sized value sz w =
     (if \<not> ByteWriter_CanWrite sz w then (Refused, w) else writer_copy value sz w)"

definition ByteWriter_Field_Span :: "nat \<Rightarrow> u8 list \<Rightarrow> u64 \<Rightarrow> byte_writer \<Rightarrow> access \<times> byte_writer"
  where
  "ByteWriter_Field_Span sizeofT value sz w =
     (let sizeBytes = sz * of_nat sizeofT in
      if \<not> ByteWriter_CanWrite sizeBytes w then (Refused, w) else writer_copy value sizeBytes w)"

definition ByteWriter_Field_bool :: "u8 list \<Rightarrow> byte_writer \<Rightarrow> access \<times> byte_writer" where
  "ByteWriter_Field_bool value w = ByteWriter_Field 1 value w"

definition ByteWriter_Field_string_view :: "u8 list \<Rightarrow> u64 \<Rightarrow> byte_writer \<Rightarrow> access \<times> byte_writer"
  where
  "ByteWriter_Field_string_view value sz w =
     (if \<not> ByteWriter_CanWrite sz w then (Refused, w) else writer_copy value sz w)"

definition ByteWriter_Field_string :: "u8 list \<Rightarrow> u64 \<Rightarrow> byte_writer \<Rightarrow> access \<times> byte_writer" where
  "ByteWriter_Field_string value sz w =
     (if \<not> ByteWriter_CanWrite sz w then (Refused, w) else writer_copy value sz w)"

subsection \<open>ByteCounter\<close>

text \<open>
  A counter is its \<open>m_counter\<close>. Every overload tests for wrap-around and saturates; \<open>-1\<close> is
  \<open>numeric_limits<uint64_t>::max()\<close>.
\<close>

definition ByteCounter_Field :: "nat \<Rightarrow> u64 \<Rightarrow> u64" where
  "ByteCounter_Field n c = (let sz = of_nat n in if c > c + sz then -1 else c + sz)"

definition ByteCounter_Field_sized :: "u64 \<Rightarrow> u64 \<Rightarrow> u64" where
  "ByteCounter_Field_sized sz c = (if c > c + sz then -1 else c + sz)"

definition ByteCounter_Field_Span :: "nat \<Rightarrow> u64 \<Rightarrow> u64 \<Rightarrow> u64" where
  "ByteCounter_Field_Span sizeofT sz c =
     (let valueSize = sz * of_nat sizeofT in if c > c + valueSize then -1 else c + valueSize)"

definition ByteCounter_Field_bool :: "u64 \<Rightarrow> u64" where
  "ByteCounter_Field_bool c = (let valueSize = 1 in if c > c + valueSize then -1 else c + valueSize)"

definition ByteCounter_Field_string_view :: "u64 \<Rightarrow> u64 \<Rightarrow> u64" where
  "ByteCounter_Field_string_view sz c = (if c > c + sz then -1 else c + sz)"

definition ByteCounter_Field_string :: "u64 \<Rightarrow> u64 \<Rightarrow> u64" where
  "ByteCounter_Field_string sz c = (if c > c + sz then -1 else c + sz)"

subsection \<open>The stream a template is instantiated with\<close>

text \<open>
  The serialisation templates take any stream and test \<open>T::kType\<close>; the constructors are the
  values of \<open>DataStream::Type\<close>.
\<close>

datatype stream =
  Reader byte_reader
| Writer byte_writer
| Counter u64
| MaxCounter u64
| MinCounter u64

fun Field :: "nat \<Rightarrow> u8 list \<Rightarrow> stream \<Rightarrow> access \<times> u8 list \<times> stream" where
  "Field n v (Reader r) = (case ByteReader_Field n v r of (a, v', r') \<Rightarrow> (a, v', Reader r'))"
| "Field n v (Writer w) = (case ByteWriter_Field n v w of (a, w') \<Rightarrow> (a, v, Writer w'))"
| "Field n v (Counter c) = (Done, v, Counter (ByteCounter_Field n c))"
| "Field n v (MaxCounter c) = (Done, v, MaxCounter (ByteCounter_Field n c))"
| "Field n v (MinCounter c) = (Done, v, MinCounter (ByteCounter_Field n c))"

fun Field_bool :: "u8 list \<Rightarrow> stream \<Rightarrow> access \<times> u8 list \<times> stream" where
  "Field_bool v (Reader r) = (case ByteReader_Field_bool v r of (a, v', r') \<Rightarrow> (a, v', Reader r'))"
| "Field_bool v (Writer w) = (case ByteWriter_Field_bool v w of (a, w') \<Rightarrow> (a, v, Writer w'))"
| "Field_bool v (Counter c) = (Done, v, Counter (ByteCounter_Field_bool c))"
| "Field_bool v (MaxCounter c) = (Done, v, MaxCounter (ByteCounter_Field_bool c))"
| "Field_bool v (MinCounter c) = (Done, v, MinCounter (ByteCounter_Field_bool c))"

fun Field_string :: "u8 list \<Rightarrow> u64 \<Rightarrow> stream \<Rightarrow> access \<times> u8 list \<times> stream" where
  "Field_string v sz (Reader r) =
     (case ByteReader_Field_string_view v sz r of (a, v', r') \<Rightarrow> (a, v', Reader r'))"
| "Field_string v sz (Writer w) =
     (case ByteWriter_Field_string_view v sz w of (a, w') \<Rightarrow> (a, v, Writer w'))"
| "Field_string v sz (Counter c) = (Done, v, Counter (ByteCounter_Field_string_view sz c))"
| "Field_string v sz (MaxCounter c) = (Done, v, MaxCounter (ByteCounter_Field_string_view sz c))"
| "Field_string v sz (MinCounter c) = (Done, v, MinCounter (ByteCounter_Field_string_view sz c))"

fun Field_Span :: "nat \<Rightarrow> u8 list \<Rightarrow> u64 \<Rightarrow> stream \<Rightarrow> access \<times> u8 list \<times> stream" where
  "Field_Span k v sz (Reader r) =
     (case ByteReader_Field_Span k v sz r of (a, v', r') \<Rightarrow> (a, v', Reader r'))"
| "Field_Span k v sz (Writer w) =
     (case ByteWriter_Field_Span k v sz w of (a, w') \<Rightarrow> (a, v, Writer w'))"
| "Field_Span k v sz (Counter c) = (Done, v, Counter (ByteCounter_Field_Span k sz c))"
| "Field_Span k v sz (MaxCounter c) = (Done, v, MaxCounter (ByteCounter_Field_Span k sz c))"
| "Field_Span k v sz (MinCounter c) = (Done, v, MinCounter (ByteCounter_Field_Span k sz c))"

fun Field_sized :: "u8 list \<Rightarrow> u64 \<Rightarrow> stream \<Rightarrow> access \<times> u8 list \<times> stream" where
  "Field_sized v sz (Reader r) =
     (case ByteReader_Field_sized v sz r of (a, v', r') \<Rightarrow> (a, v', Reader r'))"
| "Field_sized v sz (Writer w) =
     (case ByteWriter_Field_sized v sz w of (a, w') \<Rightarrow> (a, v, Writer w'))"
| "Field_sized v sz (Counter c) = (Done, v, Counter (ByteCounter_Field_sized sz c))"
| "Field_sized v sz (MaxCounter c) = (Done, v, MaxCounter (ByteCounter_Field_sized sz c))"
| "Field_sized v sz (MinCounter c) = (Done, v, MinCounter (ByteCounter_Field_sized sz c))"

lemmas Field_overloads =
  ByteReader_Field_string_view_def ByteReader_Field_string_def ByteReader_Field_sized_def
  ByteWriter_Field_string_view_def ByteWriter_Field_string_def ByteWriter_Field_sized_def
  ByteCounter_Field_string_view_def ByteCounter_Field_string_def ByteCounter_Field_sized_def

subsection \<open>Canonical states\<close>

text \<open>
  \<open>rdr pre rest\<close> is a reader that has consumed \<open>pre\<close> and has \<open>rest\<close> before it, \<open>wtr out room\<close> a
  writer that has produced \<open>out\<close> and has \<open>room\<close> left. The bound \<open>2 ^ 62\<close> on buffer lengths
  stands for the address space: no allocation of the supported 64-bit targets is that large.
\<close>

definition rdr :: "u8 list \<Rightarrow> u8 list \<Rightarrow> (nat \<Rightarrow> u64) \<Rightarrow> byte_reader" where
  "rdr pre rest ind = \<lparr>rdata = pre @ rest, rcapacity = of_nat (length pre + length rest),
     roffset = of_nat (length pre), rindet = ind\<rparr>"

definition wtr :: "u8 list \<Rightarrow> u8 list \<Rightarrow> byte_writer" where
  "wtr out room = \<lparr>wdata = out @ room, wcapacity = of_nat (length out + length room),
     woffset = of_nat (length out)\<rparr>"

abbreviation addressable :: "nat \<Rightarrow> bool" where
  "addressable n \<equiv> n < 2 ^ 62"

definition reader_ok :: "byte_reader \<Rightarrow> bool" where
  "reader_ok r \<longleftrightarrow> unat (rcapacity r) = length (rdata r) \<and> roffset r \<le> rcapacity r
     \<and> addressable (length (rdata r))"

definition csat :: "u64 \<Rightarrow> nat \<Rightarrow> u64" where
  "csat c n = of_nat (min (2 ^ 64 - 1) (unat c + n))"

lemma sizes_fit:
  assumes "addressable (length pre + n)"
  shows "unat (of_nat (length pre) :: u64) = length pre"
    and "(of_nat (length pre) + of_nat n :: u64) = of_nat (length pre + n)"
  using assms by (simp_all)

subsection \<open>One field on canonical states\<close>

lemma rdr_CanRead:
  assumes "addressable (length pre + length rest)" "n < 2 ^ 63"
  shows "ByteReader_CanRead (of_nat n) (rdr pre rest ind) \<longleftrightarrow> n \<le> length rest"
proof -
  have "(of_nat (length pre) + of_nat n :: u64) = of_nat (length pre + n)" by simp
  moreover have "length pre + n < 2 ^ 64" using assms by simp
  ultimately show ?thesis
    using assms of_nat_le_u64 [of "length pre + n" "length pre + length rest"]
    by (simp add: ByteReader_CanRead_def rdr_def del: of_nat_add)
qed

lemma rdr_copy:
  assumes "addressable (length pre + length bs + length rest)" "n = length bs"
  shows "reader_copy (of_nat n) (rdr pre (bs @ rest) ind) = (Done, bs, rdr (pre @ bs) rest ind)"
  using assms
  by (auto simp: reader_copy_def Let_def rdr_def)

lemma wtr_CanWrite:
  assumes "addressable (length out + length room)" "n < 2 ^ 63"
  shows "ByteWriter_CanWrite (of_nat n) (wtr out room) \<longleftrightarrow> n \<le> length room"
proof -
  have "(of_nat (length out) + of_nat n :: u64) = of_nat (length out + n)" by simp
  moreover have "length out + n < 2 ^ 64" using assms by simp
  ultimately show ?thesis
    using assms of_nat_le_u64 [of "length out + n" "length out + length room"]
    by (simp add: ByteWriter_CanWrite_def wtr_def del: of_nat_add)
qed

lemma wtr_copy:
  assumes "addressable (length out + length room)" "n = length bs" "n \<le> length room"
  shows "writer_copy bs (of_nat n) (wtr out room) = (Done, wtr (out @ bs) (drop n room))"
  using assms
  by (auto simp: writer_copy_def Let_def wtr_def)

lemma unat_csat: "unat (csat c n) = min (2 ^ 64 - 1) (unat c + n)"
  unfolding csat_def by (rule unat_of_nat_u64) simp

lemma csat_csat [simp]: "csat (csat c a) b = csat c (a + b)"
proof -
  have "min (2 ^ 64 - 1) (min (2 ^ 64 - 1) (unat c + a) + b) = min (2 ^ 64 - 1) (unat c + (a + b))"
    by (simp only: min_def) arith
  then show ?thesis by (simp only: csat_def [of "csat c a"] unat_csat) (simp only: csat_def)
qed

lemma csat_0 [simp]: "csat c 0 = c"
  using unat_u64_less [of c] by (simp add: csat_def)

lemma csat_eq:
  assumes "unat sz = n"
  shows "(if c > c + sz then -1 else c + sz) = csat c n"
proof -
  have u: "unat (c + sz) = (unat c + n) mod 2 ^ 64"
    using assms by (simp add: unat_add_u64)
  have lt: "unat c < 2 ^ 64" "n < 2 ^ 64"
    using assms unat_u64_less [of c] unat_u64_less [of sz] by auto
  show ?thesis
  proof (cases "unat c + n < 2 ^ 64")
    case True
    then have "unat (c + sz) = unat c + n" using u by simp
    moreover have "c + sz = of_nat (unat c + n)" using assms by auto
    ultimately show ?thesis using True by (simp add: csat_def word_less_nat_alt)
  next
    case False
    then have "unat (c + sz) = unat c + n - 2 ^ 64"
      using u lt by (simp add: le_mod_geq)
    with False lt have "c > c + sz" by (simp add: word_less_nat_alt)
    with False show ?thesis by (simp add: csat_def)
  qed
qed

end
