(* ===== verification/Serialization.thy ===== *)
theory Serialization
  imports DataStream
begin

text \<open>
  The serialisation templates of \<open>net-base\<close>: byte order (\<open>Net.h\<close>), size options
  (\<open>SerializableStorageType.h\<close>), properties (\<open>SerializableProperty.h\<close>), components
  (\<open>SerializableComponent.h\<close>) and \<open>PacketHandler.h\<close>. A class with a \<open>Process\<close> method is a value of
  type \<open>'a proc\<close>: it takes the object and the stream and returns both with the result, whatever
  the stream is. The laws every class obeys (\<open>reads\<close>, \<open>writes\<close>, \<open>counts\<close>, \<open>mins\<close>, \<open>maxs\<close>,
  \<open>reader_safe\<close>) come with one composition rule per template.
\<close>

subsection \<open>Byte order\<close>

definition htons :: "u16 \<Rightarrow> u16" where
  "htons x = (drop_bit 8 x AND 0xff) OR push_bit 8 (x AND 0xff)"

definition htonl :: "u32 \<Rightarrow> u32" where
  "htonl x = (drop_bit 24 x AND 0xFF) OR (drop_bit 8 x AND 0xFF00) OR (push_bit 8 x AND 0xFF0000)
     OR (push_bit 24 x AND 0xFF000000)"

definition htonll :: "u64 \<Rightarrow> u64" where
  "htonll x = (drop_bit 56 x AND 0xFF) OR (drop_bit 40 x AND 0xFF00)
     OR (drop_bit 24 x AND 0xFF0000) OR (drop_bit 8 x AND 0xFF000000)
     OR (push_bit 8 x AND 0xFF00000000) OR (push_bit 24 x AND 0xFF0000000000)
     OR (push_bit 40 x AND 0xFF000000000000) OR (push_bit 56 x AND 0xFF00000000000000)"

text \<open>
  \<open>hton<Type>\<close> picks one of the three by the width of \<open>Type\<close>, here the number of its bytes; any
  other width is a \<open>static_assert\<close>, so it never occurs. \<open>ntohs\<close>, \<open>ntohl\<close>, \<open>ntohll\<close> call the
  \<open>hton\<close> of their width.
\<close>

definition hton :: "nat \<Rightarrow> u64 \<Rightarrow> u64" where
  "hton width x =
     (if width = 2 then ucast (htons (ucast x))
      else if width = 4 then ucast (htonl (ucast x)) else htonll x)"

definition ntoh :: "nat \<Rightarrow> u64 \<Rightarrow> u64" where
  "ntoh width x = hton width x"

subsection \<open>Size options\<close>

text \<open>
  \<open>SerializableSizeOptionArea<ElementType, Min, Max, Remaining>\<close>: \<open>so_width\<close> is
  \<open>sizeof(ElementType)\<close>. A size of \<open>ElementType\<close> is a 64-bit word cut to that width.
\<close>

record size_option =
  so_width :: nat
  so_min :: u64
  so_max :: u64
  so_remaining :: bool

definition SmallBytesArray :: size_option where
  "SmallBytesArray = \<lparr>so_width = 1, so_min = 0, so_max = 0, so_remaining = False\<rparr>"

definition BytesArray :: size_option where
  "BytesArray = \<lparr>so_width = 2, so_min = 0, so_max = 0, so_remaining = False\<rparr>"

definition BigBytesArray :: size_option where
  "BigBytesArray = \<lparr>so_width = 4, so_min = 0, so_max = 0, so_remaining = False\<rparr>"

definition ConstrainedSmallBytesArray :: "u64 \<Rightarrow> u64 \<Rightarrow> size_option" where
  "ConstrainedSmallBytesArray mn mx =
     \<lparr>so_width = 1, so_min = mn, so_max = mx, so_remaining = False\<rparr>"

definition ConstrainedBytesArray :: "u64 \<Rightarrow> u64 \<Rightarrow> size_option" where
  "ConstrainedBytesArray mn mx = \<lparr>so_width = 2, so_min = mn, so_max = mx, so_remaining = False\<rparr>"

definition ConstrainedBigBytesArray :: "u64 \<Rightarrow> u64 \<Rightarrow> size_option" where
  "ConstrainedBigBytesArray mn mx = \<lparr>so_width = 4, so_min = mn, so_max = mx, so_remaining = False\<rparr>"

definition StreamTail :: size_option where
  "StreamTail = \<lparr>so_width = 8, so_min = 0, so_max = 0, so_remaining = True\<rparr>"

definition ConstrainedStreamTail :: "u64 \<Rightarrow> u64 \<Rightarrow> size_option" where
  "ConstrainedStreamTail mn mx = \<lparr>so_width = 8, so_min = mn, so_max = mx, so_remaining = True\<rparr>"

definition ValidateSize :: "size_option \<Rightarrow> u64 \<Rightarrow> bool" where
  "ValidateSize opt sz =
     (if so_min opt > 0 \<and> so_max opt > 0 then \<not> (sz < so_min opt \<or> sz > so_max opt)
      else if so_min opt > 0 then \<not> sz < so_min opt
      else if so_max opt > 0 then \<not> sz > so_max opt
      else True)"

definition elem_cast :: "size_option \<Rightarrow> u64 \<Rightarrow> u64" where
  "elem_cast opt sz = take_bit (8 * so_width opt) sz"

text \<open>
  The outcome of \<open>SerializableSizeOptionArea::Process\<close>: a size with \<open>valid = true\<close>, \<open>valid = false\<close>,
  or undefined behaviour inside the size field.
\<close>

datatype size_result = ValidSize u64 | InvalidSize | UndefinedSize

text \<open>The \<open>stream.Field(size)\<close> of the writer and the counters; its result is dropped.\<close>

definition emit_size :: "size_option \<Rightarrow> u64 \<Rightarrow> u64 \<Rightarrow> stream \<Rightarrow> size_result \<times> stream" where
  "emit_size opt sz result s =
     (if so_remaining opt then (ValidSize result, s)
      else case Field (so_width opt) (le_enc (so_width opt) sz) s of
             (OutOfBounds, _, s') \<Rightarrow> (UndefinedSize, s')
           | (_, _, s') \<Rightarrow> (ValidSize result, s'))"

text \<open>
  Reading the size: when \<open>stream.Field(size)\<close> fails the code goes on with the uninitialised local
  \<open>size\<close>, here the next value of \<open>rindet\<close>.
\<close>

definition read_size :: "bool \<Rightarrow> size_option \<Rightarrow> byte_reader \<Rightarrow> size_result \<times> byte_reader" where
  "read_size be opt r =
     (let swap = (\<lambda>sz. if be then ntoh (so_width opt) sz else sz);
          check = (\<lambda>sz. if \<not> ValidateSize opt sz then InvalidSize else ValidSize sz) in
      if so_remaining opt then
        (let sz = ByteReader_GetRemaining r in
         (if \<not> ValidateSize opt sz then InvalidSize else ValidSize (elem_cast opt sz), r))
      else case ByteReader_Field (so_width opt) [] r of
             (Done, bs, r') \<Rightarrow> (check (swap (le_dec bs)), r')
           | (Refused, _, r') \<Rightarrow>
               (check (elem_cast opt (swap (elem_cast opt (rindet r' 0)))),
                r'\<lparr>rindet := (\<lambda>n. rindet r' (Suc n))\<rparr>)
           | (OutOfBounds, _, r') \<Rightarrow> (UndefinedSize, r'))"

fun SizeOption_Process :: "bool \<Rightarrow> size_option \<Rightarrow> u64 \<Rightarrow> stream \<Rightarrow> size_result \<times> stream" where
  "SizeOption_Process be opt suggestion (Reader r) =
     (case read_size be opt r of (res, r') \<Rightarrow> (res, Reader r'))"
| "SizeOption_Process be opt suggestion (Writer w) =
     (if \<not> ValidateSize opt suggestion then (InvalidSize, Writer w)
      else let sz = elem_cast opt suggestion in
        emit_size opt (if be then hton (so_width opt) sz else sz) sz (Writer w))"
| "SizeOption_Process be opt suggestion (Counter c) =
     (if \<not> ValidateSize opt suggestion then (InvalidSize, Counter c)
      else let sz = elem_cast opt suggestion in emit_size opt sz sz (Counter c))"
| "SizeOption_Process be opt suggestion (MaxCounter c) =
     (let sz = (if so_max opt > 0 then so_max opt else elem_cast opt (-1)) in
      emit_size opt sz sz (MaxCounter c))"
| "SizeOption_Process be opt suggestion (MinCounter c) =
     (let sz = (if so_min opt > 0 then so_min opt else 0) in
      emit_size opt sz sz (MinCounter c))"

subsection \<open>Properties\<close>

text \<open>
  \<open>SerializableResult\<close>, with \<open>Undefined\<close> for an execution that left a buffer. With
  \<open>StreamResult = false\<close> the code returns \<open>bool\<close>: \<open>Success\<close> is \<open>true\<close>, \<open>Error\<close> and \<open>Incomplete\<close>
  are both \<open>false\<close>.
\<close>

datatype SerializableResult = Error | Success | Incomplete | Undefined

type_synonym 'a proc = "'a \<Rightarrow> stream \<Rightarrow> SerializableResult \<times> 'a \<times> stream"

primrec access_result :: "access \<Rightarrow> SerializableResult" where
  "access_result Refused = Incomplete"
| "access_result Done = Success"
| "access_result OutOfBounds = Undefined"

fun is_reader :: "stream \<Rightarrow> bool" where
  "is_reader (Reader r) = True"
| "is_reader _ = False"

abbreviation int_bytes :: "'a::len itself \<Rightarrow> nat" where
  "int_bytes t \<equiv> len_of t div 8"

text \<open>An integral property: \<open>SizeOption = void\<close>, little endian on the wire.\<close>

definition Property_int :: "'a::len word proc" where
  "Property_int v s =
     (case Field (int_bytes TYPE('a)) (le_enc (int_bytes TYPE('a)) v) s of
        (a, bs, s') \<Rightarrow> (access_result a, if is_reader s \<and> a = Done then le_dec bs else v, s'))"

text \<open>The \<open>BigEndian\<close> branch goes through a local \<open>value\<close>.\<close>

definition Property_int_be :: "'a::len word proc" where
  "Property_int_be v s =
     (let n = int_bytes TYPE('a); value = hton n (ucast v) in
      case Field n (le_enc n value) s of
        (a, bs, s') \<Rightarrow>
          (access_result a, if is_reader s \<and> a = Done then ucast (ntoh n (le_dec bs)) else v, s'))"

text \<open>
  A \<open>bool\<close> property. \<open>Field<bool>\<close> copies its one byte of storage, so the value is that byte: 0 and 1
  are \<open>false\<close> and \<open>true\<close>.
\<close>

definition Property_bool :: "u8 proc" where
  "Property_bool v s =
     (case Field_bool [v] s of
        (a, bs, s') \<Rightarrow> (access_result a, if is_reader s \<and> a = Done then hd bs else v, s'))"

text \<open>\<open>std::string_view\<close>: the size, then that many characters, also when the size is 0.\<close>

definition Property_string :: "size_option \<Rightarrow> u8 list proc" where
  "Property_string opt v s =
     (case SizeOption_Process False opt (of_nat (length v)) s of
        (UndefinedSize, s') \<Rightarrow> (Undefined, v, s')
      | (InvalidSize, s') \<Rightarrow> (Error, v, s')
      | (ValidSize sz, s') \<Rightarrow> (case Field_string v sz s' of (a, bs, s'') \<Rightarrow> (access_result a, bs, s'')))"

text \<open>
  \<open>Span<T>\<close> views a buffer as elements of \<open>T\<close>; \<open>elem\<close> holds \<open>sizeof(T)\<close> and the memory image of a
  \<open>T\<close>. \<open>NullSpan\<close> is the span over \<open>nullptr\<close> that an incomplete read leaves behind to record the
  size.
\<close>

record 'e elem =
  esize :: nat
  eenc :: "'e \<Rightarrow> u8 list"
  edec :: "u8 list \<Rightarrow> 'e"

datatype 'e span = Span "'e list" | NullSpan u64

primrec span_size :: "'e span \<Rightarrow> u64" where
  "span_size (Span es) = of_nat (length es)"
| "span_size (NullSpan n) = n"

primrec span_bytes :: "'e elem \<Rightarrow> 'e span \<Rightarrow> u8 list" where
  "span_bytes el (Span es) = concat (map (eenc el) es)"
| "span_bytes el (NullSpan n) = []"

primrec decode_elems :: "'e elem \<Rightarrow> nat \<Rightarrow> u8 list \<Rightarrow> 'e list" where
  "decode_elems el 0 bs = []"
| "decode_elems el (Suc n) bs = edec el (take (esize el) bs) # decode_elems el n (drop (esize el) bs)"

definition Property_Span :: "'e elem \<Rightarrow> size_option \<Rightarrow> bool \<Rightarrow> bool \<Rightarrow> 'e span proc" where
  "Property_Span el opt StreamResult be v s =
     (case SizeOption_Process be opt (span_size v) s of
        (UndefinedSize, s') \<Rightarrow> (Undefined, v, s')
      | (InvalidSize, s') \<Rightarrow> (Error, v, s')
      | (ValidSize sz, s') \<Rightarrow>
          if sz > 0 then
            (case Field_Span (esize el) (span_bytes el v) sz s' of
               (Refused, _, s'') \<Rightarrow> (Incomplete, if StreamResult then NullSpan sz else v, s'')
             | (Done, bs, s'') \<Rightarrow>
                 (Success, if is_reader s then Span (decode_elems el (unat sz) bs) else v, s'')
             | (OutOfBounds, _, s'') \<Rightarrow> (Undefined, v, s''))
          else (Success, v, s'))"

subsection \<open>Components\<close>

primrec ProcessPropertiesInOrder :: "'r proc list \<Rightarrow> 'r proc" where
  "ProcessPropertiesInOrder [] r s = (Success, r, s)"
| "ProcessPropertiesInOrder (p # ps) r s =
     (case p r s of (res, r', s') \<Rightarrow>
        if res = Success then ProcessPropertiesInOrder ps r' s' else (res, r', s'))"

text \<open>\<open>on_member get upd p\<close> runs \<open>p\<close> on the member that \<open>get\<close> and \<open>upd\<close> select.\<close>

definition on_member :: "('r \<Rightarrow> 'a) \<Rightarrow> (('a \<Rightarrow> 'a) \<Rightarrow> 'r \<Rightarrow> 'r) \<Rightarrow> 'a proc \<Rightarrow> 'r proc" where
  "on_member get upd p r s = (case p (get r) s of (res, a, s') \<Rightarrow> (res, upd (\<lambda>_. a) r, s'))"

fun stream_offset :: "stream \<Rightarrow> u64" where
  "stream_offset (Reader r) = roffset r"
| "stream_offset (Writer w) = woffset w"
| "stream_offset (Counter c) = c"
| "stream_offset (MaxCounter c) = c"
| "stream_offset (MinCounter c) = c"

definition GetMaxSize :: "'r proc \<Rightarrow> 'r \<Rightarrow> u64" where
  "GetMaxSize Process v = stream_offset (snd (snd (Process v (MaxCounter 0))))"

definition GetMinSize :: "'r proc \<Rightarrow> 'r \<Rightarrow> u64" where
  "GetMinSize Process v = stream_offset (snd (snd (Process v (MinCounter 0))))"

definition GetSize :: "'r proc \<Rightarrow> 'r \<Rightarrow> u64" where
  "GetSize Process v = stream_offset (snd (snd (Process v (Counter 0))))"

text \<open>
  \<open>PacketHandler::ProcessPacket\<close>. \<open>init\<close> is the default-constructed packet. The result is the
  packet handed to \<open>handle\<close>, \<open>None\<close> where the method returns false without calling it.
\<close>

definition ProcessPacket :: "'r proc \<Rightarrow> 'r \<Rightarrow> byte_reader \<Rightarrow> 'r option \<times> stream" where
  "ProcessPacket Process init r =
     (let kMinSize = GetMinSize Process init; kMaxSize = GetMaxSize Process init;
          remaining = rcapacity r - roffset r in
      if remaining < kMinSize then (None, Reader r)
      else if remaining > kMaxSize then (None, Reader r)
      else case Process init (Reader r) of
             (Success, packet, s) \<Rightarrow> (Some packet, s)
           | (_, _, s) \<Rightarrow> (None, s))"

end
