(* ===== verification/SerializationLaws.thy ===== *)
theory SerializationLaws
  imports Serialization
begin

text \<open>
  The laws of a serialisable class over its wire format (the byte list it stands for), one
  predicate per stream, with the rules that compose them along \<open>ProcessPropertiesInOrder\<close>.
\<close>

subsection \<open>The laws\<close>

text \<open>
  \<open>reads P tail v0 v bs\<close>: reading \<open>bs\<close> into \<open>v0\<close> gives \<open>v\<close> and consumes exactly \<open>bs\<close>. With \<open>tail\<close> the
  bytes must end the stream, as a stream tail takes all that remains.
\<close>

definition reads :: "'r proc \<Rightarrow> bool \<Rightarrow> 'r \<Rightarrow> 'r \<Rightarrow> u8 list \<Rightarrow> bool" where
  "reads P tail v0 v bs \<longleftrightarrow> (\<forall>pre rest ind.
     addressable (length pre + length bs + length rest) \<longrightarrow> (tail \<longrightarrow> rest = []) \<longrightarrow>
     P v0 (Reader (rdr pre (bs @ rest) ind)) = (Success, v, Reader (rdr (pre @ bs) rest ind)))"

definition writes :: "'r proc \<Rightarrow> 'r \<Rightarrow> u8 list \<Rightarrow> bool" where
  "writes P v bs \<longleftrightarrow> (\<forall>out room.
     addressable (length out + length room) \<longrightarrow> length bs \<le> length room \<longrightarrow>
     P v (Writer (wtr out room)) = (Success, v, Writer (wtr (out @ bs) (drop (length bs) room))))"

definition counts :: "'r proc \<Rightarrow> 'r \<Rightarrow> nat \<Rightarrow> bool" where
  "counts P v n \<longleftrightarrow> (\<forall>c. P v (Counter c) = (Success, v, Counter (csat c n)))"

definition mins :: "'r proc \<Rightarrow> 'r \<Rightarrow> nat \<Rightarrow> bool" where
  "mins P v n \<longleftrightarrow> (\<forall>c. P v (MinCounter c) = (Success, v, MinCounter (csat c n)))"

definition maxs :: "'r proc \<Rightarrow> 'r \<Rightarrow> nat \<Rightarrow> bool" where
  "maxs P v n \<longleftrightarrow> (\<forall>c. P v (MaxCounter c) = (Success, v, MaxCounter (csat c n)))"

definition reader_safe :: "'r proc \<Rightarrow> bool" where
  "reader_safe P \<longleftrightarrow> (\<forall>v r. reader_ok r \<longrightarrow>
     (\<exists>res v' r'. P v (Reader r) = (res, v', Reader r') \<and> res \<noteq> Undefined \<and> reader_ok r'
        \<and> rdata r' = rdata r \<and> roffset r \<le> roffset r'))"

lemma reads_weaken: "reads P False v0 v bs \<Longrightarrow> reads P tail v0 v bs"
  by (auto simp: reads_def)

lemma reads_eq: "reads P tail v0 v' bs' \<Longrightarrow> v' = v \<Longrightarrow> bs' = bs \<Longrightarrow> reads P tail v0 v bs"
  by simp

lemma writes_eq: "writes P v bs' \<Longrightarrow> bs' = bs \<Longrightarrow> writes P v bs"
  by simp

lemma counts_eq: "counts P v m \<Longrightarrow> m = n \<Longrightarrow> counts P v n"
  "mins P v m \<Longrightarrow> m = n \<Longrightarrow> mins P v n"
  "maxs P v m \<Longrightarrow> m = n \<Longrightarrow> maxs P v n"
  by simp_all

subsection \<open>Composition\<close>

lemma Nil_laws [wire_intros]:
  "v0 = v \<Longrightarrow> reads (ProcessPropertiesInOrder []) tail v0 v []"
  "writes (ProcessPropertiesInOrder []) v []" "counts (ProcessPropertiesInOrder []) v 0"
  "mins (ProcessPropertiesInOrder []) v 0" "maxs (ProcessPropertiesInOrder []) v 0"
  by (simp_all add: reads_def writes_def counts_def mins_def maxs_def)

lemma reads_single:
  "reads p tail v0 v bs \<Longrightarrow> reads (ProcessPropertiesInOrder [p]) tail v0 v bs"
  by (simp add: reads_def)

lemma reads_Cons:
  assumes "reads p False v0 v1 bs" "reads (ProcessPropertiesInOrder (q # ps)) tail v1 v2 bs'"
  shows "reads (ProcessPropertiesInOrder (p # q # ps)) tail v0 v2 (bs @ bs')"
  unfolding reads_def
proof (intro allI impI)
  fix pre rest :: "u8 list" and ind
  assume fit: "addressable (length pre + length (bs @ bs') + length rest)" and tail: "tail \<longrightarrow> rest = []"
  have "p v0 (Reader (rdr pre (bs @ bs' @ rest) ind)) = (Success, v1, Reader (rdr (pre @ bs) (bs' @ rest) ind))"
    using assms(1) fit unfolding reads_def by (elim allE [of _ pre] allE [of _ "bs' @ rest"]) simp
  moreover have "ProcessPropertiesInOrder (q # ps) v1 (Reader (rdr (pre @ bs) (bs' @ rest) ind))
      = (Success, v2, Reader (rdr ((pre @ bs) @ bs') rest ind))"
    using assms(2) fit tail unfolding reads_def by (elim allE [of _ "pre @ bs"] allE [of _ rest]) simp
  ultimately show "ProcessPropertiesInOrder (p # q # ps) v0 (Reader (rdr pre ((bs @ bs') @ rest) ind))
      = (Success, v2, Reader (rdr (pre @ bs @ bs') rest ind))"
    by (simp del: ProcessPropertiesInOrder.simps add: ProcessPropertiesInOrder.simps(2) [of p])
qed

lemma writes_single [wire_intros]:
  "writes p v bs \<Longrightarrow> writes (ProcessPropertiesInOrder [p]) v bs"
  by (simp add: writes_def)

lemma writes_Cons [wire_intros]:
  assumes "writes p v bs" "writes (ProcessPropertiesInOrder (q # ps)) v bs'"
  shows "writes (ProcessPropertiesInOrder (p # q # ps)) v (bs @ bs')"
  unfolding writes_def
proof (intro allI impI)
  fix out room :: "u8 list"
  assume fit: "addressable (length out + length room)" and len: "length (bs @ bs') \<le> length room"
  have "p v (Writer (wtr out room)) = (Success, v, Writer (wtr (out @ bs) (drop (length bs) room)))"
    using assms(1) fit len unfolding writes_def by simp
  moreover have "ProcessPropertiesInOrder (q # ps) v (Writer (wtr (out @ bs) (drop (length bs) room)))
      = (Success, v, Writer (wtr ((out @ bs) @ bs') (drop (length bs') (drop (length bs) room))))"
    using assms(2) fit len unfolding writes_def
    by (elim allE [of _ "out @ bs"] allE [of _ "drop (length bs) room"]) simp
  ultimately show "ProcessPropertiesInOrder (p # q # ps) v (Writer (wtr out room))
      = (Success, v, Writer (wtr (out @ bs @ bs') (drop (length (bs @ bs')) room)))"
    by (simp del: ProcessPropertiesInOrder.simps add: ProcessPropertiesInOrder.simps(2) [of p] add.commute)
qed

lemma counter_laws_single [wire_intros]:
  "counts p v n \<Longrightarrow> counts (ProcessPropertiesInOrder [p]) v n"
  "mins p v n \<Longrightarrow> mins (ProcessPropertiesInOrder [p]) v n"
  "maxs p v n \<Longrightarrow> maxs (ProcessPropertiesInOrder [p]) v n"
  by (simp_all add: counts_def mins_def maxs_def)

lemma counter_laws_Cons [wire_intros]:
  "counts p v m \<Longrightarrow> counts (ProcessPropertiesInOrder (q # ps)) v n \<Longrightarrow>
     counts (ProcessPropertiesInOrder (p # q # ps)) v (m + n)"
  "mins p v m \<Longrightarrow> mins (ProcessPropertiesInOrder (q # ps)) v n \<Longrightarrow>
     mins (ProcessPropertiesInOrder (p # q # ps)) v (m + n)"
  "maxs p v m \<Longrightarrow> maxs (ProcessPropertiesInOrder (q # ps)) v n \<Longrightarrow>
     maxs (ProcessPropertiesInOrder (p # q # ps)) v (m + n)"
  unfolding counts_def mins_def maxs_def
  by (subst ProcessPropertiesInOrder.simps(2) [of p]; simp del: ProcessPropertiesInOrder.simps)+

lemma reads_member:
  "reads p tail (get r) a bs \<Longrightarrow> reads (on_member get upd p) tail r (upd (\<lambda>_. a) r) bs"
  by (simp add: reads_def on_member_def)

text \<open>Reading a record member by member: \<open>v\<close> is the record being received.\<close>

lemma reads_members [wire_intros]:
  assumes "reads p False (get r0) (get v) bs"
    and "reads (ProcessPropertiesInOrder (q # ps)) tail (upd (\<lambda>_. get v) r0) v bs'"
  shows "reads (ProcessPropertiesInOrder (on_member get upd p # q # ps)) tail r0 v (bs @ bs')"
proof (rule reads_Cons)
  show "reads (on_member get upd p) False r0 (upd (\<lambda>_. get v) r0) bs"
    using assms(1) by (rule reads_member)
qed (rule assms(2))

lemma reads_last_member [wire_intros]:
  assumes "reads p tail (get r0) (get v) bs" "upd (\<lambda>_. get v) r0 = v"
  shows "reads (ProcessPropertiesInOrder [on_member get upd p]) tail r0 v bs"
proof (rule reads_eq [OF _ assms(2) refl])
  show "reads (ProcessPropertiesInOrder [on_member get upd p]) tail r0 (upd (\<lambda>_. get v) r0) bs"
    using assms(1) by (intro reads_single reads_member)
qed

lemma writes_member [wire_intros]:
  "writes p (get r) bs \<Longrightarrow> upd (\<lambda>_. get r) r = r \<Longrightarrow> writes (on_member get upd p) r bs"
  by (simp add: writes_def on_member_def)

lemma counter_laws_member [wire_intros]:
  "counts p (get r) n \<Longrightarrow> upd (\<lambda>_. get r) r = r \<Longrightarrow> counts (on_member get upd p) r n"
  "mins p (get r) n \<Longrightarrow> upd (\<lambda>_. get r) r = r \<Longrightarrow> mins (on_member get upd p) r n"
  "maxs p (get r) n \<Longrightarrow> upd (\<lambda>_. get r) r = r \<Longrightarrow> maxs (on_member get upd p) r n"
  by (simp_all add: counts_def mins_def maxs_def on_member_def)

lemma safe_member [safe_intros]:
  assumes "reader_safe p"
  shows "reader_safe (on_member get upd p)"
  unfolding reader_safe_def
proof (intro allI impI)
  fix v r assume "reader_ok r"
  then obtain res a r' where "p (get v) (Reader r) = (res, a, Reader r')" "res \<noteq> Undefined"
      "reader_ok r'" "rdata r' = rdata r" "roffset r \<le> roffset r'"
    using assms unfolding reader_safe_def by blast
  then show "\<exists>res v' r'. on_member get upd p v (Reader r) = (res, v', Reader r') \<and>
      res \<noteq> Undefined \<and> reader_ok r' \<and> rdata r' = rdata r \<and> roffset r \<le> roffset r'"
    by (auto simp: on_member_def)
qed

lemma safe_Nil [safe_intros]: "reader_safe (ProcessPropertiesInOrder [])"
  by (auto simp: reader_safe_def)

lemma safe_Cons [safe_intros]:
  assumes "reader_safe p" "reader_safe (ProcessPropertiesInOrder ps)"
  shows "reader_safe (ProcessPropertiesInOrder (p # ps))"
  unfolding reader_safe_def
proof (intro allI impI)
  fix v r assume ok: "reader_ok r"
  obtain res v1 r1 where 1: "p v (Reader r) = (res, v1, Reader r1)" "res \<noteq> Undefined" "reader_ok r1"
      "rdata r1 = rdata r" "roffset r \<le> roffset r1"
    using assms(1) ok unfolding reader_safe_def by blast
  obtain res2 v2 r2 where 2: "ProcessPropertiesInOrder ps v1 (Reader r1) = (res2, v2, Reader r2)"
      "res2 \<noteq> Undefined" "reader_ok r2" "rdata r2 = rdata r1" "roffset r1 \<le> roffset r2"
    using assms(2) 1(3) unfolding reader_safe_def by blast
  show "\<exists>res v' r'. ProcessPropertiesInOrder (p # ps) v (Reader r) = (res, v', Reader r') \<and>
      res \<noteq> Undefined \<and> reader_ok r' \<and> rdata r' = rdata r \<and> roffset r \<le> roffset r'"
    using 1 2 order.trans [OF 1(5) 2(5)] by (cases "res = Success") auto
qed

end
