(* ===== verification/PropertyLaws.thy ===== *)
theory PropertyLaws
  imports SerializationLaws
begin

text \<open>
  The laws of the property templates: the wire format of integers, strings and spans, and the
  proofs that each template reads, writes, counts and bounds exactly that format, and never reads
  outside the packet whatever the packet holds.
\<close>

subsection \<open>One field\<close>

lemma ByteReader_Field_rdr:
  assumes "addressable (length pre + length bs + length rest)" "n = length bs"
  shows "ByteReader_Field n v (rdr pre (bs @ rest) ind) = (Done, bs, rdr (pre @ bs) rest ind)"
  using assms rdr_CanRead [of pre "bs @ rest" n ind] rdr_copy [of pre bs rest n ind]
  by (simp add: ByteReader_Field_def)

lemma Field_rdr [stream_simps]:
  assumes "addressable (length pre + length bs + length rest)" "n = length bs"
  shows "Field n v (Reader (rdr pre (bs @ rest) ind)) = (Done, bs, Reader (rdr (pre @ bs) rest ind))"
  using assms rdr_CanRead [of pre "bs @ rest" n ind] rdr_copy [of pre bs rest n ind]
  by (simp add: ByteReader_Field_def)

lemma Field_Span_rdr [stream_simps]:
  assumes "addressable (length pre + length bs + length rest)" "unat sz * k = length bs"
  shows "Field_Span k v sz (Reader (rdr pre (bs @ rest) ind)) = (Done, bs, Reader (rdr (pre @ bs) rest ind))"
proof -
  have "sz * of_nat k = of_nat (length bs)"
    using assms(2) by (metis of_nat_mult word_unat_eq_iff unat_of_nat of_nat_unat ucast_id)
  then show ?thesis
    using assms rdr_CanRead [of pre "bs @ rest" "length bs" ind] rdr_copy [of pre bs rest "length bs" ind]
    by (simp add: ByteReader_Field_Span_def Let_def)
qed

lemma Field_wtr [stream_simps]:
  assumes "addressable (length out + length room)" "n = length bs" "n \<le> length room"
  shows "Field n bs (Writer (wtr out room)) = (Done, bs, Writer (wtr (out @ bs) (drop n room)))"
  using assms wtr_CanWrite [of out room n] wtr_copy [of out room n bs]
  by (simp add: ByteWriter_Field_def)

lemma Field_Span_wtr [stream_simps]:
  assumes "addressable (length out + length room)" "unat sz * k = length bs" "length bs \<le> length room"
  shows "Field_Span k bs sz (Writer (wtr out room)) = (Done, bs, Writer (wtr (out @ bs) (drop (length bs) room)))"
proof -
  have "sz * of_nat k = of_nat (length bs)"
    using assms(2) by (metis of_nat_mult word_unat_eq_iff unat_of_nat of_nat_unat ucast_id)
  then show ?thesis
    using assms wtr_CanWrite [of out room "length bs"] wtr_copy [of out room "length bs" bs]
    by (simp add: ByteWriter_Field_Span_def Let_def)
qed

lemma ByteCounter_Field_csat [stream_simps]:
  "n < 2 ^ 64 \<Longrightarrow> ByteCounter_Field n c = csat c n"
  using csat_eq [of "of_nat n" n c] by (simp add: ByteCounter_Field_def Let_def)

lemma ByteCounter_Field_Span_csat [stream_simps]:
  "unat sz * k < 2 ^ 64 \<Longrightarrow> ByteCounter_Field_Span k sz c = csat c (unat sz * k)"
proof -
  assume lt: "unat sz * k < 2 ^ 64"
  have "sz * of_nat k = of_nat (unat sz * k)" by simp
  with lt have "unat (sz * of_nat k) = unat sz * k"
    by (simp only: unat_of_nat_u64)
  from csat_eq [OF this, of c] show ?thesis by (simp add: ByteCounter_Field_Span_def Let_def)
qed

lemma ByteCounter_string_csat [stream_simps]:
  "ByteCounter_Field_string_view sz c = csat c (unat sz)"
  using csat_eq [of sz "unat sz" c] by (simp add: ByteCounter_Field_string_view_def)

lemma ByteCounter_bool_csat [stream_simps]: "ByteCounter_Field_bool c = csat c 1"
  using csat_eq [of 1 1 c] by (simp add: ByteCounter_Field_bool_def Let_def)

lemma reader_copy_safe:
  assumes "reader_ok r" "ByteReader_CanRead sz r" "unat sz < 2 ^ 63"
  shows "\<exists>bs r'. reader_copy sz r = (Done, bs, r') \<and> length bs = unat sz \<and> reader_ok r'
     \<and> rdata r' = rdata r \<and> roffset r \<le> roffset r' \<and> rindet r' = rindet r"
proof -
  have o: "unat (roffset r) \<le> length (rdata r)" "addressable (length (rdata r))"
    "unat (rcapacity r) = length (rdata r)"
    using assms(1) by (simp_all add: reader_ok_def word_le_nat_alt)
  then have sum: "unat (roffset r + sz) = unat (roffset r) + unat sz"
    using assms(3) by (simp add: unat_add_u64)
  then have "unat (roffset r) + unat sz \<le> length (rdata r)"
    using assms(2) o by (simp add: ByteReader_CanRead_def word_le_nat_alt)
  then show ?thesis
    using o sum by (auto simp: reader_copy_def Let_def reader_ok_def word_le_nat_alt)
qed

subsection \<open>Byte order\<close>

lemma le_enc_2: "le_enc 2 w = [ucast w, ucast (drop_bit 8 w)]"
  by (simp add: numeral_eq_Suc)

lemma le_enc_4:
  "le_enc 4 w = [ucast w, ucast (drop_bit 8 w), ucast (drop_bit 16 w), ucast (drop_bit 24 w)]"
  by (simp add: numeral_eq_Suc)

lemma byte_masks:
  "(255 :: 'a::len word) = mask 8" "(65280 :: 'a word) = push_bit 8 (mask 8)"
  "(16711680 :: 'a word) = push_bit 16 (mask 8)" "(4278190080 :: 'a word) = push_bit 24 (mask 8)"
  by (simp_all add: mask_eq_exp_minus_1 push_bit_eq_mult)

lemma le_enc_hton2: "le_enc 2 (hton 2 x) = rev (le_enc 2 x)"
  unfolding le_enc_2 hton_def htons_def byte_masks
  by (simp, intro conjI; rule bit_word_eqI;
      auto simp: bit_simps dest: bit_imp_le_length)

lemma le_enc_hton4: "le_enc 4 (hton 4 x) = rev (le_enc 4 x)"
  unfolding le_enc_4 hton_def htonl_def byte_masks
  by (simp, intro conjI; rule bit_word_eqI;
      auto simp: bit_simps dest: bit_imp_le_length)


lemma le_enc_take_bit: "8 * n \<le> m \<Longrightarrow> le_enc n (take_bit m (w :: 'a::len word)) = le_enc n w"
proof (induction n arbitrary: m w)
  case (Suc n)
  have "ucast (take_bit m w) = (ucast w :: u8)"
    using Suc.prems by (intro bit_word_eqI) (auto simp: bit_simps dest: bit_imp_le_length)
  moreover have "drop_bit 8 (take_bit m w) = take_bit (m - 8) (drop_bit 8 w)"
    by (simp add: drop_bit_take_bit)
  ultimately show ?case
    using Suc.IH [of "m - 8" "drop_bit 8 w"] Suc.prems by simp
qed simp

definition be_width :: "nat \<Rightarrow> bool" where
  "be_width w \<longleftrightarrow> w = 2 \<or> w = 4"

lemma le_enc_hton: "be_width w \<Longrightarrow> le_enc w (hton w x) = rev (le_enc w x)"
  by (auto simp: be_width_def le_enc_hton2 le_enc_hton4)

lemma take_bit_hton: "be_width w \<Longrightarrow> take_bit (8 * w) (hton w x) = hton w x"
  by (rule bit_word_eqI) (auto simp: be_width_def hton_def bit_simps dest: bit_imp_le_length)

lemma ntoh_le_dec:
  assumes "be_width w"
  shows "ntoh w (le_dec (rev (le_enc w x))) = take_bit (8 * w) x"
proof -
  let ?y = "le_dec (rev (le_enc w x)) :: u64"
  have "le_enc w ?y = rev (le_enc w x)"
    using assms by (intro le_enc_dec) (auto simp: be_width_def)
  then have "le_enc w (hton w ?y) = le_enc w x"
    by (simp add: le_enc_hton [OF assms])
  then have "take_bit (8 * w) (hton w ?y) = (take_bit (8 * w) x :: u64)"
    by (metis le_dec_enc_take_bit)
  then show ?thesis
    by (simp add: ntoh_def take_bit_hton [OF assms])
qed

subsection \<open>Integers\<close>

definition wire_int :: "'a::len word \<Rightarrow> u8 list" where
  "wire_int w = le_enc (int_bytes TYPE('a)) w"

definition wire_int_be :: "'a::len word \<Rightarrow> u8 list" where
  "wire_int_be w = rev (le_enc (int_bytes TYPE('a)) w)"

abbreviation whole_bytes :: "'a::len itself \<Rightarrow> bool" where
  "whole_bytes t \<equiv> 8 * int_bytes t = len_of t \<and> len_of t \<le> 64"

lemma length_wire_int [simp]:
  "length (wire_int (w :: 'a::len word)) = int_bytes TYPE('a)"
  "length (wire_int_be (w :: 'a::len word)) = int_bytes TYPE('a)"
  by (simp_all add: wire_int_def wire_int_be_def)

lemma le_dec_wire_int: "whole_bytes TYPE('a::len) \<Longrightarrow> le_dec (wire_int w) = (w :: 'a word)"
  by (simp add: wire_int_def)

lemma reads_int [wire_intros]:
  "whole_bytes TYPE('a::len) \<Longrightarrow> reads Property_int tail v0 (w :: 'a word) (wire_int w)"
  unfolding reads_def
proof (intro allI impI)
  fix pre rest :: "u8 list" and ind
  assume wb: "whole_bytes TYPE('a)"
    and fit: "addressable (length pre + length (wire_int w) + length rest)"
  have "Field (int_bytes TYPE('a)) (le_enc (int_bytes TYPE('a)) v0) (Reader (rdr pre (wire_int w @ rest) ind))
      = (Done, wire_int w, Reader (rdr (pre @ wire_int w) rest ind))"
    by (rule Field_rdr [OF fit]) simp
  then show "Property_int v0 (Reader (rdr pre (wire_int w @ rest) ind))
      = (Success, w, Reader (rdr (pre @ wire_int w) rest ind))"
    by (simp add: Property_int_def le_dec_wire_int [OF wb])
qed

lemma writes_int [wire_intros]: "writes Property_int w (wire_int w)"
  unfolding writes_def
proof (intro allI impI)
  fix out room :: "u8 list"
  assume fit: "addressable (length out + length room)" "length (wire_int w) \<le> length room"
  show "Property_int w (Writer (wtr out room))
      = (Success, w, Writer (wtr (out @ wire_int w) (drop (length (wire_int w)) room)))"
    using Field_wtr [of out room _ "wire_int w", OF fit(1) refl fit(2)]
    by (simp add: Property_int_def wire_int_def)
qed

lemma int_bytes_small:
  "whole_bytes TYPE('a::len) \<Longrightarrow> int_bytes TYPE('a) < 2 ^ 64"
  "whole_bytes TYPE('a::len) \<Longrightarrow> int_bytes TYPE('a) < 2 ^ 62"
  by simp_all

lemma counter_laws_int [wire_intros]:
  assumes "whole_bytes TYPE('a::len)"
  shows "counts Property_int (w :: 'a word) (int_bytes TYPE('a))"
    "mins Property_int (w :: 'a word) (int_bytes TYPE('a))"
    "maxs Property_int (w :: 'a word) (int_bytes TYPE('a))"
  using int_bytes_small(1) [OF assms]
  by (simp_all add: counts_def mins_def maxs_def Property_int_def ByteCounter_Field_csat)

lemma reads_int_be [wire_intros]:
  assumes "whole_bytes TYPE('a::len)" "be_width (int_bytes TYPE('a))"
  shows "reads Property_int_be tail v0 (w :: 'a word) (wire_int_be w)"
  unfolding reads_def
proof (intro allI impI)
  fix pre rest :: "u8 list" and ind
  assume fit: "addressable (length pre + length (wire_int_be w) + length rest)"
  let ?n = "int_bytes TYPE('a)"
  have f: "Field ?n (le_enc ?n (hton ?n (ucast v0))) (Reader (rdr pre (wire_int_be w @ rest) ind))
      = (Done, wire_int_be w, Reader (rdr (pre @ wire_int_be w) rest ind))"
    by (rule Field_rdr [OF fit]) simp
  have "le_enc ?n w = le_enc ?n (ucast w :: u64)"
    using assms(2) by (auto simp: be_width_def le_enc_2 le_enc_4 intro!: bit_word_eqI simp: bit_simps)
  then have "ucast (ntoh ?n (le_dec (wire_int_be w))) = (ucast (take_bit (8 * ?n) (ucast w :: u64)) :: 'a word)"
    by (simp add: wire_int_be_def ntoh_le_dec [OF assms(2)])
  also have "\<dots> = w"
    using assms(1) by (intro bit_word_eqI) (auto simp: bit_simps dest: bit_imp_le_length)
  finally show "Property_int_be v0 (Reader (rdr pre (wire_int_be w @ rest) ind))
      = (Success, w, Reader (rdr (pre @ wire_int_be w) rest ind))"
    using f by (simp add: Property_int_be_def Let_def)
qed


lemma writes_int_be [wire_intros]:
  assumes "be_width (int_bytes TYPE('a::len))"
  shows "writes Property_int_be (w :: 'a word) (wire_int_be w)"
  unfolding writes_def
proof (intro allI impI)
  fix out room :: "u8 list"
  assume fit: "addressable (length out + length room)" "length (wire_int_be w) \<le> length room"
  let ?n = "int_bytes TYPE('a)"
  have "le_enc ?n w = le_enc ?n (ucast w :: u64)"
    using assms by (auto simp: be_width_def le_enc_2 le_enc_4 intro!: bit_word_eqI simp: bit_simps)
  then have "le_enc ?n (hton ?n (ucast w)) = wire_int_be w"
    by (simp add: wire_int_be_def le_enc_hton [OF assms])
  then show "Property_int_be w (Writer (wtr out room))
      = (Success, w, Writer (wtr (out @ wire_int_be w) (drop (length (wire_int_be w)) room)))"
    using Field_wtr [of out room _ "wire_int_be w", OF fit(1) refl fit(2)]
    by (simp add: Property_int_be_def Let_def)
qed

lemma counter_laws_int_be [wire_intros]:
  assumes "whole_bytes TYPE('a::len)"
  shows "counts Property_int_be (w :: 'a word) (int_bytes TYPE('a))"
    "mins Property_int_be (w :: 'a word) (int_bytes TYPE('a))"
    "maxs Property_int_be (w :: 'a word) (int_bytes TYPE('a))"
  using int_bytes_small(1) [OF assms]
  by (simp_all add: counts_def mins_def maxs_def Property_int_be_def Let_def ByteCounter_Field_csat)

lemma bool_laws [wire_intros]:
  "reads Property_bool tail v0 v [v]" "writes Property_bool v [v]"
  "counts Property_bool v 1" "mins Property_bool v 1" "maxs Property_bool v 1"
proof -
  have f: "Field_bool u (Reader r) = Field 1 u (Reader r)" "Field_bool u (Writer w) = Field 1 u (Writer w)"
    for u r w
    by (simp_all add: ByteReader_Field_bool_def ByteWriter_Field_bool_def)
  have "Property_bool v0 (Reader (rdr pre (v # rest) ind)) = (Success, v, Reader (rdr (pre @ [v]) rest ind))"
    if "addressable (length pre + 1 + length rest)" for pre rest ind
    using Field_rdr [of pre "[v]" rest 1 "[v0]" ind] that
    by (simp add: Property_bool_def f del: Field_bool.simps Field.simps)
  then show "reads Property_bool tail v0 v [v]" by (simp add: reads_def)
  have "Property_bool v (Writer (wtr out room)) = (Success, v, Writer (wtr (out @ [v]) (drop 1 room)))"
    if "addressable (length out + length room)" "1 \<le> length room" for out room
    using Field_wtr [of out room 1 "[v]"] that
    by (simp add: Property_bool_def f del: Field_bool.simps Field.simps)
  then show "writes Property_bool v [v]" by (simp add: writes_def)
qed (simp_all add: counts_def mins_def maxs_def Property_bool_def ByteCounter_bool_csat)

subsection \<open>Sizes\<close>

definition so_lo :: "size_option \<Rightarrow> nat" where
  "so_lo opt = unat (so_min opt)"

definition so_hi :: "size_option \<Rightarrow> nat" where
  "so_hi opt = (if so_max opt > 0 then unat (so_max opt) else 2 ^ (8 * so_width opt) - 1)"

definition so_header :: "size_option \<Rightarrow> nat" where
  "so_header opt = (if so_remaining opt then 0 else so_width opt)"

definition size_fits :: "size_option \<Rightarrow> nat \<Rightarrow> bool" where
  "size_fits opt n \<longleftrightarrow> so_lo opt \<le> n \<and> n \<le> so_hi opt \<and> addressable n"

text \<open>
  What the templates assume of their arguments: the width is that of an unsigned type, the
  constraint fits it, and a stream tail counts bytes.
\<close>

definition opt_ok :: "size_option \<Rightarrow> nat \<Rightarrow> bool \<Rightarrow> bool" where
  "opt_ok opt k be \<longleftrightarrow> 0 < k \<and> k < 2 ^ 16 \<and> so_lo opt \<le> so_hi opt \<and> so_hi opt < 2 ^ (8 * so_width opt)
     \<and> (if so_remaining opt then so_width opt = 8 \<and> k = 1 \<and> \<not> be
        else so_width opt \<in> {1, 2, 4} \<and> (be \<longrightarrow> be_width (so_width opt)))"

definition wire_size :: "bool \<Rightarrow> size_option \<Rightarrow> nat \<Rightarrow> u8 list" where
  "wire_size be opt n =
     (if so_remaining opt then []
      else if be then rev (le_enc (so_width opt) (of_nat n :: u64)) else le_enc (so_width opt) (of_nat n :: u64))"

lemma length_wire_size [simp]: "length (wire_size be opt n) = so_header opt"
  by (simp add: wire_size_def so_header_def)

lemma size_fits_valid:
  assumes "opt_ok opt k be" "size_fits opt n"
  shows "ValidateSize opt (of_nat n)" "elem_cast opt (of_nat n) = of_nat n" "unat (of_nat n :: u64) = n"
proof -
  have n: "n < 2 ^ (8 * so_width opt)" "n < 2 ^ 64"
    using assms by (auto simp: opt_ok_def size_fits_def)
  show u: "unat (of_nat n :: u64) = n" using n by simp
  have "(of_nat n :: u64) \<ge> so_min opt" "so_max opt > 0 \<Longrightarrow> (of_nat n :: u64) \<le> so_max opt"
    using assms(2) u by (auto simp: size_fits_def so_lo_def so_hi_def word_le_nat_alt)
  then show "ValidateSize opt (of_nat n)" by (auto simp: ValidateSize_def)
  have "unat (take_bit (8 * so_width opt) (of_nat n :: u64)) = n"
    using n u by (simp add: unsigned_take_bit_eq take_bit_nat_eq_self)
  then show "elem_cast opt (of_nat n) = of_nat n"
    using u by (metis elem_cast_def word_unat_eq_iff)
qed

lemma emit_size_wtr:
  assumes "opt_ok opt k be" "size_fits opt n" "addressable (length out + length room)"
    "so_header opt \<le> length room"
  shows "SizeOption_Process be opt (of_nat n) (Writer (wtr out room))
    = (ValidSize (of_nat n), Writer (wtr (out @ wire_size be opt n) (drop (so_header opt) room)))"
proof (cases "so_remaining opt")
  case True
  then show ?thesis
    using size_fits_valid [OF assms(1,2)] by (simp add: emit_size_def wire_size_def so_header_def Let_def)
next
  case False
  let ?b = "if be then hton (so_width opt) (of_nat n) else of_nat n :: u64"
  have "le_enc (so_width opt) ?b = wire_size be opt n"
    using False assms(1) by (auto simp: wire_size_def opt_ok_def le_enc_hton)
  then have "Field (so_width opt) (le_enc (so_width opt) ?b) (Writer (wtr out room))
     = (Done, wire_size be opt n, Writer (wtr (out @ wire_size be opt n) (drop (so_width opt) room)))"
    using False assms(3,4) by (simp add: Field_wtr so_header_def del: Field.simps)
  then show ?thesis
    using False size_fits_valid [OF assms(1,2)]
    by (simp add: emit_size_def so_header_def Let_def del: Field.simps)
qed

lemma size_rdr:
  assumes "opt_ok opt k be" "size_fits opt n"
    "addressable (length pre + so_header opt + length rest)" "so_remaining opt \<longrightarrow> length rest = n"
  shows "SizeOption_Process be opt sug (Reader (rdr pre (wire_size be opt n @ rest) ind))
    = (ValidSize (of_nat n), Reader (rdr (pre @ wire_size be opt n) rest ind))"
proof (cases "so_remaining opt")
  case True
  have "ByteReader_GetRemaining (rdr pre rest ind) = of_nat (length rest)"
    by (simp add: ByteReader_GetRemaining_def rdr_def)
  then show ?thesis
    using True assms(4) size_fits_valid [OF assms(1,2)]
    by (simp add: read_size_def wire_size_def)
next
  case False
  have w: "8 * so_width opt \<le> 64" "so_header opt = so_width opt"
    using assms(1) False by (auto simp: opt_ok_def so_header_def)
  have f: "Field (so_width opt) [] (Reader (rdr pre (wire_size be opt n @ rest) ind))
     = (Done, wire_size be opt n, Reader (rdr (pre @ wire_size be opt n) rest ind))"
    using assms(3) w by (intro Field_rdr) simp_all
  have cast: "take_bit (8 * so_width opt) (of_nat n) = (of_nat n :: u64)"
    using size_fits_valid(2) [OF assms(1,2)] by (simp add: elem_cast_def)
  have "(if be then ntoh (so_width opt) (le_dec (wire_size be opt n)) else le_dec (wire_size be opt n))
     = (of_nat n :: u64)"
    using False assms(1) cast
    by (auto simp: wire_size_def opt_ok_def ntoh_le_dec le_dec_enc_take_bit)
  then show ?thesis
    using f False size_fits_valid [OF assms(1,2)]
    by (auto simp: read_size_def Let_def split: prod.splits)
qed


subsection \<open>Spans\<close>

definition elem_ok :: "'e elem \<Rightarrow> bool" where
  "elem_ok el \<longleftrightarrow> (\<forall>e. length (eenc el e) = esize el \<and> edec el (eenc el e) = e)"

definition wire_elems :: "'e elem \<Rightarrow> 'e list \<Rightarrow> u8 list" where
  "wire_elems el es = concat (map (eenc el) es)"

definition wire_Span :: "'e elem \<Rightarrow> size_option \<Rightarrow> bool \<Rightarrow> 'e list \<Rightarrow> u8 list" where
  "wire_Span el opt be es = wire_size be opt (length es) @ wire_elems el es"

lemma length_wire_elems: "elem_ok el \<Longrightarrow> length (wire_elems el es) = length es * esize el"
  by (induction es) (auto simp: wire_elems_def elem_ok_def)

lemma decode_elems_wire: "elem_ok el \<Longrightarrow> decode_elems el (length es) (wire_elems el es) = es"
  by (induction es) (auto simp: wire_elems_def elem_ok_def)

lemma length_wire_Span:
  "elem_ok el \<Longrightarrow> length (wire_Span el opt be es) = so_header opt + length es * esize el"
  by (simp add: wire_Span_def length_wire_elems)

lemma reads_Span [wire_intros]:
  assumes "elem_ok el" "opt_ok opt (esize el) be" "size_fits opt (length es)"
    and "so_remaining opt \<longrightarrow> tail" "es = [] \<Longrightarrow> v0 = Span []"
  shows "reads (Property_Span el opt sr be) tail v0 (Span es) (wire_Span el opt be es)"
  unfolding reads_def
proof (intro allI impI)
  fix pre rest :: "u8 list" and ind
  let ?hd = "wire_size be opt (length es)" and ?body = "wire_elems el es"
  assume "addressable (length pre + length (wire_Span el opt be es) + length rest)"
    and tail: "tail \<longrightarrow> rest = []"
  then have fit: "addressable (length pre + so_header opt + length ?body + length rest)"
    by (simp add: wire_Span_def add.assoc)
  have len: "unat (of_nat (length es) :: u64) * esize el = length ?body"
    using size_fits_valid(3) [OF assms(2,3)] by (simp add: length_wire_elems [OF assms(1)])
  have "so_remaining opt \<longrightarrow> length (?body @ rest) = length es"
    using assms(2,4) tail by (auto simp: length_wire_elems [OF assms(1)] opt_ok_def)
  then have sz: "SizeOption_Process be opt sug (Reader (rdr pre (?hd @ ?body @ rest) ind))
      = (ValidSize (of_nat (length es)), Reader (rdr (pre @ ?hd) (?body @ rest) ind))" for sug
    using fit by (intro size_rdr [OF assms(2,3)]) simp_all
  have body: "Field_Span (esize el) v (of_nat (length es)) (Reader (rdr (pre @ ?hd) (?body @ rest) ind))
      = (Done, ?body, Reader (rdr ((pre @ ?hd) @ ?body) rest ind))" for v
    using fit len by (intro Field_Span_rdr) simp_all
  show "Property_Span el opt sr be v0 (Reader (rdr pre (wire_Span el opt be es @ rest) ind))
      = (Success, Span es, Reader (rdr (pre @ wire_Span el opt be es) rest ind))"
  proof (cases "es = []")
    case True
    with sz assms(5) show ?thesis
      by (simp add: Property_Span_def wire_Span_def wire_elems_def del: SizeOption_Process.simps)
  next
    case False
    then have "(of_nat (length es) :: u64) > 0"
      using size_fits_valid(3) [OF assms(2,3)] by (simp add: word_less_nat_alt)
    with sz body show ?thesis
      using decode_elems_wire [OF assms(1), of es] size_fits_valid(3) [OF assms(2,3)]
      by (simp add: Property_Span_def wire_Span_def del: SizeOption_Process.simps Field_Span.simps)
  qed
qed

lemma writes_Span [wire_intros]:
  assumes "elem_ok el" "opt_ok opt (esize el) be" "size_fits opt (length es)"
  shows "writes (Property_Span el opt sr be) (Span es) (wire_Span el opt be es)"
  unfolding writes_def
proof (intro allI impI)
  fix out room :: "u8 list"
  let ?hd = "wire_size be opt (length es)" and ?body = "wire_elems el es" and ?h = "so_header opt"
  assume fit: "addressable (length out + length room)" "length (wire_Span el opt be es) \<le> length room"
  then have fits: "?h + length ?body \<le> length room" by (simp add: wire_Span_def)
  have len: "unat (of_nat (length es) :: u64) * esize el = length ?body"
    using size_fits_valid(3) [OF assms(2,3)] by (simp add: length_wire_elems [OF assms(1)])
  have sz: "SizeOption_Process be opt (of_nat (length es)) (Writer (wtr out room))
      = (ValidSize (of_nat (length es)), Writer (wtr (out @ ?hd) (drop ?h room)))"
    using fit fits by (intro emit_size_wtr [OF assms(2,3)]) simp_all
  have body: "Field_Span (esize el) ?body (of_nat (length es)) (Writer (wtr (out @ ?hd) (drop ?h room)))
      = (Done, ?body, Writer (wtr ((out @ ?hd) @ ?body) (drop (length ?body) (drop ?h room))))"
    using fit fits len by (intro Field_Span_wtr) simp_all
  have bytes: "span_bytes el (Span es) = ?body" by (simp add: wire_elems_def)
  show "Property_Span el opt sr be (Span es) (Writer (wtr out room))
      = (Success, Span es, Writer (wtr (out @ wire_Span el opt be es)
           (drop (length (wire_Span el opt be es)) room)))"
  proof (cases "es = []")
    case True
    with sz show ?thesis
      by (simp add: Property_Span_def wire_Span_def wire_elems_def del: SizeOption_Process.simps)
  next
    case False
    then have "(of_nat (length es) :: u64) > 0"
      using size_fits_valid(3) [OF assms(2,3)] by (simp add: word_less_nat_alt)
    with sz body show ?thesis
      by (simp add: Property_Span_def wire_Span_def bytes add.commute
          del: SizeOption_Process.simps Field_Span.simps span_bytes.simps)
  qed
qed

lemma so_hi_less: "opt_ok opt k be \<Longrightarrow> so_hi opt < 2 ^ 64"
  by (auto simp: opt_ok_def split: if_splits)

lemma span_field_bytes:
  assumes "opt_ok opt k be" "n \<le> so_hi opt"
  shows "n * k < 2 ^ 64"
proof (cases "so_remaining opt")
  case True
  then have "k = 1" using assms(1) by (simp add: opt_ok_def)
  then show ?thesis using so_hi_less [OF assms(1)] assms(2) by simp
next
  case False
  then have "so_hi opt < 2 ^ 32" "k < 2 ^ 16" using assms(1) by (auto simp: opt_ok_def)
  then have "n \<le> 2 ^ 32" "k \<le> 2 ^ 16" using assms(2) by simp_all
  then have "n * k \<le> 2 ^ 32 * 2 ^ 16" by (rule mult_le_mono)
  then show ?thesis by simp
qed

lemma emit_size_counter:
  assumes "opt_ok opt k be"
  shows "emit_size opt a b (Counter c) = (ValidSize b, Counter (csat c (so_header opt)))"
    "emit_size opt a b (MaxCounter c) = (ValidSize b, MaxCounter (csat c (so_header opt)))"
    "emit_size opt a b (MinCounter c) = (ValidSize b, MinCounter (csat c (so_header opt)))"
  using assms by (auto simp: emit_size_def so_header_def opt_ok_def ByteCounter_Field_csat)

lemma counts_Span [wire_intros]:
  assumes "opt_ok opt (esize el) be" "size_fits opt (length es)"
  shows "counts (Property_Span el opt sr be) (Span es) (so_header opt + length es * esize el)"
proof -
  have "length es * esize el < 2 ^ 64"
    using assms span_field_bytes by (simp add: size_fits_def)
  then show ?thesis
    using size_fits_valid [OF assms]
    by (auto simp: counts_def Property_Span_def Let_def emit_size_counter [OF assms(1)]
        ByteCounter_Field_Span_csat word_less_nat_alt)
qed

text \<open>The span that an incomplete read leaves behind counts as the span that was announced.\<close>

lemma counts_NullSpan:
  assumes "opt_ok opt (esize el) be" "size_fits opt (unat n)"
  shows "counts (Property_Span el opt sr be) (NullSpan n) (so_header opt + unat n * esize el)"
proof -
  have "unat n * esize el < 2 ^ 64"
    using assms span_field_bytes by (simp add: size_fits_def)
  then show ?thesis
    using size_fits_valid [OF assms]
    by (auto simp: counts_def Property_Span_def Let_def emit_size_counter [OF assms(1)]
        ByteCounter_Field_Span_csat word_gt_0)
qed

lemma mins_Span [wire_intros]:
  assumes "opt_ok opt (esize el) be"
  shows "mins (Property_Span el opt sr be) v (so_header opt + so_lo opt * esize el)"
proof -
  have "so_lo opt * esize el < 2 ^ 64"
    using assms by (intro span_field_bytes [OF assms]) (simp add: opt_ok_def)
  moreover have "unat (if so_min opt > 0 then so_min opt else 0) = so_lo opt"
    by (auto simp: so_lo_def word_gt_0)
  ultimately show ?thesis
    by (auto simp: mins_def Property_Span_def Let_def emit_size_counter [OF assms]
        ByteCounter_Field_Span_csat so_lo_def word_gt_0 split: if_splits)
qed

lemma unat_max_size:
  assumes "opt_ok opt k be"
  shows "unat (if so_max opt > 0 then so_max opt else elem_cast opt (-1)) = so_hi opt"
proof (cases "so_max opt > 0")
  case False
  have w: "8 * so_width opt \<le> 64" using assms by (auto simp: opt_ok_def split: if_splits)
  have "elem_cast opt (-1) = mask (8 * so_width opt)"
    by (simp add: elem_cast_def take_bit_minus_one_eq_mask)
  also have "\<dots> = of_nat (2 ^ (8 * so_width opt) - 1)"
    by (simp add: mask_eq_exp_minus_1 of_nat_diff)
  finally have e: "elem_cast opt (-1) = of_nat (2 ^ (8 * so_width opt) - 1)" .
  show ?thesis
    using False so_hi_less [OF assms] by (simp only: so_hi_def if_False e unat_of_nat_u64)
qed (simp add: so_hi_def)

lemma maxs_Span [wire_intros]:
  assumes "opt_ok opt (esize el) be"
  shows "maxs (Property_Span el opt sr be) v (so_header opt + so_hi opt * esize el)"
proof -
  let ?sz = "if so_max opt > 0 then so_max opt else elem_cast opt (-1)"
  have b: "unat ?sz * esize el < 2 ^ 64"
    using span_field_bytes [OF assms, of "so_hi opt"] by (simp add: unat_max_size [OF assms])
  have "Property_Span el opt sr be v (MaxCounter c)
     = (Success, v, MaxCounter (csat c (so_header opt + unat ?sz * esize el)))" for c
  proof (cases "?sz > 0")
    case True
    then show ?thesis
      using b by (simp only: Property_Span_def SizeOption_Process.simps Let_def emit_size_counter [OF assms]
          prod.case size_result.case if_True Field_Span.simps ByteCounter_Field_Span_csat access.case
          is_reader.simps if_False csat_csat)
  next
    case False
    then have "unat ?sz = 0" by (simp only: word_gt_0 not_not unat_0)
    with False show ?thesis
      by (simp only: Property_Span_def SizeOption_Process.simps Let_def emit_size_counter [OF assms]
          prod.case size_result.case if_False mult_0 add_0_right)
  qed
  then show ?thesis
    by (simp add: maxs_def unat_max_size [OF assms] del: if_split)
qed


subsection \<open>Strings\<close>

definition wire_string :: "size_option \<Rightarrow> u8 list \<Rightarrow> u8 list" where
  "wire_string opt bs = wire_size False opt (length bs) @ bs"

lemma length_wire_string [simp]: "length (wire_string opt bs) = so_header opt + length bs"
  by (simp add: wire_string_def)

lemma Field_string_rdr:
  assumes "addressable (length pre + length bs + length rest)" "unat sz = length bs"
  shows "Field_string v sz (Reader (rdr pre (bs @ rest) ind)) = (Done, bs, Reader (rdr (pre @ bs) rest ind))"
  using Field_Span_rdr [of pre bs rest sz 1 v ind] assms
  by (simp add: ByteReader_Field_Span_def ByteReader_Field_string_view_def Let_def)

lemma Field_string_wtr:
  assumes "addressable (length out + length room)" "unat sz = length bs" "length bs \<le> length room"
  shows "Field_string bs sz (Writer (wtr out room)) = (Done, bs, Writer (wtr (out @ bs) (drop (length bs) room)))"
  using Field_Span_wtr [of out room sz 1 bs] assms
  by (simp add: ByteWriter_Field_Span_def ByteWriter_Field_string_view_def Let_def)

lemma reads_string [wire_intros]:
  assumes "opt_ok opt 1 False" "size_fits opt (length bs)" "so_remaining opt \<longrightarrow> tail"
  shows "reads (Property_string opt) tail v0 bs (wire_string opt bs)"
  unfolding reads_def
proof (intro allI impI)
  fix pre rest :: "u8 list" and ind
  let ?hd = "wire_size False opt (length bs)"
  assume "addressable (length pre + length (wire_string opt bs) + length rest)"
    and tail: "tail \<longrightarrow> rest = []"
  then have fit: "addressable (length pre + so_header opt + length bs + length rest)"
    by (simp add: add.assoc)
  have sz: "SizeOption_Process False opt sug (Reader (rdr pre (?hd @ bs @ rest) ind))
      = (ValidSize (of_nat (length bs)), Reader (rdr (pre @ ?hd) (bs @ rest) ind))" for sug
    using fit assms(3) tail by (intro size_rdr [OF assms(1,2)]) auto
  have "Field_string v0 (of_nat (length bs)) (Reader (rdr (pre @ ?hd) (bs @ rest) ind))
      = (Done, bs, Reader (rdr ((pre @ ?hd) @ bs) rest ind))"
    using fit size_fits_valid(3) [OF assms(1,2)] by (intro Field_string_rdr) simp_all
  with sz show "Property_string opt v0 (Reader (rdr pre (wire_string opt bs @ rest) ind))
      = (Success, bs, Reader (rdr (pre @ wire_string opt bs) rest ind))"
    by (simp add: Property_string_def wire_string_def del: SizeOption_Process.simps Field_string.simps)
qed

lemma writes_string [wire_intros]:
  assumes "opt_ok opt 1 False" "size_fits opt (length bs)"
  shows "writes (Property_string opt) bs (wire_string opt bs)"
  unfolding writes_def
proof (intro allI impI)
  fix out room :: "u8 list"
  let ?hd = "wire_size False opt (length bs)" and ?h = "so_header opt"
  assume fit: "addressable (length out + length room)" "length (wire_string opt bs) \<le> length room"
  have sz: "SizeOption_Process False opt (of_nat (length bs)) (Writer (wtr out room))
      = (ValidSize (of_nat (length bs)), Writer (wtr (out @ ?hd) (drop ?h room)))"
    using fit by (intro emit_size_wtr [OF assms(1,2)]) simp_all
  have "Field_string bs (of_nat (length bs)) (Writer (wtr (out @ ?hd) (drop ?h room)))
      = (Done, bs, Writer (wtr ((out @ ?hd) @ bs) (drop (length bs) (drop ?h room))))"
    using fit size_fits_valid(3) [OF assms(1,2)] by (intro Field_string_wtr) simp_all
  with sz show "Property_string opt bs (Writer (wtr out room))
      = (Success, bs, Writer (wtr (out @ wire_string opt bs) (drop (length (wire_string opt bs)) room)))"
    by (simp add: Property_string_def wire_string_def add.commute
        del: SizeOption_Process.simps Field_string.simps)
qed

lemma counts_string [wire_intros]:
  assumes "opt_ok opt 1 False" "size_fits opt (length bs)"
  shows "counts (Property_string opt) bs (so_header opt + length bs)"
  using size_fits_valid [OF assms]
  by (simp add: counts_def Property_string_def Let_def emit_size_counter [OF assms(1)] ByteCounter_string_csat)

lemma mins_string [wire_intros]:
  assumes "opt_ok opt 1 False"
  shows "mins (Property_string opt) v (so_header opt + so_lo opt)"
  by (auto simp: mins_def Property_string_def Let_def emit_size_counter [OF assms] ByteCounter_string_csat
      so_lo_def word_gt_0)

lemma maxs_string [wire_intros]:
  assumes "opt_ok opt 1 False"
  shows "maxs (Property_string opt) v (so_header opt + so_hi opt)"
  by (simp add: maxs_def Property_string_def Let_def emit_size_counter [OF assms] ByteCounter_string_csat
      unat_max_size [OF assms] del: if_split)

subsection \<open>Memory safety of reading\<close>

lemma Field_safe:
  assumes "reader_ok r" "n < 2 ^ 62"
  obtains a bs r' where "ByteReader_Field n v r = (a, bs, r')" "a \<noteq> OutOfBounds" "reader_ok r'"
    "rdata r' = rdata r" "roffset r \<le> roffset r'" "a = Done \<longrightarrow> length bs = n"
proof (cases "ByteReader_CanRead (of_nat n) r")
  case True
  then obtain bs r' where "reader_copy (of_nat n) r = (Done, bs, r')" "length bs = unat (of_nat n :: u64)"
      "reader_ok r'" "rdata r' = rdata r" "roffset r \<le> roffset r'"
    using reader_copy_safe [of r "of_nat n"] assms by auto
  then show thesis using True assms(2) by (intro that) (auto simp: ByteReader_Field_def)
next
  case False
  then show thesis using assms(1) by (intro that) (auto simp: ByteReader_Field_def)
qed

lemma safe_int [safe_intros]:
  assumes "whole_bytes TYPE('a::len)"
  shows "reader_safe (Property_int :: 'a word proc)"
  unfolding reader_safe_def
proof (intro allI impI)
  fix v :: "'a word" and r assume "reader_ok r"
  then obtain a bs r' where "ByteReader_Field (int_bytes TYPE('a)) (le_enc (int_bytes TYPE('a)) v) r = (a, bs, r')"
      "a \<noteq> OutOfBounds" "reader_ok r'" "rdata r' = rdata r" "roffset r \<le> roffset r'"
    using Field_safe [of r "int_bytes TYPE('a)"] assms int_bytes_small(2) by metis
  then show "\<exists>res v' r'. Property_int v (Reader r) = (res, v', Reader r') \<and> res \<noteq> Undefined
      \<and> reader_ok r' \<and> rdata r' = rdata r \<and> roffset r \<le> roffset r'"
    by (cases a) (auto simp: Property_int_def)
qed


lemma safe_int_be [safe_intros]:
  assumes "whole_bytes TYPE('a::len)"
  shows "reader_safe (Property_int_be :: 'a word proc)"
  unfolding reader_safe_def
proof (intro allI impI)
  fix v :: "'a word" and r assume "reader_ok r"
  then obtain a bs r' where
      "ByteReader_Field (int_bytes TYPE('a)) (le_enc (int_bytes TYPE('a)) (hton (int_bytes TYPE('a)) (ucast v))) r
        = (a, bs, r')"
      "a \<noteq> OutOfBounds" "reader_ok r'" "rdata r' = rdata r" "roffset r \<le> roffset r'"
    using Field_safe [of r "int_bytes TYPE('a)"] assms int_bytes_small(2) by metis
  then show "\<exists>res v' r'. Property_int_be v (Reader r) = (res, v', Reader r') \<and> res \<noteq> Undefined
      \<and> reader_ok r' \<and> rdata r' = rdata r \<and> roffset r \<le> roffset r'"
    by (cases a) (auto simp: Property_int_be_def Let_def)
qed

lemma safe_bool [safe_intros]: "reader_safe Property_bool"
  unfolding reader_safe_def
proof (intro allI impI)
  fix v :: u8 and r assume "reader_ok r"
  then obtain a bs r' where "ByteReader_Field 1 [v] r = (a, bs, r')"
      "a \<noteq> OutOfBounds" "reader_ok r'" "rdata r' = rdata r" "roffset r \<le> roffset r'"
    using Field_safe [of r 1 "[v]"] by (metis one_less_numeral_iff one_less_power semiring_norm(76) zero_less_numeral)
  then show "\<exists>res v' r'. Property_bool v (Reader r) = (res, v', Reader r') \<and> res \<noteq> Undefined
      \<and> reader_ok r' \<and> rdata r' = rdata r \<and> roffset r \<le> roffset r'"
    by (cases a) (auto simp: Property_bool_def ByteReader_Field_bool_def)
qed

lemma unat_elem_cast: "unat (elem_cast opt x) < 2 ^ (8 * so_width opt)"
proof -
  have "unat (elem_cast opt x) = take_bit (8 * so_width opt) (unat x)"
    by (simp add: elem_cast_def unsigned_take_bit_eq)
  then show ?thesis by simp
qed

lemma le_dec_narrow: "length bs \<le> n \<Longrightarrow> take_bit (8 * n) (le_dec bs :: 'a::len word) = le_dec bs"
  by (rule bit_word_eqI) (auto simp: bit_take_bit_iff dest: bit_le_dec_lt)

lemma read_size_safe:
  assumes ok: "reader_ok r" and opt: "opt_ok opt k be"
  obtains res r' where "read_size be opt r = (res, r')" "res \<noteq> UndefinedSize" "reader_ok r'"
    "rdata r' = rdata r" "roffset r \<le> roffset r'" "\<And>sz. res = ValidSize sz \<Longrightarrow> unat sz * k < 2 ^ 62"
proof (cases "so_remaining opt")
  case True
  then have w: "so_width opt = 8" "k = 1" using opt by (simp_all add: opt_ok_def)
  have "unat (ByteReader_GetRemaining r) \<le> unat (rcapacity r)"
    using ok by (simp add: ByteReader_GetRemaining_def reader_ok_def unat_sub)
  moreover have "elem_cast opt x = x" for x
    using w by (simp add: elem_cast_def take_bit_word_eq_self)
  ultimately show thesis
    using True w ok
    by (intro that) (auto simp: read_size_def reader_ok_def Let_def split: if_splits)
next
  case False
  then have w: "so_width opt \<in> {1, 2, 4}" "k < 2 ^ 16" "be \<longrightarrow> be_width (so_width opt)"
    using opt by (simp_all add: opt_ok_def)
  have bound: "unat (elem_cast opt x) * k < 2 ^ 62" for x
  proof -
    have "unat (elem_cast opt x) < 2 ^ 32" using w(1) unat_elem_cast [of opt x] by auto
    then have "unat (elem_cast opt x) \<le> 2 ^ 32" "k \<le> 2 ^ 16" using w(2) by simp_all
    then have "unat (elem_cast opt x) * k \<le> 2 ^ 32 * 2 ^ 16" by (rule mult_le_mono)
    then show ?thesis by simp
  qed
  have narrow: "elem_cast opt (if be then ntoh (so_width opt) (le_dec bs) else le_dec bs)
      = (if be then ntoh (so_width opt) (le_dec bs) else le_dec bs)" if "length bs = so_width opt" for bs
    using w(3) that by (auto simp: elem_cast_def ntoh_def take_bit_hton le_dec_narrow)
  have w62: "so_width opt < 2 ^ 62" using w(1) by auto
  obtain a bs r' where f: "ByteReader_Field (so_width opt) [] r = (a, bs, r')" "a \<noteq> OutOfBounds"
      "reader_ok r'" "rdata r' = rdata r" "roffset r \<le> roffset r'" "a = Done \<longrightarrow> length bs = so_width opt"
    by (rule Field_safe [OF ok w62])
  show thesis
  proof (cases a)
    case Refused
    let ?u = "elem_cast opt (if be then ntoh (so_width opt) (elem_cast opt (rindet r' 0))
        else elem_cast opt (rindet r' 0))"
    have eq: "read_size be opt r = (if ValidateSize opt ?u then ValidSize ?u else InvalidSize,
        r'\<lparr>rindet := \<lambda>n. rindet r' (Suc n)\<rparr>)"
      using False f(1) Refused by (simp add: read_size_def Let_def)
    show thesis
      by (rule that [OF eq]) (use f bound in \<open>auto simp: reader_ok_def split: if_splits\<close>)
  next
    case Done
    let ?d = "if be then ntoh (so_width opt) (le_dec bs) else le_dec bs"
    have nb: "unat ?d * k < 2 ^ 62"
      using f(6) Done narrow [of bs] bound by metis
    have eq: "read_size be opt r = (if ValidateSize opt ?d then ValidSize ?d else InvalidSize, r')"
      using False f(1) Done by (simp add: read_size_def Let_def)
    show thesis
      by (rule that [OF eq]) (use f nb in \<open>auto split: if_splits\<close>)
  qed (use f in simp)
qed

lemma Field_Span_safe:
  assumes "reader_ok r" "unat sz * k < 2 ^ 62"
  shows "\<exists>a bs r'. ByteReader_Field_Span k v sz r = (a, bs, r') \<and> a \<noteq> OutOfBounds
    \<and> reader_ok r' \<and> rdata r' = rdata r \<and> roffset r \<le> roffset r'"
proof -
  have "sz * of_nat k = of_nat (unat sz * k)" by simp
  then have "ByteReader_Field_Span k v sz r = ByteReader_Field (unat sz * k) v r"
    by (simp add: ByteReader_Field_Span_def ByteReader_Field_def Let_def)
  with Field_safe [OF assms] show ?thesis by metis
qed

lemma Field_string_safe:
  assumes "reader_ok r" "unat sz < 2 ^ 62"
  shows "\<exists>a bs r'. ByteReader_Field_string_view v sz r = (a, bs, r') \<and> a \<noteq> OutOfBounds
    \<and> reader_ok r' \<and> rdata r' = rdata r \<and> roffset r \<le> roffset r'"
proof -
  have "ByteReader_Field_string_view v sz r = ByteReader_Field (unat sz) v r"
    by (simp add: ByteReader_Field_string_view_def ByteReader_Field_def)
  with Field_safe [OF assms] show ?thesis by metis
qed

lemma safe_Span [safe_intros]:
  assumes opt: "opt_ok opt (esize el) be"
  shows "reader_safe (Property_Span el opt sr be)"
  unfolding reader_safe_def
proof (intro allI impI)
  fix v r assume "reader_ok r"
  then obtain res r1 where 1: "read_size be opt r = (res, r1)" "res \<noteq> UndefinedSize" "reader_ok r1"
      "rdata r1 = rdata r" "roffset r \<le> roffset r1"
      and b: "\<And>sz. res = ValidSize sz \<Longrightarrow> unat sz * esize el < 2 ^ 62"
    using read_size_safe [OF _ opt, of r thesis] by blast
  show "\<exists>res v' r'. Property_Span el opt sr be v (Reader r) = (res, v', Reader r') \<and> res \<noteq> Undefined
      \<and> reader_ok r' \<and> rdata r' = rdata r \<and> roffset r \<le> roffset r'"
  proof (cases res)
    case (ValidSize sz)
    obtain a bs r2 where "ByteReader_Field_Span (esize el) (span_bytes el v) sz r1 = (a, bs, r2)"
        "a \<noteq> OutOfBounds" "reader_ok r2" "rdata r2 = rdata r1" "roffset r1 \<le> roffset r2"
      using Field_Span_safe [OF 1(3) b [OF ValidSize], of "span_bytes el v"] by blast
    then show ?thesis
      using 1 ValidSize by (cases a; cases "sz > 0") (auto simp: Property_Span_def intro: order.trans)
  qed (use 1 in \<open>simp_all add: Property_Span_def\<close>)
qed

lemma safe_string [safe_intros]:
  assumes opt: "opt_ok opt 1 False"
  shows "reader_safe (Property_string opt)"
  unfolding reader_safe_def
proof (intro allI impI)
  fix v r assume "reader_ok r"
  then obtain res r1 where 1: "read_size False opt r = (res, r1)" "res \<noteq> UndefinedSize" "reader_ok r1"
      "rdata r1 = rdata r" "roffset r \<le> roffset r1"
      and b: "\<And>sz. res = ValidSize sz \<Longrightarrow> unat sz * 1 < 2 ^ 62"
    using read_size_safe [OF _ opt, of r thesis] by blast
  show "\<exists>res v' r'. Property_string opt v (Reader r) = (res, v', Reader r') \<and> res \<noteq> Undefined
      \<and> reader_ok r' \<and> rdata r' = rdata r \<and> roffset r \<le> roffset r'"
  proof (cases res)
    case (ValidSize sz)
    obtain a bs r2 where "ByteReader_Field_string_view v sz r1 = (a, bs, r2)"
        "a \<noteq> OutOfBounds" "reader_ok r2" "rdata r2 = rdata r1" "roffset r1 \<le> roffset r2"
      using Field_string_safe [OF 1(3), of sz v] b [OF ValidSize] by auto
    then show ?thesis
      using 1 ValidSize by (cases a) (auto simp: Property_string_def intro: order.trans)
  qed (use 1 in \<open>simp_all add: Property_string_def\<close>)
qed

end
