(* ===== verification/PacketContract.thy ===== *)
theory PacketContract
  imports PropertyLaws
begin

text \<open>
  The contract between a serialisable class and the code that sends and receives it, as two
  locales: \<open>stream_safe\<close> (reading never leaves the packet) and \<open>serializable\<close> (one wire format,
  shared by the reader, the writer and the three counters). What the network code relies on is
  proved here once: round trips, exact sizes, the size window of \<open>ProcessPacket\<close>, and that the
  class stays serialisable inside a packet with a type tag.
\<close>

locale stream_safe =
  fixes Process :: "'r proc"
  assumes safe: "reader_safe Process"
begin

lemma never_out_of_bounds:
  assumes "reader_ok r"
  shows "\<exists>res v' r'. Process v (Reader r) = (res, v', Reader r') \<and> res \<noteq> Undefined
    \<and> reader_ok r' \<and> rdata r' = rdata r \<and> roffset r \<le> roffset r'"
  using safe assms unfolding reader_safe_def by blast

end

locale serializable = stream_safe Process for Process :: "'r proc" +
  fixes wf :: "'r \<Rightarrow> bool" and wire :: "'r \<Rightarrow> u8 list" and init :: 'r
    and tail :: bool and lo hi :: nat
  assumes reads: "wf v \<Longrightarrow> reads Process tail init v (wire v)"
    and writes: "wf v \<Longrightarrow> writes Process v (wire v)"
    and counts: "wf v \<Longrightarrow> counts Process v (length (wire v))"
    and mins: "mins Process init lo"
    and maxs: "maxs Process init hi"
    and window: "wf v \<Longrightarrow> lo \<le> length (wire v) \<and> length (wire v) \<le> hi"
begin

lemma GetMinSize_eq: "GetMinSize Process init = csat 0 lo"
  using mins by (simp add: mins_def GetMinSize_def)

lemma GetMaxSize_eq: "GetMaxSize Process init = csat 0 hi"
  using maxs by (simp add: maxs_def GetMaxSize_def)

lemma GetSize_eq:
  assumes "wf v" "addressable (length (wire v))"
  shows "GetSize Process v = of_nat (length (wire v))"
proof -
  have "csat 0 (length (wire v)) = of_nat (length (wire v))"
    using assms(2) by (simp add: csat_def min_def)
  then show ?thesis
    using counts [OF assms(1)] by (simp add: counts_def GetSize_def)
qed

lemma write_wire:
  assumes "wf v" "addressable (length (wire v) + length room)"
  shows "Process v (Writer (ByteWriter_make (wire v @ room) (of_nat (length (wire v @ room)))))
    = (Success, v, Writer (wtr (wire v) room))" (is "?L = _")
    "length bytes = length (wire v) \<Longrightarrow>
     Process v (Writer (ByteWriter_make (bytes @ room) (of_nat (length (bytes @ room)))))
    = (Success, v, Writer (wtr (wire v) room))"
proof -
  have w: "ByteWriter_make (bs @ room) (of_nat (length (bs @ room))) = wtr [] (bs @ room)" for bs
    by (simp add: ByteWriter_make_def wtr_def)
  have *: "Process v (Writer (wtr [] (bs @ room))) = (Success, v, Writer (wtr (wire v) room))"
    if "length bs = length (wire v)" for bs
    using writes [OF assms(1)] assms(2) that unfolding writes_def
    by (elim allE [of _ "[]"] allE [of _ "bs @ room"]) simp
  then show "?L = (Success, v, Writer (wtr (wire v) room))" by (simp only: w)
  show "Process v (Writer (ByteWriter_make (bytes @ room) (of_nat (length (bytes @ room)))))
    = (Success, v, Writer (wtr (wire v) room))" if "length bytes = length (wire v)"
    using * that by (simp only: w)
qed

lemma read_wire:
  assumes "wf v" "addressable (length (wire v) + length rest)" "tail \<Longrightarrow> rest = []"
  shows "Process init (Reader (ByteReader_make (wire v @ rest) (of_nat (length (wire v @ rest))) ind))
    = (Success, v, Reader (rdr (wire v) rest ind))"
  using reads [OF assms(1)] assms(2,3) unfolding reads_def
  by (elim allE [of _ "[]"] allE [of _ rest] allE [of _ ind]) (simp add: ByteReader_make_def rdr_def)

text \<open>The packet that the receiver's size window lets through is the packet that was sent.\<close>

lemma ProcessPacket_wire:
  assumes "wf v" "addressable (length (wire v))"
  shows "ProcessPacket Process init (ByteReader_make (wire v) (of_nat (length (wire v))) ind)
    = (Some v, Reader (rdr (wire v) [] ind))"
proof -
  let ?n = "length (wire v)"
  have n: "unat (of_nat ?n :: u64) = ?n" using assms(2) by simp
  have "unat (GetMinSize Process init) \<le> ?n" "?n \<le> unat (GetMaxSize Process init)"
    using window [OF assms(1)] assms(2) by (simp_all add: GetMinSize_eq GetMaxSize_eq unat_csat)
  then have win: "\<not> of_nat ?n < GetMinSize Process init" "\<not> of_nat ?n > GetMaxSize Process init"
    by (simp_all add: word_less_nat_alt n)
  have "Process init (Reader (ByteReader_make (wire v) (of_nat ?n) ind)) = (Success, v, Reader (rdr (wire v) [] ind))"
    using read_wire [of v "[]" ind] assms by simp
  with win show ?thesis
    by (simp add: ProcessPacket_def ByteReader_make_def Let_def)
qed

text \<open>Sending into any buffer that is large enough, then receiving the bytes that were written.\<close>

lemma send_receive:
  assumes "wf v" "length (wire v) \<le> length buf" "addressable (length buf)"
  shows "\<exists>w. Process v (Writer (ByteWriter_make buf (of_nat (length buf)))) = (Success, v, Writer w)
    \<and> take (unat (woffset w)) (wdata w) = wire v
    \<and> (\<exists>s. ProcessPacket Process init (ByteReader_make (take (unat (woffset w)) (wdata w)) (woffset w) ind)
          = (Some v, s))"
proof -
  let ?n = "length (wire v)" and ?w = "wtr (wire v) (drop (length (wire v)) buf)"
  have "Process v (Writer (ByteWriter_make buf (of_nat (length buf)))) = (Success, v, Writer ?w)"
    using write_wire(2) [of v "drop ?n buf" "take ?n buf"] assms by simp
  moreover have "woffset ?w = of_nat ?n" "wdata ?w = wire v @ drop ?n buf"
    by (simp_all add: wtr_def)
  moreover have "unat (of_nat ?n :: u64) = ?n" using assms by simp
  ultimately show ?thesis
    using ProcessPacket_wire [OF assms(1), of ind] assms by simp
qed

lemma ProcessPacket_window:
  assumes "reader_ok r" "ProcessPacket Process init r = (Some v, s)"
  shows "lo \<le> length (rdata r) - unat (roffset r)"
    "length (rdata r) - unat (roffset r) \<le> hi"
proof -
  have ok: "roffset r \<le> rcapacity r" "unat (rcapacity r) = length (rdata r)" "addressable (length (rdata r))"
    using assms(1) by (simp_all add: reader_ok_def)
  have "\<not> rcapacity r - roffset r < GetMinSize Process init" "\<not> rcapacity r - roffset r > GetMaxSize Process init"
    using assms(2) by (auto simp: ProcessPacket_def Let_def split: if_splits)
  then have "min (2 ^ 64 - 1) lo \<le> length (rdata r) - unat (roffset r)"
    "length (rdata r) - unat (roffset r) \<le> min (2 ^ 64 - 1) hi"
    using ok by (auto simp: word_less_nat_alt GetMinSize_eq GetMaxSize_eq unat_csat unat_sub not_less min_le_iff_disj)
  with ok(3) show "lo \<le> length (rdata r) - unat (roffset r)"
    "length (rdata r) - unat (roffset r) \<le> hi" by auto
qed

lemma ProcessPacket_accepts:
  assumes "reader_ok r"
  shows "fst (ProcessPacket Process init r) \<noteq> None \<longrightarrow>
    lo \<le> length (rdata r) - unat (roffset r) \<and> length (rdata r) - unat (roffset r) \<le> hi"
proof (intro impI)
  assume "fst (ProcessPacket Process init r) \<noteq> None"
  then obtain v s where "ProcessPacket Process init r = (Some v, s)"
    by (cases "ProcessPacket Process init r") auto
  then show "lo \<le> length (rdata r) - unat (roffset r) \<and> length (rdata r) - unat (roffset r) \<le> hi"
    using ProcessPacket_window [OF assms] by blast
qed

end

subsection \<open>Packets: a type tag in front of the data\<close>

text \<open>
  Every packet class has the two members \<open>type\<close> and \<open>data\<close> (or \<open>event\<close>); \<open>type\<close> starts as the hash
  of the packet's name.
\<close>

record 'd packet =
  ptype :: u32
  pdata :: 'd

definition packet_Process :: "'d proc \<Rightarrow> 'd packet proc" where
  "packet_Process P =
     ProcessPropertiesInOrder [on_member ptype ptype_update Property_int, on_member pdata pdata_update P]"

definition packet_wire :: "('d \<Rightarrow> u8 list) \<Rightarrow> 'd packet \<Rightarrow> u8 list" where
  "packet_wire wire p = wire_int (ptype p) @ wire (pdata p)"

definition packet_wf :: "('d \<Rightarrow> bool) \<Rightarrow> 'd packet \<Rightarrow> bool" where
  "packet_wf wfd p \<longleftrightarrow> wfd (pdata p)"

lemma counts_packet: "counts P (pdata p) n \<Longrightarrow> counts (packet_Process P) p (4 + n)"
  unfolding packet_Process_def by (rule counts_eq(1)) (rule wire_intros | assumption | simp)+

lemma mins_packet: "mins P (pdata p) n \<Longrightarrow> mins (packet_Process P) p (4 + n)"
  unfolding packet_Process_def by (rule counts_eq(2)) (rule wire_intros | assumption | simp)+

lemma maxs_packet: "maxs P (pdata p) n \<Longrightarrow> maxs (packet_Process P) p (4 + n)"
  unfolding packet_Process_def by (rule counts_eq(3)) (rule wire_intros | assumption | simp)+

context serializable
begin

lemma packet:
  "serializable (packet_Process Process) (packet_wf wf) (packet_wire wire) \<lparr>ptype = t, pdata = init\<rparr>
     tail (4 + lo) (4 + hi)"
proof unfold_locales
  show "reader_safe (packet_Process Process)"
    unfolding packet_Process_def by (intro safe_intros safe) simp_all
  fix v :: "'r packet" assume "packet_wf wf v"
  then have wf: "wf (pdata v)" by (simp add: packet_wf_def)
  show "reads (packet_Process Process) tail \<lparr>ptype = t, pdata = init\<rparr> v (packet_wire wire v)"
    unfolding packet_Process_def packet_wire_def
    by (intro wire_intros) (use reads [OF wf] in simp_all)
  show "writes (packet_Process Process) v (packet_wire wire v)"
    unfolding packet_Process_def packet_wire_def
    by (intro wire_intros writes wf) simp_all
  show "counts (packet_Process Process) v (length (packet_wire wire v))"
    using counts_packet [OF counts [OF wf]] by (simp add: packet_wire_def)
  show "4 + lo \<le> length (packet_wire wire v) \<and> length (packet_wire wire v) \<le> 4 + hi"
    using window [OF wf] by (simp add: packet_wire_def)
qed (use mins_packet [of Process _ lo] maxs_packet [of Process _ hi] mins maxs in simp_all)

end

subsection \<open>Spans that can be sent\<close>

primrec span_elems :: "'e span \<Rightarrow> 'e list" where
  "span_elems (Span es) = es"
| "span_elems (NullSpan n) = []"

primrec span_fits :: "size_option \<Rightarrow> 'e span \<Rightarrow> bool" where
  "span_fits opt (Span es) = size_fits opt (length es)"
| "span_fits opt (NullSpan n) = False"

abbreviation wire_span :: "'e elem \<Rightarrow> size_option \<Rightarrow> bool \<Rightarrow> 'e span \<Rightarrow> u8 list" where
  "wire_span el opt be sp \<equiv> wire_Span el opt be (span_elems sp)"

lemma span_laws [wire_intros]:
  "elem_ok el \<Longrightarrow> opt_ok opt (esize el) be \<Longrightarrow> span_fits opt sp \<Longrightarrow> so_remaining opt \<longrightarrow> tail \<Longrightarrow> v0 = Span []
     \<Longrightarrow> reads (Property_Span el opt sr be) tail v0 sp (wire_span el opt be sp)"
  "elem_ok el \<Longrightarrow> opt_ok opt (esize el) be \<Longrightarrow> span_fits opt sp
     \<Longrightarrow> writes (Property_Span el opt sr be) sp (wire_span el opt be sp)"
  "opt_ok opt (esize el) be \<Longrightarrow> span_fits opt sp
     \<Longrightarrow> counts (Property_Span el opt sr be) sp (so_header opt + length (span_elems sp) * esize el)"
  by (cases sp; simp add: reads_Span writes_Span counts_Span)+

lemma span_fits_size: "span_fits opt sp \<Longrightarrow> size_fits opt (length (span_elems sp))"
  by (cases sp) simp_all

lemma span_size_bounds:
  "span_fits opt sp \<Longrightarrow> so_lo opt \<le> length (span_elems sp) \<and> length (span_elems sp) \<le> so_hi opt"
  by (cases sp) (auto simp: size_fits_def)

lemma size_bounds: "size_fits opt n \<Longrightarrow> so_lo opt \<le> n \<and> n \<le> so_hi opt"
  by (simp add: size_fits_def)

subsection \<open>Establishing the contract\<close>

text \<open>
  \<open>serializableI\<close> states the contract so that the composition rules compute the sizes: a class is
  serialisable when its members are, and arithmetic closes the rest.
\<close>

lemma serializableI:
  assumes "reader_safe P"
    and "\<And>v. wfd v \<Longrightarrow> reads P tail init v (wire v)"
    and "\<And>v. wfd v \<Longrightarrow> writes P v (wire v)"
    and "\<And>v. wfd v \<Longrightarrow> counts P v (n v)"
    and "mins P init lo'" and "maxs P init hi'"
    and "\<And>v. wfd v \<Longrightarrow> n v = length (wire v)"
    and "\<And>v. wfd v \<Longrightarrow> lo \<le> n v \<and> n v \<le> hi"
    and "lo' = lo" and "hi' = hi"
  shows "serializable P wfd wire init tail lo hi"
  using assms by unfold_locales metis+

lemmas size_option_simps =
  opt_ok_def so_lo_def so_hi_def so_header_def be_width_def SmallBytesArray_def BytesArray_def
  BigBytesArray_def ConstrainedSmallBytesArray_def ConstrainedBytesArray_def
  ConstrainedBigBytesArray_def StreamTail_def ConstrainedStreamTail_def

lemmas codec_rules = safe_intros wire_intros

lemmas codec_simps = size_option_simps length_wire_Span

text \<open>The definitions of the default values and well-formedness predicates of the classes.\<close>

named_theorems packet_defs

subsection \<open>Span elements\<close>

definition u8_elem :: "u8 elem" where
  "u8_elem = \<lparr>esize = 1, eenc = (\<lambda>b. [b]), edec = hd\<rparr>"

definition u16_elem :: "u16 elem" where
  "u16_elem = \<lparr>esize = 2, eenc = le_enc 2, edec = le_dec\<rparr>"

lemma elem_sizes [simp]: "esize u8_elem = 1" "esize u16_elem = 2"
  by (simp_all add: u8_elem_def u16_elem_def)

lemma elem_oks [simp]: "elem_ok u8_elem" "elem_ok u16_elem"
  by (simp_all add: elem_ok_def u8_elem_def u16_elem_def)

subsection \<open>Lists that do not fit their size field\<close>

text \<open>
  A size option without a maximum does not check the size it is given: the writer sends the size
  modulo \<open>2 ^ 8\<close> and that many elements.
\<close>

lemma wtr_copy_prefix:
  assumes "addressable (length out + length room)" "n \<le> length bs" "n \<le> length room"
  shows "writer_copy bs (of_nat n) (wtr out room) = (Done, wtr (out @ take n bs) (drop n room))"
  using assms
  by (auto simp: writer_copy_def Let_def wtr_def)

lemma small_cast: "elem_cast SmallBytesArray x = of_nat (unat x mod 256)"
proof -
  have "unat (take_bit 8 x) = unat x mod 256"
    by (simp only: unsigned_take_bit_eq) (simp add: take_bit_eq_mod)
  then have "take_bit 8 x = of_nat (unat x mod 256)" by (metis of_nat_unat ucast_id)
  then show ?thesis by (simp only: elem_cast_def SmallBytesArray_def) simp
qed

lemma take_concat: 
  "elem_ok el \<Longrightarrow> take (n * esize el) (concat (map (eenc el) es)) = concat (map (eenc el) (take n es))"
proof (induction es arbitrary: n)
  case (Cons e es)
  then show ?case by (cases n) (simp_all add: elem_ok_def)
qed simp

lemma small_bytes_writes:
  assumes el: "elem_ok el" and n: "n = length es mod 256" and fit: "length es < 2 ^ 62" "esize el < 2 ^ 16"
    "1 + n * esize el \<le> length room" "addressable (length room)"
  shows "Property_Span el SmallBytesArray sr False (Span es) (Writer (wtr [] room)) =
    (Success, Span es, Writer (wtr (of_nat n # wire_elems el (take n es)) (drop (1 + n * esize el) room)))"
proof -
  let ?w1 = "wtr [of_nat n] (drop 1 room)"
  have cast: "elem_cast SmallBytesArray (of_nat (length es)) = of_nat n"
    using fit by (simp add: small_cast n)
  have "n < 256" using n by simp
  then have u: "(ucast (of_nat n :: u64) :: u8) = of_nat n"
    by (simp add: unsigned_of_nat take_bit_nat_eq_self)
  have "Field 1 (le_enc 1 (of_nat n :: u64)) (Writer (wtr [] room)) = (Done, [of_nat n], Writer ?w1)"
    using Field_wtr [of "[]" room 1 "[of_nat n]"] fit u by simp
  then have sz: "SizeOption_Process False SmallBytesArray (of_nat (length es)) (Writer (wtr [] room))
      = (ValidSize (of_nat n), Writer ?w1)"
    using cast by (simp add: ValidateSize_def emit_size_def SmallBytesArray_def Let_def del: Field.simps)
  have "n < 256" using n by simp
  have len: "length (concat (map (eenc el) es)) = length es * esize el" 
    using length_wire_elems [OF el] by (simp add: wire_elems_def)
  have "n \<le> length es" using n by simp
  then have le: "n * esize el \<le> length (concat (map (eenc el) es))"
    unfolding len by (rule mult_le_mono1)
  have "ByteWriter_CanWrite (of_nat (n * esize el)) ?w1"
    using wtr_CanWrite [of "[of_nat n]" "drop 1 room" "n * esize el"] fit by (simp del: of_nat_mult)
  moreover have "writer_copy (concat (map (eenc el) es)) (of_nat (n * esize el)) ?w1
      = (Done, wtr (of_nat n # wire_elems el (take n es)) (drop (1 + n * esize el) room))"
    using wtr_copy_prefix [of "[of_nat n]" "drop 1 room" "n * esize el"] fit le
    by (simp add: take_concat [OF el] wire_elems_def del: of_nat_mult)
  ultimately have body: "ByteWriter_Field_Span (esize el) (concat (map (eenc el) es)) (of_nat n) ?w1
     = (Done, wtr (of_nat n # wire_elems el (take n es)) (drop (1 + n * esize el) room))"
    by (simp add: ByteWriter_Field_Span_def Let_def)
  show ?thesis
  proof (cases "n = 0")
    case True
    with sz show ?thesis by (simp add: Property_Span_def wire_elems_def del: SizeOption_Process.simps)
  next
    case False
    then have "(of_nat n :: u64) > 0" using \<open>n < 256\<close> by (simp add: word_less_nat_alt)
    with sz body show ?thesis by (simp add: Property_Span_def del: SizeOption_Process.simps)
  qed
qed

end
