(* ===== verification/Hash.thy ===== *)
theory Hash
  imports Prelude
begin

text \<open>
  The string hashes of \<open>client/shared/Utils.h\<close>. \<open>HashRageString\<close> names every network message:
  a packet starts with the hash of its name. \<open>char\<close> is signed on the supported targets, so a
  character is sign extended before it is added.
\<close>

definition signed_char :: "char \<Rightarrow> u32" where
  "signed_char ch = scast (of_char ch :: u8)"

definition hash_step :: "u32 \<Rightarrow> u32 \<Rightarrow> u32" where
  "hash_step hash ch =
     (let h1 = hash + ch; h2 = h1 + push_bit 10 h1 in h2 XOR drop_bit 6 h2)"

definition hash_finish :: "u32 \<Rightarrow> u32" where
  "hash_finish hash =
     (let h1 = hash + push_bit 3 hash; h2 = h1 XOR drop_bit 11 h1 in h2 + push_bit 15 h2)"

definition HashRageString :: "string \<Rightarrow> u32" where
  "HashRageString str = hash_finish (fold (\<lambda>ch hash. hash_step hash (signed_char ch)) str 0)"

definition ToLower :: "char \<Rightarrow> char" where
  "ToLower c =
     (let n = of_char c :: nat in
      if of_char CHR ''A'' \<le> n \<and> n \<le> of_char CHR ''Z''
      then char_of (n - of_char CHR ''A'' + of_char CHR ''a'') else c)"

definition HashString :: "string \<Rightarrow> u32" where
  "HashString str = hash_finish (fold (\<lambda>ch hash. hash_step hash (signed_char (ToLower ch))) str 0)"

lemma HashString_lower: "HashString str = HashRageString (map ToLower str)"
  by (simp add: HashString_def HashRageString_def fold_map comp_def)

lemma ToLower_idem [simp]: "ToLower (ToLower c) = ToLower c"
proof (cases "of_char CHR ''A'' \<le> (of_char c :: nat) \<and> (of_char c :: nat) \<le> of_char CHR ''Z''")
  case True
  then have "(of_char (ToLower c) :: nat) = of_char c + 32"
    by (simp add: ToLower_def Let_def of_char_of)
  with True show ?thesis by (simp add: ToLower_def [of "ToLower c"])
next
  case False
  then show ?thesis by (auto simp: ToLower_def Let_def)
qed

end
