(* ===== verification/PacketsGame.thy ===== *)
theory PacketsGame
  imports PacketContract Hash
begin

text \<open>
  The game-state packets of \<open>net-packet\<close>: array updates, frames, the world grid, routing,
  packed clones and acknowledgements, and game events. For each class: its record, its default
  value, its \<open>Process\<close>, its wire format, and the interpretation of \<open>serializable\<close> that ties them
  together; then the packet that carries it behind a type tag.
\<close>

subsection \<open>ArrayUpdate.h\<close>

record ServerArrayUpdate =
  handler :: u8
  ownerNetId :: u16
  index :: u32
  data :: "u8 span"

definition ServerArrayUpdate_init :: ServerArrayUpdate where
  [packet_defs]: "ServerArrayUpdate_init = ServerArrayUpdate.make 0 0 0 (Span [])"

definition ServerArrayUpdate_Process :: "ServerArrayUpdate proc" where
  "ServerArrayUpdate_Process = ProcessPropertiesInOrder
     [on_member ServerArrayUpdate.handler ServerArrayUpdate.handler_update Property_int,
      on_member ServerArrayUpdate.ownerNetId ServerArrayUpdate.ownerNetId_update Property_int,
      on_member ServerArrayUpdate.index ServerArrayUpdate.index_update Property_int,
      on_member ServerArrayUpdate.data ServerArrayUpdate.data_update (Property_Span u8_elem (ConstrainedBigBytesArray 0 128) False False)]"

definition ServerArrayUpdate_wire :: "ServerArrayUpdate \<Rightarrow> u8 list" where
  "ServerArrayUpdate_wire v = wire_int (ServerArrayUpdate.handler v)
     @ wire_int (ServerArrayUpdate.ownerNetId v)
     @ wire_int (ServerArrayUpdate.index v)
     @ wire_span u8_elem (ConstrainedBigBytesArray 0 128) False (ServerArrayUpdate.data v)"

definition ServerArrayUpdate_wf :: "ServerArrayUpdate \<Rightarrow> bool" where
  [packet_defs]: "ServerArrayUpdate_wf v \<longleftrightarrow> span_fits (ConstrainedBigBytesArray 0 128) (ServerArrayUpdate.data v)"

interpretation sau: serializable ServerArrayUpdate_Process ServerArrayUpdate_wf ServerArrayUpdate_wire ServerArrayUpdate_init False 11 139
  by (rule serializableI, unfold ServerArrayUpdate_Process_def ServerArrayUpdate_wire_def)
    (rule codec_rules ServerArrayUpdate.equality | simp add: packet_defs codec_simps ServerArrayUpdate.defs
      | auto simp: packet_defs codec_simps ServerArrayUpdate.defs dest!: span_size_bounds size_bounds)+

definition ServerArrayUpdatePacket_init :: "ServerArrayUpdate packet" where
  "ServerArrayUpdatePacket_init = \<lparr>ptype = HashRageString ''msgArrayUpdate'', pdata = ServerArrayUpdate_init\<rparr>"

definition ServerArrayUpdatePacket_Process :: "ServerArrayUpdate packet proc" where
  "ServerArrayUpdatePacket_Process = packet_Process ServerArrayUpdate_Process"

interpretation sau_packet: serializable ServerArrayUpdatePacket_Process "packet_wf ServerArrayUpdate_wf" "packet_wire ServerArrayUpdate_wire"
  ServerArrayUpdatePacket_init False "4 + 11" "4 + 139"
  unfolding ServerArrayUpdatePacket_Process_def ServerArrayUpdatePacket_init_def by (rule sau.packet)

record ClientArrayUpdate =
  handler :: u8
  index :: u16
  data :: "u8 span"

definition ClientArrayUpdate_init :: ClientArrayUpdate where
  [packet_defs]: "ClientArrayUpdate_init = ClientArrayUpdate.make 0 0 (Span [])"

definition ClientArrayUpdate_Process :: "ClientArrayUpdate proc" where
  "ClientArrayUpdate_Process = ProcessPropertiesInOrder
     [on_member ClientArrayUpdate.handler ClientArrayUpdate.handler_update Property_int,
      on_member ClientArrayUpdate.index ClientArrayUpdate.index_update Property_int,
      on_member ClientArrayUpdate.data ClientArrayUpdate.data_update (Property_Span u8_elem (ConstrainedBytesArray 0 128) False False)]"

definition ClientArrayUpdate_wire :: "ClientArrayUpdate \<Rightarrow> u8 list" where
  "ClientArrayUpdate_wire v = wire_int (ClientArrayUpdate.handler v)
     @ wire_int (ClientArrayUpdate.index v)
     @ wire_span u8_elem (ConstrainedBytesArray 0 128) False (ClientArrayUpdate.data v)"

definition ClientArrayUpdate_wf :: "ClientArrayUpdate \<Rightarrow> bool" where
  [packet_defs]: "ClientArrayUpdate_wf v \<longleftrightarrow> span_fits (ConstrainedBytesArray 0 128) (ClientArrayUpdate.data v)"

interpretation cau: serializable ClientArrayUpdate_Process ClientArrayUpdate_wf ClientArrayUpdate_wire ClientArrayUpdate_init False 5 133
  by (rule serializableI, unfold ClientArrayUpdate_Process_def ClientArrayUpdate_wire_def)
    (rule codec_rules ClientArrayUpdate.equality | simp add: packet_defs codec_simps ClientArrayUpdate.defs
      | auto simp: packet_defs codec_simps ClientArrayUpdate.defs dest!: span_size_bounds size_bounds)+

definition ClientArrayUpdatePacket_init :: "ClientArrayUpdate packet" where
  "ClientArrayUpdatePacket_init = \<lparr>ptype = HashRageString ''msgArrayUpdate'', pdata = ClientArrayUpdate_init\<rparr>"

definition ClientArrayUpdatePacket_Process :: "ClientArrayUpdate packet proc" where
  "ClientArrayUpdatePacket_Process = packet_Process ClientArrayUpdate_Process"

interpretation cau_packet: serializable ClientArrayUpdatePacket_Process "packet_wf ClientArrayUpdate_wf" "packet_wire ClientArrayUpdate_wire"
  ClientArrayUpdatePacket_init False "4 + 5" "4 + 133"
  unfolding ClientArrayUpdatePacket_Process_def ClientArrayUpdatePacket_init_def by (rule cau.packet)

subsection \<open>Frame.h\<close>

record ServerFrame =
  idx :: u32
  lockdownMode :: u8
  syncStyle :: u8

definition ServerFrame_init :: ServerFrame where
  [packet_defs]: "ServerFrame_init = ServerFrame.make 0 0 0"

definition ServerFrame_Process :: "ServerFrame proc" where
  "ServerFrame_Process = ProcessPropertiesInOrder
     [on_member ServerFrame.idx ServerFrame.idx_update Property_int,
      on_member ServerFrame.lockdownMode ServerFrame.lockdownMode_update Property_int,
      on_member ServerFrame.syncStyle ServerFrame.syncStyle_update Property_int]"

definition ServerFrame_wire :: "ServerFrame \<Rightarrow> u8 list" where
  "ServerFrame_wire v = wire_int (ServerFrame.idx v)
     @ wire_int (ServerFrame.lockdownMode v)
     @ wire_int (ServerFrame.syncStyle v)"

definition ServerFrame_wf :: "ServerFrame \<Rightarrow> bool" where
  [packet_defs]: "ServerFrame_wf v \<longleftrightarrow> True"

interpretation sfr: serializable ServerFrame_Process ServerFrame_wf ServerFrame_wire ServerFrame_init False 6 6
  by (rule serializableI, unfold ServerFrame_Process_def ServerFrame_wire_def)
    (rule codec_rules ServerFrame.equality | simp add: packet_defs codec_simps ServerFrame.defs
      | auto simp: packet_defs codec_simps ServerFrame.defs dest!: span_size_bounds size_bounds)+

definition ServerFramePacket_init :: "ServerFrame packet" where
  "ServerFramePacket_init = \<lparr>ptype = HashRageString ''msgFrame'', pdata = ServerFrame_init\<rparr>"

definition ServerFramePacket_Process :: "ServerFrame packet proc" where
  "ServerFramePacket_Process = packet_Process ServerFrame_Process"

interpretation sfr_packet: serializable ServerFramePacket_Process "packet_wf ServerFrame_wf" "packet_wire ServerFrame_wire"
  ServerFramePacket_init False "4 + 6" "4 + 6"
  unfolding ServerFramePacket_Process_def ServerFramePacket_init_def by (rule sfr.packet)

subsection \<open>WorldGrid.h\<close>

record ServerWorldGrid =
  base :: u32
  data :: "u8 span"

definition ServerWorldGrid_init :: ServerWorldGrid where
  [packet_defs]: "ServerWorldGrid_init = ServerWorldGrid.make 0 (Span [])"

definition ServerWorldGrid_Process :: "ServerWorldGrid proc" where
  "ServerWorldGrid_Process = ProcessPropertiesInOrder
     [on_member ServerWorldGrid.base ServerWorldGrid.base_update Property_int,
      on_member ServerWorldGrid.data ServerWorldGrid.data_update (Property_Span u8_elem BigBytesArray False False)]"

definition ServerWorldGrid_wire :: "ServerWorldGrid \<Rightarrow> u8 list" where
  "ServerWorldGrid_wire v = wire_int (ServerWorldGrid.base v)
     @ wire_span u8_elem BigBytesArray False (ServerWorldGrid.data v)"

definition ServerWorldGrid_wf :: "ServerWorldGrid \<Rightarrow> bool" where
  [packet_defs]: "ServerWorldGrid_wf v \<longleftrightarrow> span_fits BigBytesArray (ServerWorldGrid.data v)"

interpretation swg: serializable ServerWorldGrid_Process ServerWorldGrid_wf ServerWorldGrid_wire ServerWorldGrid_init False 8 4294967303
  by (rule serializableI, unfold ServerWorldGrid_Process_def ServerWorldGrid_wire_def)
    (rule codec_rules ServerWorldGrid.equality | simp add: packet_defs codec_simps ServerWorldGrid.defs
      | auto simp: packet_defs codec_simps ServerWorldGrid.defs dest!: span_size_bounds size_bounds)+

definition ServerWorldGridPacket_init :: "ServerWorldGrid packet" where
  "ServerWorldGridPacket_init = \<lparr>ptype = HashRageString ''msgWorldGrid3'', pdata = ServerWorldGrid_init\<rparr>"

definition ServerWorldGridPacket_Process :: "ServerWorldGrid packet proc" where
  "ServerWorldGridPacket_Process = packet_Process ServerWorldGrid_Process"

interpretation swg_packet: serializable ServerWorldGridPacket_Process "packet_wf ServerWorldGrid_wf" "packet_wire ServerWorldGrid_wire"
  ServerWorldGridPacket_init False "4 + 8" "4 + 4294967303"
  unfolding ServerWorldGridPacket_Process_def ServerWorldGridPacket_init_def by (rule swg.packet)

subsection \<open>PackedAcksPacket.h\<close>

record ServerPackedAcks =
  data :: "u8 span"

definition ServerPackedAcks_init :: ServerPackedAcks where
  [packet_defs]: "ServerPackedAcks_init = ServerPackedAcks.make (Span [])"

definition ServerPackedAcks_Process :: "ServerPackedAcks proc" where
  "ServerPackedAcks_Process = ProcessPropertiesInOrder
     [on_member ServerPackedAcks.data ServerPackedAcks.data_update (Property_Span u8_elem (ConstrainedStreamTail 1 4294967295) False False)]"

definition ServerPackedAcks_wire :: "ServerPackedAcks \<Rightarrow> u8 list" where
  "ServerPackedAcks_wire v = wire_span u8_elem (ConstrainedStreamTail 1 4294967295) False (ServerPackedAcks.data v)"

definition ServerPackedAcks_wf :: "ServerPackedAcks \<Rightarrow> bool" where
  [packet_defs]: "ServerPackedAcks_wf v \<longleftrightarrow> span_fits (ConstrainedStreamTail 1 4294967295) (ServerPackedAcks.data v)"

interpretation spa: serializable ServerPackedAcks_Process ServerPackedAcks_wf ServerPackedAcks_wire ServerPackedAcks_init True 1 4294967295
  by (rule serializableI, unfold ServerPackedAcks_Process_def ServerPackedAcks_wire_def)
    (rule codec_rules ServerPackedAcks.equality | simp add: packet_defs codec_simps ServerPackedAcks.defs
      | auto simp: packet_defs codec_simps ServerPackedAcks.defs dest!: span_size_bounds size_bounds)+

definition ServerPackedAcksPacket_init :: "ServerPackedAcks packet" where
  "ServerPackedAcksPacket_init = \<lparr>ptype = HashRageString ''msgPackedAcks'', pdata = ServerPackedAcks_init\<rparr>"

definition ServerPackedAcksPacket_Process :: "ServerPackedAcks packet proc" where
  "ServerPackedAcksPacket_Process = packet_Process ServerPackedAcks_Process"

interpretation spa_packet: serializable ServerPackedAcksPacket_Process "packet_wf ServerPackedAcks_wf" "packet_wire ServerPackedAcks_wire"
  ServerPackedAcksPacket_init True "4 + 1" "4 + 4294967295"
  unfolding ServerPackedAcksPacket_Process_def ServerPackedAcksPacket_init_def by (rule spa.packet)

subsection \<open>PackedClonesPacket.h\<close>

record ServerPackedClones =
  data :: "u8 span"

definition ServerPackedClones_init :: ServerPackedClones where
  [packet_defs]: "ServerPackedClones_init = ServerPackedClones.make (Span [])"

definition ServerPackedClones_Process :: "ServerPackedClones proc" where
  "ServerPackedClones_Process = ProcessPropertiesInOrder
     [on_member ServerPackedClones.data ServerPackedClones.data_update (Property_Span u8_elem (ConstrainedStreamTail 1 4294967295) False False)]"

definition ServerPackedClones_wire :: "ServerPackedClones \<Rightarrow> u8 list" where
  "ServerPackedClones_wire v = wire_span u8_elem (ConstrainedStreamTail 1 4294967295) False (ServerPackedClones.data v)"

definition ServerPackedClones_wf :: "ServerPackedClones \<Rightarrow> bool" where
  [packet_defs]: "ServerPackedClones_wf v \<longleftrightarrow> span_fits (ConstrainedStreamTail 1 4294967295) (ServerPackedClones.data v)"

interpretation spc: serializable ServerPackedClones_Process ServerPackedClones_wf ServerPackedClones_wire ServerPackedClones_init True 1 4294967295
  by (rule serializableI, unfold ServerPackedClones_Process_def ServerPackedClones_wire_def)
    (rule codec_rules ServerPackedClones.equality | simp add: packet_defs codec_simps ServerPackedClones.defs
      | auto simp: packet_defs codec_simps ServerPackedClones.defs dest!: span_size_bounds size_bounds)+

definition ServerPackedClonesPacket_init :: "ServerPackedClones packet" where
  "ServerPackedClonesPacket_init = \<lparr>ptype = HashRageString ''msgPackedClones'', pdata = ServerPackedClones_init\<rparr>"

definition ServerPackedClonesPacket_Process :: "ServerPackedClones packet proc" where
  "ServerPackedClonesPacket_Process = packet_Process ServerPackedClones_Process"

interpretation spc_packet: serializable ServerPackedClonesPacket_Process "packet_wf ServerPackedClones_wf" "packet_wire ServerPackedClones_wire"
  ServerPackedClonesPacket_init True "4 + 1" "4 + 4294967295"
  unfolding ServerPackedClonesPacket_Process_def ServerPackedClonesPacket_init_def by (rule spc.packet)

subsection \<open>Route.h\<close>

record ClientRoute =
  targetNetId :: u16
  unusedPacketLength :: u16
  data :: "u8 span"

definition ClientRoute_init :: ClientRoute where
  [packet_defs]: "ClientRoute_init = ClientRoute.make 0 0 (Span [])"

definition ClientRoute_Process :: "ClientRoute proc" where
  "ClientRoute_Process = ProcessPropertiesInOrder
     [on_member ClientRoute.targetNetId ClientRoute.targetNetId_update Property_int,
      on_member ClientRoute.unusedPacketLength ClientRoute.unusedPacketLength_update Property_int,
      on_member ClientRoute.data ClientRoute.data_update (Property_Span u8_elem (ConstrainedStreamTail 1 65535) False False)]"

definition ClientRoute_wire :: "ClientRoute \<Rightarrow> u8 list" where
  "ClientRoute_wire v = wire_int (ClientRoute.targetNetId v)
     @ wire_int (ClientRoute.unusedPacketLength v)
     @ wire_span u8_elem (ConstrainedStreamTail 1 65535) False (ClientRoute.data v)"

definition ClientRoute_wf :: "ClientRoute \<Rightarrow> bool" where
  [packet_defs]: "ClientRoute_wf v \<longleftrightarrow> span_fits (ConstrainedStreamTail 1 65535) (ClientRoute.data v)"

interpretation crt: serializable ClientRoute_Process ClientRoute_wf ClientRoute_wire ClientRoute_init True 5 65539
  by (rule serializableI, unfold ClientRoute_Process_def ClientRoute_wire_def)
    (rule codec_rules ClientRoute.equality | simp add: packet_defs codec_simps ClientRoute.defs
      | auto simp: packet_defs codec_simps ClientRoute.defs dest!: span_size_bounds size_bounds)+

definition ClientRoutePacket_init :: "ClientRoute packet" where
  "ClientRoutePacket_init = \<lparr>ptype = HashRageString ''msgRoute'', pdata = ClientRoute_init\<rparr>"

definition ClientRoutePacket_Process :: "ClientRoute packet proc" where
  "ClientRoutePacket_Process = packet_Process ClientRoute_Process"

interpretation crt_packet: serializable ClientRoutePacket_Process "packet_wf ClientRoute_wf" "packet_wire ClientRoute_wire"
  ClientRoutePacket_init True "4 + 5" "4 + 65539"
  unfolding ClientRoutePacket_Process_def ClientRoutePacket_init_def by (rule crt.packet)

subsection \<open>RpcNative.h\<close>

record ServerRpcNative =
  data :: "u8 span"

definition ServerRpcNative_init :: ServerRpcNative where
  [packet_defs]: "ServerRpcNative_init = ServerRpcNative.make (Span [])"

definition ServerRpcNative_Process :: "ServerRpcNative proc" where
  "ServerRpcNative_Process = ProcessPropertiesInOrder
     [on_member ServerRpcNative.data ServerRpcNative.data_update (Property_Span u8_elem (ConstrainedStreamTail 1 4294967295) False False)]"

definition ServerRpcNative_wire :: "ServerRpcNative \<Rightarrow> u8 list" where
  "ServerRpcNative_wire v = wire_span u8_elem (ConstrainedStreamTail 1 4294967295) False (ServerRpcNative.data v)"

definition ServerRpcNative_wf :: "ServerRpcNative \<Rightarrow> bool" where
  [packet_defs]: "ServerRpcNative_wf v \<longleftrightarrow> span_fits (ConstrainedStreamTail 1 4294967295) (ServerRpcNative.data v)"

interpretation srn: serializable ServerRpcNative_Process ServerRpcNative_wf ServerRpcNative_wire ServerRpcNative_init True 1 4294967295
  by (rule serializableI, unfold ServerRpcNative_Process_def ServerRpcNative_wire_def)
    (rule codec_rules ServerRpcNative.equality | simp add: packet_defs codec_simps ServerRpcNative.defs
      | auto simp: packet_defs codec_simps ServerRpcNative.defs dest!: span_size_bounds size_bounds)+

definition ServerRpcNativePacket_init :: "ServerRpcNative packet" where
  "ServerRpcNativePacket_init = \<lparr>ptype = HashRageString ''msgRpcNative'', pdata = ServerRpcNative_init\<rparr>"

definition ServerRpcNativePacket_Process :: "ServerRpcNative packet proc" where
  "ServerRpcNativePacket_Process = packet_Process ServerRpcNative_Process"

interpretation srn_packet: serializable ServerRpcNativePacket_Process "packet_wf ServerRpcNative_wf" "packet_wire ServerRpcNative_wire"
  ServerRpcNativePacket_init True "4 + 1" "4 + 4294967295"
  unfolding ServerRpcNativePacket_Process_def ServerRpcNativePacket_init_def by (rule srn.packet)

subsection \<open>NetGameEventPacket.h\<close>

record ClientNetGameEvent =
  targetPlayers :: "u16 span"
  eventId :: u16
  isReply :: u8
  eventType :: u16
  data :: "u8 span"

definition ClientNetGameEvent_init :: ClientNetGameEvent where
  [packet_defs]: "ClientNetGameEvent_init = ClientNetGameEvent.make (Span []) 0 0 0 (Span [])"

definition ClientNetGameEvent_Process :: "ClientNetGameEvent proc" where
  "ClientNetGameEvent_Process = ProcessPropertiesInOrder
     [on_member ClientNetGameEvent.targetPlayers ClientNetGameEvent.targetPlayers_update (Property_Span u16_elem SmallBytesArray False False),
      on_member ClientNetGameEvent.eventId ClientNetGameEvent.eventId_update Property_int,
      on_member ClientNetGameEvent.isReply ClientNetGameEvent.isReply_update Property_int,
      on_member ClientNetGameEvent.eventType ClientNetGameEvent.eventType_update Property_int,
      on_member ClientNetGameEvent.data ClientNetGameEvent.data_update (Property_Span u8_elem (ConstrainedBytesArray 0 1025) False False)]"

definition ClientNetGameEvent_wire :: "ClientNetGameEvent \<Rightarrow> u8 list" where
  "ClientNetGameEvent_wire v = wire_span u16_elem SmallBytesArray False (ClientNetGameEvent.targetPlayers v)
     @ wire_int (ClientNetGameEvent.eventId v)
     @ wire_int (ClientNetGameEvent.isReply v)
     @ wire_int (ClientNetGameEvent.eventType v)
     @ wire_span u8_elem (ConstrainedBytesArray 0 1025) False (ClientNetGameEvent.data v)"

definition ClientNetGameEvent_wf :: "ClientNetGameEvent \<Rightarrow> bool" where
  [packet_defs]: "ClientNetGameEvent_wf v \<longleftrightarrow> span_fits SmallBytesArray (ClientNetGameEvent.targetPlayers v)
     \<and> span_fits (ConstrainedBytesArray 0 1025) (ClientNetGameEvent.data v)"

interpretation cnge: serializable ClientNetGameEvent_Process ClientNetGameEvent_wf ClientNetGameEvent_wire ClientNetGameEvent_init False 8 1543
  by (rule serializableI, unfold ClientNetGameEvent_Process_def ClientNetGameEvent_wire_def)
    (rule codec_rules ClientNetGameEvent.equality | simp add: packet_defs codec_simps ClientNetGameEvent.defs
      | auto simp: packet_defs codec_simps ClientNetGameEvent.defs dest!: span_size_bounds size_bounds)+

definition ClientNetGameEventPacket_init :: "ClientNetGameEvent packet" where
  "ClientNetGameEventPacket_init = \<lparr>ptype = HashRageString ''msgNetGameEvent'', pdata = ClientNetGameEvent_init\<rparr>"

definition ClientNetGameEventPacket_Process :: "ClientNetGameEvent packet proc" where
  "ClientNetGameEventPacket_Process = packet_Process ClientNetGameEvent_Process"

interpretation cnge_packet: serializable ClientNetGameEventPacket_Process "packet_wf ClientNetGameEvent_wf" "packet_wire ClientNetGameEvent_wire"
  ClientNetGameEventPacket_init False "4 + 8" "4 + 1543"
  unfolding ClientNetGameEventPacket_Process_def ClientNetGameEventPacket_init_def by (rule cnge.packet)

record ClientNetGameEventV2 =
  targetPlayers :: "u16 span"
  eventNameHash :: u32
  eventId :: u16
  isReply :: u8
  data :: "u8 span"

definition ClientNetGameEventV2_init :: ClientNetGameEventV2 where
  [packet_defs]: "ClientNetGameEventV2_init = ClientNetGameEventV2.make (Span []) 0 0 0 (Span [])"

definition ClientNetGameEventV2_Process :: "ClientNetGameEventV2 proc" where
  "ClientNetGameEventV2_Process = ProcessPropertiesInOrder
     [on_member ClientNetGameEventV2.targetPlayers ClientNetGameEventV2.targetPlayers_update (Property_Span u16_elem SmallBytesArray False False),
      on_member ClientNetGameEventV2.eventNameHash ClientNetGameEventV2.eventNameHash_update Property_int,
      on_member ClientNetGameEventV2.eventId ClientNetGameEventV2.eventId_update Property_int,
      on_member ClientNetGameEventV2.isReply ClientNetGameEventV2.isReply_update Property_bool,
      on_member ClientNetGameEventV2.data ClientNetGameEventV2.data_update (Property_Span u8_elem (ConstrainedStreamTail 0 1025) False False)]"

definition ClientNetGameEventV2_wire :: "ClientNetGameEventV2 \<Rightarrow> u8 list" where
  "ClientNetGameEventV2_wire v = wire_span u16_elem SmallBytesArray False (ClientNetGameEventV2.targetPlayers v)
     @ wire_int (ClientNetGameEventV2.eventNameHash v)
     @ wire_int (ClientNetGameEventV2.eventId v)
     @ [ClientNetGameEventV2.isReply v]
     @ wire_span u8_elem (ConstrainedStreamTail 0 1025) False (ClientNetGameEventV2.data v)"

definition ClientNetGameEventV2_wf :: "ClientNetGameEventV2 \<Rightarrow> bool" where
  [packet_defs]: "ClientNetGameEventV2_wf v \<longleftrightarrow> span_fits SmallBytesArray (ClientNetGameEventV2.targetPlayers v)
     \<and> span_fits (ConstrainedStreamTail 0 1025) (ClientNetGameEventV2.data v)"

interpretation cnge2: serializable ClientNetGameEventV2_Process ClientNetGameEventV2_wf ClientNetGameEventV2_wire ClientNetGameEventV2_init True 8 1543
  by (rule serializableI, unfold ClientNetGameEventV2_Process_def ClientNetGameEventV2_wire_def)
    (rule codec_rules ClientNetGameEventV2.equality | simp add: packet_defs codec_simps ClientNetGameEventV2.defs
      | auto simp: packet_defs codec_simps ClientNetGameEventV2.defs dest!: span_size_bounds size_bounds)+

definition ClientNetGameEventV2Packet_init :: "ClientNetGameEventV2 packet" where
  "ClientNetGameEventV2Packet_init = \<lparr>ptype = HashRageString ''msgNetGameEventV2'', pdata = ClientNetGameEventV2_init\<rparr>"

definition ClientNetGameEventV2Packet_Process :: "ClientNetGameEventV2 packet proc" where
  "ClientNetGameEventV2Packet_Process = packet_Process ClientNetGameEventV2_Process"

interpretation cnge2_packet: serializable ClientNetGameEventV2Packet_Process "packet_wf ClientNetGameEventV2_wf" "packet_wire ClientNetGameEventV2_wire"
  ClientNetGameEventV2Packet_init True "4 + 8" "4 + 1543"
  unfolding ClientNetGameEventV2Packet_Process_def ClientNetGameEventV2Packet_init_def by (rule cnge2.packet)

record ServerNetGameEventV2 =
  clientNetId :: u16
  eventNameHash :: u32
  eventId :: u16
  isReply :: u8
  data :: "u8 span"

definition ServerNetGameEventV2_init :: ServerNetGameEventV2 where
  [packet_defs]: "ServerNetGameEventV2_init = ServerNetGameEventV2.make 0 0 0 0 (Span [])"

definition ServerNetGameEventV2_Process :: "ServerNetGameEventV2 proc" where
  "ServerNetGameEventV2_Process = ProcessPropertiesInOrder
     [on_member ServerNetGameEventV2.clientNetId ServerNetGameEventV2.clientNetId_update Property_int,
      on_member ServerNetGameEventV2.eventNameHash ServerNetGameEventV2.eventNameHash_update Property_int,
      on_member ServerNetGameEventV2.eventId ServerNetGameEventV2.eventId_update Property_int,
      on_member ServerNetGameEventV2.isReply ServerNetGameEventV2.isReply_update Property_bool,
      on_member ServerNetGameEventV2.data ServerNetGameEventV2.data_update (Property_Span u8_elem (ConstrainedStreamTail 0 1025) False False)]"

definition ServerNetGameEventV2_wire :: "ServerNetGameEventV2 \<Rightarrow> u8 list" where
  "ServerNetGameEventV2_wire v = wire_int (ServerNetGameEventV2.clientNetId v)
     @ wire_int (ServerNetGameEventV2.eventNameHash v)
     @ wire_int (ServerNetGameEventV2.eventId v)
     @ [ServerNetGameEventV2.isReply v]
     @ wire_span u8_elem (ConstrainedStreamTail 0 1025) False (ServerNetGameEventV2.data v)"

definition ServerNetGameEventV2_wf :: "ServerNetGameEventV2 \<Rightarrow> bool" where
  [packet_defs]: "ServerNetGameEventV2_wf v \<longleftrightarrow> span_fits (ConstrainedStreamTail 0 1025) (ServerNetGameEventV2.data v)"

interpretation snge2: serializable ServerNetGameEventV2_Process ServerNetGameEventV2_wf ServerNetGameEventV2_wire ServerNetGameEventV2_init True 9 1034
  by (rule serializableI, unfold ServerNetGameEventV2_Process_def ServerNetGameEventV2_wire_def)
    (rule codec_rules ServerNetGameEventV2.equality | simp add: packet_defs codec_simps ServerNetGameEventV2.defs
      | auto simp: packet_defs codec_simps ServerNetGameEventV2.defs dest!: span_size_bounds size_bounds)+

definition ServerNetGameEventV2Packet_init :: "ServerNetGameEventV2 packet" where
  "ServerNetGameEventV2Packet_init = \<lparr>ptype = HashRageString ''msgNetGameEventV2'', pdata = ServerNetGameEventV2_init\<rparr>"

definition ServerNetGameEventV2Packet_Process :: "ServerNetGameEventV2 packet proc" where
  "ServerNetGameEventV2Packet_Process = packet_Process ServerNetGameEventV2_Process"

interpretation snge2_packet: serializable ServerNetGameEventV2Packet_Process "packet_wf ServerNetGameEventV2_wf" "packet_wire ServerNetGameEventV2_wire"
  ServerNetGameEventV2Packet_init True "4 + 9" "4 + 1034"
  unfolding ServerNetGameEventV2Packet_Process_def ServerNetGameEventV2Packet_init_def by (rule snge2.packet)

record ServerNetGameEvent =
  data :: "u8 span"

definition ServerNetGameEvent_init :: ServerNetGameEvent where
  [packet_defs]: "ServerNetGameEvent_init = ServerNetGameEvent.make (Span [])"

definition ServerNetGameEvent_Process :: "ServerNetGameEvent proc" where
  "ServerNetGameEvent_Process = ProcessPropertiesInOrder
     [on_member ServerNetGameEvent.data ServerNetGameEvent.data_update (Property_Span u8_elem (ConstrainedStreamTail 0 2048) False False)]"

definition ServerNetGameEvent_wire :: "ServerNetGameEvent \<Rightarrow> u8 list" where
  "ServerNetGameEvent_wire v = wire_span u8_elem (ConstrainedStreamTail 0 2048) False (ServerNetGameEvent.data v)"

definition ServerNetGameEvent_wf :: "ServerNetGameEvent \<Rightarrow> bool" where
  [packet_defs]: "ServerNetGameEvent_wf v \<longleftrightarrow> span_fits (ConstrainedStreamTail 0 2048) (ServerNetGameEvent.data v)"

interpretation snge: serializable ServerNetGameEvent_Process ServerNetGameEvent_wf ServerNetGameEvent_wire ServerNetGameEvent_init True 0 2048
  by (rule serializableI, unfold ServerNetGameEvent_Process_def ServerNetGameEvent_wire_def)
    (rule codec_rules ServerNetGameEvent.equality | simp add: packet_defs codec_simps ServerNetGameEvent.defs
      | auto simp: packet_defs codec_simps ServerNetGameEvent.defs dest!: span_size_bounds size_bounds)+

definition ServerNetGameEventPacket_init :: "ServerNetGameEvent packet" where
  "ServerNetGameEventPacket_init = \<lparr>ptype = HashRageString ''msgNetGameEvent'', pdata = ServerNetGameEvent_init\<rparr>"

definition ServerNetGameEventPacket_Process :: "ServerNetGameEvent packet proc" where
  "ServerNetGameEventPacket_Process = packet_Process ServerNetGameEvent_Process"

interpretation snge_packet: serializable ServerNetGameEventPacket_Process "packet_wf ServerNetGameEvent_wf" "packet_wire ServerNetGameEvent_wire"
  ServerNetGameEventPacket_init True "4 + 0" "4 + 2048"
  unfolding ServerNetGameEventPacket_Process_def ServerNetGameEventPacket_init_def by (rule snge.packet)

subsection \<open>A truncated game event\<close>

lemma small_sum: "(w :: u64) \<le> 1025 \<Longrightarrow> 8 + w \<le> 8 \<longleftrightarrow> w = 0"
proof -
  assume "w \<le> 1025"
  then have "unat (8 + w) = 8 + unat w" by (simp add: word_le_nat_alt unat_word_ariths)
  then show "8 + w \<le> 8 \<longleftrightarrow> w = 0" by (simp add: word_le_nat_alt word_unat_eq_iff)
qed

lemma ClientNetGameEvent_sizes:
  "GetMinSize ClientNetGameEvent_Process ClientNetGameEvent_init = 8"
  "GetMaxSize ClientNetGameEvent_Process ClientNetGameEvent_init = 1543"
  using cnge.GetMinSize_eq cnge.GetMaxSize_eq by (simp_all add: csat_def)

lemmas execute_reader =
  ByteReader_make_def on_member_def Property_Span_def read_size_def ByteReader_Field_def
  ByteReader_CanRead_def reader_copy_def Let_def ValidateSize_def ByteReader_Field_Span_def
  Property_int_def elem_cast_def

end
