(* ===== verification/PacketsResource.thy ===== *)
theory PacketsResource
  imports PacketContract Hash
begin

text \<open>
  The packets of the resource layer: convars, events, reassembled events, resource start and
  stop, commands, state bags and payment requests.
\<close>

subsection \<open>ConVars.h\<close>

record ServerConVars =
  data :: "u8 span"

definition ServerConVars_init :: ServerConVars where
  [packet_defs]: "ServerConVars_init = ServerConVars.make (Span [])"

definition ServerConVars_Process :: "ServerConVars proc" where
  "ServerConVars_Process = ProcessPropertiesInOrder
     [on_member ServerConVars.data ServerConVars.data_update (Property_Span u8_elem StreamTail False False)]"

definition ServerConVars_wire :: "ServerConVars \<Rightarrow> u8 list" where
  "ServerConVars_wire v = wire_span u8_elem StreamTail False (ServerConVars.data v)"

definition ServerConVars_wf :: "ServerConVars \<Rightarrow> bool" where
  [packet_defs]: "ServerConVars_wf v \<longleftrightarrow> span_fits StreamTail (ServerConVars.data v)"

interpretation scv: serializable ServerConVars_Process ServerConVars_wf ServerConVars_wire ServerConVars_init True 0 18446744073709551615
  by (rule serializableI, unfold ServerConVars_Process_def ServerConVars_wire_def)
    (rule codec_rules ServerConVars.equality | simp add: packet_defs codec_simps ServerConVars.defs
      | auto simp: packet_defs codec_simps ServerConVars.defs dest!: span_size_bounds size_bounds)+

definition ServerConVarsPacket_init :: "ServerConVars packet" where
  "ServerConVarsPacket_init = \<lparr>ptype = HashRageString ''msgConVars'', pdata = ServerConVars_init\<rparr>"

definition ServerConVarsPacket_Process :: "ServerConVars packet proc" where
  "ServerConVarsPacket_Process = packet_Process ServerConVars_Process"

interpretation scv_packet: serializable ServerConVarsPacket_Process "packet_wf ServerConVars_wf" "packet_wire ServerConVars_wire"
  ServerConVarsPacket_init True "4 + 0" "4 + 18446744073709551615"
  unfolding ServerConVarsPacket_Process_def ServerConVarsPacket_init_def by (rule scv.packet)

subsection \<open>NetEvent.h\<close>

record ServerClientEvent =
  sourceNetId :: u16
  eventName :: "u8 span"
  eventData :: "u8 span"

definition ServerClientEvent_init :: ServerClientEvent where
  [packet_defs]: "ServerClientEvent_init = ServerClientEvent.make (- 1) (Span []) (Span [])"

definition ServerClientEvent_Process :: "ServerClientEvent proc" where
  "ServerClientEvent_Process = ProcessPropertiesInOrder
     [on_member ServerClientEvent.sourceNetId ServerClientEvent.sourceNetId_update Property_int,
      on_member ServerClientEvent.eventName ServerClientEvent.eventName_update (Property_Span u8_elem (ConstrainedBytesArray 2 65535) False False),
      on_member ServerClientEvent.eventData ServerClientEvent.eventData_update (Property_Span u8_elem StreamTail False False)]"

definition ServerClientEvent_wire :: "ServerClientEvent \<Rightarrow> u8 list" where
  "ServerClientEvent_wire v = wire_int (ServerClientEvent.sourceNetId v)
     @ wire_span u8_elem (ConstrainedBytesArray 2 65535) False (ServerClientEvent.eventName v)
     @ wire_span u8_elem StreamTail False (ServerClientEvent.eventData v)"

definition ServerClientEvent_wf :: "ServerClientEvent \<Rightarrow> bool" where
  [packet_defs]: "ServerClientEvent_wf v \<longleftrightarrow> span_fits (ConstrainedBytesArray 2 65535) (ServerClientEvent.eventName v)
     \<and> span_fits StreamTail (ServerClientEvent.eventData v)"

interpretation sce: serializable ServerClientEvent_Process ServerClientEvent_wf ServerClientEvent_wire ServerClientEvent_init True 6 18446744073709617154
  by (rule serializableI, unfold ServerClientEvent_Process_def ServerClientEvent_wire_def)
    (rule codec_rules ServerClientEvent.equality | simp add: packet_defs codec_simps ServerClientEvent.defs
      | auto simp: packet_defs codec_simps ServerClientEvent.defs dest!: span_size_bounds size_bounds)+

definition ServerClientEventPacket_init :: "ServerClientEvent packet" where
  "ServerClientEventPacket_init = \<lparr>ptype = HashRageString ''msgNetEvent'', pdata = ServerClientEvent_init\<rparr>"

definition ServerClientEventPacket_Process :: "ServerClientEvent packet proc" where
  "ServerClientEventPacket_Process = packet_Process ServerClientEvent_Process"

interpretation sce_packet: serializable ServerClientEventPacket_Process "packet_wf ServerClientEvent_wf" "packet_wire ServerClientEvent_wire"
  ServerClientEventPacket_init True "4 + 6" "4 + 18446744073709617154"
  unfolding ServerClientEventPacket_Process_def ServerClientEventPacket_init_def by (rule sce.packet)

record ClientServerEvent =
  eventName :: "u8 span"
  eventData :: "u8 span"

definition ClientServerEvent_init :: ClientServerEvent where
  [packet_defs]: "ClientServerEvent_init = ClientServerEvent.make (Span []) (Span [])"

definition ClientServerEvent_Process :: "ClientServerEvent proc" where
  "ClientServerEvent_Process = ProcessPropertiesInOrder
     [on_member ClientServerEvent.eventName ClientServerEvent.eventName_update (Property_Span u8_elem (ConstrainedBytesArray 2 65535) False False),
      on_member ClientServerEvent.eventData ClientServerEvent.eventData_update (Property_Span u8_elem (ConstrainedStreamTail 0 393216) False False)]"

definition ClientServerEvent_wire :: "ClientServerEvent \<Rightarrow> u8 list" where
  "ClientServerEvent_wire v = wire_span u8_elem (ConstrainedBytesArray 2 65535) False (ClientServerEvent.eventName v)
     @ wire_span u8_elem (ConstrainedStreamTail 0 393216) False (ClientServerEvent.eventData v)"

definition ClientServerEvent_wf :: "ClientServerEvent \<Rightarrow> bool" where
  [packet_defs]: "ClientServerEvent_wf v \<longleftrightarrow> span_fits (ConstrainedBytesArray 2 65535) (ClientServerEvent.eventName v)
     \<and> span_fits (ConstrainedStreamTail 0 393216) (ClientServerEvent.eventData v)"

interpretation cse: serializable ClientServerEvent_Process ClientServerEvent_wf ClientServerEvent_wire ClientServerEvent_init True 4 458753
  by (rule serializableI, unfold ClientServerEvent_Process_def ClientServerEvent_wire_def)
    (rule codec_rules ClientServerEvent.equality | simp add: packet_defs codec_simps ClientServerEvent.defs
      | auto simp: packet_defs codec_simps ClientServerEvent.defs dest!: span_size_bounds size_bounds)+

definition ClientServerEventPacket_init :: "ClientServerEvent packet" where
  "ClientServerEventPacket_init = \<lparr>ptype = HashRageString ''msgServerEvent'', pdata = ClientServerEvent_init\<rparr>"

definition ClientServerEventPacket_Process :: "ClientServerEvent packet proc" where
  "ClientServerEventPacket_Process = packet_Process ClientServerEvent_Process"

interpretation cse_packet: serializable ClientServerEventPacket_Process "packet_wf ClientServerEvent_wf" "packet_wire ClientServerEvent_wire"
  ClientServerEventPacket_init True "4 + 4" "4 + 458753"
  unfolding ClientServerEventPacket_Process_def ClientServerEventPacket_init_def by (rule cse.packet)

subsection \<open>ReassembledEventPacket.h\<close>

record ReassembledEvent =
  data :: "u8 span"

definition ReassembledEvent_init :: ReassembledEvent where
  [packet_defs]: "ReassembledEvent_init = ReassembledEvent.make (Span [])"

definition ReassembledEvent_Process :: "ReassembledEvent proc" where
  "ReassembledEvent_Process = ProcessPropertiesInOrder
     [on_member ReassembledEvent.data ReassembledEvent.data_update (Property_Span u8_elem (ConstrainedStreamTail 1 1088) False False)]"

definition ReassembledEvent_wire :: "ReassembledEvent \<Rightarrow> u8 list" where
  "ReassembledEvent_wire v = wire_span u8_elem (ConstrainedStreamTail 1 1088) False (ReassembledEvent.data v)"

definition ReassembledEvent_wf :: "ReassembledEvent \<Rightarrow> bool" where
  [packet_defs]: "ReassembledEvent_wf v \<longleftrightarrow> span_fits (ConstrainedStreamTail 1 1088) (ReassembledEvent.data v)"

interpretation rev: serializable ReassembledEvent_Process ReassembledEvent_wf ReassembledEvent_wire ReassembledEvent_init True 1 1088
  by (rule serializableI, unfold ReassembledEvent_Process_def ReassembledEvent_wire_def)
    (rule codec_rules ReassembledEvent.equality | simp add: packet_defs codec_simps ReassembledEvent.defs
      | auto simp: packet_defs codec_simps ReassembledEvent.defs dest!: span_size_bounds size_bounds)+

definition ReassembledEventPacket_init :: "ReassembledEvent packet" where
  "ReassembledEventPacket_init = \<lparr>ptype = HashRageString ''msgReassembledEvent'', pdata = ReassembledEvent_init\<rparr>"

definition ReassembledEventPacket_Process :: "ReassembledEvent packet proc" where
  "ReassembledEventPacket_Process = packet_Process ReassembledEvent_Process"

interpretation rev_packet: serializable ReassembledEventPacket_Process "packet_wf ReassembledEvent_wf" "packet_wire ReassembledEvent_wire"
  ReassembledEventPacket_init True "4 + 1" "4 + 1088"
  unfolding ReassembledEventPacket_Process_def ReassembledEventPacket_init_def by (rule rev.packet)

record ReassembledEventV2 =
  eventId :: u64
  packetIdx :: u16
  totalPackets :: u16
  data :: "u8 span"

definition ReassembledEventV2_init :: ReassembledEventV2 where
  [packet_defs]: "ReassembledEventV2_init = ReassembledEventV2.make 0 0 0 (Span [])"

definition ReassembledEventV2_Process :: "ReassembledEventV2 proc" where
  "ReassembledEventV2_Process = ProcessPropertiesInOrder
     [on_member ReassembledEventV2.eventId ReassembledEventV2.eventId_update Property_int,
      on_member ReassembledEventV2.packetIdx ReassembledEventV2.packetIdx_update Property_int,
      on_member ReassembledEventV2.totalPackets ReassembledEventV2.totalPackets_update Property_int,
      on_member ReassembledEventV2.data ReassembledEventV2.data_update (Property_Span u8_elem (ConstrainedStreamTail 0 2047) False False)]"

definition ReassembledEventV2_wire :: "ReassembledEventV2 \<Rightarrow> u8 list" where
  "ReassembledEventV2_wire v = wire_int (ReassembledEventV2.eventId v)
     @ wire_int (ReassembledEventV2.packetIdx v)
     @ wire_int (ReassembledEventV2.totalPackets v)
     @ wire_span u8_elem (ConstrainedStreamTail 0 2047) False (ReassembledEventV2.data v)"

definition ReassembledEventV2_wf :: "ReassembledEventV2 \<Rightarrow> bool" where
  [packet_defs]: "ReassembledEventV2_wf v \<longleftrightarrow> span_fits (ConstrainedStreamTail 0 2047) (ReassembledEventV2.data v)"

interpretation rev2: serializable ReassembledEventV2_Process ReassembledEventV2_wf ReassembledEventV2_wire ReassembledEventV2_init True 12 2059
  by (rule serializableI, unfold ReassembledEventV2_Process_def ReassembledEventV2_wire_def)
    (rule codec_rules ReassembledEventV2.equality | simp add: packet_defs codec_simps ReassembledEventV2.defs
      | auto simp: packet_defs codec_simps ReassembledEventV2.defs dest!: span_size_bounds size_bounds)+

definition ReassembledEventV2Packet_init :: "ReassembledEventV2 packet" where
  "ReassembledEventV2Packet_init = \<lparr>ptype = HashRageString ''msgReassembledEventV2'', pdata = ReassembledEventV2_init\<rparr>"

definition ReassembledEventV2Packet_Process :: "ReassembledEventV2 packet proc" where
  "ReassembledEventV2Packet_Process = packet_Process ReassembledEventV2_Process"

interpretation rev2_packet: serializable ReassembledEventV2Packet_Process "packet_wf ReassembledEventV2_wf" "packet_wire ReassembledEventV2_wire"
  ReassembledEventV2Packet_init True "4 + 12" "4 + 2059"
  unfolding ReassembledEventV2Packet_Process_def ReassembledEventV2Packet_init_def by (rule rev2.packet)

subsection \<open>ResourcePacket.h\<close>

record ServerResourceStart =
  resourceName :: "u8 list"

definition ServerResourceStart_init :: ServerResourceStart where
  [packet_defs]: "ServerResourceStart_init = ServerResourceStart.make []"

definition ServerResourceStart_Process :: "ServerResourceStart proc" where
  "ServerResourceStart_Process = ProcessPropertiesInOrder
     [on_member ServerResourceStart.resourceName ServerResourceStart.resourceName_update (Property_string StreamTail)]"

definition ServerResourceStart_wire :: "ServerResourceStart \<Rightarrow> u8 list" where
  "ServerResourceStart_wire v = wire_string StreamTail (ServerResourceStart.resourceName v)"

definition ServerResourceStart_wf :: "ServerResourceStart \<Rightarrow> bool" where
  [packet_defs]: "ServerResourceStart_wf v \<longleftrightarrow> size_fits StreamTail (length (ServerResourceStart.resourceName v))"

interpretation srs: serializable ServerResourceStart_Process ServerResourceStart_wf ServerResourceStart_wire ServerResourceStart_init True 0 18446744073709551615
  by (rule serializableI, unfold ServerResourceStart_Process_def ServerResourceStart_wire_def)
    (rule codec_rules ServerResourceStart.equality | simp add: packet_defs codec_simps ServerResourceStart.defs
      | auto simp: packet_defs codec_simps ServerResourceStart.defs dest!: span_size_bounds size_bounds)+

definition ServerResourceStartPacket_init :: "ServerResourceStart packet" where
  "ServerResourceStartPacket_init = \<lparr>ptype = HashRageString ''msgResStart'', pdata = ServerResourceStart_init\<rparr>"

definition ServerResourceStartPacket_Process :: "ServerResourceStart packet proc" where
  "ServerResourceStartPacket_Process = packet_Process ServerResourceStart_Process"

interpretation srs_packet: serializable ServerResourceStartPacket_Process "packet_wf ServerResourceStart_wf" "packet_wire ServerResourceStart_wire"
  ServerResourceStartPacket_init True "4 + 0" "4 + 18446744073709551615"
  unfolding ServerResourceStartPacket_Process_def ServerResourceStartPacket_init_def by (rule srs.packet)

record ServerResourceStop =
  resourceName :: "u8 list"

definition ServerResourceStop_init :: ServerResourceStop where
  [packet_defs]: "ServerResourceStop_init = ServerResourceStop.make []"

definition ServerResourceStop_Process :: "ServerResourceStop proc" where
  "ServerResourceStop_Process = ProcessPropertiesInOrder
     [on_member ServerResourceStop.resourceName ServerResourceStop.resourceName_update (Property_string StreamTail)]"

definition ServerResourceStop_wire :: "ServerResourceStop \<Rightarrow> u8 list" where
  "ServerResourceStop_wire v = wire_string StreamTail (ServerResourceStop.resourceName v)"

definition ServerResourceStop_wf :: "ServerResourceStop \<Rightarrow> bool" where
  [packet_defs]: "ServerResourceStop_wf v \<longleftrightarrow> size_fits StreamTail (length (ServerResourceStop.resourceName v))"

interpretation srp: serializable ServerResourceStop_Process ServerResourceStop_wf ServerResourceStop_wire ServerResourceStop_init True 0 18446744073709551615
  by (rule serializableI, unfold ServerResourceStop_Process_def ServerResourceStop_wire_def)
    (rule codec_rules ServerResourceStop.equality | simp add: packet_defs codec_simps ServerResourceStop.defs
      | auto simp: packet_defs codec_simps ServerResourceStop.defs dest!: span_size_bounds size_bounds)+

definition ServerResourceStopPacket_init :: "ServerResourceStop packet" where
  "ServerResourceStopPacket_init = \<lparr>ptype = HashRageString ''msgResStop'', pdata = ServerResourceStop_init\<rparr>"

definition ServerResourceStopPacket_Process :: "ServerResourceStop packet proc" where
  "ServerResourceStopPacket_Process = packet_Process ServerResourceStop_Process"

interpretation srp_packet: serializable ServerResourceStopPacket_Process "packet_wf ServerResourceStop_wf" "packet_wire ServerResourceStop_wire"
  ServerResourceStopPacket_init True "4 + 0" "4 + 18446744073709551615"
  unfolding ServerResourceStopPacket_Process_def ServerResourceStopPacket_init_def by (rule srp.packet)

subsection \<open>ServerCommand.h\<close>

record ClientServerCommand =
  command :: "u8 list"
  commandHash :: u32

definition ClientServerCommand_init :: ClientServerCommand where
  [packet_defs]: "ClientServerCommand_init = ClientServerCommand.make [] 0"

definition ClientServerCommand_Process :: "ClientServerCommand proc" where
  "ClientServerCommand_Process = ProcessPropertiesInOrder
     [on_member ClientServerCommand.command ClientServerCommand.command_update (Property_string (ConstrainedBytesArray 1 4096)),
      on_member ClientServerCommand.commandHash ClientServerCommand.commandHash_update Property_int]"

definition ClientServerCommand_wire :: "ClientServerCommand \<Rightarrow> u8 list" where
  "ClientServerCommand_wire v = wire_string (ConstrainedBytesArray 1 4096) (ClientServerCommand.command v)
     @ wire_int (ClientServerCommand.commandHash v)"

definition ClientServerCommand_wf :: "ClientServerCommand \<Rightarrow> bool" where
  [packet_defs]: "ClientServerCommand_wf v \<longleftrightarrow> size_fits (ConstrainedBytesArray 1 4096) (length (ClientServerCommand.command v))"

interpretation csc: serializable ClientServerCommand_Process ClientServerCommand_wf ClientServerCommand_wire ClientServerCommand_init False 7 4102
  by (rule serializableI, unfold ClientServerCommand_Process_def ClientServerCommand_wire_def)
    (rule codec_rules ClientServerCommand.equality | simp add: packet_defs codec_simps ClientServerCommand.defs
      | auto simp: packet_defs codec_simps ClientServerCommand.defs dest!: span_size_bounds size_bounds)+

definition ClientServerCommandPacket_init :: "ClientServerCommand packet" where
  "ClientServerCommandPacket_init = \<lparr>ptype = HashRageString ''msgServerCommand'', pdata = ClientServerCommand_init\<rparr>"

definition ClientServerCommandPacket_Process :: "ClientServerCommand packet proc" where
  "ClientServerCommandPacket_Process = packet_Process ClientServerCommand_Process"

interpretation csc_packet: serializable ClientServerCommandPacket_Process "packet_wf ClientServerCommand_wf" "packet_wire ClientServerCommand_wire"
  ClientServerCommandPacket_init False "4 + 7" "4 + 4102"
  unfolding ClientServerCommandPacket_Process_def ClientServerCommandPacket_init_def by (rule csc.packet)

subsection \<open>StateBag.h\<close>

record StateBag =
  data :: "u8 list"

definition StateBag_init :: StateBag where
  [packet_defs]: "StateBag_init = StateBag.make []"

definition StateBag_Process :: "StateBag proc" where
  "StateBag_Process = ProcessPropertiesInOrder
     [on_member StateBag.data StateBag.data_update (Property_string (ConstrainedStreamTail 1 262144))]"

definition StateBag_wire :: "StateBag \<Rightarrow> u8 list" where
  "StateBag_wire v = wire_string (ConstrainedStreamTail 1 262144) (StateBag.data v)"

definition StateBag_wf :: "StateBag \<Rightarrow> bool" where
  [packet_defs]: "StateBag_wf v \<longleftrightarrow> size_fits (ConstrainedStreamTail 1 262144) (length (StateBag.data v))"

interpretation sbg: serializable StateBag_Process StateBag_wf StateBag_wire StateBag_init True 1 262144
  by (rule serializableI, unfold StateBag_Process_def StateBag_wire_def)
    (rule codec_rules StateBag.equality | simp add: packet_defs codec_simps StateBag.defs
      | auto simp: packet_defs codec_simps StateBag.defs dest!: span_size_bounds size_bounds)+

definition StateBagPacket_init :: "StateBag packet" where
  "StateBagPacket_init = \<lparr>ptype = HashRageString ''msgStateBag'', pdata = StateBag_init\<rparr>"

definition StateBagPacket_Process :: "StateBag packet proc" where
  "StateBagPacket_Process = packet_Process StateBag_Process"

interpretation sbg_packet: serializable StateBagPacket_Process "packet_wf StateBag_wf" "packet_wire StateBag_wire"
  StateBagPacket_init True "4 + 1" "4 + 262144"
  unfolding StateBagPacket_Process_def StateBagPacket_init_def by (rule sbg.packet)

record StateBagV2 =
  stateBagName :: "u8 list"
  key :: "u8 list"
  data :: "u8 list"

definition StateBagV2_init :: StateBagV2 where
  [packet_defs]: "StateBagV2_init = StateBagV2.make [] [] []"

definition StateBagV2_Process :: "StateBagV2 proc" where
  "StateBagV2_Process = ProcessPropertiesInOrder
     [on_member StateBagV2.stateBagName StateBagV2.stateBagName_update (Property_string (ConstrainedBytesArray 1 128)),
      on_member StateBagV2.key StateBagV2.key_update (Property_string (ConstrainedBytesArray 1 1024)),
      on_member StateBagV2.data StateBagV2.data_update (Property_string (ConstrainedStreamTail 1 262144))]"

definition StateBagV2_wire :: "StateBagV2 \<Rightarrow> u8 list" where
  "StateBagV2_wire v = wire_string (ConstrainedBytesArray 1 128) (StateBagV2.stateBagName v)
     @ wire_string (ConstrainedBytesArray 1 1024) (StateBagV2.key v)
     @ wire_string (ConstrainedStreamTail 1 262144) (StateBagV2.data v)"

definition StateBagV2_wf :: "StateBagV2 \<Rightarrow> bool" where
  [packet_defs]: "StateBagV2_wf v \<longleftrightarrow> size_fits (ConstrainedBytesArray 1 128) (length (StateBagV2.stateBagName v))
     \<and> size_fits (ConstrainedBytesArray 1 1024) (length (StateBagV2.key v))
     \<and> size_fits (ConstrainedStreamTail 1 262144) (length (StateBagV2.data v))"

interpretation sbg2: serializable StateBagV2_Process StateBagV2_wf StateBagV2_wire StateBagV2_init True 7 263300
  by (rule serializableI, unfold StateBagV2_Process_def StateBagV2_wire_def)
    (rule codec_rules StateBagV2.equality | simp add: packet_defs codec_simps StateBagV2.defs
      | auto simp: packet_defs codec_simps StateBagV2.defs dest!: span_size_bounds size_bounds)+

definition StateBagV2Packet_init :: "StateBagV2 packet" where
  "StateBagV2Packet_init = \<lparr>ptype = HashRageString ''msgStateBagV2'', pdata = StateBagV2_init\<rparr>"

definition StateBagV2Packet_Process :: "StateBagV2 packet proc" where
  "StateBagV2Packet_Process = packet_Process StateBagV2_Process"

interpretation sbg2_packet: serializable StateBagV2Packet_Process "packet_wf StateBagV2_wf" "packet_wire StateBagV2_wire"
  StateBagV2Packet_init True "4 + 7" "4 + 263300"
  unfolding StateBagV2Packet_Process_def StateBagV2Packet_init_def by (rule sbg2.packet)

subsection \<open>PaymentRequest.h\<close>

record ServerPaymentRequest =
  data :: "u8 span"

definition ServerPaymentRequest_init :: ServerPaymentRequest where
  [packet_defs]: "ServerPaymentRequest_init = ServerPaymentRequest.make (Span [])"

definition ServerPaymentRequest_Process :: "ServerPaymentRequest proc" where
  "ServerPaymentRequest_Process = ProcessPropertiesInOrder
     [on_member ServerPaymentRequest.data ServerPaymentRequest.data_update (Property_Span u8_elem (ConstrainedStreamTail 1 4294967295) False False)]"

definition ServerPaymentRequest_wire :: "ServerPaymentRequest \<Rightarrow> u8 list" where
  "ServerPaymentRequest_wire v = wire_span u8_elem (ConstrainedStreamTail 1 4294967295) False (ServerPaymentRequest.data v)"

definition ServerPaymentRequest_wf :: "ServerPaymentRequest \<Rightarrow> bool" where
  [packet_defs]: "ServerPaymentRequest_wf v \<longleftrightarrow> span_fits (ConstrainedStreamTail 1 4294967295) (ServerPaymentRequest.data v)"

interpretation spr: serializable ServerPaymentRequest_Process ServerPaymentRequest_wf ServerPaymentRequest_wire ServerPaymentRequest_init True 1 4294967295
  by (rule serializableI, unfold ServerPaymentRequest_Process_def ServerPaymentRequest_wire_def)
    (rule codec_rules ServerPaymentRequest.equality | simp add: packet_defs codec_simps ServerPaymentRequest.defs
      | auto simp: packet_defs codec_simps ServerPaymentRequest.defs dest!: span_size_bounds size_bounds)+

definition ServerPaymentRequestPacket_init :: "ServerPaymentRequest packet" where
  "ServerPaymentRequestPacket_init = \<lparr>ptype = HashRageString ''msgPaymentRequest'', pdata = ServerPaymentRequest_init\<rparr>"

definition ServerPaymentRequestPacket_Process :: "ServerPaymentRequest packet proc" where
  "ServerPaymentRequestPacket_Process = packet_Process ServerPaymentRequest_Process"

interpretation spr_packet: serializable ServerPaymentRequestPacket_Process "packet_wf ServerPaymentRequest_wf" "packet_wire ServerPaymentRequest_wire"
  ServerPaymentRequestPacket_init True "4 + 1" "4 + 4294967295"
  unfolding ServerPaymentRequestPacket_Process_def ServerPaymentRequestPacket_init_def by (rule spr.packet)

end
