(* ===== verification/PacketsSession.thy ===== *)
theory PacketsSession
  imports PacketContract Hash
begin

text \<open>
  The packets of the session layer: host migration, disconnecting and time synchronisation.
\<close>

subsection \<open>HeHost.h\<close>

record ClientHeHost =
  allegedNewId :: u32
  baseNum :: u32

definition ClientHeHost_init :: ClientHeHost where
  [packet_defs]: "ClientHeHost_init = ClientHeHost.make 0 0"

definition ClientHeHost_Process :: "ClientHeHost proc" where
  "ClientHeHost_Process = ProcessPropertiesInOrder
     [on_member ClientHeHost.allegedNewId ClientHeHost.allegedNewId_update Property_int,
      on_member ClientHeHost.baseNum ClientHeHost.baseNum_update Property_int]"

definition ClientHeHost_wire :: "ClientHeHost \<Rightarrow> u8 list" where
  "ClientHeHost_wire v = wire_int (ClientHeHost.allegedNewId v)
     @ wire_int (ClientHeHost.baseNum v)"

definition ClientHeHost_wf :: "ClientHeHost \<Rightarrow> bool" where
  [packet_defs]: "ClientHeHost_wf v \<longleftrightarrow> True"

interpretation chh: serializable ClientHeHost_Process ClientHeHost_wf ClientHeHost_wire ClientHeHost_init False 8 8
  by (rule serializableI, unfold ClientHeHost_Process_def ClientHeHost_wire_def)
    (rule codec_rules ClientHeHost.equality | simp add: packet_defs codec_simps ClientHeHost.defs
      | auto simp: packet_defs codec_simps ClientHeHost.defs dest!: span_size_bounds size_bounds)+

definition ClientHeHostPacket_init :: "ClientHeHost packet" where
  "ClientHeHostPacket_init = \<lparr>ptype = HashRageString ''msgHeHost'', pdata = ClientHeHost_init\<rparr>"

definition ClientHeHostPacket_Process :: "ClientHeHost packet proc" where
  "ClientHeHostPacket_Process = packet_Process ClientHeHost_Process"

interpretation chh_packet: serializable ClientHeHostPacket_Process "packet_wf ClientHeHost_wf" "packet_wire ClientHeHost_wire"
  ClientHeHostPacket_init False "4 + 8" "4 + 8"
  unfolding ClientHeHostPacket_Process_def ClientHeHostPacket_init_def by (rule chh.packet)

subsection \<open>IHost.h\<close>

record ServerIHost =
  netId :: u16
  baseNum :: u32

definition ServerIHost_init :: ServerIHost where
  [packet_defs]: "ServerIHost_init = ServerIHost.make 0 0"

definition ServerIHost_Process :: "ServerIHost proc" where
  "ServerIHost_Process = ProcessPropertiesInOrder
     [on_member ServerIHost.netId ServerIHost.netId_update Property_int,
      on_member ServerIHost.baseNum ServerIHost.baseNum_update Property_int]"

definition ServerIHost_wire :: "ServerIHost \<Rightarrow> u8 list" where
  "ServerIHost_wire v = wire_int (ServerIHost.netId v)
     @ wire_int (ServerIHost.baseNum v)"

definition ServerIHost_wf :: "ServerIHost \<Rightarrow> bool" where
  [packet_defs]: "ServerIHost_wf v \<longleftrightarrow> True"

interpretation sih: serializable ServerIHost_Process ServerIHost_wf ServerIHost_wire ServerIHost_init False 6 6
  by (rule serializableI, unfold ServerIHost_Process_def ServerIHost_wire_def)
    (rule codec_rules ServerIHost.equality | simp add: packet_defs codec_simps ServerIHost.defs
      | auto simp: packet_defs codec_simps ServerIHost.defs dest!: span_size_bounds size_bounds)+

definition ServerIHostPacket_init :: "ServerIHost packet" where
  "ServerIHostPacket_init = \<lparr>ptype = HashRageString ''msgIHost'', pdata = ServerIHost_init\<rparr>"

definition ServerIHostPacket_Process :: "ServerIHost packet proc" where
  "ServerIHostPacket_Process = packet_Process ServerIHost_Process"

interpretation sih_packet: serializable ServerIHostPacket_Process "packet_wf ServerIHost_wf" "packet_wire ServerIHost_wire"
  ServerIHostPacket_init False "4 + 6" "4 + 6"
  unfolding ServerIHostPacket_Process_def ServerIHostPacket_init_def by (rule sih.packet)

record ClientIHost =
  baseNum :: u32

definition ClientIHost_init :: ClientIHost where
  [packet_defs]: "ClientIHost_init = ClientIHost.make 0"

definition ClientIHost_Process :: "ClientIHost proc" where
  "ClientIHost_Process = ProcessPropertiesInOrder
     [on_member ClientIHost.baseNum ClientIHost.baseNum_update Property_int]"

definition ClientIHost_wire :: "ClientIHost \<Rightarrow> u8 list" where
  "ClientIHost_wire v = wire_int (ClientIHost.baseNum v)"

definition ClientIHost_wf :: "ClientIHost \<Rightarrow> bool" where
  [packet_defs]: "ClientIHost_wf v \<longleftrightarrow> True"

interpretation cih: serializable ClientIHost_Process ClientIHost_wf ClientIHost_wire ClientIHost_init False 4 4
  by (rule serializableI, unfold ClientIHost_Process_def ClientIHost_wire_def)
    (rule codec_rules ClientIHost.equality | simp add: packet_defs codec_simps ClientIHost.defs
      | auto simp: packet_defs codec_simps ClientIHost.defs dest!: span_size_bounds size_bounds)+

definition ClientIHostPacket_init :: "ClientIHost packet" where
  "ClientIHostPacket_init = \<lparr>ptype = HashRageString ''msgIHost'', pdata = ClientIHost_init\<rparr>"

definition ClientIHostPacket_Process :: "ClientIHost packet proc" where
  "ClientIHostPacket_Process = packet_Process ClientIHost_Process"

interpretation cih_packet: serializable ClientIHostPacket_Process "packet_wf ClientIHost_wf" "packet_wire ClientIHost_wire"
  ClientIHostPacket_init False "4 + 4" "4 + 4"
  unfolding ClientIHostPacket_Process_def ClientIHostPacket_init_def by (rule cih.packet)

subsection \<open>IQuit.h\<close>

record ClientIQuit =
  reason :: "u8 span"

definition ClientIQuit_init :: ClientIQuit where
  [packet_defs]: "ClientIQuit_init = ClientIQuit.make (Span [])"

definition ClientIQuit_Process :: "ClientIQuit proc" where
  "ClientIQuit_Process = ProcessPropertiesInOrder
     [on_member ClientIQuit.reason ClientIQuit.reason_update (Property_Span u8_elem (ConstrainedStreamTail 2 1024) False False)]"

definition ClientIQuit_wire :: "ClientIQuit \<Rightarrow> u8 list" where
  "ClientIQuit_wire v = wire_span u8_elem (ConstrainedStreamTail 2 1024) False (ClientIQuit.reason v)"

definition ClientIQuit_wf :: "ClientIQuit \<Rightarrow> bool" where
  [packet_defs]: "ClientIQuit_wf v \<longleftrightarrow> span_fits (ConstrainedStreamTail 2 1024) (ClientIQuit.reason v)"

interpretation ciq: serializable ClientIQuit_Process ClientIQuit_wf ClientIQuit_wire ClientIQuit_init True 2 1024
  by (rule serializableI, unfold ClientIQuit_Process_def ClientIQuit_wire_def)
    (rule codec_rules ClientIQuit.equality | simp add: packet_defs codec_simps ClientIQuit.defs
      | auto simp: packet_defs codec_simps ClientIQuit.defs dest!: span_size_bounds size_bounds)+

definition ClientIQuitPacket_init :: "ClientIQuit packet" where
  "ClientIQuitPacket_init = \<lparr>ptype = HashRageString ''msgIQuit'', pdata = ClientIQuit_init\<rparr>"

definition ClientIQuitPacket_Process :: "ClientIQuit packet proc" where
  "ClientIQuitPacket_Process = packet_Process ClientIQuit_Process"

interpretation ciq_packet: serializable ClientIQuitPacket_Process "packet_wf ClientIQuit_wf" "packet_wire ClientIQuit_wire"
  ClientIQuitPacket_init True "4 + 2" "4 + 1024"
  unfolding ClientIQuitPacket_Process_def ClientIQuitPacket_init_def by (rule ciq.packet)

subsection \<open>TimeSync.h\<close>

record TimeSyncRequest =
  requestTime :: u32
  requestSequence :: u32

definition TimeSyncRequest_init :: TimeSyncRequest where
  [packet_defs]: "TimeSyncRequest_init = TimeSyncRequest.make 0 0"

definition TimeSyncRequest_Process :: "TimeSyncRequest proc" where
  "TimeSyncRequest_Process = ProcessPropertiesInOrder
     [on_member TimeSyncRequest.requestTime TimeSyncRequest.requestTime_update Property_int,
      on_member TimeSyncRequest.requestSequence TimeSyncRequest.requestSequence_update Property_int]"

definition TimeSyncRequest_wire :: "TimeSyncRequest \<Rightarrow> u8 list" where
  "TimeSyncRequest_wire v = wire_int (TimeSyncRequest.requestTime v)
     @ wire_int (TimeSyncRequest.requestSequence v)"

definition TimeSyncRequest_wf :: "TimeSyncRequest \<Rightarrow> bool" where
  [packet_defs]: "TimeSyncRequest_wf v \<longleftrightarrow> True"

interpretation tsq: serializable TimeSyncRequest_Process TimeSyncRequest_wf TimeSyncRequest_wire TimeSyncRequest_init False 8 8
  by (rule serializableI, unfold TimeSyncRequest_Process_def TimeSyncRequest_wire_def)
    (rule codec_rules TimeSyncRequest.equality | simp add: packet_defs codec_simps TimeSyncRequest.defs
      | auto simp: packet_defs codec_simps TimeSyncRequest.defs dest!: span_size_bounds size_bounds)+

definition TimeSyncRequestPacket_init :: "TimeSyncRequest packet" where
  "TimeSyncRequestPacket_init = \<lparr>ptype = HashRageString ''msgTimeSyncReq'', pdata = TimeSyncRequest_init\<rparr>"

definition TimeSyncRequestPacket_Process :: "TimeSyncRequest packet proc" where
  "TimeSyncRequestPacket_Process = packet_Process TimeSyncRequest_Process"

interpretation tsq_packet: serializable TimeSyncRequestPacket_Process "packet_wf TimeSyncRequest_wf" "packet_wire TimeSyncRequest_wire"
  TimeSyncRequestPacket_init False "4 + 8" "4 + 8"
  unfolding TimeSyncRequestPacket_Process_def TimeSyncRequestPacket_init_def by (rule tsq.packet)

lemmas TimeSyncRequest_laws =
  tsq.safe tsq.writes tsq.counts tsq.reads [unfolded TimeSyncRequest_init_def]
  tsq.mins [unfolded TimeSyncRequest_init_def] tsq.maxs [unfolded TimeSyncRequest_init_def]

lemma TimeSyncRequest_length: "length (TimeSyncRequest_wire v) = 8"
  by (simp add: TimeSyncRequest_wire_def)

record TimeSyncResponse =
  request :: TimeSyncRequest
  serverTimeMillis :: u32

definition TimeSyncResponse_init :: TimeSyncResponse where
  [packet_defs]: "TimeSyncResponse_init = TimeSyncResponse.make TimeSyncRequest_init 0"

definition TimeSyncResponse_Process :: "TimeSyncResponse proc" where
  "TimeSyncResponse_Process = ProcessPropertiesInOrder
     [on_member TimeSyncResponse.request TimeSyncResponse.request_update TimeSyncRequest_Process,
      on_member TimeSyncResponse.serverTimeMillis TimeSyncResponse.serverTimeMillis_update Property_int]"

definition TimeSyncResponse_wire :: "TimeSyncResponse \<Rightarrow> u8 list" where
  "TimeSyncResponse_wire v = TimeSyncRequest_wire (TimeSyncResponse.request v)
     @ wire_int (TimeSyncResponse.serverTimeMillis v)"

definition TimeSyncResponse_wf :: "TimeSyncResponse \<Rightarrow> bool" where
  [packet_defs]: "TimeSyncResponse_wf v \<longleftrightarrow> True"

interpretation tsr: serializable TimeSyncResponse_Process TimeSyncResponse_wf TimeSyncResponse_wire TimeSyncResponse_init False 12 12
  by (rule serializableI, unfold TimeSyncResponse_Process_def TimeSyncResponse_wire_def)
    (rule codec_rules TimeSyncRequest_laws TimeSyncResponse.equality | simp add: packet_defs codec_simps TimeSyncResponse.defs TimeSyncRequest_length
      | auto simp: packet_defs codec_simps TimeSyncResponse.defs TimeSyncRequest_length dest!: span_size_bounds size_bounds)+

definition TimeSyncResponsePacket_init :: "TimeSyncResponse packet" where
  "TimeSyncResponsePacket_init = \<lparr>ptype = HashRageString ''msgTimeSync'', pdata = TimeSyncResponse_init\<rparr>"

definition TimeSyncResponsePacket_Process :: "TimeSyncResponse packet proc" where
  "TimeSyncResponsePacket_Process = packet_Process TimeSyncResponse_Process"

interpretation tsr_packet: serializable TimeSyncResponsePacket_Process "packet_wf TimeSyncResponse_wf" "packet_wire TimeSyncResponse_wire"
  TimeSyncResponsePacket_init False "4 + 12" "4 + 12"
  unfolding TimeSyncResponsePacket_Process_def TimeSyncResponsePacket_init_def by (rule tsr.packet)

end
