(* ===== verification/PacketsState.thy ===== *)
theory PacketsState
  imports PacketContract Hash
begin

text \<open>
  The acknowledgement packets of the game state: \<open>GameStateAck.h\<close>, whose members are always
  sent, and \<open>GameStateNAck.h\<close>, whose \<open>flags\<close> say which of the later members are on the wire.
\<close>

subsection \<open>IgnoreListEntry\<close>

text \<open>A packed struct: ten bytes, entry first.\<close>

record IgnoreListEntry =
  entry :: u16
  lastFrame :: u64

definition IgnoreListEntry_elem :: "IgnoreListEntry elem" where
  "IgnoreListEntry_elem =
     \<lparr>esize = 10, eenc = (\<lambda>e. le_enc 2 (entry e) @ le_enc 8 (lastFrame e)),
      edec = (\<lambda>bs. IgnoreListEntry.make (le_dec (take 2 bs)) (le_dec (take 8 (drop 2 bs))))\<rparr>"

lemma IgnoreListEntry_elem [simp]:
  "esize IgnoreListEntry_elem = 10" "elem_ok IgnoreListEntry_elem"
  by (auto simp: IgnoreListEntry_elem_def elem_ok_def IgnoreListEntry.defs)

subsection \<open>GameStateAck.h\<close>

record ClientGameStateAck =
  frameIndex :: u64
  ignoreList :: "IgnoreListEntry span"
  recreateList :: "u16 span"

definition ClientGameStateAck_init :: ClientGameStateAck where
  [packet_defs]: "ClientGameStateAck_init = ClientGameStateAck.make 0 (Span []) (Span [])"

definition ClientGameStateAck_Process :: "ClientGameStateAck proc" where
  "ClientGameStateAck_Process = ProcessPropertiesInOrder
     [on_member ClientGameStateAck.frameIndex ClientGameStateAck.frameIndex_update Property_int,
      on_member ClientGameStateAck.ignoreList ClientGameStateAck.ignoreList_update
        (Property_Span IgnoreListEntry_elem SmallBytesArray False False),
      on_member ClientGameStateAck.recreateList ClientGameStateAck.recreateList_update
        (Property_Span u16_elem SmallBytesArray False False)]"

definition ClientGameStateAck_SetFrameIndex :: "u64 \<Rightarrow> ClientGameStateAck \<Rightarrow> ClientGameStateAck" where
  "ClientGameStateAck_SetFrameIndex i v = v\<lparr>ClientGameStateAck.frameIndex := i\<rparr>"

definition ClientGameStateAck_SetIgnoreList ::
  "IgnoreListEntry list \<Rightarrow> ClientGameStateAck \<Rightarrow> ClientGameStateAck" where
  "ClientGameStateAck_SetIgnoreList es v =
     (if es \<noteq> [] then v\<lparr>ClientGameStateAck.ignoreList := Span es\<rparr> else v)"

definition ClientGameStateAck_SetRecreateList ::
  "u16 list \<Rightarrow> ClientGameStateAck \<Rightarrow> ClientGameStateAck" where
  "ClientGameStateAck_SetRecreateList es v =
     (if es \<noteq> [] then v\<lparr>ClientGameStateAck.recreateList := Span es\<rparr> else v)"

definition ClientGameStateAck_wire :: "ClientGameStateAck \<Rightarrow> u8 list" where
  "ClientGameStateAck_wire v = wire_int (ClientGameStateAck.frameIndex v)
     @ wire_span IgnoreListEntry_elem SmallBytesArray False (ClientGameStateAck.ignoreList v)
     @ wire_span u16_elem SmallBytesArray False (ClientGameStateAck.recreateList v)"

definition ClientGameStateAck_wf :: "ClientGameStateAck \<Rightarrow> bool" where
  [packet_defs]: "ClientGameStateAck_wf v \<longleftrightarrow>
     span_fits SmallBytesArray (ClientGameStateAck.ignoreList v)
     \<and> span_fits SmallBytesArray (ClientGameStateAck.recreateList v)"

interpretation gsa: serializable ClientGameStateAck_Process ClientGameStateAck_wf
  ClientGameStateAck_wire ClientGameStateAck_init False 10 3070
  by (rule serializableI, unfold ClientGameStateAck_Process_def ClientGameStateAck_wire_def)
    (rule codec_rules ClientGameStateAck.equality
      | simp add: packet_defs codec_simps ClientGameStateAck.defs
      | auto simp: packet_defs codec_simps ClientGameStateAck.defs dest!: span_size_bounds)+

definition ClientGameStateAckPacket_init :: "ClientGameStateAck packet" where
  "ClientGameStateAckPacket_init =
     \<lparr>ptype = HashRageString ''gameStateAck'', pdata = ClientGameStateAck_init\<rparr>"

definition ClientGameStateAckPacket_Process :: "ClientGameStateAck packet proc" where
  "ClientGameStateAckPacket_Process = packet_Process ClientGameStateAck_Process"

interpretation gsa_packet: serializable ClientGameStateAckPacket_Process "packet_wf ClientGameStateAck_wf"
  "packet_wire ClientGameStateAck_wire" ClientGameStateAckPacket_init False "4 + 10" "4 + 3070"
  unfolding ClientGameStateAckPacket_Process_def ClientGameStateAckPacket_init_def by (rule gsa.packet)

subsection \<open>Guarded members\<close>

text \<open>
  \<open>if (T::kType == MaxCounter || cond) { ... }\<close>: the members behind a flag. The maximum counter
  counts them whatever the flag says.
\<close>

fun is_MaxCounter :: "stream \<Rightarrow> bool" where
  "is_MaxCounter (MaxCounter c) = True"
| "is_MaxCounter _ = False"

definition guarded :: "('r \<Rightarrow> bool) \<Rightarrow> 'r proc \<Rightarrow> 'r proc" where
  "guarded cond p r s = (if is_MaxCounter s \<or> cond r then p r s else (Success, r, s))"

lemma guarded_laws:
  "(cond r \<Longrightarrow> reads p tail r v bs) \<Longrightarrow> (\<not> cond r \<Longrightarrow> v = r \<and> bs = []) \<Longrightarrow>
     reads (guarded cond p) tail r v bs"
  "(cond r \<Longrightarrow> writes p r bs) \<Longrightarrow> (\<not> cond r \<Longrightarrow> bs = []) \<Longrightarrow> writes (guarded cond p) r bs"
  "(cond r \<Longrightarrow> counts p r n) \<Longrightarrow> counts (guarded cond p) r (if cond r then n else 0)"
  "\<not> cond r \<Longrightarrow> mins (guarded cond p) r 0"
  "maxs p r n \<Longrightarrow> maxs (guarded cond p) r n"
  by (cases "cond r"; simp add: reads_def writes_def counts_def mins_def maxs_def guarded_def)+

lemma safe_guarded [safe_intros]: "reader_safe p \<Longrightarrow> reader_safe (guarded cond p)"
  by (auto simp: reader_safe_def guarded_def)

subsection \<open>GameStateNAck.h\<close>

record ClientGameStateNAck =
  flags :: u8
  frameIndex :: u64
  firstMissingFrame :: u64
  lastMissingFrame :: u64
  ignoreList :: "IgnoreListEntry span"
  recreateList :: "u16 span"

definition IsMissingFrames :: u8 where "IsMissingFrames = push_bit 0 1"
definition HasIgnoreList :: u8 where "HasIgnoreList = push_bit 1 1"
definition HasRecreateList :: u8 where "HasRecreateList = push_bit 2 1"
definition HasIgnoreListEntryResendFrame :: u8 where "HasIgnoreListEntryResendFrame = push_bit 3 1"

definition has_flag :: "u8 \<Rightarrow> ClientGameStateNAck \<Rightarrow> bool" where
  "has_flag f v \<longleftrightarrow> flags v AND f \<noteq> 0"

definition ClientGameStateNAck_init :: ClientGameStateNAck where
  "ClientGameStateNAck_init =
     ClientGameStateNAck.make HasIgnoreListEntryResendFrame 0 0 0 (Span []) (Span [])"

definition ClientGameStateNAck_Process :: "ClientGameStateNAck proc" where
  "ClientGameStateNAck_Process = ProcessPropertiesInOrder
     [on_member flags flags_update Property_int,
      on_member frameIndex frameIndex_update Property_int,
      guarded (has_flag IsMissingFrames) (ProcessPropertiesInOrder
        [on_member firstMissingFrame firstMissingFrame_update Property_int,
         on_member lastMissingFrame lastMissingFrame_update Property_int]),
      guarded (has_flag HasIgnoreList)
        (on_member ignoreList ignoreList_update (Property_Span IgnoreListEntry_elem SmallBytesArray False False)),
      guarded (has_flag HasRecreateList)
        (on_member recreateList recreateList_update (Property_Span u16_elem SmallBytesArray False False))]"

definition ClientGameStateNAck_SetFrameIndex :: "u64 \<Rightarrow> ClientGameStateNAck \<Rightarrow> ClientGameStateNAck" where
  "ClientGameStateNAck_SetFrameIndex i v = v\<lparr>frameIndex := i\<rparr>"

definition SetIsMissingFrames :: "bool \<Rightarrow> u64 \<Rightarrow> u64 \<Rightarrow> ClientGameStateNAck \<Rightarrow> ClientGameStateNAck" where
  "SetIsMissingFrames isMissing fst_frame lst_frame v =
     (if isMissing
      then v\<lparr>flags := flags v OR IsMissingFrames, firstMissingFrame := fst_frame, lastMissingFrame := lst_frame\<rparr>
      else v)"

definition SetIgnoreList :: "IgnoreListEntry list \<Rightarrow> ClientGameStateNAck \<Rightarrow> ClientGameStateNAck" where
  "SetIgnoreList es v =
     (if es \<noteq> [] then v\<lparr>flags := flags v OR HasIgnoreList, ignoreList := Span es\<rparr> else v)"

definition SetRecreateList :: "u16 list \<Rightarrow> ClientGameStateNAck \<Rightarrow> ClientGameStateNAck" where
  "SetRecreateList es v =
     (if es \<noteq> [] then v\<lparr>flags := flags v OR HasRecreateList, recreateList := Span es\<rparr> else v)"

definition GetFirstMissingFrame :: "ClientGameStateNAck \<Rightarrow> u64" where
  "GetFirstMissingFrame v = (if has_flag IsMissingFrames v then firstMissingFrame v else 0)"

definition GetLastMissingFrame :: "ClientGameStateNAck \<Rightarrow> u64" where
  "GetLastMissingFrame v = (if has_flag IsMissingFrames v then lastMissingFrame v else 0)"

definition ClientGameStateNAck_wire :: "ClientGameStateNAck \<Rightarrow> u8 list" where
  "ClientGameStateNAck_wire v = wire_int (flags v) @ wire_int (frameIndex v)
     @ (if has_flag IsMissingFrames v
        then wire_int (firstMissingFrame v) @ wire_int (lastMissingFrame v) else [])
     @ (if has_flag HasIgnoreList v
        then wire_span IgnoreListEntry_elem SmallBytesArray False (ignoreList v) else [])
     @ (if has_flag HasRecreateList v then wire_span u16_elem SmallBytesArray False (recreateList v) else [])"

text \<open>A member that the flags leave out has its default value.\<close>

definition ClientGameStateNAck_wf :: "ClientGameStateNAck \<Rightarrow> bool" where
  "ClientGameStateNAck_wf v \<longleftrightarrow>
     span_fits SmallBytesArray (ignoreList v) \<and> span_fits SmallBytesArray (recreateList v)
     \<and> (\<not> has_flag IsMissingFrames v \<longrightarrow> firstMissingFrame v = 0 \<and> lastMissingFrame v = 0)
     \<and> (\<not> has_flag HasIgnoreList v \<longrightarrow> ignoreList v = Span [])
     \<and> (\<not> has_flag HasRecreateList v \<longrightarrow> recreateList v = Span [])"

lemma NAck_reads:
  assumes wf: "ClientGameStateNAck_wf v"
  shows "reads ClientGameStateNAck_Process False ClientGameStateNAck_init v (ClientGameStateNAck_wire v)"
proof -
  let ?r2 = "ClientGameStateNAck_init\<lparr>flags := flags v, frameIndex := frameIndex v\<rparr>"
  let ?r3 = "?r2\<lparr>firstMissingFrame := firstMissingFrame v, lastMissingFrame := lastMissingFrame v\<rparr>"
  let ?r4 = "?r3\<lparr>ignoreList := ignoreList v\<rparr>"
  note defs = ClientGameStateNAck_init_def ClientGameStateNAck.defs has_flag_def ClientGameStateNAck_wf_def
    size_option_simps
  have m: "reads (guarded (has_flag IsMissingFrames) (ProcessPropertiesInOrder
        [on_member firstMissingFrame firstMissingFrame_update Property_int,
         on_member lastMissingFrame lastMissingFrame_update Property_int])) False ?r2 ?r3
      (if has_flag IsMissingFrames v
       then wire_int (firstMissingFrame v) @ wire_int (lastMissingFrame v) else [])"
    using wf by (intro guarded_laws)
      (auto simp: defs intro!: reads_eq [OF reads_Cons [OF reads_member [OF reads_int]
          reads_single [OF reads_member [OF reads_int]]]])
  have i: "reads (guarded (has_flag HasIgnoreList)
        (on_member ignoreList ignoreList_update (Property_Span IgnoreListEntry_elem SmallBytesArray False False)))
      False ?r3 ?r4 (if has_flag HasIgnoreList v
        then wire_span IgnoreListEntry_elem SmallBytesArray False (ignoreList v) else [])"
    using wf by (intro guarded_laws)
      (auto simp: defs intro!: reads_eq [OF reads_member [OF span_laws(1)]])
  have r: "reads (guarded (has_flag HasRecreateList)
        (on_member recreateList recreateList_update (Property_Span u16_elem SmallBytesArray False False)))
      False ?r4 v (if has_flag HasRecreateList v
        then wire_span u16_elem SmallBytesArray False (recreateList v) else [])"
    using wf by (intro guarded_laws)
      (auto simp: defs intro!: reads_eq [OF reads_member [OF span_laws(1)]] ClientGameStateNAck.equality)
  show ?thesis
    unfolding ClientGameStateNAck_Process_def ClientGameStateNAck_wire_def
    by (rule reads_members reads_int reads_Cons [OF m reads_Cons [OF i reads_single [OF r]]] | simp)+
qed

lemma NAck_writes:
  assumes wf: "ClientGameStateNAck_wf v"
  shows "writes ClientGameStateNAck_Process v (ClientGameStateNAck_wire v)"
  using wf unfolding ClientGameStateNAck_Process_def ClientGameStateNAck_wire_def
  by - (rule wire_intros guarded_laws | simp add: size_option_simps ClientGameStateNAck_wf_def)+

lemma NAck_counts:
  assumes wf: "ClientGameStateNAck_wf v"
  shows "counts ClientGameStateNAck_Process v (length (ClientGameStateNAck_wire v))"
  using wf unfolding ClientGameStateNAck_Process_def ClientGameStateNAck_wire_def
  by - (rule counts_eq(1), (rule wire_intros guarded_laws(3)
    | simp add: codec_simps ClientGameStateNAck_wf_def)+)

interpretation gsn: serializable ClientGameStateNAck_Process ClientGameStateNAck_wf
  ClientGameStateNAck_wire ClientGameStateNAck_init False 9 3087
proof unfold_locales
  show "reader_safe ClientGameStateNAck_Process"
    unfolding ClientGameStateNAck_Process_def
    by (intro safe_intros) (simp_all add: size_option_simps)
  show "mins ClientGameStateNAck_Process ClientGameStateNAck_init 9"
    unfolding ClientGameStateNAck_Process_def
    by (rule counts_eq(2)) (rule wire_intros guarded_laws(4)
      | simp add: has_flag_def ClientGameStateNAck_init_def ClientGameStateNAck.defs IsMissingFrames_def
          HasIgnoreList_def HasRecreateList_def HasIgnoreListEntryResendFrame_def)+
  show "maxs ClientGameStateNAck_Process ClientGameStateNAck_init 3087"
    unfolding ClientGameStateNAck_Process_def
    by (rule counts_eq(3)) (rule wire_intros guarded_laws(5) | simp add: size_option_simps)+
  fix v assume wf: "ClientGameStateNAck_wf v"
  show "9 \<le> length (ClientGameStateNAck_wire v) \<and> length (ClientGameStateNAck_wire v) \<le> 3087"
    using wf span_size_bounds [of SmallBytesArray "ignoreList v"]
      span_size_bounds [of SmallBytesArray "recreateList v"]
    by (auto simp: ClientGameStateNAck_wire_def ClientGameStateNAck_wf_def codec_simps)
qed (simp_all add: NAck_reads NAck_writes NAck_counts)

definition ClientGameStateNAckPacket_init :: "ClientGameStateNAck packet" where
  "ClientGameStateNAckPacket_init =
     \<lparr>ptype = HashRageString ''gameStateNAck'', pdata = ClientGameStateNAck_init\<rparr>"

definition ClientGameStateNAckPacket_Process :: "ClientGameStateNAck packet proc" where
  "ClientGameStateNAckPacket_Process = packet_Process ClientGameStateNAck_Process"

interpretation gsn_packet: serializable ClientGameStateNAckPacket_Process
  "packet_wf ClientGameStateNAck_wf" "packet_wire ClientGameStateNAck_wire"
  ClientGameStateNAckPacket_init False "4 + 9" "4 + 3087"
  unfolding ClientGameStateNAckPacket_Process_def ClientGameStateNAckPacket_init_def
  by (rule gsn.packet)

subsection \<open>Objects built through the setters\<close>

text \<open>The object a client sends: the default one, changed through the setters.\<close>

definition build_NAck ::
  "u64 \<Rightarrow> (u64 \<times> u64) option \<Rightarrow> IgnoreListEntry list \<Rightarrow> u16 list \<Rightarrow> ClientGameStateNAck" where
  "build_NAck i missing es rs =
     SetRecreateList rs (SetIgnoreList es
       ((case missing of None \<Rightarrow> SetIsMissingFrames False 0 0
         | Some (a, b) \<Rightarrow> SetIsMissingFrames True a b)
         (ClientGameStateNAck_SetFrameIndex i ClientGameStateNAck_init)))"

lemmas NAck_setters =
  build_NAck_def SetRecreateList_def SetIgnoreList_def SetIsMissingFrames_def
  ClientGameStateNAck_SetFrameIndex_def ClientGameStateNAck_init_def ClientGameStateNAck.defs
  has_flag_def IsMissingFrames_def HasIgnoreList_def HasRecreateList_def
  HasIgnoreListEntryResendFrame_def

lemma build_NAck_wf:
  assumes "length es \<le> 255" "length rs \<le> 255"
  shows "ClientGameStateNAck_wf (build_NAck i missing es rs)"
  using assms
  by (auto simp: NAck_setters ClientGameStateNAck_wf_def size_option_simps size_fits_def split: option.splits)

lemma build_NAck_fields:
  "ClientGameStateNAck.frameIndex (build_NAck i missing es rs) = i"
  "ignoreList (build_NAck i missing es rs) = Span es"
  "recreateList (build_NAck i missing es rs) = Span rs"
  "GetFirstMissingFrame (build_NAck i (Some (a, b)) es rs) = a"
  "GetLastMissingFrame (build_NAck i (Some (a, b)) es rs) = b"
  "GetFirstMissingFrame (build_NAck i None es rs) = 0"
  "GetLastMissingFrame (build_NAck i None es rs) = 0"
  by (auto simp: NAck_setters GetFirstMissingFrame_def GetLastMissingFrame_def split: option.splits)

end
