(* ===== verification/ObjectIds.thy ===== *)
theory ObjectIds
  imports PacketContract Hash
begin

text \<open>
  \<open>ObjectIds.h\<close>: the request for object ids, and the response that sends a list of ids as runs
  (a gap to the previous run and the number of further ids in the run). The inner loop of
  \<open>GetIds\<close> counts with a 16-bit \<open>j <= size\<close>, so it is a \<open>partial_function\<close>: \<open>None\<close> is a loop that
  never ends.
\<close>

subsection \<open>The request\<close>

type_synonym ClientRequestObjectIds = unit

definition ClientRequestObjectIds_Process :: "ClientRequestObjectIds proc" where
  "ClientRequestObjectIds_Process = ProcessPropertiesInOrder []"

interpretation cro: serializable ClientRequestObjectIds_Process "\<lambda>_. True" "\<lambda>_. []" "()" False 0 0
  by (rule serializableI, unfold ClientRequestObjectIds_Process_def) (rule codec_rules | simp)+

record ClientRequestObjectIdsPacket =
  type :: u32

definition ClientRequestObjectIdsPacket_init :: ClientRequestObjectIdsPacket where
  [packet_defs]: "ClientRequestObjectIdsPacket_init = \<lparr>type = HashRageString ''msgRequestObjectIds''\<rparr>"

definition ClientRequestObjectIdsPacket_Process :: "ClientRequestObjectIdsPacket proc" where
  "ClientRequestObjectIdsPacket_Process = ProcessPropertiesInOrder [on_member type type_update Property_int]"

interpretation cro_packet: serializable ClientRequestObjectIdsPacket_Process "\<lambda>_. True"
  "\<lambda>v. wire_int (type v)" ClientRequestObjectIdsPacket_init False 4 4
  by (rule serializableI, unfold ClientRequestObjectIdsPacket_Process_def)
    (rule codec_rules ClientRequestObjectIdsPacket.equality | simp add: packet_defs)+

subsection \<open>The response\<close>

record IdEntry =
  gap :: u16
  sz :: u16

definition IdEntry_Process :: "IdEntry proc" where
  "IdEntry_Process =
     ProcessPropertiesInOrder [on_member gap gap_update Property_int, on_member sz sz_update Property_int]"

interpretation ide: serializable IdEntry_Process "\<lambda>_. True" "\<lambda>v. wire_int (gap v) @ wire_int (sz v)"
  "IdEntry.make 0 0" False 4 4
  by (rule serializableI, unfold IdEntry_Process_def)
    (rule codec_rules IdEntry.equality | simp add: IdEntry.defs)+

text \<open>In the span the entries are copied as they lie in memory, which is the same four bytes.\<close>

definition IdEntry_elem :: "IdEntry elem" where
  "IdEntry_elem = \<lparr>esize = 4, eenc = (\<lambda>e. le_enc 2 (gap e) @ le_enc 2 (sz e)),
     edec = (\<lambda>bs. IdEntry.make (le_dec (take 2 bs)) (le_dec (take 2 (drop 2 bs))))\<rparr>"

lemma IdEntry_elem [simp]: "esize IdEntry_elem = 4" "elem_ok IdEntry_elem"
  by (auto simp: IdEntry_elem_def elem_ok_def IdEntry.defs)

record ServerObjectIds =
  ids :: "IdEntry span"

definition ids_option :: "bool \<Rightarrow> size_option" where
  "ids_option BigMode = ConstrainedBytesArray 0 (if BigMode then 6 else 64)"

definition ServerObjectIds_init :: ServerObjectIds where
  "ServerObjectIds_init = \<lparr>ids = Span []\<rparr>"

definition ServerObjectIds_Process :: "bool \<Rightarrow> ServerObjectIds proc" where
  "ServerObjectIds_Process BigMode = ProcessPropertiesInOrder
     [on_member ids ids_update (Property_Span IdEntry_elem (ids_option BigMode) False False)]"

definition ServerObjectIds_wire :: "bool \<Rightarrow> ServerObjectIds \<Rightarrow> u8 list" where
  "ServerObjectIds_wire BigMode v = wire_span IdEntry_elem (ids_option BigMode) False (ids v)"

definition ServerObjectIds_wf :: "bool \<Rightarrow> ServerObjectIds \<Rightarrow> bool" where
  "ServerObjectIds_wf BigMode v \<longleftrightarrow> span_fits (ids_option BigMode) (ids v)"

interpretation soi: serializable "ServerObjectIds_Process BigMode" "ServerObjectIds_wf BigMode"
  "ServerObjectIds_wire BigMode" ServerObjectIds_init False 2 "if BigMode then 26 else 258"
  for BigMode
  by (rule serializableI, unfold ServerObjectIds_Process_def ServerObjectIds_wire_def)
    (rule codec_rules ServerObjectIds.equality
      | simp add: ServerObjectIds_init_def ServerObjectIds_wf_def ids_option_def codec_simps
      | auto simp: ServerObjectIds_wf_def ids_option_def codec_simps dest!: span_size_bounds)+

definition ServerObjectIdsPacket_init :: "ServerObjectIds packet" where
  "ServerObjectIdsPacket_init = \<lparr>ptype = HashRageString ''msgObjectIds'', pdata = ServerObjectIds_init\<rparr>"

definition ServerObjectIdsPacket_Process :: "bool \<Rightarrow> ServerObjectIds packet proc" where
  "ServerObjectIdsPacket_Process BigMode = packet_Process (ServerObjectIds_Process BigMode)"

interpretation soi_packet: serializable "ServerObjectIdsPacket_Process BigMode"
  "packet_wf (ServerObjectIds_wf BigMode)" "packet_wire (ServerObjectIds_wire BigMode)"
  ServerObjectIdsPacket_init False "4 + 2" "4 + (if BigMode then 26 else 258)"
  for BigMode
  unfolding ServerObjectIdsPacket_Process_def ServerObjectIdsPacket_init_def by (rule soi.packet)

subsection \<open>SetIds\<close>

text \<open>
  The \<open>while (++i < idsToSet.size())\<close> loop: \<open>prev\<close> is \<open>idsToSet[i - 1]\<close>, the list what is left from
  \<open>i\<close> on. The comparison is on \<open>int\<close>, so it does not wrap; the assignments to \<open>gap\<close> and \<open>size\<close> do.
\<close>

fun SetIds_run :: "u16 \<Rightarrow> u16 \<Rightarrow> u16 list \<Rightarrow> u16 \<times> u16 \<times> u16 list" where
  "SetIds_run prev n [] = (prev, n, [])"
| "SetIds_run prev n (x # xs) =
     (if uint x \<noteq> uint prev + 1 then (prev, n, x # xs) else SetIds_run x (n + 1) xs)"

lemma SetIds_run_length: "SetIds_run prev n xs = (p, m, rest) \<Longrightarrow> length rest \<le> length xs"
  by (induction prev n xs rule: SetIds_run.induct) (auto split: if_splits)

function SetIds_loop :: "int \<Rightarrow> u16 list \<Rightarrow> IdEntry list" where
  "SetIds_loop last_id [] = []"
| "SetIds_loop last_id (x # xs) =
     (case SetIds_run x 0 xs of (prev, n, rest) \<Rightarrow>
        IdEntry.make (word_of_int (uint x - 2 - last_id)) n # SetIds_loop (uint prev) rest)"
  by pat_completeness auto
termination
  by (relation "measure (\<lambda>(_, xs). length xs)")
    (auto dest!: sym [THEN SetIds_run_length] simp: less_Suc_eq_le)

definition SetIds :: "u16 list \<Rightarrow> IdEntry list \<Rightarrow> ServerObjectIds \<Rightarrow> IdEntry list \<times> ServerObjectIds" where
  "SetIds idsToSet container v =
     (let container' = container @ SetIds_loop (-1) idsToSet in (container', v\<lparr>ids := Span container'\<rparr>))"

subsection \<open>GetIds and ForEachId\<close>

partial_function (option) each_id :: "(u16 \<Rightarrow> 's \<Rightarrow> 's) \<Rightarrow> u16 \<Rightarrow> u16 \<Rightarrow> u16 \<Rightarrow> 's \<Rightarrow> (u16 \<times> 's) option" where
  "each_id f n j last_id s =
     (if j \<le> n then each_id f n (j + 1) (last_id + 1) (f last_id s) else Some (last_id, s))"

fun each_entry :: "(u16 \<Rightarrow> 's \<Rightarrow> 's) \<Rightarrow> u16 \<Rightarrow> IdEntry list \<Rightarrow> 's \<Rightarrow> 's option" where
  "each_entry f last_id [] s = Some s"
| "each_entry f last_id (e # es) s =
     (case each_id f (sz e) 0 (last_id + (gap e + 1)) s of
        None \<Rightarrow> None
      | Some (last', s') \<Rightarrow> each_entry f last' es s')"

definition ForEachId :: "(u16 \<Rightarrow> 's \<Rightarrow> 's) \<Rightarrow> ServerObjectIds \<Rightarrow> 's \<Rightarrow> 's option" where
  "ForEachId callback v s = each_entry callback 0 (span_elems (ids v)) s"

definition GetIds :: "ServerObjectIds \<Rightarrow> u16 list \<Rightarrow> u16 list option" where
  "GetIds v idsToRead = each_entry (\<lambda>objectId acc. acc @ [objectId]) 0 (span_elems (ids v)) idsToRead"

subsection \<open>The loops\<close>

lemma each_id_run:
  assumes "n \<noteq> -1" "unat j + d = unat n + 1"
  shows "each_id f n j l s = Some (l + of_nat d, fold f (map (\<lambda>k. l + of_nat k) [0..<d]) s)"
  using assms(2)
proof (induction d arbitrary: j l s)
  case 0
  then have "\<not> j \<le> n" by (simp add: word_le_nat_alt)
  then show ?case by (simp add: each_id.simps)
next
  case (Suc d)
  have "unat n \<noteq> 2 ^ 16 - 1" "unat n < 2 ^ 16"
    using assms(1) unsigned_less [of n] by (auto simp: word_unat_eq_iff unsigned_minus_1_eq_mask mask_eq_exp_minus_1)
  then have "unat n < 2 ^ 16 - 1" by simp
  with Suc.prems have j: "j \<le> n" "unat (j + 1) + d = unat n + 1"
    by (simp_all add: word_le_nat_alt unat_word_ariths)
  have "map (\<lambda>k. l + of_nat k) [0..<Suc d] = l # map (\<lambda>k. (l + 1) + of_nat k) [0..<d]"
    by (simp add: map_upt_Suc del: upt_Suc)
  then show ?case
    using j(1) Suc.IH [OF j(2), of "l + 1" "f l s"] by (simp add: each_id.simps [of f n j])
qed

text \<open>A run of 65536 ids: \<open>j <= size\<close> holds for every 16-bit \<open>j\<close>.\<close>

lemma each_id_endless: "each_id f n j l s = Some r \<Longrightarrow> n \<noteq> -1"
  by (rule each_id.raw_induct [where P = "\<lambda>f n j l s r. n \<noteq> -1"]) (auto split: if_splits)

lemma each_id_none: "each_id f (- 1) j l s = None"
  using each_id_endless [of f "-1" j l s] by (cases "each_id f (- 1) j l s") auto

lemma SetIds_run_spec:
  assumes "SetIds_run prev n xs = (p, m, rest)"
  shows "\<exists>k. k \<le> length xs \<and> take k xs = map (\<lambda>i. prev + 1 + of_nat i) [0..<k] \<and> rest = drop k xs
    \<and> p = prev + of_nat k \<and> m = n + of_nat k"
  using assms
proof (induction prev n xs rule: SetIds_run.induct)
  case (2 prev n x xs)
  show ?case
  proof (cases "uint x = uint prev + 1")
    case False
    with 2 show ?thesis by (intro exI [of _ 0]) auto
  next
    case True
    then have x: "x = prev + 1" by (metis word_of_int_uint wi_hom_syms(1) word_1_wi)
    from 2 True obtain k where k: "k \<le> length xs" "take k xs = map (\<lambda>i. x + 1 + of_nat i) [0..<k]"
        "rest = drop k xs" "p = x + of_nat k" "m = n + 1 + of_nat k"
      by auto
    have "map (\<lambda>i. prev + 1 + of_nat i) [0..<Suc k] = (prev + 1) # map (\<lambda>i. x + 1 + of_nat i) [0..<k]"
      by (simp add: map_upt_Suc x add.assoc del: upt_Suc)
    with k x show ?thesis by (intro exI [of _ "Suc k"]) (simp add: algebra_simps del: upt_Suc)
  qed
qed auto

lemma small_count:
  "k < 2 ^ 16 - 1 \<Longrightarrow> unat (of_nat k :: u16) = k" "k < 2 ^ 16 - 1 \<Longrightarrow> (of_nat k :: u16) \<noteq> -1"
proof -
  assume k: "k < 2 ^ 16 - 1"
  show u: "unat (of_nat k :: u16) = k" using k by (intro of_nat_inverse) simp_all
  have "unat (- 1 :: u16) = 2 ^ 16 - 1" by (simp add: unsigned_minus_1_eq_mask mask_eq_exp_minus_1)
  with u k show "(of_nat k :: u16) \<noteq> -1" by (metis less_irrefl)
qed

lemma word_of_int_step: "(word_of_int (uint (x :: u16) - 2 - i) :: u16) + 1 + word_of_int (i + 1) = x"
proof -
  have "word_of_int (uint x - 2 - i) + 1 + word_of_int (i + 1)
      = (word_of_int (uint x - 2 - i + 1 + (i + 1)) :: u16)"
    by (simp only: wi_hom_add word_1_wi)
  then show ?thesis by simp
qed

lemma each_entry_SetIds:
  assumes "length xs < 2 ^ 16"
  shows "each_entry f (word_of_int (i + 1)) (SetIds_loop i xs) s = Some (fold f xs s)"
  using assms
proof (induction i xs arbitrary: s rule: SetIds_loop.induct)
  case (2 i x xs)
  obtain p m rest where run: "SetIds_run x 0 xs = (p, m, rest)" by (cases "SetIds_run x 0 xs") auto
  then obtain k where k: "k \<le> length xs" "take k xs = map (\<lambda>i. x + 1 + of_nat i) [0..<k]"
      "rest = drop k xs" "p = x + of_nat k" "m = of_nat k"
    using SetIds_run_spec [OF run] by auto
  have "k < 2 ^ 16 - 1" using k(1) 2(2) by simp
  then have m: "unat m = k" "m \<noteq> -1" using k(5) small_count by simp_all
  have "each_id f m 0 x s = Some (x + of_nat (Suc k), fold f (map (\<lambda>i. x + of_nat i) [0..<Suc k]) s)"
    using m by (intro each_id_run) simp_all
  also have "map (\<lambda>i. x + of_nat i) [0..<Suc k] = x # take k xs"
    by (simp add: k(2) map_upt_Suc add.assoc del: upt_Suc)
  finally have e: "each_id f m 0 x s = Some (p + 1, fold f (x # take k xs) s)"
    by (simp add: k(4) algebra_simps)
  have "each_entry f (word_of_int (uint p + 1)) (SetIds_loop (uint p) rest) (fold f (x # take k xs) s)
      = Some (fold f rest (fold f (x # take k xs) s))"
    using 2(2) k(3) by (intro "2.IH" [OF run [symmetric] refl]) simp
  moreover have "word_of_int (uint p + 1) = p + 1" by (metis word_of_int_uint wi_hom_add word_1_wi)
  moreover have "fold f rest (fold f (x # take k xs) s) = fold f (x # xs) s"
    by (metis append_take_drop_id fold_append comp_apply fold.simps(2) k(3))
  moreover have "word_of_int (i + 1) + (word_of_int (uint x - 2 - i) + 1) = x"
    using word_of_int_step [of x i] by (simp add: algebra_simps)
  ultimately show ?case using e run by (simp add: IdEntry.defs del: fold.simps)
qed simp

lemma SetIds_loop_length: "length (SetIds_loop i xs) \<le> length xs"
proof (induction i xs rule: SetIds_loop.induct)
  case (2 i x xs)
  obtain p m rest where run: "SetIds_run x 0 xs = (p, m, rest)" by (cases "SetIds_run x 0 xs") auto
  with "2.IH" [OF run [symmetric] refl] SetIds_run_length [OF run] show ?case by simp
qed simp

lemma fold_snoc: "fold (\<lambda>x acc. acc @ [x]) xs acc = acc @ xs"
  by (induction xs arbitrary: acc) simp_all

lemma GetIds_SetIds:
  assumes "length xs < 2 ^ 16"
  shows "GetIds (snd (SetIds xs [] v)) [] = Some xs"
  using each_entry_SetIds [OF assms, of "\<lambda>x acc. acc @ [x]" "-1" "[]"]
  by (simp add: GetIds_def SetIds_def Let_def fold_snoc)

end
