(* ===== verification/StreamReader.thy ===== *)
theory StreamReader
  imports PropertyLaws
begin

text \<open>
  \<open>StreamByteReader.h\<close>: messages cut out of a byte stream that arrives in chunks of any size. The
  reader is generic in the message class; \<open>None\<close> is an execution that left a buffer, or a loop that
  never ends. The locale \<open>framing\<close> states what a message class has to promise for the reader to be
  correct, and shows that then chunk boundaries do not matter.
\<close>

subsection \<open>The state\<close>

record stream_byte_reader =
  sdata :: "u8 list"
  scapacity :: u64
  soffset :: u64

definition StreamByteReader_make :: "u8 list \<Rightarrow> u64 \<Rightarrow> stream_byte_reader" where
  "StreamByteReader_make data capacity = \<lparr>sdata = data, scapacity = capacity, soffset = 0\<rparr>"

definition Reset :: "stream_byte_reader \<Rightarrow> stream_byte_reader" where
  "Reset st = st\<lparr>soffset := 0\<rparr>"

text \<open>\<open>ReadSpan\<close> returns \<open>written\<close>, the span that is left, and the state.\<close>

definition ReadSpan ::
  "u64 \<Rightarrow> u8 list \<Rightarrow> stream_byte_reader \<Rightarrow> bool \<times> u8 list \<times> stream_byte_reader" where
  "ReadSpan n data st =
     (if scapacity st - soffset st < n then (False, data, st)
      else let off = unat (soffset st) in
        (True, drop (unat n) data,
         st\<lparr>sdata := take off (sdata st) @ take (unat n) data @ drop (off + unat n) (sdata st),
            soffset := soffset st + n\<rparr>))"

text \<open>\<open>RequireSpan\<close> returns its result, \<open>written\<close>, the span that is left, and the state.\<close>

definition RequireSpan ::
  "u64 \<Rightarrow> u8 list \<Rightarrow> stream_byte_reader \<Rightarrow> bool \<times> bool \<times> u8 list \<times> stream_byte_reader" where
  "RequireSpan n data st =
     (if of_nat (length data) < n
      then (if data \<noteq> [] then (False, ReadSpan (of_nat (length data)) data st) else (False, True, data, st))
      else (True, ReadSpan n data st))"

subsection \<open>Push\<close>

text \<open>The bytes a \<open>ByteReader reader(m_data, m_offset)\<close> may look at.\<close>

definition buffered :: "stream_byte_reader \<Rightarrow> u8 list" where
  "buffered st = take (unat (soffset st)) (sdata st)"

definition reader_on :: "(nat \<Rightarrow> u64) \<Rightarrow> u8 list \<Rightarrow> stream" where
  "reader_on ind bs = Reader (ByteReader_make bs (of_nat (length bs)) ind)"

text \<open>
  The block under \<open>if (m_offset > 0)\<close> either returns from \<open>Push\<close> or goes on with at most one
  completed message.
\<close>

datatype 'm head = Stop bool | Go "'m list"

type_synonym 'm head_result = "('m head \<times> u8 list \<times> stream_byte_reader) option"

definition Push_increased ::
  "'m proc \<Rightarrow> (nat \<Rightarrow> u64) \<Rightarrow> 'm \<Rightarrow> u8 list \<Rightarrow> stream_byte_reader \<Rightarrow> 'm head_result" where
  "Push_increased Process ind message data st =
     (case Process message (reader_on ind (buffered st)) of
        (Undefined, _, _) \<Rightarrow> None
      | (Success, message', s) \<Rightarrow>
          if soffset st \<noteq> stream_offset s then Some (Stop False, data, Reset st)
          else Some (Go [message'], data, st\<lparr>soffset := 0\<rparr>)
      | (_, _, _) \<Rightarrow> Some (Stop False, data, Reset st))"

definition Push_message ::
  "'m proc \<Rightarrow> 'm \<Rightarrow> (nat \<Rightarrow> u64) \<Rightarrow> u8 list \<Rightarrow> stream_byte_reader \<Rightarrow> 'm head_result" where
  "Push_message Process init ind data st =
     (case Process init (reader_on ind (buffered st)) of
        (Undefined, _, _) \<Rightarrow> None
      | (Error, _, _) \<Rightarrow> Some (Stop False, data, Reset st)
      | (Success, message, _) \<Rightarrow> Some (Go [message], data, st\<lparr>soffset := 0\<rparr>)
      | (Incomplete, message, _) \<Rightarrow>
          let requiredSize = GetSize Process message in
          if soffset st < requiredSize then
            (case RequireSpan (requiredSize - soffset st) data st of
               (require, written, data', st') \<Rightarrow>
                 if \<not> written then Some (Stop False, data', Reset st')
                 else if \<not> require then Some (Stop True, data', st')
                 else Push_increased Process ind message data' st')
          else Push_increased Process ind message data st)"

definition Push_buffered ::
  "'m proc \<Rightarrow> 'm \<Rightarrow> (nat \<Rightarrow> u64) \<Rightarrow> u8 list \<Rightarrow> stream_byte_reader \<Rightarrow> 'm head_result" where
  "Push_buffered Process init ind data st =
     (let kMinSize = GetMinSize Process init in
      if soffset st > 0 then
        (if soffset st < kMinSize then
           (case RequireSpan (kMinSize - soffset st) data st of
              (require, written, data', st') \<Rightarrow>
                if \<not> written then Some (Stop False, data', Reset st')
                else if \<not> require then Some (Stop True, data', st')
                else Push_message Process init ind data' st')
         else Push_message Process init ind data st)
      else Some (Go [], data, st))"

text \<open>The result of \<open>Push\<close>: its return value, the messages passed to the callback, and the state.\<close>

type_synonym 'm push_result = "(bool \<times> 'm list \<times> stream_byte_reader) option"

definition Push_rest :: "u8 list \<Rightarrow> stream_byte_reader \<Rightarrow> 'm list \<Rightarrow> 'm push_result" where
  "Push_rest data st called =
     (if data \<noteq> [] then
        (case ReadSpan (of_nat (length data)) data st of
           (written, _, st') \<Rightarrow>
             if \<not> written then Some (False, called, Reset st') else Some (True, called, st'))
      else Some (True, called, st))"

partial_function (option) Push_loop ::
  "'m proc \<Rightarrow> 'm \<Rightarrow> (nat \<Rightarrow> u64) \<Rightarrow> u8 list \<Rightarrow> stream_byte_reader \<Rightarrow> 'm list \<Rightarrow> 'm push_result" where
  "Push_loop Process init ind data st called =
     (if of_nat (length data) \<ge> GetMinSize Process init then
        (case Process init (reader_on ind data) of
           (Undefined, _, _) \<Rightarrow> None
         | (Incomplete, _, _) \<Rightarrow> Push_rest data st called
         | (Success, message, s) \<Rightarrow>
             Push_loop Process init ind (drop (unat (stream_offset s)) data) st (called @ [message])
         | (Error, _, _) \<Rightarrow> Some (False, called, Reset st))
      else Push_rest data st called)"

definition Push ::
  "'m proc \<Rightarrow> 'm \<Rightarrow> (nat \<Rightarrow> u64) \<Rightarrow> u8 list \<Rightarrow> stream_byte_reader \<Rightarrow> 'm push_result" where
  "Push Process init ind data st =
     (if data = [] then Some (False, [], Reset st)
      else case Push_buffered Process init ind data st of
             None \<Rightarrow> None
           | Some (Stop result, _, st') \<Rightarrow> Some (result, [], st')
           | Some (Go called, data', st') \<Rightarrow> Push_loop Process init ind data' st' called)"

subsection \<open>The invariant of the state\<close>

definition st_ok :: "stream_byte_reader \<Rightarrow> bool" where
  "st_ok st \<longleftrightarrow> length (sdata st) = unat (scapacity st) \<and> soffset st \<le> scapacity st
     \<and> addressable (length (sdata st))"

lemma st_ok_Reset: "st_ok st \<Longrightarrow> st_ok (Reset st)" "st_ok st \<Longrightarrow> st_ok (st\<lparr>soffset := 0\<rparr>)"
  by (simp_all add: st_ok_def Reset_def)

lemma length_buffered: "st_ok st \<Longrightarrow> length (buffered st) = unat (soffset st)"
  by (simp add: st_ok_def buffered_def word_le_nat_alt)

lemma buffered_0 [simp]: "buffered (st\<lparr>soffset := 0\<rparr>) = []"
  by (simp add: buffered_def)

lemma ReadSpan_ok:
  assumes "st_ok st" "n \<le> length data" "length (buffered st) + n \<le> unat (scapacity st)"
  obtains st' where "ReadSpan (of_nat n) data st = (True, drop n data, st')" "st_ok st'"
    "scapacity st' = scapacity st" "buffered st' = buffered st @ take n data"
proof -
  let ?o = "unat (soffset st)"
  let ?st' = "st\<lparr>sdata := take ?o (sdata st) @ take n data @ drop (?o + n) (sdata st),
        soffset := soffset st + of_nat n\<rparr>"
  have o: "?o \<le> length (sdata st)" "addressable (length (sdata st))" "length (sdata st) = unat (scapacity st)"
    using assms(1) by (simp_all add: st_ok_def word_le_nat_alt)
  have n: "?o + n \<le> length (sdata st)" using assms o length_buffered by simp
  then have u: "unat (of_nat n :: u64) = n" "unat (soffset st + of_nat n) = ?o + n"
    using o(2) by (simp_all add: unat_add_u64)
  have "\<not> scapacity st - soffset st < of_nat n"
    using n o assms(1) by (simp add: word_less_nat_alt unat_sub u(1) st_ok_def)
  then have "ReadSpan (of_nat n) data st = (True, drop n data, ?st')"
    by (simp add: ReadSpan_def u(1) Let_def)
  moreover have "st_ok ?st'"
    using o n assms(2) by (simp add: st_ok_def word_le_nat_alt u(2))
  moreover have "buffered ?st' = buffered st @ take n data"
    using o n assms(2) by (simp add: buffered_def u(2))
  ultimately show thesis by (intro that) simp_all
qed

subsection \<open>Framing\<close>

text \<open>
  The contract of a message class: the first \<open>kmin\<close> bytes of a message decide its length or that the
  stream is broken; a read of fewer bytes is incomplete and records the length, a read of enough
  bytes succeeds, consumes exactly the message and depends on nothing else.
\<close>

locale framing =
  fixes Process :: "'m proc" and init :: 'm and kmin :: nat and frame_length :: "u8 list \<Rightarrow> nat option"
    and decode :: "u8 list \<Rightarrow> 'm"
  assumes min_size: "GetMinSize Process init = of_nat kmin"
    and kmin_pos: "0 < kmin"
    and frame_prefix: "kmin \<le> length bs \<Longrightarrow> frame_length (bs @ x) = frame_length bs"
    and frame_bounds: "kmin \<le> length bs \<Longrightarrow> frame_length bs = Some n \<Longrightarrow> kmin \<le> n \<and> addressable n"
    and read_error: "kmin \<le> length bs \<Longrightarrow> addressable (length bs) \<Longrightarrow> frame_length bs = None
      \<Longrightarrow> \<exists>m s. Process init (reader_on ind bs) = (Error, m, s)"
    and read_incomplete: "kmin \<le> length bs \<Longrightarrow> addressable (length bs) \<Longrightarrow> frame_length bs = Some n
      \<Longrightarrow> length bs < n
      \<Longrightarrow> \<exists>m s. Process init (reader_on ind bs) = (Incomplete, m, s) \<and> GetSize Process m = of_nat n"
    and read_frame: "kmin \<le> length bs \<Longrightarrow> addressable (length bs) \<Longrightarrow> frame_length bs = Some n
      \<Longrightarrow> n \<le> length bs
      \<Longrightarrow> \<exists>s. Process m0 (reader_on ind bs) = (Success, decode (take n bs), s) \<and> stream_offset s = of_nat n"
begin

text \<open>The specification: messages, bytes left over, and whether the stream is intact.\<close>

function frames :: "u8 list \<Rightarrow> 'm list \<times> u8 list \<times> bool" where
  "frames bs =
     (if length bs < kmin then ([], bs, True)
      else case frame_length bs of
             None \<Rightarrow> ([], [], False)
           | Some n \<Rightarrow>
               if length bs < n then ([], bs, True)
               else case frames (drop n bs) of (ms, r, ok) \<Rightarrow> (decode (take n bs) # ms, r, ok))"
  by pat_completeness auto
termination
proof (relation "measure length")
  fix bs :: "u8 list" and n
  assume "\<not> length bs < kmin" "frame_length bs = Some n" "\<not> length bs < n"
  then show "(drop n bs, bs) \<in> measure length"
    using frame_bounds [of bs n] kmin_pos by auto
qed simp

declare frames.simps [simp del]

lemma frames_short: "length bs < kmin \<Longrightarrow> frames bs = ([], bs, True)"
  by (simp add: frames.simps)

lemma frames_broken: "kmin \<le> length bs \<Longrightarrow> frame_length bs = None \<Longrightarrow> frames bs = ([], [], False)"
  by (simp add: frames.simps)

lemma frames_more: "kmin \<le> length bs \<Longrightarrow> frame_length bs = Some n \<Longrightarrow> length bs < n \<Longrightarrow> frames bs = ([], bs, True)"
  by (simp add: frames.simps)

lemma frames_frame:
  "kmin \<le> length bs \<Longrightarrow> frame_length bs = Some n \<Longrightarrow> n \<le> length bs \<Longrightarrow> frames (drop n bs) = (ms, r, ok)
     \<Longrightarrow> frames bs = (decode (take n bs) # ms, r, ok)"
  by (simp add: frames.simps [of bs])

text \<open>What is left over is too short for a message.\<close>

definition partial :: "u8 list \<Rightarrow> bool" where
  "partial bs \<longleftrightarrow> frames bs = ([], bs, True)"

lemma partial_cases:
  assumes "partial bs"
  obtains "length bs < kmin" | n where "kmin \<le> length bs" "frame_length bs = Some n" "length bs < n"
  using assms unfolding partial_def frames.simps [of bs]
  by (auto split: if_splits option.splits prod.splits)

lemma frames_partial: "frames bs = (ms, r, True) \<Longrightarrow> partial r"
proof (induction bs arbitrary: ms rule: frames.induct)
  case (1 bs)
  show ?case
  proof (cases "length bs < kmin")
    case True
    with "1.prems" show ?thesis by (auto simp: partial_def frames_short)
  next
    case False
    then obtain n where n: "frame_length bs = Some n"
      using "1.prems" by (cases "frame_length bs") (auto simp: frames_broken)
    with False "1.prems" "1.IH" show ?thesis
      by (cases "length bs < n"; cases "frames (drop n bs)") (auto simp: partial_def frames_more frames_frame)
  qed
qed

lemma frames_append:
  "frames bs = (ms, r, True) \<Longrightarrow> frames (r @ x) = (ms', r', ok) \<Longrightarrow> frames (bs @ x) = (ms @ ms', r', ok)"
proof (induction bs arbitrary: ms rule: frames.induct)
  case (1 bs)
  show ?case
  proof (cases "length bs < kmin")
    case True
    with "1.prems" show ?thesis by (auto simp: frames_short)
  next
    case False
    then obtain n where n: "frame_length bs = Some n"
      using "1.prems" by (cases "frame_length bs") (auto simp: frames_broken)
    show ?thesis
    proof (cases "length bs < n")
      case True
      with False n "1.prems" show ?thesis by (auto simp: frames_more)
    next
      case len: False
      obtain ms1 where ms1: "frames (drop n bs) = (ms1, r, True)" "ms = decode (take n bs) # ms1"
        using False n len "1.prems"(1) by (cases "frames (drop n bs)") (auto simp: frames_frame)
      have "frames (drop n bs @ x) = (ms1 @ ms', r', ok)"
        using "1.IH" [OF False n len ms1(1)] "1.prems"(2) by simp
      then show ?thesis
        using False n len ms1 frames_frame [of "bs @ x" n] frame_prefix [of bs x] by simp
    qed
  qed
qed

subsection \<open>\<open>Push\<close> computes the frames\<close>

definition room :: "stream_byte_reader \<Rightarrow> bool" where
  "room st \<longleftrightarrow> kmin \<le> unat (scapacity st)
     \<and> (\<forall>bs n. kmin \<le> length bs \<longrightarrow> frame_length bs = Some n \<longrightarrow> n \<le> unat (scapacity st))"

lemma room_cong: "scapacity st' = scapacity st \<Longrightarrow> room st' = room st"
  by (simp add: room_def)

lemma partial_room:
  assumes "partial bs" "room st"
  shows "length bs \<le> unat (scapacity st)"
  using assms(1) by (cases rule: partial_cases) (use assms(2) in \<open>auto simp: room_def dest: less_imp_le order.trans\<close>)

lemma kmin_addressable: "st_ok st \<Longrightarrow> room st \<Longrightarrow> addressable kmin"
  by (simp add: st_ok_def room_def)

text \<open>What the head of \<open>Push\<close> leaves for the rest to do.\<close>

definition head_ok :: "stream_byte_reader \<Rightarrow> u8 list \<Rightarrow> 'm head_result \<Rightarrow> bool" where
  "head_ok st full res \<longleftrightarrow> (\<exists>h d st'. res = Some (h, d, st') \<and> st_ok st' \<and> scapacity st' = scapacity st \<and>
     (case h of
        Stop True \<Rightarrow> partial full \<and> buffered st' = full
      | Stop False \<Rightarrow> frames full = ([], [], False) \<and> soffset st' = 0
      | Go ms \<Rightarrow> soffset st' = 0 \<and> length d \<le> length full \<and>
          (\<forall>ms' r ok. frames d = (ms', r, ok) \<longrightarrow> frames full = (ms @ ms', r, ok))))"

lemma head_okI:
  "res = Some (Stop False, d, st') \<Longrightarrow> frames full = ([], [], False) \<Longrightarrow> soffset st' = 0
     \<Longrightarrow> st_ok st' \<Longrightarrow> scapacity st' = scapacity st \<Longrightarrow> head_ok st full res"
  "res = Some (Stop True, d, st') \<Longrightarrow> partial full \<Longrightarrow> buffered st' = full
     \<Longrightarrow> st_ok st' \<Longrightarrow> scapacity st' = scapacity st \<Longrightarrow> head_ok st full res"
  "res = Some (Go ms, d, st') \<Longrightarrow> soffset st' = 0 \<Longrightarrow> length d \<le> length full
     \<Longrightarrow> (\<And>ms' r ok. frames d = (ms', r, ok) \<Longrightarrow> frames full = (ms @ ms', r, ok))
     \<Longrightarrow> st_ok st' \<Longrightarrow> scapacity st' = scapacity st \<Longrightarrow> head_ok st full res"
  by (auto simp: head_ok_def)

lemma addressable_buffered: "st_ok st \<Longrightarrow> addressable (length (buffered st))"
  by (auto simp: buffered_def st_ok_def min_less_iff_disj)

lemma Push_increased_ok:
  assumes ok: "st_ok st" and b: "kmin \<le> length (buffered st)"
    and len: "frame_length (buffered st) = Some (length (buffered st))"
  shows "head_ok st (buffered st @ data) (Push_increased Process ind message data st)"
proof -
  let ?b = "buffered st"
  obtain s where s: "Process message (reader_on ind ?b) = (Success, decode ?b, s)"
      "stream_offset s = of_nat (length ?b)"
    using read_frame [OF b addressable_buffered [OF ok] len order.refl] by auto
  have "soffset st = stream_offset s"
    using length_buffered [OF ok] s(2) by simp
  then have res: "Push_increased Process ind message data st = Some (Go [decode ?b], data, st\<lparr>soffset := 0\<rparr>)"
    using s(1) by (simp add: Push_increased_def)
  show ?thesis
  proof (rule head_okI(3) [OF res])
    fix ms' r ok' assume "frames data = (ms', r, ok')"
    then show "frames (?b @ data) = ([decode ?b] @ ms', r, ok')"
      using frames_frame [of "?b @ data" "length ?b"] b len frame_prefix [OF b] by simp
  qed (use st_ok_Reset(2) [OF ok] in simp_all)
qed

lemma Push_message_ok:
  assumes ok: "st_ok st" and b: "kmin \<le> length (buffered st)"
    and le: "\<And>n. frame_length (buffered st) = Some n \<Longrightarrow> length (buffered st) \<le> n"
    and room: "room st" and data: "addressable (length data)"
  shows "head_ok st (buffered st @ data) (Push_message Process init ind data st)"
proof (cases "frame_length (buffered st)")
  case None
  obtain m s where "Process init (reader_on ind (buffered st)) = (Error, m, s)"
    using read_error [OF b addressable_buffered [OF ok] None] by blast
  then have "Push_message Process init ind data st = Some (Stop False, data, Reset st)"
    by (simp add: Push_message_def)
  then show ?thesis
    by (rule head_okI(1)) (use b None ok st_ok_Reset(1) in \<open>simp_all add: frames_broken frame_prefix Reset_def\<close>)
next
  case (Some n)
  let ?b = "buffered st" and ?k = "n - length (buffered st)"
  have n: "n \<le> unat (scapacity st)" "n < 2 ^ 62"
    using room b Some frame_bounds [OF b Some] by (auto simp: room_def)
  show ?thesis
  proof (cases "length ?b = n")
    case True
    obtain s where "Process init (reader_on ind ?b) = (Success, decode ?b, s)"
      using read_frame [OF b addressable_buffered [OF ok] Some] True by auto
    then have res: "Push_message Process init ind data st = Some (Go [decode ?b], data, st\<lparr>soffset := 0\<rparr>)"
      by (simp add: Push_message_def)
    show ?thesis
    proof (rule head_okI(3) [OF res])
      fix ms' r ok' assume "frames data = (ms', r, ok')"
      then show "frames (?b @ data) = ([decode ?b] @ ms', r, ok')"
        using frames_frame [of "?b @ data" n] b Some True frame_prefix [OF b] by simp
    qed (use st_ok_Reset(2) [OF ok] in simp_all)
  next
    case False
    with le [OF Some] have lt: "length ?b < n" by simp
    obtain m s where m: "Process init (reader_on ind ?b) = (Incomplete, m, s)" "GetSize Process m = of_nat n"
      using read_incomplete [OF b addressable_buffered [OF ok] Some lt] by blast
    have off: "soffset st = of_nat (length ?b)" using length_buffered [OF ok] by simp
    have un: "unat (of_nat n :: u64) = n" using n(2) by simp
    have un2: "unat (of_nat (length ?b) :: u64) = length ?b" using addressable_buffered [OF ok] by simp
    have "soffset st < GetSize Process m"
      using lt by (simp add: off m(2) word_less_nat_alt un un2 del: of_nat_inverse)
    moreover have "GetSize Process m - soffset st = of_nat ?k"
      using lt by (simp add: m(2) off of_nat_diff)
    ultimately have pm: "Push_message Process init ind data st =
        (case RequireSpan (of_nat ?k) data st of (require, written, data', st') \<Rightarrow>
           if \<not> written then Some (Stop False, data', Reset st')
           else if \<not> require then Some (Stop True, data', st')
           else Push_increased Process ind m data' st')"
      by (simp add: Push_message_def m(1))
    have uk: "unat (of_nat ?k :: u64) = ?k" "unat (of_nat (length data) :: u64) = length data"
      using n(2) data by simp_all
    have "(of_nat (length data) :: u64) < of_nat ?k \<longleftrightarrow> length data < ?k"
      by (simp only: word_less_nat_alt uk)
    then have rs: "RequireSpan (of_nat ?k) data st =
        (if length data < ?k
         then (if data \<noteq> [] then (False, ReadSpan (of_nat (length data)) data st) else (False, True, data, st))
         else (True, ReadSpan (of_nat ?k) data st))"
      by (simp only: RequireSpan_def)
    show ?thesis
    proof (cases "length data < ?k")
      case short: True
      have part: "partial (?b @ data)"
        using short lt b Some frame_prefix [OF b] by (simp add: partial_def frames_more)
      show ?thesis
      proof (cases "data = []")
        case True
        with short rs have "RequireSpan (of_nat ?k) data st = (False, True, data, st)" by simp
        with pm have "Push_message Process init ind data st = Some (Stop True, data, st)" by simp
        then show ?thesis by (rule head_okI(2)) (use part ok True in simp_all)
      next
        case nonempty: False
        obtain st' where st': "ReadSpan (of_nat (length data)) data st = (True, drop (length data) data, st')"
            "st_ok st'" "scapacity st' = scapacity st" "buffered st' = ?b @ take (length data) data"
          by (rule ReadSpan_ok [OF ok order.refl]) (use short n(1) in auto)
        with short nonempty pm have "Push_message Process init ind data st = Some (Stop True, [], st')"
          by (simp add: rs del: of_nat_diff)
        then show ?thesis by (rule head_okI(2)) (use part st' in simp_all)
      qed
    next
      case enough: False
      obtain st' where st': "ReadSpan (of_nat ?k) data st = (True, drop ?k data, st')"
          "st_ok st'" "scapacity st' = scapacity st" "buffered st' = ?b @ take ?k data"
        by (rule ReadSpan_ok [OF ok, of ?k data]) (use enough lt n(1) in auto)
      have "Push_message Process init ind data st = Push_increased Process ind m (drop ?k data) st'"
        using enough pm st'(1) by (simp add: rs del: of_nat_diff)
      moreover have "length (buffered st') = n" using st'(4) enough lt by simp
      moreover have "frame_length (buffered st') = Some n" using st'(4) Some frame_prefix [OF b] by simp
      moreover have "buffered st' @ drop ?k data = ?b @ data" using st'(4) by simp
      ultimately show ?thesis
        using Push_increased_ok [of st' "drop ?k data" ind m] st'(2,3) lt b by (simp add: head_ok_def)
    qed
  qed
qed

lemma Push_buffered_ok:
  assumes ok: "st_ok st" and part: "partial (buffered st)" and room: "room st"
    and data: "data \<noteq> []" "addressable (length data)"
  shows "head_ok st (buffered st @ data) (Push_buffered Process init ind data st)"
proof -
  let ?b = "buffered st"
  have lb: "length ?b = unat (soffset st)" by (rule length_buffered [OF ok])
  have km: "unat (of_nat kmin :: u64) = kmin" "kmin \<le> unat (scapacity st)"
    using kmin_addressable [OF ok room] room by (simp_all add: room_def)
  show ?thesis
  proof (cases "soffset st = 0")
    case True
    then have "?b = []" by (simp add: buffered_def)
    with True show ?thesis
      by (intro head_okI(3) [where d = data and ms = "[]" and st' = st]) (simp_all add: Push_buffered_def ok)
  next
    case nz: False
    show ?thesis
    proof (cases "length ?b < kmin")
      case False
      then have pb: "Push_buffered Process init ind data st = Push_message Process init ind data st"
        using nz lb by (simp add: Push_buffered_def min_size word_less_nat_alt km(1) Let_def word_unat_eq_iff)
      have "length ?b \<le> n" if "frame_length ?b = Some n" for n
        using part by (cases rule: partial_cases) (use False that in auto)
      with False show ?thesis
        unfolding pb by (intro Push_message_ok [OF ok]) (use room data in auto)
    next
      case True
      let ?k = "kmin - length ?b"
      have off: "soffset st = of_nat (length ?b)" using lb by simp
      have "soffset st < GetMinSize Process init"
        using True lb by (simp add: min_size word_less_nat_alt km(1))
      moreover have "GetMinSize Process init - soffset st = of_nat ?k"
        using True by (simp add: min_size off of_nat_diff)
      ultimately have pb: "Push_buffered Process init ind data st =
          (case RequireSpan (of_nat ?k) data st of (require, written, data', st') \<Rightarrow>
             if \<not> written then Some (Stop False, data', Reset st')
             else if \<not> require then Some (Stop True, data', st')
             else Push_message Process init ind data' st')"
        using nz by (simp add: Push_buffered_def Let_def word_gt_0)
      have uk: "unat (of_nat ?k :: u64) = ?k" "unat (of_nat (length data) :: u64) = length data"
        using kmin_addressable [OF ok room] data by simp_all
      have "(of_nat (length data) :: u64) < of_nat ?k \<longleftrightarrow> length data < ?k"
        by (simp only: word_less_nat_alt uk)
      then have rs: "RequireSpan (of_nat ?k) data st =
          (if length data < ?k then (False, ReadSpan (of_nat (length data)) data st)
           else (True, ReadSpan (of_nat ?k) data st))"
        using data by (simp only: RequireSpan_def if_True not_False_eq_True)
      show ?thesis
      proof (cases "length data < ?k")
        case short: True
        obtain st' where st': "ReadSpan (of_nat (length data)) data st = (True, drop (length data) data, st')"
            "st_ok st'" "scapacity st' = scapacity st" "buffered st' = ?b @ take (length data) data"
          by (rule ReadSpan_ok [OF ok order.refl]) (use short km(2) in auto)
        with short pb have "Push_buffered Process init ind data st = Some (Stop True, [], st')"
          by (simp add: rs del: of_nat_diff)
        then show ?thesis
          by (rule head_okI(2)) (use short st' in \<open>simp_all add: partial_def frames_short\<close>)
      next
        case enough: False
        obtain st' where st': "ReadSpan (of_nat ?k) data st = (True, drop ?k data, st')"
            "st_ok st'" "scapacity st' = scapacity st" "buffered st' = ?b @ take ?k data"
          by (rule ReadSpan_ok [OF ok, of ?k data]) (use enough True km(2) in auto)
        have "Push_buffered Process init ind data st = Push_message Process init ind (drop ?k data) st'"
          using enough pb st'(1) by (simp add: rs del: of_nat_diff)
        moreover have l: "length (buffered st') = kmin" using st'(4) enough True by simp
        moreover have "head_ok st' (buffered st' @ drop ?k data) (Push_message Process init ind (drop ?k data) st')"
          using l frame_bounds [of "buffered st'"] room_cong [OF st'(3)] room data
          by (intro Push_message_ok [OF st'(2)]) auto
        moreover have "buffered st' @ drop ?k data = ?b @ data" using st'(4) by simp
        ultimately show ?thesis using st'(3) by (simp add: head_ok_def)
      qed
    qed
  qed
qed

text \<open>What a whole \<open>Push\<close> guarantees.\<close>

definition push_ok :: "stream_byte_reader \<Rightarrow> u8 list \<Rightarrow> 'm list \<Rightarrow> 'm push_result \<Rightarrow> bool" where
  "push_ok st full called res \<longleftrightarrow> (\<forall>ms r ok. frames full = (ms, r, ok) \<longrightarrow>
     (\<exists>st'. res = Some (ok, called @ ms, st') \<and> st_ok st' \<and> scapacity st' = scapacity st
        \<and> (if ok then buffered st' = r else soffset st' = 0)))"

lemma Push_rest_ok:
  assumes "st_ok st" "soffset st = 0" "partial data" "room st"
  shows "push_ok st data called (Push_rest data st called)"
proof -
  have b: "buffered st = []" using assms(2) by (simp add: buffered_def)
  have l: "length data \<le> unat (scapacity st)" by (rule partial_room [OF assms(3,4)])
  show ?thesis
  proof (cases "data = []")
    case True
    with assms b show ?thesis by (simp add: push_ok_def Push_rest_def partial_def)
  next
    case False
    obtain st' where "ReadSpan (of_nat (length data)) data st = (True, drop (length data) data, st')"
        "st_ok st'" "scapacity st' = scapacity st" "buffered st' = buffered st @ take (length data) data"
      by (rule ReadSpan_ok [OF assms(1) order.refl]) (use l b in simp)
    with assms(3) b False show ?thesis by (simp add: push_ok_def Push_rest_def partial_def)
  qed
qed

lemma Push_loop_ok:
  assumes "st_ok st" "soffset st = 0" "room st" "addressable (length data)"
  shows "push_ok st data called (Push_loop Process init ind data st called)"
  using assms(4)
proof (induction "length data" arbitrary: data called rule: less_induct)
  case less
  have u: "unat (of_nat kmin :: u64) = kmin" "unat (of_nat (length data) :: u64) = length data"
    using kmin_addressable [OF assms(1,3)] less.prems by simp_all
  have cond: "of_nat (length data) \<ge> GetMinSize Process init \<longleftrightarrow> kmin \<le> length data"
    by (simp only: min_size word_le_nat_alt u)
  show ?case
  proof (cases "kmin \<le> length data")
    case False
    then have "Push_loop Process init ind data st called = Push_rest data st called"
      by (simp add: Push_loop.simps cond)
    with False show ?thesis
      using Push_rest_ok [OF assms(1,2) _ assms(3), of data called] by (simp add: partial_def frames_short)
  next
    case True
    show ?thesis
    proof (cases "frame_length data")
      case None
      obtain m s where "Process init (reader_on ind data) = (Error, m, s)"
        using read_error [OF True less.prems None] by blast
      with True have "Push_loop Process init ind data st called = Some (False, called, Reset st)"
        by (simp add: Push_loop.simps cond)
      with True None st_ok_Reset(1) [OF assms(1)] show ?thesis
        by (simp add: push_ok_def frames_broken Reset_def)
    next
      case (Some n)
      show ?thesis
      proof (cases "length data < n")
        case lt: True
        obtain m s where "Process init (reader_on ind data) = (Incomplete, m, s)"
          using read_incomplete [OF True less.prems Some lt] by blast
        with True have "Push_loop Process init ind data st called = Push_rest data st called"
          by (simp add: Push_loop.simps cond)
        with lt True Some show ?thesis
          using Push_rest_ok [OF assms(1,2) _ assms(3), of data called] by (simp add: partial_def frames_more)
      next
        case False
        obtain s where s: "Process init (reader_on ind data) = (Success, decode (take n data), s)"
            "stream_offset s = of_nat n"
          using read_frame [OF True less.prems Some] False by auto
        have n: "0 < n" "unat (of_nat n :: u64) = n"
          using frame_bounds [OF True Some] kmin_pos by simp_all
        have "Push_loop Process init ind data st called
            = Push_loop Process init ind (drop n data) st (called @ [decode (take n data)])"
          using True s n(2) by (simp add: Push_loop.simps [of Process init ind data] cond)
        moreover have "push_ok st (drop n data) (called @ [decode (take n data)])
            (Push_loop Process init ind (drop n data) st (called @ [decode (take n data)]))"
          using False n(1) less.prems by (intro less.hyps) auto
        ultimately show ?thesis
          using False True Some by (cases "frames (drop n data)") (auto simp: push_ok_def frames_frame)
      qed
    qed
  qed
qed

theorem Push_frames:
  assumes "st_ok st" "partial (buffered st)" "room st" "data \<noteq> []"
    "addressable (length (buffered st) + length data)"
  shows "push_ok st (buffered st @ data) [] (Push Process init ind data st)"
proof -
  have "head_ok st (buffered st @ data) (Push_buffered Process init ind data st)"
    using assms by (intro Push_buffered_ok) simp_all
  then obtain h d st' where h: "Push_buffered Process init ind data st = Some (h, d, st')"
      "st_ok st'" "scapacity st' = scapacity st"
    and c: "case h of
        Stop True \<Rightarrow> partial (buffered st @ data) \<and> buffered st' = buffered st @ data
      | Stop False \<Rightarrow> frames (buffered st @ data) = ([], [], False) \<and> soffset st' = 0
      | Go ms \<Rightarrow> soffset st' = 0 \<and> length d \<le> length (buffered st @ data) \<and>
          (\<forall>ms' r ok. frames d = (ms', r, ok) \<longrightarrow> frames (buffered st @ data) = (ms @ ms', r, ok))"
    unfolding head_ok_def by blast
  show ?thesis
  proof (cases h)
    case (Stop b)
    then have "Push Process init ind data st = Some (b, [], st')"
      using assms(4) h(1) by (simp add: Push_def)
    with Stop h c show ?thesis by (cases b) (auto simp: push_ok_def partial_def)
  next
    case (Go ms)
    then have "push_ok st' d ms (Push_loop Process init ind d st' ms)"
      using h c assms room_cong [OF h(3)] by (intro Push_loop_ok) auto
    with Go h c assms(4) show ?thesis
      by (cases "frames d") (auto simp: push_ok_def Push_def)
  qed
qed

end

subsection \<open>Chunks\<close>

text \<open>What the caller does with the chunks of a connection: it stops at the first broken one.\<close>

fun Push_chunks ::
  "'m proc \<Rightarrow> 'm \<Rightarrow> (nat \<Rightarrow> u64) \<Rightarrow> u8 list list \<Rightarrow> stream_byte_reader \<Rightarrow> 'm push_result" where
  "Push_chunks Process init ind [] st = Some (True, [], st)"
| "Push_chunks Process init ind (c # cs) st =
     (case Push Process init ind c st of
        None \<Rightarrow> None
      | Some (False, ms, st') \<Rightarrow> Some (False, ms, st')
      | Some (True, ms, st') \<Rightarrow>
          (case Push_chunks Process init ind cs st' of
             None \<Rightarrow> None
           | Some (ok, ms', st'') \<Rightarrow> Some (ok, ms @ ms', st'')))"

context framing
begin

lemma frames_broken_append: "frames bs = (ms, r, False) \<Longrightarrow> frames (bs @ x) = (ms, r, False)"
proof (induction bs arbitrary: ms rule: frames.induct)
  case (1 bs)
  have k: "\<not> length bs < kmin" using "1.prems" by (auto simp: frames_short)
  show ?case
  proof (cases "frame_length bs")
    case None
    with k "1.prems" show ?thesis by (auto simp: frames_broken frame_prefix)
  next
    case (Some n)
    have len: "\<not> length bs < n" using k Some "1.prems" by (auto simp: frames_more)
    obtain ms1 where ms1: "frames (drop n bs) = (ms1, r, False)" "ms = decode (take n bs) # ms1"
      using k Some len "1.prems" by (cases "frames (drop n bs)") (auto simp: frames_frame)
    from ms1(1) have "frames (drop n bs @ x) = (ms1, r, False)" by (rule "1.IH" [OF k Some len])
    with k Some len ms1(2) frames_frame [of "bs @ x" n] frame_prefix [of bs x] show ?thesis by simp
  qed
qed

lemma Push_chunks_frames:
  assumes "st_ok st" "partial (buffered st)" "room st" "[] \<notin> set cs"
    "addressable (unat (scapacity st) + length (concat cs))"
  shows "push_ok st (buffered st @ concat cs) [] (Push_chunks Process init ind cs st)"
  using assms
proof (induction cs arbitrary: st)
  case Nil
  then show ?case by (auto simp: push_ok_def partial_def)
next
  case (Cons c cs)
  have "length (buffered st) \<le> unat (scapacity st)"
    using partial_room Cons.prems by blast
  then have push: "push_ok st (buffered st @ c) [] (Push Process init ind c st)"
    using Cons.prems by (intro Push_frames) auto
  obtain ms r ok where f: "frames (buffered st @ c) = (ms, r, ok)" by (cases "frames (buffered st @ c)")
  obtain st' where st': "Push Process init ind c st = Some (ok, ms, st')" "st_ok st'"
      "scapacity st' = scapacity st" "if ok then buffered st' = r else soffset st' = 0"
    using push f by (auto simp: push_ok_def)
  show ?case
  proof (cases ok)
    case False
    have "frames (buffered st @ concat (c # cs)) = (ms, r, False)"
      using f False frames_broken_append [of "buffered st @ c" ms r "concat cs"] by simp
    with False st' show ?thesis by (simp add: push_ok_def)
  next
    case True
    have "push_ok st' (buffered st' @ concat cs) [] (Push_chunks Process init ind cs st')"
      using Cons.prems True st' f frames_partial [of _ ms r] room_cong [OF st'(3)]
      by (intro Cons.IH) auto
    moreover obtain ms' r' ok' where f': "frames (buffered st' @ concat cs) = (ms', r', ok')"
      by (cases "frames (buffered st' @ concat cs)")
    moreover have "frames (buffered st @ concat (c # cs)) = (ms @ ms', r', ok')"
      using frames_append [of "buffered st @ c" ms r "concat cs"] f f' True st'(4) by simp
    ultimately show ?thesis using True st' by (auto simp: push_ok_def)
  qed
qed

end

end
