(* ===== verification/Mumble.thy ===== *)
theory Mumble
  imports PacketContract StreamReader
begin

text \<open>
  \<open>MumbleMessage.h\<close>: the big-endian message of the voice server, and its framing by
  \<open>StreamByteReader\<close>.
\<close>

record ClientMumbleMessage =
  type :: u16
  data :: "u8 span"

definition ClientMumbleMessage_init :: ClientMumbleMessage where
  [packet_defs]: "ClientMumbleMessage_init = ClientMumbleMessage.make 0 (Span [])"

definition Mumble_option :: size_option where
  "Mumble_option = ConstrainedBigBytesArray 1 8192"

definition ClientMumbleMessage_Process :: "ClientMumbleMessage proc" where
  "ClientMumbleMessage_Process = ProcessPropertiesInOrder
     [on_member ClientMumbleMessage.type ClientMumbleMessage.type_update Property_int_be,
      on_member ClientMumbleMessage.data ClientMumbleMessage.data_update
        (Property_Span u8_elem Mumble_option True True)]"

definition ClientMumbleMessage_wire :: "ClientMumbleMessage \<Rightarrow> u8 list" where
  "ClientMumbleMessage_wire v = wire_int_be (ClientMumbleMessage.type v)
     @ wire_span u8_elem Mumble_option True (ClientMumbleMessage.data v)"

definition ClientMumbleMessage_wf :: "ClientMumbleMessage \<Rightarrow> bool" where
  [packet_defs]: "ClientMumbleMessage_wf v \<longleftrightarrow> span_fits Mumble_option (ClientMumbleMessage.data v)"

interpretation cmm: serializable ClientMumbleMessage_Process ClientMumbleMessage_wf ClientMumbleMessage_wire
  ClientMumbleMessage_init False 7 8198
  by (rule serializableI, unfold ClientMumbleMessage_Process_def ClientMumbleMessage_wire_def)
    (rule codec_rules ClientMumbleMessage.equality
      | simp add: packet_defs codec_simps ClientMumbleMessage.defs Mumble_option_def
      | auto simp: packet_defs codec_simps ClientMumbleMessage.defs Mumble_option_def dest!: span_size_bounds)+

subsection \<open>The framing contract\<close>

definition Mumble_size :: "u8 list \<Rightarrow> u64" where
  "Mumble_size bs = ntoh 4 (le_dec (take 4 (drop 2 bs)))"

definition Mumble_length :: "u8 list \<Rightarrow> nat option" where
  "Mumble_length bs = (let n = unat (Mumble_size bs) in if 1 \<le> n \<and> n \<le> 8192 then Some (6 + n) else None)"

definition Mumble_type :: "u8 list \<Rightarrow> u16" where
  "Mumble_type bs = ucast (ntoh 2 (le_dec (take 2 bs)))"

definition Mumble_decode :: "u8 list \<Rightarrow> ClientMumbleMessage" where
  "Mumble_decode bs = ClientMumbleMessage.make (Mumble_type bs) (Span (drop 6 bs))"

lemma decode_u8: "n \<le> length bs \<Longrightarrow> decode_elems u8_elem n bs = take n bs"
proof (induction n arbitrary: bs)
  case (Suc n)
  then show ?case by (cases bs) (simp_all add: u8_elem_def)
qed simp

lemma one_le_u64: "(1 :: u64) \<le> x \<longleftrightarrow> x \<noteq> 0"
  by (metis word_less_1 not_le)

lemma len_num16: "int_bytes TYPE(16) = 2"
  by simp

lemma Mumble_reads:
  fixes m0 :: ClientMumbleMessage
  assumes "length t = 2" "length z = 4" "addressable (length (t @ z @ d))"
  shows "ClientMumbleMessage_Process m0 (reader_on ind (t @ z @ d)) =
    (let n = ntoh 4 (le_dec z); ty = ucast (ntoh 2 (le_dec t)) in
     if \<not> (1 \<le> n \<and> n \<le> 8192) then (Error, m0\<lparr>type := ty\<rparr>, Reader (rdr (t @ z) d ind))
     else if unat n \<le> length d
     then (Success, ClientMumbleMessage.make ty (Span (take (unat n) d)),
           Reader (rdr (t @ z @ take (unat n) d) (drop (unat n) d) ind))
     else (Incomplete, ClientMumbleMessage.make ty (NullSpan n), Reader (rdr (t @ z) d ind)))"
proof -
  let ?n = "ntoh 4 (le_dec z) :: u64" and ?ty = "ucast (ntoh 2 (le_dec t)) :: u16"
  have r0: "reader_on ind (t @ z @ d) = Reader (rdr [] (t @ z @ d) ind)"
    by (simp add: reader_on_def ByteReader_make_def rdr_def)
  have ty: "Property_int_be v (Reader (rdr [] (t @ z @ d) ind)) = (Success, ?ty, Reader (rdr t (z @ d) ind))" for v
  proof -
    have "Field 2 x (Reader (rdr [] (t @ z @ d) ind)) = (Done, t, Reader (rdr ([] @ t) (z @ d) ind))" for x
      by (rule Field_rdr) (use assms in simp_all)
    then show ?thesis
      by (simp only: Property_int_be_def Let_def len_num16 prod.case is_reader.simps simp_thms if_True
          append_Nil access_result.simps)
  qed
  have "ByteReader_Field 4 [] (rdr t (z @ d) ind) = (Done, z, rdr (t @ z) d ind)"
    by (rule ByteReader_Field_rdr) (use assms in simp_all)
  then have sz: "SizeOption_Process True Mumble_option sug (Reader (rdr t (z @ d) ind))
      = (if \<not> (1 \<le> ?n \<and> ?n \<le> 8192) then InvalidSize else ValidSize ?n, Reader (rdr (t @ z) d ind))" for sug
    by (auto simp: read_size_def Mumble_option_def ConstrainedBigBytesArray_def ValidateSize_def Let_def one_le_u64)
  have sp: "ByteReader_Field_Span 1 v ?n (rdr (t @ z) d ind) =
      (if unat ?n \<le> length d then (Done, take (unat ?n) d, rdr (t @ z @ take (unat ?n) d) (drop (unat ?n) d) ind)
       else (Refused, v, rdr (t @ z) d ind))" if "?n \<le> 8192" for v
  proof (cases "unat ?n \<le> length d")
    case True
    have "ByteReader_CanRead ?n (rdr (t @ z) d ind)"
      using rdr_CanRead [of "t @ z" d "unat ?n" ind] True assms by simp
    moreover have "reader_copy ?n (rdr (t @ z) (take (unat ?n) d @ drop (unat ?n) d) ind)
        = (Done, take (unat ?n) d, rdr ((t @ z) @ take (unat ?n) d) (drop (unat ?n) d) ind)"
      using rdr_copy [of "t @ z" "take (unat ?n) d" "drop (unat ?n) d" "unat ?n" ind] True assms by simp
    ultimately show ?thesis using True by (simp add: ByteReader_Field_Span_def Let_def)
  next
    case False
    have "unat ?n < 2 ^ 63" using that by (simp add: word_le_nat_alt)
    then have "\<not> ByteReader_CanRead ?n (rdr (t @ z) d ind)"
      using rdr_CanRead [of "t @ z" d "unat ?n" ind] False assms by simp
    with False show ?thesis by (simp add: ByteReader_Field_Span_def Let_def)
  qed
  have pos: "?n > 0 \<longleftrightarrow> 1 \<le> ?n" by (simp add: one_le_u64 word_gt_0)
  have span: "Property_Span u8_elem Mumble_option True True v (Reader (rdr t (z @ d) ind)) =
      (if \<not> (1 \<le> ?n \<and> ?n \<le> 8192) then (Error, v, Reader (rdr (t @ z) d ind))
       else if unat ?n \<le> length d
       then (Success, Span (take (unat ?n) d), Reader (rdr (t @ z @ take (unat ?n) d) (drop (unat ?n) d) ind))
       else (Incomplete, NullSpan ?n, Reader (rdr (t @ z) d ind)))" for v
  proof (cases "1 \<le> ?n \<and> ?n \<le> 8192")
    case False
    then show ?thesis unfolding Property_Span_def sz by (simp only: prod.case size_result.case if_True not_False_eq_True)
  next
    case True
    then have "?n > 0" "?n \<le> 8192" using pos by simp_all
    with True show ?thesis
      unfolding Property_Span_def sz
      by (cases "unat ?n \<le> length d") (simp_all add: sp [unfolded One_nat_def] decode_u8)
  qed
  show ?thesis
    unfolding ClientMumbleMessage_Process_def r0 Let_def
    by (cases m0; cases "1 \<le> ?n \<and> ?n \<le> 8192"; cases "unat ?n \<le> length d")
      (simp_all add: on_member_def ty span ClientMumbleMessage.defs)
qed

lemma split_bytes:
  assumes "7 \<le> length (bs :: u8 list)"
  obtains t z d where "bs = t @ z @ d" "length t = 2" "length z = 4" "1 \<le> length d"
    "take 2 bs = t" "take 4 (drop 2 bs) = z" "drop 6 bs = d"
proof (rule that [of "take 2 bs" "take 4 (drop 2 bs)" "drop 6 bs"])
  show "bs = take 2 bs @ take 4 (drop 2 bs) @ drop 6 bs"
    using append_take_drop_id [of 2 bs] append_take_drop_id [of 4 "drop 2 bs"] by simp
qed (use assms in simp_all)

lemma GetSize_incomplete:
  assumes "1 \<le> n" "n \<le> 8192"
  shows "GetSize ClientMumbleMessage_Process (ClientMumbleMessage.make ty (NullSpan n)) = of_nat (6 + unat n)"
proof -
  let ?m = "ClientMumbleMessage.make ty (NullSpan n)"
  have n: "1 \<le> unat n" "unat n \<le> 8192" using assms by (simp_all add: word_le_nat_alt)
  have "counts (Property_Span u8_elem Mumble_option True True) (ClientMumbleMessage.data ?m) (4 + unat n)"
    using counts_NullSpan [of Mumble_option u8_elem True n True] n
    by (simp add: Mumble_option_def codec_simps size_fits_def ClientMumbleMessage.defs)
  then have "counts ClientMumbleMessage_Process ?m (6 + unat n)"
    unfolding ClientMumbleMessage_Process_def
    by - (rule counts_eq(1), (assumption | rule counter_laws_single counter_laws_Cons counter_laws_member
      counter_laws_int_be | simp add: ClientMumbleMessage.defs)+)
  then show ?thesis using n by (simp add: counts_def GetSize_def csat_def min_def)
qed

lemma Mumble_size_word: "(1 \<le> n \<and> n \<le> 8192) = (1 \<le> unat n \<and> unat n \<le> 8192)" for n :: u64
  by (simp add: word_le_nat_alt)

interpretation mumble: framing ClientMumbleMessage_Process ClientMumbleMessage_init 7 Mumble_length Mumble_decode
proof unfold_locales
  show "GetMinSize ClientMumbleMessage_Process ClientMumbleMessage_init = of_nat 7"
    using cmm.GetMinSize_eq by (simp add: csat_def)
  fix bs :: "u8 list" and m0 and ind :: "nat \<Rightarrow> u64" assume b: "7 \<le> length bs"
  obtain t z d where s: "bs = t @ z @ d" "length t = 2" "length z = 4" "1 \<le> length d"
      "take 2 bs = t" "take 4 (drop 2 bs) = z" "drop 6 bs = d"
    by (rule split_bytes [OF b])
  show "Mumble_length (bs @ x) = Mumble_length bs" for x
    using b by (simp add: Mumble_length_def Mumble_size_def)
  show "7 \<le> n \<and> addressable n" if "Mumble_length bs = Some n" for n
    using that by (auto simp: Mumble_length_def Let_def split: if_splits)
  assume fit: "addressable (length bs)"
  let ?n = "ntoh 4 (le_dec z) :: u64"
  have size: "Mumble_size bs = ?n" using s by (simp add: Mumble_size_def)
  note reads = Mumble_reads [OF s(2,3) fit [unfolded s(1)], of _ ind, folded s(1)]
  show "\<exists>m s. ClientMumbleMessage_Process ClientMumbleMessage_init (reader_on ind bs) = (Error, m, s)"
    if "Mumble_length bs = None"
    using that reads by (auto simp: Mumble_length_def size Let_def Mumble_size_word split: if_splits)
  fix n assume len: "Mumble_length bs = Some n"
  then have n: "1 \<le> ?n \<and> ?n \<le> 8192" "n = 6 + unat ?n"
    by (auto simp: Mumble_length_def size Let_def Mumble_size_word split: if_splits)
  have l: "length bs = 6 + length d" using s by simp
  show "\<exists>m s. ClientMumbleMessage_Process ClientMumbleMessage_init (reader_on ind bs) = (Incomplete, m, s)
      \<and> GetSize ClientMumbleMessage_Process m = of_nat n" if "length bs < n"
    using that reads n l by (simp add: Let_def GetSize_incomplete)
  show "\<exists>s. ClientMumbleMessage_Process m0 (reader_on ind bs) = (Success, Mumble_decode (take n bs), s)
      \<and> stream_offset s = of_nat n" if "n \<le> length bs"
  proof -
    have "take n bs = t @ z @ take (unat ?n) d" using s n(2) by simp
    then have "Mumble_decode (take n bs)
        = ClientMumbleMessage.make (ucast (ntoh 2 (le_dec t))) (Span (take (unat ?n) d))"
      using s by (simp add: Mumble_decode_def Mumble_type_def)
    then show ?thesis using that reads n l s by (simp add: Let_def rdr_def)
  qed
qed simp

subsection \<open>Streams of messages\<close>

lemma Mumble_frame:
  assumes wf: "ClientMumbleMessage_wf v" and fit: "addressable (length (ClientMumbleMessage_wire v) + length x)"
  shows "Mumble_length (ClientMumbleMessage_wire v @ x) = Some (length (ClientMumbleMessage_wire v))"
    "Mumble_decode (ClientMumbleMessage_wire v) = v"
proof -
  let ?w = "ClientMumbleMessage_wire v"
  have k: "7 \<le> length (?w @ x)" using cmm.window [OF wf] by simp
  have read: "ClientMumbleMessage_Process ClientMumbleMessage_init (reader_on (\<lambda>_. 0) (?w @ x))
      = (Success, v, Reader (rdr ?w x (\<lambda>_. 0)))"
    using cmm.read_wire [OF wf, of x "\<lambda>_. 0"] fit by (simp add: reader_on_def)
  have len: "unat (roffset (rdr ?w x (\<lambda>_. 0))) = length ?w" using fit by (simp add: rdr_def)
  obtain n where n: "Mumble_length (?w @ x) = Some n"
    using mumble.read_error [OF k, of "\<lambda>_. 0"] read fit by (cases "Mumble_length (?w @ x)") auto
  moreover have "n \<le> length (?w @ x)"
    using mumble.read_incomplete [OF k _ n, of "\<lambda>_. 0"] read fit by (force simp: not_le [symmetric])
  ultimately have d: "Mumble_decode (take n (?w @ x)) = v" "roffset (rdr ?w x (\<lambda>_. 0)) = of_nat n"
    using mumble.read_frame [OF k _ n, of ClientMumbleMessage_init "\<lambda>_. 0"] read fit by auto
  then have "n = length ?w"
    using len mumble.frame_bounds [OF k n] by simp
  with n d show "Mumble_length (?w @ x) = Some (length ?w)" "Mumble_decode ?w = v" by simp_all
qed

lemma Mumble_frames:
  assumes "\<forall>v\<in>set ms. ClientMumbleMessage_wf v"
    and "addressable (length (concat (map ClientMumbleMessage_wire ms)))"
  shows "mumble.frames (concat (map ClientMumbleMessage_wire ms)) = (ms, [], True)"
  using assms
proof (induction ms)
  case (Cons v ms)
  let ?x = "concat (map ClientMumbleMessage_wire ms)"
  have wf: "ClientMumbleMessage_wf v" and fit: "addressable (length (ClientMumbleMessage_wire v) + length ?x)"
    using Cons.prems by simp_all
  have "mumble.frames (ClientMumbleMessage_wire v @ ?x) = (v # ms, [], True)"
    using Mumble_frame [OF wf fit] cmm.window [OF wf] Cons
      mumble.frames_frame [of "ClientMumbleMessage_wire v @ ?x" "length (ClientMumbleMessage_wire v)" ms "[]" True]
    by simp
  then show ?case by simp
qed (simp add: mumble.frames_short)

definition READ_BUFFER_SIZE :: nat where
  "READ_BUFFER_SIZE = (8192 + 6 + 4) * 2"

lemma Mumble_room:
  "unat (scapacity st) = READ_BUFFER_SIZE \<Longrightarrow> mumble.room st"
  by (auto simp: mumble.room_def READ_BUFFER_SIZE_def Mumble_length_def Let_def split: if_splits)

lemma Mumble_chunks:
  assumes "length buf = READ_BUFFER_SIZE" "[] \<notin> set cs" "\<forall>v\<in>set ms. ClientMumbleMessage_wf v"
    and "concat cs = concat (map ClientMumbleMessage_wire ms)" "length (concat cs) < 2 ^ 61"
  shows "\<exists>st. Push_chunks ClientMumbleMessage_Process ClientMumbleMessage_init ind cs
      (StreamByteReader_make buf (of_nat READ_BUFFER_SIZE)) = Some (True, ms, st) \<and> soffset st = 0"
proof -
  let ?st = "StreamByteReader_make buf (of_nat READ_BUFFER_SIZE)"
  have cap: "unat (scapacity ?st) = READ_BUFFER_SIZE"
    by (simp add: StreamByteReader_make_def READ_BUFFER_SIZE_def)
  have ok: "st_ok ?st"
    using assms(1) by (simp add: st_ok_def StreamByteReader_make_def READ_BUFFER_SIZE_def)
  have b: "buffered ?st = []" by (simp add: buffered_def StreamByteReader_make_def)
  have p: "mumble.partial (buffered ?st)"
    unfolding b by (simp add: mumble.partial_def mumble.frames_short)
  have "addressable (unat (scapacity ?st) + length (concat cs))"
    using assms(5) unfolding cap by (simp add: READ_BUFFER_SIZE_def)
  then have "mumble.push_ok ?st (buffered ?st @ concat cs) []
      (Push_chunks ClientMumbleMessage_Process ClientMumbleMessage_init ind cs ?st)"
    by (rule mumble.Push_chunks_frames [OF ok p Mumble_room [OF cap] assms(2)])
  moreover have "mumble.frames (concat cs) = (ms, [], True)"
    using Mumble_frames [OF assms(3)] assms(4,5) by simp
  ultimately obtain st where "Push_chunks ClientMumbleMessage_Process ClientMumbleMessage_init ind cs ?st
      = Some (True, ms, st)" "st_ok st" "buffered st = []"
    by (auto simp: mumble.push_ok_def b)
  moreover from this have "soffset st = 0"
    using length_buffered [of st] by (simp add: word_unat_eq_iff)
  ultimately show ?thesis by blast
qed

end
