(* ===== verification/MessageBuffer.thy ===== *)
theory MessageBuffer
  imports Prelude
begin

text \<open>
  \<open>shared/state/RlMessageBuffer.h\<close>: the bit buffer of the synchronisation data. Positions are
  non-negative \<open>int\<close>s of the code, here \<open>nat\<close> (a buffer of \<open>2 ^ 28\<close> bytes would overflow them).
  \<open>None\<close> is undefined behaviour: an access outside \<open>m_data\<close>, or a shift of a 32-bit value by 32 or
  more. \<open>hack\<close> is \<open>MessageBufferLengthHack::GetState()\<close>. \<open>CopyBits\<close>, with \<open>ReadBits\<close> and
  \<open>WriteBits\<close> over it, is decompiler output and is not modelled.
\<close>

record message_buffer =
  m_data :: "u8 list"
  m_curBit :: nat
  m_maxBit :: nat

definition MessageBuffer_make :: "u8 list \<Rightarrow> message_buffer" where
  "MessageBuffer_make data = \<lparr>m_data = data, m_curBit = 0, m_maxBit = length data * 8\<rparr>"

definition MessageBuffer_sized :: "nat \<Rightarrow> message_buffer" where
  "MessageBuffer_sized sz = \<lparr>m_data = replicate sz 0, m_curBit = 0, m_maxBit = sz * 8\<rparr>"

subsection \<open>Reading\<close>

text \<open>The loop \<open>while (remaining > 0)\<close>.\<close>

fun read_loop :: "u8 list \<Rightarrow> nat \<Rightarrow> nat \<Rightarrow> nat \<Rightarrow> u32 \<Rightarrow> (u32 \<times> nat) option" where
  "read_loop d 0 startIdx shift retval = Some (retval, startIdx)"
| "read_loop d (Suc remaining) startIdx shift retval =
     (if startIdx < length d
      then read_loop d remaining (startIdx + 1) shift (push_bit shift (ucast (d ! startIdx)) OR push_bit 8 retval)
      else None)"

definition hack_length :: "bool \<Rightarrow> nat \<Rightarrow> nat" where
  "hack_length hack len = (if len = 13 \<and> hack then 16 else len)"

text \<open>The result is the value stored to \<open>out\<close>, \<open>None\<close> inside where the method returns false.\<close>

definition ReadBitsSingle :: "bool \<Rightarrow> nat \<Rightarrow> message_buffer \<Rightarrow> (u32 option \<times> message_buffer) option" where
  "ReadBitsSingle hack length0 b =
     (let len = hack_length hack length0; b' = b\<lparr>m_curBit := m_curBit b + len\<rparr> in
      if m_curBit b + len > m_maxBit b then Some (None, b')
      else
        let startIdx = m_curBit b div 8; shift = m_curBit b mod 8 in
        if startIdx \<ge> length (m_data b) then None
        else
          case read_loop (m_data b) (if len > 8 then (len - 9) div 8 + 1 else 0) (startIdx + 1) shift
                 (ucast (push_bit shift (m_data b ! startIdx) :: u8)) of
            None \<Rightarrow> None
          | Some (r, idx) \<Rightarrow>
              let r = (if shift \<noteq> 0
                       then r OR ucast (drop_bit (8 - shift) (if idx < length (m_data b) then m_data b ! idx else 0) :: u8)
                       else r);
                  down = ((len + 7) div 8 * 8) mod 256 - len in
              if down \<ge> 32 then None else Some (Some (drop_bit down r), b'))"

definition ReadBit :: "message_buffer \<Rightarrow> u8 \<times> message_buffer" where
  "ReadBit b =
     (let startIdx = m_curBit b div 8 in
      if startIdx \<ge> length (m_data b) then (0, b)
      else let shift = 7 - m_curBit b mod 8 in
        (drop_bit shift (m_data b ! startIdx) AND 1, b\<lparr>m_curBit := m_curBit b + 1\<rparr>))"

text \<open>\<open>Read<T>(length)\<close>: the value stays 0 when the read fails.\<close>

definition Read :: "bool \<Rightarrow> nat \<Rightarrow> message_buffer \<Rightarrow> (u32 \<times> message_buffer) option" where
  "Read hack len b =
     (case ReadBitsSingle hack len b of
        None \<Rightarrow> None
      | Some (v, b') \<Rightarrow> Some (case v of None \<Rightarrow> 0 | Some w \<Rightarrow> w, b'))"

text \<open>\<open>Read(length, T* out)\<close>: the success flag and the value.\<close>

definition Read_out :: "bool \<Rightarrow> nat \<Rightarrow> message_buffer \<Rightarrow> (bool \<times> u32 \<times> message_buffer) option" where
  "Read_out hack len b =
     (case ReadBitsSingle hack len b of
        None \<Rightarrow> None
      | Some (None, b') \<Rightarrow> Some (False, 0, b')
      | Some (Some w, b') \<Rightarrow> Some (True, w, b'))"

text \<open>\<open>int\<close> arithmetic on 32-bit words in two's complement.\<close>

definition ReadSigned :: "bool \<Rightarrow> nat \<Rightarrow> message_buffer \<Rightarrow> (u32 \<times> message_buffer) option" where
  "ReadSigned hack len b =
     (case Read hack 1 b of
        None \<Rightarrow> None
      | Some (sign, b') \<Rightarrow>
          case Read hack (len - 1) b' of
            None \<Rightarrow> None
          | Some (data, b'') \<Rightarrow> Some (sign + (data XOR - sign), b''))"

definition ReadLong :: "bool \<Rightarrow> nat \<Rightarrow> message_buffer \<Rightarrow> (u64 \<times> message_buffer) option" where
  "ReadLong hack len b =
     (if len \<le> 32 then
        (case Read hack len b of None \<Rightarrow> None | Some (v, b') \<Rightarrow> Some (ucast v, b'))
      else
        (case Read hack 32 b of
           None \<Rightarrow> None
         | Some (lo, b') \<Rightarrow>
             case Read hack (len - 32) b' of
               None \<Rightarrow> None
             | Some (hi, b'') \<Rightarrow> Some (ucast lo OR push_bit 32 (ucast hi), b'')))"

subsection \<open>Writing\<close>

text \<open>The \<open>do ... while (v12)\<close> loop over the bytes after the first.\<close>

fun write_loop :: "nat \<Rightarrow> nat \<Rightarrow> u32 \<Rightarrow> u32 \<Rightarrow> u8 list \<Rightarrow> u8 list option" where
  "write_loop 0 i v9 v10 d = Some d"
| "write_loop (Suc n) i v9 v10 d =
     (if i < length d
      then write_loop n (i + 1) (push_bit 8 v9) (push_bit 8 v10)
             (d[i := ucast (drop_bit 24 v9) OR (d ! i AND NOT (ucast (drop_bit 24 v10)))])
      else None)"

definition WriteBitsSingle :: "bool \<Rightarrow> u32 \<Rightarrow> nat \<Rightarrow> message_buffer \<Rightarrow> (bool \<times> message_buffer) option" where
  "WriteBitsSingle hack a2 length0 b =
     (let len = hack_length hack length0 in
      if m_curBit b + len > m_maxBit b then Some (False, b)
      else if len = 0 \<or> len > 32 then None
      else
        let v4 = m_curBit b div 8; v5 = m_curBit b mod 8;
            v7 = push_bit (32 - len) a2; ones = push_bit (32 - len) (- 1 :: u32);
            v9 = push_bit (8 - v5) v7; v10 = push_bit (8 - v5) ones in
        if v4 \<ge> length (m_data b) then None
        else
          let d = (m_data b)[v4 := ucast (drop_bit v5 (drop_bit 24 v7))
                     OR (m_data b ! v4 AND NOT (ucast (drop_bit v5 (drop_bit 24 ones))))] in
          case (if 8 - v5 < len then write_loop ((len - (8 - v5) - 1) div 8 + 1) (v4 + 1) v9 v10 d else Some d) of
            None \<Rightarrow> None
          | Some d' \<Rightarrow> Some (True, b\<lparr>m_data := d', m_curBit := m_curBit b + len\<rparr>))"

definition WriteBit :: "u8 \<Rightarrow> message_buffer \<Rightarrow> bool \<times> message_buffer" where
  "WriteBit bt b =
     (let startIdx = m_curBit b div 8 in
      if startIdx \<ge> length (m_data b) then (False, b)
      else let shift = 7 - m_curBit b mod 8 in
        (True, b\<lparr>m_data := (m_data b)[startIdx := (m_data b ! startIdx AND NOT (push_bit shift 1)) OR push_bit shift bt],
                 m_curBit := m_curBit b + 1\<rparr>))"

text \<open>\<open>Write<T>(length, data)\<close> and \<open>WriteSigned\<close>; \<open>data < 0\<close> is the sign bit of the word.\<close>

definition Write :: "bool \<Rightarrow> nat \<Rightarrow> u32 \<Rightarrow> message_buffer \<Rightarrow> message_buffer option" where
  "Write hack len data b = map_option snd (WriteBitsSingle hack data len b)"

definition WriteSigned :: "bool \<Rightarrow> nat \<Rightarrow> u32 \<Rightarrow> message_buffer \<Rightarrow> message_buffer option" where
  "WriteSigned hack len data b =
     (let sign = (if sint data < 0 then 1 else 0); signEx = (if sint data < 0 then 0xFFFFFFFF else 0);
          d = data XOR signEx in
      case Write hack 1 sign b of None \<Rightarrow> None | Some b' \<Rightarrow> Write hack (len - 1) d b')"

subsection \<open>Positions\<close>

definition RequireLength :: "nat \<Rightarrow> message_buffer \<Rightarrow> bool" where
  "RequireLength len b \<longleftrightarrow> m_curBit b + len < m_maxBit b"

definition Align :: "message_buffer \<Rightarrow> message_buffer" where
  "Align b = (let r = m_curBit b mod 8 in if r \<noteq> 0 then b\<lparr>m_curBit := m_curBit b + (8 - r)\<rparr> else b)"

definition SetCurrentBit :: "nat \<Rightarrow> message_buffer \<Rightarrow> message_buffer" where
  "SetCurrentBit bt b = b\<lparr>m_curBit := bt\<rparr>"

definition IsAtEnd :: "message_buffer \<Rightarrow> bool" where
  "IsAtEnd b \<longleftrightarrow> m_curBit b \<ge> m_maxBit b"

definition GetDataLength :: "message_buffer \<Rightarrow> nat" where
  "GetDataLength b = (let leftoverBit = (if m_curBit b mod 8 \<noteq> 0 then 1 else 0) in m_curBit b div 8 + leftoverBit)"

text \<open>
  The allocation of \<open>Clone\<close>: the number of bits it copies and the number of bytes it allocates for
  them. \<open>+\<close> binds tighter than \<open>?:\<close>, so the whole sum is the condition.
\<close>

definition Clone_sizes :: "message_buffer \<Rightarrow> nat \<times> nat" where
  "Clone_sizes b =
     (let s = m_maxBit b - min (m_curBit b) (m_maxBit b);
          c = (if s div 8 + (if s mod 8 \<noteq> 0 then 1 else 0) \<noteq> 0 then 1 else 0) in (s, c))"

subsection \<open>The specification: a buffer is a sequence of bits\<close>

text \<open>Bit \<open>i\<close> of a buffer, most significant bit of each byte first.\<close>

definition bit_at :: "u8 list \<Rightarrow> nat \<Rightarrow> bool" where
  "bit_at d i \<longleftrightarrow> bit (d ! (i div 8)) (7 - i mod 8)"

definition buffer_ok :: "message_buffer \<Rightarrow> bool" where
  "buffer_ok b \<longleftrightarrow> m_maxBit b = 8 * length (m_data b)"

lemma write_loop_spec:
  assumes "i + n \<le> length d"
  shows "\<exists>d'. write_loop n i v9 v10 d = Some d' \<and> length d' = length d
    \<and> (\<forall>k<length d. d' ! k = (if i \<le> k \<and> k < i + n
          then ucast (drop_bit 24 (push_bit (8 * (k - i)) v9)) OR
            (d ! k AND NOT (ucast (drop_bit 24 (push_bit (8 * (k - i)) v10))))
          else d ! k))"
  using assms
proof (induction n arbitrary: i v9 v10 d)
  case (Suc n)
  let ?d = "d[i := ucast (drop_bit 24 v9) OR (d ! i AND NOT (ucast (drop_bit 24 v10)))]"
  have i: "i < length d" using Suc.prems by simp
  obtain d' where d': "write_loop n (i + 1) (push_bit 8 v9) (push_bit 8 v10) ?d = Some d'"
      "length d' = length d"
      "\<forall>k<length d. d' ! k = (if i + 1 \<le> k \<and> k < i + 1 + n
          then ucast (drop_bit 24 (push_bit (8 * (k - (i + 1))) (push_bit 8 v9))) OR
            (?d ! k AND NOT (ucast (drop_bit 24 (push_bit (8 * (k - (i + 1))) (push_bit 8 v10)))))
          else ?d ! k)"
    using Suc.IH [of "i + 1" ?d "push_bit 8 v9" "push_bit 8 v10"] Suc.prems by auto
  have step: "push_bit (8 * (k - (i + 1))) (push_bit 8 v) = push_bit (8 * (k - i)) v" if "i + 1 \<le> k"
    for k and v :: u32
  proof -
    have "8 * (k - (i + 1)) + 8 = 8 * (k - i)" using that by simp
    then show ?thesis by (simp only: push_bit_push_bit)
  qed
  have "d' ! k = (if i \<le> k \<and> k < i + Suc n
      then ucast (drop_bit 24 (push_bit (8 * (k - i)) v9)) OR
        (d ! k AND NOT (ucast (drop_bit 24 (push_bit (8 * (k - i)) v10))))
      else d ! k)" if "k < length d" for k
  proof (cases "i + 1 \<le> k \<and> k < i + 1 + n")
    case True
    then have "d' ! k = ucast (drop_bit 24 (push_bit (8 * (k - i)) v9)) OR
        (?d ! k AND NOT (ucast (drop_bit 24 (push_bit (8 * (k - i)) v10))))"
      using d'(3) [rule_format, OF that] by (simp only: True if_True simp_thms step)
    with True show ?thesis by simp
  next
    case False
    have "d' ! k = ?d ! k" using d'(3) [rule_format, OF that] by (simp only: False if_False)
    with False show ?thesis by (cases "k = i") (auto simp: i)
  qed
  with d' i show ?case by simp
qed auto

subsection \<open>The bits that are written\<close>

text \<open>
  Byte \<open>j\<close> of the 40-bit window that \<open>v5\<close> and the two shifted words stand for: bit \<open>b\<close> of that byte is
  bit \<open>24 + b + v5 - 8 * j\<close> of the unshifted word.
\<close>

definition window_byte :: "u32 \<Rightarrow> nat \<Rightarrow> nat \<Rightarrow> u8" where
  "window_byte v v5 j = (if j = 0 then ucast (drop_bit v5 (drop_bit 24 v))
     else ucast (drop_bit 24 (push_bit (8 * (j - 1)) (push_bit (8 - v5) v))))"

lemma bit_window_byte:
  assumes "v5 < 8" "b < 8"
  shows "bit (window_byte v v5 j) b \<longleftrightarrow> 8 * j \<le> 24 + b + v5 \<and> bit v (24 + b + v5 - 8 * j)"
proof (cases "j = 0")
  case True
  then show ?thesis
    using assms by (auto simp: window_byte_def bit_simps algebra_simps dest: bit_imp_le_length)
next
  case False
  then have "8 * (j - 1) + (8 - v5) + v5 = 8 * j" using assms by simp
  then have e: "24 + b - 8 * (j - 1) - (8 - v5) = 24 + b + v5 - 8 * j"
    "8 * (j - 1) \<le> 24 + b \<and> 8 - v5 \<le> 24 + b - 8 * (j - 1) \<longleftrightarrow> 8 * j \<le> 24 + b + v5"
    using assms by linarith+
  have "bit (window_byte v v5 j) b \<longleftrightarrow>
      8 * (j - 1) \<le> 24 + b \<and> 8 - v5 \<le> 24 + b - 8 * (j - 1) \<and> bit v (24 + b - 8 * (j - 1) - (8 - v5))"
    using False assms by (auto simp: window_byte_def bit_simps add.commute dest: bit_imp_le_length)
  with e show ?thesis by metis
qed

lemma WriteBitsSingle_bytes:
  fixes a2 :: u32
  assumes ok: "buffer_ok b" and len: "1 \<le> len" "len \<le> 32" "hack_length hack n = len"
    and fit: "m_curBit b + len \<le> m_maxBit b"
  defines "v4 \<equiv> m_curBit b div 8" and "v5 \<equiv> m_curBit b mod 8"
    and "val \<equiv> push_bit (32 - len) a2" and "ones \<equiv> push_bit (32 - len) (- 1 :: u32)"
  obtains d' where "WriteBitsSingle hack a2 n b
      = Some (True, b\<lparr>m_data := d', m_curBit := m_curBit b + len\<rparr>)"
    "length d' = length (m_data b)"
    "\<And>k. k < length (m_data b) \<Longrightarrow> v4 \<le> k \<Longrightarrow> k \<le> (m_curBit b + len - 1) div 8 \<Longrightarrow>
       d' ! k = window_byte val v5 (k - v4) OR (m_data b ! k AND NOT (window_byte ones v5 (k - v4)))"
    "\<And>k. k < length (m_data b) \<Longrightarrow> \<not> (v4 \<le> k \<and> k \<le> (m_curBit b + len - 1) div 8) \<Longrightarrow> d' ! k = m_data b ! k"
proof -
  let ?d = "m_data b" and ?e = "(m_curBit b + len - 1) div 8"
  have cur: "m_curBit b = 8 * v4 + v5" "v5 < 8" by (simp_all add: v4_def v5_def)
  have e: "?e < length ?d" "v4 \<le> ?e"
    using ok fit len by (auto simp: buffer_ok_def cur)
  let ?new = "?d[v4 := window_byte val v5 0 OR (?d ! v4 AND NOT (window_byte ones v5 0))]"
  let ?n = "if 8 - v5 < len then (len - (8 - v5) - 1) div 8 + 1 else 0"
  have n: "v4 + 1 + ?n = ?e + 1"
  proof (cases "8 - v5 < len")
    case True
    have div: "(8 * (v4 + 1) + x) div 8 = v4 + 1 + x div 8" for x by simp
    have "m_curBit b + len - 1 = 8 * (v4 + 1) + (len - (8 - v5) - 1)"
      using True cur by simp
    then have "?e = v4 + 1 + (len - (8 - v5) - 1) div 8" by (simp only: div)
    then show ?thesis using True by simp
  next
    case False
    then have "m_curBit b + len - 1 < 8 * v4 + 8" "8 * v4 \<le> m_curBit b + len - 1"
      using cur len by simp_all
    then have "?e = v4" by (simp add: div_nat_eqI)
    with False show ?thesis by simp
  qed
  have "v4 + 1 + ?n \<le> length ?new" using n e by simp
  from write_loop_spec [OF this, of "push_bit (8 - v5) val" "push_bit (8 - v5) ones"]
  obtain d' where d': "write_loop ?n (v4 + 1) (push_bit (8 - v5) val) (push_bit (8 - v5) ones) ?new = Some d'"
      "length d' = length ?d"
      "\<And>k. k < length ?d \<Longrightarrow> d' ! k = (if v4 + 1 \<le> k \<and> k < v4 + 1 + ?n
          then ucast (drop_bit 24 (push_bit (8 * (k - (v4 + 1))) (push_bit (8 - v5) val))) OR
            (?new ! k AND NOT (ucast (drop_bit 24 (push_bit (8 * (k - (v4 + 1))) (push_bit (8 - v5) ones)))))
          else ?new ! k)"
    by auto
  have "WriteBitsSingle hack a2 n b = Some (True, b\<lparr>m_data := d', m_curBit := m_curBit b + len\<rparr>)"
  proof -
    have "(if 8 - v5 < len
        then write_loop ((len - (8 - v5) - 1) div 8 + 1) (v4 + 1) (push_bit (8 - v5) val) (push_bit (8 - v5) ones) ?new
        else Some ?new) = Some d'"
      using d'(1) by (cases "8 - v5 < len") auto
    moreover have "v4 < length ?d" using e by simp
    moreover have w0: "ucast (drop_bit v5 (drop_bit 24 v)) = window_byte v v5 0" for v
      by (simp add: window_byte_def)
    ultimately show ?thesis
      using fit len unfolding WriteBitsSingle_def Let_def len(3)
      unfolding v4_def [symmetric] v5_def [symmetric] val_def [symmetric] ones_def [symmetric] w0
      by simp
  qed
  moreover have "d' ! k = window_byte val v5 (k - v4) OR (?d ! k AND NOT (window_byte ones v5 (k - v4)))"
    if k: "k < length ?d" "v4 \<le> k" "k \<le> ?e" for k
  proof (cases "k = v4")
    case True
    have "d' ! v4 = window_byte val v5 0 OR (?d ! v4 AND NOT (window_byte ones v5 0))"
      using d'(3) [of v4] e by simp
    then show ?thesis unfolding True by (simp only: diff_self_eq_0)
  next
    case False
    then have c: "v4 + 1 \<le> k \<and> k < v4 + 1 + ?n" using k n by simp
    have "?new ! k = ?d ! k" using False by simp
    with d'(3) [OF k(1)] c False k(2) show ?thesis
      by (simp only: c if_True simp_thms) (simp add: window_byte_def)
  qed
  moreover have "d' ! k = ?d ! k" if k: "k < length ?d" "\<not> (v4 \<le> k \<and> k \<le> ?e)" for k
  proof -
    have "\<not> (v4 + 1 \<le> k \<and> k < v4 + 1 + ?n)" "k \<noteq> v4" using k n e by auto
    with d'(3) [OF k(1)] show ?thesis by (simp only: if_False) simp
  qed
  ultimately show thesis using that d'(2) by blast
qed

lemma len_num32: "LENGTH(32) = 32"
  by simp

lemma window_index:
  assumes "k = v4 + j" "m < 8" "v5 < (8 :: nat)" "1 \<le> len" "len \<le> 32"
  shows "8 * j \<le> 24 + (7 - m) + v5 \<and> 24 + (7 - m) + v5 - 8 * j < 32 \<and> 32 - len \<le> 24 + (7 - m) + v5 - 8 * j
      \<longleftrightarrow> 8 * v4 + v5 \<le> 8 * k + m \<and> 8 * k + m < 8 * v4 + v5 + len"
    "8 * v4 + v5 \<le> 8 * k + m \<Longrightarrow> 8 * k + m < 8 * v4 + v5 + len
      \<Longrightarrow> 24 + (7 - m) + v5 - 8 * j - (32 - len) = 8 * v4 + v5 + len - 1 - (8 * k + m)"
  using assms by auto

text \<open>
  \<open>WriteBitsSingle\<close> stores the low \<open>len\<close> bits of the value, most significant first, and changes no
  other bit of the buffer.
\<close>

lemma WriteBitsSingle_bits:
  fixes a2 :: u32
  assumes ok: "buffer_ok b" and len: "1 \<le> len" "len \<le> 32" "hack_length hack n = len"
    and fit: "m_curBit b + len \<le> m_maxBit b"
  obtains d' where "WriteBitsSingle hack a2 n b
      = Some (True, b\<lparr>m_data := d', m_curBit := m_curBit b + len\<rparr>)"
    "length d' = length (m_data b)"
    "\<And>i. i < 8 * length (m_data b) \<Longrightarrow>
       bit_at d' i = (if m_curBit b \<le> i \<and> i < m_curBit b + len then bit a2 (m_curBit b + len - 1 - i)
         else bit_at (m_data b) i)"
proof -
  let ?v4 = "m_curBit b div 8" and ?v5 = "m_curBit b mod 8" and ?e = "(m_curBit b + len - 1) div 8"
  let ?val = "push_bit (32 - len) a2" and ?ones = "push_bit (32 - len) (- 1 :: u32)"
  obtain d' where d': "WriteBitsSingle hack a2 n b = Some (True, b\<lparr>m_data := d', m_curBit := m_curBit b + len\<rparr>)"
    "length d' = length (m_data b)"
    "\<And>k. k < length (m_data b) \<Longrightarrow> ?v4 \<le> k \<Longrightarrow> k \<le> ?e \<Longrightarrow>
       d' ! k = window_byte ?val ?v5 (k - ?v4) OR (m_data b ! k AND NOT (window_byte ?ones ?v5 (k - ?v4)))"
    "\<And>k. k < length (m_data b) \<Longrightarrow> \<not> (?v4 \<le> k \<and> k \<le> ?e) \<Longrightarrow> d' ! k = m_data b ! k"
    by (rule WriteBitsSingle_bytes [OF ok len fit, of a2]) (rule that, assumption+)
  have "bit_at d' i = (if m_curBit b \<le> i \<and> i < m_curBit b + len then bit a2 (m_curBit b + len - 1 - i)
         else bit_at (m_data b) i)" if i: "i < 8 * length (m_data b)" for i
  proof -
    let ?k = "i div 8" and ?b = "7 - i mod 8" and ?j = "i div 8 - ?v4"
    have k: "?k < length (m_data b)" using i by auto
    have cur: "m_curBit b = 8 * ?v4 + ?v5" "?v5 < 8" by simp_all
    have pos: "i + ?b = 8 * ?k + 7" "?b < 8"
      using mult_div_mod_eq [of 8 i] mod_less_divisor [of 8 i] by linarith+
    show ?thesis
    proof (cases "?v4 \<le> ?k \<and> ?k \<le> ?e")
      case False
      then have "\<not> (m_curBit b \<le> i \<and> i < m_curBit b + len)"
      proof (rule contrapos_nn)
        assume "m_curBit b \<le> i \<and> i < m_curBit b + len"
        then show "?v4 \<le> ?k \<and> ?k \<le> ?e" by (auto intro!: div_le_mono)
      qed
      then show ?thesis using d'(4) [OF k False] by (simp only: if_False bit_at_def)
    next
      case True
      have win: "bit (window_byte (push_bit (32 - len) w) ?v5 ?j) ?b
          \<longleftrightarrow> m_curBit b \<le> i \<and> i < m_curBit b + len \<and> bit w (m_curBit b + len - 1 - i)" for w :: u32
      proof -
        have k: "?k = ?v4 + ?j" "i mod 8 < 8" using True by simp_all
        note w = window_index [OF k cur(2) len(1,2)]
        have i8: "8 * ?k + i mod 8 = i" by simp
        have A: "8 * ?j \<le> 24 + ?b + ?v5 \<and> 24 + ?b + ?v5 - 8 * ?j < 32 \<and> 32 - len \<le> 24 + ?b + ?v5 - 8 * ?j
            \<longleftrightarrow> m_curBit b \<le> i \<and> i < m_curBit b + len"
          using w(1) unfolding i8 cur(1) [symmetric] .
        have B: "m_curBit b \<le> i \<Longrightarrow> i < m_curBit b + len
            \<Longrightarrow> 24 + ?b + ?v5 - 8 * ?j - (32 - len) = m_curBit b + len - 1 - i"
          using w(2) unfolding i8 cur(1) [symmetric] .
        show ?thesis
          unfolding bit_window_byte [OF cur(2) pos(2)] bit_push_bit_iff possible_bit_word len_num32
          using A B by metis
      qed
      have "bit (- 1 :: u32) (m_curBit b + len - 1 - i)" if "m_curBit b \<le> i" "i < m_curBit b + len"
        using that len by simp
      with win [of "- 1"] have ones: "bit (window_byte ?ones ?v5 ?j) ?b \<longleftrightarrow> m_curBit b \<le> i \<and> i < m_curBit b + len"
        by blast
      show ?thesis
        using True d'(3) [OF k] win [of a2] ones pos(2)
        by (auto simp: bit_at_def bit_or_iff bit_and_iff bit_not_iff)
    qed
  qed
  with d'(1,2) show thesis by (rule that)
qed

subsection \<open>The bits that are read\<close>

definition read_inv :: "u8 list \<Rightarrow> nat \<Rightarrow> nat \<Rightarrow> nat \<Rightarrow> u32 \<Rightarrow> bool" where
  "read_inv d start shift t r \<longleftrightarrow> (\<forall>k. bit r k \<longleftrightarrow> k < 32 \<and> shift \<le> k \<and> k < 8 * (t + 1)
     \<and> bit_at d (8 * start + shift + 8 * (t + 1) - 1 - k))"

lemma bit_at_byte: "b < 8 \<Longrightarrow> bit_at d (8 * k + 7 - b) = bit (d ! k) b"
proof -
  assume b: "b < 8"
  then have e: "8 * k + 7 - b = 8 * k + (7 - b)" by simp
  have "(8 * k + (7 - b)) div 8 = k" "(8 * k + (7 - b)) mod 8 = 7 - b" by simp_all
  then show ?thesis using b unfolding bit_at_def e by simp
qed

lemma read_inv_step:
  assumes inv: "read_inv d start shift t r" and shift: "shift < 8"
  shows "read_inv d start shift (t + 1) (push_bit shift (ucast (d ! (start + t + 1))) OR push_bit 8 r)"
  unfolding read_inv_def
proof
  fix k
  let ?pos = "8 * start + shift + 8 * (t + 1 + 1) - 1 - k"
  have low: "bit (d ! (start + t + 1)) (k - shift) = bit_at d ?pos" if "shift \<le> k" "k < 8 + shift"
  proof -
    have "?pos = 8 * (start + t + 1) + 7 - (k - shift)" using that by simp
    then show ?thesis using bit_at_byte [of "k - shift" d "start + t + 1"] that by simp
  qed
  have high: "bit r (k - 8) = bit_at d ?pos" if "8 + shift \<le> k" "k < 32" "k < 8 * (t + 2)"
  proof -
    have "?pos = 8 * start + shift + 8 * (t + 1) - 1 - (k - 8)"
      "k - 8 < 32 \<and> shift \<le> k - 8 \<and> k - 8 < 8 * (t + 1)" using that by auto
    then show ?thesis using inv unfolding read_inv_def by metis
  qed
  have rz: "\<not> bit r (k - 8)" if "k < 8 + shift" "8 \<le> k"
  proof -
    have "\<not> shift \<le> k - 8" using that by simp
    then show ?thesis using inv unfolding read_inv_def by blast
  qed
  show "bit (push_bit shift (ucast (d ! (start + t + 1))) OR push_bit 8 r :: u32) k \<longleftrightarrow>
      k < 32 \<and> shift \<le> k \<and> k < 8 * (t + 1 + 1) \<and> bit_at d ?pos"
  proof (cases "k < 8 + shift")
    case True
    then show ?thesis using low rz shift by (auto simp: bit_simps)
  next
    case False
    have "\<not> bit (d ! (start + t + 1)) (k - shift)" using False by (auto dest: bit_imp_le_length)
    moreover have "bit r (k - 8) \<Longrightarrow> k - 8 < 8 * (t + 1)" using inv by (simp add: read_inv_def)
    ultimately show ?thesis using False high by (auto simp: bit_simps)
  qed
qed

lemma read_loop_spec:
  assumes "read_inv d start shift t r" "shift < 8" "start + t + n < length d"
  shows "\<exists>r'. read_loop d n (start + t + 1) shift r = Some (r', start + t + n + 1)
    \<and> read_inv d start shift (t + n) r'"
  using assms
proof (induction n arbitrary: t r)
  case (Suc n)
  from Suc.IH [OF read_inv_step [OF Suc.prems(1,2)] Suc.prems(2)] Suc.prems(3)
  show ?case by auto
qed simp

text \<open>The number of further bytes, and the final shift.\<close>

lemma read_counts:
  assumes "1 \<le> len" "len \<le> (32 :: nat)"
  defines "n \<equiv> if len > 8 then (len - 9) div 8 + 1 else 0"
  shows "len \<le> 8 * (n + 1)" "8 * n < len" "(len + 7) div 8 * 8 mod 256 = 8 * (n + 1)"
proof -
  have d: "(len - 9) div 8 * 8 + (len - 9) mod 8 = len - 9" "(len - 9) mod 8 < 8" by simp_all
  show 1: "len \<le> 8 * (n + 1)" "8 * n < len"
    using d assms(1) by (auto simp: n_def)
  have "(len + 7) div 8 = n + 1" using 1 by (intro div_nat_eqI) simp_all
  moreover have "n \<le> 3" using 1 assms(2) by simp
  ultimately show "(len + 7) div 8 * 8 mod 256 = 8 * (n + 1)" by simp
qed

lemma bit_leftover:
  "shift < 8 \<Longrightarrow> bit (ucast (drop_bit (8 - shift) (x :: u8)) :: u32) k \<longleftrightarrow> k < shift \<and> bit x (k + 8 - shift)"
  by (auto simp: bit_simps algebra_simps dest: bit_imp_le_length)

lemma read_inv_first: "shift < 8 \<Longrightarrow> read_inv d start shift 0 (ucast (push_bit shift (d ! start)))"
  unfolding read_inv_def
proof
  fix k assume shift: "shift < 8"
  have "8 * start + shift + 8 * (0 + 1) - 1 - k = 8 * start + 7 - (k - shift)" if "shift \<le> k" "k < 8"
    using that by simp
  then show "bit (ucast (push_bit shift (d ! start)) :: u32) k \<longleftrightarrow>
      k < 32 \<and> shift \<le> k \<and> k < 8 * (0 + 1) \<and> bit_at d (8 * start + shift + 8 * (0 + 1) - 1 - k)"
    using bit_at_byte [of "k - shift" d start] by (auto simp: bit_simps dest: bit_imp_le_length)
qed

text \<open>
  \<open>ReadBitsSingle\<close> returns the next \<open>len\<close> bits, most significant first, and advances by \<open>len\<close>; it
  never reads outside the buffer.
\<close>

lemma ReadBitsSingle_bits:
  assumes ok: "buffer_ok b" and len: "1 \<le> len" "len \<le> 32" "hack_length hack n0 = len"
    and fit: "m_curBit b + len \<le> m_maxBit b"
  obtains v where "ReadBitsSingle hack n0 b = Some (Some v, b\<lparr>m_curBit := m_curBit b + len\<rparr>)"
    "\<And>k. bit v k \<longleftrightarrow> k < len \<and> bit_at (m_data b) (m_curBit b + len - 1 - k)"
proof -
  let ?d = "m_data b" and ?start = "m_curBit b div 8" and ?shift = "m_curBit b mod 8"
  let ?n = "if len > 8 then (len - 9) div 8 + 1 else 0"
  have c: "len \<le> 8 * (?n + 1)" "8 * ?n < len" "(len + 7) div 8 * 8 mod 256 = 8 * (?n + 1)"
    using read_counts [OF len(1,2)] by simp_all
  obtain n where n: "n = ?n" by blast
  note c = c [folded n]
  obtain start shift where ss: "start = ?start" "shift = ?shift" by blast
  have cur: "m_curBit b = 8 * start + shift" "shift < 8" by (simp_all add: ss)
  have size: "m_curBit b + len \<le> 8 * length ?d" using ok fit by (simp add: buffer_ok_def)
  then have idx: "start + n < length ?d" using c(2) cur by simp
  obtain r where r: "read_loop ?d n (start + 1) shift (ucast (push_bit shift (?d ! start))) = Some (r, start + n + 1)"
      "read_inv ?d start shift n r"
    using read_loop_spec [OF read_inv_first [OF cur(2), of ?d start] cur(2), of n] idx by auto
  let ?left = "ucast (drop_bit (8 - shift) (if start + n + 1 < length ?d then ?d ! (start + n + 1) else 0) :: u8) :: u32"
  let ?r2 = "if shift \<noteq> 0 then r OR ?left else r" and ?down = "8 * (n + 1) - len"
  let ?v = "drop_bit ?down ?r2"
  have bits: "bit ?r2 k \<longleftrightarrow> bit r k \<or> bit ?left k" for k
    by (simp add: bit_or_iff bit_leftover [OF cur(2)])
  have small: "\<not> 32 \<le> 8 + 8 * n - len" using c(2) by linarith
  have "ReadBitsSingle hack n0 b = Some (Some ?v, b\<lparr>m_curBit := m_curBit b + len\<rparr>)"
    using fit idx r(1) c small unfolding ReadBitsSingle_def Let_def len(3) n [symmetric] ss [symmetric]
    by simp
  moreover have "bit ?v k \<longleftrightarrow> k < len \<and> bit_at ?d (m_curBit b + len - 1 - k)" for k
  proof (cases "k < len")
    case False
    then have "\<not> ?down + k < 8 * (n + 1)" "\<not> ?down + k < shift" using c cur(2) by simp_all
    then have "\<not> bit r (?down + k)" "\<not> bit ?left (?down + k)"
      using r(2) by (simp_all only: read_inv_def bit_leftover [OF cur(2)] simp_thms)
    with False show ?thesis using bits [of "?down + k"] by (simp only: bit_drop_bit_eq comp_def simp_thms)
  next
    case True
    let ?q = "?down + k"
    have n3: "n \<le> 3" using c(2) len(2) by linarith
    have q2: "?q < 8 * (n + 1)" using True c(1,2) by linarith
    have q: "?q < 32" "?q < 8 * (n + 1)"
      "8 * start + shift + 8 * (n + 1) - 1 - ?q = m_curBit b + len - 1 - k"
    proof -
      show "?q < 32" by (rule less_le_trans [OF q2]) (use n3 in simp)
      show "8 * start + shift + 8 * (n + 1) - 1 - ?q = m_curBit b + len - 1 - k"
        using True c(1,2) cur by linarith
    qed (rule q2)
    have "bit r ?q \<or> bit ?left ?q \<longleftrightarrow> bit_at ?d (m_curBit b + len - 1 - k)"
    proof (cases "shift \<le> ?q")
      case True
      then have "\<not> bit ?left ?q" by (simp add: bit_leftover [OF cur(2)])
      moreover have "bit r ?q \<longleftrightarrow> bit_at ?d (m_curBit b + len - 1 - k)"
        using r(2) True q unfolding read_inv_def by metis
      ultimately show ?thesis by simp
    next
      case False
      then have nr: "\<not> bit r ?q" using r(2) unfolding read_inv_def by blast
      have pos: "m_curBit b + len - 1 - k = 8 * (start + n + 1) + 7 - (?q + 8 - shift)" "?q + 8 - shift < 8"
        using False q cur(2) by simp_all
      have "start + n + 1 < length ?d"
        using pos size True by simp
      then have "bit ?left ?q \<longleftrightarrow> bit_at ?d (m_curBit b + len - 1 - k)"
        using False bit_at_byte [OF pos(2), of ?d "start + n + 1"] pos(1)
        by (simp add: bit_leftover [OF cur(2)])
      with nr show ?thesis by simp
    qed
    with True bits [of ?q] show ?thesis by (simp only: bit_drop_bit_eq comp_def simp_thms)
  qed
  ultimately show thesis by (rule that)
qed

subsection \<open>Round trips\<close>

lemma ReadBitsSingle_stored:
  assumes "buffer_ok b" "1 \<le> len" "len \<le> 32" "hack_length hack n = len" "m_curBit b + len \<le> m_maxBit b"
    and stored: "\<And>k. k < len \<Longrightarrow> bit_at (m_data b) (m_curBit b + len - 1 - k) = bit a k"
  shows "ReadBitsSingle hack n b = Some (Some (take_bit len a), b\<lparr>m_curBit := m_curBit b + len\<rparr>)"
proof -
  obtain v where v: "ReadBitsSingle hack n b = Some (Some v, b\<lparr>m_curBit := m_curBit b + len\<rparr>)"
    "\<And>k. bit v k \<longleftrightarrow> k < len \<and> bit_at (m_data b) (m_curBit b + len - 1 - k)"
    by (rule ReadBitsSingle_bits [OF assms(1-5)]) (rule that, assumption+)
  have "v = take_bit len a"
    by (rule bit_word_eqI) (use v(2) stored in \<open>auto simp: bit_take_bit_iff\<close>)
  with v(1) show ?thesis by simp
qed

text \<open>What a write leaves behind for later reads and writes.\<close>

lemma WriteBitsSingle_ok:
  fixes a :: u32
  assumes "buffer_ok b" "1 \<le> len" "len \<le> 32" "hack_length hack n = len" "m_curBit b + len \<le> m_maxBit b"
  obtains b' where "WriteBitsSingle hack a n b = Some (True, b')" "buffer_ok b'"
    "m_curBit b' = m_curBit b + len" "m_maxBit b' = m_maxBit b" "length (m_data b') = length (m_data b)"
    "\<And>k. k < len \<Longrightarrow> bit_at (m_data b') (m_curBit b + len - 1 - k) = bit a k"
    "\<And>i. i < m_maxBit b \<Longrightarrow> i < m_curBit b \<or> m_curBit b + len \<le> i \<Longrightarrow> bit_at (m_data b') i = bit_at (m_data b) i"
proof -
  obtain d' where d': "WriteBitsSingle hack a n b = Some (True, b\<lparr>m_data := d', m_curBit := m_curBit b + len\<rparr>)"
    "length d' = length (m_data b)"
    "\<And>i. i < 8 * length (m_data b) \<Longrightarrow>
       bit_at d' i = (if m_curBit b \<le> i \<and> i < m_curBit b + len then bit a (m_curBit b + len - 1 - i)
         else bit_at (m_data b) i)"
    by (rule WriteBitsSingle_bits [OF assms, of a]) (rule that, assumption+)
  have max: "m_maxBit b = 8 * length (m_data b)" using assms(1) by (simp add: buffer_ok_def)
  have "bit_at d' (m_curBit b + len - 1 - k) = bit a k" if "k < len" for k
  proof -
    let ?i = "m_curBit b + len - 1 - k"
    have "?i < 8 * length (m_data b)" "m_curBit b \<le> ?i \<and> ?i < m_curBit b + len" "m_curBit b + len - 1 - ?i = k"
      using that assms(2,5) max by auto
    then show ?thesis using d'(3) [of ?i] by (simp only: if_True simp_thms)
  qed
  moreover have "bit_at d' i = bit_at (m_data b) i"
    if "i < m_maxBit b" "i < m_curBit b \<or> m_curBit b + len \<le> i" for i
    using that max d'(3) [of i] by auto
  ultimately show thesis using that [OF d'(1)] assms(1) d'(2) by (simp add: buffer_ok_def)
qed

lemma write_read:
  fixes a :: u32
  assumes "buffer_ok b" "1 \<le> len" "len \<le> 32" "hack_length hack n = len" "m_curBit b + len \<le> m_maxBit b"
  shows "\<exists>b'. WriteBitsSingle hack a n b = Some (True, b')
    \<and> ReadBitsSingle hack n (SetCurrentBit (m_curBit b) b') = Some (Some (take_bit len a), b')
    \<and> (\<forall>i<m_maxBit b. i < m_curBit b \<or> m_curBit b + len \<le> i \<longrightarrow> bit_at (m_data b') i = bit_at (m_data b) i)"
proof -
  obtain b' where b': "WriteBitsSingle hack a n b = Some (True, b')" "buffer_ok b'"
    "m_curBit b' = m_curBit b + len" "m_maxBit b' = m_maxBit b" "length (m_data b') = length (m_data b)"
    "\<And>k. k < len \<Longrightarrow> bit_at (m_data b') (m_curBit b + len - 1 - k) = bit a k"
    "\<And>i. i < m_maxBit b \<Longrightarrow> i < m_curBit b \<or> m_curBit b + len \<le> i \<Longrightarrow> bit_at (m_data b') i = bit_at (m_data b) i"
    by (rule WriteBitsSingle_ok [OF assms, of a]) (rule that, assumption+)
  have "ReadBitsSingle hack n (SetCurrentBit (m_curBit b) b')
      = Some (Some (take_bit len a), (SetCurrentBit (m_curBit b) b')\<lparr>m_curBit := m_curBit b + len\<rparr>)"
    using ReadBitsSingle_stored [of "SetCurrentBit (m_curBit b) b'" len hack n a] assms b'
    by (simp add: SetCurrentBit_def buffer_ok_def)
  then show ?thesis using b' by (cases b') (auto simp: SetCurrentBit_def)
qed

text \<open>\<open>WriteSigned\<close> stores the complement of a negative number, \<open>ReadSigned\<close> expects its negation.\<close>

lemma all_ones: "(0xFFFFFFFF :: u32) = - 1"
  by simp

lemma sign_word: "1 + (((data :: u32) XOR 0xFFFFFFFF) XOR - 1) = data + 1"
  unfolding all_ones by (simp add: xor.assoc)

lemma int_high_bits:
  assumes "- (2 ^ m) \<le> i" "i < 2 ^ m" "m \<le> k"
  shows "bit (i :: int) k \<longleftrightarrow> i < 0"
proof -
  have nonneg: "\<not> bit j k" if "0 \<le> j" "j < 2 ^ m" for j :: int
    using that assms(3) take_bit_int_eq_self [of j m] bit_take_bit_iff [of m j k] by simp
  show ?thesis
  proof (cases "i < 0")
    case True
    then have "\<not> bit (NOT i) k" using assms(1) by (intro nonneg) (simp_all add: not_int_def)
    with True show ?thesis by (simp add: bit_not_int_iff)
  qed (use nonneg assms(2) in auto)
qed

lemma magnitude_fits:
  fixes data :: u32
  assumes "m \<le> 31" "- (2 ^ m) \<le> sint data" "sint data < 2 ^ m"
  shows "take_bit m (data XOR (if sint data < 0 then 0xFFFFFFFF else 0)) = data XOR (if sint data < 0 then 0xFFFFFFFF else 0)"
proof (rule bit_word_eqI)
  fix k assume k: "k < LENGTH(32)"
  have "bit data k \<longleftrightarrow> sint data < 0" if "m \<le> k"
  proof -
    have "bit (sint data) k \<longleftrightarrow> bit data k" using k by (simp add: bit_sint_iff min_def)
    then show ?thesis using int_high_bits [OF assms(2,3) that] by simp
  qed
  then show "bit (take_bit m (data XOR (if sint data < 0 then 0xFFFFFFFF else 0))) k
      = bit (data XOR (if sint data < 0 then 0xFFFFFFFF else 0)) k"
    unfolding all_ones using k by (cases "m \<le> k") (auto simp: bit_take_bit_iff bit_xor_iff)
qed

lemma WriteSigned_read:
  fixes data :: u32
  assumes ok: "buffer_ok b" and len: "2 \<le> len" "len \<le> 32" and fit: "m_curBit b + len \<le> m_maxBit b"
    and range: "- (2 ^ (len - 1)) \<le> sint data" "sint data < 2 ^ (len - 1)"
  shows "\<exists>b1. WriteSigned False len data b = Some b1
    \<and> ReadSigned False len (SetCurrentBit (m_curBit b) b1)
        = Some (if sint data < 0 then data + 1 else data, b1)"
proof -
  let ?sign = "if sint data < 0 then 1 else 0 :: u32"
  let ?d = "data XOR (if sint data < 0 then 0xFFFFFFFF else 0)"
  have hl: "hack_length False n = n" for n by (simp add: hack_length_def)
  obtain b' where b': "WriteBitsSingle False ?sign 1 b = Some (True, b')" "buffer_ok b'"
    "m_curBit b' = m_curBit b + 1" "m_maxBit b' = m_maxBit b" "length (m_data b') = length (m_data b)"
    "\<And>k. k < 1 \<Longrightarrow> bit_at (m_data b') (m_curBit b + 1 - 1 - k) = bit ?sign k"
    "\<And>i. i < m_maxBit b \<Longrightarrow> i < m_curBit b \<or> m_curBit b + 1 \<le> i \<Longrightarrow> bit_at (m_data b') i = bit_at (m_data b) i"
    by (rule WriteBitsSingle_ok [OF ok, of 1 False 1 ?sign]) (use fit len hl in \<open>simp_all\<close>)
  obtain b1 where b1: "WriteBitsSingle False ?d (len - 1) b' = Some (True, b1)" "buffer_ok b1"
    "m_curBit b1 = m_curBit b' + (len - 1)" "m_maxBit b1 = m_maxBit b'" "length (m_data b1) = length (m_data b')"
    "\<And>k. k < len - 1 \<Longrightarrow> bit_at (m_data b1) (m_curBit b' + (len - 1) - 1 - k) = bit ?d k"
    "\<And>i. i < m_maxBit b' \<Longrightarrow> i < m_curBit b' \<or> m_curBit b' + (len - 1) \<le> i \<Longrightarrow> bit_at (m_data b1) i = bit_at (m_data b') i"
    by (rule WriteBitsSingle_ok [OF b'(2), of "len - 1" False "len - 1" ?d]) (use fit len hl b' in \<open>simp_all\<close>)
  have w: "WriteSigned False len data b = Some b1"
    using b'(1) b1(1) by (simp add: WriteSigned_def Write_def Let_def)
  let ?r0 = "SetCurrentBit (m_curBit b) b1"
  let ?r1 = "?r0\<lparr>m_curBit := m_curBit b + 1\<rparr>"
  have r0: "ReadBitsSingle False 1 ?r0 = Some (Some (take_bit 1 ?sign), ?r1)"
    using ReadBitsSingle_stored [of ?r0 1 False 1 ?sign] b'(3,4,6) b1(2,4,7) fit len hl
    by (simp add: SetCurrentBit_def buffer_ok_def)
  have r1: "ReadBitsSingle False (len - 1) ?r1 = Some (Some (take_bit (len - 1) ?d), b1)"
    using ReadBitsSingle_stored [of ?r1 "len - 1" False "len - 1" ?d] b'(3,4) b1(2,3,4,6) fit len hl
    by (cases b1) (simp add: SetCurrentBit_def buffer_ok_def)
  have t: "take_bit 1 ?sign = ?sign" "take_bit (len - 1) ?d = ?d"
    using magnitude_fits [of "len - 1" data] range len by simp_all
  have "ReadSigned False len ?r0 = Some (?sign + (?d XOR - ?sign), b1)"
    unfolding ReadSigned_def Read_def r0 by (simp only: option.case prod.case r1 t)
  then show ?thesis using w sign_word [of data] by (auto split: if_splits)
qed

end
