(* ===== verification/Client.thy ===== *)
theory Client
  imports Hash
begin

text \<open>
  \<open>citizen-server-impl/include/Client.h\<close> and \<open>src/Client.cpp\<close>: what the server knows of one player.
  The time of \<open>msec()\<close> is an argument in milliseconds. The user data holds the types the modelled code
  stores (\<open>AnyHolder<bool>\<close> and \<open>AnyHolder<std::string>\<close>); the sync data and the metric callbacks are
  not modelled. The \<open>OnAssign\<close> events of the setters are run by the registry, in \<open>ClientRegistry\<close>.
\<close>

datatype any_base = AnyBool bool | AnyString string

record client =
  m_guid :: string
  m_name :: string
  m_connectionToken :: string
  m_peerAddress :: string
  m_tcpEndPoint :: string
  m_peer :: "int option"
  m_firstSeen :: int
  m_lastSeen :: int
  m_identifiers :: "string list"
  m_tokens :: "string list"
  m_netId :: u32
  m_previousNetId :: u32
  m_slotId :: u32
  m_netBase :: u32
  m_hasRouted :: bool
  m_userData :: "string \<Rightarrow> any_base option"
  m_principals :: "string list"
  m_dropping :: bool

definition Client_make :: "string \<Rightarrow> int \<Rightarrow> client" where
  "Client_make guid now =
     \<lparr>m_guid = guid, m_name = [], m_connectionToken = [], m_peerAddress = [], m_tcpEndPoint = [], m_peer = None,
      m_firstSeen = now, m_lastSeen = 0, m_identifiers = [], m_tokens = [], m_netId = 0xFFFF,
      m_previousNetId = 0xFFFF, m_slotId = - 1, m_netBase = - 1, m_hasRouted = False, m_userData = (\<lambda>_. None),
      m_principals = [], m_dropping = False\<rparr>"

subsection \<open>Queries\<close>

definition HasNetId :: "client \<Rightarrow> bool" where
  "HasNetId c \<longleftrightarrow> m_netId c \<noteq> 0xFFFF"

definition HasConnected :: "client \<Rightarrow> bool" where
  "HasConnected c \<longleftrightarrow> m_netId c < 0xFFFF"

definition HasPreviousNetId :: "client \<Rightarrow> bool" where
  "HasPreviousNetId c \<longleftrightarrow> m_previousNetId c \<noteq> 0xFFFF"

definition HasSlotId :: "client \<Rightarrow> bool" where
  "HasSlotId c \<longleftrightarrow> m_slotId c \<noteq> 0xFFFFFFFF"

definition GetPeer :: "client \<Rightarrow> int" where
  "GetPeer c = (case m_peer c of Some p \<Rightarrow> p | None \<Rightarrow> 0)"

definition GetSecondsOnline :: "client \<Rightarrow> int" where
  "GetSecondsOnline c = (m_lastSeen c - m_firstSeen c) div 1000"

definition GetData :: "string \<Rightarrow> client \<Rightarrow> any_base option" where
  "GetData key c = m_userData c key"

text \<open>
  \<open>IsDead\<close>: \<open>peers\<close> gives the ping of a peer of the network library, \<open>None\<close> where it has none. The outer
  \<open>None\<close> is the \<open>std::bad_any_cast\<close> of \<open>AnyCast<bool>\<close>.
\<close>

definition CLIENT_DEAD_TIMEOUT :: int where
  "CLIENT_DEAD_TIMEOUT = 60 * 1000"

definition CLIENT_VERY_DEAD_TIMEOUT :: int where
  "CLIENT_VERY_DEAD_TIMEOUT = 120 * 1000"

definition peer_dead :: "(int \<Rightarrow> int option) \<Rightarrow> int \<Rightarrow> client \<Rightarrow> bool" where
  "peer_dead peers now c =
     (case peers (GetPeer c) of
        None \<Rightarrow> True
      | Some ping \<Rightarrow> if ping = - 1 then True else now - m_lastSeen c > CLIENT_DEAD_TIMEOUT)"

definition IsDead :: "(int \<Rightarrow> int option) \<Rightarrow> int \<Rightarrow> client \<Rightarrow> bool option" where
  "IsDead peers now c =
     (if \<not> HasConnected c then
        (case GetData ''canBeDead'' c of
           None \<Rightarrow> Some (now - m_lastSeen c > CLIENT_VERY_DEAD_TIMEOUT)
         | Some (AnyBool can) \<Rightarrow>
             Some (if \<not> can then now - m_lastSeen c > CLIENT_VERY_DEAD_TIMEOUT else peer_dead peers now c)
         | Some _ \<Rightarrow> None)
      else Some (peer_dead peers now c))"

subsection \<open>Updates\<close>

definition UpdateCachedPrincipalValues :: "client \<Rightarrow> client" where
  "UpdateCachedPrincipalValues c =
     c\<lparr>m_principals := map (\<lambda>i. ''identifier.'' @ i) (m_identifiers c) @ [''player.'' @ show_int (sint (m_netId c))]\<rparr>"

definition Client_SetPeer :: "int \<Rightarrow> string \<Rightarrow> client \<Rightarrow> client" where
  "Client_SetPeer peer address c = c\<lparr>m_peer := Some peer, m_peerAddress := address\<rparr>"

definition Client_SetNetId :: "u32 \<Rightarrow> client \<Rightarrow> client" where
  "Client_SetNetId netId c = UpdateCachedPrincipalValues (c\<lparr>m_previousNetId := m_netId c, m_netId := netId\<rparr>)"

definition Client_SetTcpEndPoint :: "string \<Rightarrow> client \<Rightarrow> client" where
  "Client_SetTcpEndPoint addr c = c\<lparr>m_tcpEndPoint := addr\<rparr>"

definition Client_SetConnectionToken :: "string \<Rightarrow> client \<Rightarrow> client" where
  "Client_SetConnectionToken token c = c\<lparr>m_connectionToken := token\<rparr>"

definition SetNetBase :: "u32 \<Rightarrow> client \<Rightarrow> client" where
  "SetNetBase netBase c = c\<lparr>m_netBase := netBase\<rparr>"

definition SetSlotId :: "u32 \<Rightarrow> client \<Rightarrow> client" where
  "SetSlotId slotId c = c\<lparr>m_slotId := slotId\<rparr>"

definition SetName :: "string \<Rightarrow> client \<Rightarrow> client" where
  "SetName name c = c\<lparr>m_name := name\<rparr>"

definition SetHasRouted :: "client \<Rightarrow> client" where
  "SetHasRouted c = c\<lparr>m_hasRouted := True\<rparr>"

definition SetDropping :: "client \<Rightarrow> client" where
  "SetDropping c = c\<lparr>m_dropping := True\<rparr>"

definition Touch :: "int \<Rightarrow> client \<Rightarrow> client" where
  "Touch now c = c\<lparr>m_lastSeen := now\<rparr>"

definition AddIdentifier :: "string \<Rightarrow> client \<Rightarrow> client" where
  "AddIdentifier identifier c = UpdateCachedPrincipalValues (c\<lparr>m_identifiers := m_identifiers c @ [identifier]\<rparr>)"

definition AddToken :: "string \<Rightarrow> client \<Rightarrow> client" where
  "AddToken token c = c\<lparr>m_tokens := m_tokens c @ [token]\<rparr>"

definition SetDataRaw :: "string \<Rightarrow> any_base option \<Rightarrow> client \<Rightarrow> client" where
  "SetDataRaw key data c = c\<lparr>m_userData := (m_userData c)(key := data)\<rparr>"

text \<open>\<open>GetPrincipals\<close>: the principals given to the iterator, up to the first that it stops at.\<close>

fun GetPrincipals_loop :: "(string \<Rightarrow> bool) \<Rightarrow> string list \<Rightarrow> string list" where
  "GetPrincipals_loop iterator [] = []"
| "GetPrincipals_loop iterator (p # ps) = (if iterator p then [p] else p # GetPrincipals_loop iterator ps)"

definition GetPrincipals :: "(string \<Rightarrow> bool) \<Rightarrow> client \<Rightarrow> string list" where
  "GetPrincipals iterator c = GetPrincipals_loop iterator (m_principals c)"

lemmas client_updates =
  UpdateCachedPrincipalValues_def Client_SetPeer_def Client_SetNetId_def Client_SetTcpEndPoint_def
  Client_SetConnectionToken_def SetNetBase_def SetSlotId_def SetName_def SetHasRouted_def SetDropping_def
  Touch_def AddIdentifier_def AddToken_def SetDataRaw_def

lemmas client_queries =
  HasNetId_def HasConnected_def HasPreviousNetId_def HasSlotId_def GetPeer_def GetData_def

text \<open>The principal of the current net id is always among those of a client that has been given one.\<close>

definition principals_current :: "client \<Rightarrow> bool" where
  "principals_current c \<longleftrightarrow> m_principals c = m_principals (UpdateCachedPrincipalValues c)"

lemma principals_current_updates:
  "principals_current (Client_SetNetId i c)" "principals_current (AddIdentifier a c)"
  "principals_current c \<Longrightarrow> principals_current (SetSlotId s c)"
  "principals_current c \<Longrightarrow> principals_current (Touch now c)"
  by (simp_all add: principals_current_def client_updates)

end
