(* ===== verification/ClientRegistry.thy ===== *)
theory ClientRegistry
  imports Client
begin

text \<open>
  \<open>citizen-server-impl/src/ClientRegistry.cpp\<close> and \<open>include/ClientRegistry.h\<close>: the registered clients
  and the alias maps over them. \<open>fx::ClientSharedPtr\<close> and \<open>fx::ClientWeakPtr\<close> are references of a client
  pool outside the repository; a reference is a natural number, \<open>m_pool\<close> holds the objects alive, and a
  weak reference locks exactly while its object is alive. Whether a weak reference to a dead object
  still tests true is the parameter \<open>expired\<close>. Each method is one atomic step; \<open>oneSync\<close> is
  \<open>IsOneSync()\<close>.
\<close>

type_synonym client_ref = nat

text \<open>The events other components subscribe to, logged in the order they fire.\<close>

datatype registry_event = OnClientCreated client_ref | OnConnectedClient client_ref | OnDrop client_ref

record client_registry =
  m_pool :: "client_ref \<Rightarrow> client option"
  m_nextRef :: client_ref
  m_clients :: "(string \<times> client_ref) list"
  m_clientsByNetId :: "u32 \<Rightarrow> client_ref option"
  m_clientsByPeer :: "int \<Rightarrow> client_ref option"
  m_clientsByTcpEndPoint :: "string \<Rightarrow> client_ref option"
  m_clientsByConnectionToken :: "string \<Rightarrow> client_ref option"
  m_clientsByConnectionTokenHash :: "u32 \<Rightarrow> client_ref option"
  m_clientsBySlotId :: "client_ref option list"
  m_hostNetId :: u16
  m_curNetId :: u16
  m_amountConnectedClients :: u32
  m_events :: "registry_event list"

definition MAX_CLIENTS :: nat where
  "MAX_CLIENTS = 2048 + 1"

definition ClientRegistry_make :: "bool \<Rightarrow> client_registry" where
  "ClientRegistry_make bigMode =
     \<lparr>m_pool = (\<lambda>_. None), m_nextRef = 0, m_clients = [], m_clientsByNetId = (\<lambda>_. None),
      m_clientsByPeer = (\<lambda>_. None), m_clientsByTcpEndPoint = (\<lambda>_. None),
      m_clientsByConnectionToken = (\<lambda>_. None), m_clientsByConnectionTokenHash = (\<lambda>_. None),
      m_clientsBySlotId = replicate (if bigMode then MAX_CLIENTS else 129) None,
      m_hostNetId = - 1, m_curNetId = 1, m_amountConnectedClients = 0, m_events = []\<rparr>"

definition weak_lock :: "client_registry \<Rightarrow> client_ref option \<Rightarrow> client_ref option" where
  "weak_lock st w = (case w of None \<Rightarrow> None | Some r \<Rightarrow> if m_pool st r \<noteq> None then Some r else None)"

definition weak_test :: "bool \<Rightarrow> client_registry \<Rightarrow> client_ref option \<Rightarrow> bool" where
  "weak_test expired st w = (case w of None \<Rightarrow> False | Some r \<Rightarrow> m_pool st r \<noteq> None \<or> expired)"

text \<open>A method of the client object that a reference points to.\<close>

definition update_client :: "(client \<Rightarrow> client) \<Rightarrow> client_ref \<Rightarrow> client_registry \<Rightarrow> client_registry" where
  "update_client f r st = st\<lparr>m_pool := (m_pool st)(r := map_option f (m_pool st r))\<rparr>"

subsection \<open>Lookups\<close>

definition GetClientByGuid :: "string \<Rightarrow> client_registry \<Rightarrow> client_ref option" where
  "GetClientByGuid guid st = map_of (m_clients st) guid"

definition GetClientByPeer :: "int \<Rightarrow> client_registry \<Rightarrow> client_ref option" where
  "GetClientByPeer peer st = weak_lock st (m_clientsByPeer st peer)"

definition GetClientByTcpEndPoint :: "string \<Rightarrow> client_registry \<Rightarrow> client_ref option" where
  "GetClientByTcpEndPoint address st = weak_lock st (m_clientsByTcpEndPoint st address)"

definition GetClientByNetID :: "u32 \<Rightarrow> client_registry \<Rightarrow> client_ref option" where
  "GetClientByNetID netId st = weak_lock st (m_clientsByNetId st netId)"

definition GetClientBySlotID :: "nat \<Rightarrow> client_registry \<Rightarrow> client_ref option" where
  "GetClientBySlotID slotId st =
     (if slotId < length (m_clientsBySlotId st) then weak_lock st (m_clientsBySlotId st ! slotId) else None)"

definition GetClientByConnectionToken :: "string \<Rightarrow> client_registry \<Rightarrow> client_ref option" where
  "GetClientByConnectionToken token st = weak_lock st (m_clientsByConnectionToken st token)"

definition HasClientByConnectionTokenHash :: "u32 \<Rightarrow> client_registry \<Rightarrow> bool" where
  "HasClientByConnectionTokenHash hash st \<longleftrightarrow> weak_lock st (m_clientsByConnectionTokenHash st hash) \<noteq> None"

text \<open>The clients that \<open>ForAllClients\<close> calls its callback on.\<close>

definition ForAllClients :: "client_registry \<Rightarrow> client_ref list" where
  "ForAllClients st =
     filter (\<lambda>r. case m_pool st r of Some c \<Rightarrow> \<not> m_dropping c | None \<Rightarrow> False) (map snd (m_clients st))"

subsection \<open>The event handlers that \<open>MakeClient\<close> connects\<close>

definition OnAssignNetId :: "client_ref \<Rightarrow> client_registry \<Rightarrow> client_registry" where
  "OnAssignNetId r st =
     (case m_pool st r of
        Some c \<Rightarrow> st\<lparr>m_clientsByNetId := (m_clientsByNetId st)(m_netId c := Some r)\<rparr>
      | None \<Rightarrow> st)"

text \<open>The slots are searched from the top; 31 is never given out.\<close>

definition free_slot :: "bool \<Rightarrow> client_registry \<Rightarrow> nat option" where
  "free_slot expired st =
     find (\<lambda>slot. slot \<noteq> 31 \<and> \<not> weak_test expired st (m_clientsBySlotId st ! slot))
       (rev [0..<length (m_clientsBySlotId st)])"

definition OnAssignPeer :: "bool \<Rightarrow> bool \<Rightarrow> client_ref \<Rightarrow> client_registry \<Rightarrow> client_registry" where
  "OnAssignPeer oneSync expired r st =
     (case m_pool st r of
        None \<Rightarrow> st
      | Some c \<Rightarrow>
          let st' = st\<lparr>m_clientsByPeer := (m_clientsByPeer st)(GetPeer c := Some r)\<rparr> in
          if \<not> oneSync then st'
          else if m_slotId c \<noteq> - 1 then st'
          else
            case free_slot expired st' of
              None \<Rightarrow> st'
            | Some slot \<Rightarrow>
                (update_client (SetSlotId (of_nat slot)) r st')
                  \<lparr>m_clientsBySlotId := (m_clientsBySlotId st')[slot := Some r]\<rparr>)"

definition OnAssignTcpEndPoint :: "client_ref \<Rightarrow> client_registry \<Rightarrow> client_registry" where
  "OnAssignTcpEndPoint r st =
     (case m_pool st r of
        Some c \<Rightarrow> st\<lparr>m_clientsByTcpEndPoint := (m_clientsByTcpEndPoint st)(m_tcpEndPoint c := Some r)\<rparr>
      | None \<Rightarrow> st)"

definition OnAssignConnectionToken :: "client_ref \<Rightarrow> client_registry \<Rightarrow> client_registry" where
  "OnAssignConnectionToken r st =
     (case m_pool st r of
        Some c \<Rightarrow>
          st\<lparr>m_clientsByConnectionToken := (m_clientsByConnectionToken st)(m_connectionToken c := Some r),
             m_clientsByConnectionTokenHash :=
               (m_clientsByConnectionTokenHash st)(HashString (m_connectionToken c) := Some r)\<rparr>
      | None \<Rightarrow> st)"

text \<open>The setters of a registered client, with the events they fire.\<close>

definition reg_SetNetId :: "u32 \<Rightarrow> client_ref \<Rightarrow> client_registry \<Rightarrow> client_registry" where
  "reg_SetNetId netId r st = OnAssignNetId r (update_client (Client_SetNetId netId) r st)"

definition reg_SetPeer :: "bool \<Rightarrow> bool \<Rightarrow> int \<Rightarrow> string \<Rightarrow> client_ref \<Rightarrow> client_registry \<Rightarrow> client_registry" where
  "reg_SetPeer oneSync expired peer address r st =
     OnAssignPeer oneSync expired r (update_client (Client_SetPeer peer address) r st)"

definition reg_SetTcpEndPoint :: "string \<Rightarrow> client_ref \<Rightarrow> client_registry \<Rightarrow> client_registry" where
  "reg_SetTcpEndPoint addr r st = OnAssignTcpEndPoint r (update_client (Client_SetTcpEndPoint addr) r st)"

definition reg_SetConnectionToken :: "string \<Rightarrow> client_ref \<Rightarrow> client_registry \<Rightarrow> client_registry" where
  "reg_SetConnectionToken token r st =
     OnAssignConnectionToken r (update_client (Client_SetConnectionToken token) r st)"

subsection \<open>Operations\<close>

text \<open>\<open>emplace\<close> keeps the entry that is there.\<close>

definition MakeClient :: "string \<Rightarrow> int \<Rightarrow> client_registry \<Rightarrow> client_ref \<times> client_registry" where
  "MakeClient guid now st =
     (let r = m_nextRef st in
      (r, st\<lparr>m_pool := (m_pool st)(r := Some (Client_make guid now)), m_nextRef := r + 1, m_events := m_events st @ [OnClientCreated r],
             m_clients := (if map_of (m_clients st) guid = None then m_clients st @ [(guid, r)] else m_clients st)\<rparr>))"

definition incrementId :: "u16 \<Rightarrow> u16" where
  "incrementId cur = (let n = cur + 1 in if n = 0xFFFF then 1 else n)"

text \<open>The loop \<open>while (m_clientsByNetId[m_curNetId].lock())\<close>; it may not end.\<close>

partial_function (option) find_netId :: "client_registry \<Rightarrow> u16 \<Rightarrow> u16 option" where
  "find_netId st cur =
     (if weak_lock st (m_clientsByNetId st (ucast cur)) \<noteq> None then find_netId st (incrementId cur) else Some cur)"

definition HandleConnectingClient :: "client_ref \<Rightarrow> client_registry \<Rightarrow> client_registry option" where
  "HandleConnectingClient r st =
     (case find_netId st (m_curNetId st) of
        None \<Rightarrow> None
      | Some cur \<Rightarrow>
          Some ((reg_SetNetId (ucast cur) r st)
            \<lparr>m_curNetId := incrementId cur, m_amountConnectedClients := m_amountConnectedClients st + 1\<rparr>))"

definition RemoveClient :: "client_ref \<Rightarrow> client_registry \<Rightarrow> client_registry" where
  "RemoveClient r st =
     (case m_pool st r of
        None \<Rightarrow> st
      | Some c \<Rightarrow>
          let byNetId = (m_clientsByNetId st)(m_netId c := None);
              st' = st\<lparr>
                m_events := (if m_dropping c then m_events st else m_events st @ [OnDrop r]),
                m_clientsByPeer := (m_clientsByPeer st)(GetPeer c := None),
                m_clientsByNetId := (if HasPreviousNetId c then byNetId(m_previousNetId c := None) else byNetId),
                m_clientsByConnectionToken := (m_clientsByConnectionToken st)(m_connectionToken c := None),
                m_clientsByConnectionTokenHash :=
                  (m_clientsByConnectionTokenHash st)(HashString (m_connectionToken c) := None),
                m_clientsBySlotId :=
                  (if unat (m_slotId c) < length (m_clientsBySlotId st)
                   then (m_clientsBySlotId st)[unat (m_slotId c) := None] else m_clientsBySlotId st),
                m_clients := filter (\<lambda>(g, _). g \<noteq> m_guid c) (m_clients st),
                m_amountConnectedClients :=
                  (if HasConnected c then m_amountConnectedClients st - 1 else m_amountConnectedClients st)\<rparr>
          in update_client (SetSlotId (- 1)) r st')"

definition GetHost :: "client_registry \<Rightarrow> client_ref option" where
  "GetHost st = (if m_hostNetId st = 0xFFFF then None else GetClientByNetID (ucast (m_hostNetId st)) st)"

definition SetHost :: "bool \<Rightarrow> client_ref option \<Rightarrow> client_registry \<Rightarrow> client_registry" where
  "SetHost oneSync w st =
     (case w of
        None \<Rightarrow> st\<lparr>m_hostNetId := - 1\<rparr>
      | Some r \<Rightarrow>
          if oneSync then st
          else
            case m_pool st r of
              Some c \<Rightarrow> st\<lparr>m_hostNetId := ucast (m_netId c)\<rparr>
            | None \<Rightarrow> st)"

text \<open>The last reference to an object that the registry no longer holds is dropped.\<close>

definition expire :: "client_ref \<Rightarrow> client_registry \<Rightarrow> client_registry" where
  "expire r st = (if r \<in> snd ` set (m_clients st) then st else st\<lparr>m_pool := (m_pool st)(r := None)\<rparr>)"

text \<open>
  The part of \<open>InitConnectMethod.cpp\<close> that creates a client: it gets a temporary net id above 65535.
\<close>

definition register_client :: "string \<Rightarrow> string \<Rightarrow> string \<Rightarrow> string \<Rightarrow> u32 \<Rightarrow> int \<Rightarrow> client_registry
    \<Rightarrow> client_ref \<times> client_registry" where
  "register_client guid name token addr tempId now st =
     (let (r, st) = MakeClient guid now st;
          st = update_client (SetName name) r st;
          st = reg_SetConnectionToken token r st;
          st = reg_SetTcpEndPoint addr r st;
          st = reg_SetNetId (0x10000 + tempId) r st
      in (r, update_client (Touch now) r st))"

end
