(* ===== verification/ClientRegistryLaws.thy ===== *)
theory ClientRegistryLaws
  imports ClientRegistry
begin

text \<open>
  The invariant of the client registry, kept by every operation the server runs on it: net ids and
  slots of registered clients are their own, and the alias maps find them. The steps are those of the
  server: clients are registered under a guid that is not in use, and only registered clients are
  removed.
\<close>

subsection \<open>The search for a net id\<close>

abbreviation net_id_free :: "client_registry \<Rightarrow> u16 \<Rightarrow> bool" where
  "net_id_free st i \<equiv> weak_lock st (m_clientsByNetId st (ucast i)) = None"

abbreviation net_id_ok :: "u16 \<Rightarrow> bool" where
  "net_id_ok i \<equiv> i \<noteq> 0 \<and> i \<noteq> 0xFFFF"

lemma unat_u16_less: "unat (i :: u16) < 65536"
  using unsigned_less [of i] by simp

lemma net_id_ok_nat: "net_id_ok i \<longleftrightarrow> 1 \<le> unat i \<and> unat i \<le> 65534"
proof -
  have "i = 0 \<longleftrightarrow> unat i = 0" "i = 0xFFFF \<longleftrightarrow> unat i = 65535" by (simp_all add: word_unat_eq_iff)
  with unat_u16_less [of i] show ?thesis by linarith
qed

lemma unat_incrementId:
  assumes "net_id_ok i"
  shows "unat (incrementId i) = (if unat i = 65534 then 1 else unat i + 1)"
proof -
  have i: "1 \<le> unat i" "unat i \<le> 65534" using assms by (simp_all add: net_id_ok_nat)
  have s: "unat (i + 1) = unat i + 1" using i by (simp add: unat_word_ariths)
  then have "i + 1 = 0xFFFF \<longleftrightarrow> unat i = 65534" by (simp add: word_unat_eq_iff)
  with s show ?thesis by (simp add: incrementId_def Let_def)
qed

lemma incrementId_ok: "net_id_ok i \<Longrightarrow> net_id_ok (incrementId i)"
  using unat_incrementId [of i] by (auto simp: net_id_ok_nat split: if_splits)

lemma find_netId_free: "find_netId st i = Some j \<Longrightarrow> net_id_free st j"
  by (rule find_netId.raw_induct [where P = "\<lambda>st i j. net_id_free st j"]) (auto split: if_splits)

lemma find_netId_ok: "find_netId st i = Some j \<Longrightarrow> net_id_ok i \<longrightarrow> net_id_ok j"
  by (rule find_netId.raw_induct [where P = "\<lambda>st i j. net_id_ok i \<longrightarrow> net_id_ok j"])
    (metis incrementId_ok option.inject)

text \<open>The search ends exactly when an id is free: it visits all of them, starting anywhere.\<close>

lemma find_netId_ends:
  assumes "net_id_ok i" "net_id_ok j" "net_id_free st j"
  shows "find_netId st i \<noteq> None"
proof -
  have "find_netId st i \<noteq> None" if "(unat j + 65534 - unat i) mod 65534 = d" "net_id_ok i" for d i
    using that
  proof (induction d arbitrary: i)
    case 0
    have "unat i = unat j"
    proof (rule ccontr)
      assume ne: "unat i \<noteq> unat j"
      have b: "1 \<le> unat i" "unat i \<le> 65534" "1 \<le> unat j" "unat j \<le> 65534"
        using assms(2) 0(2) by (simp_all only: net_id_ok_nat)
      obtain k where k: "unat j + 65534 - unat i = 65534 * k" using 0(1) by (auto simp: mod_eq_0_iff_dvd dvd_def)
      then have "k = 1" using b by (cases k; cases "k - 1"; simp)
      with k ne b show False by simp
    qed
    then have "i = j" by (simp add: word_unat_eq_iff)
    then show ?case using assms(3) by (simp add: find_netId.simps)
  next
    case (Suc d)
    have b: "1 \<le> unat i" "unat i \<le> 65534" "1 \<le> unat j" "unat j \<le> 65534"
      using assms(2) Suc.prems(2) by (simp_all only: net_id_ok_nat)
    have "(unat j + 65534 - unat (incrementId i)) mod 65534 = d"
    proof (cases "unat i = 65534")
      case True
      then have "unat j mod 65534 = Suc d" using Suc.prems(1) by simp
      then have "unat j = Suc d" using b by (cases "unat j = 65534") simp_all
      with True b show ?thesis by (simp add: unat_incrementId [OF Suc.prems(2)])
    next
      case False
      let ?x = "unat j + 65534 - unat i"
      have "?x = Suc (unat j + 65534 - (unat i + 1))" using b by simp
      with Suc.prems(1) have "Suc (unat j + 65534 - (unat i + 1)) mod 65534 = Suc d" by simp
      then have "(unat j + 65534 - (unat i + 1)) mod 65534 = d"
        by (simp add: mod_Suc split: if_splits)
      with False show ?thesis by (simp add: unat_incrementId [OF Suc.prems(2)])
    qed
    from Suc.IH [OF this incrementId_ok [OF Suc.prems(2)]] show ?case by (simp add: find_netId.simps)
  qed
  with assms(1) show ?thesis by blast
qed

lemma find_netId_iff:
  assumes "net_id_ok i"
  shows "(\<exists>j. find_netId st i = Some j) \<longleftrightarrow> (\<exists>j. net_id_ok j \<and> net_id_free st j)"
  using find_netId_ends [OF assms, of _ st] find_netId_free [of st i] find_netId_ok [of st i] assms by blast

subsection \<open>The invariant\<close>

text \<open>\<open>limit\<close> is the next temporary net id.\<close>

definition client_ok :: "nat \<Rightarrow> client_registry \<Rightarrow> client_ref \<Rightarrow> client \<Rightarrow> bool" where
  "client_ok limit st r c \<longleftrightarrow>
     (m_netId c \<noteq> 0xFFFF \<longrightarrow> m_clientsByNetId st (m_netId c) = Some r) \<and>
     m_netId c \<noteq> 0 \<and> unat (m_netId c) < limit \<and>
     (HasPreviousNetId c \<longrightarrow> m_clientsByNetId st (m_previousNetId c) = Some r \<and>
        0xFFFF < unat (m_previousNetId c) \<and> unat (m_previousNetId c) < limit) \<and>
     (m_slotId c \<noteq> - 1 \<longrightarrow> unat (m_slotId c) < length (m_clientsBySlotId st) \<and>
        m_clientsBySlotId st ! unat (m_slotId c) = Some r \<and> unat (m_slotId c) \<noteq> 31)"

definition registry_ok :: "nat \<Rightarrow> client_registry \<Rightarrow> bool" where
  "registry_ok limit st \<longleftrightarrow>
     distinct (map fst (m_clients st)) \<and>
     (\<forall>(g, r)\<in>set (m_clients st). \<exists>c. m_pool st r = Some c \<and> m_guid c = g \<and> client_ok limit st r c) \<and>
     (\<forall>r. m_pool st r \<noteq> None \<longrightarrow> r < m_nextRef st) \<and>
     net_id_ok (m_curNetId st) \<and> 0x10000 \<le> limit \<and> length (m_clientsBySlotId st) < 2 ^ 31"

abbreviation registered :: "client_registry \<Rightarrow> client_ref \<Rightarrow> bool" where
  "registered st r \<equiv> r \<in> snd ` set (m_clients st)"

lemma registry_okI:
  assumes "distinct (map fst (m_clients st))"
    and "\<And>g r. (g, r) \<in> set (m_clients st) \<Longrightarrow> \<exists>c. m_pool st r = Some c \<and> m_guid c = g \<and> client_ok limit st r c"
    and "\<And>r c. m_pool st r = Some c \<Longrightarrow> r < m_nextRef st"
    and "net_id_ok (m_curNetId st)" "0x10000 \<le> limit" "length (m_clientsBySlotId st) < 2 ^ 31"
  shows "registry_ok limit st"
  using assms by (auto simp: registry_ok_def)

lemma registry_okD:
  assumes "registry_ok limit st"
  shows "distinct (map fst (m_clients st))" "net_id_ok (m_curNetId st)" "0x10000 \<le> limit"
    "length (m_clientsBySlotId st) < 2 ^ 31" "m_pool st r = Some c \<Longrightarrow> r < m_nextRef st"
  using assms by (auto simp: registry_ok_def)

lemma registered_ok:
  assumes "registry_ok limit st" "(g, r) \<in> set (m_clients st)"
  obtains c where "m_pool st r = Some c" "m_guid c = g" "client_ok limit st r c" "r < m_nextRef st"
  using assms by (fastforce simp: registry_ok_def)

lemma registeredE:
  assumes "registry_ok limit st" "registered st r"
  obtains c where "m_pool st r = Some c" "(m_guid c, r) \<in> set (m_clients st)" "client_ok limit st r c"
proof -
  obtain g where "(g, r) \<in> set (m_clients st)" using assms(2) by auto
  with registered_ok [OF assms(1) this] that show thesis by metis
qed

lemma registry_ok_make: "registry_ok 0x10000 (ClientRegistry_make bigMode)"
  by (rule registry_okI) (auto simp: ClientRegistry_make_def MAX_CLIENTS_def)

text \<open>Methods that leave the ids of the client alone.\<close>

definition keeps_ids :: "(client \<Rightarrow> client) \<Rightarrow> bool" where
  "keeps_ids f \<longleftrightarrow> (\<forall>c. m_guid (f c) = m_guid c \<and> m_netId (f c) = m_netId c
     \<and> m_previousNetId (f c) = m_previousNetId c \<and> m_slotId (f c) = m_slotId c)"

lemma keeps_ids_objects [simp]:
  "keeps_ids (SetName n)" "keeps_ids SetDropping" "keeps_ids SetHasRouted" "keeps_ids (Touch now)"
  "keeps_ids (SetNetBase nb)" "keeps_ids (AddIdentifier i)" "keeps_ids (AddToken t)" "keeps_ids (SetDataRaw k d)"
  "keeps_ids (Client_SetPeer p a)" "keeps_ids (Client_SetTcpEndPoint a)" "keeps_ids (Client_SetConnectionToken t)"
  by (simp_all add: keeps_ids_def client_updates)

lemma client_ok_cong:
  assumes "m_netId c' = m_netId c" "m_previousNetId c' = m_previousNetId c" "m_slotId c' = m_slotId c"
    and "m_clientsByNetId st' = m_clientsByNetId st" "m_clientsBySlotId st' = m_clientsBySlotId st"
  shows "client_ok limit st' r c' \<longleftrightarrow> client_ok limit st r c"
  using assms by (simp add: client_ok_def HasPreviousNetId_def)

lemma update_client_simps [simp]:
  "m_pool (update_client f r st) = (m_pool st)(r := map_option f (m_pool st r))"
  "m_clients (update_client f r st) = m_clients st"
  "m_clientsByNetId (update_client f r st) = m_clientsByNetId st"
  "m_clientsByPeer (update_client f r st) = m_clientsByPeer st"
  "m_clientsByTcpEndPoint (update_client f r st) = m_clientsByTcpEndPoint st"
  "m_clientsByConnectionToken (update_client f r st) = m_clientsByConnectionToken st"
  "m_clientsByConnectionTokenHash (update_client f r st) = m_clientsByConnectionTokenHash st"
  "m_clientsBySlotId (update_client f r st) = m_clientsBySlotId st"
  "m_curNetId (update_client f r st) = m_curNetId st" "m_nextRef (update_client f r st) = m_nextRef st"
  "m_hostNetId (update_client f r st) = m_hostNetId st" "m_events (update_client f r st) = m_events st"
  "m_amountConnectedClients (update_client f r st) = m_amountConnectedClients st"
  by (simp_all add: update_client_def)

text \<open>A step that changes neither the registered set nor any id keeps the invariant.\<close>

lemma registry_ok_frame:
  assumes "registry_ok limit st"
    and "m_clients st' = m_clients st" "m_clientsByNetId st' = m_clientsByNetId st"
    and "m_clientsBySlotId st' = m_clientsBySlotId st" "m_curNetId st' = m_curNetId st" "m_nextRef st' = m_nextRef st"
    and "\<And>r c'. m_pool st' r = Some c' \<Longrightarrow> m_pool st r \<noteq> None"
    and "\<And>r c. registered st r \<Longrightarrow> m_pool st r = Some c \<Longrightarrow> \<exists>f. keeps_ids f \<and> m_pool st' r = Some (f c)"
  shows "registry_ok limit st'"
proof (rule registry_okI)
  show "distinct (map fst (m_clients st'))" "net_id_ok (m_curNetId st')" "0x10000 \<le> limit"
    "length (m_clientsBySlotId st') < 2 ^ 31"
    using registry_okD [OF assms(1)] assms(2-6) by simp_all
  show "r < m_nextRef st'" if "m_pool st' r = Some c" for r c
    using registry_okD(5) [OF assms(1)] assms(6) assms(7) [OF that] by auto
  fix g r assume gr: "(g, r) \<in> set (m_clients st')"
  then have gr': "(g, r) \<in> set (m_clients st)" using assms(2) by simp
  obtain c where c: "m_pool st r = Some c" "m_guid c = g" "client_ok limit st r c"
    using registered_ok [OF assms(1) gr'] by metis
  obtain f where f: "keeps_ids f" "m_pool st' r = Some (f c)"
    using assms(8) [OF _ c(1)] gr' by force
  have "client_ok limit st' r (f c)"
    using c(3) client_ok_cong [of "f c" c st' st limit r] f(1) assms(3,4) by (simp add: keeps_ids_def)
  then show "\<exists>c. m_pool st' r = Some c \<and> m_guid c = g \<and> client_ok limit st' r c"
    using f c(2) by (auto simp: keeps_ids_def)
qed

lemma keeps_ids_id [simp]: "keeps_ids id" by (simp add: keeps_ids_def)

lemma registry_ok_update:
  assumes "registry_ok limit st" "keeps_ids f"
  shows "registry_ok limit (update_client f r st)"
proof (rule registry_ok_frame [OF assms(1)])
  fix r' c assume "m_pool st r' = Some c"
  then show "\<exists>f'. keeps_ids f' \<and> m_pool (update_client f r st) r' = Some (f' c)"
    using assms(2) by (cases "r' = r") (auto intro: exI [of _ f] exI [of _ id])
qed (auto split: if_splits)

subsection \<open>Registration\<close>

lemma register_client_eq:
  fixes st :: client_registry
  defines "r \<equiv> m_nextRef st"
  shows "register_client guid name token addr tempId now st = (r, st'') \<Longrightarrow>
    m_pool st'' = (m_pool st)(r := Some (Touch now (Client_SetNetId (0x10000 + tempId)
       (Client_SetTcpEndPoint addr (Client_SetConnectionToken token (SetName name (Client_make guid now)))))))
    \<and> m_clients st'' = (if map_of (m_clients st) guid = None then m_clients st @ [(guid, r)] else m_clients st)
    \<and> m_clientsByNetId st'' = (m_clientsByNetId st)(0x10000 + tempId := Some r)
    \<and> m_clientsBySlotId st'' = m_clientsBySlotId st \<and> m_curNetId st'' = m_curNetId st \<and> m_nextRef st'' = r + 1
    \<and> m_clientsByConnectionToken st'' = (m_clientsByConnectionToken st)(token := Some r)
    \<and> m_clientsByPeer st'' = m_clientsByPeer st \<and> m_amountConnectedClients st'' = m_amountConnectedClients st"
  by (auto simp: register_client_def r_def MakeClient_def reg_SetNetId_def reg_SetTcpEndPoint_def
      reg_SetConnectionToken_def OnAssignNetId_def OnAssignTcpEndPoint_def OnAssignConnectionToken_def Let_def
      client_updates)

lemma registry_ok_register:
  assumes ok: "registry_ok limit st" and new: "map_of (m_clients st) guid = None"
    and temp: "limit = 0x10000 + unat tempId" "limit < 2 ^ 32"
  shows "registry_ok (limit + 1) (snd (register_client guid name token addr tempId now st))"
proof -
  let ?r = "m_nextRef st" and ?st = "snd (register_client guid name token addr tempId now st)"
  have "register_client guid name token addr tempId now st = (?r, ?st)"
    by (simp add: register_client_def MakeClient_def Let_def)
  note eq = register_client_eq [OF this]
  have id: "unat (0x10000 + tempId) = limit" using temp by (simp add: unat_word_ariths)
  then have id_ne: "0x10000 + tempId \<noteq> 0xFFFF" "0x10000 + tempId \<noteq> 0" using temp(1) by (auto simp: word_unat_eq_iff)
  show ?thesis
  proof (rule registry_okI)
    show "distinct (map fst (m_clients ?st))"
      using registry_okD(1) [OF ok] new by (simp add: eq map_of_eq_None_iff)
    show "net_id_ok (m_curNetId ?st)" "0x10000 \<le> limit + 1" "length (m_clientsBySlotId ?st) < 2 ^ 31"
      using registry_okD(2-4) [OF ok] by (simp_all add: eq)
    show "r < m_nextRef ?st" if "m_pool ?st r = Some c" for r c
      using that registry_okD(5) [OF ok] by (auto simp: eq less_Suc_eq split: if_splits)
    fix g r assume gr: "(g, r) \<in> set (m_clients ?st)"
    show "\<exists>c. m_pool ?st r = Some c \<and> m_guid c = g \<and> client_ok (limit + 1) ?st r c"
    proof (cases "(g, r) \<in> set (m_clients st)")
      case True
      obtain c where c: "m_pool st r = Some c" "m_guid c = g" "client_ok limit st r c" "r < m_nextRef st"
        using registered_ok [OF ok True] .
      have "m_netId c \<noteq> 0x10000 + tempId" using c(3) id by (auto simp: client_ok_def)
      moreover have "HasPreviousNetId c \<longrightarrow> m_previousNetId c \<noteq> 0x10000 + tempId" using c(3) id by (auto simp: client_ok_def)
      ultimately have "client_ok (limit + 1) ?st r c" using c(3) by (auto simp: client_ok_def eq)
      with c show ?thesis by (simp add: eq)
    next
      case False
      then have "r = ?r" "g = guid" using gr new by (auto simp: eq)
      then show ?thesis
        using id id_ne by (auto simp: eq client_updates client_ok_def HasPreviousNetId_def Client_make_def)
    qed
  qed
qed

subsection \<open>Peers and slots\<close>

lemma free_slot_Some:
  assumes "free_slot expired st = Some slot"
  shows "slot < length (m_clientsBySlotId st)" "slot \<noteq> 31" "weak_lock st (m_clientsBySlotId st ! slot) = None"
  using assms
  by (auto simp: free_slot_def find_Some_iff rev_nth weak_test_def weak_lock_def split: option.splits)

lemma weak_lock_cong: "m_pool st' = m_pool st \<Longrightarrow> weak_lock st' w = weak_lock st w"
  by (cases w) (simp_all add: weak_lock_def)

lemma weak_lock_byPeer [simp]: "weak_lock (st\<lparr>m_clientsByPeer := m\<rparr>) w = weak_lock st w"
  by (rule weak_lock_cong) simp

lemma OnAssignPeer_cases:
  assumes "m_pool st r = Some c"
  obtains (same) "OnAssignPeer oneSync expired r st = st\<lparr>m_clientsByPeer := (m_clientsByPeer st)(GetPeer c := Some r)\<rparr>"
  | (slot) slot where "oneSync" "m_slotId c = - 1" "slot < length (m_clientsBySlotId st)" "slot \<noteq> 31"
      "weak_lock st (m_clientsBySlotId st ! slot) = None"
      "OnAssignPeer oneSync expired r st =
         (update_client (SetSlotId (of_nat slot)) r st)
           \<lparr>m_clientsByPeer := (m_clientsByPeer st)(GetPeer c := Some r),
            m_clientsBySlotId := (m_clientsBySlotId st)[slot := Some r]\<rparr>"
proof -
  let ?st = "st\<lparr>m_clientsByPeer := (m_clientsByPeer st)(GetPeer c := Some r)\<rparr>"
  show thesis
  proof (cases "oneSync \<and> m_slotId c = - 1 \<and> free_slot expired ?st \<noteq> None")
    case False
    then show ?thesis using assms same by (auto simp: OnAssignPeer_def Let_def)
  next
    case True
    then obtain s where s: "free_slot expired ?st = Some s" by auto
    show ?thesis
      by (rule slot [of s])
        (use True s free_slot_Some [OF s] assms in
          \<open>simp_all add: OnAssignPeer_def Let_def update_client_def\<close>)
  qed
qed

lemma registry_ok_SetPeer:
  assumes ok: "registry_ok limit st" and r: "registered st r"
  shows "registry_ok limit (reg_SetPeer oneSync expired peer address r st)"
proof -
  let ?st = "update_client (Client_SetPeer peer address) r st"
  have ok': "registry_ok limit ?st" by (rule registry_ok_update [OF ok]) simp
  obtain c where c: "m_pool ?st r = Some c" "(m_guid c, r) \<in> set (m_clients ?st)" "client_ok limit ?st r c"
    using registeredE [OF ok', of r] r by auto
  have "registry_ok limit (OnAssignPeer oneSync expired r ?st)"
    using c(1)
  proof (cases rule: OnAssignPeer_cases [where oneSync = oneSync and expired = expired])
    case same
    show ?thesis unfolding same
      by (rule registry_ok_frame [OF ok']) (auto intro: exI [of _ id])
  next
    case (slot s)
    let ?st' = "OnAssignPeer oneSync expired r ?st"
    have len: "length (m_clientsBySlotId st) < 2 ^ 31" using registry_okD(4) [OF ok] .
    have s: "unat (of_nat s :: u32) = s" using slot(3) len by (intro of_nat_inverse) simp_all
    show ?thesis
    proof (rule registry_okI)
      show "distinct (map fst (m_clients ?st'))" "net_id_ok (m_curNetId ?st')" "0x10000 \<le> limit"
        "length (m_clientsBySlotId ?st') < 2 ^ 31"
        using registry_okD [OF ok] by (simp_all add: slot(6))
      show "q < m_nextRef ?st'" if "m_pool ?st' q = Some d" for q d
        using that registry_okD(5) [OF ok] by (auto simp: slot(6) split: if_splits)
      fix g q assume gq: "(g, q) \<in> set (m_clients ?st')"
      then have "(g, q) \<in> set (m_clients ?st)" by (simp add: slot(6))
      then obtain d where d: "m_pool ?st q = Some d" "m_guid d = g" "client_ok limit ?st q d"
        using registered_ok [OF ok'] by metis
      show "\<exists>c. m_pool ?st' q = Some c \<and> m_guid c = g \<and> client_ok limit ?st' q c"
      proof (cases "q = r")
        case True
        with c(1) d(1) have "d = c" by (simp only: option.inject)
        with True d s slot(3,4) c show ?thesis
          by (auto simp: slot(6) client_ok_def SetSlotId_def HasPreviousNetId_def)
      next
        case False
        have "m_slotId d \<noteq> - 1 \<longrightarrow> unat (m_slotId d) \<noteq> s"
        proof (intro impI notI)
          assume "m_slotId d \<noteq> - 1" "unat (m_slotId d) = s"
          then have "m_clientsBySlotId ?st ! s = Some q" using d(3) by (simp add: client_ok_def)
          then show False using slot(5) d(1) by (simp add: weak_lock_def)
        qed
        with False d show ?thesis by (auto simp: slot(6) client_ok_def)
      qed
    qed
  qed
  then show ?thesis by (simp add: reg_SetPeer_def)
qed

subsection \<open>Final net ids\<close>

lemma HandleConnectingClient_cases:
  assumes "HandleConnectingClient r st = Some st'" "net_id_ok (m_curNetId st)"
  obtains cur where "net_id_ok cur" "net_id_free st cur" "find_netId st (m_curNetId st) = Some cur"
    "st' = (reg_SetNetId (ucast cur) r st)\<lparr>m_curNetId := incrementId cur,
       m_amountConnectedClients := m_amountConnectedClients st + 1\<rparr>"
  using assms find_netId_free [of st "m_curNetId st"] find_netId_ok [of st "m_curNetId st"]
  by (auto simp: HandleConnectingClient_def split: option.splits)

lemma unat_ucast_u16 [simp]: "unat (ucast (i :: u16) :: u32) = unat i"
  using unat_u16_less [of i] by (simp add: unsigned_ucast_eq take_bit_nat_eq_self)

lemma net_id_ucast:
  assumes "net_id_ok i"
  shows "(ucast i :: u32) \<noteq> 0" "(ucast i :: u32) < 0xFFFF" "(ucast i :: u32) \<noteq> 0xFFFF" "unat i < 0xFFFF"
proof -
  have "1 \<le> unat i" "unat i \<le> 65534" using assms by (simp_all only: net_id_ok_nat)
  then show "(ucast i :: u32) \<noteq> 0" "(ucast i :: u32) < 0xFFFF" "(ucast i :: u32) \<noteq> 0xFFFF" "unat i < 0xFFFF"
    by (simp_all add: word_unat_eq_iff word_less_nat_alt)
qed

lemma registry_ok_connecting:
  assumes ok: "registry_ok limit st" and r: "registered st r" and c: "m_pool st r = Some c" "\<not> HasConnected c"
    and step: "HandleConnectingClient r st = Some st'"
  shows "registry_ok limit st'"
    "\<exists>c' cur. m_pool st' r = Some c' \<and> net_id_ok cur \<and> net_id_free st cur \<and> m_netId c' = ucast cur \<and> HasConnected c'"
proof -
  obtain cur where cur: "net_id_ok cur" "net_id_free st cur"
    "st' = (reg_SetNetId (ucast cur) r st)\<lparr>m_curNetId := incrementId cur,
       m_amountConnectedClients := m_amountConnectedClients st + 1\<rparr>"
    using HandleConnectingClient_cases [OF step registry_okD(2) [OF ok]] by metis
  let ?c = "Client_SetNetId (ucast cur) c"
  have eq: "m_pool st' = (m_pool st)(r := Some ?c)" "m_clients st' = m_clients st"
    "m_clientsByNetId st' = (m_clientsByNetId st)(ucast cur := Some r)"
    "m_clientsBySlotId st' = m_clientsBySlotId st" "m_curNetId st' = incrementId cur" "m_nextRef st' = m_nextRef st"
    using c(1) by (simp_all add: cur(3) reg_SetNetId_def OnAssignNetId_def client_updates)
  have lim: "0x10000 \<le> limit" using registry_okD(3) [OF ok] .
  have hi: "\<not> 0xFFFF < unat cur" using net_id_ucast(4) [OF cur(1)] by simp
  show "registry_ok limit st'"
  proof (rule registry_okI)
    show "distinct (map fst (m_clients st'))" "net_id_ok (m_curNetId st')" "0x10000 \<le> limit"
      "length (m_clientsBySlotId st') < 2 ^ 31"
      using registry_okD [OF ok] incrementId_ok [OF cur(1)] by (simp_all add: eq)
    show "q < m_nextRef st'" if "m_pool st' q = Some d" for q d
      using that registry_okD(5) [OF ok] c(1) by (auto simp: eq split: if_splits)
    fix g q assume "(g, q) \<in> set (m_clients st')"
    then have "(g, q) \<in> set (m_clients st)" by (simp add: eq)
    then obtain d where d: "m_pool st q = Some d" "m_guid d = g" "client_ok limit st q d"
      using registered_ok [OF ok] by metis
    show "\<exists>c. m_pool st' q = Some c \<and> m_guid c = g \<and> client_ok limit st' q c"
    proof (cases "q = r")
      case True
      then have "d = c" using d c by simp
      have prev: "0xFFFF < unat (m_netId c)" if "m_netId c \<noteq> 0xFFFF"
        using that c(2) by (simp add: HasConnected_def word_less_nat_alt word_unat_eq_iff)
      then have "m_netId c \<noteq> 0xFFFF \<longrightarrow> m_netId c \<noteq> ucast cur"
        using hi by (metis unat_ucast_u16)
      with d True prev have "client_ok limit st' r ?c"
        using net_id_ucast [OF cur(1)] lim unfolding \<open>d = c\<close>
        by (auto simp: client_ok_def eq Client_SetNetId_def UpdateCachedPrincipalValues_def HasPreviousNetId_def)
      then show ?thesis using True d \<open>d = c\<close> by (simp add: eq client_updates)
    next
      case False
      have "m_netId d \<noteq> ucast cur"
      proof
        assume "m_netId d = ucast cur"
        then have "m_clientsByNetId st (ucast cur) = Some q" using d(3) net_id_ucast(3) [OF cur(1)]
          by (auto simp: client_ok_def)
        then show False using cur(2) d(1) by (simp add: weak_lock_def)
      qed
      moreover have "HasPreviousNetId d \<longrightarrow> m_previousNetId d \<noteq> ucast cur"
        using d(3) hi by (auto simp: client_ok_def)
      ultimately have "client_ok limit st' q d" using d(3) by (auto simp: client_ok_def eq)
      with False d show ?thesis by (simp add: eq)
    qed
  qed
  show "\<exists>c' cur. m_pool st' r = Some c' \<and> net_id_ok cur \<and> net_id_free st cur \<and> m_netId c' = ucast cur \<and> HasConnected c'"
    using cur(1,2) net_id_ucast [OF cur(1)] c(1) unfolding eq
    by (intro exI [of _ ?c] exI [of _ cur]) (simp add: client_updates HasConnected_def)
qed

subsection \<open>Removal\<close>

lemma unat_minus_one_u32: "unat (- 1 :: u32) = 4294967295"
proof -
  have "(- 1 :: u32) = 4294967295" by simp
  then show ?thesis by (simp only:) simp
qed

lemma RemoveClient_fields:
  assumes "m_pool st r = Some c"
  shows "m_pool (RemoveClient r st) = (m_pool st)(r := Some (SetSlotId (- 1) c))"
    "m_clients (RemoveClient r st) = filter (\<lambda>(g, _). g \<noteq> m_guid c) (m_clients st)"
    "m_clientsByNetId (RemoveClient r st) = (if HasPreviousNetId c
       then (m_clientsByNetId st)(m_netId c := None, m_previousNetId c := None)
       else (m_clientsByNetId st)(m_netId c := None))"
    "m_clientsBySlotId (RemoveClient r st) = (if unat (m_slotId c) < length (m_clientsBySlotId st)
       then (m_clientsBySlotId st)[unat (m_slotId c) := None] else m_clientsBySlotId st)"
    "m_curNetId (RemoveClient r st) = m_curNetId st" "m_nextRef (RemoveClient r st) = m_nextRef st"
    "m_clientsByPeer (RemoveClient r st) = (m_clientsByPeer st)(GetPeer c := None)"
    "m_clientsByConnectionToken (RemoveClient r st) = (m_clientsByConnectionToken st)(m_connectionToken c := None)"
    "m_clientsByConnectionTokenHash (RemoveClient r st)
       = (m_clientsByConnectionTokenHash st)(HashString (m_connectionToken c) := None)"
    "m_clientsByTcpEndPoint (RemoveClient r st) = m_clientsByTcpEndPoint st"
    "m_amountConnectedClients (RemoveClient r st)
       = (if HasConnected c then m_amountConnectedClients st - 1 else m_amountConnectedClients st)"
    "m_hostNetId (RemoveClient r st) = m_hostNetId st"
    "m_events (RemoveClient r st) = (if m_dropping c then m_events st else m_events st @ [OnDrop r])"
  using assms by (simp_all add: RemoveClient_def Let_def)

text \<open>Clients that the invariant holds for do not share a net id, a previous net id or a slot.\<close>

lemma client_ok_disjoint:
  assumes "client_ok limit st r c" "client_ok limit st q d" "q \<noteq> r"
  shows "m_netId d \<noteq> 0xFFFF \<Longrightarrow> m_netId d \<noteq> m_netId c"
    "m_netId d \<noteq> 0xFFFF \<Longrightarrow> HasPreviousNetId c \<Longrightarrow> m_netId d \<noteq> m_previousNetId c"
    "HasPreviousNetId d \<Longrightarrow> m_previousNetId d \<noteq> m_netId c"
    "HasPreviousNetId d \<Longrightarrow> HasPreviousNetId c \<Longrightarrow> m_previousNetId d \<noteq> m_previousNetId c"
    "m_slotId d \<noteq> - 1 \<Longrightarrow> m_slotId c \<noteq> - 1 \<Longrightarrow> m_slotId d \<noteq> m_slotId c"
  using assms by (auto simp: client_ok_def HasPreviousNetId_def)

lemma registry_ok_RemoveClient:
  assumes ok: "registry_ok limit st" and r: "registered st r"
  shows "registry_ok limit (RemoveClient r st)" "\<not> registered (RemoveClient r st) r"
proof -
  obtain c where c: "m_pool st r = Some c" "(m_guid c, r) \<in> set (m_clients st)" "client_ok limit st r c"
    using registeredE [OF ok r] .
  note eq = RemoveClient_fields [OF c(1)]
  have other: "q \<noteq> r" if "(g, q) \<in> set (m_clients (RemoveClient r st))" for g q
  proof
    assume "q = r"
    then have "(g, r) \<in> set (m_clients st)" "g \<noteq> m_guid c" using that by (auto simp: eq)
    then show False using registered_ok [OF ok, of g r] c(1) by auto
  qed
  show "\<not> registered (RemoveClient r st) r" using other by fastforce
  show "registry_ok limit (RemoveClient r st)"
  proof (rule registry_okI)
    show "distinct (map fst (m_clients (RemoveClient r st)))"
      using registry_okD(1) [OF ok] by (simp add: eq distinct_map_filter)
    show "net_id_ok (m_curNetId (RemoveClient r st))" "0x10000 \<le> limit"
      "length (m_clientsBySlotId (RemoveClient r st)) < 2 ^ 31"
      using registry_okD [OF ok] by (simp_all add: eq)
    show "q < m_nextRef (RemoveClient r st)" if "m_pool (RemoveClient r st) q = Some d" for q d
      using that registry_okD(5) [OF ok] c(1) by (auto simp: eq split: if_splits)
    fix g q assume gq: "(g, q) \<in> set (m_clients (RemoveClient r st))"
    then have ne: "q \<noteq> r" and "(g, q) \<in> set (m_clients st)" using other by (auto simp: eq)
    then obtain d where d: "m_pool st q = Some d" "m_guid d = g" "client_ok limit st q d"
      using registered_ok [OF ok] by metis
    note dis = client_ok_disjoint [OF c(3) d(3) ne]
    have net: "m_netId d \<noteq> 0xFFFF \<longrightarrow> m_clientsByNetId (RemoveClient r st) (m_netId d) = Some q"
      using d(3) dis(1,2) by (auto simp: client_ok_def eq)
    have prev: "HasPreviousNetId d \<longrightarrow> m_clientsByNetId (RemoveClient r st) (m_previousNetId d) = Some q"
      using d(3) dis(3,4) by (auto simp: client_ok_def eq)
    have slot: "m_slotId d \<noteq> - 1 \<longrightarrow> unat (m_slotId d) < length (m_clientsBySlotId (RemoveClient r st))
        \<and> m_clientsBySlotId (RemoveClient r st) ! unat (m_slotId d) = Some q"
    proof
      assume s: "m_slotId d \<noteq> - 1"
      have "m_slotId c = - 1 \<or> unat (m_slotId c) \<noteq> unat (m_slotId d)"
        using dis(5) [OF s] by (auto simp: word_unat_eq_iff)
      moreover have "m_slotId c = - 1 \<Longrightarrow> \<not> unat (m_slotId c) < length (m_clientsBySlotId st)"
        using registry_okD(4) [OF ok] by (simp add: unat_minus_one_u32)
      ultimately show "unat (m_slotId d) < length (m_clientsBySlotId (RemoveClient r st))
        \<and> m_clientsBySlotId (RemoveClient r st) ! unat (m_slotId d) = Some q"
        using d(3) s by (auto simp: client_ok_def eq)
    qed
    have "client_ok limit (RemoveClient r st) q d"
      using d(3) net prev slot by (simp add: client_ok_def)
    with ne d show "\<exists>c. m_pool (RemoveClient r st) q = Some c \<and> m_guid c = g \<and> client_ok limit (RemoveClient r st) q c"
      by (simp add: eq)
  qed
qed

lemma registry_ok_expire:
  assumes "registry_ok limit st"
  shows "registry_ok limit (expire r st)"
proof (cases "registered st r")
  case True
  then show ?thesis using assms by (simp add: expire_def)
next
  case False
  show ?thesis
    by (rule registry_ok_frame [OF assms])
      (use False in \<open>auto simp: expire_def intro: exI [of _ id] split: if_splits\<close>)
qed

lemma registry_ok_SetHost:
  assumes "registry_ok limit st"
  shows "registry_ok limit (SetHost oneSync w st)"
  by (rule registry_ok_frame [OF assms])
    (auto simp: SetHost_def intro: exI [of _ id] split: option.splits if_splits)

subsection \<open>Reachable registries\<close>

text \<open>The steps of the server; the first component of a state is the next temporary net id.\<close>

inductive reg_step :: "bool \<Rightarrow> bool \<Rightarrow> nat \<times> client_registry \<Rightarrow> nat \<times> client_registry \<Rightarrow> bool"
  for oneSync expired where
  register: "map_of (m_clients st) guid = None \<Longrightarrow> limit < 2 ^ 32 \<Longrightarrow> limit = 0x10000 + unat tempId \<Longrightarrow>
    reg_step oneSync expired (limit, st) (limit + 1, snd (register_client guid name token addr tempId now st))"
| peer: "registered st r \<Longrightarrow>
    reg_step oneSync expired (limit, st) (limit, reg_SetPeer oneSync expired peer address r st)"
| connecting: "registered st r \<Longrightarrow> m_pool st r = Some c \<Longrightarrow> \<not> HasConnected c \<Longrightarrow>
    HandleConnectingClient r st = Some st' \<Longrightarrow> reg_step oneSync expired (limit, st) (limit, st')"
| on_object: "keeps_ids f \<Longrightarrow> reg_step oneSync expired (limit, st) (limit, update_client f r st)"
| host: "reg_step oneSync expired (limit, st) (limit, SetHost oneSync w st)"
| remove: "registered st r \<Longrightarrow> reg_step oneSync expired (limit, st) (limit, RemoveClient r st)"
| expired: "reg_step oneSync expired (limit, st) (limit, expire r st)"

inductive_cases reg_stepE: "reg_step oneSync expired s s'"

inductive reachable :: "bool \<Rightarrow> bool \<Rightarrow> bool \<Rightarrow> nat \<times> client_registry \<Rightarrow> bool"
  for bigMode oneSync expired where
  start: "reachable bigMode oneSync expired (0x10000, ClientRegistry_make bigMode)"
| step: "reachable bigMode oneSync expired s \<Longrightarrow> reg_step oneSync expired s s' \<Longrightarrow> reachable bigMode oneSync expired s'"

lemma registry_ok_step:
  assumes "reg_step oneSync expired s s'" "registry_ok (fst s) (snd s)"
  shows "registry_ok (fst s') (snd s')"
  using assms
proof cases
  case (register st guid limit tempId name token addr now)
  then show ?thesis using registry_ok_register [of limit st guid tempId name token addr now] assms(2) by simp
qed (simp_all add: registry_ok_SetPeer registry_ok_connecting(1) registry_ok_update
      registry_ok_SetHost registry_ok_RemoveClient(1) registry_ok_expire)

lemma reachable_ok:
  assumes "reachable bigMode oneSync expired s"
  shows "registry_ok (fst s) (snd s)"
  using assms
proof induction
  case start
  show ?case using registry_ok_make by simp
next
  case (step s s')
  then show ?case using registry_ok_step by blast
qed

subsection \<open>Directories\<close>

text \<open>
  What the rest of the server relies on when it looks a client up by a key (net id, slot, guid): the
  lookup finds the member that has the key. Then the keys of the members are distinct.
\<close>

locale directory =
  fixes inv :: "'s \<Rightarrow> bool" and member :: "'s \<Rightarrow> 'r \<Rightarrow> bool"
    and key :: "'s \<Rightarrow> 'r \<Rightarrow> 'k option" and lookup :: "'k \<Rightarrow> 's \<Rightarrow> 'r option"
  assumes finds: "inv st \<Longrightarrow> member st r \<Longrightarrow> key st r = Some k \<Longrightarrow> lookup k st = Some r"
begin

lemma unique:
  assumes "inv st" "member st r" "member st q" "key st r = Some k" "key st q = Some k"
  shows "r = q"
  using finds [OF assms(1,2,4)] finds [OF assms(1,3,5)] by simp

lemma keys_inj: "inv st \<Longrightarrow> inj_on (key st) {r. member st r \<and> key st r \<noteq> None}"
  by (rule inj_onI) (auto intro: unique)

lemma bounded:
  assumes "inv st" "finite K" "\<And>r k. member st r \<Longrightarrow> key st r = Some k \<Longrightarrow> k \<in> K"
  shows "card {r. member st r \<and> key st r \<noteq> None} \<le> card K"
proof -
  have "key st ` {r. member st r \<and> key st r \<noteq> None} \<subseteq> Some ` K" using assms(3) by auto
  then have "card {r. member st r \<and> key st r \<noteq> None} \<le> card (Some ` K)"
    using card_inj_on_le [OF keys_inj [OF assms(1)]] assms(2) by blast
  also have "\<dots> \<le> card K" by (rule card_image_le [OF assms(2)])
  finally show ?thesis .
qed

end

definition net_id_of :: "client_registry \<Rightarrow> client_ref \<Rightarrow> u32 option" where
  "net_id_of st r = (case m_pool st r of Some c \<Rightarrow> if HasNetId c then Some (m_netId c) else None | None \<Rightarrow> None)"

definition slot_of :: "client_registry \<Rightarrow> client_ref \<Rightarrow> nat option" where
  "slot_of st r = (case m_pool st r of Some c \<Rightarrow> if HasSlotId c then Some (unat (m_slotId c)) else None | None \<Rightarrow> None)"

definition guid_of :: "client_registry \<Rightarrow> client_ref \<Rightarrow> string option" where
  "guid_of st r = map_option m_guid (m_pool st r)"

abbreviation some_ok :: "client_registry \<Rightarrow> bool" where
  "some_ok st \<equiv> \<exists>limit. registry_ok limit st"

interpretation net_ids: directory some_ok registered net_id_of GetClientByNetID
proof
  fix st r k assume "some_ok st" "registered st r" "net_id_of st r = Some k"
  then show "GetClientByNetID k st = Some r"
    by (auto simp: net_id_of_def HasNetId_def client_ok_def GetClientByNetID_def weak_lock_def
        elim!: registeredE split: option.splits if_splits)
qed

interpretation slots: directory some_ok registered slot_of GetClientBySlotID
proof
  fix st r k assume "some_ok st" "registered st r" "slot_of st r = Some k"
  then show "GetClientBySlotID k st = Some r"
    by (auto simp: slot_of_def HasSlotId_def client_ok_def GetClientBySlotID_def weak_lock_def
        elim!: registeredE split: option.splits if_splits)
qed

interpretation guids: directory some_ok registered guid_of GetClientByGuid
proof
  fix st r k assume "some_ok st" and r: "registered st r" "guid_of st r = Some k"
  then obtain limit where ok: "registry_ok limit st" by blast
  obtain c where c: "m_pool st r = Some c" "(m_guid c, r) \<in> set (m_clients st)"
    using registeredE [OF ok r(1)] by metis
  with r(2) registry_okD(1) [OF ok] show "GetClientByGuid k st = Some r"
    by (simp add: guid_of_def GetClientByGuid_def)
qed

lemma slot_of_bounds:
  assumes "registry_ok limit st" "registered st r" "slot_of st r = Some k"
  shows "k \<in> {0..<length (m_clientsBySlotId st)} - {31}"
  using assms by (auto simp: slot_of_def HasSlotId_def client_ok_def elim!: registeredE split: option.splits if_splits)

text \<open>The number of slots never changes.\<close>

lemma length_slots_step:
  assumes "reg_step oneSync expired s s'"
  shows "length (m_clientsBySlotId (snd s')) = length (m_clientsBySlotId (snd s))"
  using assms
proof cases
  case (register st guid limit tempId name token addr now)
  then show ?thesis
    by (simp add: register_client_def MakeClient_def reg_SetNetId_def reg_SetTcpEndPoint_def
        reg_SetConnectionToken_def OnAssignNetId_def OnAssignTcpEndPoint_def OnAssignConnectionToken_def Let_def
        split: option.splits)
next
  case (peer st r limit peer address)
  then show ?thesis
    by (simp add: reg_SetPeer_def OnAssignPeer_def Let_def split: option.splits)
next
  case (connecting st r c st' limit)
  then show ?thesis
    by (auto simp: HandleConnectingClient_def reg_SetNetId_def OnAssignNetId_def split: option.splits)
next
  case (host limit st w)
  then show ?thesis by (simp add: SetHost_def split: option.splits)
next
  case (remove st r limit)
  then show ?thesis by (cases "m_pool st r") (simp_all add: RemoveClient_def Let_def)
next
  case (expired limit st r)
  then show ?thesis by (simp add: expire_def)
qed simp

lemma length_slots:
  assumes "reachable bigMode oneSync expired s"
  shows "length (m_clientsBySlotId (snd s)) = (if bigMode then 2049 else 129)"
  using assms
  by induction (simp_all add: ClientRegistry_make_def MAX_CLIENTS_def length_slots_step)

text \<open>After a removal, no key of the removed client finds it, except its TCP end point.\<close>

lemma RemoveClient_unfindable:
  assumes ok: "registry_ok limit st" and r: "registered st r" and c: "m_pool st r = Some c"
  defines "st' \<equiv> RemoveClient r st"
  shows "GetClientByGuid (m_guid c) st' = None" "GetClientByNetID (m_netId c) st' = None"
    "HasPreviousNetId c \<Longrightarrow> GetClientByNetID (m_previousNetId c) st' = None"
    "GetClientByPeer (GetPeer c) st' = None" "GetClientByConnectionToken (m_connectionToken c) st' = None"
    "\<not> HasClientByConnectionTokenHash (HashString (m_connectionToken c)) st'"
    "HasSlotId c \<Longrightarrow> GetClientBySlotID (unat (m_slotId c)) st' = None"
    "GetClientByTcpEndPoint a st' = GetClientByTcpEndPoint a st"
proof -
  note eq = RemoveClient_fields [OF c]
  have "map_of (filter (\<lambda>(g, _). g \<noteq> m_guid c) xs) (m_guid c) = None" for xs :: "(string \<times> client_ref) list"
    by (induction xs) auto
  then show "GetClientByGuid (m_guid c) st' = None" by (simp add: GetClientByGuid_def st'_def eq)
  show "GetClientByNetID (m_netId c) st' = None" "GetClientByPeer (GetPeer c) st' = None"
    "GetClientByConnectionToken (m_connectionToken c) st' = None"
    "HasPreviousNetId c \<Longrightarrow> GetClientByNetID (m_previousNetId c) st' = None"
    "\<not> HasClientByConnectionTokenHash (HashString (m_connectionToken c)) st'"
    by (simp_all add: GetClientByNetID_def GetClientByPeer_def GetClientByConnectionToken_def
        HasClientByConnectionTokenHash_def weak_lock_def st'_def eq)
  show "HasSlotId c \<Longrightarrow> GetClientBySlotID (unat (m_slotId c)) st' = None"
    by (auto simp: GetClientBySlotID_def weak_lock_def st'_def eq)
  show "GetClientByTcpEndPoint a st' = GetClientByTcpEndPoint a st"
    using c by (auto simp: GetClientByTcpEndPoint_def weak_lock_def st'_def eq split: option.splits)
qed

text \<open>A second removal of the same client counts it down again.\<close>

lemma RemoveClient_twice_amount:
  assumes "m_pool st r = Some c" "HasConnected c"
  shows "m_amountConnectedClients (RemoveClient r (RemoveClient r st)) = m_amountConnectedClients st - 2"
proof -
  have "m_pool (RemoveClient r st) r = Some (SetSlotId (- 1) c)" using assms(1) by (simp add: RemoveClient_fields)
  from RemoveClient_fields(11) [OF this] RemoveClient_fields(11) [OF assms(1)] assms(2)
  show ?thesis by (simp add: HasConnected_def SetSlotId_def)
qed

end
