(* ===== verification/FormData.thy ===== *)
theory FormData
  imports Prelude
begin

text \<open>
  \<open>net-base/src/FormData.cpp\<close>: decoding of \<open>key=value&key2=value2\<close> request bodies, with the specification
  that every way to encode a list of fields is decoded to these fields. The result of
  \<open>DecodeFormData\<close> is the content of its \<open>std::map\<close>.
\<close>

definition hex_digit :: "char \<Rightarrow> nat option" where
  "hex_digit c =
     (let n = of_char c :: nat in
      if 48 \<le> n \<and> n \<le> 57 then Some (n - 48)
      else if 65 \<le> n \<and> n \<le> 70 then Some (n - 55)
      else if 97 \<le> n \<and> n \<le> 102 then Some (n - 87) else None)"

definition is_space :: "char \<Rightarrow> bool" where
  "is_space c \<longleftrightarrow> (let n = of_char c :: nat in n = 32 \<or> 9 \<le> n \<and> n \<le> 13)"

text \<open>\<open>std::stoi(ab, nullptr, 16)\<close> for two characters; \<open>None\<close> is \<open>std::invalid_argument\<close>.\<close>

definition stoi16 :: "char \<Rightarrow> char \<Rightarrow> int option" where
  "stoi16 a b =
     (case hex_digit a of
        Some x \<Rightarrow> (case hex_digit b of Some y \<Rightarrow> Some (int (16 * x + y)) | None \<Rightarrow> Some (int x))
      | None \<Rightarrow>
          if is_space a \<or> a = CHR ''+'' then map_option int (hex_digit b)
          else if a = CHR ''-'' then map_option (\<lambda>y. - int y) (hex_digit b) else None)"

fun UrlDecode_loop :: "bool \<Rightarrow> string \<Rightarrow> string \<Rightarrow> bool \<times> string" where
  "UrlDecode_loop replacePlus [] out = (True, out)"
| "UrlDecode_loop replacePlus (c # cs) out =
     (if c = CHR ''%'' then
        (case cs of
           a # b # rest \<Rightarrow>
             (case stoi16 a b of
                Some v \<Rightarrow> UrlDecode_loop replacePlus rest (out @ [char_of (nat (v mod 256))])
              | None \<Rightarrow> (False, out))
         | _ \<Rightarrow> (False, out))
      else if c = CHR ''+'' \<and> replacePlus then UrlDecode_loop replacePlus cs (out @ [CHR '' ''])
      else UrlDecode_loop replacePlus cs (out @ [c]))"

definition UrlDecode :: "string \<Rightarrow> bool \<Rightarrow> bool \<times> string" where
  "UrlDecode inp replacePlus = UrlDecode_loop replacePlus inp []"

text \<open>\<open>find\<close> of a character, as the text before it and the text from it on.\<close>

function DecodeFormData_loop :: "string \<Rightarrow> (string \<Rightarrow> string option) \<Rightarrow> string \<Rightarrow> string option" where
  "DecodeFormData_loop rem postMap =
     (if rem = [] then postMap
      else
        let key = takeWhile (\<lambda>c. c \<noteq> CHR ''='') rem; after = dropWhile (\<lambda>c. c \<noteq> CHR ''='') rem in
        if after = [] \<or> key = [] then postMap
        else
          let remaining = tl after; val = takeWhile (\<lambda>c. c \<noteq> CHR ''&'') remaining in
          if remaining = [] then postMap
          else if val = [] then postMap
          else DecodeFormData_loop (drop (length val + 1) remaining)
                 (postMap(snd (UrlDecode key True) \<mapsto> snd (UrlDecode val True))))"
  by pat_completeness auto

termination
proof (relation "measure (length \<circ> fst)", simp)
  fix rem :: string and postMap :: "string \<Rightarrow> string option" and key after remaining val :: string
  assume ne: "rem \<noteq> []" and a: "after = dropWhile (\<lambda>c. c \<noteq> CHR ''='') rem"
    and r: "\<not> (after = [] \<or> key = [])" "remaining = tl after"
  have "length after \<le> length rem" unfolding a by (rule length_dropWhile_le)
  moreover have "length remaining < length after" using r by (cases after) simp_all
  ultimately have "length remaining < length rem" by simp
  then show "((drop (length val + 1) remaining, postMap(snd (UrlDecode key True) \<mapsto> snd (UrlDecode val True))),
      rem, postMap) \<in> measure (length \<circ> fst)"
    by simp
qed

declare DecodeFormData_loop.simps [simp del]

definition DecodeFormData :: "string \<Rightarrow> string \<Rightarrow> string option" where
  "DecodeFormData inp = DecodeFormData_loop inp (\<lambda>_. None)"

subsection \<open>The encodings of a string\<close>

text \<open>
  \<open>url_encodes s e\<close>: \<open>e\<close> encodes \<open>s\<close>, each character as itself where it has no special meaning, a
  space as \<open>+\<close>, any character as a percent sign and two hexadecimal digits.
\<close>

inductive url_encodes :: "string \<Rightarrow> string \<Rightarrow> bool" where
  empty: "url_encodes [] []"
| plain: "url_encodes s e \<Longrightarrow> c \<notin> {CHR ''%'', CHR ''+'', CHR ''='', CHR ''&''} \<Longrightarrow> url_encodes (c # s) (c # e)"
| space: "url_encodes s e \<Longrightarrow> url_encodes (CHR '' '' # s) (CHR ''+'' # e)"
| hex: "url_encodes s e \<Longrightarrow> hex_digit a = Some x \<Longrightarrow> hex_digit b = Some y \<Longrightarrow> of_char c = 16 * x + y \<Longrightarrow>
    url_encodes (c # s) (CHR ''%'' # a # b # e)"

lemma hex_digit_bounds: "hex_digit a = Some x \<Longrightarrow> x < 16"
  by (auto simp: hex_digit_def Let_def split: if_splits)

lemma hex_digit_special: "hex_digit CHR ''='' = None" "hex_digit CHR ''&'' = None"
  by (simp_all add: hex_digit_def)

lemma UrlDecode_loop_encodes:
  assumes "url_encodes s e"
  shows "UrlDecode_loop True e out = (True, out @ s)"
  using assms
proof (induction arbitrary: out)
  case (hex s e a x b y c)
  have "16 * x + y < 256" using hex_digit_bounds [OF hex.hyps(2)] hex_digit_bounds [OF hex.hyps(3)] by simp
  then have "nat (int (16 * x + y) mod 256) = 16 * x + y" by simp
  then have "char_of (nat (int (16 * x + y) mod 256)) = c" by (simp only: hex.hyps(4) [symmetric] char_of_char)
  with hex show ?case by (simp add: stoi16_def)
qed auto

lemma UrlDecode_encodes: "url_encodes s e \<Longrightarrow> UrlDecode e True = (True, s)"
  by (simp add: UrlDecode_def UrlDecode_loop_encodes)

lemma url_encodes_separators:
  assumes "url_encodes s e"
  shows "CHR ''='' \<notin> set e" "CHR ''&'' \<notin> set e" "e = [] \<longleftrightarrow> s = []"
  using assms by induction (auto simp: hex_digit_special)

subsection \<open>Encoded fields\<close>

inductive form_encodes :: "(string \<times> string) list \<Rightarrow> string \<Rightarrow> bool" where
  one: "url_encodes k ke \<Longrightarrow> url_encodes v ve \<Longrightarrow> k \<noteq> [] \<Longrightarrow> v \<noteq> [] \<Longrightarrow> form_encodes [(k, v)] (ke @ ''='' @ ve)"
| more: "url_encodes k ke \<Longrightarrow> url_encodes v ve \<Longrightarrow> k \<noteq> [] \<Longrightarrow> v \<noteq> [] \<Longrightarrow> form_encodes kvs e \<Longrightarrow>
    form_encodes ((k, v) # kvs) (ke @ ''='' @ ve @ ''&'' @ e)"

lemma DecodeFormData_field:
  assumes "url_encodes k ke" "url_encodes v ve" "k \<noteq> []" "v \<noteq> []" "rest = [] \<or> hd rest = CHR ''&''"
  shows "DecodeFormData_loop (ke @ ''='' @ ve @ rest) m = DecodeFormData_loop (tl rest) (m(k \<mapsto> v))"
proof -
  note sep = url_encodes_separators [OF assms(1)] url_encodes_separators [OF assms(2)]
  have key: "takeWhile (\<lambda>c. c \<noteq> CHR ''='') (ke @ ''='' @ ve @ rest) = ke"
    "dropWhile (\<lambda>c. c \<noteq> CHR ''='') (ke @ ''='' @ ve @ rest) = ''='' @ ve @ rest"
    using sep(1) by (auto simp: takeWhile_append dropWhile_append)
  have val: "takeWhile (\<lambda>c. c \<noteq> CHR ''&'') (ve @ rest) = ve"
    using sep(5) assms(5) by (cases rest) (auto simp: takeWhile_append)
  have "DecodeFormData_loop (ke @ ''='' @ ve @ rest) m
      = DecodeFormData_loop (drop (length ve + 1) (ve @ rest)) (m(k \<mapsto> v))"
    using key val sep(3,6) assms(3,4) UrlDecode_encodes [OF assms(1)] UrlDecode_encodes [OF assms(2)]
    by (subst DecodeFormData_loop.simps) (simp add: Let_def)
  also have "drop (length ve + 1) (ve @ rest) = tl rest" by (simp add: drop_Suc)
  finally show ?thesis .
qed

lemma DecodeFormData_loop_encodes:
  assumes "form_encodes kvs e"
  shows "DecodeFormData_loop e m = m ++ map_of (rev kvs)"
  using assms
proof (induction arbitrary: m)
  case (one k ke v ve)
  then show ?case
    using DecodeFormData_field [of k ke v ve "[]" m] by (auto simp: DecodeFormData_loop.simps [of "[]"] map_add_def fun_eq_iff)
next
  case (more k ke v ve kvs e)
  then show ?case
    using DecodeFormData_field [of k ke v ve "CHR ''&'' # e" m] by (simp add: map_add_assoc [symmetric] map_add_def fun_eq_iff split: option.split)
qed

end
