(* ===== verification/NetBuffer.thy ===== *)
theory NetBuffer
  imports PacketContract
begin

text \<open>
  \<open>net::Buffer\<close> of \<open>net-base/include/NetBuffer.h\<close> and \<open>net-base/src/NetBuffer.cpp\<close>. A buffer holds
  its bytes behind a \<open>shared_ptr\<close>, so copies share them; the heap of byte vectors is explicit and an
  address is a position in it. \<open>None\<close> is undefined behaviour: a null pointer (a moved-from buffer) or
  a \<open>memcpy\<close> outside the vector.
\<close>

type_synonym bytes_heap = "u8 list list"

record net_buffer =
  m_bytes :: "nat option"
  m_curOff :: u64
  m_end :: bool

definition GetBytes :: "bytes_heap \<Rightarrow> net_buffer \<Rightarrow> u8 list option" where
  "GetBytes h b =
     (case m_bytes b of None \<Rightarrow> None | Some a \<Rightarrow> if a < length h then Some (h ! a) else None)"

definition make_shared :: "u8 list \<Rightarrow> bytes_heap \<Rightarrow> net_buffer \<times> bytes_heap" where
  "make_shared bs h = (\<lparr>m_bytes = Some (length h), m_curOff = 0, m_end = False\<rparr>, h @ [bs])"

definition Buffer_empty :: "bytes_heap \<Rightarrow> net_buffer \<times> bytes_heap" where
  "Buffer_empty h = make_shared [] h"

definition Buffer_of_bytes :: "u8 list \<Rightarrow> bytes_heap \<Rightarrow> net_buffer \<times> bytes_heap" where
  "Buffer_of_bytes bs h = make_shared bs h"

definition Buffer_sized :: "nat \<Rightarrow> bytes_heap \<Rightarrow> net_buffer \<times> bytes_heap" where
  "Buffer_sized n h = make_shared (replicate n 0) h"

text \<open>Copying shares the bytes; moving leaves a null pointer behind.\<close>

definition Buffer_copy :: "net_buffer \<Rightarrow> net_buffer" where
  "Buffer_copy other = \<lparr>m_bytes = m_bytes other, m_curOff = m_curOff other, m_end = m_end other\<rparr>"

definition Buffer_move :: "net_buffer \<Rightarrow> net_buffer \<times> net_buffer" where
  "Buffer_move other = (Buffer_copy other, other\<lparr>m_bytes := None\<rparr>)"

definition Buffer_Clone :: "net_buffer \<Rightarrow> bytes_heap \<Rightarrow> (net_buffer \<times> bytes_heap) option" where
  "Buffer_Clone b h =
     (case GetBytes h b of
        None \<Rightarrow> None
      | Some bs \<Rightarrow>
          let (otherBuf, h') = make_shared bs h in
          Some (otherBuf\<lparr>m_end := m_end b, m_curOff := m_curOff b\<rparr>, h'))"

definition Buffer_IsAtEnd :: "net_buffer \<Rightarrow> bytes_heap \<Rightarrow> bool option" where
  "Buffer_IsAtEnd b h = map_option (\<lambda>bs. m_end b \<or> m_curOff b = of_nat (length bs)) (GetBytes h b)"

definition Buffer_CanRead :: "u64 \<Rightarrow> net_buffer \<Rightarrow> u8 list \<Rightarrow> bool" where
  "Buffer_CanRead len b bs \<longleftrightarrow> m_curOff b + len \<le> of_nat (length bs)"

definition Buffer_EndsAfterRead :: "u64 \<Rightarrow> net_buffer \<Rightarrow> u8 list \<Rightarrow> bool" where
  "Buffer_EndsAfterRead len b bs \<longleftrightarrow> m_curOff b + len \<ge> of_nat (length bs)"

text \<open>\<open>Read(void*, size_t)\<close>: the result, the bytes stored to the destination, and the buffer.\<close>

definition Buffer_Read :: "u64 \<Rightarrow> net_buffer \<Rightarrow> bytes_heap \<Rightarrow> (bool \<times> u8 list \<times> net_buffer) option" where
  "Buffer_Read len b h =
     (case GetBytes h b of
        None \<Rightarrow> None
      | Some bs \<Rightarrow>
          let b' = (if Buffer_EndsAfterRead len b bs then b\<lparr>m_end := True\<rparr> else b) in
          if Buffer_EndsAfterRead len b bs \<and> \<not> Buffer_CanRead len b bs
          then Some (False, replicate (unat len) 0, b')
          else if unat (m_curOff b) + unat len > length bs then None
          else Some (True, take (unat len) (drop (unat (m_curOff b)) bs), b'\<lparr>m_curOff := m_curOff b + len\<rparr>))"

text \<open>\<open>Read<std::string>(length)\<close>: the empty string where the bytes are not there.\<close>

definition Buffer_Read_string :: "u64 \<Rightarrow> net_buffer \<Rightarrow> bytes_heap \<Rightarrow> (u8 list \<times> net_buffer) option" where
  "Buffer_Read_string len b h =
     (case GetBytes h b of
        None \<Rightarrow> None
      | Some bs \<Rightarrow>
          let b' = (if Buffer_EndsAfterRead len b bs then b\<lparr>m_end := True\<rparr> else b) in
          if Buffer_EndsAfterRead len b bs \<and> \<not> Buffer_CanRead len b bs then Some ([], b')
          else if unat (m_curOff b) + unat len > length bs then None
          else Some (take (unat len) (drop (unat (m_curOff b)) bs), b'\<lparr>m_curOff := m_curOff b + len\<rparr>))"

definition resize_to :: "nat \<Rightarrow> u8 list \<Rightarrow> u8 list" where
  "resize_to n bs = take n bs @ replicate (n - length bs) 0"

definition EnsureWritableSize :: "u64 \<Rightarrow> net_buffer \<Rightarrow> bytes_heap \<Rightarrow> bytes_heap option" where
  "EnsureWritableSize len b h =
     (case (m_bytes b, GetBytes h b) of
        (Some a, Some bs) \<Rightarrow>
          Some (if m_curOff b + len \<ge> of_nat (length bs) then h[a := resize_to (unat (m_curOff b + len)) bs] else h)
      | _ \<Rightarrow> None)"

text \<open>\<open>memcpy\<close> of \<open>src\<close> to position \<open>off\<close>.\<close>

definition overwrite :: "nat \<Rightarrow> u8 list \<Rightarrow> u8 list \<Rightarrow> u8 list" where
  "overwrite off src bs = take off bs @ src @ drop (off + length src) bs"

definition Buffer_store :: "u8 list \<Rightarrow> net_buffer \<Rightarrow> bytes_heap \<Rightarrow> (net_buffer \<times> bytes_heap) option" where
  "Buffer_store src b h =
     (case (m_bytes b, GetBytes h b) of
        (Some a, Some bs) \<Rightarrow>
          if unat (m_curOff b) + length src > length bs then None
          else Some (b\<lparr>m_curOff := m_curOff b + of_nat (length src)\<rparr>, h[a := overwrite (unat (m_curOff b)) src bs])
      | _ \<Rightarrow> None)"

definition Buffer_Write :: "u8 list \<Rightarrow> net_buffer \<Rightarrow> bytes_heap \<Rightarrow> (net_buffer \<times> bytes_heap) option" where
  "Buffer_Write src b h =
     (case EnsureWritableSize (of_nat (length src)) b h of
        None \<Rightarrow> None
      | Some h' \<Rightarrow> Buffer_store src b h')"

text \<open>\<open>Write<T>\<close> and \<open>Read<T>\<close> move the memory image of an integer.\<close>

definition Buffer_Write_int :: "'a::len word \<Rightarrow> net_buffer \<Rightarrow> bytes_heap \<Rightarrow> (net_buffer \<times> bytes_heap) option" where
  "Buffer_Write_int v = Buffer_Write (le_enc (LENGTH('a) div 8) v)"

definition Buffer_Read_int :: "net_buffer \<Rightarrow> bytes_heap \<Rightarrow> ('a::len word \<times> net_buffer) option" where
  "Buffer_Read_int b h =
     map_option (\<lambda>(_, bs, b'). (le_dec bs, b')) (Buffer_Read (of_nat (LENGTH('a) div 8)) b h)"

text \<open>
  \<open>ReadTo\<close>: the destination is enlarged before the source is checked. The result, both buffers, heap.
\<close>

definition Buffer_ReadTo :: "net_buffer \<Rightarrow> u64 \<Rightarrow> net_buffer \<Rightarrow> bytes_heap
    \<Rightarrow> (bool \<times> net_buffer \<times> net_buffer \<times> bytes_heap) option" where
  "Buffer_ReadTo other len b h =
     (case EnsureWritableSize len other h of
        None \<Rightarrow> None
      | Some h' \<Rightarrow>
          case GetBytes h' b of
            None \<Rightarrow> None
          | Some bs \<Rightarrow>
              if m_curOff b + len > of_nat (length bs) then Some (False, b, other, h')
              else if unat (m_curOff b) + unat len > length bs then None
              else
                case Buffer_store (take (unat len) (drop (unat (m_curOff b)) bs)) other h' of
                  None \<Rightarrow> None
                | Some (other', h'') \<Rightarrow> Some (True, b\<lparr>m_curOff := m_curOff b + len\<rparr>, other', h''))"

definition Buffer_Reset :: "net_buffer \<Rightarrow> net_buffer" where
  "Buffer_Reset b = b\<lparr>m_curOff := 0\<rparr>"

definition Buffer_Seek :: "u64 \<Rightarrow> net_buffer \<Rightarrow> bytes_heap \<Rightarrow> net_buffer option" where
  "Buffer_Seek position b h =
     map_option (\<lambda>bs. if position \<le> of_nat (length bs) then b\<lparr>m_curOff := position\<rparr> else b) (GetBytes h b)"

definition GetRemainingBytes :: "net_buffer \<Rightarrow> bytes_heap \<Rightarrow> u64 option" where
  "GetRemainingBytes b h = map_option (\<lambda>bs. of_nat (length bs) - m_curOff b) (GetBytes h b)"

text \<open>
  What the network library sends of a buffer: \<open>enet_packet_create(GetBuffer(), GetCurOffset())\<close>.
\<close>

definition sent_bytes :: "net_buffer \<Rightarrow> bytes_heap \<Rightarrow> u8 list option" where
  "sent_bytes b h = map_option (take (unat (m_curOff b))) (GetBytes h b)"

subsection \<open>Well-formed buffers\<close>

text \<open>\<open>buffer_at\<close>: the buffer holds the bytes \<open>bs\<close>, its position lies within them.\<close>

definition buffer_at :: "bytes_heap \<Rightarrow> net_buffer \<Rightarrow> u8 list \<Rightarrow> bool" where
  "buffer_at h b bs \<longleftrightarrow> GetBytes h b = Some bs \<and> unat (m_curOff b) \<le> length bs \<and> length bs < 2 ^ 63"

lemma GetBytes_Some: "GetBytes h b = Some bs \<longleftrightarrow> (\<exists>a. m_bytes b = Some a \<and> a < length h \<and> h ! a = bs)"
  by (auto simp: GetBytes_def split: option.splits)

lemma off_add:
  assumes "unat off + n < 2 ^ 64"
  shows "unat (off + of_nat n :: u64) = unat off + n"
  using assms by (simp add: unat_add_u64)

lemma resize_overwrite:
  assumes "off \<le> length bs" "length bs \<le> off + length src"
  shows "overwrite off src (resize_to (off + length src) bs) = overwrite off src bs"
  using assms by (simp add: overwrite_def resize_to_def)

text \<open>Writing overwrites from the position on and extends the vector as needed.\<close>

lemma Buffer_Write_at:
  assumes "buffer_at h b bs" "unat (m_curOff b) + length src < 2 ^ 63"
  obtains a where "m_bytes b = Some a" "a < length h"
    "Buffer_Write src b h = Some (b\<lparr>m_curOff := m_curOff b + of_nat (length src)\<rparr>,
       h[a := overwrite (unat (m_curOff b)) src bs])"
proof -
  obtain a where a: "m_bytes b = Some a" "a < length h" "h ! a = bs"
    using assms(1) by (auto simp: buffer_at_def GetBytes_Some)
  let ?off = "unat (m_curOff b)" and ?n = "length src"
  have off: "?off \<le> length bs" and small: "length bs < 2 ^ 63" using assms(1) by (simp_all add: buffer_at_def)
  have sum: "unat (m_curOff b + of_nat ?n) = ?off + ?n" using assms(2) by (simp add: off_add)
  have le: "m_curOff b + of_nat ?n \<ge> of_nat (length bs) \<longleftrightarrow> length bs \<le> ?off + ?n"
    using small by (simp add: word_le_nat_alt sum)
  have "Buffer_Write src b h = Some (b\<lparr>m_curOff := m_curOff b + of_nat ?n\<rparr>, h[a := overwrite ?off src bs])"
  proof (cases "length bs \<le> ?off + ?n")
    case True
    have "length (resize_to (?off + ?n) bs) = ?off + ?n" using True by (simp add: resize_to_def)
    moreover have "overwrite ?off src (resize_to (?off + ?n) bs) = overwrite ?off src bs"
      by (rule resize_overwrite [OF off True])
    ultimately show ?thesis
      using True le a by (simp add: Buffer_Write_def EnsureWritableSize_def GetBytes_def sum Buffer_store_def)
  next
    case False
    then show ?thesis
      using le a by (simp add: Buffer_Write_def EnsureWritableSize_def GetBytes_def Buffer_store_def)
  qed
  with a that show thesis by blast
qed

lemma buffer_at_Write:
  assumes "buffer_at h b bs" "length bs + length src < 2 ^ 63"
  obtains b' h' where "Buffer_Write src b h = Some (b', h')" "buffer_at h' b' (overwrite (unat (m_curOff b)) src bs)"
    "unat (m_curOff b') = unat (m_curOff b) + length src" "m_end b' = m_end b" "m_bytes b' = m_bytes b"
    "length h' = length h" "\<And>a. m_bytes b \<noteq> Some a \<Longrightarrow> h' ! a = h ! a"
proof -
  have fit: "unat (m_curOff b) + length src < 2 ^ 63" using assms by (simp add: buffer_at_def)
  obtain a where a: "m_bytes b = Some a" "a < length h"
    "Buffer_Write src b h = Some (b\<lparr>m_curOff := m_curOff b + of_nat (length src)\<rparr>,
       h[a := overwrite (unat (m_curOff b)) src bs])"
    using Buffer_Write_at [OF assms(1) fit] .
  have sum: "unat (m_curOff b + of_nat (length src)) = unat (m_curOff b) + length src"
    using fit by (simp add: off_add)
  show thesis
    by (rule that [OF a(3)])
      (use a assms sum in \<open>auto simp: buffer_at_def GetBytes_def overwrite_def\<close>)
qed

text \<open>At the end of the bytes, writing appends.\<close>

lemma overwrite_append [simp]: "overwrite (length bs) src bs = bs @ src"
  by (simp add: overwrite_def)

lemma Buffer_Read_at:
  assumes "buffer_at h b bs" "unat len < 2 ^ 63" "unat (m_curOff b) + unat len \<le> length bs"
  shows "Buffer_Read len b h = Some (True, take (unat len) (drop (unat (m_curOff b)) bs),
      b\<lparr>m_end := (m_end b \<or> unat (m_curOff b) + unat len = length bs), m_curOff := m_curOff b + len\<rparr>)"
proof -
  have small: "length bs < 2 ^ 63" using assms(1) by (simp add: buffer_at_def)
  have sum: "unat (m_curOff b + len) = unat (m_curOff b) + unat len"
    using assms small by (simp add: unat_add_u64)
  show ?thesis
    using assms small
    by (auto simp: Buffer_Read_def buffer_at_def Buffer_CanRead_def Buffer_EndsAfterRead_def word_le_nat_alt sum)
qed

lemma Buffer_Read_past:
  assumes "buffer_at h b bs" "unat len < 2 ^ 63" "length bs < unat (m_curOff b) + unat len"
  shows "Buffer_Read len b h = Some (False, replicate (unat len) 0, b\<lparr>m_end := True\<rparr>)"
proof -
  have small: "length bs < 2 ^ 63" "unat (m_curOff b) \<le> length bs" using assms(1) by (simp_all add: buffer_at_def)
  have sum: "unat (m_curOff b + len) = unat (m_curOff b) + unat len"
    using assms(2) small by (simp add: unat_add_u64)
  show ?thesis
    using assms small
    by (simp add: Buffer_Read_def buffer_at_def Buffer_CanRead_def Buffer_EndsAfterRead_def word_le_nat_alt sum)
qed

subsection \<open>Sequences of reads and writes\<close>

fun Buffer_Write_all :: "u8 list list \<Rightarrow> net_buffer \<Rightarrow> bytes_heap \<Rightarrow> (net_buffer \<times> bytes_heap) option" where
  "Buffer_Write_all [] b h = Some (b, h)"
| "Buffer_Write_all (c # cs) b h =
     (case Buffer_Write c b h of None \<Rightarrow> None | Some (b', h') \<Rightarrow> Buffer_Write_all cs b' h')"

fun Buffer_Read_all :: "nat list \<Rightarrow> net_buffer \<Rightarrow> bytes_heap \<Rightarrow> (u8 list list \<times> net_buffer) option" where
  "Buffer_Read_all [] b h = Some ([], b)"
| "Buffer_Read_all (n # ns) b h =
     (case Buffer_Read (of_nat n) b h of
        Some (True, bs, b') \<Rightarrow> map_option (\<lambda>(cs, b'). (bs # cs, b')) (Buffer_Read_all ns b' h)
      | _ \<Rightarrow> None)"

lemma Buffer_Write_all_appends:
  assumes "buffer_at h b bs" "unat (m_curOff b) = length bs" "length bs + length (concat cs) < 2 ^ 63"
  shows "\<exists>b' h'. Buffer_Write_all cs b h = Some (b', h') \<and> buffer_at h' b' (bs @ concat cs)
    \<and> unat (m_curOff b') = length (bs @ concat cs) \<and> m_end b' = m_end b \<and> m_bytes b' = m_bytes b
    \<and> length h' = length h \<and> (\<forall>a. m_bytes b \<noteq> Some a \<longrightarrow> h' ! a = h ! a)"
  using assms
proof (induction cs arbitrary: b h bs)
  case (Cons c cs)
  have fit: "length bs + length c < 2 ^ 63" using Cons.prems(3) by simp
  obtain b1 h1 where w: "Buffer_Write c b h = Some (b1, h1)"
    "buffer_at h1 b1 (overwrite (unat (m_curOff b)) c bs)"
    "unat (m_curOff b1) = unat (m_curOff b) + length c" "m_end b1 = m_end b" "m_bytes b1 = m_bytes b"
    "length h1 = length h" "\<And>a. m_bytes b \<noteq> Some a \<Longrightarrow> h1 ! a = h ! a"
    using buffer_at_Write [OF Cons.prems(1) fit] by metis
  have "buffer_at h1 b1 (bs @ c)" "unat (m_curOff b1) = length (bs @ c)"
    using w(2,3) Cons.prems(2) by simp_all
  from Cons.IH [OF this] Cons.prems(3) w show ?case by (auto simp: algebra_simps)
qed simp

lemma Buffer_Read_all_splits:
  assumes "buffer_at h b (pre @ concat cs)" "unat (m_curOff b) = length pre"
  shows "\<exists>b'. Buffer_Read_all (map length cs) b h = Some (cs, b') \<and> buffer_at h b' (pre @ concat cs)
    \<and> unat (m_curOff b') = length (pre @ concat cs)"
  using assms
proof (induction cs arbitrary: b pre)
  case (Cons c cs)
  have small: "length (pre @ concat (c # cs)) < 2 ^ 63" using Cons.prems(1) by (simp add: buffer_at_def)
  then have n: "unat (of_nat (length c) :: u64) = length c" by simp
  let ?b = "b\<lparr>m_end := (m_end b \<or> unat (m_curOff b) + unat (of_nat (length c) :: u64) = length (pre @ concat (c # cs))),
    m_curOff := m_curOff b + of_nat (length c)\<rparr>"
  have r: "Buffer_Read (of_nat (length c)) b h = Some (True, c, ?b)"
    using Buffer_Read_at [OF Cons.prems(1), of "of_nat (length c)"] small Cons.prems(2) by (simp add: n)
  have off: "unat (m_curOff ?b) = length (pre @ c)"
    using off_add [of "m_curOff b" "length c"] small Cons.prems(2) by simp
  have at: "buffer_at h ?b ((pre @ c) @ concat cs)"
    using Cons.prems(1) off small by (auto simp: buffer_at_def GetBytes_def)
  from Cons.IH [OF at off] r show ?case by auto
qed simp

text \<open>What is written to a new buffer is what the network library sends and what is read back.\<close>

lemma make_shared_at:
  assumes "length bs < 2 ^ 63"
  shows "buffer_at (snd (make_shared bs h)) (fst (make_shared bs h)) bs"
  using assms by (simp add: make_shared_def buffer_at_def GetBytes_def)

lemma sent_at: "buffer_at h b bs \<Longrightarrow> unat (m_curOff b) = length bs \<Longrightarrow> sent_bytes b h = Some bs"
  by (simp add: sent_bytes_def buffer_at_def)

lemma Buffer_Reset_at: "buffer_at h b bs \<Longrightarrow> buffer_at h (Buffer_Reset b) bs"
  by (simp add: buffer_at_def Buffer_Reset_def GetBytes_def)

lemma IsAtEnd_at:
  assumes "buffer_at h b bs" "unat (m_curOff b) = length bs"
  shows "Buffer_IsAtEnd b h = Some True"
proof -
  have "m_curOff b = of_nat (length bs)" by (metis assms(2) of_nat_unat ucast_id)
  then show ?thesis using assms(1) by (simp add: Buffer_IsAtEnd_def buffer_at_def)
qed

lemma Buffer_write_read_all:
  assumes "length (concat cs) < 2 ^ 63"
  shows "\<exists>b h' b'. Buffer_Write_all cs (fst (Buffer_empty h)) (snd (Buffer_empty h)) = Some (b, h')
    \<and> sent_bytes b h' = Some (concat cs)
    \<and> Buffer_Read_all (map length cs) (Buffer_Reset b) h' = Some (cs, b') \<and> Buffer_IsAtEnd b' h' = Some True"
proof -
  have at: "buffer_at (snd (Buffer_empty h)) (fst (Buffer_empty h)) []"
    unfolding Buffer_empty_def by (rule make_shared_at) simp
  have zero: "unat (m_curOff (fst (Buffer_empty h))) = length []"
    by (simp add: Buffer_empty_def make_shared_def)
  obtain b h' where w: "Buffer_Write_all cs (fst (Buffer_empty h)) (snd (Buffer_empty h)) = Some (b, h')"
    "buffer_at h' b (concat cs)" "unat (m_curOff b) = length (concat cs)"
    using Buffer_Write_all_appends [OF at zero, of cs] assms by auto
  have "buffer_at h' (Buffer_Reset b) ([] @ concat cs)" using Buffer_Reset_at [OF w(2)] by simp
  moreover have "unat (m_curOff (Buffer_Reset b)) = length []" by (simp add: Buffer_Reset_def)
  ultimately obtain b' where r: "Buffer_Read_all (map length cs) (Buffer_Reset b) h' = Some (cs, b')"
    "buffer_at h' b' ([] @ concat cs)" "unat (m_curOff b') = length ([] @ concat cs)"
    using Buffer_Read_all_splits by blast
  show ?thesis using w(1) sent_at [OF w(2,3)] r(1) IsAtEnd_at [OF r(2,3)] by blast
qed

subsection \<open>Sharing\<close>

lemma GetBytes_copy [simp]: "GetBytes h (Buffer_copy b) = GetBytes h b"
  by (simp add: GetBytes_def Buffer_copy_def)

lemma Buffer_Clone_at:
  assumes "buffer_at h b bs"
  obtains c where "Buffer_Clone b h = Some (c, h @ [bs])" "buffer_at (h @ [bs]) c bs" "m_bytes c = Some (length h)"
    "m_curOff c = m_curOff b" "m_end c = m_end b"
proof (rule that)
  let ?c = "\<lparr>m_bytes = Some (length h), m_curOff = m_curOff b, m_end = m_end b\<rparr>"
  show "Buffer_Clone b h = Some (?c, h @ [bs])" "buffer_at (h @ [bs]) ?c bs"
    using assms by (simp_all add: Buffer_Clone_def buffer_at_def make_shared_def GetBytes_def)
qed simp_all

lemma GetBytes_grow: "GetBytes h b = Some bs \<Longrightarrow> GetBytes (h @ x) b = Some bs"
  by (auto simp: GetBytes_def nth_append split: option.splits if_splits)

text \<open>A write to a buffer is seen by its copies and not by its clones.\<close>

lemma Write_shared:
  assumes "buffer_at h b bs" "length bs + length src < 2 ^ 63"
  shows "\<exists>c h1 b' h2. Buffer_Clone b h = Some (c, h1) \<and> Buffer_Write src b h1 = Some (b', h2)
    \<and> GetBytes h2 (Buffer_copy b) = Some (overwrite (unat (m_curOff b)) src bs) \<and> GetBytes h2 c = Some bs"
proof -
  obtain c where c: "Buffer_Clone b h = Some (c, h @ [bs])" "buffer_at (h @ [bs]) c bs" "m_bytes c = Some (length h)"
    using Buffer_Clone_at [OF assms(1)] .
  have at: "buffer_at (h @ [bs]) b bs" using assms(1) GetBytes_grow by (auto simp: buffer_at_def)
  obtain b' h2 where w: "Buffer_Write src b (h @ [bs]) = Some (b', h2)"
    "buffer_at h2 b' (overwrite (unat (m_curOff b)) src bs)" "m_bytes b' = m_bytes b"
    "length h2 = length (h @ [bs])" "\<And>a. m_bytes b \<noteq> Some a \<Longrightarrow> h2 ! a = (h @ [bs]) ! a"
    using buffer_at_Write [OF at assms(2)] by metis
  have "m_bytes b \<noteq> Some (length h)" using assms(1) by (auto simp: buffer_at_def GetBytes_Some)
  then have "GetBytes h2 c = Some bs" using w(4) w(5) [of "length h"] c(3) by (simp add: GetBytes_def)
  moreover have "GetBytes h2 (Buffer_copy b) = Some (overwrite (unat (m_curOff b)) src bs)"
    using w(2,3) by (simp add: buffer_at_def GetBytes_def Buffer_copy_def)
  ultimately show ?thesis using c(1) w(1) by blast
qed

text \<open>\<open>ReadTo\<close> without enough bytes returns false, but has enlarged the destination.\<close>

lemma ReadTo_short:
  assumes "buffer_at h b bs" "buffer_at h other os" "m_bytes other \<noteq> m_bytes b"
    and "length bs < unat (m_curOff b) + unat len" "unat len < 2 ^ 62" "length os < 2 ^ 62"
    and "length os < unat (m_curOff other) + unat len"
  shows "\<exists>h'. Buffer_ReadTo other len b h = Some (False, b, other, h')
    \<and> GetBytes h' other = Some (os @ replicate (unat (m_curOff other) + unat len - length os) 0)"
proof -
  obtain a where a: "m_bytes other = Some a" "a < length h" "h ! a = os"
    using assms(2) by (auto simp: buffer_at_def GetBytes_Some)
  obtain d where d: "m_bytes b = Some d" "d < length h" "h ! d = bs"
    using assms(1) by (auto simp: buffer_at_def GetBytes_Some)
  have off: "unat (m_curOff b) \<le> length bs" "length bs < 2 ^ 63" "unat (m_curOff other) \<le> length os"
    using assms(1,2) by (simp_all add: buffer_at_def)
  have sum: "unat (m_curOff b + len) = unat (m_curOff b) + unat len"
    "unat (m_curOff other + len) = unat (m_curOff other) + unat len"
    using off assms(5,6) by (simp_all add: unat_add_u64)
  have grow: "EnsureWritableSize len other h
      = Some (h[a := os @ replicate (unat (m_curOff other) + unat len - length os) 0])"
    using a assms(6,7) by (simp add: EnsureWritableSize_def GetBytes_def word_le_nat_alt sum resize_to_def)
  have "d \<noteq> a" using assms(3) a d by auto
  with grow a d off assms(4) show ?thesis
    by (simp add: Buffer_ReadTo_def GetBytes_def word_less_nat_alt sum)
qed

subsection \<open>Sending a serialisable object\<close>

text \<open>
  \<open>Client::SendSerializable\<close> and the packet handlers that reply: a zeroed buffer of the maximum size,
  a writer over its bytes, and the buffer positioned behind what was written. The result is what the
  network library sends; nothing is sent when the writer fails.
\<close>

definition SendSerializable :: "'v proc \<Rightarrow> u64 \<Rightarrow> 'v \<Rightarrow> u8 list option" where
  "SendSerializable Process maxSize v =
     (case Process v (Writer (ByteWriter_make (replicate (unat maxSize) 0) maxSize)) of
        (Success, _, Writer w) \<Rightarrow> Some (take (unat (woffset w)) (wdata w))
      | _ \<Rightarrow> None)"

end
