(* ===== verification/GameServer.thy ===== *)
theory GameServer
  imports ClientRegistryLaws FormData NetBuffer ObjectIds PacketsSession PacketsGame
begin

text \<open>
  \<open>citizen-server-impl/src/GameServer.cpp\<close>: the connection handshake (\<open>ProcessPacket\<close>), sending and
  broadcasting, and dropping clients. The state is the client registry, the queue of main-thread
  callbacks, and logs of what leaves the server: packets, out-of-band messages and script events.
  Steps of the code that run script handlers leave only their log entry. The network library, the
  sync state and the packet handlers it does not implement itself are parameters of the record
  \<open>server_env\<close>.
\<close>

datatype server_event =
    PlayerDropped u32 string string nat
  | PlayerJoining u32 u32
  | ClientPlayerJoining "u32 option" u32 string u32
  | ClientPlayerDropped u32 string u32

datatype callback =
    CbDropClient client_ref string nat string
  | CbConnected client_ref u32
  | CbRouteEvent bool "u16 list" "u8 list"

text \<open>The callbacks of \<open>gscomms_execute_callback_on_sync_thread\<close>.\<close>

datatype sync_callback =
    SyncParseGameState client_ref ClientRoute
  | SyncObjectIds client_ref nat
  | SyncNetEvent client_ref "u8 list" u64

record sent_packet =
  sp_peer :: int
  sp_channel :: nat
  sp_bytes :: "u8 list"
  sp_reliable :: bool

record server =
  registry :: client_registry
  mainCallbacks :: "callback list"
  syncCallbacks :: "sync_callback list"
  packetsOut :: "sent_packet list"
  oobOut :: "(string \<times> string) list"
  scriptEvents :: "server_event list"
  voteCounts :: "u32 \<Rightarrow> int option"
  nextHeartbeatTime :: int

record server_env =
  oneSync :: bool
  bigMode :: bool
  expiredRefs :: bool
  gta5 :: bool
  peerPings :: "int \<Rightarrow> int option"
  msec :: int
  GetFreeObjectIds :: "client_ref \<Rightarrow> nat \<Rightarrow> server \<Rightarrow> u16 list"

definition client_of :: "server \<Rightarrow> client_ref \<Rightarrow> client option" where
  "client_of s r = m_pool (registry s) r"

definition on_registry :: "(client_registry \<Rightarrow> client_registry) \<Rightarrow> server \<Rightarrow> server" where
  "on_registry f s = s\<lparr>registry := f (registry s)\<rparr>"

definition on_client :: "(client \<Rightarrow> client) \<Rightarrow> client_ref \<Rightarrow> server \<Rightarrow> server" where
  "on_client f r s = on_registry (update_client f r) s"

subsection \<open>Sending\<close>

definition SendOutOfBand :: "string \<Rightarrow> string \<Rightarrow> server \<Rightarrow> server" where
  "SendOutOfBand to msg s = s\<lparr>oobOut := oobOut s @ [(to, msg)]\<rparr>"

text \<open>\<open>Client::SendPacket\<close>: nothing is sent to a client without a peer.\<close>

definition SendPacket :: "nat \<Rightarrow> u8 list \<Rightarrow> bool \<Rightarrow> client_ref \<Rightarrow> server \<Rightarrow> server" where
  "SendPacket channel bytes reliable r s =
     (case client_of s r of
        None \<Rightarrow> s
      | Some c \<Rightarrow>
          case m_peer c of
            None \<Rightarrow> s
          | Some p \<Rightarrow> s\<lparr>packetsOut := packetsOut s @
              [\<lparr>sp_peer = p, sp_channel = channel, sp_bytes = bytes, sp_reliable = reliable\<rparr>]\<rparr>)"

definition Broadcast :: "u8 list \<Rightarrow> server \<Rightarrow> server" where
  "Broadcast bytes s = fold (SendPacket 0 bytes True) (ForAllClients (registry s)) s"

text \<open>A buffer that is written field by field; \<open>None\<close> where the buffer would be left.\<close>

definition written :: "u8 list list \<Rightarrow> u8 list option" where
  "written chunks =
     (case Buffer_Write_all chunks (fst (Buffer_empty [])) (snd (Buffer_empty [])) of
        None \<Rightarrow> None
      | Some (b, h) \<Rightarrow> sent_bytes b h)"

definition ForceHeartbeatSoon :: "server_env \<Rightarrow> server \<Rightarrow> server" where
  "ForceHeartbeatSoon env s =
     (let soon = msec env + 15000 in if nextHeartbeatTime s > soon then s\<lparr>nextHeartbeatTime := soon\<rparr> else s)"

subsection \<open>Dropping a client\<close>

definition no_host_fields :: "u8 list list" where
  "no_host_fields = [le_enc 4 (0xB3EA30DE :: u32), le_enc 2 (0xFFFF :: u16), le_enc 4 (0xFFFF :: u32)]"

definition DropClientInternal :: "server_env \<Rightarrow> client_ref \<Rightarrow> string \<Rightarrow> nat \<Rightarrow> string \<Rightarrow> server \<Rightarrow> server" where
  "DropClientInternal env r resourceName dropReason realReason s =
     (case client_of s r of
        None \<Rightarrow> s
      | Some c \<Rightarrow>
          let s = (if GetPeer c \<noteq> 0 then SendOutOfBand (m_peerAddress c) (''error '' @ realReason) s else s);
              s = ForceHeartbeatSoon env s;
              isFinal = HasConnected c;
              s = (if isFinal
                   then s\<lparr>scriptEvents := scriptEvents s @ [PlayerDropped (m_netId c) realReason resourceName dropReason]\<rparr>
                   else s);
              s = (if GetHost (registry s) = Some r
                   then
                     let s = on_registry (SetHost (oneSync env) None) s in
                     (case written no_host_fields of Some bytes \<Rightarrow> Broadcast bytes s | None \<Rightarrow> s)
                   else s);
              s = on_registry (\<lambda>st. st\<lparr>m_events := m_events st @ [OnDrop r]\<rparr>) s;
              s = (if \<not> bigMode env \<and> isFinal
                   then s\<lparr>scriptEvents := scriptEvents s @ [ClientPlayerDropped (m_netId c) (m_name c) (m_slotId c)]\<rparr>
                   else s)
          in on_registry (RemoveClient r) s)"

text \<open>
  \<open>DropClientv\<close>: on the main thread the drop runs at once, on other threads it is queued. The flag of
  the client is set in either case, so a client is dropped once.
\<close>

definition DropClientv :: "server_env \<Rightarrow> bool \<Rightarrow> client_ref \<Rightarrow> string \<Rightarrow> nat \<Rightarrow> string \<Rightarrow> server \<Rightarrow> server" where
  "DropClientv env onMain r resourceName dropReason why s =
     (case client_of s r of
        None \<Rightarrow> s
      | Some c \<Rightarrow>
          let realReason = (if why = [] then ''Dropped.'' else why) in
          if m_dropping c then s
          else
            let s = on_client SetDropping r s in
            if onMain then DropClientInternal env r resourceName dropReason realReason s
            else s\<lparr>mainCallbacks := mainCallbacks s @ [CbDropClient r resourceName dropReason realReason]\<rparr>)"

subsection \<open>A client has connected\<close>

definition HandleConnectedClient :: "server_env \<Rightarrow> client_ref \<Rightarrow> u32 \<Rightarrow> server \<Rightarrow> server" where
  "HandleConnectedClient env r oldNetID s =
     (case client_of s r of
        None \<Rightarrow> s
      | Some c \<Rightarrow>
          let s = s\<lparr>scriptEvents := scriptEvents s @ [PlayerJoining (m_netId c) oldNetID]\<rparr> in
          if m_dropping c then s
          else
            let s = (if \<not> bigMode env
                then
                  s\<lparr>scriptEvents := scriptEvents s @ ClientPlayerJoining None (m_netId c) (m_name c) (m_slotId c) #
                      List.map_filter (\<lambda>q. map_option
                        (\<lambda>d. ClientPlayerJoining (Some (m_netId c)) (m_netId d) (m_name d) (m_slotId d)) (client_of s q))
                        (ForAllClients (registry s))\<rparr>
                else
                  s\<lparr>scriptEvents := scriptEvents s @
                      [ClientPlayerJoining (Some (m_netId c)) (m_netId c) (m_name c) (if gta5 env then 128 else 16)]\<rparr>)
            in on_registry (\<lambda>st. st\<lparr>m_events := m_events st @ [OnConnectedClient r]\<rparr>) s)"

text \<open>
  \<open>NetGameEventPacketHandlerV2::RouteEvent\<close>. A routed event whose scripted handler runs on the main
  thread is a callback with the answer the handler will give.
\<close>

definition RouteEvent :: "u16 list \<Rightarrow> u8 list \<Rightarrow> server \<Rightarrow> server" where
  "RouteEvent players bytes s =
     fold (\<lambda>player s. case GetClientByNetID (ucast player) (registry s) of
             Some t \<Rightarrow> SendPacket 1 bytes True t s
           | None \<Rightarrow> s) players s"

text \<open>
  The main thread runs its queue; \<open>CallbackListBase::Run\<close>. None of these callbacks queues another one, so
  the queue taken at the start is all that the loop of the code dequeues.
\<close>

definition run_callback :: "server_env \<Rightarrow> callback \<Rightarrow> server \<Rightarrow> server" where
  "run_callback env cb =
     (case cb of
        CbDropClient r resourceName dropReason why \<Rightarrow> DropClientInternal env r resourceName dropReason why
      | CbConnected r oldNetID \<Rightarrow> HandleConnectedClient env r oldNetID
      | CbRouteEvent answer players bytes \<Rightarrow> if answer then RouteEvent players bytes else id)"

fun Run_callbacks :: "server_env \<Rightarrow> callback list \<Rightarrow> server \<Rightarrow> server" where
  "Run_callbacks env [] s = s"
| "Run_callbacks env (cb # cbs) s = Run_callbacks env cbs (run_callback env cb s)"

definition Run :: "server_env \<Rightarrow> server \<Rightarrow> server" where
  "Run env s = Run_callbacks env (mainCallbacks s) (s\<lparr>mainCallbacks := []\<rparr>)"

subsection \<open>Object ids\<close>

text \<open>\<open>RequestObjectIdsPacketHandler.cpp\<close>: the free ids, compressed into a packet of the maximum size.\<close>

definition SendObjectIdsToClient :: "server_env \<Rightarrow> client_ref \<Rightarrow> u16 list \<Rightarrow> server \<Rightarrow> server" where
  "SendObjectIdsToClient env r freeIds s =
     (let packet = ServerObjectIdsPacket_init\<lparr>pdata := snd (SetIds freeIds [] ServerObjectIds_init)\<rparr> in
      case SendSerializable (ServerObjectIdsPacket_Process (bigMode env))
             (GetMaxSize (ServerObjectIdsPacket_Process (bigMode env)) ServerObjectIdsPacket_init) packet of
        Some bytes \<Rightarrow> SendPacket 1 bytes True r s
      | None \<Rightarrow> s)"

definition SendObjectIds :: "server_env \<Rightarrow> client_ref \<Rightarrow> nat \<Rightarrow> server \<Rightarrow> server" where
  "SendObjectIds env r numIds s = SendObjectIdsToClient env r (GetFreeObjectIds env r numIds s) s"

definition on_sync_thread :: "sync_callback \<Rightarrow> server \<Rightarrow> server" where
  "on_sync_thread cb s = s\<lparr>syncCallbacks := syncCallbacks s @ [cb]\<rparr>"

definition RequestObjectIds_Process :: "server_env \<Rightarrow> client_ref \<Rightarrow> server \<Rightarrow> bool \<times> server" where
  "RequestObjectIds_Process env r s = (True, on_sync_thread (SyncObjectIds r (if bigMode env then 6 else 32)) s)"

subsection \<open>The handshake\<close>

definition string_of_bytes :: "u8 list \<Rightarrow> string" where
  "string_of_bytes = map (\<lambda>b. char_of (unat b))"

definition bytes_of_string :: "string \<Rightarrow> u8 list" where
  "bytes_of_string = map of_char"

definition signed_str :: "u32 \<Rightarrow> string" where
  "signed_str w = show_int (sint w)"

text \<open>The text of the \<open>connectOK\<close> answer, behind the four bytes of its type.\<close>

definition connectOK_text :: "server_env \<Rightarrow> client \<Rightarrow> client option \<Rightarrow> string" where
  "connectOK_text env c host =
     '' '' @ signed_str (m_netId c) @
     '' '' @ signed_str (case host of Some h \<Rightarrow> m_netId h | None \<Rightarrow> - 1) @
     '' '' @ signed_str (case host of Some h \<Rightarrow> m_netBase h | None \<Rightarrow> - 1) @
     '' '' @ signed_str (if oneSync env then if bigMode env then if gta5 env then 128 else 16 else m_slotId c else - 1) @
     '' '' @ show_int (if oneSync env then msec env else - 1)"

text \<open>A client that passed all checks of the handshake; \<open>None\<close>: the search for a net id does not end.\<close>

definition accept_client :: "server_env \<Rightarrow> client_ref \<Rightarrow> server \<Rightarrow> server option" where
  "accept_client env r s =
     (case client_of s r of
        None \<Rightarrow> Some s
      | Some c \<Rightarrow>
          let wasNew = \<not> HasConnected c; oldNetID = m_netId c in
          case (if wasNew then HandleConnectingClient r (registry s) else Some (registry s)) of
            None \<Rightarrow> None
          | Some st \<Rightarrow>
              let s = s\<lparr>registry := st\<rparr>;
                  host = Option.bind (GetHost st) (client_of s);
                  s = (case (client_of s r) of
                         None \<Rightarrow> s
                       | Some c' \<Rightarrow>
                           (case written [le_enc 4 (1 :: u32), bytes_of_string (connectOK_text env c' host)] of
                              Some bytes \<Rightarrow> SendPacket 0 bytes True r s
                            | None \<Rightarrow> s)) in
              Some (if wasNew
                    then
                    let s = s\<lparr>mainCallbacks := mainCallbacks s @ [CbConnected r oldNetID]\<rparr>;
                          s = (if oneSync env then SendObjectIds env r (if bigMode env then 4 else 64) s else s)
                      in ForceHeartbeatSoon env s
                    else s))"

definition handshake :: "server_env \<Rightarrow> int \<Rightarrow> string \<Rightarrow> u8 list \<Rightarrow> server \<Rightarrow> server option" where
  "handshake env peerId address body s =
     (let postMap = DecodeFormData (string_of_bytes body);
          guid = (case postMap ''guid'' of Some v \<Rightarrow> v | None \<Rightarrow> []);
          token = (case postMap ''token'' of Some v \<Rightarrow> v | None \<Rightarrow> []) in
      case GetClientByGuid guid (registry s) of
        None \<Rightarrow> Some s
      | Some r \<Rightarrow>
          case client_of s r of
            None \<Rightarrow> Some s
          | Some c \<Rightarrow>
              if token \<noteq> m_connectionToken c then
                Some (on_registry (RemoveClient r) (SendOutOfBand address ''error Invalid connection token received.'' s))
              else if GetData ''passedValidation'' c = None then
                Some (on_registry (RemoveClient r) (SendOutOfBand address ''error Invalid connection.'' s))
              else
                let s = on_client (Touch (msec env)) r s;
                    s = on_registry (reg_SetPeer (oneSync env) (expiredRefs env) peerId address r) s in
                if oneSync env \<and> (case client_of s r of Some c' \<Rightarrow> \<not> HasSlotId c' | None \<Rightarrow> False) then
                  Some (on_registry (RemoveClient r) (SendOutOfBand address ''error Not enough client slot IDs.'' s))
                else accept_client env r s)"

text \<open>
  \<open>GameServer::ProcessPacket\<close>; \<open>packetHandler\<close> is \<open>m_packetHandler\<close>. The read of the message type fails
  on packets of less than four bytes.
\<close>

definition GameServer_ProcessPacket :: "server_env
    \<Rightarrow> (u32 \<Rightarrow> client_ref \<Rightarrow> byte_reader \<Rightarrow> server \<Rightarrow> server) \<Rightarrow> (nat \<Rightarrow> u64)
    \<Rightarrow> int \<Rightarrow> string \<Rightarrow> u8 list \<Rightarrow> server \<Rightarrow> server option" where
  "GameServer_ProcessPacket env packetHandler ind peerId address packet s =
     (let msg = ByteReader_make packet (of_nat (length packet)) ind in
      case ByteReader_Field 4 [] msg of
        (Done, bs, msg) \<Rightarrow>
          let msgType = le_dec bs; client = GetClientByPeer peerId (registry s) in
          if msgType = 1 then
            (case client of
               Some r \<Rightarrow> Some s
             | None \<Rightarrow>
                 case ByteReader_Field_string_view [] (ByteReader_GetRemaining msg) msg of
                   (Done, body, _) \<Rightarrow> handshake env peerId address body s
                 | _ \<Rightarrow> Some s)
          else
            (case client of
               None \<Rightarrow> Some s
             | Some r \<Rightarrow> Some (on_client (Touch (msec env)) r (packetHandler msgType r msg s)))
      | _ \<Rightarrow> Some s)"

end
