(* ===== verification/Handlers.thy ===== *)
theory Handlers
  imports GameServer
begin

text \<open>
  The packet handlers of \<open>citizen-server-impl/include/packethandlers\<close> for routing, host migration,
  quitting, time synchronisation and network events. A handler gets the client that sent the packet
  and a reader behind its type; its Boolean is the result of \<open>Process\<close>.
\<close>

text \<open>\<open>net::PacketHandler::ProcessPacket\<close> with the lambda that handles the packet.\<close>

definition handle_packet :: "'v proc \<Rightarrow> 'v \<Rightarrow> ('v \<Rightarrow> server \<Rightarrow> server) \<Rightarrow> byte_reader \<Rightarrow> server \<Rightarrow> bool \<times> server" where
  "handle_packet Process init body r s =
     (case fst (ProcessPacket Process init r) of Some v \<Rightarrow> (True, body v s) | None \<Rightarrow> (False, s))"

text \<open>The bytes of a span's elements; a null span of the reader is never handed to a handler.\<close>

abbreviation span_bytes :: "u8 span \<Rightarrow> u8 list" where
  "span_bytes \<equiv> span_elems"

subsection \<open>RoutingPacketHandler.h\<close>

definition route_packet :: "u32 \<Rightarrow> u8 list \<Rightarrow> u8 list option" where
  "route_packet sender payload =
     written [le_enc 4 (HashRageString ''msgRoute''), le_enc 2 (ucast sender :: u16),
       le_enc 2 (of_nat (length payload) :: u16), payload]"

definition Routing_body :: "server_env \<Rightarrow> client_ref \<Rightarrow> ClientRoute \<Rightarrow> server \<Rightarrow> server" where
  "Routing_body env r clientRoute s =
     (if oneSync env then on_sync_thread (SyncParseGameState r clientRoute) (on_client SetHasRouted r s)
      else
        case client_of s r of
          None \<Rightarrow> s
        | Some c \<Rightarrow>
            let target = (ucast (ClientRoute.targetNetId clientRoute) :: u32) in
            if target = m_netId c then s
            else
              case GetClientByNetID target (registry s) of
                None \<Rightarrow> s
              | Some t \<Rightarrow>
                  let s = (case route_packet (m_netId c) (span_bytes (ClientRoute.data clientRoute)) of
                             Some bytes \<Rightarrow> SendPacket 1 bytes False t s
                           | None \<Rightarrow> s)
                  in on_client SetHasRouted r s)"

definition Routing_Process :: "server_env \<Rightarrow> client_ref \<Rightarrow> byte_reader \<Rightarrow> server \<Rightarrow> bool \<times> server" where
  "Routing_Process env r = handle_packet ClientRoute_Process ClientRoute_init (Routing_body env r)"

subsection \<open>HeHostPacketHandler.h and IHostPacketHandler.h\<close>

definition announce_host :: "client_ref \<Rightarrow> server \<Rightarrow> server" where
  "announce_host r s =
     (case client_of s r of
        None \<Rightarrow> s
      | Some c \<Rightarrow>
          let packet = ServerIHostPacket_init\<lparr>pdata := ServerIHost.make (ucast (m_netId c)) (m_netBase c)\<rparr> in
          case SendSerializable ServerIHostPacket_Process
                 (GetMaxSize ServerIHostPacket_Process ServerIHostPacket_init) packet of
            Some bytes \<Rightarrow> Broadcast bytes s
          | None \<Rightarrow> s)"

text \<open>
  \<open>(int)ceil(numClients * 0.6)\<close>. In doubles the product never exceeds three fifths of the count, is
  exact where that is an integer, and elsewhere is within a fifth of it, so the ceiling is this one.
\<close>

definition votesNeeded :: "nat \<Rightarrow> nat" where
  "votesNeeded numClients = (let v = (3 * numClients + 4) div 5 in if v \<le> 0 then 1 else v)"

definition HeHost_body :: "server_env \<Rightarrow> ClientHeHost \<Rightarrow> server \<Rightarrow> server" where
  "HeHost_body env clientHeHost s =
     (let allegedId = ClientHeHost.allegedNewId clientHeHost; currentHost = GetHost (registry s) in
      if (case Option.bind currentHost (client_of s) of Some h \<Rightarrow> m_netId h = allegedId | None \<Rightarrow> False) then s
      else
        case GetClientByNetID allegedId (registry s) of
          None \<Rightarrow> s
        | Some n \<Rightarrow>
            let numClients = length (filter (\<lambda>q. case client_of s q of Some c \<Rightarrow> m_hasRouted c | None \<Rightarrow> False)
                  (ForAllClients (registry s)));
                before = (case voteCounts s allegedId of None \<Rightarrow> 1 | Some k \<Rightarrow> k);
                votes = before + 1;
                s = s\<lparr>voteCounts := (voteCounts s)(allegedId \<mapsto> votes)\<rparr> in
            if votes \<ge> int (votesNeeded numClients) then
              let s = s\<lparr>voteCounts := (\<lambda>_. None)\<rparr>;
                  s = on_client (SetNetBase (ClientHeHost.baseNum clientHeHost)) n s;
                  s = on_registry (SetHost (oneSync env) (Some n)) s
              in announce_host n s
            else s)"

definition HeHost_Process :: "server_env \<Rightarrow> client_ref \<Rightarrow> byte_reader \<Rightarrow> server \<Rightarrow> bool \<times> server" where
  "HeHost_Process env r reader s =
     (if oneSync env then (False, s)
      else handle_packet ClientHeHost_Process ClientHeHost_init (HeHost_body env) reader s)"

text \<open>The inner \<open>None\<close> of \<open>IsDead\<close> is an exception, which leaves the handler.\<close>

definition IHost_body :: "server_env \<Rightarrow> client_ref \<Rightarrow> ClientIHost \<Rightarrow> server \<Rightarrow> server" where
  "IHost_body env r clientIHost s =
     (let currentHost = Option.bind (GetHost (registry s)) (client_of s);
          vacant = (case currentHost of None \<Rightarrow> True
                    | Some h \<Rightarrow> IsDead (peerPings env) (msec env) h = Some True) in
      if vacant then
        let s = on_client (SetNetBase (ClientIHost.baseNum clientIHost)) r s;
            s = on_registry (SetHost (oneSync env) (Some r)) s
        in announce_host r s
      else s)"

definition IHost_Process :: "server_env \<Rightarrow> client_ref \<Rightarrow> byte_reader \<Rightarrow> server \<Rightarrow> bool \<times> server" where
  "IHost_Process env r reader s =
     (if oneSync env then (False, s)
      else handle_packet ClientIHost_Process ClientIHost_init (IHost_body env r) reader s)"

subsection \<open>IQuitPacketHandler.h\<close>

definition clientDropResourceName :: string where
  "clientDropResourceName = ''__cfx_internal:client''"

definition DropReason_CLIENT :: nat where
  "DropReason_CLIENT = 2"

text \<open>The reason is null terminated: its last byte is not part of the text.\<close>

definition IQuit_body :: "server_env \<Rightarrow> client_ref \<Rightarrow> ClientIQuit \<Rightarrow> server \<Rightarrow> server" where
  "IQuit_body env r clientIQuit s =
     (let bytes = span_bytes (ClientIQuit.reason clientIQuit) in
      DropClientv env False r clientDropResourceName DropReason_CLIENT
        (string_of_bytes (take (length bytes - 1) bytes)) s)"

definition IQuit_Process :: "server_env \<Rightarrow> client_ref \<Rightarrow> byte_reader \<Rightarrow> server \<Rightarrow> bool \<times> server" where
  "IQuit_Process env r reader s =
     (if ByteReader_GetRemaining reader < 1 then
        (False, DropClientv env False r clientDropResourceName DropReason_CLIENT [] s)
      else
        let (result, s) = handle_packet ClientIQuit_Process ClientIQuit_init (IQuit_body env r) reader s in
        if \<not> result then (result, DropClientv env False r clientDropResourceName DropReason_CLIENT [] s)
        else (result, s))"

subsection \<open>TimeSyncReqPacketHandler.h\<close>

definition TimeSyncReq_body :: "server_env \<Rightarrow> client_ref \<Rightarrow> TimeSyncRequest \<Rightarrow> server \<Rightarrow> server" where
  "TimeSyncReq_body env r timeSyncRequest s =
     (let packet = TimeSyncResponsePacket_init\<lparr>pdata := TimeSyncResponse.make timeSyncRequest (word_of_int (msec env))\<rparr> in
      case SendSerializable TimeSyncResponsePacket_Process
             (GetMaxSize TimeSyncResponsePacket_Process TimeSyncResponsePacket_init) packet of
        Some bytes \<Rightarrow> SendPacket 1 bytes True r s
      | None \<Rightarrow> s)"

definition TimeSyncReq_Process :: "server_env \<Rightarrow> client_ref \<Rightarrow> byte_reader \<Rightarrow> server \<Rightarrow> bool \<times> server" where
  "TimeSyncReq_Process env r = handle_packet TimeSyncRequest_Process TimeSyncRequest_init (TimeSyncReq_body env r)"

subsection \<open>NetGameEventPacketHandler.cpp\<close>

text \<open>
  What the handler asks of the sync state, and the bitset of the players seen: \<open>roundToType\<close> of 2049
  is 2056, and what \<open>test\<close> and \<open>set\<close> of the library do beyond it is not modelled: \<open>seen_beyond\<close> is
  the answer of \<open>test\<close> there.
\<close>

record event_env =
  IsNetGameEventBlocked :: "u32 \<Rightarrow> bool"
  GetClientRoutingBucket :: "client_ref \<Rightarrow> u32"
  IsClientRelevantEntity :: "client_ref \<Rightarrow> u32 \<Rightarrow> bool"
  GetGameEventHandler :: "client_ref \<Rightarrow> u16 list \<Rightarrow> ClientNetGameEventV2 \<Rightarrow> bool option"
  seen_beyond :: "u16 \<Rightarrow> bool"

definition PROCESSED_BITS :: nat where
  "PROCESSED_BITS = (MAX_CLIENTS + 8 - 1) div 8 * 8"

text \<open>The loop that collects the target players.\<close>

fun target_players :: "event_env \<Rightarrow> client_ref \<Rightarrow> server \<Rightarrow> u16 set \<Rightarrow> u16 list \<Rightarrow> u16 list" where
  "target_players ev r s processed [] = []"
| "target_players ev r s processed (player # players) =
     (if (if unat player < PROCESSED_BITS then player \<in> processed else seen_beyond ev player)
      then target_players ev r s processed players
      else
        let processed' = (if unat player < PROCESSED_BITS then insert player processed else processed);
            rest = target_players ev r s processed' players in
        case GetClientByNetID (ucast player) (registry s) of
          None \<Rightarrow> rest
        | Some t \<Rightarrow>
            if GetClientRoutingBucket ev t \<noteq> GetClientRoutingBucket ev r then rest
            else if \<not> (case client_of s t of Some d \<Rightarrow> IsClientRelevantEntity ev r (m_slotId d) | None \<Rightarrow> False) then rest
            else player # rest)"

text \<open>
  The scripted handler of an event, \<open>Some\<close> of the answer it will give, runs on the main thread.
\<close>

definition NetGameEvent_body :: "event_env \<Rightarrow> client_ref \<Rightarrow> ClientNetGameEventV2 \<Rightarrow> server \<Rightarrow> server" where
  "NetGameEvent_body ev r e s =
     (case client_of s r of
        None \<Rightarrow> s
      | Some c \<Rightarrow>
          let serverEvent = ServerNetGameEventV2.make (ucast (m_netId c)) (ClientNetGameEventV2.eventNameHash e)
                (ClientNetGameEventV2.eventId e) (ClientNetGameEventV2.isReply e) (ClientNetGameEventV2.data e) in
          if IsNetGameEventBlocked ev (ServerNetGameEventV2.eventNameHash serverEvent) then s
          else
            case SendSerializable ServerNetGameEventV2Packet_Process
                   (GetMaxSize ServerNetGameEventV2Packet_Process ServerNetGameEventV2Packet_init)
                   (ServerNetGameEventV2Packet_init\<lparr>pdata := serverEvent\<rparr>) of
              None \<Rightarrow> s
            | Some bytes \<Rightarrow>
                let players = target_players ev r s {} (span_elems (ClientNetGameEventV2.targetPlayers e)) in
                case GetGameEventHandler ev r players e of
                  Some answer \<Rightarrow> s\<lparr>mainCallbacks := mainCallbacks s @ [CbRouteEvent answer players bytes]\<rparr>
                | None \<Rightarrow> RouteEvent players bytes s)"

definition ProcessNetEvent :: "event_env \<Rightarrow> client_ref \<Rightarrow> byte_reader \<Rightarrow> server \<Rightarrow> bool \<times> server" where
  "ProcessNetEvent ev r = handle_packet ClientNetGameEventV2_Process ClientNetGameEventV2_init (NetGameEvent_body ev r)"

text \<open>\<open>Process\<close> defers to the sync thread, which reads the packet again from the same offset.\<close>

definition NetGameEvent_Process :: "client_ref \<Rightarrow> byte_reader \<Rightarrow> server \<Rightarrow> bool \<times> server" where
  "NetGameEvent_Process r reader s = (True, on_sync_thread (SyncNetEvent r (rdata reader) (roffset reader)) s)"

definition run_sync_callback :: "server_env \<Rightarrow> event_env \<Rightarrow> (client_ref \<Rightarrow> ClientRoute \<Rightarrow> server \<Rightarrow> server) \<Rightarrow> (nat \<Rightarrow> u64)
    \<Rightarrow> sync_callback \<Rightarrow> server \<Rightarrow> server" where
  "run_sync_callback env ev ParseGameStatePacket ind cb s =
     (case cb of
        SyncParseGameState r route \<Rightarrow> ParseGameStatePacket r route s
      | SyncObjectIds r numIds \<Rightarrow> SendObjectIds env r numIds s
      | SyncNetEvent r packet offset \<Rightarrow>
          snd (ProcessNetEvent ev r (ByteReader_Seek offset (ByteReader_make packet (of_nat (length packet)) ind)) s))"

end
