(* ===== verification/HandlerLaws.thy ===== *)
theory HandlerLaws
  imports Handlers
begin

text \<open>What the handshake, the drops and the packet handlers do to the server.\<close>

subsection \<open>Buffers written field by field\<close>

lemma written_concat:
  assumes "length (concat chunks) < 2 ^ 63"
  shows "written chunks = Some (concat chunks)"
  using Buffer_write_read_all [OF assms, of "[]"] by (auto simp: written_def)

text \<open>The announcement that there is no host is an encoded \<open>ServerIHostPacket\<close>.\<close>

lemma msgIHost: "HashRageString ''msgIHost'' = 0xB3EA30DE"
  by code_simp

lemma no_host_is_IHost:
  "written no_host_fields = Some (packet_wire ServerIHost_wire (ServerIHostPacket_init\<lparr>pdata := ServerIHost.make 0xFFFF 0xFFFF\<rparr>))"
  by (simp add: written_concat no_host_fields_def packet_wire_def ServerIHost_wire_def ServerIHostPacket_init_def
      msgIHost wire_int_def ServerIHost.defs)

text \<open>A routed packet is an encoded \<open>ClientRoutePacket\<close> whose net id is that of the sender.\<close>

lemma route_packet_wire:
  assumes "length payload \<le> 65535"
  shows "route_packet sender payload = Some (packet_wire ClientRoute_wire
      \<lparr>ptype = HashRageString ''msgRoute'', pdata = ClientRoute.make (ucast sender) (of_nat (length payload)) (Span payload)\<rparr>)"
  using assms
  by (simp add: route_packet_def written_concat packet_wire_def ClientRoute_wire_def wire_int_def ClientRoute.defs
      wire_Span_def wire_size_def wire_elems_def u8_elem_def ConstrainedStreamTail_def)

subsection \<open>What the logging steps leave alone\<close>

lemma SendPacket_keeps [simp]:
  "registry (SendPacket ch bs rel r s) = registry s" "mainCallbacks (SendPacket ch bs rel r s) = mainCallbacks s"
  "client_of (SendPacket ch bs rel r s) q = client_of s q"
  by (simp_all add: SendPacket_def client_of_def split: option.splits)

lemma SendPacket_all_keeps [simp]:
  "registry (fold (SendPacket ch bs rel) rs s) = registry s"
  "mainCallbacks (fold (SendPacket ch bs rel) rs s) = mainCallbacks s"
  by (induction rs arbitrary: s) simp_all

lemma Broadcast_keeps [simp]: "registry (Broadcast bs s) = registry s" "mainCallbacks (Broadcast bs s) = mainCallbacks s"
  by (simp_all add: Broadcast_def)

lemma oob_keeps [simp]:
  "registry (SendOutOfBand a m s) = registry s" "mainCallbacks (SendOutOfBand a m s) = mainCallbacks s"
  "registry (ForceHeartbeatSoon env s) = registry s" "mainCallbacks (ForceHeartbeatSoon env s) = mainCallbacks s"
  "registry (on_registry f s) = f (registry s)" "mainCallbacks (on_registry f s) = mainCallbacks s"
  "registry (on_client g r s) = update_client g r (registry s)" "mainCallbacks (on_client g r s) = mainCallbacks s"
  by (simp_all add: SendOutOfBand_def ForceHeartbeatSoon_def Let_def on_registry_def on_client_def)

subsection \<open>Drops\<close>

definition log_drop :: "server_env \<Rightarrow> client_ref \<Rightarrow> client_registry \<Rightarrow> client_registry" where
  "log_drop env r st =
     (let st' = (if GetHost st = Some r then SetHost (oneSync env) None st else st) in
      st'\<lparr>m_events := m_events st' @ [OnDrop r]\<rparr>)"

lemma log_drop_keeps [simp]:
  "m_pool (log_drop env r st) = m_pool st" "m_clients (log_drop env r st) = m_clients st"
  "m_clientsByNetId (log_drop env r st) = m_clientsByNetId st"
  "m_clientsBySlotId (log_drop env r st) = m_clientsBySlotId st"
  "m_curNetId (log_drop env r st) = m_curNetId st" "m_nextRef (log_drop env r st) = m_nextRef st"
  "m_events (log_drop env r st) = m_events st @ [OnDrop r]"
  "m_amountConnectedClients (log_drop env r st) = m_amountConnectedClients st"
  by (simp_all add: log_drop_def Let_def SetHost_def)

lemma registry_DropClientInternal:
  assumes "client_of s r = Some c"
  shows "registry (DropClientInternal env r resourceName dropReason why s) = RemoveClient r (log_drop env r (registry s))"
    "mainCallbacks (DropClientInternal env r resourceName dropReason why s) = mainCallbacks s"
  using assms
  by (simp_all add: DropClientInternal_def log_drop_def Let_def no_host_is_IHost)

lemma registry_ok_log_drop: "registry_ok limit st \<Longrightarrow> registry_ok limit (log_drop env r st)"
  by (rule registry_ok_frame [of limit st]) (auto intro: exI [of _ id])

text \<open>A queued drop: the flag now, the removal when the main thread runs.\<close>

lemma DropClientv_queued:
  assumes "client_of s r = Some c" "\<not> m_dropping c"
  shows "DropClientv env False r resourceName dropReason why s =
    (on_client SetDropping r s)\<lparr>mainCallbacks := mainCallbacks s @
       [CbDropClient r resourceName dropReason (if why = [] then ''Dropped.'' else why)]\<rparr>"
  using assms by (simp add: DropClientv_def Let_def)

lemma DropClientv_once:
  assumes "client_of s r = Some c"
  shows "DropClientv env onMain' r rn' dr' why' (DropClientv env False r rn dr why s) = DropClientv env False r rn dr why s"
  using assms
  by (auto simp: DropClientv_def Let_def client_of_def on_client_def on_registry_def SetDropping_def)

definition drop_and_run :: "server_env \<Rightarrow> client_ref \<Rightarrow> string \<Rightarrow> nat \<Rightarrow> string \<Rightarrow> server \<Rightarrow> server" where
  "drop_and_run env r rn dr why s = Run env (DropClientv env False r rn dr why s)"

lemma drop_and_run_registry:
  assumes "client_of s r = Some c" "\<not> m_dropping c" "mainCallbacks s = []"
  shows "registry (drop_and_run env r rn dr why s)
    = RemoveClient r (log_drop env r (update_client SetDropping r (registry s)))"
proof -
  let ?s = "on_client SetDropping r s"
  have "client_of (?s\<lparr>mainCallbacks := []\<rparr>) r = Some (SetDropping c)" using assms(1) by (simp add: client_of_def)
  from registry_DropClientInternal(1) [OF this] show ?thesis
    by (simp add: drop_and_run_def DropClientv_queued [OF assms(1,2)] assms(3) Run_def run_callback_def)
qed

lemma GetHost_RemoveClient:
  assumes "GetHost st \<noteq> Some r"
  shows "GetHost (RemoveClient r st) \<noteq> Some r"
proof (cases "m_pool st r")
  case None
  then show ?thesis using assms by (simp add: RemoveClient_def)
next
  case (Some c)
  note eq = RemoveClient_fields [OF this]
  have "weak_lock (RemoveClient r st) w = weak_lock st w" for w
    using Some by (auto simp: weak_lock_def eq split: option.splits)
  then show ?thesis using assms by (auto simp: GetHost_def GetClientByNetID_def eq weak_lock_def split: if_splits)
qed

lemma GetHost_events [simp]: "GetHost (st\<lparr>m_events := e\<rparr>) = GetHost st"
proof -
  have "weak_lock (st\<lparr>m_events := e\<rparr>) w = weak_lock st w" for w by (rule weak_lock_cong) simp
  then show ?thesis by (simp add: GetHost_def GetClientByNetID_def)
qed

lemma GetHost_log_drop: "GetHost (log_drop env r st) \<noteq> Some r"
proof (cases "GetHost st = Some r")
  case True
  then show ?thesis by (simp add: log_drop_def Let_def GetHost_def SetHost_def)
next
  case False
  then show ?thesis by (simp add: log_drop_def Let_def)
qed

text \<open>A dropped client is gone after the main thread ran: its subscribers were told once.\<close>

lemma drop_and_run_removes:
  fixes env rn dr why
  assumes ok: "registry_ok limit (registry s)" and r: "registered (registry s) r"
    and c: "client_of s r = Some c" "\<not> m_dropping c" and q: "mainCallbacks s = []"
  defines "st' \<equiv> registry (drop_and_run env r rn dr why s)"
  shows "registry_ok limit st'" "\<not> registered st' r" "GetHost st' \<noteq> Some r"
    "m_events st' = m_events (registry s) @ [OnDrop r]" "GetClientByGuid (m_guid c) st' = None"
    "GetClientByNetID (m_netId c) st' = None"
    "m_amountConnectedClients st' = m_amountConnectedClients (registry s) - (if HasConnected c then 1 else 0)"
proof -
  let ?st = "log_drop env r (update_client SetDropping r (registry s))"
  have st': "st' = RemoveClient r ?st" unfolding st'_def by (rule drop_and_run_registry [OF c q])
  have ok': "registry_ok limit ?st" by (intro registry_ok_log_drop registry_ok_update ok) simp
  have r': "registered ?st r" using r by simp
  have p: "m_pool ?st r = Some (SetDropping c)" using c(1) by (simp add: client_of_def)
  show "registry_ok limit st'" "\<not> registered st' r"
    unfolding st' by (rule registry_ok_RemoveClient [OF ok' r'])+
  show "GetHost st' \<noteq> Some r" unfolding st' by (rule GetHost_RemoveClient [OF GetHost_log_drop])
  show "m_events st' = m_events (registry s) @ [OnDrop r]"
    unfolding st' by (simp add: RemoveClient_fields [OF p] SetDropping_def)
  show "GetClientByGuid (m_guid c) st' = None" "GetClientByNetID (m_netId c) st' = None"
    unfolding st' using RemoveClient_unfindable(1,2) [OF ok' r' p] by (simp_all add: SetDropping_def)
  show "m_amountConnectedClients st' = m_amountConnectedClients (registry s) - (if HasConnected c then 1 else 0)"
    unfolding st' by (simp add: RemoveClient_fields [OF p] SetDropping_def HasConnected_def)
qed

subsection \<open>The handshake\<close>

lemma string_bytes [simp]: "string_of_bytes (bytes_of_string x) = x"
proof -
  have "unat (of_nat (of_char c) :: u8) = of_char c" for c :: char
    by (rule of_nat_inverse) simp_all
  then have "char_of (unat (of_char c :: u8)) = c" for c :: char
    by (simp only: of_nat_of_char char_of_char)
  then show ?thesis by (simp add: string_of_bytes_def bytes_of_string_def comp_def)
qed

lemma GetClientByGuid_registered:
  assumes "GetClientByGuid g st = Some r"
  shows "registered st r"
  using map_of_SomeD [of "m_clients st" g r] assms by (force simp: GetClientByGuid_def)

text \<open>What \<open>SetPeer\<close> does to the client and the aliases.\<close>

lemma reg_SetPeer_fields:
  assumes "m_pool st r = Some c"
  obtains c' where "m_pool (reg_SetPeer os expired peer address r st) r = Some c'" "m_netId c' = m_netId c"
    "m_connectionToken c' = m_connectionToken c"
    "m_clientsByPeer (reg_SetPeer os expired peer address r st) = (m_clientsByPeer st)(peer := Some r)"
    "m_clientsByNetId (reg_SetPeer os expired peer address r st) = m_clientsByNetId st"
    "m_clients (reg_SetPeer os expired peer address r st) = m_clients st"
    "\<And>w. weak_lock (reg_SetPeer os expired peer address r st) w = weak_lock st w"
    "os \<Longrightarrow> HasSlotId c \<Longrightarrow> HasSlotId c'"
proof -
  let ?st = "update_client (Client_SetPeer peer address) r st" and ?c = "Client_SetPeer peer address c"
  have p: "m_pool ?st r = Some ?c" using assms by simp
  show thesis
    using p
  proof (cases rule: OnAssignPeer_cases [where oneSync = os and expired = expired])
    case same
    show ?thesis
      by (rule that [of ?c])
        (use assms in \<open>auto simp: reg_SetPeer_def same weak_lock_def client_updates GetPeer_def HasSlotId_def split: option.splits\<close>)
  next
    case (slot i)
    have no: "\<not> HasSlotId c" using slot(2) by (simp add: HasSlotId_def client_updates)
    show ?thesis
      by (rule that [of "SetSlotId (of_nat i) ?c"])
        (use assms no in \<open>auto simp: reg_SetPeer_def slot(6) weak_lock_def client_updates GetPeer_def split: option.splits\<close>)
  qed
qed

lemma SendObjectIds_keeps [simp]:
  "registry (SendObjectIds env r n s) = registry s" "client_of (SendObjectIds env r n s) q = client_of s q"
  by (simp_all add: SendObjectIds_def SendObjectIdsToClient_def Let_def split: option.splits)

lemma ForceHeartbeatSoon_client [simp]: "client_of (ForceHeartbeatSoon env s) q = client_of s q"
  by (simp add: client_of_def)

lemma accept_registry:
  assumes c: "client_of s r = Some c"
    and st: "(if HasConnected c then Some (registry s) else HandleConnectingClient r (registry s)) = Some st"
  shows "\<exists>s'. accept_client env r s = Some s' \<and> registry s' = st"
  using assms by (cases "HasConnected c") (auto simp: accept_client_def Let_def split: option.splits)

lemma accept_client_cases:
  assumes "accept_client env r s = Some s'" "client_of s r = Some c"
  shows "(if HasConnected c then Some (registry s) else HandleConnectingClient r (registry s)) = Some (registry s')"
proof (cases "if HasConnected c then Some (registry s) else HandleConnectingClient r (registry s)")
  case None
  then show ?thesis using assms by (simp add: accept_client_def split: if_splits)
next
  case (Some st)
  from accept_registry [OF assms(2) Some, of env] assms(1) Some show ?thesis by auto
qed

text \<open>The registry stays well formed whatever a handshake contains.\<close>

lemma handshake_keeps_registry_ok:
  assumes ok: "registry_ok limit (registry s)" and h: "handshake env peerId address body s = Some s'"
  shows "registry_ok limit (registry s')"
proof -
  let ?map = "DecodeFormData (string_of_bytes body)"
  let ?guid = "case ?map ''guid'' of Some v \<Rightarrow> v | None \<Rightarrow> []"
  show ?thesis
  proof (cases "GetClientByGuid ?guid (registry s)")
    case None
    then show ?thesis using h ok by (simp add: handshake_def Let_def)
  next
    case (Some r)
    have reg: "registered (registry s) r" by (rule GetClientByGuid_registered [OF Some])
    obtain c where c: "client_of s r = Some c" using registeredE [OF ok reg] by (auto simp: client_of_def)
    have removed: "registry_ok limit (RemoveClient r (registry s))" by (rule registry_ok_RemoveClient(1) [OF ok reg])
    let ?s1 = "on_client (Touch (msec env)) r s"
    let ?s2 = "on_registry (reg_SetPeer (oneSync env) (expiredRefs env) peerId address r) ?s1"
    have ok1: "registry_ok limit (registry ?s1)" "registered (registry ?s1) r"
      using registry_ok_update [OF ok] reg by simp_all
    have ok2: "registry_ok limit (registry ?s2)" using registry_ok_SetPeer [OF ok1] by simp
    obtain c1 where c1: "m_pool (registry ?s1) r = Some c1" using c by (auto simp: client_of_def)
    obtain c2 where "m_pool (reg_SetPeer (oneSync env) (expiredRefs env) peerId address r (registry ?s1)) r = Some c2"
      "m_clients (reg_SetPeer (oneSync env) (expiredRefs env) peerId address r (registry ?s1)) = m_clients (registry ?s1)"
      using reg_SetPeer_fields [OF c1, of "oneSync env" "expiredRefs env" peerId address] by metis
    then have c2: "client_of ?s2 r = Some c2" and reg2: "registered (registry ?s2) r"
      using ok1(2) by (simp_all add: client_of_def)
    have accept: "registry_ok limit (registry s')" if "accept_client env r ?s2 = Some s'"
      using accept_client_cases [OF that c2] registry_ok_connecting(1) [OF ok2 reg2] c2 ok2
      by (auto simp: client_of_def split: if_splits)
    have full: "registry_ok limit (RemoveClient r (registry ?s2))" by (rule registry_ok_RemoveClient(1) [OF ok2 reg2])
    show ?thesis
      using h Some c removed accept full by (auto simp: handshake_def Let_def split: if_splits)
  qed
qed

lemma handshake_fields:
  assumes "form_encodes [(''guid'', g), (''token'', t)] e"
  shows "DecodeFormData (string_of_bytes (bytes_of_string e)) ''guid'' = Some g"
    "DecodeFormData (string_of_bytes (bytes_of_string e)) ''token'' = Some t"
  using DecodeFormData_loop_encodes [OF assms, of "\<lambda>_. None"] by (simp_all add: DecodeFormData_def)

text \<open>
  A validated client that presents its token is connected: it has a net id, and both its peer and its
  net id find it.
\<close>

lemma handshake_connects:
  fixes address :: string
  assumes ok: "registry_ok limit (registry s)" and e: "form_encodes [(''guid'', g), (''token'', t)] e"
    and r: "GetClientByGuid g (registry s) = Some r" and c: "client_of s r = Some c" "m_connectionToken c = t"
    and valid: "GetData ''passedValidation'' c \<noteq> None" and slot: "oneSync env \<longrightarrow> HasSlotId c"
    and free: "net_id_ok j" "net_id_free (registry s) j"
  shows "\<exists>s' c'. handshake env peerId address (bytes_of_string e) s = Some s' \<and> client_of s' r = Some c'
    \<and> HasConnected c' \<and> GetClientByPeer peerId (registry s') = Some r
    \<and> GetClientByNetID (m_netId c') (registry s') = Some r"
proof -
  let ?s1 = "on_client (Touch (msec env)) r s"
  let ?s2 = "on_registry (reg_SetPeer (oneSync env) (expiredRefs env) peerId address r) ?s1"
  have reg: "registered (registry ?s1) r" using GetClientByGuid_registered [OF r] by simp
  have ok1: "registry_ok limit (registry ?s1)" using registry_ok_update [OF ok] by simp
  have ok2: "registry_ok limit (registry ?s2)" using registry_ok_SetPeer [OF ok1 reg] by simp
  have p1: "m_pool (registry ?s1) r = Some (Touch (msec env) c)" using c(1) by (simp add: client_of_def)
  have s2: "registry ?s2 = reg_SetPeer (oneSync env) (expiredRefs env) peerId address r (registry ?s1)" by simp
  obtain c2 where c2: "m_pool (registry ?s2) r = Some c2" "m_netId c2 = m_netId (Touch (msec env) c)"
    "m_clientsByPeer (registry ?s2) = (m_clientsByPeer (registry ?s1))(peerId := Some r)"
    "m_clientsByNetId (registry ?s2) = m_clientsByNetId (registry ?s1)"
    "m_clients (registry ?s2) = m_clients (registry ?s1)"
    "\<And>w. weak_lock (registry ?s2) w = weak_lock (registry ?s1) w" "oneSync env \<Longrightarrow> HasSlotId (Touch (msec env) c) \<Longrightarrow> HasSlotId c2"
    unfolding s2 using reg_SetPeer_fields [OF p1, of "oneSync env" "expiredRefs env" peerId address] by metis
  have reg2: "registered (registry ?s2) r" using reg c2(5) by simp
  have slot2: "oneSync env \<Longrightarrow> HasSlotId c2" using c2(7) slot by (simp add: HasSlotId_def Touch_def)
  have hs: "handshake env peerId address (bytes_of_string e) s = accept_client env r ?s2"
    using handshake_fields [OF e] r c valid c2(1) slot2
    by (auto simp: handshake_def Let_def client_of_def)
  have lock1: "weak_lock (registry ?s1) w = weak_lock (registry s) w" for w
    using c(1) by (auto simp: weak_lock_def client_of_def split: option.splits)
  have "m_clientsByNetId (registry ?s1) = m_clientsByNetId (registry s)" by simp
  then have free2: "net_id_free (registry ?s2) j" using free(2) by (simp only: c2(4,6) lock1)
  let ?st = "if HasConnected c2 then Some (registry ?s2) else HandleConnectingClient r (registry ?s2)"
  have "HandleConnectingClient r (registry ?s2) \<noteq> None"
    using find_netId_ends [OF registry_okD(2) [OF ok2] free(1) free2] by (auto simp: HandleConnectingClient_def)
  then obtain st where st: "?st = Some st" by (cases "HasConnected c2") auto
  have cl2: "client_of ?s2 r = Some c2" using c2(1) by (simp add: client_of_def)
  obtain s' where s': "accept_client env r ?s2 = Some s'" "registry s' = st"
    using accept_registry [OF cl2 st] by blast
  have "\<exists>c'. m_pool st r = Some c' \<and> HasConnected c' \<and> registry_ok limit st \<and> registered st r
      \<and> m_clientsByPeer st peerId = Some r"
  proof (cases "HasConnected c2")
    case True
    then show ?thesis using st ok2 c2(1,3) reg2 by simp
  next
    case False
    then have step: "HandleConnectingClient r (registry ?s2) = Some st" using st by simp
    then have "m_clients st = m_clients (registry ?s2)" "m_clientsByPeer st = m_clientsByPeer (registry ?s2)"
      by (auto simp: HandleConnectingClient_def reg_SetNetId_def OnAssignNetId_def split: option.splits)
    then show ?thesis
      using registry_ok_connecting [OF ok2 reg2 c2(1) False step] c2(3) reg2 by auto
  qed
  then obtain c' where c': "m_pool st r = Some c'" "HasConnected c'" "registry_ok limit st" "registered st r"
    "m_clientsByPeer st peerId = Some r" by blast
  have "net_id_of st r = Some (m_netId c')" using c' by (auto simp: net_id_of_def HasNetId_def HasConnected_def)
  then have "GetClientByNetID (m_netId c') st = Some r" using net_ids.finds [of st r] c'(3,4) by blast
  moreover have "GetClientByPeer peerId st = Some r" using c' by (simp add: GetClientByPeer_def weak_lock_def)
  ultimately show ?thesis using hs s' c' by (auto simp: client_of_def)
qed

end
