(* ===== verification/RegistryCount.thy ===== *)
theory RegistryCount
  imports ClientRegistryLaws
begin

text \<open>
  Two more invariants of reachable registries: \<open>GetAmountOfConnectedClients\<close> counts the registered
  clients that have a final net id, and with OneSync there is never a host.
\<close>

definition GetAmountOfConnectedClients :: "client_registry \<Rightarrow> u32" where
  "GetAmountOfConnectedClients st = m_amountConnectedClients st"

definition connected_refs :: "client_registry \<Rightarrow> client_ref set" where
  "connected_refs st = {r. registered st r \<and> (\<exists>c. m_pool st r = Some c \<and> HasConnected c)}"

definition counted :: "client_registry \<Rightarrow> bool" where
  "counted st \<longleftrightarrow> m_amountConnectedClients st = of_nat (card (connected_refs st))"

lemma finite_connected_refs [simp]: "finite (connected_refs st)"
  by (rule finite_subset [of _ "snd ` set (m_clients st)"]) (auto simp: connected_refs_def)

lemma counted_cong:
  assumes "connected_refs st' = connected_refs st" "m_amountConnectedClients st' = m_amountConnectedClients st"
  shows "counted st' = counted st"
  using assms by (simp add: counted_def)

lemma connected_refs_update:
  assumes "keeps_ids f"
  shows "connected_refs (update_client f r st) = connected_refs st"
  using assms by (auto simp: connected_refs_def keeps_ids_def HasConnected_def split: if_splits)

lemma counted_register:
  assumes ok: "registry_ok limit st" and new: "map_of (m_clients st) guid = None"
    and temp: "limit = 0x10000 + unat tempId" "limit < 2 ^ 32" and cnt: "counted st"
  shows "counted (snd (register_client guid name token addr tempId now st))"
proof -
  let ?r = "m_nextRef st" and ?st = "snd (register_client guid name token addr tempId now st)"
  have "register_client guid name token addr tempId now st = (?r, ?st)"
    by (simp add: register_client_def MakeClient_def Let_def)
  note eq = register_client_eq [OF this]
  have id: "unat (0x10000 + tempId) = limit" using temp by (simp add: unat_word_ariths)
  have temp_id: "\<not> 0x10000 + tempId < 0xFFFF" using id temp by (simp add: word_less_nat_alt)
  have old: "r \<noteq> ?r" if "registered st r" for r using registeredE [OF ok that] registry_okD(5) [OF ok] by (metis less_irrefl)
  have "connected_refs ?st = connected_refs st"
    using new temp_id old by (auto simp: connected_refs_def eq HasConnected_def client_updates Client_make_def split: if_splits)
  then show ?thesis using cnt by (simp add: counted_def eq)
qed

lemma connected_refs_SetPeer:
  assumes ok: "registry_ok limit st" and r: "registered st r"
  shows "connected_refs (reg_SetPeer oneSync expired peer address r st) = connected_refs st"
    "m_amountConnectedClients (reg_SetPeer oneSync expired peer address r st) = m_amountConnectedClients st"
proof -
  obtain c where c: "m_pool st r = Some c" using registeredE [OF ok r] by blast
  let ?st = "update_client (Client_SetPeer peer address) r st"
  have p: "m_pool ?st r = Some (Client_SetPeer peer address c)" using c by simp
  have "connected_refs (OnAssignPeer oneSync expired r ?st) = connected_refs st
      \<and> m_amountConnectedClients (OnAssignPeer oneSync expired r ?st) = m_amountConnectedClients st"
    using p
  proof (cases rule: OnAssignPeer_cases [where oneSync = oneSync and expired = expired])
    case same
    show ?thesis unfolding same using c
      by (auto simp: connected_refs_def HasConnected_def client_updates split: if_splits)
  next
    case (slot s)
    show ?thesis unfolding slot(6) using c
      by (auto simp: connected_refs_def HasConnected_def client_updates split: if_splits)
  qed
  then show "connected_refs (reg_SetPeer oneSync expired peer address r st) = connected_refs st"
    "m_amountConnectedClients (reg_SetPeer oneSync expired peer address r st) = m_amountConnectedClients st"
    by (simp_all add: reg_SetPeer_def)
qed

lemma counted_connecting:
  assumes ok: "registry_ok limit st" and r: "registered st r" and c: "m_pool st r = Some c" "\<not> HasConnected c"
    and step: "HandleConnectingClient r st = Some st'" and cnt: "counted st"
  shows "counted st'"
proof -
  obtain cur where cur: "net_id_ok cur"
    "st' = (reg_SetNetId (ucast cur) r st)\<lparr>m_curNetId := incrementId cur,
       m_amountConnectedClients := m_amountConnectedClients st + 1\<rparr>"
    using HandleConnectingClient_cases [OF step registry_okD(2) [OF ok]] by metis
  have "connected_refs st' = insert r (connected_refs st)"
    using r c net_id_ucast [OF cur(1)]
    by (auto simp: connected_refs_def cur(2) reg_SetNetId_def OnAssignNetId_def HasConnected_def client_updates split: if_splits)
  moreover have "r \<notin> connected_refs st" using c by (simp add: connected_refs_def)
  ultimately show ?thesis using cnt by (simp add: counted_def cur(2))
qed

lemma counted_RemoveClient:
  assumes ok: "registry_ok limit st" and r: "registered st r" and cnt: "counted st"
  shows "counted (RemoveClient r st)"
proof -
  obtain c where c: "m_pool st r = Some c" "(m_guid c, r) \<in> set (m_clients st)" using registeredE [OF ok r] by blast
  note eq = RemoveClient_fields [OF c(1)]
  have same_guid: "q = r" if "(m_guid c, q) \<in> set (m_clients st)" for q
    using that c(2) registry_okD(1) [OF ok] by (meson eq_key_imp_eq_value)
  have "registered (RemoveClient r st) q \<longleftrightarrow> registered st q \<and> q \<noteq> r" for q
  proof
    show "registered st q \<and> q \<noteq> r" if "registered (RemoveClient r st) q"
      using that registry_ok_RemoveClient(2) [OF ok r] by (auto simp: eq)
    assume q: "registered st q \<and> q \<noteq> r"
    then obtain g where "(g, q) \<in> set (m_clients st)" by auto
    with q same_guid show "registered (RemoveClient r st) q" by (force simp: eq)
  qed
  then have "connected_refs (RemoveClient r st) = connected_refs st - {r}"
    using c(1) by (auto simp: connected_refs_def eq SetSlotId_def HasConnected_def split: if_splits)
  moreover have "r \<in> connected_refs st \<longleftrightarrow> HasConnected c" using r c(1) by (simp add: connected_refs_def)
  moreover have "connected_refs st \<noteq> {}" if "r \<in> connected_refs st" using that by auto
  ultimately show ?thesis
    using cnt by (auto simp: counted_def eq card_Diff_singleton of_nat_diff Suc_le_eq card_gt_0_iff)
qed

lemma counted_step:
  assumes "reg_step oneSync expired s s'" "registry_ok (fst s) (snd s)" "counted (snd s)"
  shows "counted (snd s')"
  using assms
proof cases
  case (register st guid limit tempId name token addr now)
  then show ?thesis using counted_register [of limit st guid tempId name token addr now] assms(2,3) by simp
next
  case (peer st r limit p a)
  then show ?thesis using connected_refs_SetPeer [of limit st r oneSync expired p a] assms(2,3) by (simp add: counted_def)
next
  case (connecting st r c st' limit)
  then show ?thesis using counted_connecting assms(2,3) by simp
next
  case (on_object f limit r st)
  then show ?thesis using assms(3) by (simp add: counted_def connected_refs_update)
next
  case (host limit st w)
  then show ?thesis using assms(3)
    by (simp add: counted_def connected_refs_def SetHost_def split: option.splits if_splits)
next
  case (remove st r limit)
  then show ?thesis using counted_RemoveClient assms(2,3) by simp
next
  case (expired limit st r)
  then have "connected_refs (expire r st) = connected_refs st" by (auto simp: connected_refs_def expire_def)
  with expired assms(3) show ?thesis by (simp add: counted_def expire_def)
qed

lemma reachable_counted:
  assumes "reachable bigMode oneSync expired s"
  shows "counted (snd s)"
  using assms
proof induction
  case start
  show ?case by (simp add: counted_def connected_refs_def ClientRegistry_make_def)
next
  case (step s s')
  then show ?case using counted_step reachable_ok by blast
qed

subsection \<open>No host with OneSync\<close>

lemma host_step:
  assumes "reg_step True expired s s'" "m_hostNetId (snd s) = 0xFFFF"
  shows "m_hostNetId (snd s') = 0xFFFF"
  using assms
proof cases
  case (register st guid limit tempId name token addr now)
  then show ?thesis using assms(2)
    by (simp add: register_client_def MakeClient_def reg_SetNetId_def reg_SetTcpEndPoint_def
        reg_SetConnectionToken_def OnAssignNetId_def OnAssignTcpEndPoint_def OnAssignConnectionToken_def Let_def
        split: option.splits)
next
  case (peer st r limit p a)
  then show ?thesis using assms(2) by (simp add: reg_SetPeer_def OnAssignPeer_def Let_def split: option.splits)
next
  case (connecting st r c st' limit)
  then show ?thesis using assms(2)
    by (auto simp: HandleConnectingClient_def reg_SetNetId_def OnAssignNetId_def split: option.splits)
next
  case (host limit st w)
  then show ?thesis using assms(2) by (simp add: SetHost_def split: option.splits)
next
  case (remove st r limit)
  then show ?thesis using assms(2) by (cases "m_pool st r") (simp_all add: RemoveClient_def Let_def)
next
  case (expired limit st r)
  then show ?thesis using assms(2) by (simp add: expire_def)
qed simp

lemma reachable_no_host:
  assumes "reachable bigMode True expired s"
  shows "GetHost (snd s) = None"
proof -
  have "m_hostNetId (snd s) = 0xFFFF"
    using assms by induction (simp_all add: ClientRegistry_make_def host_step)
  then show ?thesis by (simp add: GetHost_def)
qed

end
