(* ===== verification/DeliveryLaws.thy ===== *)
theory DeliveryLaws
  imports HandlerLaws RegistryCount
begin

text \<open>
  What the packet handlers send: routed packets, replies, network events, host announcements. Each is
  stated from the bytes that arrive to the bytes that leave.
\<close>

subsection \<open>Handling an encoded packet\<close>

context serializable
begin

text \<open>A handler that gets the encoding of an object is run on that object.\<close>

lemma handle_packet_wire:
  assumes "wf v" "addressable (length (wire v))"
  shows "handle_packet Process init body (ByteReader_make (wire v) (of_nat (length (wire v))) ind) s = (True, body v s)"
  using ProcessPacket_wire [OF assms, of ind] by (simp add: handle_packet_def)

text \<open>A serialisable object always fits its buffer; the bytes that are sent are its encoding.\<close>

lemma SendSerializable_wire:
  assumes "wf v" "hi < 2 ^ 62"
  shows "SendSerializable Process (GetMaxSize Process init) v = Some (wire v)"
proof -
  have max: "unat (GetMaxSize Process init) = hi" "of_nat hi = GetMaxSize Process init"
    using assms(2) by (simp_all add: GetMaxSize_eq csat_def)
  have len: "length (wire v) \<le> length (replicate hi (0 :: u8))" "addressable (length (replicate hi (0 :: u8)))"
    using window [OF assms(1)] assms(2) by simp_all
  obtain w where "Process v (Writer (ByteWriter_make (replicate hi 0) (of_nat (length (replicate hi (0 :: u8))))))
      = (Success, v, Writer w)" "take (unat (woffset w)) (wdata w) = wire v"
    using send_receive [OF assms(1) len] by blast
  then show ?thesis using max by (simp add: SendSerializable_def)
qed

end

lemma SendPacket_to_peer:
  assumes "client_of s r = Some c" "m_peer c = Some p"
  shows "SendPacket ch bs rel r s = s\<lparr>packetsOut := packetsOut s @
      [\<lparr>sp_peer = p, sp_channel = ch, sp_bytes = bs, sp_reliable = rel\<rparr>]\<rparr>"
  using assms by (simp add: SendPacket_def)

lemma on_client_packets [simp]:
  "packetsOut (on_client f r s) = packetsOut s" "packetsOut (on_registry g s) = packetsOut s"
  by (simp_all add: on_client_def on_registry_def)

subsection \<open>Routing\<close>

definition relayed :: "client \<Rightarrow> ClientRoute \<Rightarrow> ClientRoute packet" where
  "relayed sender v =
     \<lparr>ptype = HashRageString ''msgRoute'',
      pdata = ClientRoute.make (ucast (m_netId sender)) (of_nat (length (span_bytes (ClientRoute.data v))))
        (Span (span_bytes (ClientRoute.data v)))\<rparr>"

lemma Routing_relays:
  assumes mode: "\<not> oneSync env" and v: "ClientRoute_wf v"
    and c: "client_of s r = Some c" "(ucast (ClientRoute.targetNetId v) :: u32) \<noteq> m_netId c"
    and t: "GetClientByNetID (ucast (ClientRoute.targetNetId v)) (registry s) = Some q"
    and d: "client_of s q = Some d" "m_peer d = Some p"
  shows "fst (Routing_Process env r (ByteReader_make (ClientRoute_wire v) (of_nat (length (ClientRoute_wire v))) ind) s)"
    "packetsOut (snd (Routing_Process env r (ByteReader_make (ClientRoute_wire v) (of_nat (length (ClientRoute_wire v))) ind) s))
      = packetsOut s @ [\<lparr>sp_peer = p, sp_channel = 1,
          sp_bytes = packet_wire ClientRoute_wire (relayed c v), sp_reliable = False\<rparr>]"
    "ClientRoute_wf (pdata (relayed c v))"
proof -
  have fits: "span_fits (ConstrainedStreamTail 1 65535) (ClientRoute.data v)" using v by (simp add: ClientRoute_wf_def)
  have size: "1 \<le> length (span_bytes (ClientRoute.data v))" "length (span_bytes (ClientRoute.data v)) \<le> 65535"
    using span_size_bounds [OF fits] by (simp_all add: size_option_simps)
  have "addressable (length (ClientRoute_wire v))" using crt.window [OF v] by simp
  note run = crt.handle_packet_wire [OF v this, of "Routing_body env r" ind s]
  have bytes: "route_packet (m_netId c) (span_bytes (ClientRoute.data v))
      = Some (packet_wire ClientRoute_wire (relayed c v))"
    using route_packet_wire [OF size(2), of "m_netId c"] by (simp add: relayed_def)
  show "fst (Routing_Process env r (ByteReader_make (ClientRoute_wire v) (of_nat (length (ClientRoute_wire v))) ind) s)"
    using run by (simp add: Routing_Process_def)
  show "packetsOut (snd (Routing_Process env r (ByteReader_make (ClientRoute_wire v) (of_nat (length (ClientRoute_wire v))) ind) s))
      = packetsOut s @ [\<lparr>sp_peer = p, sp_channel = 1,
          sp_bytes = packet_wire ClientRoute_wire (relayed c v), sp_reliable = False\<rparr>]"
    using run mode c t bytes d
    by (simp add: Routing_Process_def Routing_body_def Let_def SendPacket_to_peer)
  show "ClientRoute_wf (pdata (relayed c v))"
    using size by (simp add: relayed_def ClientRoute_wf_def ClientRoute.defs size_fits_def codec_simps)
qed

subsection \<open>Time synchronisation\<close>

lemma TimeSync_replies:
  assumes c: "client_of s r = Some c" "m_peer c = Some p"
  shows "TimeSyncReq_Process env r (ByteReader_make (TimeSyncRequest_wire v) (of_nat (length (TimeSyncRequest_wire v))) ind) s
    = (True, s\<lparr>packetsOut := packetsOut s @ [\<lparr>sp_peer = p, sp_channel = 1, sp_bytes =
        packet_wire TimeSyncResponse_wire (TimeSyncResponsePacket_init\<lparr>pdata := TimeSyncResponse.make v (word_of_int (msec env))\<rparr>),
        sp_reliable = True\<rparr>]\<rparr>)"
proof -
  let ?p = "TimeSyncResponsePacket_init\<lparr>pdata := TimeSyncResponse.make v (word_of_int (msec env))\<rparr>"
  have wf: "TimeSyncRequest_wf v" "packet_wf TimeSyncResponse_wf ?p"
    by (simp_all add: TimeSyncRequest_wf_def packet_wf_def TimeSyncResponse_wf_def)
  have len: "addressable (length (TimeSyncRequest_wire v))" by (simp add: TimeSyncRequest_length)
  show ?thesis
    using tsq.handle_packet_wire [OF wf(1) len, of "TimeSyncReq_body env r" ind s]
      tsr_packet.SendSerializable_wire [OF wf(2)] c
    by (simp add: TimeSyncReq_Process_def TimeSyncReq_body_def SendPacket_to_peer Let_def)
qed

subsection \<open>Network events\<close>

definition skips :: "event_env \<Rightarrow> u16 set \<Rightarrow> u16 \<Rightarrow> bool" where
  "skips ev processed player \<longleftrightarrow> (if unat player < PROCESSED_BITS then player \<in> processed else seen_beyond ev player)"

abbreviation seen :: "u16 set \<Rightarrow> u16 \<Rightarrow> u16 set" where
  "seen processed player \<equiv> if unat player < PROCESSED_BITS then insert player processed else processed"

definition may_get :: "event_env \<Rightarrow> client_ref \<Rightarrow> server \<Rightarrow> u16 \<Rightarrow> bool" where
  "may_get ev r s player \<longleftrightarrow> (\<exists>t d. GetClientByNetID (ucast player) (registry s) = Some t
     \<and> GetClientRoutingBucket ev t = GetClientRoutingBucket ev r
     \<and> client_of s t = Some d \<and> IsClientRelevantEntity ev r (m_slotId d))"

text \<open>The loop in one equation.\<close>

lemma target_players_Cons:
  "target_players ev r s processed (player # players) =
     (if skips ev processed player then target_players ev r s processed players
      else (if may_get ev r s player then [player] else []) @ target_players ev r s (seen processed player) players)"
  by (auto simp: Let_def may_get_def skips_def split: option.splits)

declare target_players.simps(2) [simp del]

lemma target_players_sound:
  assumes "player \<in> set (target_players ev r s processed players)"
  shows "player \<in> set players \<and> (unat player < PROCESSED_BITS \<longrightarrow> player \<notin> processed) \<and> may_get ev r s player"
  using assms
proof (induction players arbitrary: processed)
  case (Cons x players)
  show ?case
  proof (cases "skips ev processed x")
    case True
    then have "player \<in> set (target_players ev r s processed players)"
      using Cons.prems by (simp only: target_players_Cons if_True)
    then show ?thesis using Cons.IH [of processed] by simp
  next
    case False
    then have "player = x \<and> may_get ev r s x \<or> player \<in> set (target_players ev r s (seen processed x) players)"
      using Cons.prems by (simp only: target_players_Cons if_False) (auto split: if_splits)
    then show ?thesis using Cons.IH [of "seen processed x"] False by (auto simp: skips_def split: if_splits)
  qed
qed simp

lemma target_players_distinct:
  "distinct (filter (\<lambda>p. unat p < PROCESSED_BITS) (target_players ev r s processed players))"
proof (induction players arbitrary: processed)
  case (Cons player players)
  have "unat player < PROCESSED_BITS \<Longrightarrow> player \<notin> set (target_players ev r s (seen processed player) players)"
    using target_players_sound [of player ev r s "seen processed player" players] by auto
  with Cons show ?case by (auto simp: target_players_Cons)
qed simp

text \<open>Every player of the list that may get the event is a target, once seen players are skipped.\<close>

lemma target_players_complete:
  assumes "player \<in> set players" "unat player < PROCESSED_BITS" "player \<notin> processed" "may_get ev r s player"
  shows "player \<in> set (target_players ev r s processed players)"
  using assms(1,3)
proof (induction players arbitrary: processed)
  case (Cons x players)
  show ?case
  proof (cases "x = player")
    case True
    then show ?thesis using assms(2,4) Cons.prems(2) by (simp add: target_players_Cons skips_def)
  next
    case False
    then have "player \<in> set players" "player \<notin> seen processed x" using Cons.prems by (auto split: if_splits)
    then have "player \<in> set (target_players ev r s (seen processed x) players)"
      "player \<in> set (target_players ev r s processed players)"
      using Cons.IH Cons.prems(2) by blast+
    then show ?thesis by (cases "skips ev processed x") (simp_all only: target_players_Cons if_True if_False set_append Un_iff simp_thms)
  qed
qed simp

subsection \<open>Host votes\<close>

text \<open>The first vote is counted twice: a group of up to three is decided by it.\<close>

lemma votesNeeded_2: "votesNeeded n \<le> 2 \<longleftrightarrow> n \<le> 3"
  by (auto simp: votesNeeded_def Let_def)

definition routed_clients :: "server \<Rightarrow> nat" where
  "routed_clients s = length (filter (\<lambda>q. case client_of s q of Some c \<Rightarrow> m_hasRouted c | None \<Rightarrow> False)
     (ForAllClients (registry s)))"

lemma announce_host_keeps [simp]: "registry (announce_host r s) = registry s"
  by (simp add: announce_host_def Let_def split: option.splits)

lemma HeHost_first_vote:
  assumes mode: "\<not> oneSync env" and h: "GetHost (registry s) = None"
    and n: "GetClientByNetID (ClientHeHost.allegedNewId v) (registry s) = Some n" "client_of s n = Some c"
    and c: "m_netId c = ClientHeHost.allegedNewId v" "HasConnected c" "m_netId c \<noteq> 0"
    and votes: "voteCounts s (ClientHeHost.allegedNewId v) = None" and few: "routed_clients s \<le> 3"
  shows "GetHost (registry (HeHost_body env v s)) = Some n"
proof -
  let ?id = "ClientHeHost.allegedNewId v" and ?st = "update_client (SetNetBase (ClientHeHost.baseNum v)) n (registry s)"
  have few': "int (votesNeeded (routed_clients s)) \<le> 2" using few votesNeeded_2 by simp
  have p: "m_pool (registry s) n = Some c" using n(2) by (simp add: client_of_def)
  have "registry (HeHost_body env v s) = SetHost (oneSync env) (Some n) ?st"
    using h n votes few'
    by (simp add: HeHost_body_def Let_def routed_clients_def client_of_def on_client_def on_registry_def)
  also have "\<dots> = ?st\<lparr>m_hostNetId := ucast (m_netId c)\<rparr>"
    using mode p by (simp add: SetHost_def SetNetBase_def)
  finally have st: "registry (HeHost_body env v s) = ?st\<lparr>m_hostNetId := ucast (m_netId c)\<rparr>" .
  have lt: "unat ?id < 65535" using c(1,2) by (simp add: HasConnected_def word_less_nat_alt)
  then have "unat (ucast ?id :: u16) = unat ?id" by (simp add: unsigned_ucast_eq take_bit_nat_eq_self)
  then have id: "(ucast ?id :: u16) \<noteq> 0xFFFF" "(ucast (ucast ?id :: u16) :: u32) = ?id"
    using lt by (auto simp: word_unat_eq_iff)
  have "m_clientsByNetId (registry s) ?id = Some n"
    using n(1) by (auto simp: GetClientByNetID_def weak_lock_def split: option.splits if_splits)
  then show ?thesis
    using id p by (simp add: st c(1) GetHost_def GetClientByNetID_def weak_lock_def)
qed

subsection \<open>Object ids\<close>

lemma SetIds_packet_wf:
  assumes "length xs \<le> (if BigMode then 6 else 64)" "pdata p = snd (SetIds xs [] ServerObjectIds_init)"
  shows "packet_wf (ServerObjectIds_wf BigMode) p"
  using assms(1) SetIds_loop_length [of "-1" xs]
  by (auto simp: assms(2) packet_wf_def ServerObjectIds_wf_def SetIds_def ServerObjectIds_init_def
      ids_option_def size_option_simps size_fits_def Let_def split: if_splits)

definition ids_packet :: "u16 list \<Rightarrow> ServerObjectIds packet" where
  "ids_packet xs = ServerObjectIdsPacket_init\<lparr>pdata := snd (SetIds xs [] ServerObjectIds_init)\<rparr>"

lemma SendObjectIds_sends:
  assumes c: "client_of s r = Some c" "m_peer c = Some p"
    and n: "length (GetFreeObjectIds env r numIds s) \<le> (if bigMode env then 6 else 64)"
  shows "SendObjectIds env r numIds s = s\<lparr>packetsOut := packetsOut s @ [\<lparr>sp_peer = p, sp_channel = 1,
      sp_bytes = packet_wire (ServerObjectIds_wire (bigMode env)) (ids_packet (GetFreeObjectIds env r numIds s)),
      sp_reliable = True\<rparr>]\<rparr>"
proof -
  let ?p = "ids_packet (GetFreeObjectIds env r numIds s)"
  have wf: "packet_wf (ServerObjectIds_wf (bigMode env)) ?p"
    by (rule SetIds_packet_wf [OF n]) (simp add: ids_packet_def)
  have "(4 + (if bigMode env then 26 else 258) :: nat) < 2 ^ 62" by simp
  from soi_packet.SendSerializable_wire [OF wf this] show ?thesis
    using c by (simp add: SendObjectIds_def SendObjectIdsToClient_def Let_def ids_packet_def SendPacket_to_peer)
qed

subsection \<open>A client that is removed twice\<close>

text \<open>
  Between \<open>DropClientv\<close> and the main thread running its callback, a handshake with the guid of the client
  and a wrong token removes it; the callback then removes it again.
\<close>

lemma dropped_then_removed:
  assumes r: "GetClientByGuid g (registry s) = Some r" and c: "client_of s r = Some c" "\<not> m_dropping c" "HasConnected c"
    and q: "mainCallbacks s = []" and e: "form_encodes [(''guid'', g), (''token'', t)] e" and t: "t \<noteq> m_connectionToken c"
  shows "\<exists>s2. handshake env peerId address (bytes_of_string e) (DropClientv env False r rn dr why s) = Some s2
    \<and> m_amountConnectedClients (registry (Run env s2)) = m_amountConnectedClients (registry s) - 2"
proof -
  let ?s1 = "DropClientv env False r rn dr why s" and ?why = "if why = [] then ''Dropped.'' else why"
  let ?st = "update_client SetDropping r (registry s)"
  have s1: "registry ?s1 = ?st" "mainCallbacks ?s1 = [CbDropClient r rn dr ?why]"
    using DropClientv_queued [OF c(1,2)] q by simp_all
  have p1: "m_pool ?st r = Some (SetDropping c)" using c(1) by (simp add: client_of_def)
  let ?s2 = "on_registry (RemoveClient r) (SendOutOfBand address ''error Invalid connection token received.'' ?s1)"
  have "client_of ?s1 r = Some (SetDropping c)" using p1 s1(1) by (simp add: client_of_def)
  moreover have "GetClientByGuid g (registry ?s1) = Some r" using r s1(1) by (simp add: GetClientByGuid_def)
  moreover have "m_connectionToken (SetDropping c) = m_connectionToken c" by (simp add: SetDropping_def)
  ultimately have h: "handshake env peerId address (bytes_of_string e) ?s1 = Some ?s2"
    using handshake_fields [OF e] t by (simp add: handshake_def Let_def)
  have st2: "registry ?s2 = RemoveClient r ?st" "mainCallbacks ?s2 = [CbDropClient r rn dr ?why]" using s1 by simp_all
  let ?d = "SetSlotId (- 1) (SetDropping c)"
  have p2: "m_pool (RemoveClient r ?st) r = Some ?d" using RemoveClient_fields(1) [OF p1] by simp
  have "client_of (?s2\<lparr>mainCallbacks := []\<rparr>) r = Some ?d" using p2 s1(1) by (simp add: client_of_def)
  from registry_DropClientInternal(1) [OF this] have run:
    "registry (Run env ?s2) = RemoveClient r (log_drop env r (RemoveClient r ?st))"
    using st2 by (simp add: Run_def run_callback_def)
  have "m_pool (log_drop env r (RemoveClient r ?st)) r = Some ?d" using p2 by simp
  from RemoveClient_fields(11) [OF this] RemoveClient_fields(11) [OF p1] c(3) run
  have "m_amountConnectedClients (registry (Run env ?s2)) = m_amountConnectedClients (registry s) - 2"
    by (simp add: HasConnected_def SetSlotId_def SetDropping_def)
  with h show ?thesis by blast
qed

end
