(* ===== verification/SampleServer.thy ===== *)
theory SampleServer
  imports DeliveryLaws
begin

text \<open>
  A small concrete server, on which the properties of the server are applied: two connected clients,
  \<open>g\<close> with net id 1 and peer 11 and \<open>h\<close> with net id 2 and peer 12, no host and empty queues.
\<close>

definition sample_client :: "string \<Rightarrow> u32 \<Rightarrow> int \<Rightarrow> client" where
  "sample_client g i p = (Client_make g 5)\<lparr>m_netId := i, m_peer := Some p, m_connectionToken := ''t'',
     m_userData := [''passedValidation'' \<mapsto> AnyBool True], m_hasRouted := True\<rparr>"

definition sample_registry :: client_registry where
  "sample_registry = (ClientRegistry_make False)
     \<lparr>m_pool := [0 \<mapsto> sample_client ''g'' 1 11, 1 \<mapsto> sample_client ''h'' 2 12], m_nextRef := 2,
      m_clients := [(''g'', 0), (''h'', 1)], m_clientsByNetId := [1 \<mapsto> 0, 2 \<mapsto> 1],
      m_clientsByPeer := [11 \<mapsto> 0, 12 \<mapsto> 1], m_curNetId := 3, m_amountConnectedClients := 2\<rparr>"

definition sample_server :: server where
  "sample_server = \<lparr>registry = sample_registry, mainCallbacks = [], syncCallbacks = [], packetsOut = [],
     oobOut = [], scriptEvents = [], voteCounts = (\<lambda>_. None), nextHeartbeatTime = 0\<rparr>"

definition sample_env :: server_env where
  "sample_env = \<lparr>oneSync = False, bigMode = False, expiredRefs = False, gta5 = True, peerPings = (\<lambda>_. Some 30),
     msec = 1000, GetFreeObjectIds = (\<lambda>_ n _. map of_nat [1..<Suc n])\<rparr>"

definition sample_events :: event_env where
  "sample_events = \<lparr>IsNetGameEventBlocked = (\<lambda>_. False), GetClientRoutingBucket = (\<lambda>_. 0),
     IsClientRelevantEntity = (\<lambda>_ _. True), GetGameEventHandler = (\<lambda>_ _ _. None), seen_beyond = (\<lambda>_. False)\<rparr>"

lemma sample_ok: "registry_ok 0x10000 (registry sample_server)"
  by (simp add: sample_server_def sample_registry_def registry_ok_def client_ok_def sample_client_def
      Client_make_def ClientRegistry_make_def HasPreviousNetId_def)

lemma sample_lookups [simp]:
  "registered (registry sample_server) 0" "client_of sample_server 0 = Some (sample_client ''g'' 1 11)"
  "m_pool (registry sample_server) 0 = Some (sample_client ''g'' 1 11)"
  "client_of sample_server 1 = Some (sample_client ''h'' 2 12)" "client_of sample_server (Suc 0) = Some (sample_client ''h'' 2 12)"
  "GetClientByGuid ''g'' (registry sample_server) = Some 0"
  "GetClientByNetID 1 (registry sample_server) = Some 0" "GetClientByNetID 2 (registry sample_server) = Some 1"
  "GetHost (registry sample_server) = None" "mainCallbacks sample_server = []" "voteCounts sample_server i = None"
  "routed_clients sample_server = 2" "weak_lock (registry sample_server) (m_clientsByNetId (registry sample_server) 9) = None"
  by (simp_all add: sample_server_def sample_registry_def ClientRegistry_make_def client_of_def GetClientByGuid_def
      GetClientByNetID_def weak_lock_def GetHost_def routed_clients_def ForAllClients_def sample_client_def Client_make_def)

lemma sample_fields [simp]:
  "m_netId (sample_client g i p) = i" "m_peer (sample_client g i p) = Some p" "m_guid (sample_client g i p) = g"
  "m_connectionToken (sample_client g i p) = ''t''" "\<not> m_dropping (sample_client g i p)"
  "GetData ''passedValidation'' (sample_client g i p) = Some (AnyBool True)" "GetPeer (sample_client g i p) = p"
  "HasConnected (sample_client g i p) \<longleftrightarrow> i < 0xFFFF" "\<not> HasSlotId (sample_client g i p)"
  "m_slotId (sample_client g i p) = - 1"
  by (simp_all add: sample_client_def Client_make_def client_queries)

lemma sample_env_fields [simp]:
  "\<not> oneSync sample_env" "\<not> bigMode sample_env" "msec sample_env = 1000"
  "GetFreeObjectIds sample_env r n s = map of_nat [1..<Suc n]"
  by (simp_all add: sample_env_def)

lemma sample_form: "form_encodes [(''guid'', ''g''), (''token'', ''t'')] ''guid=g&token=t''"
  "form_encodes [(''guid'', ''g''), (''token'', ''u'')] ''guid=g&token=u''"
proof -
  have plain: "url_encodes x x" if "set x \<inter> {CHR ''%'', CHR ''+'', CHR ''='', CHR ''&'', CHR '' ''} = {}" for x
    using that by (induction x) (auto intro: url_encodes.intros)
  have one: "form_encodes [(''token'', [c])] (''token'' @ ''='' @ [c])" if "c \<in> {CHR ''t'', CHR ''u''}" for c
    using that by (intro form_encodes.one plain) auto
  have more: "form_encodes [(''guid'', ''g''), (''token'', [c])] (''guid'' @ ''='' @ ''g'' @ ''&'' @ ''token'' @ ''='' @ [c])"
    if "c \<in> {CHR ''t'', CHR ''u''}" for c
    by (intro form_encodes.more one plain that) auto
  from more [of "CHR ''t''"] more [of "CHR ''u''"]
  show "form_encodes [(''guid'', ''g''), (''token'', ''t'')] ''guid=g&token=t''"
    "form_encodes [(''guid'', ''g''), (''token'', ''u'')] ''guid=g&token=u''" by simp_all
qed

end
