(* ===== verification/StdMap.thy ===== *)
theory StdMap
  imports Main
begin

text \<open>
  \<open>std::map\<close> and \<open>std::set\<close> as strictly ascending lists: iteration is list traversal, insertion and
  erasure keep the order. A list is determined by its lookups, so two ways of filling a map agree as
  soon as their lookups do.
\<close>

fun map_put :: "'k::linorder \<Rightarrow> 'v \<Rightarrow> ('k \<times> 'v) list \<Rightarrow> ('k \<times> 'v) list" where
  "map_put k v [] = [(k, v)]"
| "map_put k v ((l, w) # xs) =
     (if k < l then (k, v) # (l, w) # xs else if k = l then (k, v) # xs else (l, w) # map_put k v xs)"

definition map_ok :: "('k::linorder \<times> 'v) list \<Rightarrow> bool" where
  "map_ok xs \<longleftrightarrow> sorted_wrt (<) (map fst xs)"

lemma map_ok_simps [simp]:
  "map_ok []" "map_ok ((k, v) # xs) \<longleftrightarrow> (\<forall>l\<in>fst ` set xs. k < l) \<and> map_ok xs"
  by (simp_all add: map_ok_def)

lemma keys_map_put [simp]: "fst ` set (map_put k v xs) = insert k (fst ` set xs)"
  by (induction k v xs rule: map_put.induct) auto

lemma map_ok_put: "map_ok xs \<Longrightarrow> map_ok (map_put k v xs)"
  by (induction k v xs rule: map_put.induct) (auto simp del: keys_map_put simp: Ball_def keys_map_put [THEN set_eq_iff [THEN iffD1]] dest: bspec)

lemma map_of_put: "map_ok xs \<Longrightarrow> map_of (map_put k v xs) = (map_of xs)(k \<mapsto> v)"
proof (induction k v xs rule: map_put.induct)
  case (2 k v l w xs)
  have "map_of xs k = None" if "k < l"
    using 2 that by (force simp: map_of_eq_None_iff)
  with 2 show ?case by (auto simp: fun_eq_iff)
qed simp

lemma map_ok_distinct: "map_ok xs \<Longrightarrow> distinct (map fst xs)"
  by (simp add: map_ok_def strict_sorted_iff)

lemma map_ok_unique:
  assumes "map_ok xs" "map_ok ys" "map_of xs = map_of ys"
  shows "xs = ys"
proof (rule map_sorted_distinct_set_unique [where f = fst])
  have d: "distinct (map fst xs)" "distinct (map fst ys)" using assms map_ok_distinct by blast+
  then show s: "set xs = set ys" using assms(3) by (metis map_of_inject_set)
  show "inj_on fst (set xs \<union> set ys)" using d s by (simp add: distinct_map)
qed (use assms in \<open>simp_all add: map_ok_def strict_sorted_iff\<close>)

text \<open>\<open>std::set\<close> of the elements of a list.\<close>

definition std_set :: "'a::linorder list \<Rightarrow> 'a list" where
  "std_set xs = sort (remdups xs)"

lemma std_set [simp]: "set (std_set xs) = set xs" "distinct (std_set xs)" "sorted (std_set xs)"
  by (simp_all add: std_set_def)

text \<open>\<open>std::multimap\<close>: an ascending list in which a new entry goes behind those of its key.\<close>

definition multi_put :: "'k::linorder \<Rightarrow> 'v \<Rightarrow> ('k \<times> 'v) list \<Rightarrow> ('k \<times> 'v) list" where
  "multi_put k v xs = takeWhile (\<lambda>(l, _). l \<le> k) xs @ (k, v) # dropWhile (\<lambda>(l, _). l \<le> k) xs"

text \<open>The values of \<open>equal_range\<close>.\<close>

definition multi_get :: "'k \<Rightarrow> ('k \<times> 'v) list \<Rightarrow> 'v list" where
  "multi_get k xs = map snd (filter (\<lambda>(l, _). l = k) xs)"

lemma set_multi_put [simp]: "set (multi_put k v xs) = insert (k, v) (set xs)"
proof -
  have "set xs = set (takeWhile (\<lambda>(l, _). l \<le> k) xs) \<union> set (dropWhile (\<lambda>(l, _). l \<le> k) xs)"
    by (metis set_append takeWhile_dropWhile_id)
  then show ?thesis by (auto simp: multi_put_def)
qed

lemma multi_get_iff [simp]: "v \<in> set (multi_get k xs) \<longleftrightarrow> (k, v) \<in> set xs"
  by (force simp: multi_get_def)

lemma multi_put_sorted: "sorted (map fst xs) \<Longrightarrow> sorted (map fst (multi_put k v xs))"
  by (induction xs) (fastforce simp: multi_put_def split: prod.splits dest: set_takeWhileD set_dropWhileD)+

end
