(* ===== verification/EventReassembly.thy ===== *)
theory EventReassembly
  imports PacketsResource Client MessageBuffer NetBuffer StdMap "HOL-Library.AList"
begin

text \<open>
  \<open>citizen-resources-core/src/EventReassemblyComponent.cpp\<close>: large events are cut into fragments, each
  sent until it is acknowledged, and put together again by the receiver. An \<open>unordered_map\<close> is an
  association list or a function, \<open>std::map\<close> and \<open>std::set\<close> are ascending lists; a null \<open>shared_ptr\<close> of
  target data and a missing one behave alike and are both \<open>None\<close>. Each method is one atomic step under
  \<open>m_listMutex\<close>. What leaves the component is logged: packets given to the sink, and queued events.
  Version 1 packets are modelled behind \<open>EventPacket::Parse\<close> and before \<open>Unparse\<close>, whose unaligned bit
  copy is decompiler output. \<open>None\<close> of an operation is a \<open>memcpy\<close> or string outside its buffer.
\<close>

subsection \<open>The state\<close>

record per_target_data =
  lastSend :: int
  delayNextSend :: int
  ackBits :: "bool list"
  lastBit :: nat

record send_event =
  targets :: "int list"
  bytesPerSecond :: int
  sendPayload :: "u8 list"
  targetData :: "int \<Rightarrow> per_target_data option"

record receive_event =
  re_source :: int
  ackedBits :: "bool list"
  completed :: bool
  timeLastAck :: int
  packetData :: "(u32 \<times> u8 list) list"

text \<open>\<open>EventPacket\<close>; \<open>thisBytes\<close> is the length of the payload.\<close>

record event_packet =
  ep_eventId :: u64
  ep_packetIdx :: u32
  ep_totalPackets :: u32
  ep_payload :: "u8 list"

datatype sink_packet = SinkPacket int event_packet | SinkPacketV2 int "ReassembledEventV2 packet"

record reassembly =
  m_sendList :: "(u64 \<times> send_event) list"
  m_sendListV2 :: "(u64 \<times> send_event) list"
  m_receiveList :: "int \<Rightarrow> u64 \<Rightarrow> receive_event option"
  m_targets :: "(int \<times> u8) list"
  m_eventId :: u64
  m_lastTime :: int
  m_lastCleanup :: int
  staticEventName :: "u8 list"
  sinkOut :: "sink_packet list"
  queuedEvents :: "(u8 list \<times> u8 list \<times> string) list"

text \<open>
  \<open>latency\<close> is \<open>1000 / (bytesPerSecond / fragmentSize)\<close>, computed in doubles and truncated;
  \<open>indet\<close> gives the values of locals that are read unassigned.
\<close>

record reassembly_env =
  timeNow :: int
  LimitEvent :: "int \<Rightarrow> bool"
  latency :: "int \<Rightarrow> nat \<Rightarrow> int"
  indet :: "nat \<Rightarrow> u64"

definition kFragmentSize :: nat where
  "kFragmentSize = 1024 - 1"

definition kMaxPacketSize :: u32 where
  "kMaxPacketSize = push_bit 17 1 * of_nat kFragmentSize"

definition kFragmentSizeV2 :: nat where
  "kFragmentSizeV2 = 2048 - 1"

definition kMaxPacketSizeV2 :: u32 where
  "kMaxPacketSizeV2 = push_bit 16 1 * of_nat kFragmentSizeV2"

definition EventReassembly_make :: "int \<Rightarrow> reassembly" where
  "EventReassembly_make now =
     \<lparr>m_sendList = [], m_sendListV2 = [], m_receiveList = (\<lambda>_ _. None), m_targets = [], m_eventId = 0,
      m_lastTime = now, m_lastCleanup = now, staticEventName = replicate 65536 0, sinkOut = [], queuedEvents = []\<rparr>"

subsection \<open>Targets\<close>

definition RegisterTarget :: "int \<Rightarrow> u8 \<Rightarrow> reassembly \<Rightarrow> reassembly" where
  "RegisterTarget i maxPendingEvents st = st\<lparr>m_targets := AList.update i maxPendingEvents (m_targets st)\<rparr>"

definition UnregisterSendList :: "int \<Rightarrow> (u64 \<times> send_event) list \<Rightarrow> (u64 \<times> send_event) list" where
  "UnregisterSendList target sendList =
     map (\<lambda>(e, ev). (e, ev\<lparr>targetData := (targetData ev)(target := None), targets := removeAll target (targets ev)\<rparr>)) sendList"

definition UnregisterTarget :: "int \<Rightarrow> reassembly \<Rightarrow> reassembly" where
  "UnregisterTarget i st =
     (if map_of (m_targets st) i = None then st
      else st\<lparr>m_targets := AList.delete i (m_targets st), m_receiveList := (m_receiveList st)(i := (\<lambda>_. None)),
         m_sendList := UnregisterSendList i (m_sendList st), m_sendListV2 := UnregisterSendList i (m_sendListV2 st)\<rparr>)"

subsection \<open>Sending an event\<close>

text \<open>The sum of the sizes is truncated to 32 bits before it is compared.\<close>

definition oversized :: "u32 \<Rightarrow> u8 list \<Rightarrow> u8 list \<Rightarrow> bool" where
  "oversized maxSize evName evPayload \<longleftrightarrow>
     (of_nat (length evPayload + length evName + 2) :: u32) \<ge> maxSize"

definition send_targets :: "int \<Rightarrow> reassembly \<Rightarrow> int list option" where
  "send_targets target st =
     (if target = - 1 then Some (std_set (map fst (m_targets st)))
      else if map_of (m_targets st) target = None then None
      else Some [target])"

definition packet_count :: "nat \<Rightarrow> nat \<Rightarrow> nat" where
  "packet_count frag n = (let packetCount = n div frag in if n mod frag \<noteq> 0 then packetCount + 1 else packetCount)"

definition make_send_event :: "int \<Rightarrow> int list \<Rightarrow> nat \<Rightarrow> u8 list \<Rightarrow> send_event" where
  "make_send_event bps ts frag payload =
     (let fresh = \<lparr>lastSend = 0, delayNextSend = 0,
            ackBits = replicate (packet_count frag (length payload)) False, lastBit = 0\<rparr> in
      \<lparr>targets = ts, bytesPerSecond = bps, sendPayload = payload,
       targetData = (\<lambda>t. if t \<in> set ts then Some fresh else None)\<rparr>)"

text \<open>\<open>insert\<close> keeps an entry that is there.\<close>

definition insert_send :: "u64 \<Rightarrow> send_event \<Rightarrow> (u64 \<times> send_event) list \<Rightarrow> (u64 \<times> send_event) list" where
  "insert_send e ev sendList = (if map_of sendList e = None then sendList @ [(e, ev)] else sendList)"

definition write_event :: "u8 list \<Rightarrow> u8 list \<Rightarrow> u8 list option" where
  "write_event evName evPayload =
     (let count = length evName + 2 + length evPayload;
          writer = ByteWriter_make (replicate count 0) (of_nat count);
          eventNameSize = of_nat (length evName) :: u16 in
      case ByteWriter_Field 2 (le_enc 2 eventNameSize) writer of
        (OutOfBounds, _) \<Rightarrow> None
      | (_, writer) \<Rightarrow>
          case ByteWriter_Field_string_view evName (ucast eventNameSize) writer of
            (OutOfBounds, _) \<Rightarrow> None
          | (_, writer) \<Rightarrow>
              case ByteWriter_Field_string_view evPayload (of_nat (length evPayload)) writer of
                (OutOfBounds, _) \<Rightarrow> None
              | (_, writer) \<Rightarrow> Some (wdata writer))"

definition default_bps :: "int \<Rightarrow> int" where
  "default_bps bps = (if bps \<le> 0 then 25000 else bps)"

definition TriggerEventV2 :: "int \<Rightarrow> u8 list \<Rightarrow> u8 list \<Rightarrow> int \<Rightarrow> reassembly \<Rightarrow> reassembly option" where
  "TriggerEventV2 target evName evPayload bps st =
     (if oversized kMaxPacketSizeV2 evName evPayload then Some st
      else
        case send_targets target st of
          None \<Rightarrow> Some st
        | Some ts \<Rightarrow>
            case write_event evName evPayload of
              None \<Rightarrow> None
            | Some payload \<Rightarrow>
                Some (st\<lparr>m_eventId := m_eventId st + 1,
                  m_sendListV2 := insert_send (m_eventId st)
                    (make_send_event (default_bps bps) ts kFragmentSizeV2 payload) (m_sendListV2 st)\<rparr>))"

text \<open>
  Version 1 writes through a bit buffer. \<open>WriteBits\<close> and \<open>ReadBits\<close> of whole bytes at a byte position are
  the \<open>memcpy\<close> branch of \<open>CopyBits\<close>.
\<close>

definition WriteBits_bytes :: "u8 list \<Rightarrow> message_buffer \<Rightarrow> message_buffer" where
  "WriteBits_bytes src b =
     (if m_curBit b + length src * 8 > m_maxBit b then b
      else b\<lparr>m_data := overwrite (m_curBit b div 8) src (m_data b), m_curBit := m_curBit b + length src * 8\<rparr>)"

definition ReadBits_bytes :: "nat \<Rightarrow> message_buffer \<Rightarrow> u8 list option \<times> message_buffer" where
  "ReadBits_bytes n b =
     (if n = 0 then (Some [], b)
      else if m_curBit b + n * 8 > m_maxBit b then (None, b)
      else (Some (take n (drop (m_curBit b div 8) (m_data b))), b\<lparr>m_curBit := m_curBit b + n * 8\<rparr>))"

definition TriggerEvent :: "int \<Rightarrow> u8 list \<Rightarrow> u8 list \<Rightarrow> int \<Rightarrow> reassembly \<Rightarrow> reassembly option" where
  "TriggerEvent target evName evPayload bps st =
     (if oversized kMaxPacketSize evName evPayload then Some st
      else
        case send_targets target st of
          None \<Rightarrow> Some st
        | Some ts \<Rightarrow>
            case Write False 16 (of_nat (length evName)) (MessageBuffer_sized (length evName + 2 + length evPayload)) of
              None \<Rightarrow> None
            | Some b \<Rightarrow>
                let b = WriteBits_bytes evName b; off = m_curBit b div 8 in
                if off + length evPayload > length (m_data b) then None
                else
                  Some (st\<lparr>m_eventId := m_eventId st + 1,
                    m_sendList := insert_send (m_eventId st)
                      (make_send_event (default_bps bps) ts kFragmentSize (overwrite off evPayload (m_data b))) (m_sendList st)\<rparr>))"

subsection \<open>The network tick\<close>

definition fragment :: "nat \<Rightarrow> u8 list \<Rightarrow> nat \<Rightarrow> u8 list" where
  "fragment frag payload i = take frag (drop (i * frag) payload)"

definition sink_fragment :: "bool \<Rightarrow> nat \<Rightarrow> u64 \<Rightarrow> int \<Rightarrow> u8 list \<Rightarrow> nat \<Rightarrow> nat \<Rightarrow> sink_packet" where
  "sink_fragment v2 frag evId target payload count i =
     (if v2 then SinkPacketV2 target (ReassembledEventV2Packet_init
        \<lparr>pdata := ReassembledEventV2.make evId (of_nat i) (of_nat count) (Span (fragment frag payload i))\<rparr>)
      else SinkPacket target \<lparr>ep_eventId = evId, ep_packetIdx = of_nat i, ep_totalPackets = of_nat count,
        ep_payload = fragment frag payload i\<rparr>)"

text \<open>
  The burst loop for one target: the indices that are sent, the data afterwards, and whether every
  fragment is acknowledged. \<open>None\<close> of a search is \<open>-1\<close>.
\<close>

definition early_bit :: "per_target_data \<Rightarrow> nat option" where
  "early_bit td = find (\<lambda>bit. \<not> ackBits td ! bit) [0..<lastBit td]"

definition next_bit :: "per_target_data \<Rightarrow> nat option" where
  "next_bit td = find (\<lambda>bit. \<not> ackBits td ! bit) [lastBit td..<length (ackBits td)]"

lemma find_upt_Some: "find P [a..<b] = Some i \<Longrightarrow> a \<le> i \<and> i < b \<and> P i"
  by (auto simp: find_Some_iff)

function burst :: "int \<Rightarrow> int \<Rightarrow> nat \<Rightarrow> int \<Rightarrow> per_target_data \<Rightarrow> nat list \<times> per_target_data \<times> bool" where
  "burst lat now startBit resTime td =
     (case next_bit td of
        None \<Rightarrow>
          (case early_bit td of
             None \<Rightarrow> ([], td, True)
           | Some f \<Rightarrow> ([], td\<lparr>lastBit := f, delayNextSend := now + 250\<rparr>, False))
      | Some i \<Rightarrow>
          let td = td\<lparr>lastBit := (i + 1) mod length (ackBits td)\<rparr>;
              resTime = (if resTime > lat then resTime - lat else resTime) in
          if lastBit td \<le> startBit then ([i], td\<lparr>delayNextSend := now + 250\<rparr>, False)
          else if resTime > lat then
            let (is, td, isDone) = burst lat now startBit resTime td in (i # is, td, isDone)
          else ([i], td, False))"
  by pat_completeness auto

termination
proof (relation "measure (\<lambda>(lat, now, startBit, resTime, td). length (ackBits td) - lastBit td)", simp)
  fix lat now resTime :: int and startBit i and td td' :: per_target_data and res
  assume nx: "next_bit td = Some i" and td': "td' = td\<lparr>lastBit := (i + 1) mod length (ackBits td)\<rparr>"
    and more: "\<not> lastBit td' \<le> startBit"
  have i: "lastBit td \<le> i" "i < length (ackBits td)"
    using nx find_upt_Some by (auto simp: next_bit_def)
  have "i + 1 \<noteq> length (ackBits td)" using more td' by auto
  then have "lastBit td' = i + 1" using i td' by simp
  then show "((lat, now, startBit, res, td'), lat, now, startBit, resTime, td)
      \<in> measure (\<lambda>(lat, now, startBit, resTime, td). length (ackBits td) - lastBit td)"
    using i td' by simp
qed

declare burst.simps [simp del]

text \<open>One target of an event: the event afterwards, what is sent, and whether the target is done.\<close>

definition tick_target :: "reassembly_env \<Rightarrow> int \<Rightarrow> (int \<times> u8) list \<Rightarrow> nat \<Rightarrow> bool \<Rightarrow> u64 \<Rightarrow> send_event \<Rightarrow> int
    \<Rightarrow> send_event \<times> sink_packet list \<times> bool" where
  "tick_target env dT registered frag v2 evId ev target =
     (if map_of registered target = None then (ev, [], True)
      else
        case targetData ev target of
          None \<Rightarrow> (ev, [], False)
        | Some td \<Rightarrow>
            let lat = latency env (bytesPerSecond ev) frag in
            if lastSend td + lat < timeNow env \<and> delayNextSend td < timeNow env then
              (case burst lat (timeNow env) (lastBit td) dT td of
                 (is, td', isDone) \<Rightarrow>
                   (ev\<lparr>targetData := (targetData ev)(target :=
                       (if isDone then None else Some (td'\<lparr>lastSend := timeNow env\<rparr>)))\<rparr>,
                    map (sink_fragment v2 frag evId target (sendPayload ev) (length (ackBits td))) is, isDone))
            else if delayNextSend td \<ge> timeNow env then
              (ev\<lparr>targetData := (targetData ev)(target := Some (td\<lparr>lastSend := timeNow env\<rparr>))\<rparr>, [], False)
            else (ev, [], False))"

fun tick_targets :: "reassembly_env \<Rightarrow> int \<Rightarrow> (int \<times> u8) list \<Rightarrow> nat \<Rightarrow> bool \<Rightarrow> u64 \<Rightarrow> int list \<Rightarrow> send_event
    \<Rightarrow> send_event \<times> sink_packet list \<times> int list" where
  "tick_targets env dT registered frag v2 evId [] ev = (ev, [], [])"
| "tick_targets env dT registered frag v2 evId (t # ts) ev =
     (let (ev, out1, isDone) = tick_target env dT registered frag v2 evId ev t;
          (ev, out2, dones) = tick_targets env dT registered frag v2 evId ts ev
      in (ev, out1 @ out2, if isDone then t # dones else dones))"

definition tick_event :: "reassembly_env \<Rightarrow> int \<Rightarrow> (int \<times> u8) list \<Rightarrow> nat \<Rightarrow> bool \<Rightarrow> u64 \<times> send_event
    \<Rightarrow> (u64 \<times> send_event) \<times> sink_packet list" where
  "tick_event env dT registered frag v2 = (\<lambda>(evId, ev).
     let (ev, out, doneTargets) = tick_targets env dT registered frag v2 evId (targets ev) ev
     in ((evId, ev\<lparr>targets := filter (\<lambda>t. t \<notin> set doneTargets) (targets ev)\<rparr>), out))"

definition NetworkTickSendList :: "reassembly_env \<Rightarrow> int \<Rightarrow> (int \<times> u8) list \<Rightarrow> nat \<Rightarrow> bool \<Rightarrow> (u64 \<times> send_event) list
    \<Rightarrow> (u64 \<times> send_event) list \<times> sink_packet list" where
  "NetworkTickSendList env dT registered frag v2 sendList =
     (let ticked = map (tick_event env dT registered frag v2) sendList in
      (filter (\<lambda>(e, ev). targets ev \<noteq> []) (map fst ticked), concat (map snd ticked)))"

definition gc_time :: int where
  "gc_time = 120000"

definition cleanup_receive_list :: "int \<Rightarrow> (int \<Rightarrow> u64 \<Rightarrow> receive_event option) \<Rightarrow> int \<Rightarrow> u64 \<Rightarrow> receive_event option" where
  "cleanup_receive_list now rl = (\<lambda>source evId.
     case rl source evId of
       None \<Rightarrow> None
     | Some ev \<Rightarrow> if completed ev \<and> now - timeLastAck ev \<ge> gc_time then None else Some ev)"

definition NetworkTick :: "reassembly_env \<Rightarrow> reassembly \<Rightarrow> reassembly" where
  "NetworkTick env st =
     (let dT = timeNow env - m_lastTime st;
          (l1, out1) = NetworkTickSendList env dT (m_targets st) kFragmentSize False (m_sendList st);
          (l2, out2) = NetworkTickSendList env dT (m_targets st) kFragmentSizeV2 True (m_sendListV2 st);
          st = st\<lparr>m_lastTime := timeNow env, m_sendList := l1, m_sendListV2 := l2, sinkOut := sinkOut st @ out1 @ out2\<rparr> in
      if timeNow env - m_lastCleanup st \<ge> gc_time then
        st\<lparr>m_lastCleanup := timeNow env, m_receiveList := cleanup_receive_list (timeNow env) (m_receiveList st)\<rparr>
      else st)"

subsection \<open>A complete event\<close>

text \<open>The fragments are copied to their offsets, which are computed in 32 bits.\<close>

fun reassemble :: "nat \<Rightarrow> (u32 \<times> u8 list) list \<Rightarrow> u8 list \<Rightarrow> u8 list option" where
  "reassemble frag [] buf = Some buf"
| "reassemble frag ((i, bytes) # rest) buf =
     (let offset = unat (i * of_nat frag) in
      if offset + length bytes > length buf then None else reassemble frag rest (overwrite offset bytes buf))"

definition parse_event_V2 :: "(nat \<Rightarrow> u64) \<Rightarrow> u8 list \<Rightarrow> nat \<Rightarrow> (u8 list \<times> u8 list) option" where
  "parse_event_V2 ind evPayload readSize =
     (let reader = ByteReader_make evPayload (of_nat readSize) ind in
      case ByteReader_Field 2 (le_enc 2 (ucast (ind 0) :: u16)) reader of
        (OutOfBounds, _, _) \<Rightarrow> None
      | (_, bs, reader) \<Rightarrow>
          case ByteReader_Field_string_view [] (ucast (le_dec bs :: u16)) reader of
            (OutOfBounds, _, _) \<Rightarrow> None
          | (_, name, reader) \<Rightarrow>
              case ByteReader_Field_string [] (ByteReader_GetRemaining reader) reader of
                (OutOfBounds, _, _) \<Rightarrow> None
              | (_, rest, reader) \<Rightarrow> Some (name, rest))"

text \<open>
  Version 1 reads the name into a static array that keeps the bytes of the last event where the read
  fails, and drops its last character, the terminator that the sender includes.
\<close>

definition parse_event :: "u8 list \<Rightarrow> u8 list \<Rightarrow> nat \<Rightarrow> ((u8 list \<times> u8 list) \<times> u8 list) option" where
  "parse_event static evPayload readSize =
     (if readSize > length evPayload then None
      else
        case Read False 16 (MessageBuffer_make (take readSize evPayload)) of
          None \<Rightarrow> None
        | Some (w, b) \<Rightarrow>
            let nameLength = unat (ucast w :: u16);
                (bytes, b) = ReadBits_bytes nameLength b;
                static = (case bytes of Some bs \<Rightarrow> overwrite 0 bs static | None \<Rightarrow> static);
                static = static[nameLength := 0] in
            if nameLength = 0 then None
            else Some ((take (nameLength - 1) static, drop (m_curBit b div 8) (m_data b)), static))"

definition store_event :: "int \<Rightarrow> u64 \<Rightarrow> receive_event \<Rightarrow> reassembly \<Rightarrow> reassembly" where
  "store_event source evId ev st =
     st\<lparr>m_receiveList := (m_receiveList st)(source := (m_receiveList st source)(evId := Some ev))\<rparr>"

definition HandleReceivedPacket :: "reassembly_env \<Rightarrow> int \<Rightarrow> u64 \<Rightarrow> nat \<Rightarrow> bool \<Rightarrow> reassembly \<Rightarrow> reassembly option" where
  "HandleReceivedPacket env source evId frag v2 st =
     (case m_receiveList st source evId of
        None \<Rightarrow> Some st
      | Some ev \<Rightarrow>
          case reassemble frag (packetData ev) (replicate (length (ackedBits ev) * frag) 0) of
            None \<Rightarrow> None
          | Some evPayload \<Rightarrow>
              let readSize = sum_list (map (\<lambda>(_, bytes). length bytes) (packetData ev));
                  st = store_event source evId (ev\<lparr>packetData := map (\<lambda>(i, _). (i, [])) (packetData ev)\<rparr>) st in
              case (if v2 then map_option (\<lambda>nd. (nd, staticEventName st)) (parse_event_V2 (indet env) evPayload readSize)
                    else parse_event (staticEventName st) evPayload readSize) of
                None \<Rightarrow> None
              | Some ((name, rest), static) \<Rightarrow>
                  let st = st\<lparr>staticEventName := static\<rparr> in
                  if LimitEvent env source then Some st
                  else Some (st\<lparr>queuedEvents := queuedEvents st @ [(name, rest, ''net:'' @ show_int source)]\<rparr>))"

subsection \<open>Received packets\<close>

definition mark_ack :: "int \<Rightarrow> u64 \<Rightarrow> nat \<Rightarrow> (u64 \<times> send_event) list \<Rightarrow> (u64 \<times> send_event) list" where
  "mark_ack source evId pktIdx sendList =
     (case map_of sendList evId of
        None \<Rightarrow> sendList
      | Some ev \<Rightarrow>
          case targetData ev source of
            None \<Rightarrow> sendList
          | Some td \<Rightarrow>
              if pktIdx < length (ackBits td) then
                AList.update evId (ev\<lparr>targetData := (targetData ev)(source \<mapsto>
                  td\<lparr>ackBits := (ackBits td)[pktIdx := True]\<rparr>)\<rparr>) sendList
              else sendList)"

text \<open>The event that a fragment belongs to, created when it is new and the target may have more.\<close>

definition open_event :: "int \<Rightarrow> u64 \<Rightarrow> nat \<Rightarrow> reassembly \<Rightarrow> (receive_event \<times> reassembly) option" where
  "open_event source evId count st =
     (case m_receiveList st source evId of
        Some ev \<Rightarrow> Some (ev, st)
      | None \<Rightarrow>
          case map_of (m_targets st) source of
            None \<Rightarrow> None
          | Some maxPendingEvents \<Rightarrow>
              if maxPendingEvents = 0 then None
              else
                let st = (if maxPendingEvents = 0xFF then st
                          else st\<lparr>m_targets := AList.update source (maxPendingEvents - 1) (m_targets st)\<rparr>);
                    ev = \<lparr>re_source = source, ackedBits = replicate count False, completed = False,
                          timeLastAck = 0, packetData = []\<rparr>
                in Some (ev, store_event source evId ev st))"

definition finish_pending :: "int \<Rightarrow> reassembly \<Rightarrow> reassembly" where
  "finish_pending source st =
     (if source \<noteq> 0 then
        (case map_of (m_targets st) source of
           None \<Rightarrow> st
         | Some maxPendingEvents \<Rightarrow> st\<lparr>m_targets := AList.update source (maxPendingEvents + 1) (m_targets st)\<rparr>)
      else st)"

text \<open>A fragment is noted and acknowledged; the result says whether it was the last one missing.\<close>

definition note_fragment :: "reassembly_env \<Rightarrow> int \<Rightarrow> u64 \<Rightarrow> u32 \<Rightarrow> u8 list \<Rightarrow> sink_packet \<Rightarrow> receive_event
    \<Rightarrow> reassembly \<Rightarrow> bool \<times> reassembly" where
  "note_fragment env source evId pktIdx bytes ack ev st =
     (let i = unat pktIdx; ackedPacket = (if i < length (ackedBits ev) then ackedBits ev ! i else False) in
      if re_source ev = source \<and> (completed ev \<or> ackedPacket) then
        (False, store_event source evId (ev\<lparr>timeLastAck := timeNow env\<rparr>) (st\<lparr>sinkOut := sinkOut st @ [ack]\<rparr>))
      else if re_source ev = source then
        let ev = ev\<lparr>ackedBits := (if i < length (ackedBits ev) then (ackedBits ev)[i := True] else ackedBits ev),
                    packetData := map_put pktIdx bytes (packetData ev), timeLastAck := timeNow env\<rparr>;
            st = st\<lparr>sinkOut := sinkOut st @ [ack]\<rparr>;
            hasAll = list_all id (ackedBits ev);
            ev = (if hasAll then ev\<lparr>completed := True\<rparr> else ev);
            st = store_event source evId ev st
        in (hasAll, if hasAll then finish_pending source st else st)
      else (False, st))"

text \<open>What both versions do with a fragment that is not an acknowledgement.\<close>

definition HandleFragment :: "reassembly_env \<Rightarrow> int \<Rightarrow> nat \<Rightarrow> bool \<Rightarrow> u64 \<Rightarrow> u32 \<Rightarrow> nat \<Rightarrow> u8 list \<Rightarrow> sink_packet
    \<Rightarrow> reassembly \<Rightarrow> reassembly option" where
  "HandleFragment env source frag v2 evId pktIdx count bytes ack st =
     (case open_event source evId count st of
        None \<Rightarrow> Some st
      | Some (ev, st) \<Rightarrow>
          case note_fragment env source evId pktIdx bytes ack ev st of
            (hasAll, st) \<Rightarrow> if hasAll then HandleReceivedPacket env source evId frag v2 st else Some st)"

definition HandlePacket :: "reassembly_env \<Rightarrow> int \<Rightarrow> event_packet \<Rightarrow> reassembly \<Rightarrow> reassembly option" where
  "HandlePacket env source p st =
     (if ep_totalPackets p = 0 then Some st
      else if ep_payload p = [] then
        Some (st\<lparr>m_sendList := mark_ack source (ep_eventId p) (unat (ep_packetIdx p)) (m_sendList st)\<rparr>)
      else HandleFragment env source kFragmentSize False (ep_eventId p) (ep_packetIdx p) (unat (ep_totalPackets p))
             (ep_payload p) (SinkPacket source (p\<lparr>ep_payload := []\<rparr>)) st)"

text \<open>Acknowledgements of version 2 are looked up in the list of version 1.\<close>

definition ack_packet :: "ReassembledEventV2 \<Rightarrow> ReassembledEventV2 packet" where
  "ack_packet p = ReassembledEventV2Packet_init\<lparr>pdata := ReassembledEventV2.make (ReassembledEventV2.eventId p)
     (ReassembledEventV2.packetIdx p) (ReassembledEventV2.totalPackets p) (Span [])\<rparr>"

definition HandlePacketV2 :: "reassembly_env \<Rightarrow> int \<Rightarrow> ReassembledEventV2 \<Rightarrow> reassembly \<Rightarrow> reassembly option" where
  "HandlePacketV2 env source p st =
     (let evId = ReassembledEventV2.eventId p; pktIdx = ReassembledEventV2.packetIdx p;
          bytes = span_elems (ReassembledEventV2.data p) in
      if ReassembledEventV2.totalPackets p = 0 then Some st
      else if bytes = [] then
        Some (st\<lparr>m_sendList := mark_ack source evId (unat pktIdx) (m_sendList st)\<rparr>)
      else HandleFragment env source kFragmentSizeV2 True evId (ucast pktIdx) (unat (ReassembledEventV2.totalPackets p))
             bytes (SinkPacketV2 source (ack_packet p)) st)"

end
