(* ===== verification/ReassemblyLaws.thy ===== *)
theory ReassemblyLaws
  imports EventReassembly
begin

text \<open>
  A fragmented event arrives: whatever the order and the repetitions of its fragments, the receiver
  queues it once, with the name and the payload it was sent with. The receiver of one event refines a
  set of fragment numbers, to which every packet adds its own.
\<close>

subsection \<open>The written event\<close>

definition event_bytes :: "u8 list \<Rightarrow> u8 list \<Rightarrow> u8 list" where
  "event_bytes nm pl = le_enc 2 (of_nat (length nm) :: u16) @ nm @ pl"

lemma length_event_bytes [simp]: "length (event_bytes nm pl) = length nm + length pl + 2"
  by (simp add: event_bytes_def)

lemma short_name: "length nm \<le> 65535 \<Longrightarrow> unat (of_nat (length nm) :: u16) = length nm"
  by (rule of_nat_inverse) simp_all

lemma unat_ucast_u16_u64 [simp]: "unat (ucast (w :: u16) :: u64) = unat w"
proof -
  have "unat w < 2 ^ 16" using unsigned_less [of w] by simp
  then show ?thesis by (simp add: unsigned_ucast_eq take_bit_nat_eq_self)
qed

lemma write_event_bytes:
  assumes "length nm \<le> 65535" "length nm + length pl < 2 ^ 61"
  shows "write_event nm pl = Some (event_bytes nm pl)"
proof -
  let ?w = "wtr [] (replicate (length nm + 2 + length pl) 0)" and ?n = "of_nat (length nm) :: u16"
  have start: "ByteWriter_make (replicate (length nm + 2 + length pl) 0) (of_nat (length nm + 2 + length pl)) = ?w"
    by (simp add: ByteWriter_make_def wtr_def)
  have "unat (ucast ?n :: u64) = length nm" using short_name [OF assms(1)] by simp
  then have n: "(ucast ?n :: u64) = of_nat (length nm)" using assms(1) by (simp add: word_unat_eq_iff)
  have 1: "ByteWriter_Field 2 (le_enc 2 ?n) ?w = (Done, wtr (le_enc 2 ?n) (replicate (length nm + length pl) 0))"
    using wtr_CanWrite [of "[]" "replicate (length nm + 2 + length pl) 0" 2]
      wtr_copy [of "[]" "replicate (length nm + 2 + length pl) 0" 2 "le_enc 2 ?n"] assms(2)
    by (simp add: ByteWriter_Field_def)
  have 2: "ByteWriter_Field_string_view nm (of_nat (length nm)) (wtr (le_enc 2 ?n) (replicate (length nm + length pl) 0))
      = (Done, wtr (le_enc 2 ?n @ nm) (replicate (length pl) 0))"
    using wtr_CanWrite [of "le_enc 2 ?n" "replicate (length nm + length pl) 0" "length nm"]
      wtr_copy [of "le_enc 2 ?n" "replicate (length nm + length pl) 0" "length nm" nm] assms
    by (simp add: ByteWriter_Field_string_view_def)
  have 3: "ByteWriter_Field_string_view pl (of_nat (length pl)) (wtr (le_enc 2 ?n @ nm) (replicate (length pl) 0))
      = (Done, wtr (event_bytes nm pl) [])"
    using wtr_CanWrite [of "le_enc 2 ?n @ nm" "replicate (length pl) 0" "length pl"]
      wtr_copy [of "le_enc 2 ?n @ nm" "replicate (length pl) 0" "length pl" pl] assms
    by (simp add: ByteWriter_Field_string_view_def event_bytes_def)
  show ?thesis
    unfolding write_event_def Let_def start using 1 2 3 by (simp add: n) (simp add: wtr_def)
qed

text \<open>A read inside the capacity of a reader whose buffer may be larger.\<close>

lemma read_window:
  assumes "unat (roffset r) = a" "unat sz = length bs" "a + length bs \<le> unat (rcapacity r)"
    and "unat (rcapacity r) \<le> length (rdata r)" "unat (rcapacity r) < 2 ^ 63" "take (length bs) (drop a (rdata r)) = bs"
  shows "ByteReader_Field_string_view v sz r = (Done, bs, r\<lparr>roffset := roffset r + sz\<rparr>)"
    "ByteReader_Field_string v sz r = (Done, bs, r\<lparr>roffset := roffset r + sz\<rparr>)"
    "sz = of_nat n \<Longrightarrow> ByteReader_Field n v r = (Done, bs, r\<lparr>roffset := roffset r + sz\<rparr>)"
    "unat (roffset r + sz) = a + length bs"
proof -
  show sum: "unat (roffset r + sz) = a + length bs" using assms by (simp add: unat_add_u64)
  then have "ByteReader_CanRead sz r" using assms(3) by (simp add: ByteReader_CanRead_def word_le_nat_alt)
  moreover have "reader_copy sz r = (Done, bs, r\<lparr>roffset := roffset r + sz\<rparr>)"
    using assms by (simp add: reader_copy_def Let_def)
  ultimately show "ByteReader_Field_string_view v sz r = (Done, bs, r\<lparr>roffset := roffset r + sz\<rparr>)"
    "ByteReader_Field_string v sz r = (Done, bs, r\<lparr>roffset := roffset r + sz\<rparr>)"
    "sz = of_nat n \<Longrightarrow> ByteReader_Field n v r = (Done, bs, r\<lparr>roffset := roffset r + sz\<rparr>)"
    by (simp_all add: ByteReader_Field_string_view_def ByteReader_Field_string_def ByteReader_Field_def)
qed

lemma parse_event_bytes:
  assumes "length nm \<le> 65535" "length (event_bytes nm pl) < 2 ^ 62"
  shows "parse_event_V2 ind (event_bytes nm pl @ junk) (length (event_bytes nm pl)) = Some (nm, pl)"
proof -
  define R where "R = ByteReader_make (event_bytes nm pl @ junk) (of_nat (length (event_bytes nm pl))) ind"
  let ?n = "of_nat (length nm) :: u16"
  have "unat (of_nat (length nm + length pl + 2) :: u64) = length nm + length pl + 2"
    using assms(2) by (intro unat_of_nat_u64) simp
  then have cap: "unat (rcapacity R) = length nm + length pl + 2" by (simp only: R_def ByteReader_make_def length_event_bytes byte_reader.simps)
  have r: "roffset R = 0" "rdata R = le_enc 2 ?n @ nm @ pl @ junk"
    by (simp_all add: R_def ByteReader_make_def event_bytes_def)
  have n: "unat (ucast ?n :: u64) = length nm" using short_name [OF assms(1)] by simp
  let ?r1 = "R\<lparr>roffset := 2\<rparr>" and ?r2 = "R\<lparr>roffset := 2 + ucast ?n\<rparr>"
  have c: "unat (rcapacity R) < 2 ^ 63" "unat (rcapacity R) \<le> length (rdata R)"
    using assms(2) by (simp_all add: cap(1) r)
  have 1: "ByteReader_Field 2 v R = (Done, le_enc 2 ?n, ?r1)" for v
  proof -
    have s1: "unat (roffset R) = 0" "unat (2 :: u64) = length (le_enc 2 ?n)"
      "0 + length (le_enc 2 ?n) \<le> unat (rcapacity R)" "take (length (le_enc 2 ?n)) (drop 0 (rdata R)) = le_enc 2 ?n"
      by (simp_all add: cap r)
    show ?thesis using read_window(3) [OF s1(1-3) c(2,1) s1(4), of 2 v] by (simp add: r)
  qed
  have s2: "unat (roffset ?r1) = 2" "2 + length nm \<le> unat (rcapacity ?r1)"
    "unat (rcapacity ?r1) \<le> length (rdata ?r1)" "unat (rcapacity ?r1) < 2 ^ 63"
    "take (length nm) (drop 2 (rdata ?r1)) = nm"
    using c by (simp_all add: cap r)
  note w2 = read_window [of ?r1 2 "ucast ?n" nm, OF s2(1) n s2(2-5)]
  have 2: "ByteReader_Field_string_view v (ucast ?n) ?r1 = (Done, nm, ?r2)" for v
    using w2(1) [of v] by simp
  have off: "unat (roffset ?r2) = 2 + length nm" using w2(4) by simp
  have rem: "unat (ByteReader_GetRemaining ?r2) = length pl"
    using off cap by (simp add: ByteReader_GetRemaining_def unat_sub_if')
  have s3: "2 + length nm + length pl \<le> unat (rcapacity ?r2)"
    "unat (rcapacity ?r2) \<le> length (rdata ?r2)" "unat (rcapacity ?r2) < 2 ^ 63"
    "take (length pl) (drop (2 + length nm) (rdata ?r2)) = pl"
    using c by (simp_all add: cap r)
  note 3 = read_window(2) [of ?r2 "2 + length nm" "ByteReader_GetRemaining ?r2" pl "[]", OF off rem s3]
  show ?thesis
    by (simp add: parse_event_V2_def Let_def R_def [symmetric] 1 2 3 del: length_event_bytes)
qed

subsection \<open>Fragments\<close>

lemma packet_count_iff:
  assumes "0 < frag"
  shows "i < packet_count frag n \<longleftrightarrow> i * frag < n" "n \<le> packet_count frag n * frag"
proof -
  have n: "n = n div frag * frag + n mod frag" "n mod frag < frag" using assms by simp_all
  have "i * frag < n \<longleftrightarrow> i < n div frag \<or> i = n div frag \<and> n mod frag \<noteq> 0"
  proof (cases i "n div frag" rule: linorder_cases)
    case less
    then have "(i + 1) * frag \<le> n div frag * frag" by (intro mult_le_mono1) simp
    then have "i * frag + frag \<le> n div frag * frag" by simp
    moreover have "n div frag * frag \<le> n" by simp
    ultimately have "i * frag < n" using assms by linarith
    then show ?thesis using less by simp
  next
    case equal
    then show ?thesis using n by (metis add_cancel_left_right less_add_same_cancel1 nat_neq_iff not_gr_zero)
  next
    case greater
    then have "(n div frag + 1) * frag \<le> i * frag" by (intro mult_le_mono1) simp
    then have "n div frag * frag + frag \<le> i * frag" by simp
    then have "\<not> i * frag < n" using n by linarith
    then show ?thesis using greater by simp
  qed
  then show "i < packet_count frag n \<longleftrightarrow> i * frag < n" by (auto simp: packet_count_def Let_def)
  show "n \<le> packet_count frag n * frag"
  proof (cases "n mod frag = 0")
    case True
    then show ?thesis using n(1) by (simp add: packet_count_def)
  next
    case False
    have "n \<le> n div frag * frag + frag" using n by linarith
    with False show ?thesis by (simp add: packet_count_def add.commute)
  qed
qed

lemma length_fragment: "length (fragment frag p i) = min (length p - i * frag) frag"
  by (simp add: fragment_def)

lemma fragment_nonempty:
  assumes "0 < frag" "i < packet_count frag (length p)"
  shows "fragment frag p i \<noteq> []"
  using assms packet_count_iff(1) [OF assms(1), of i "length p"] by (simp add: fragment_def)

lemma take_fragment: "take (i * frag) p @ fragment frag p i = take (Suc i * frag) p"
proof -
  have "Suc i * frag = i * frag + frag" by simp
  then show ?thesis by (simp only: fragment_def take_add)
qed

text \<open>All fragments in their order, copied to their offsets, are the event followed by zeros.\<close>

definition pieces :: "nat \<Rightarrow> u8 list \<Rightarrow> nat set \<Rightarrow> nat \<Rightarrow> (u32 \<times> u8 list) list" where
  "pieces frag p S n = map (\<lambda>i. (of_nat i, fragment frag p i)) (filter (\<lambda>i. i \<in> S) [0..<n])"

lemma pieces_all: "{..<n} \<subseteq> S \<Longrightarrow> pieces frag p S n = map (\<lambda>i. (of_nat i, fragment frag p i)) [0..<n]"
  by (simp add: pieces_def filter_True subset_iff)

lemma reassemble_append:
  "reassemble frag (xs @ ys) buf = Option.bind (reassemble frag xs buf) (reassemble frag ys)"
  by (induction frag xs buf rule: reassemble.induct) (simp_all add: Let_def)

lemma reassemble_prefix:
  assumes "0 < frag" "n * frag < 2 ^ 32" "length p \<le> n * frag" "k \<le> packet_count frag (length p)" "k \<le> n"
  shows "reassemble frag (map (\<lambda>i. (of_nat i, fragment frag p i)) [0..<k]) (replicate (n * frag) 0)
    = Some (take (k * frag) p @ replicate (n * frag - length (take (k * frag) p)) 0)"
  using assms(4,5)
proof (induction k)
  case (Suc k)
  let ?buf = "take (k * frag) p @ replicate (n * frag - length (take (k * frag) p)) 0"
  have k: "k * frag < length p" using Suc.prems(1) packet_count_iff(1) [OF assms(1), of k "length p"] by simp
  then have len: "length (take (k * frag) p) = k * frag" by simp
  have "k * frag \<le> n * frag" using Suc.prems(2) by (intro mult_le_mono1) simp
  then have "k * frag < 2 ^ 32" using assms(2) by (rule le_less_trans)
  then have "unat (of_nat (k * frag) :: u32) = k * frag" by (intro of_nat_inverse) simp_all
  then have off: "unat (of_nat k * of_nat frag :: u32) = k * frag" by simp
  have fit: "k * frag + length (fragment frag p k) \<le> n * frag"
    using k assms(3) by (simp add: length_fragment)
  have "overwrite (k * frag) (fragment frag p k) ?buf
      = (take (k * frag) p @ fragment frag p k) @ replicate (n * frag - (k * frag + length (fragment frag p k))) 0"
    using len fit by (simp add: overwrite_def)
  also have "\<dots> = take (Suc k * frag) p @ replicate (n * frag - length (take (Suc k * frag) p)) 0"
  proof -
    have "length (take (Suc k * frag) p) = k * frag + length (fragment frag p k)"
      using len by (metis length_append take_fragment)
    then show ?thesis by (simp only: take_fragment)
  qed
  finally show ?case using Suc fit len off by (simp add: reassemble_append Let_def)
qed simp

lemma sum_fragments:
  assumes "0 < frag"
  shows "sum_list (map (\<lambda>(_, bytes). length bytes) (map (\<lambda>i. (of_nat i :: u32, fragment frag p i)) [0..<k]))
    = min (length p) (k * frag)"
proof (induction k)
  case (Suc k)
  then show ?case using arg_cong [OF take_fragment [of k frag p], of length] by simp
qed simp

text \<open>Noting a fragment adds it to the pieces.\<close>

lemma of_nat_u32_less: "i < 2 ^ 32 \<Longrightarrow> unat (of_nat i :: u32) = i"
  by (rule of_nat_inverse) simp_all

lemma map_ok_pieces:
  assumes "n < 2 ^ 32"
  shows "map_ok (pieces frag p S n)"
proof -
  have "sorted_wrt (\<lambda>i j. (of_nat i :: u32) < of_nat j) (filter (\<lambda>i. i \<in> S) [0..<n])"
  proof (rule sorted_wrt_mono_rel [OF _ sorted_wrt_filter [OF sorted_wrt_upt]])
    fix i j assume "i \<in> set (filter (\<lambda>i. i \<in> S) [0..<n])" "j \<in> set (filter (\<lambda>i. i \<in> S) [0..<n])" "i < j"
    then show "(of_nat i :: u32) < of_nat j" using assms by (simp add: word_less_nat_alt of_nat_u32_less)
  qed
  then show ?thesis by (simp add: map_ok_def pieces_def sorted_wrt_map)
qed

lemma map_of_pieces:
  assumes "n < 2 ^ 32"
  shows "map_of (pieces frag p S n) = (\<lambda>k. if unat k < n \<and> unat k \<in> S then Some (fragment frag p (unat k)) else None)"
proof
  fix k :: u32
  have eq: "of_nat (unat k) = k" by simp
  have inj: "inj_on (of_nat :: nat \<Rightarrow> u32) {..<n}"
    using assms by (intro inj_onI) (metis lessThan_iff less_trans of_nat_u32_less)
  show "map_of (pieces frag p S n) k = (if unat k < n \<and> unat k \<in> S then Some (fragment frag p (unat k)) else None)"
  proof (cases "unat k < n \<and> unat k \<in> S")
    case True
    then have "(k, fragment frag p (unat k)) \<in> set (pieces frag p S n)"
      by (force simp: pieces_def eq)
    then show ?thesis using True map_ok_distinct [OF map_ok_pieces [OF assms]] by (simp add: map_of_is_SomeI)
  next
    case False
    have "k \<notin> fst ` set (pieces frag p S n)"
    proof
      assume "k \<in> fst ` set (pieces frag p S n)"
      then obtain j where "k = of_nat j" "j < n" "j \<in> S" by (auto simp: pieces_def)
      then show False using False assms by (simp add: of_nat_u32_less)
    qed
    then have "map_of (pieces frag p S n) k = None" by (simp add: map_of_eq_None_iff)
    then show ?thesis using False by simp
  qed
qed

lemma put_pieces:
  assumes "n < 2 ^ 32" "i < n"
  shows "map_put (of_nat i) (fragment frag p i) (pieces frag p S n) = pieces frag p (insert i S) n"
proof (rule map_ok_unique)
  have i: "unat (of_nat i :: u32) = i" using assms by (simp add: of_nat_u32_less)
  show "map_ok (map_put (of_nat i) (fragment frag p i) (pieces frag p S n))" "map_ok (pieces frag p (insert i S) n)"
    using assms(1) by (simp_all add: map_ok_put map_ok_pieces)
  have "k = of_nat i \<longleftrightarrow> unat k = i" for k :: u32 using i by auto
  then show "map_of (map_put (of_nat i) (fragment frag p i) (pieces frag p S n)) = map_of (pieces frag p (insert i S) n)"
    using assms i by (auto simp: map_of_put map_ok_pieces map_of_pieces)
qed

subsection \<open>The receiver refines a set of numbers\<close>

text \<open>
  \<open>p\<close> are the bytes of an event, \<open>parses\<close> says what the receiver reads from them. The proof is shared by
  the two versions of the protocol: they differ in the fragment size and in the parser.
\<close>

definition parses :: "bool \<Rightarrow> u8 list \<Rightarrow> u8 list \<times> u8 list \<Rightarrow> bool" where
  "parses v2 p event \<longleftrightarrow> (\<forall>ind static junk. length static = 65536 \<longrightarrow> (\<exists>static'. length static' = 65536
     \<and> (if v2 then map_option (\<lambda>nd. (nd, static)) (parse_event_V2 ind (p @ junk) (length p))
        else parse_event static (p @ junk) (length p)) = Some (event, static')))"

definition event_fits :: "nat \<Rightarrow> u8 list \<Rightarrow> bool" where
  "event_fits frag p \<longleftrightarrow> 0 < frag \<and> p \<noteq> [] \<and> packet_count frag (length p) * frag < 2 ^ 32"

definition progress :: "nat \<Rightarrow> int \<Rightarrow> u8 list \<Rightarrow> nat set \<Rightarrow> int \<Rightarrow> receive_event" where
  "progress frag src p S t =
     (let n = packet_count frag (length p) in
      \<lparr>re_source = src, ackedBits = map (\<lambda>i. i \<in> S) [0..<n], completed = ({..<n} \<subseteq> S), timeLastAck = t,
       packetData = (if {..<n} \<subseteq> S then map (\<lambda>(i, _). (i, [])) (pieces frag p S n) else pieces frag p S n)\<rparr>)"

definition receiving :: "nat \<Rightarrow> int \<Rightarrow> u64 \<Rightarrow> u8 list \<Rightarrow> u8 list \<times> u8 list \<Rightarrow> (u8 list \<times> u8 list \<times> string) list
    \<Rightarrow> reassembly \<Rightarrow> nat set \<Rightarrow> bool" where
  "receiving frag src e p event queued st S \<longleftrightarrow>
     (let n = packet_count frag (length p) in
      S \<subseteq> {..<n} \<and> length (staticEventName st) = 65536 \<and>
      queuedEvents st = queued @ (if {..<n} \<subseteq> S then [(fst event, snd event, ''net:'' @ show_int src)] else []) \<and>
      (if S = {} then m_receiveList st src e = None \<and> (\<exists>k. map_of (m_targets st) src = Some k \<and> k \<noteq> 0)
       else \<exists>t. m_receiveList st src e = Some (progress frag src p S t)))"

lemma receivingI:
  assumes "S \<subseteq> {..<packet_count frag (length p)}" "S \<noteq> {}" "length (staticEventName st) = 65536"
    and "queuedEvents st = queued @
      (if {..<packet_count frag (length p)} \<subseteq> S then [(fst event, snd event, ''net:'' @ show_int src)] else [])"
    and "m_receiveList st src e = Some (progress frag src p S t)"
  shows "receiving frag src e p event queued st S"
  using assms unfolding receiving_def Let_def by auto

lemma store_event_simps [simp]:
  "m_receiveList (store_event src e ev st) src e = Some ev" "m_targets (store_event src e ev st) = m_targets st"
  "queuedEvents (store_event src e ev st) = queuedEvents st" "staticEventName (store_event src e ev st) = staticEventName st"
  "m_sendList (store_event src e ev st) = m_sendList st" "m_sendListV2 (store_event src e ev st) = m_sendListV2 st"
  "sinkOut (store_event src e ev st) = sinkOut st"
  by (simp_all add: store_event_def)

lemma finish_pending_simps [simp]:
  "m_receiveList (finish_pending src st) = m_receiveList st" "queuedEvents (finish_pending src st) = queuedEvents st"
  "staticEventName (finish_pending src st) = staticEventName st" "m_sendList (finish_pending src st) = m_sendList st"
  "m_sendListV2 (finish_pending src st) = m_sendListV2 st"
  by (simp_all add: finish_pending_def split: option.splits)

lemma event_fits_bounds:
  assumes "event_fits frag p"
  shows "0 < frag" "0 < packet_count frag (length p)" "packet_count frag (length p) < 2 ^ 32"
    "length p \<le> packet_count frag (length p) * frag" "packet_count frag (length p) * frag < 2 ^ 32"
proof -
  show F: "0 < frag" and lt: "packet_count frag (length p) * frag < 2 ^ 32" using assms by (simp_all add: event_fits_def)
  show "0 < packet_count frag (length p)" using packet_count_iff(1) [OF F, of 0 "length p"] assms by (simp add: event_fits_def)
  show "length p \<le> packet_count frag (length p) * frag" by (rule packet_count_iff(2) [OF F])
  have "packet_count frag (length p) * 1 \<le> packet_count frag (length p) * frag" using F by (intro mult_le_mono2) simp
  with lt show "packet_count frag (length p) < 2 ^ 32" by linarith
qed

lemma progress_empty:
  assumes "0 < packet_count frag (length p)"
  shows "progress frag src p {} t = \<lparr>re_source = src, ackedBits = replicate (packet_count frag (length p)) False,
    completed = False, timeLastAck = t, packetData = []\<rparr>"
  using assms by (simp add: progress_def pieces_def map_replicate_const lessThan_empty_iff Let_def)

lemma open_event_new:
  assumes "m_receiveList st src e = None" "map_of (m_targets st) src = Some k" "k \<noteq> 0" "0 < packet_count frag (length p)"
  shows "\<exists>st1. open_event src e (packet_count frag (length p)) st = Some (progress frag src p {} 0, st1)
    \<and> queuedEvents st1 = queuedEvents st \<and> staticEventName st1 = staticEventName st
    \<and> map_of (m_targets st1) src = Some (if k = 0xFF then k else k - 1)"
  using assms by (auto simp: open_event_def Let_def AList.update_conv' progress_empty)

text \<open>The event that a fragment opens, or finds, holds the fragments seen so far.\<close>

lemma open_event_receiving:
  assumes "receiving frag src e p event queued st S" "0 < packet_count frag (length p)"
  shows "\<exists>t st1. open_event src e (packet_count frag (length p)) st = Some (progress frag src p S t, st1)
    \<and> queuedEvents st1 = queuedEvents st \<and> staticEventName st1 = staticEventName st"
proof (cases "S = {}")
  case True
  then obtain k where "m_receiveList st src e = None" "map_of (m_targets st) src = Some k" "k \<noteq> 0"
    using assms(1) by (auto simp: receiving_def Let_def)
  from open_event_new [OF this assms(2)] True show ?thesis by blast
next
  case False
  then show ?thesis using assms(1) by (auto simp: receiving_def open_event_def Let_def)
qed

lemma complete_event:
  assumes "event_fits frag p" "parses v2 p event" "\<not> LimitEvent env src" "length (staticEventName st) = 65536"
    and "m_receiveList st src e = Some ev" "length (ackedBits ev) = packet_count frag (length p)"
    and "packetData ev = pieces frag p {..<packet_count frag (length p)} (packet_count frag (length p))"
  shows "\<exists>static. length static = 65536 \<and> HandleReceivedPacket env src e frag v2 st =
    Some ((store_event src e (ev\<lparr>packetData := map (\<lambda>(i, _). (i, [])) (packetData ev)\<rparr>) st)
      \<lparr>staticEventName := static, queuedEvents := queuedEvents st @ [(fst event, snd event, ''net:'' @ show_int src)]\<rparr>)"
proof -
  let ?n = "packet_count frag (length p)"
  note b = event_fits_bounds [OF assms(1)]
  have ps: "packetData ev = map (\<lambda>i. (of_nat i, fragment frag p i)) [0..<?n]" using assms(7) by (simp add: pieces_all)
  have take: "take (?n * frag) p = p" using b(4) by simp
  have r: "reassemble frag (packetData ev) (replicate (length (ackedBits ev) * frag) 0)
      = Some (p @ replicate (?n * frag - length p) 0)"
    using reassemble_prefix [OF b(1,5,4), of ?n] by (simp only: ps assms(6) take order_refl)
  have s: "sum_list (map (\<lambda>(_, bytes). length bytes) (packetData ev)) = length p"
    unfolding ps sum_fragments [OF b(1)] using b(4) by (rule min_absorb1)
  obtain static where static: "length static = 65536"
    "(if v2 then map_option (\<lambda>nd. (nd, staticEventName st)) (parse_event_V2 (indet env) (p @ replicate (?n * frag - length p) 0) (length p))
      else parse_event (staticEventName st) (p @ replicate (?n * frag - length p) 0) (length p)) = Some (event, static)"
    using assms(2,4) by (fastforce simp: parses_def)
  show ?thesis
  proof (intro exI [of _ static] conjI static(1))
    obtain nm pl where event: "event = (nm, pl)" by force
    show "HandleReceivedPacket env src e frag v2 st =
        Some ((store_event src e (ev\<lparr>packetData := map (\<lambda>(i, _). (i, [])) (packetData ev)\<rparr>) st)
          \<lparr>staticEventName := static, queuedEvents := queuedEvents st @ [(fst event, snd event, ''net:'' @ show_int src)]\<rparr>)"
      unfolding HandleReceivedPacket_def assms(5) option.case r s Let_def store_event_simps static(2)
      using assms(3) by (simp add: event)
  qed
qed

text \<open>Noting a fragment, when it was seen before and when it is new.\<close>

lemma set_bit_map:
  assumes "i < n"
  shows "(map (\<lambda>j. j \<in> S) [0..<n])[i := True] = map (\<lambda>j. j \<in> insert i S) [0..<n]"
  using assms by (intro nth_equalityI) (auto simp: nth_list_update)

lemma note_fragment_seen:
  assumes "unat k < packet_count frag (length p)" "unat k \<in> S"
  shows "note_fragment env src e k bytes ack (progress frag src p S t) st
    = (False, store_event src e (progress frag src p S (timeNow env)) (st\<lparr>sinkOut := sinkOut st @ [ack]\<rparr>))"
  using assms by (simp add: note_fragment_def Let_def progress_def)

lemma note_fragment_new:
  fixes env src p frag n
  assumes "i < n" "i \<notin> S" "n < 2 ^ 32" "n = packet_count frag (length p)"
  defines "ev \<equiv> (progress frag src p (insert i S) (timeNow env))\<lparr>packetData := pieces frag p (insert i S) n\<rparr>"
  shows "note_fragment env src e (of_nat i) (fragment frag p i) ack (progress frag src p S t) st =
    (let st' = store_event src e ev (st\<lparr>sinkOut := sinkOut st @ [ack]\<rparr>) in
     ({..<n} \<subseteq> insert i S, if {..<n} \<subseteq> insert i S then finish_pending src st' else st'))"
proof -
  have part: "\<not> {..<n} \<subseteq> S" using assms(1,2) by auto
  have "unat (of_nat i :: u32) = i" using assms(1,3) by (intro of_nat_u32_less) simp
  moreover have "list_all id (map (\<lambda>j. j \<in> insert i S) [0..<n]) \<longleftrightarrow> {..<n} \<subseteq> insert i S"
    by (auto simp: list_all_iff)
  ultimately show ?thesis
    using part assms(1,2) put_pieces [OF assms(3,1), of frag p S] set_bit_map [OF assms(1), of S]
    by (simp add: note_fragment_def progress_def ev_def Let_def assms(4) [symmetric])
qed

text \<open>The refinement step: a fragment adds its number, and the last one missing queues the event.\<close>

lemma HandleFragment_adds:
  assumes fits: "event_fits frag p" and parses: "parses v2 p event" and i: "i < packet_count frag (length p)"
    and limit: "\<not> LimitEvent env src" and rec: "receiving frag src e p event queued st S"
  shows "\<exists>st'. HandleFragment env src frag v2 e (of_nat i) (packet_count frag (length p)) (fragment frag p i) ack st = Some st'
    \<and> receiving frag src e p event queued st' (insert i S)"
proof -
  define n where "n = packet_count frag (length p)"
  note b = event_fits_bounds [OF fits, folded n_def]
  have S: "S \<subseteq> {..<n}" "length (staticEventName st) = 65536"
    and q: "queuedEvents st = queued @ (if {..<n} \<subseteq> S then [(fst event, snd event, ''net:'' @ show_int src)] else [])"
    using rec by (auto simp: receiving_def Let_def n_def)
  obtain t st1 where opened: "open_event src e n st = Some (progress frag src p S t, st1)"
    and st1: "queuedEvents st1 = queuedEvents st" "staticEventName st1 = staticEventName st"
    using open_event_receiving [OF rec] b(2) unfolding n_def by blast
  let ?note = "note_fragment env src e (of_nat i) (fragment frag p i) ack (progress frag src p S t) st1"
  have handle: "HandleFragment env src frag v2 e (of_nat i) n (fragment frag p i) ack st
      = (case ?note of (hasAll, st) \<Rightarrow> if hasAll then HandleReceivedPacket env src e frag v2 st else Some st)"
    using opened by (simp add: HandleFragment_def)
  have ni: "i < n" using i by (simp add: n_def)
  have goal: ?thesis if "\<exists>st'. HandleFragment env src frag v2 e (of_nat i) n (fragment frag p i) ack st = Some st'
      \<and> receiving frag src e p event queued st' (insert i S)"
    using that by (simp add: n_def)
  show ?thesis
  proof (rule goal, cases "i \<in> S")
    case True
    have "unat (of_nat i :: u32) = i" using ni b(3) by (intro of_nat_u32_less) simp
    let ?st = "store_event src e (progress frag src p S (timeNow env)) (st1\<lparr>sinkOut := sinkOut st1 @ [ack]\<rparr>)"
    have "?note = (False, ?st)"
      using True ni \<open>unat (of_nat i :: u32) = i\<close> by (intro note_fragment_seen) (simp_all add: n_def)
    moreover have "insert i S = S" using True by blast
    moreover have "receiving frag src e p event queued ?st S"
      using True S q st1 by (intro receivingI [where t = "timeNow env"]) (auto simp: n_def [symmetric])
    ultimately show "\<exists>st'. HandleFragment env src frag v2 e (of_nat i) n (fragment frag p i) ack st = Some st'
        \<and> receiving frag src e p event queued st' (insert i S)"
      by (simp add: handle)
  next
    case False
    then have part: "\<not> {..<n} \<subseteq> S" using ni by auto
    let ?S = "insert i S"
    define ev where "ev = (progress frag src p ?S (timeNow env))\<lparr>packetData := pieces frag p ?S n\<rparr>"
    let ?st = "store_event src e ev (st1\<lparr>sinkOut := sinkOut st1 @ [ack]\<rparr>)"
    have noted: "?note = ({..<n} \<subseteq> ?S, if {..<n} \<subseteq> ?S then finish_pending src ?st else ?st)"
      using note_fragment_new [OF ni False b(3) n_def] by (simp add: Let_def ev_def)
    show "\<exists>st'. HandleFragment env src frag v2 e (of_nat i) n (fragment frag p i) ack st = Some st'
        \<and> receiving frag src e p event queued st' ?S"
    proof (cases "{..<n} \<subseteq> ?S")
      case False
      then have "ev = progress frag src p ?S (timeNow env)" by (simp add: ev_def progress_def Let_def n_def)
      then have "receiving frag src e p event queued ?st ?S"
        using False S ni st1 q part by (intro receivingI [where t = "timeNow env"]) (simp_all add: n_def [symmetric])
      then show ?thesis using False by (simp add: handle noted)
    next
      case True
      then have all: "?S = {..<n}" using S ni by auto
      have rl: "m_receiveList (finish_pending src ?st) src e = Some ev" by simp
      have len: "length (ackedBits ev) = packet_count frag (length p)" by (simp add: ev_def progress_def Let_def)
      have pd: "packetData ev = pieces frag p {..<packet_count frag (length p)} (packet_count frag (length p))"
        by (simp add: ev_def all [unfolded n_def] n_def)
      have static: "length (staticEventName (finish_pending src ?st)) = 65536" using S(2) st1(2) by simp
      have finished: "ev\<lparr>packetData := map (\<lambda>(i, _). (i, [])) (packetData ev)\<rparr> = progress frag src p ?S (timeNow env)"
        using True by (simp add: ev_def progress_def Let_def n_def)
      obtain static where static: "length static = 65536" "HandleReceivedPacket env src e frag v2 (finish_pending src ?st) =
          Some ((store_event src e (progress frag src p ?S (timeNow env)) (finish_pending src ?st))
            \<lparr>staticEventName := static,
             queuedEvents := queuedEvents (finish_pending src ?st) @ [(fst event, snd event, ''net:'' @ show_int src)]\<rparr>)"
        using complete_event [OF fits parses limit static rl len pd, unfolded finished] by blast
      let ?final = "(store_event src e (progress frag src p ?S (timeNow env)) (finish_pending src ?st))
          \<lparr>staticEventName := static,
           queuedEvents := queuedEvents (finish_pending src ?st) @ [(fst event, snd event, ''net:'' @ show_int src)]\<rparr>"
      have "receiving frag src e p event queued ?final ?S"
        using True S ni st1 q part static(1) by (intro receivingI [where t = "timeNow env"]) (simp_all add: n_def [symmetric])
      then show ?thesis using True static(2) by (simp add: handle noted)
    qed
  qed
qed

text \<open>The fragments are handled one after the other, each at its own time.\<close>

lemma handle_all_adds:
  assumes "\<And>env i st S. (env, i) \<in> set xs \<Longrightarrow> receiving frag src e p event queued st S \<Longrightarrow>
      \<exists>st'. handle (env, i) st = Some st' \<and> receiving frag src e p event queued st' (insert i S)"
    and "receiving frag src e p event queued st S"
  shows "\<exists>st'. handle_all handle xs st = Some st' \<and> receiving frag src e p event queued st' (S \<union> snd ` set xs)"
  using assms
proof (induction xs arbitrary: st S)
  case (Cons x xs)
  obtain env i where x: "x = (env, i)" by force
  obtain st1 where 1: "handle (env, i) st = Some st1" "receiving frag src e p event queued st1 (insert i S)"
    using Cons.prems(1) [of env i st S] Cons.prems(2) x by auto
  obtain st2 where "handle_all handle xs st1 = Some st2"
    "receiving frag src e p event queued st2 (insert i S \<union> snd ` set xs)"
    using Cons.IH [OF _ 1(2)] Cons.prems(1) by auto
  then show ?case using 1 x by auto
qed simp

text \<open>All fragments, in any order and any number of times, queue the event once.\<close>

lemma event_arrives:
  assumes "event_fits frag p" "parses v2 p event" "\<forall>(env, i)\<in>set xs. \<not> LimitEvent env src"
    and "snd ` set xs = {..<packet_count frag (length p)}"
    and "m_receiveList st src e = None" "map_of (m_targets st) src = Some k" "k \<noteq> 0" "length (staticEventName st) = 65536"
    and handle: "\<And>env i. i < packet_count frag (length p) \<Longrightarrow> handle (env, i)
      = HandleFragment env src frag v2 e (of_nat i) (packet_count frag (length p)) (fragment frag p i) (ack i)"
  shows "\<exists>st'. handle_all handle xs st = Some st'
    \<and> queuedEvents st' = queuedEvents st @ [(fst event, snd event, ''net:'' @ show_int src)]"
proof -
  have start: "receiving frag src e p event (queuedEvents st) st {}"
    using assms(5-8) event_fits_bounds(2) [OF assms(1)] by (auto simp: receiving_def Let_def)
  have step: "\<exists>st'. handle (env, i) s = Some st' \<and> receiving frag src e p event (queuedEvents st) st' (insert i S)"
    if "(env, i) \<in> set xs" "receiving frag src e p event (queuedEvents st) s S" for env i s S
  proof -
    have "i \<in> snd ` set xs" using that(1) by force
    then have i: "i < packet_count frag (length p)" using assms(4) by simp
    moreover have "\<not> LimitEvent env src" using assms(3) that(1) by auto
    ultimately show ?thesis using HandleFragment_adds [OF assms(1,2) i _ that(2)] handle [OF i] by simp
  qed
  obtain st' where "handle_all handle xs st = Some st'" "receiving frag src e p event (queuedEvents st) st' ({} \<union> snd ` set xs)"
    using handle_all_adds [where handle = handle and xs = xs, OF step start] by blast
  then show ?thesis by (auto simp: receiving_def Let_def assms(4))
qed

end
