(* ===== verification/ReassemblyFlow.thy ===== *)
theory ReassemblyFlow
  imports ReassemblyLaws
begin

text \<open>
  The sending side and the two together: an event that \<open>TriggerEventV2\<close> cuts up is delivered, what a
  tick sends, and where the component does not do what it is meant to.
\<close>

subsection \<open>Version 2: from the sender to the receiver\<close>

abbreviation event_count :: "u8 list \<Rightarrow> u8 list \<Rightarrow> nat" where
  "event_count nm pl \<equiv> packet_count kFragmentSizeV2 (length (event_bytes nm pl))"

definition event_fragment :: "u64 \<Rightarrow> u8 list \<Rightarrow> u8 list \<Rightarrow> nat \<Rightarrow> ReassembledEventV2" where
  "event_fragment e nm pl i = ReassembledEventV2.make e (of_nat i) (of_nat (event_count nm pl))
     (Span (fragment kFragmentSizeV2 (event_bytes nm pl) i))"

definition event_fits_V2 :: "u8 list \<Rightarrow> u8 list \<Rightarrow> bool" where
  "event_fits_V2 nm pl \<longleftrightarrow> length nm \<le> 65535 \<and> length (event_bytes nm pl) \<le> 65535 * kFragmentSizeV2"

lemma event_fits_V2_bounds:
  assumes "event_fits_V2 nm pl"
  shows "event_fits kFragmentSizeV2 (event_bytes nm pl)" "event_count nm pl \<le> 65535"
    "length nm \<le> 65535" "length (event_bytes nm pl) < 2 ^ 61"
proof -
  have F: "0 < kFragmentSizeV2" by (simp add: kFragmentSizeV2_def)
  have "\<not> 65535 < event_count nm pl"
    using packet_count_iff(1) [OF F, of 65535 "length (event_bytes nm pl)"] assms by (simp add: event_fits_V2_def)
  then show n: "event_count nm pl \<le> 65535" by simp
  have "event_count nm pl * kFragmentSizeV2 \<le> 65535 * kFragmentSizeV2" using n by (intro mult_le_mono1)
  moreover have "event_bytes nm pl \<noteq> []"
    by (cases "event_bytes nm pl") (use length_event_bytes [of nm pl] in auto)
  ultimately show "event_fits kFragmentSizeV2 (event_bytes nm pl)"
    by (simp add: event_fits_def kFragmentSizeV2_def)
  show "length nm \<le> 65535" "length (event_bytes nm pl) < 2 ^ 61"
    using assms by (simp_all add: event_fits_V2_def kFragmentSizeV2_def)
qed

lemma parses_event_bytes:
  assumes "length nm \<le> 65535" "length (event_bytes nm pl) < 2 ^ 61"
  shows "parses True (event_bytes nm pl) (nm, pl)"
  using parse_event_bytes [of nm pl] assms unfolding parses_def by fastforce

lemma event_fragment_fields:
  assumes "event_count nm pl \<le> 65535" "i < event_count nm pl"
  shows "ReassembledEventV2.eventId (event_fragment e nm pl i) = e"
    "unat (ReassembledEventV2.totalPackets (event_fragment e nm pl i)) = event_count nm pl"
    "ReassembledEventV2.totalPackets (event_fragment e nm pl i) \<noteq> 0"
    "(ucast (ReassembledEventV2.packetIdx (event_fragment e nm pl i)) :: u32) = of_nat i"
    "span_elems (ReassembledEventV2.data (event_fragment e nm pl i)) = fragment kFragmentSizeV2 (event_bytes nm pl) i"
    "fragment kFragmentSizeV2 (event_bytes nm pl) i \<noteq> []"
proof -
  have n: "unat (of_nat (event_count nm pl) :: u16) = event_count nm pl" and i: "unat (of_nat i :: u16) = i"
    using assms by (simp_all add: of_nat_inverse)
  then show "unat (ReassembledEventV2.totalPackets (event_fragment e nm pl i)) = event_count nm pl"
    by (simp add: event_fragment_def ReassembledEventV2.defs)
  then show "ReassembledEventV2.totalPackets (event_fragment e nm pl i) \<noteq> 0" using assms(2) by auto
  have "unat (of_nat i :: u16) < 2 ^ 32" using i assms by simp
  then have "unat (ucast (of_nat i :: u16) :: u32) = i"
    using i by (simp add: unsigned_ucast_eq take_bit_nat_eq_self)
  moreover have "unat (of_nat i :: u32) = i" using assms by (intro of_nat_u32_less) simp
  ultimately have "(ucast (of_nat i :: u16) :: u32) = of_nat i" by (simp add: word_unat_eq_iff)
  then show "(ucast (ReassembledEventV2.packetIdx (event_fragment e nm pl i)) :: u32) = of_nat i"
    by (simp add: event_fragment_def ReassembledEventV2.defs)
  show "fragment kFragmentSizeV2 (event_bytes nm pl) i \<noteq> []"
    using assms(2) by (intro fragment_nonempty) (simp_all add: kFragmentSizeV2_def)
qed (simp_all add: event_fragment_def ReassembledEventV2.defs)

lemma HandlePacketV2_fragment:
  assumes "event_count nm pl \<le> 65535" "i < event_count nm pl"
  shows "HandlePacketV2 env src (event_fragment e nm pl i) st =
    HandleFragment env src kFragmentSizeV2 True e (of_nat i) (event_count nm pl)
      (fragment kFragmentSizeV2 (event_bytes nm pl) i) (SinkPacketV2 src (ack_packet (event_fragment e nm pl i))) st"
  using event_fragment_fields [OF assms] by (simp add: HandlePacketV2_def Let_def)

text \<open>One packet of the event adds its number to the set that the receiver has seen.\<close>

lemma HandlePacketV2_adds:
  assumes "event_fits_V2 nm pl" "i < event_count nm pl" "\<not> LimitEvent env src"
    and "receiving kFragmentSizeV2 src e (event_bytes nm pl) (nm, pl) queued st S"
  shows "\<exists>st'. HandlePacketV2 env src (event_fragment e nm pl i) st = Some st'
    \<and> receiving kFragmentSizeV2 src e (event_bytes nm pl) (nm, pl) queued st' (insert i S)"
  using HandleFragment_adds [OF _ parses_event_bytes assms(2,3,4)] event_fits_V2_bounds [OF assms(1)]
    HandlePacketV2_fragment [OF _ assms(2)] by metis

abbreviation handle_fragment_V2 :: "int \<Rightarrow> u64 \<Rightarrow> u8 list \<Rightarrow> u8 list \<Rightarrow> reassembly_env \<times> nat \<Rightarrow> reassembly \<Rightarrow> reassembly option" where
  "handle_fragment_V2 src e nm pl \<equiv> \<lambda>(env, i). HandlePacketV2 env src (event_fragment e nm pl i)"

lemma event_arrives_V2:
  assumes "event_fits_V2 nm pl" "\<forall>(env, i)\<in>set xs. \<not> LimitEvent env src" "snd ` set xs = {..<event_count nm pl}"
    and "m_receiveList st src e = None" "map_of (m_targets st) src = Some k" "k \<noteq> 0" "length (staticEventName st) = 65536"
  shows "\<exists>st'. handle_all (handle_fragment_V2 src e nm pl) xs st = Some st'
    \<and> queuedEvents st' = queuedEvents st @ [(nm, pl, ''net:'' @ show_int src)]"
proof -
  note b = event_fits_V2_bounds [OF assms(1)]
  have "handle_fragment_V2 src e nm pl (env, i) = HandleFragment env src kFragmentSizeV2 True e (of_nat i) (event_count nm pl)
      (fragment kFragmentSizeV2 (event_bytes nm pl) i) (SinkPacketV2 src (ack_packet (event_fragment e nm pl i)))"
    if "i < event_count nm pl" for env i
    using HandlePacketV2_fragment [OF b(2) that] by (simp add: fun_eq_iff)
  from event_arrives [OF b(1) parses_event_bytes [OF b(3,4)] assms(2-7), of "handle_fragment_V2 src e nm pl", OF this]
  show ?thesis by simp
qed

lemma TriggerEventV2_queues:
  assumes "length nm \<le> 65535" "length nm + length pl < 2 ^ 61" "\<not> oversized kMaxPacketSizeV2 nm pl"
    and "t \<noteq> - 1" "map_of (m_targets st) t \<noteq> None" "map_of (m_sendListV2 st) (m_eventId st) = None"
  shows "TriggerEventV2 t nm pl bps st = Some (st\<lparr>m_eventId := m_eventId st + 1,
    m_sendListV2 := m_sendListV2 st @
      [(m_eventId st, make_send_event (default_bps bps) [t] kFragmentSizeV2 (event_bytes nm pl))]\<rparr>)"
  using assms by (auto simp: TriggerEventV2_def send_targets_def write_event_bytes insert_send_def)

lemma sink_fragment_V2:
  "sink_fragment True kFragmentSizeV2 e t (event_bytes nm pl) (event_count nm pl) i
    = SinkPacketV2 t (ReassembledEventV2Packet_init\<lparr>pdata := event_fragment e nm pl i\<rparr>)"
  by (simp add: sink_fragment_def event_fragment_def)

subsection \<open>Version 1: from the sender to the receiver\<close>

lemma overwrite_all: "length bs = off + length src \<Longrightarrow> overwrite off src bs = take off bs @ src"
  by (simp add: overwrite_def)

text \<open>The receiver drops the last byte of the name, the terminator the sender has to include.\<close>

lemma parses_v1:
  assumes "length h = 2" "nm \<noteq> []" "length nm \<le> 65535"
    and header: "\<And>k. k < 16 \<Longrightarrow> bit_at h (15 - k) = bit (of_nat (length nm) :: u32) k"
  shows "parses False (h @ nm @ pl) (butlast nm, pl)"
  unfolding parses_def if_False
proof (intro allI impI)
  fix ind :: "nat \<Rightarrow> u64" and static junk :: "u8 list" assume static: "length static = 65536"
  let ?p = "h @ nm @ pl" and ?n = "of_nat (length nm) :: u32"
  let ?b = "MessageBuffer_make ?p"
  have b: "buffer_ok ?b" "m_curBit ?b + 16 \<le> m_maxBit ?b" "m_curBit ?b = 0" "m_data ?b = ?p" "m_maxBit ?b = 8 * length ?p"
    using assms(1) by (simp_all add: buffer_ok_def MessageBuffer_make_def)
  have "bit_at ?p (15 - k) = bit_at h (15 - k)" for k
    using assms(1) div_le_mono [of "15 - k" 15 8] by (simp add: bit_at_def nth_append)
  then have stored: "bit_at (m_data ?b) (m_curBit ?b + 16 - 1 - k) = bit ?n k" if "k < 16" for k
    using header that b(3,4) by simp
  have "ReadBitsSingle False 16 ?b = Some (Some (take_bit 16 ?n), ?b\<lparr>m_curBit := 16\<rparr>)"
    using ReadBitsSingle_stored [OF b(1) _ _ _ b(2) stored, of False 16] b(3) by (simp add: hack_length_def)
  then have read: "Read False 16 (MessageBuffer_make (take (length ?p) (?p @ junk))) = Some (take_bit 16 ?n, ?b\<lparr>m_curBit := 16\<rparr>)"
    by (simp add: Read_def)
  have "unat ?n = length nm" using assms(3) by (intro of_nat_u32_less) simp
  then have len: "unat (ucast (take_bit 16 ?n) :: u16) = length nm"
    using assms(3) by (simp add: unsigned_ucast_eq unsigned_take_bit_eq take_bit_nat_eq_self)
  have bytes: "ReadBits_bytes (length nm) (?b\<lparr>m_curBit := 16\<rparr>) = (Some nm, ?b\<lparr>m_curBit := 16 + length nm * 8\<rparr>)"
    using assms(1,2) b(4,5) by (simp add: ReadBits_bytes_def)
  have "take (length nm - 1) ((overwrite 0 nm static)[length nm := 0]) = butlast nm"
    using assms(2,3) static by (simp add: overwrite_def butlast_conv_take)
  moreover have "length ((overwrite 0 nm static)[length nm := 0]) = 65536"
    using assms(3) static by (simp add: overwrite_def)
  moreover have "drop ((16 + length nm * 8) div 8) ?p = pl" using assms(1) by simp
  ultimately show "\<exists>static'. length static' = 65536 \<and>
      parse_event static (?p @ junk) (length ?p) = Some ((butlast nm, pl), static')"
    using assms(2) read len bytes b(4) by (simp add: parse_event_def Let_def)
qed

lemma TriggerEvent_queues:
  assumes "nm \<noteq> []" "length nm \<le> 65535" "\<not> oversized kMaxPacketSize nm pl"
    and "t \<noteq> - 1" "map_of (m_targets st) t \<noteq> None" "map_of (m_sendList st) (m_eventId st) = None"
  shows "\<exists>p. TriggerEvent t nm pl bps st = Some (st\<lparr>m_eventId := m_eventId st + 1,
      m_sendList := m_sendList st @ [(m_eventId st, make_send_event (default_bps bps) [t] kFragmentSize p)]\<rparr>)
    \<and> length p = length nm + 2 + length pl \<and> parses False p (butlast nm, pl)"
proof -
  let ?b = "MessageBuffer_sized (length nm + 2 + length pl)" and ?n = "of_nat (length nm) :: u32"
  have b: "buffer_ok ?b" "m_curBit ?b + 16 \<le> m_maxBit ?b" "m_curBit ?b = 0" "length (m_data ?b) = length nm + 2 + length pl"
    by (simp_all add: buffer_ok_def MessageBuffer_sized_def)
  obtain b' where b': "WriteBitsSingle False ?n 16 ?b = Some (True, b')" "buffer_ok b'"
    "m_curBit b' = m_curBit ?b + 16" "m_maxBit b' = m_maxBit ?b" "length (m_data b') = length (m_data ?b)"
    "\<And>k. k < 16 \<Longrightarrow> bit_at (m_data b') (m_curBit ?b + 16 - 1 - k) = bit ?n k"
    by (rule WriteBitsSingle_ok [OF b(1) _ _ _ b(2), of False 16 ?n]) (simp_all add: hack_length_def)
  let ?h = "take 2 (m_data b')" and ?p = "take 2 (m_data b') @ nm @ pl"
  have len: "length ?h = 2" using b'(5) b(4) by simp
  have cur: "m_curBit b' = 16" "m_maxBit b' = 8 * (length nm + 2 + length pl)"
    using b'(3,4) b(3) by (simp_all add: MessageBuffer_sized_def)
  have w: "WriteBits_bytes nm b' = b'\<lparr>m_data := overwrite 2 nm (m_data b'), m_curBit := 16 + length nm * 8\<rparr>"
    using cur by (simp add: WriteBits_bytes_def)
  have l: "length (overwrite 2 nm (m_data b')) = length nm + 2 + length pl"
    using b'(5) b(4) by (simp add: overwrite_def)
  have "overwrite (2 + length nm) pl (overwrite 2 nm (m_data b')) = ?p"
    using l len by (simp add: overwrite_all) (simp add: overwrite_def numeral_2_eq_2)
  moreover have "(16 + length nm * 8) div 8 = 2 + length nm" by simp
  moreover have "Write False 16 ?n ?b = Some b'" using b'(1) by (simp add: Write_def)
  ultimately have "TriggerEvent t nm pl bps st = Some (st\<lparr>m_eventId := m_eventId st + 1,
      m_sendList := m_sendList st @ [(m_eventId st, make_send_event (default_bps bps) [t] kFragmentSize ?p)]\<rparr>)"
    using assms(3-6) w l by (auto simp: TriggerEvent_def send_targets_def insert_send_def Let_def)
  moreover have "bit_at ?h (15 - k) = bit ?n k" if "k < 16" for k
  proof -
    have "bit_at ?h (15 - k) = bit_at (m_data b') (15 - k)" by (simp add: bit_at_def)
    then show ?thesis using b'(6) [OF that] b(3) by simp
  qed
  then have "parses False ?p (butlast nm, pl)" by (intro parses_v1 [OF len assms(1,2)])
  ultimately show ?thesis using len by (intro exI [of _ ?p]) simp
qed

text \<open>Fragments of version 1, as \<open>Parse\<close> hands them over.\<close>

definition event_fragment_V1 :: "u64 \<Rightarrow> u8 list \<Rightarrow> nat \<Rightarrow> event_packet" where
  "event_fragment_V1 e p i = \<lparr>ep_eventId = e, ep_packetIdx = of_nat i,
     ep_totalPackets = of_nat (packet_count kFragmentSize (length p)), ep_payload = fragment kFragmentSize p i\<rparr>"

abbreviation handle_fragment_V1 :: "int \<Rightarrow> u64 \<Rightarrow> u8 list \<Rightarrow> reassembly_env \<times> nat \<Rightarrow> reassembly \<Rightarrow> reassembly option" where
  "handle_fragment_V1 src e p \<equiv> \<lambda>(env, i). HandlePacket env src (event_fragment_V1 e p i)"

lemma event_arrives_V1:
  assumes "event_fits kFragmentSize p" "parses False p event" "\<forall>(env, i)\<in>set xs. \<not> LimitEvent env src"
    and "snd ` set xs = {..<packet_count kFragmentSize (length p)}"
    and "m_receiveList st src e = None" "map_of (m_targets st) src = Some k" "k \<noteq> 0" "length (staticEventName st) = 65536"
  shows "\<exists>st'. handle_all (handle_fragment_V1 src e p) xs st = Some st'
    \<and> queuedEvents st' = queuedEvents st @ [(fst event, snd event, ''net:'' @ show_int src)]"
proof -
  let ?n = "packet_count kFragmentSize (length p)"
  note b = event_fits_bounds [OF assms(1)]
  have n: "unat (of_nat ?n :: u32) = ?n" using b(3) by (rule of_nat_u32_less)
  then have "(of_nat ?n :: u32) \<noteq> 0" using b(2) by auto
  moreover have "fragment kFragmentSize p i \<noteq> []" if "i < ?n" for i by (rule fragment_nonempty [OF b(1) that])
  ultimately have "handle_fragment_V1 src e p (env, i) = HandleFragment env src kFragmentSize False e (of_nat i) ?n
      (fragment kFragmentSize p i) (SinkPacket src ((event_fragment_V1 e p i)\<lparr>ep_payload := []\<rparr>))"
    if "i < ?n" for env i
    using that n by (simp add: fun_eq_iff HandlePacket_def event_fragment_V1_def)
  from event_arrives [OF assms(1-8), of "handle_fragment_V1 src e p", OF this] show ?thesis .
qed

subsection \<open>The size limit\<close>

text \<open>Events below the size limit have at most 65536 fragments; 65536 of them are announced as 0.\<close>

lemma event_size_limit:
  assumes "length nm + length pl + 2 < 2 ^ 32"
  shows "oversized kMaxPacketSizeV2 nm pl \<longleftrightarrow> 65536 * kFragmentSizeV2 \<le> length (event_bytes nm pl)"
proof -
  have "unat (of_nat (length pl + length nm + 2) :: u32) = length pl + length nm + 2"
    using assms by (intro of_nat_u32_less) simp
  moreover have "unat kMaxPacketSizeV2 = 65536 * 2047" by (simp add: kMaxPacketSizeV2_def kFragmentSizeV2_def push_bit_eq_mult)
  ultimately show ?thesis
    by (simp add: oversized_def word_le_nat_alt kFragmentSizeV2_def add.commute)
qed

lemma largest_events_lost:
  assumes "65535 * kFragmentSizeV2 < length (event_bytes nm pl)" "length (event_bytes nm pl) < 65536 * kFragmentSizeV2"
  shows "\<not> oversized kMaxPacketSizeV2 nm pl \<and> HandlePacketV2 env src (event_fragment e nm pl i) st = Some st"
proof
  have F: "0 < kFragmentSizeV2" by (simp add: kFragmentSizeV2_def)
  have small: "length nm + length pl + 2 < 2 ^ 32" using assms(2) by (simp add: kFragmentSizeV2_def)
  show "\<not> oversized kMaxPacketSizeV2 nm pl" using event_size_limit [OF small] assms(2) by linarith
  have "65535 < event_count nm pl" using packet_count_iff(1) [OF F, of 65535] assms(1) by blast
  moreover have "\<not> 65536 < event_count nm pl" using packet_count_iff(1) [OF F, of 65536] assms(2) by auto
  ultimately have "event_count nm pl = 65536" by linarith
  then have "ReassembledEventV2.totalPackets (event_fragment e nm pl i) = 0"
    by (simp only: event_fragment_def ReassembledEventV2.defs ReassembledEventV2.simps) simp
  then show "HandlePacketV2 env src (event_fragment e nm pl i) st = Some st" by (simp add: HandlePacketV2_def Let_def)
qed

subsection \<open>What a tick sends\<close>

definition target_ok :: "per_target_data \<Rightarrow> bool" where
  "target_ok td \<longleftrightarrow> lastBit td < length (ackBits td)"

lemma find_upt_None: "find P [a..<b] = None \<longleftrightarrow> (\<forall>i. a \<le> i \<and> i < b \<longrightarrow> \<not> P i)"
  by (auto simp: find_None_iff)

text \<open>
  A burst sends fragments that are not acknowledged, in ascending order, keeps the position inside the
  bit set, and reports that it is done exactly when everything is acknowledged.
\<close>

lemma burst_sends:
  assumes "burst lat now startBit resTime td = (is, td', isDone)" "target_ok td"
  shows "target_ok td' \<and> ackBits td' = ackBits td \<and> sorted_wrt (<) is
    \<and> (\<forall>i\<in>set is. lastBit td \<le> i \<and> i < length (ackBits td) \<and> \<not> ackBits td ! i)
    \<and> (isDone \<longleftrightarrow> False \<notin> set (ackBits td))"
  using assms
proof (induction lat now startBit resTime td arbitrary: "is" td' isDone rule: burst.induct)
  case (1 lat now startBit resTime td)
  let ?n = "length (ackBits td)"
  show ?case
  proof (cases "next_bit td")
    case None
    then have late: "\<forall>i. lastBit td \<le> i \<and> i < ?n \<longrightarrow> ackBits td ! i" by (simp add: next_bit_def find_upt_None)
    show ?thesis
    proof (cases "early_bit td")
      case None
      then have "\<forall>i. i < lastBit td \<longrightarrow> ackBits td ! i" by (simp add: early_bit_def find_upt_None)
      with late have "False \<notin> set (ackBits td)" by (metis in_set_conv_nth not_le_imp_less)
      then show ?thesis using \<open>next_bit td = None\<close> None 1(2,3) by (simp add: burst.simps [of lat])
    next
      case (Some f)
      then have f: "f < lastBit td" "\<not> ackBits td ! f" using find_upt_Some by (force simp: early_bit_def)+
      then have "False \<in> set (ackBits td)" using nth_mem [of f "ackBits td"] 1(3) by (simp add: target_ok_def)
      then show ?thesis using \<open>next_bit td = None\<close> Some 1(2,3) f by (auto simp: burst.simps [of lat] target_ok_def)
    qed
  next
    case (Some i)
    then have i: "lastBit td \<le> i" "i < ?n" "\<not> ackBits td ! i" using find_upt_Some by (force simp: next_bit_def)+
    let ?td = "td\<lparr>lastBit := (i + 1) mod ?n\<rparr>" and ?res = "if resTime > lat then resTime - lat else resTime"
    have "0 < ?n" using i(2) by linarith
    then have ok: "target_ok ?td" by (simp add: target_ok_def)
    have undone: "False \<in> set (ackBits td)" using nth_mem [OF i(2)] i(3) by simp
    show ?thesis
    proof (cases "lastBit ?td \<le> startBit \<or> \<not> ?res > lat")
      case True
      then show ?thesis using Some 1(2) i ok undone
        by (auto simp: burst.simps [of lat] Let_def target_ok_def split: if_splits)
    next
      case False
      obtain js td2 d where rec: "burst lat now startBit ?res ?td = (js, td2, d)" by (metis prod_cases3)
      have go: "\<not> lastBit ?td \<le> startBit" "?res > lat" using False by blast+
      have all: "is = i # js" "td' = td2" "isDone = d"
        using 1(2) Some False rec by (auto simp: burst.simps [of lat _ _ _ td] Let_def)
      have "lastBit ?td \<noteq> 0" using False by auto
      then have "i + 1 < ?n" using i(2) by (cases "i + 1 = ?n") auto
      then have "lastBit ?td = i + 1" by simp
      moreover have "target_ok td2 \<and> ackBits td2 = ackBits ?td \<and> sorted_wrt (<) js
          \<and> (\<forall>i\<in>set js. lastBit ?td \<le> i \<and> i < length (ackBits ?td) \<and> \<not> ackBits ?td ! i)
          \<and> (d \<longleftrightarrow> False \<notin> set (ackBits ?td))"
        by (rule 1(1) [OF Some refl refl go rec ok])
      ultimately show ?thesis using i undone by (auto simp: all)
    qed
  qed
qed

subsection \<open>Fragments outside the event\<close>

text \<open>
  A fragment whose number is not below the announced count is stored all the same; once the event is
  complete it is copied behind the end of the buffer.
\<close>

definition raw_fragment :: "u64 \<Rightarrow> u16 \<Rightarrow> u16 \<Rightarrow> u8 list \<Rightarrow> ReassembledEventV2" where
  "raw_fragment e i n bytes = ReassembledEventV2.make e i n (Span bytes)"

lemma raw_fragment_fields [simp]:
  "ReassembledEventV2.eventId (raw_fragment e i n bytes) = e" "ReassembledEventV2.packetIdx (raw_fragment e i n bytes) = i"
  "ReassembledEventV2.totalPackets (raw_fragment e i n bytes) = n" "ReassembledEventV2.data (raw_fragment e i n bytes) = Span bytes"
  by (simp_all add: raw_fragment_def ReassembledEventV2.defs)

text \<open>The entry of an event is found again by its later fragments.\<close>

lemma open_event_found: "m_receiveList st src e = Some ev \<Longrightarrow> open_event src e n st = Some (ev, st)"
  by (simp add: open_event_def)

lemma stray_fragment:
  assumes "m_receiveList st src e = None" "map_of (m_targets st) src = Some k" "k \<noteq> 0"
    and "j \<noteq> 0" "bytes \<noteq> []" "bytes' \<noteq> []" "length bytes' \<le> kFragmentSizeV2"
  shows "Option.bind (HandlePacketV2 env src (raw_fragment e j 1 bytes) st) (HandlePacketV2 env' src (raw_fragment e 0 1 bytes')) = None"
proof -
  let ?ev0 = "\<lparr>re_source = src, ackedBits = [False], completed = False, timeLastAck = 0, packetData = []\<rparr>"
  obtain st1 where o1: "open_event src e 1 st = Some (?ev0, st1)"
    using assms(1-3) by (simp add: open_event_def Let_def)
  have j2: "1 \<le> unat j" using assms(4) by (simp add: unat_gt_0 Suc_leI)
  have j3: "unat j < 65536" using unsigned_less [of j] by simp
  then have uj: "unat (ucast j :: u32) = unat j" by (simp add: unsigned_ucast_eq take_bit_nat_eq_self)
  let ?ack = "SinkPacketV2 src (ack_packet (raw_fragment e j 1 bytes))"
  let ?ev = "?ev0\<lparr>packetData := [(ucast j, bytes)], timeLastAck := timeNow env\<rparr>"
  let ?st = "store_event src e ?ev (st1\<lparr>sinkOut := sinkOut st1 @ [?ack]\<rparr>)"
  have h1: "HandlePacketV2 env src (raw_fragment e j 1 bytes) st = Some ?st"
    using o1 assms(5) j2 by (simp add: HandlePacketV2_def HandleFragment_def Let_def note_fragment_def uj)
  have lt: "(0 :: u32) < ucast j" using uj j2 by (simp add: word_less_nat_alt)
  let ?ev2 = "\<lparr>re_source = src, ackedBits = [True], completed = True, timeLastAck = timeNow env',
      packetData = [(0, bytes'), (ucast j, bytes)]\<rparr>"
  have off: "unat ((ucast j :: u32) * of_nat kFragmentSizeV2) = unat j * 2047"
  proof -
    have "unat (of_nat (unat j * 2047) :: u32) = unat j * 2047" using j3 by (intro of_nat_u32_less) simp
    moreover have "(ucast j :: u32) * of_nat kFragmentSizeV2 = of_nat (unat j * 2047)" by (simp add: kFragmentSizeV2_def)
    ultimately show ?thesis by (simp only:)
  qed
  have len: "length bytes' \<le> 2047" using assms(7) by (simp add: kFragmentSizeV2_def)
  have "0 < length bytes" using assms(5) by simp
  then have out: "2047 < unat j * 2047 + length bytes" using j2 by linarith
  have re: "reassemble kFragmentSizeV2 [(0, bytes'), (ucast j, bytes)] (replicate kFragmentSizeV2 0) = None"
    using len out off by (simp add: Let_def overwrite_def kFragmentSizeV2_def)
  have "HandlePacketV2 env' src (raw_fragment e 0 1 bytes') ?st = None"
    using assms(6) lt re
    by (simp add: HandlePacketV2_def HandleFragment_def Let_def open_event_found note_fragment_def HandleReceivedPacket_def)
  then show ?thesis using h1 by simp
qed

subsection \<open>Targets without a limit\<close>

text \<open>
  A target registered with 255, no limit, is not counted down when an event starts, but is counted up when
  one is complete: 255 becomes 0, and no further event is accepted.
\<close>

lemma open_event_blocked:
  assumes "m_receiveList st src (ReassembledEventV2.eventId p) = None" "map_of (m_targets st) src = Some 0"
    and "span_elems (ReassembledEventV2.data p) \<noteq> []"
  shows "HandlePacketV2 env src p st = Some st"
  using assms by (simp add: HandlePacketV2_def HandleFragment_def Let_def open_event_def)

lemma unlimited_target_wraps:
  assumes fits: "event_fits_V2 nm pl" and one: "event_count nm pl = 1" and limit: "\<not> LimitEvent env src"
    and new: "m_receiveList st src e = None" and t: "map_of (m_targets st) src = Some 0xFF" "src \<noteq> 0"
    and static: "length (staticEventName st) = 65536"
  shows "\<exists>st'. HandlePacketV2 env src (event_fragment e nm pl 0) st = Some st' \<and> map_of (m_targets st') src = Some 0
    \<and> queuedEvents st' = queuedEvents st @ [(nm, pl, ''net:'' @ show_int src)]"
proof -
  let ?p = "event_bytes nm pl" and ?F = kFragmentSizeV2
  note b = event_fits_V2_bounds [OF fits]
  have zero: "0 < event_count nm pl" using one by simp
  obtain st1 where o1: "open_event src e (event_count nm pl) st = Some (progress ?F src ?p {} 0, st1)"
    "queuedEvents st1 = queuedEvents st" "staticEventName st1 = staticEventName st" "map_of (m_targets st1) src = Some 0xFF"
    using open_event_new [OF new t(1) _ zero] by auto
  let ?ack = "SinkPacketV2 src (ack_packet (event_fragment e nm pl 0))"
  define ev where "ev = (progress ?F src ?p {0} (timeNow env))\<lparr>packetData := pieces ?F ?p {0} 1\<rparr>"
  define st2 where "st2 = finish_pending src (store_event src e ev (st1\<lparr>sinkOut := sinkOut st1 @ [?ack]\<rparr>))"
  have noted: "note_fragment env src e 0 (fragment ?F ?p 0) ?ack (progress ?F src ?p {} 0) st1 = (True, st2)"
    using note_fragment_new [of 0 1 "{}" ?F ?p env src e ?ack 0 st1] one
    by (simp add: Let_def ev_def st2_def lessThan_Suc del: length_event_bytes)
  have rl: "m_receiveList st2 src e = Some ev" by (simp add: st2_def)
  have len: "length (ackedBits ev) = event_count nm pl"
    by (simp add: ev_def progress_def Let_def del: length_event_bytes)
  have "{..<event_count nm pl} = {0}" using one by auto
  then have pd: "packetData ev = pieces ?F ?p {..<event_count nm pl} (event_count nm pl)"
    using one by (simp add: ev_def del: length_event_bytes)
  have static2: "length (staticEventName st2) = 65536" using static o1(3) by (simp add: st2_def)
  have "map_of (m_targets st2) src = Some 0"
    using o1(4) t(2) by (simp add: st2_def finish_pending_def AList.update_conv')
  moreover have "HandlePacketV2 env src (event_fragment e nm pl 0) st = HandleReceivedPacket env src e ?F True st2"
    using o1(1) noted HandlePacketV2_fragment [OF b(2) zero]
    by (simp add: HandleFragment_def del: length_event_bytes)
  ultimately show ?thesis
    using complete_event [OF b(1) parses_event_bytes [OF b(3,4)] limit static2 rl len pd] o1(2) by (auto simp: st2_def)
qed

subsection \<open>Events of version 2 are never finished\<close>

definition pending_for :: "int \<Rightarrow> send_event \<Rightarrow> bool" where
  "pending_for t ev \<longleftrightarrow> (\<exists>td. targetData ev t = Some td \<and> target_ok td \<and> False \<in> set (ackBits td))"

lemma tick_target_pending:
  assumes "pending_for t ev" "map_of reg t \<noteq> None" "tick_target env dT reg frag v2 e ev t' = (ev', out, d)"
  shows "pending_for t ev' \<and> targets ev' = targets ev \<and> (t' = t \<longrightarrow> \<not> d)"
proof -
  obtain td where td: "targetData ev t = Some td" "target_ok td" "False \<in> set (ackBits td)"
    using assms(1) by (auto simp: pending_for_def)
  obtain js td' d' where b: "burst (latency env (bytesPerSecond ev) frag) (timeNow env) (lastBit td) dT td = (js, td', d')"
    by (metis prod_cases3)
  have "target_ok td'" "ackBits td' = ackBits td" "\<not> d'"
    using burst_sends [OF b td(2)] td(3) by simp_all
  moreover have "target_ok (x\<lparr>lastSend := y\<rparr>) = target_ok x" for x y by (simp add: target_ok_def)
  ultimately show ?thesis
    using assms(2,3) td b
    by (cases "t' = t") (auto simp: tick_target_def pending_for_def Let_def split: option.splits if_splits prod.splits)
qed

lemma tick_targets_pending:
  assumes "pending_for t ev" "map_of reg t \<noteq> None" "tick_targets env dT reg frag v2 e ts ev = (ev', out, ds)"
  shows "pending_for t ev' \<and> targets ev' = targets ev \<and> t \<notin> set ds"
  using assms(1,3)
proof (induction ts arbitrary: ev ev' out ds)
  case (Cons t' ts)
  obtain ev1 o1 d where 1: "tick_target env dT reg frag v2 e ev t' = (ev1, o1, d)" by (metis prod_cases3)
  obtain ev2 o2 ds2 where 2: "tick_targets env dT reg frag v2 e ts ev1 = (ev2, o2, ds2)" by (metis prod_cases3)
  from Cons.IH [OF _ 2] tick_target_pending [OF Cons.prems(1) assms(2) 1] Cons.prems(2) 1 2
  show ?case by (auto split: if_splits)
qed simp

definition sends_pending :: "u64 \<Rightarrow> int \<Rightarrow> reassembly \<Rightarrow> bool" where
  "sends_pending e t st \<longleftrightarrow> map_of (m_targets st) t \<noteq> None
     \<and> (\<exists>ev. map_of (m_sendListV2 st) e = Some ev \<and> t \<in> set (targets ev) \<and> pending_for t ev)"

lemma map_of_filter_Some: "map_of xs k = Some v \<Longrightarrow> P (k, v) \<Longrightarrow> map_of (filter P xs) k = Some v"
  by (induction xs) (auto split: if_splits)

lemma map_of_map_fst:
  assumes "\<And>k v. fst (f (k, v)) = k"
  shows "map_of (map f xs) k = map_option (\<lambda>v. snd (f (k, v))) (map_of xs k)"
proof (induction xs)
  case (Cons x xs)
  obtain a b where x: "x = (a, b)" by force
  obtain c where "f (a, b) = (a, c)" using assms [of a b] by (cases "f (a, b)") auto
  then show ?case using Cons x by simp
qed simp

lemma NetworkTick_pending:
  assumes "sends_pending e t st"
  shows "sends_pending e t (NetworkTick env st)"
proof -
  obtain ev where reg: "map_of (m_targets st) t \<noteq> None" and ev: "map_of (m_sendListV2 st) e = Some ev" "t \<in> set (targets ev)" "pending_for t ev"
    using assms by (auto simp: sends_pending_def)
  let ?tick = "tick_event env (timeNow env - m_lastTime st) (m_targets st) kFragmentSizeV2 True"
  obtain ev1 out ds where ticked: "tick_targets env (timeNow env - m_lastTime st) (m_targets st) kFragmentSizeV2 True e (targets ev) ev = (ev1, out, ds)"
    by (metis prod_cases3)
  let ?ev = "ev1\<lparr>targets := filter (\<lambda>t. t \<notin> set ds) (targets ev1)\<rparr>"
  have keep: "pending_for t ev1" "targets ev1 = targets ev" "t \<notin> set ds"
    using tick_targets_pending [OF ev(3) reg ticked] by simp_all
  have "fst (fst (?tick (k, v))) = k" for k v by (simp add: tick_event_def split: prod.splits)
  then have "map_of (map (fst \<circ> ?tick) (m_sendListV2 st)) e = Some (snd (fst (?tick (e, ev))))"
    using ev(1) by (subst map_of_map_fst) simp_all
  moreover have "snd (fst (?tick (e, ev))) = ?ev" by (simp add: tick_event_def ticked)
  moreover have t: "t \<in> set (targets ?ev)" using keep ev(2) by simp
  moreover have "targets ?ev \<noteq> []" using t by (metis empty_iff list.set(1))
  ultimately have "map_of (filter (\<lambda>(e, ev). targets ev \<noteq> []) (map (fst \<circ> ?tick) (m_sendListV2 st))) e = Some ?ev"
    by (intro map_of_filter_Some) (simp_all only: split_conv not_False_eq_True)
  moreover have "pending_for t ?ev" using keep(1) by (simp add: pending_for_def)
  moreover have "m_sendListV2 (NetworkTick env st) = filter (\<lambda>(e, ev). targets ev \<noteq> []) (map (fst \<circ> ?tick) (m_sendListV2 st))"
    "m_targets (NetworkTick env st) = m_targets st"
    by (simp_all add: NetworkTick_def NetworkTickSendList_def Let_def comp_def)
  ultimately show ?thesis using reg t by (auto simp: sends_pending_def)
qed

end
