(* ===== verification/ReassemblySteps.thy ===== *)
theory ReassemblySteps
  imports ReassemblyFlow
begin

text \<open>
  The event reassembly component as a step relation over its public methods: what holds in every
  reachable state, and that an event of version 2 stays in the send list for as long as its target is
  registered.
\<close>

inductive reassembly_step :: "reassembly \<Rightarrow> reassembly \<Rightarrow> bool" where
  register: "reassembly_step st (RegisterTarget i k st)"
| unregister: "reassembly_step st (UnregisterTarget i st)"
| trigger: "TriggerEvent t nm pl bps st = Some st' \<Longrightarrow> length nm + length pl < 2 ^ 61 \<Longrightarrow> reassembly_step st st'"
| trigger_V2: "TriggerEventV2 t nm pl bps st = Some st' \<Longrightarrow> reassembly_step st st'"
| packet: "HandlePacket env src p st = Some st' \<Longrightarrow> reassembly_step st st'"
| packet_V2: "HandlePacketV2 env src q st = Some st' \<Longrightarrow> reassembly_step st st'"
| tick: "reassembly_step st (NetworkTick env st)"

inductive_cases reassembly_stepE: "reassembly_step st st'"

inductive reassembly_reachable :: "reassembly \<Rightarrow> bool" where
  start: "reassembly_reachable (EventReassembly_make now)"
| step: "reassembly_reachable st \<Longrightarrow> reassembly_step st st' \<Longrightarrow> reassembly_reachable st'"

subsection \<open>The methods by the parts of the state they change\<close>

lemma open_event_cases:
  assumes "open_event src e n st = Some (ev, st1)"
  obtains "m_receiveList st src e = Some ev" "st1 = st"
  | k where "m_receiveList st src e = None" "map_of (m_targets st) src = Some k"
      "ev = \<lparr>re_source = src, ackedBits = replicate n False, completed = False, timeLastAck = 0, packetData = []\<rparr>"
      "st1 = store_event src e ev (st\<lparr>m_targets := (if k = 0xFF then m_targets st else AList.update src (k - 1) (m_targets st))\<rparr>)"
  using assms by (auto simp: open_event_def Let_def split: option.splits if_splits)

lemma open_event_keeps:
  assumes "open_event src e n st = Some (ev, st1)"
  shows "m_sendListV2 st1 = m_sendListV2 st" "m_sendList st1 = m_sendList st" "staticEventName st1 = staticEventName st"
    "map_of (m_targets st) t \<noteq> None \<Longrightarrow> map_of (m_targets st1) t \<noteq> None"
  using assms by (auto elim!: open_event_cases simp: AList.update_conv')

lemma note_fragment_keeps:
  "m_sendListV2 (snd (note_fragment env src e k bytes ack ev st)) = m_sendListV2 st"
  "m_sendList (snd (note_fragment env src e k bytes ack ev st)) = m_sendList st"
  "staticEventName (snd (note_fragment env src e k bytes ack ev st)) = staticEventName st"
  "map_of (m_targets st) t \<noteq> None \<Longrightarrow> map_of (m_targets (snd (note_fragment env src e k bytes ack ev st))) t \<noteq> None"
  by (auto simp: note_fragment_def Let_def finish_pending_def AList.update_conv' split: option.splits)

lemma HandleReceivedPacket_keeps:
  assumes "HandleReceivedPacket env src e frag v2 st = Some st'"
  shows "m_sendListV2 st' = m_sendListV2 st" "m_sendList st' = m_sendList st" "m_targets st' = m_targets st"
  using assms by (auto simp: HandleReceivedPacket_def Let_def split: option.splits if_splits prod.splits)

lemma HandleFragment_keeps:
  assumes "HandleFragment env src frag v2 e k n bytes ack st = Some st'"
  shows "m_sendListV2 st' = m_sendListV2 st" "m_sendList st' = m_sendList st"
    "map_of (m_targets st) t \<noteq> None \<Longrightarrow> map_of (m_targets st') t \<noteq> None"
proof -
  have "m_sendListV2 st' = m_sendListV2 st \<and> m_sendList st' = m_sendList st \<and>
      (map_of (m_targets st) t \<noteq> None \<longrightarrow> map_of (m_targets st') t \<noteq> None)"
  proof (cases "open_event src e n st")
    case None
    then show ?thesis using assms by (simp add: HandleFragment_def)
  next
    case (Some x)
    obtain ev st1 where opened: "open_event src e n st = Some (ev, st1)" using Some by (cases x) simp
    obtain hasAll st2 where noted: "note_fragment env src e k bytes ack ev st1 = (hasAll, st2)" by force
    note keep = open_event_keeps [OF opened] note_fragment_keeps [where env = env and src = src and e = e and k = k and bytes = bytes and ack = ack
        and ev = ev and st = st1, unfolded noted snd_conv]
    show ?thesis
      using assms keep(1-3,5-7) keep(4,8) [of t] HandleReceivedPacket_keeps [of env src e frag v2 st2 st']
      by (cases hasAll) (auto simp: HandleFragment_def opened noted)
  qed
  then show "m_sendListV2 st' = m_sendListV2 st" "m_sendList st' = m_sendList st"
    "map_of (m_targets st) t \<noteq> None \<Longrightarrow> map_of (m_targets st') t \<noteq> None" by blast+
qed

text \<open>A fragment of one event leaves the other events alone.\<close>

lemma HandleFragment_others:
  assumes "HandleFragment env src frag v2 e k n bytes ack st = Some st'" "e' \<noteq> e"
  shows "m_receiveList st' src e' = m_receiveList st src e'"
proof (cases "open_event src e n st")
  case None
  then show ?thesis using assms by (simp add: HandleFragment_def)
next
  case (Some x)
  obtain ev st1 where opened: "open_event src e n st = Some (ev, st1)" using Some by (cases x) simp
  obtain hasAll st2 where noted: "note_fragment env src e k bytes ack ev st1 = (hasAll, st2)" by force
  have 1: "m_receiveList st1 src e' = m_receiveList st src e'"
    using opened assms(2) by (auto elim!: open_event_cases simp: store_event_def)
  have 2: "m_receiveList (snd (note_fragment env src e k bytes ack ev st1)) src e' = m_receiveList st1 src e'"
    using assms(2) by (auto simp: note_fragment_def Let_def finish_pending_def store_event_def split: option.splits)
  have "m_receiveList st' src e' = m_receiveList st2 src e'" if "HandleReceivedPacket env src e frag v2 st2 = Some st'"
    using that assms(2) by (auto simp: HandleReceivedPacket_def Let_def store_event_def split: option.splits if_splits prod.splits)
  then show ?thesis using assms(1) 1 2 by (cases hasAll) (auto simp: HandleFragment_def opened noted)
qed

lemma HandlePacketV2_others:
  "HandlePacketV2 env src q st = Some st' \<Longrightarrow> e' \<noteq> ReassembledEventV2.eventId q \<Longrightarrow> m_receiveList st' src e' = m_receiveList st src e'"
  by (auto simp: HandlePacketV2_def Let_def dest: HandleFragment_others split: if_splits)

text \<open>No packet, acknowledgements included, changes the send list of version 2.\<close>

lemma packets_keep_V2:
  "HandlePacketV2 env src q st = Some st' \<Longrightarrow> m_sendListV2 st' = m_sendListV2 st"
  "HandlePacket env src p st = Some st' \<Longrightarrow> m_sendListV2 st' = m_sendListV2 st"
  by (auto simp: HandlePacketV2_def HandlePacket_def Let_def dest: HandleFragment_keeps(1) split: if_splits)

lemma packets_keep_targets:
  assumes "map_of (m_targets st) t \<noteq> None"
  shows "HandlePacketV2 env src q st = Some st' \<Longrightarrow> map_of (m_targets st') t \<noteq> None"
    "HandlePacket env src p st = Some st' \<Longrightarrow> map_of (m_targets st') t \<noteq> None"
  using assms HandleFragment_keeps(3) [of env src _ _ _ _ _ _ _ st st' t]
  by (auto simp: HandlePacketV2_def HandlePacket_def Let_def split: if_splits)

subsection \<open>Events of version 2 are never finished\<close>

lemma map_of_insert_send: "map_of xs e = Some ev \<Longrightarrow> map_of (insert_send f new xs) e = Some ev"
  by (auto simp: insert_send_def map_add_Some_iff)

lemma pending_step:
  assumes "sends_pending e t st" "reassembly_step st st'" "map_of (m_targets st') t \<noteq> None"
  shows "sends_pending e t st'"
  using assms(2)
proof cases
  case (register i k)
  then show ?thesis using assms(1) by (auto simp: sends_pending_def RegisterTarget_def AList.update_conv')
next
  case (unregister i)
  show ?thesis
  proof (cases "map_of (m_targets st) i = None")
    case True
    then show ?thesis using assms(1) unregister by (simp add: UnregisterTarget_def)
  next
    case False
    then have "i \<noteq> t" using assms(3) unregister by (auto simp: UnregisterTarget_def AList.delete_conv')
    obtain ev where ev: "map_of (m_sendListV2 st) e = Some ev" "t \<in> set (targets ev)" "pending_for t ev"
      using assms(1) by (auto simp: sends_pending_def)
    have "map_of (UnregisterSendList i (m_sendListV2 st)) e
        = Some (ev\<lparr>targetData := (targetData ev)(i := None), targets := removeAll i (targets ev)\<rparr>)"
      unfolding UnregisterSendList_def using ev(1) by (subst map_of_map_fst) simp_all
    moreover have "m_sendListV2 st' = UnregisterSendList i (m_sendListV2 st)"
      using unregister False by (simp add: UnregisterTarget_def)
    ultimately show ?thesis
      using ev(2,3) assms(3) \<open>i \<noteq> t\<close> by (auto simp: sends_pending_def pending_for_def)
  qed
next
  case (trigger u nm pl bps)
  then have "m_sendListV2 st' = m_sendListV2 st" "m_targets st' = m_targets st"
    by (auto simp: TriggerEvent_def Let_def split: if_splits option.splits)
  then show ?thesis using assms(1) by (simp add: sends_pending_def)
next
  case (trigger_V2 u nm pl bps)
  then have "(\<exists>f new. m_sendListV2 st' = insert_send f new (m_sendListV2 st)) \<or> m_sendListV2 st' = m_sendListV2 st"
    "m_targets st' = m_targets st"
    by (simp_all add: TriggerEventV2_def split: if_splits option.splits) (drule sym, force)+
  then show ?thesis using assms(1) map_of_insert_send by (fastforce simp: sends_pending_def)
next
  case (packet env src p)
  then show ?thesis using assms(1,3) packets_keep_V2(2) by (auto simp: sends_pending_def)
next
  case (packet_V2 env src q)
  then show ?thesis using assms(1,3) packets_keep_V2(1) by (auto simp: sends_pending_def)
next
  case (tick env)
  then show ?thesis using NetworkTick_pending [OF assms(1)] by simp
qed

text \<open>Runs in which a target stays registered.\<close>

inductive registered_run :: "int \<Rightarrow> reassembly \<Rightarrow> reassembly \<Rightarrow> bool" for t where
  refl: "registered_run t st st"
| step: "registered_run t st st' \<Longrightarrow> reassembly_step st' st'' \<Longrightarrow> map_of (m_targets st'') t \<noteq> None \<Longrightarrow> registered_run t st st''"

lemma pending_run:
  assumes "registered_run t st st'" "sends_pending e t st"
  shows "sends_pending e t st'"
  using assms by induction (auto intro: pending_step)

lemma TriggerEventV2_pending:
  assumes "length nm \<le> 65535" "length nm + length pl < 2 ^ 61" "\<not> oversized kMaxPacketSizeV2 nm pl"
    and "t \<noteq> - 1" "map_of (m_targets st) t \<noteq> None" "map_of (m_sendListV2 st) (m_eventId st) = None"
  shows "\<exists>st'. TriggerEventV2 t nm pl bps st = Some st' \<and> sends_pending (m_eventId st) t st'"
proof -
  let ?ev = "make_send_event (default_bps bps) [t] kFragmentSizeV2 (event_bytes nm pl)"
  have "0 < event_count nm pl"
    using packet_count_iff(1) [of kFragmentSizeV2 0 "length (event_bytes nm pl)"] by (simp add: kFragmentSizeV2_def)
  then have "pending_for t ?ev" "t \<in> set (targets ?ev)"
    by (simp_all add: pending_for_def make_send_event_def Let_def target_ok_def del: length_event_bytes)
  then show ?thesis
    using TriggerEventV2_queues [OF assms, of bps] assms(5,6)
    by (auto simp: sends_pending_def map_add_Some_iff)
qed

subsection \<open>The invariant\<close>

text \<open>
  The position of every target is inside its bit set, which has one bit per fragment of the payload; a
  received event is complete exactly when all its bits are set.
\<close>

definition send_ok :: "nat \<Rightarrow> send_event \<Rightarrow> bool" where
  "send_ok frag ev \<longleftrightarrow> (\<forall>t td. targetData ev t = Some td \<longrightarrow>
     target_ok td \<and> length (ackBits td) = packet_count frag (length (sendPayload ev)))"

definition receive_ok :: "int \<Rightarrow> receive_event \<Rightarrow> bool" where
  "receive_ok src ev \<longleftrightarrow> re_source ev = src \<and> ackedBits ev \<noteq> [] \<and> (completed ev \<longleftrightarrow> False \<notin> set (ackedBits ev))
     \<and> map_ok (packetData ev)"

definition reassembly_ok :: "reassembly \<Rightarrow> bool" where
  "reassembly_ok st \<longleftrightarrow>
     (\<forall>ev\<in>snd ` set (m_sendList st). send_ok kFragmentSize ev) \<and>
     (\<forall>ev\<in>snd ` set (m_sendListV2 st). send_ok kFragmentSizeV2 ev) \<and>
     (\<forall>src e ev. m_receiveList st src e = Some ev \<longrightarrow> receive_ok src ev) \<and> length (staticEventName st) = 65536"

lemma reassembly_okI:
  assumes "\<And>ev. ev \<in> snd ` set (m_sendList st) \<Longrightarrow> send_ok kFragmentSize ev"
    and "\<And>ev. ev \<in> snd ` set (m_sendListV2 st) \<Longrightarrow> send_ok kFragmentSizeV2 ev"
    and "\<And>src e ev. m_receiveList st src e = Some ev \<Longrightarrow> receive_ok src ev" "length (staticEventName st) = 65536"
  shows "reassembly_ok st"
  using assms by (simp add: reassembly_ok_def)

lemma reassembly_okD:
  assumes "reassembly_ok st"
  shows "ev \<in> snd ` set (m_sendList st) \<Longrightarrow> send_ok kFragmentSize ev"
    "ev \<in> snd ` set (m_sendListV2 st) \<Longrightarrow> send_ok kFragmentSizeV2 ev"
    "m_receiveList st src e = Some rcv \<Longrightarrow> receive_ok src rcv" "length (staticEventName st) = 65536"
  using assms by (auto simp: reassembly_ok_def)

lemma set_update_subset: "snd ` set (AList.update k v xs) \<subseteq> insert v (snd ` set xs)"
  by (induction xs) auto

lemma send_ok_make:
  assumes "0 < frag" "p \<noteq> []"
  shows "send_ok frag (make_send_event bps ts frag p)"
  using packet_count_iff(1) [OF assms(1), of 0 "length p"] assms(2)
  by (auto simp: send_ok_def make_send_event_def Let_def target_ok_def split: if_splits)

lemma insert_send_subset: "snd ` set (insert_send e ev xs) \<subseteq> insert ev (snd ` set xs)"
  by (auto simp: insert_send_def)

lemma send_ok_insert:
  assumes "\<forall>ev\<in>snd ` set xs. send_ok frag ev" "0 < frag" "p \<noteq> []"
  shows "\<forall>ev\<in>snd ` set (insert_send e (make_send_event bps ts frag p) xs). send_ok frag ev"
proof
  fix ev assume "ev \<in> snd ` set (insert_send e (make_send_event bps ts frag p) xs)"
  then have "ev = make_send_event bps ts frag p \<or> ev \<in> snd ` set xs" using insert_send_subset by fast
  then show "send_ok frag ev" using assms(1) send_ok_make [OF assms(2,3)] by auto
qed

lemma send_ok_list:
  assumes "l' = l \<or> (\<exists>ts p. p \<noteq> [] \<and> l' = insert_send e (make_send_event bps ts frag p) l)"
    and "\<forall>ev\<in>snd ` set l. send_ok frag ev" "0 < frag"
  shows "\<forall>ev\<in>snd ` set l'. send_ok frag ev"
  using assms(1)
proof
  assume "\<exists>ts p. p \<noteq> [] \<and> l' = insert_send e (make_send_event bps ts frag p) l"
  then obtain ts p where "p \<noteq> []" and l': "l' = insert_send e (make_send_event bps ts frag p) l" by blast
  from send_ok_insert [OF assms(2,3) this(1)] show ?thesis unfolding l' .
qed (use assms(2) in simp)

text \<open>The payload of an event has the length it should have, whatever the name and the data.\<close>

lemma writer_copy_length: "writer_copy v sz w = (r, w') \<Longrightarrow> length (wdata w') = length (wdata w)"
  by (auto simp: writer_copy_def Let_def split: if_splits)

lemma write_event_length: "write_event nm pl = Some p \<Longrightarrow> length p = length nm + 2 + length pl"
  by (auto simp: write_event_def Let_def ByteWriter_make_def ByteWriter_Field_def ByteWriter_Field_string_view_def
      split: prod.splits access.splits if_splits dest!: writer_copy_length)

lemma write_header:
  assumes "Write False 16 w (MessageBuffer_sized (n + 2)) = Some b"
  shows "length (m_data b) = n + 2" "m_curBit b = 16" "m_maxBit b = 8 * (n + 2)"
proof -
  let ?b = "MessageBuffer_sized (n + 2)"
  have ok: "buffer_ok ?b" "m_curBit ?b + 16 \<le> m_maxBit ?b" by (simp_all add: buffer_ok_def MessageBuffer_sized_def)
  obtain b' where "WriteBitsSingle False w 16 ?b = Some (True, b')" "m_curBit b' = m_curBit ?b + 16"
    "m_maxBit b' = m_maxBit ?b" "length (m_data b') = length (m_data ?b)"
    by (rule WriteBitsSingle_ok [OF ok(1) _ _ _ ok(2), of False 16 w]) (simp_all add: hack_length_def)
  then show "length (m_data b) = n + 2" "m_curBit b = 16" "m_maxBit b = 8 * (n + 2)"
    using assms by (simp_all add: Write_def MessageBuffer_sized_def)
qed

lemma TriggerEvent_adds:
  assumes "TriggerEvent t nm pl bps st = Some st'"
  shows "m_sendListV2 st' = m_sendListV2 st" "m_receiveList st' = m_receiveList st" "staticEventName st' = staticEventName st"
    "m_sendList st' = m_sendList st \<or> (\<exists>ts p. p \<noteq> [] \<and> m_sendList st'
      = insert_send (m_eventId st) (make_send_event (default_bps bps) ts kFragmentSize p) (m_sendList st))"
proof -
  show "m_sendListV2 st' = m_sendListV2 st" "m_receiveList st' = m_receiveList st" "staticEventName st' = staticEventName st"
    using assms by (auto simp: TriggerEvent_def Let_def split: if_splits option.splits)
  show "m_sendList st' = m_sendList st \<or> (\<exists>ts p. p \<noteq> [] \<and> m_sendList st'
      = insert_send (m_eventId st) (make_send_event (default_bps bps) ts kFragmentSize p) (m_sendList st))"
  proof (cases "m_sendList st' = m_sendList st")
    case False
    let ?n = "length nm + length pl"
    have sz: "length nm + 2 + length pl = ?n + 2" by simp
    obtain ts b where b: "Write False 16 (of_nat (length nm)) (MessageBuffer_sized (?n + 2)) = Some b"
      and st': "m_sendList st' = insert_send (m_eventId st) (make_send_event (default_bps bps) ts kFragmentSize
        (overwrite (m_curBit (WriteBits_bytes nm b) div 8) pl (m_data (WriteBits_bytes nm b)))) (m_sendList st)"
      using assms False unfolding TriggerEvent_def Let_def sz by (auto split: if_splits option.splits)
    note h = write_header [OF b]
    have "WriteBits_bytes nm b = b\<lparr>m_data := overwrite 2 nm (m_data b), m_curBit := 16 + length nm * 8\<rparr>"
      using h by (simp add: WriteBits_bytes_def)
    then have "overwrite (m_curBit (WriteBits_bytes nm b) div 8) pl (m_data (WriteBits_bytes nm b)) \<noteq> []"
      using h(1) by (auto simp: overwrite_def)
    then show ?thesis using st' by blast
  qed simp
qed

lemma TriggerEventV2_adds:
  assumes "TriggerEventV2 t nm pl bps st = Some st'"
  shows "m_sendList st' = m_sendList st" "m_receiveList st' = m_receiveList st" "staticEventName st' = staticEventName st"
    "m_sendListV2 st' = m_sendListV2 st \<or> (\<exists>ts p. p \<noteq> [] \<and> m_sendListV2 st'
      = insert_send (m_eventId st) (make_send_event (default_bps bps) ts kFragmentSizeV2 p) (m_sendListV2 st))"
proof -
  show "m_sendList st' = m_sendList st" "m_receiveList st' = m_receiveList st" "staticEventName st' = staticEventName st"
    using assms by (auto simp: TriggerEventV2_def split: if_splits option.splits)
  show "m_sendListV2 st' = m_sendListV2 st \<or> (\<exists>ts p. p \<noteq> [] \<and> m_sendListV2 st'
      = insert_send (m_eventId st) (make_send_event (default_bps bps) ts kFragmentSizeV2 p) (m_sendListV2 st))"
  proof (cases "m_sendListV2 st' = m_sendListV2 st")
    case False
    then obtain ts p where p: "write_event nm pl = Some p" "m_sendListV2 st'
      = insert_send (m_eventId st) (make_send_event (default_bps bps) ts kFragmentSizeV2 p) (m_sendListV2 st)"
      using assms by (auto simp: TriggerEventV2_def split: if_splits option.splits)
    have "p \<noteq> []" using write_event_length [OF p(1)] by auto
    then show ?thesis using p(2) by blast
  qed simp
qed

lemma unat_u16_max: "unat (w :: u16) \<le> 65535"
proof -
  have "unat w < 2 ^ 16" using unsigned_less [of w] by simp
  then show ?thesis by simp
qed

lemma unat_positive: "w \<noteq> 0 \<Longrightarrow> 0 < unat (w :: 'a::len word)"
  by (simp add: word_unat_eq_iff)

lemma parse_event_static:
  assumes "parse_event static bytes n = Some (event, static')" "length static = 65536"
  shows "length static' = 65536"
proof -
  have ow: "length (overwrite 0 bs static) = 65536" if "length bs \<le> 65535" for bs
    using that assms(2) by (simp add: overwrite_def)
  have "length (overwrite 0 (take (unat (w :: u16)) d) static) = 65536" for w d
    using unat_u16_max [of w] by (intro ow) (simp add: min.coboundedI2)
  then show ?thesis
    using assms ow [of "[]"]
    by (auto simp: parse_event_def Let_def ReadBits_bytes_def split: if_splits option.splits prod.splits)
qed

lemma HandleReceivedPacket_ok:
  assumes "HandleReceivedPacket env src e frag v2 st = Some st'" "reassembly_ok st"
  shows "reassembly_ok st'"
proof (cases "m_receiveList st src e")
  case None
  then show ?thesis using assms by (simp add: HandleReceivedPacket_def)
next
  case (Some ev)
  have "receive_ok src ev" using reassembly_okD(3) [OF assms(2) Some] .
  then have ev: "receive_ok src (ev\<lparr>packetData := map (\<lambda>(i, _). (i, [])) (packetData ev)\<rparr>)"
    by (simp add: receive_ok_def map_ok_def comp_def case_prod_unfold)
  have st': "m_receiveList st' = m_receiveList (store_event src e (ev\<lparr>packetData := map (\<lambda>(i, _). (i, [])) (packetData ev)\<rparr>) st)"
    "length (staticEventName st') = 65536"
    using assms(1) Some parse_event_static reassembly_okD(4) [OF assms(2)]
    by (auto simp: HandleReceivedPacket_def Let_def split: option.splits if_splits prod.splits)
  show ?thesis
  proof (rule reassembly_okI)
    fix src' e' ev' assume "m_receiveList st' src' e' = Some ev'"
    then show "receive_ok src' ev'"
      using ev reassembly_okD(3) [OF assms(2)] by (auto simp: st'(1) store_event_def split: if_splits)
  qed (use assms(2) st'(2) HandleReceivedPacket_keeps [OF assms(1)] in \<open>auto dest: reassembly_okD(1,2)\<close>)
qed

text \<open>A fragment keeps the receive list well formed.\<close>

lemma receive_ok_store:
  assumes "reassembly_ok st" "receive_ok src ev"
  shows "reassembly_ok (store_event src e ev st)"
  using assms by (auto simp: reassembly_ok_def store_event_def)

lemma reassembly_ok_other [simp]:
  "reassembly_ok (st\<lparr>sinkOut := x\<rparr>) = reassembly_ok st" "reassembly_ok (st\<lparr>m_targets := y\<rparr>) = reassembly_ok st"
  "reassembly_ok (finish_pending src st) = reassembly_ok st"
  by (simp_all add: reassembly_ok_def finish_pending_def split: option.splits)

lemma HandleFragment_ok:
  assumes "HandleFragment env src frag v2 e k n bytes ack st = Some st'" "reassembly_ok st" "0 < n"
  shows "reassembly_ok st'"
proof (cases "open_event src e n st")
  case None
  then show ?thesis using assms by (simp add: HandleFragment_def)
next
  case (Some x)
  obtain ev st1 where opened: "open_event src e n st = Some (ev, st1)" using Some by (cases x) simp
  have "receive_ok src \<lparr>re_source = src, ackedBits = replicate n False, completed = False, timeLastAck = 0, packetData = []\<rparr>"
    using assms(3) by (simp add: receive_ok_def)
  then have ev: "receive_ok src ev" and st1: "reassembly_ok st1"
    using opened assms(2) by (auto elim!: open_event_cases intro: reassembly_okD(3) receive_ok_store)
  obtain hasAll st2 where noted: "note_fragment env src e k bytes ack ev st1 = (hasAll, st2)" by force
  have all: "list_all id bs \<longleftrightarrow> False \<notin> set bs" for bs by (auto simp: list_all_iff) (metis (full_types))
  have "reassembly_ok (snd (note_fragment env src e k bytes ack ev st1))"
    unfolding note_fragment_def Let_def
    using ev st1 by (auto simp: receive_ok_def all map_ok_put intro!: receive_ok_store)
  then have "reassembly_ok st2" by (simp add: noted)
  then show ?thesis
    using assms(1) HandleReceivedPacket_ok [of env src e frag v2 st2 st']
    by (cases hasAll) (simp_all add: HandleFragment_def opened noted)
qed

lemma mark_ack_ok:
  assumes "\<forall>ev\<in>snd ` set xs. send_ok frag ev" "ev \<in> snd ` set (mark_ack src e i xs)"
  shows "send_ok frag ev"
proof (cases "map_of xs e")
  case None
  then show ?thesis using assms by (auto simp: mark_ack_def)
next
  case (Some old)
  then have "old \<in> snd ` set xs" by (metis image_eqI map_of_SomeD snd_conv)
  then have "send_ok frag old" using assms(1) by blast
  moreover have "target_ok (td\<lparr>ackBits := (ackBits td)[i := True]\<rparr>) = target_ok td" for td by (simp add: target_ok_def)
  ultimately have new: "send_ok frag (old\<lparr>targetData := (targetData old)(src \<mapsto> td\<lparr>ackBits := (ackBits td)[i := True]\<rparr>)\<rparr>)"
    if "targetData old src = Some td" for td
    using that by (auto simp: send_ok_def)
  show ?thesis
  proof (cases "ev \<in> snd ` set xs")
    case False
    then obtain td where td: "targetData old src = Some td"
      and "ev \<in> snd ` set (AList.update e (old\<lparr>targetData := (targetData old)(src \<mapsto> td\<lparr>ackBits := (ackBits td)[i := True]\<rparr>)\<rparr>) xs)"
      using assms(2) Some by (auto simp: mark_ack_def split: option.splits if_splits)
    then have "ev = old\<lparr>targetData := (targetData old)(src \<mapsto> td\<lparr>ackBits := (ackBits td)[i := True]\<rparr>)\<rparr>"
      using False set_update_subset by (metis (no_types, lifting) insertE subsetD)
    then show ?thesis using new [OF td] by simp
  qed (use assms(1) in blast)
qed

lemma packet_ok:
  assumes "reassembly_ok st"
  shows "HandlePacketV2 env src q st = Some st' \<Longrightarrow> reassembly_ok st'" "HandlePacket env src p st = Some st' \<Longrightarrow> reassembly_ok st'"
proof -
  have ack: "reassembly_ok (st\<lparr>m_sendList := mark_ack src e i (m_sendList st)\<rparr>)" for e i
  proof (rule reassembly_okI)
    fix ev assume "ev \<in> snd ` set (m_sendList (st\<lparr>m_sendList := mark_ack src e i (m_sendList st)\<rparr>))"
    then show "send_ok kFragmentSize ev"
      using assms by (intro mark_ack_ok [where xs = "m_sendList st"]) (simp_all add: reassembly_ok_def)
  qed (use assms reassembly_okD in auto)
  {
    assume h: "HandlePacketV2 env src q st = Some st'"
    show "reassembly_ok st'"
    proof (cases "ReassembledEventV2.totalPackets q = 0 \<or> span_elems (ReassembledEventV2.data q) = []")
      case True
      then show ?thesis using h ack assms by (auto simp: HandlePacketV2_def Let_def split: if_splits)
    next
      case False
      then have "0 < unat (ReassembledEventV2.totalPackets q)" by (intro unat_positive) simp
      then show ?thesis
        using h False HandleFragment_ok [OF _ assms] by (simp add: HandlePacketV2_def Let_def)
    qed
  next
    assume h: "HandlePacket env src p st = Some st'"
    show "reassembly_ok st'"
    proof (cases "ep_totalPackets p = 0 \<or> ep_payload p = []")
      case True
      then show ?thesis using h ack assms by (auto simp: HandlePacket_def split: if_splits)
    next
      case False
      then have "0 < unat (ep_totalPackets p)" by (intro unat_positive) simp
      then show ?thesis
        using h False HandleFragment_ok [OF _ assms] by (simp add: HandlePacket_def)
    qed
  }
qed

subsection \<open>The tick keeps the invariant\<close>

lemma tick_target_ok:
  assumes "send_ok frag ev" "tick_target env dT reg frag' v2 e ev t = (ev', out, d)"
  shows "send_ok frag ev'"
proof -
  have "target_ok (x\<lparr>lastSend := y\<rparr>) = target_ok x" for x y by (simp add: target_ok_def)
  moreover have "target_ok td' \<and> ackBits td' = ackBits td" if "burst lat now sb r td = (js, td', d')" "target_ok td"
    for lat now sb r td js td' d' using burst_sends [OF that] by blast
  ultimately show ?thesis
    using assms by (auto simp: tick_target_def send_ok_def Let_def split: option.splits if_splits prod.splits)
qed

lemma tick_targets_ok:
  assumes "send_ok frag ev" "tick_targets env dT reg frag' v2 e ts ev = (ev', out, ds)"
  shows "send_ok frag ev'"
  using assms
proof (induction ts arbitrary: ev ev' out ds)
  case (Cons t ts)
  then show ?case by (auto split: prod.splits if_splits dest: tick_target_ok)
qed simp

lemma tick_list_ok:
  assumes "\<forall>ev\<in>snd ` set xs. send_ok frag ev" "ev \<in> snd ` set (fst (NetworkTickSendList env dT reg frag' v2 xs))"
  shows "send_ok frag ev"
proof -
  obtain e old where old: "(e, old) \<in> set xs" "ev = snd (fst (tick_event env dT reg frag' v2 (e, old)))"
    using assms(2) by (auto simp: NetworkTickSendList_def Let_def)
  obtain ev1 out ds where "tick_targets env dT reg frag' v2 e (targets old) old = (ev1, out, ds)" by (metis prod_cases3)
  then show ?thesis
    using old assms(1) tick_targets_ok [of frag old] by (force simp: tick_event_def send_ok_def)
qed

lemma reassembly_ok_step:
  assumes "reassembly_step st st'" "reassembly_ok st"
  shows "reassembly_ok st'"
  using assms(1)
proof cases
  case (register i k)
  then show ?thesis using assms(2) by (simp add: RegisterTarget_def)
next
  case (unregister i)
  have "send_ok frag (ev\<lparr>targetData := (targetData ev)(i := None), targets := ts\<rparr>)" if "send_ok frag ev" for frag ev ts
    using that by (auto simp: send_ok_def)
  then show ?thesis
    using assms(2) unregister by (fastforce simp: UnregisterTarget_def UnregisterSendList_def reassembly_ok_def)
next
  case (trigger t nm pl bps)
  have F: "0 < kFragmentSize" by (simp add: kFragmentSize_def)
  have "\<forall>ev\<in>snd ` set (m_sendList st'). send_ok kFragmentSize ev"
    using assms(2) by (intro send_ok_list [OF TriggerEvent_adds(4) [OF trigger(1)] _ F]) (simp add: reassembly_ok_def)
  then show ?thesis using TriggerEvent_adds(1-3) [OF trigger(1)] assms(2) by (simp add: reassembly_ok_def)
next
  case (trigger_V2 t nm pl bps)
  have F: "0 < kFragmentSizeV2" by (simp add: kFragmentSizeV2_def)
  have "\<forall>ev\<in>snd ` set (m_sendListV2 st'). send_ok kFragmentSizeV2 ev"
    using assms(2) by (intro send_ok_list [OF TriggerEventV2_adds(4) [OF trigger_V2(1)] _ F]) (simp add: reassembly_ok_def)
  then show ?thesis using TriggerEventV2_adds(1-3) [OF trigger_V2(1)] assms(2) by (simp add: reassembly_ok_def)
next
  case (packet env src p)
  then show ?thesis using packet_ok(2) [OF assms(2)] by simp
next
  case (packet_V2 env src q)
  then show ?thesis using packet_ok(1) [OF assms(2)] by simp
next
  case (tick env)
  have l: "m_sendList st' = fst (NetworkTickSendList env (timeNow env - m_lastTime st) (m_targets st) kFragmentSize False (m_sendList st))"
    "m_sendListV2 st' = fst (NetworkTickSendList env (timeNow env - m_lastTime st) (m_targets st) kFragmentSizeV2 True (m_sendListV2 st))"
    "staticEventName st' = staticEventName st"
    by (simp_all add: tick NetworkTick_def Let_def split: prod.splits)
  show ?thesis
  proof (rule reassembly_okI)
    fix src e ev assume "m_receiveList st' src e = Some ev"
    then show "receive_ok src ev"
      using tick reassembly_okD(3) [OF assms(2)]
      by (auto simp: NetworkTick_def cleanup_receive_list_def Let_def split: prod.splits if_splits option.splits)
  next
    fix ev assume "ev \<in> snd ` set (m_sendList st')"
    then show "send_ok kFragmentSize ev"
      unfolding l by (rule tick_list_ok [rotated]) (use assms(2) in \<open>simp add: reassembly_ok_def\<close>)
  next
    fix ev assume "ev \<in> snd ` set (m_sendListV2 st')"
    then show "send_ok kFragmentSizeV2 ev"
      unfolding l by (rule tick_list_ok [rotated]) (use assms(2) in \<open>simp add: reassembly_ok_def\<close>)
  next
    show "length (staticEventName st') = 65536" using l(3) reassembly_okD(4) [OF assms(2)] by simp
  qed
qed

lemma reassembly_ok_reachable: "reassembly_reachable st \<Longrightarrow> reassembly_ok st"
proof (induction rule: reassembly_reachable.induct)
  case (start now)
  show ?case by (simp add: reassembly_ok_def EventReassembly_make_def)
qed (rule reassembly_ok_step)

end
