(* ===== verification/SampleReassembly.thy ===== *)
theory SampleReassembly
  imports ReassemblySteps
begin

text \<open>
  Concrete states of the event reassembly component, for the examples: one registered target, one event
  that fits in a fragment.
\<close>

definition reassembly_clock :: "reassembly_env" where
  "reassembly_clock = \<lparr>timeNow = 1000, LimitEvent = (\<lambda>_. False), latency = (\<lambda>bps frag. int frag * 1000 div bps), indet = (\<lambda>_. 0)\<rparr>"

definition one_target :: "u8 \<Rightarrow> reassembly" where
  "one_target k = RegisterTarget 7 k (EventReassembly_make 0)"

abbreviation ping_name :: "u8 list" where
  "ping_name \<equiv> [112, 105, 110, 103, 0]"

abbreviation ping_payload :: "u8 list" where
  "ping_payload \<equiv> [1, 2, 3]"

lemma one_target_simps [simp]:
  "m_targets (one_target k) = [(7, k)]" "m_sendList (one_target k) = []" "m_sendListV2 (one_target k) = []"
  "m_receiveList (one_target k) src e = None" "m_eventId (one_target k) = 0" "length (staticEventName (one_target k)) = 65536"
  "queuedEvents (one_target k) = []"
  by (simp_all add: one_target_def RegisterTarget_def EventReassembly_make_def)

lemma reassembly_clock_simps [simp]:
  "timeNow reassembly_clock = 1000" "\<not> LimitEvent reassembly_clock src"
  "latency reassembly_clock bps frag = int frag * 1000 div bps"
  by (simp_all add: reassembly_clock_def)

lemma ping_fits [simp]:
  "event_fits_V2 ping_name ping_payload" "event_count ping_name ping_payload = 1"
  unfolding event_fits_V2_def length_event_bytes kFragmentSizeV2_def packet_count_def by simp_all

lemma one_target_reachable: "reassembly_reachable (one_target k)"
  unfolding one_target_def
  by (rule reassembly_reachable.step [OF reassembly_reachable.start reassembly_step.register])

end
