(* ===== verification/StateBags.thy ===== *)
theory StateBags
  imports EventReassembly "HOL-Library.List_Lexorder"
begin

text \<open>
  \<open>citizen-resources-core/src/StateBagComponent.cpp\<close>: named bags of key-value pairs that are replicated
  to peers. The bags live in a store that is addressed by references, so the lifetime that the C++ code
  leaves to \<open>shared_ptr\<close> and \<open>weak_ptr\<close> is explicit: a bag is owned by the references that callers hold
  (\<open>holders\<close>, a count), by the set of pre-created bags and by queued tasks, and is destroyed when none is
  left. Locks are left out: an operation is one atomic step. The change handlers, the unpacking of
  MessagePack and the game interface are parameters. \<open>None\<close> of an operation is undefined behaviour.
\<close>

subsection \<open>The state\<close>

datatype StateBagRole = Role_Client | Role_ClientV2 | Role_Server

type_synonym bag_ref = nat

text \<open>\<open>m_data\<close> is an ascending \<open>std::map\<close>, \<open>m_routingTargets\<close> an ascending \<open>std::set\<close>.\<close>

record state_bag =
  m_useParentTargets :: bool
  m_bagId :: "u8 list"
  m_routingTargets :: "int list"
  m_owningPeer :: "int option"
  m_bagData :: "(u8 list \<times> u8 list) list"
  m_replicationEnabled :: bool
  m_replicateData :: "(u8 list \<times> u8 list) list"

datatype bag_packet = BagPacket "StateBag packet" | BagPacketV2 "StateBagV2 packet"

text \<open>A change that waits for the user code thread, with the bag it keeps alive.\<close>

record bag_task =
  taskBag :: bag_ref
  taskSource :: int
  taskKey :: "u8 list"
  taskData :: "u8 list"
  taskReplicated :: bool

record state_bags =
  m_role :: StateBagRole
  m_bagTargets :: "int list"
  m_erasureList :: "u8 list list"
  m_stateBags :: "(u8 list \<times> bag_ref) list"
  m_preCreatePrefixes :: "(u8 list \<times> bool) list"
  m_preCreatedStateBags :: "bag_ref list"
  bags :: "bag_ref \<Rightarrow> state_bag option"
  nextBag :: bag_ref
  holders :: "bag_ref \<Rightarrow> nat"
  bagTasks :: "bag_task list"
  dataBuffer :: message_buffer
  bagSent :: "(int \<times> bag_packet) list"

record bag_env =
  hasChangeHandler :: bool
  msgpack_unpacks :: "u8 list \<Rightarrow> bool"
  OnStateBagChange :: "int \<Rightarrow> u8 list \<Rightarrow> u8 list \<Rightarrow> u8 list \<Rightarrow> bool \<Rightarrow> bool"
  IsAsynchronous :: bool

text \<open>\<open>dataBuffer\<close> is the \<open>thread_local\<close> buffer of \<open>SendKeyValue\<close>.\<close>

definition StateBags_make :: "StateBagRole \<Rightarrow> state_bags" where
  "StateBags_make role =
     \<lparr>m_role = role, m_bagTargets = [], m_erasureList = [], m_stateBags = [], m_preCreatePrefixes = [],
      m_preCreatedStateBags = [], bags = (\<lambda>_. None), nextBag = 0, holders = (\<lambda>_. 0), bagTasks = [],
      dataBuffer = MessageBuffer_sized 131072, bagSent = []\<rparr>"

definition StateBagImpl_make :: "u8 list \<Rightarrow> bool \<Rightarrow> state_bag" where
  "StateBagImpl_make i useParentTargets =
     \<lparr>m_useParentTargets = useParentTargets, m_bagId = i, m_routingTargets = [], m_owningPeer = None,
      m_bagData = [], m_replicationEnabled = True, m_replicateData = []\<rparr>"

definition update_bag :: "bag_ref \<Rightarrow> (state_bag \<Rightarrow> state_bag) \<Rightarrow> state_bags \<Rightarrow> state_bags" where
  "update_bag r f st = st\<lparr>bags := (bags st)(r := map_option f (bags st r))\<rparr>"

subsection \<open>Sending\<close>

definition QueueSend :: "int \<Rightarrow> bag_packet \<Rightarrow> state_bags \<Rightarrow> state_bags" where
  "QueueSend target p st = st\<lparr>bagSent := bagSent st @ [(target, p)]\<rparr>"

definition write_str :: "u8 list \<Rightarrow> message_buffer \<Rightarrow> message_buffer option" where
  "write_str s b =
     (case Write False 16 (ucast (of_nat (length s + 1) :: u16)) b of
        None \<Rightarrow> None
      | Some b \<Rightarrow> Write False 8 0 (WriteBits_bytes s b))"

definition SendKeyValue :: "state_bag \<Rightarrow> int \<Rightarrow> u8 list \<Rightarrow> u8 list \<Rightarrow> state_bags \<Rightarrow> state_bags option" where
  "SendKeyValue bag target k v st =
     (if k = [] \<or> v = [] then Some st
      else if m_role st = Role_ClientV2 then
        Some (QueueSend target (BagPacketV2 (StateBagV2Packet_init\<lparr>pdata := StateBagV2.make (m_bagId bag) k v\<rparr>)) st)
      else
        case Option.bind (write_str (m_bagId bag) (SetCurrentBit 0 (dataBuffer st))) (write_str k) of
          None \<Rightarrow> None
        | Some b \<Rightarrow>
            let b = WriteBits_bytes v b in
            Some (QueueSend target
              (BagPacket (StateBagPacket_init\<lparr>pdata := StateBag.make (take (m_curBit b div 8) (m_data b))\<rparr>))
              (st\<lparr>dataBuffer := b\<rparr>)))"

definition SendAll :: "state_bag \<Rightarrow> int \<Rightarrow> state_bags \<Rightarrow> state_bags option" where
  "SendAll bag target = handle_all (\<lambda>(k, v). SendKeyValue bag target k v) (m_bagData bag)"

definition SendAllInitial :: "state_bag \<Rightarrow> int \<Rightarrow> state_bags \<Rightarrow> state_bags option" where
  "SendAllInitial bag target st =
     (if m_routingTargets bag \<noteq> [] \<and> target \<notin> set (m_routingTargets bag) then Some st else SendAll bag target st)"

definition SendKeyValueToAllTargets :: "state_bag \<Rightarrow> u8 list \<Rightarrow> u8 list \<Rightarrow> state_bags \<Rightarrow> state_bags option" where
  "SendKeyValueToAllTargets bag k v st =
     handle_all (\<lambda>target. SendKeyValue bag target k v)
       (if m_useParentTargets bag then m_bagTargets st else m_routingTargets bag) st"

subsection \<open>A bag\<close>

definition GetKey :: "state_bag \<Rightarrow> u8 list \<Rightarrow> u8 list option" where
  "GetKey bag k = map_of (m_bagData bag) k"

definition GetKeys :: "state_bag \<Rightarrow> u8 list list" where
  "GetKeys bag = map fst (m_bagData bag)"

definition HasKey :: "state_bag \<Rightarrow> u8 list \<Rightarrow> bool" where
  "HasKey bag k \<longleftrightarrow> k \<in> fst ` set (m_bagData bag)"

definition MsgPackNil :: u8 where
  "MsgPackNil = 0xC0"

text \<open>
  The change of the data: the bag afterwards and whether it is replicated, \<open>None\<close> for the early return.
  \<open>data[0]\<close> of empty data is outside the string.
\<close>

definition store_key :: "u8 list \<Rightarrow> u8 list \<Rightarrow> bool \<Rightarrow> state_bag \<Rightarrow> (state_bag \<times> bool) option" where
  "store_key k v replicated bag =
     (let isNilData = (hd v = MsgPackNil) in
      case map_of (m_bagData bag) k of
        Some old \<Rightarrow>
          if isNilData then Some (bag\<lparr>m_bagData := filter (\<lambda>(l, _). l \<noteq> k) (m_bagData bag)\<rparr>, replicated)
          else if v \<noteq> old then Some (bag\<lparr>m_bagData := map_put k v (m_bagData bag)\<rparr>, replicated)
          else Some (bag, False)
      | None \<Rightarrow>
          if isNilData then None else Some (bag\<lparr>m_bagData := map_put k v (m_bagData bag)\<rparr>, replicated))"

text \<open>\<open>emplace\<close> keeps a value that is there.\<close>

definition queue_update :: "u8 list \<Rightarrow> u8 list \<Rightarrow> state_bag \<Rightarrow> state_bag" where
  "queue_update k v bag =
     (if map_of (m_replicateData bag) k = None then bag\<lparr>m_replicateData := m_replicateData bag @ [(k, v)]\<rparr> else bag)"

definition SetKeyInternal :: "bag_ref \<Rightarrow> u8 list \<Rightarrow> u8 list \<Rightarrow> bool \<Rightarrow> state_bags \<Rightarrow> state_bags option" where
  "SetKeyInternal r k v replicated st =
     (case bags st r of
        None \<Rightarrow> None
      | Some bag \<Rightarrow>
          if v = [] then None
          else
            case store_key k v replicated bag of
              None \<Rightarrow> Some st
            | Some (bag, replicated) \<Rightarrow>
                let st = st\<lparr>bags := (bags st)(r \<mapsto> bag)\<rparr> in
                if replicated then
                  if m_replicationEnabled bag then SendKeyValueToAllTargets bag k v st
                  else Some (update_bag r (queue_update k v) st)
                else Some st)"

definition SetKey :: "bag_env \<Rightarrow> bag_ref \<Rightarrow> int \<Rightarrow> u8 list \<Rightarrow> u8 list \<Rightarrow> bool \<Rightarrow> state_bags \<Rightarrow> state_bags option" where
  "SetKey env r source k v replicated st =
     (case bags st r of
        None \<Rightarrow> None
      | Some bag \<Rightarrow>
          if hasChangeHandler env then
            if \<not> msgpack_unpacks env v then Some st
            else if IsAsynchronous env then
              Some (st\<lparr>bagTasks := bagTasks st @
                [\<lparr>taskBag = r, taskSource = source, taskKey = k, taskData = v, taskReplicated = replicated\<rparr>]\<rparr>)
            else if \<not> OnStateBagChange env source (m_bagId bag) k v replicated then Some st
            else SetKeyInternal r k v replicated st
          else SetKeyInternal r k v replicated st)"

definition SetOwningPeer :: "bag_ref \<Rightarrow> int option \<Rightarrow> state_bags \<Rightarrow> state_bags" where
  "SetOwningPeer r peer = update_bag r (\<lambda>bag. bag\<lparr>m_owningPeer := peer\<rparr>)"

definition EnableImmediateReplication :: "bag_ref \<Rightarrow> bool \<Rightarrow> state_bags \<Rightarrow> state_bags" where
  "EnableImmediateReplication r enabled = update_bag r (\<lambda>bag. bag\<lparr>m_replicationEnabled := enabled\<rparr>)"

definition SendQueuedUpdates :: "bag_ref \<Rightarrow> state_bags \<Rightarrow> state_bags option" where
  "SendQueuedUpdates r st =
     (case bags st r of
        None \<Rightarrow> None
      | Some bag \<Rightarrow>
          handle_all (\<lambda>(k, v). SendKeyValueToAllTargets bag k v) (m_replicateData bag)
            (update_bag r (\<lambda>bag. bag\<lparr>m_replicateData := []\<rparr>) st))"

text \<open>The new set is given as the ascending list of its elements.\<close>

definition SetRoutingTargets :: "bag_ref \<Rightarrow> int list \<Rightarrow> state_bags \<Rightarrow> state_bags option" where
  "SetRoutingTargets r peers st =
     (case bags st r of
        None \<Rightarrow> None
      | Some bag \<Rightarrow>
          let newTargets = filter (\<lambda>t. t \<notin> set (m_routingTargets bag)) peers; bag = bag\<lparr>m_routingTargets := peers\<rparr> in
          handle_all (SendAll bag) newTargets (st\<lparr>bags := (bags st)(r \<mapsto> bag)\<rparr>))"

definition AddRoutingTarget :: "bag_ref \<Rightarrow> int \<Rightarrow> state_bags \<Rightarrow> state_bags option" where
  "AddRoutingTarget r peer st =
     (case bags st r of
        None \<Rightarrow> None
      | Some bag \<Rightarrow>
          if peer \<in> set (m_routingTargets bag) then Some st
          else
            let bag = bag\<lparr>m_routingTargets := insort peer (m_routingTargets bag)\<rparr> in
            SendAll bag peer (st\<lparr>bags := (bags st)(r \<mapsto> bag)\<rparr>))"

definition RemoveRoutingTarget :: "bag_ref \<Rightarrow> int \<Rightarrow> state_bags \<Rightarrow> state_bags" where
  "RemoveRoutingTarget r peer = update_bag r (\<lambda>bag. bag\<lparr>m_routingTargets := removeAll peer (m_routingTargets bag)\<rparr>)"

subsection \<open>The lifetime of bags\<close>

definition UnregisterStateBag :: "u8 list \<Rightarrow> state_bags \<Rightarrow> state_bags" where
  "UnregisterStateBag i st = st\<lparr>m_erasureList := List.insert i (m_erasureList st)\<rparr>"

definition owned :: "state_bags \<Rightarrow> bag_ref \<Rightarrow> bool" where
  "owned st r \<longleftrightarrow> holders st r > 0 \<or> r \<in> set (m_preCreatedStateBags st) \<or> r \<in> taskBag ` set (bagTasks st)"

text \<open>\<open>~StateBagImpl\<close> runs when the last owner is gone.\<close>

definition destroy_unowned :: "bag_ref \<Rightarrow> state_bags \<Rightarrow> state_bags" where
  "destroy_unowned r st =
     (case bags st r of
        None \<Rightarrow> st
      | Some bag \<Rightarrow>
          if owned st r then st else UnregisterStateBag (m_bagId bag) (st\<lparr>bags := (bags st)(r := None)\<rparr>))"

definition hold_bag :: "bag_ref \<Rightarrow> state_bags \<Rightarrow> state_bags" where
  "hold_bag r st = st\<lparr>holders := (holders st)(r := holders st r + 1)\<rparr>"

definition release_bag :: "bag_ref \<Rightarrow> state_bags \<Rightarrow> state_bags" where
  "release_bag r st = destroy_unowned r (st\<lparr>holders := (holders st)(r := holders st r - 1)\<rparr>)"

text \<open>\<open>weak_ptr::lock\<close> of the entry of a name.\<close>

definition lock_bag :: "state_bags \<Rightarrow> u8 list \<Rightarrow> bag_ref option" where
  "lock_bag st i =
     (case map_of (m_stateBags st) i of
        None \<Rightarrow> None
      | Some r \<Rightarrow> if bags st r = None then None else Some r)"

definition GetStateBag :: "u8 list \<Rightarrow> state_bags \<Rightarrow> bag_ref option \<times> state_bags" where
  "GetStateBag i st =
     (case lock_bag st i of
        None \<Rightarrow> (None, st)
      | Some r \<Rightarrow> (Some r, hold_bag r st))"

text \<open>The reference that is returned is held by the caller.\<close>

definition RegisterStateBag :: "u8 list \<Rightarrow> bool \<Rightarrow> state_bags \<Rightarrow> bag_ref \<times> state_bags" where
  "RegisterStateBag i useParentTargets st =
     (let wasBeingErased = (i \<in> set (m_erasureList st)); st = st\<lparr>m_erasureList := removeAll i (m_erasureList st)\<rparr> in
      case (if wasBeingErased then None else lock_bag st i) of
        Some r \<Rightarrow> (r, hold_bag r (st\<lparr>m_preCreatedStateBags := removeAll r (m_preCreatedStateBags st)\<rparr>))
      | None \<Rightarrow>
          let r = nextBag st in
          (r, hold_bag r (st\<lparr>bags := (bags st)(r \<mapsto> StateBagImpl_make i useParentTargets), nextBag := r + 1,
             m_stateBags := AList.update i r (m_stateBags st)\<rparr>)))"

definition AddSafePreCreatePrefix :: "u8 list \<Rightarrow> bool \<Rightarrow> state_bags \<Rightarrow> state_bags" where
  "AddSafePreCreatePrefix idPrefix useParentTargets st =
     st\<lparr>m_preCreatePrefixes := m_preCreatePrefixes st @ [(idPrefix, useParentTargets)]\<rparr>"

definition IsSafePreCreateName :: "state_bags \<Rightarrow> u8 list \<Rightarrow> bool \<times> bool" where
  "IsSafePreCreateName st i =
     (case find (\<lambda>(p, _). take (length p) i = p) (m_preCreatePrefixes st) of
        Some (_, useParentTargets) \<Rightarrow> (True, useParentTargets)
      | None \<Rightarrow> (False, False))"

definition PreCreateStateBag :: "u8 list \<Rightarrow> bool \<Rightarrow> state_bags \<Rightarrow> bag_ref \<times> state_bags" where
  "PreCreateStateBag i useParentTargets st =
     (case RegisterStateBag i useParentTargets st of
        (r, st) \<Rightarrow> (r, st\<lparr>m_preCreatedStateBags := List.insert r (m_preCreatedStateBags st)\<rparr>))"

text \<open>The handler of \<open>OnTick\<close>.\<close>

definition StateBags_OnTick :: "state_bags \<Rightarrow> state_bags" where
  "StateBags_OnTick st =
     (if m_erasureList st = [] then st
      else st\<lparr>m_stateBags := filter (\<lambda>(i, _). i \<notin> set (m_erasureList st)) (m_stateBags st), m_erasureList := []\<rparr>)"

definition StateBags_Reset :: "state_bags \<Rightarrow> state_bags" where
  "StateBags_Reset st =
     fold destroy_unowned (m_preCreatedStateBags st) (st\<lparr>m_stateBags := [], m_preCreatedStateBags := []\<rparr>)"

text \<open>A task of the user code thread: the handler is asked, the change made, the bag let go.\<close>

definition run_task :: "bag_env \<Rightarrow> state_bags \<Rightarrow> state_bags option" where
  "run_task env st =
     (case bagTasks st of
        [] \<Rightarrow> Some st
      | task # rest \<Rightarrow>
          case bags st (taskBag task) of
            None \<Rightarrow> None
          | Some bag \<Rightarrow>
              map_option (\<lambda>st. destroy_unowned (taskBag task) (st\<lparr>bagTasks := rest\<rparr>))
                (if OnStateBagChange env (taskSource task) (m_bagId bag) (taskKey task) (taskData task) (taskReplicated task)
                 then SetKeyInternal (taskBag task) (taskKey task) (taskData task) (taskReplicated task) st
                 else Some st))"

subsection \<open>Targets of the component\<close>

definition bag_RegisterTarget :: "int \<Rightarrow> state_bags \<Rightarrow> state_bags option" where
  "bag_RegisterTarget t st =
     (if t \<in> set (m_bagTargets st) then Some st
      else
        handle_all (\<lambda>(i, r) st. case bags st r of None \<Rightarrow> Some st | Some bag \<Rightarrow> SendAllInitial bag t st)
          (m_stateBags st) (st\<lparr>m_bagTargets := m_bagTargets st @ [t]\<rparr>))"

definition bag_UnregisterTarget :: "int \<Rightarrow> state_bags \<Rightarrow> state_bags" where
  "bag_UnregisterTarget t st =
     fold (\<lambda>(i, r). RemoveRoutingTarget r t) (m_stateBags st) (st\<lparr>m_bagTargets := removeAll t (m_bagTargets st)\<rparr>)"

subsection \<open>Received packets\<close>

text \<open>\<open>readStr\<close>: the bytes stay 0 where the buffer is too short.\<close>

definition read_str :: "message_buffer \<Rightarrow> (u8 list \<times> message_buffer) option" where
  "read_str b =
     (case Read_out False 16 b of
        None \<Rightarrow> None
      | Some (_, w, b) \<Rightarrow>
          let len = unat (ucast w :: u16) in
          if len = 0 then Some ([], b)
          else
            let (bytes, b) = ReadBits_bytes (len - 1) b;
                rbuffer = (case bytes of Some bs \<Rightarrow> bs | None \<Rightarrow> replicate (len - 1) 0) in
            map_option (\<lambda>(_, b). (rbuffer, b)) (Read False 8 b))"

text \<open>The name, key and data of a packet, \<open>None\<close> inside where the handler returns early.\<close>

definition parse_bag_packet :: "u8 list \<Rightarrow> (u8 list \<times> u8 list \<times> u8 list) option option" where
  "parse_bag_packet dataRaw =
     (case read_str (MessageBuffer_make dataRaw) of
        None \<Rightarrow> None
      | Some (idName, b) \<Rightarrow>
          if idName = [] then Some None
          else
            case read_str b of
              None \<Rightarrow> None
            | Some (k, b) \<Rightarrow>
                if k = [] then Some None
                else if IsAtEnd b then Some None
                else
                  let dataLength = length (m_data b) * 8 - m_curBit b in
                  if dataLength = 0 then Some None
                  else
                    let (bytes, b) = ReadBits_bytes ((dataLength + 7) div 8) b;
                        v = (case bytes of Some bs \<Rightarrow> bs | None \<Rightarrow> replicate ((dataLength + 7) div 8) 0) in
                    Some (Some (idName, k, v)))"

text \<open>The bag of a name, created when the name is safe; a pre-created bag is held by its set only.\<close>

definition find_or_create_bag :: "u8 list \<Rightarrow> state_bags \<Rightarrow> bag_ref option \<times> state_bags" where
  "find_or_create_bag bagName st =
     (case lock_bag st bagName of
        Some r \<Rightarrow> (Some r, st)
      | None \<Rightarrow>
          case IsSafePreCreateName st bagName of (safe, useParentTargets) \<Rightarrow>
            if safe then (case PreCreateStateBag bagName useParentTargets st of (r, st) \<Rightarrow> (Some r, release_bag r st))
            else (None, st))"

text \<open>
  What both handlers do with the name, key and data: the state, and the name reported in
  \<open>outBagNameName\<close>.
\<close>

definition handle_bag_message :: "bag_env \<Rightarrow> int \<Rightarrow> u8 list \<Rightarrow> u8 list \<Rightarrow> u8 list \<Rightarrow> state_bags
    \<Rightarrow> (state_bags \<times> u8 list option) option" where
  "handle_bag_message env source bagName k v st =
     (case find_or_create_bag bagName st of
        (None, st) \<Rightarrow> Some (st, Some bagName)
      | (Some r, st) \<Rightarrow>
          case bags st r of
            None \<Rightarrow> None
          | Some b \<Rightarrow>
              if m_owningPeer b = None \<or> m_owningPeer b = Some source then
                map_option (\<lambda>st. (st, None)) (SetKey env r source k v (m_role st = Role_Server) st)
              else Some (st, None))"

definition bag_HandlePacket :: "bag_env \<Rightarrow> int \<Rightarrow> u8 list \<Rightarrow> state_bags \<Rightarrow> (state_bags \<times> u8 list option) option" where
  "bag_HandlePacket env source dataRaw st =
     (case parse_bag_packet dataRaw of
        None \<Rightarrow> None
      | Some None \<Rightarrow> Some (st, None)
      | Some (Some (bagName, k, v)) \<Rightarrow> handle_bag_message env source bagName k v st)"

definition bag_HandlePacketV2 :: "bag_env \<Rightarrow> int \<Rightarrow> StateBagV2 \<Rightarrow> state_bags \<Rightarrow> (state_bags \<times> u8 list option) option" where
  "bag_HandlePacketV2 env source message st =
     (if StateBagV2.stateBagName message = [] \<or> StateBagV2.key message = [] \<or> StateBagV2.data message = [] then Some (st, None)
      else handle_bag_message env source (StateBagV2.stateBagName message) (StateBagV2.key message) (StateBagV2.data message) st)"

end
