(* ===== verification/StateBagWire.thy ===== *)
theory StateBagWire
  imports StateBags ReassemblyFlow
begin

text \<open>
  The packet format of version 1: whole bytes in a bit buffer at byte positions are plain bytes, so what
  \<open>SendKeyValue\<close> writes is a sequence of framed strings, and \<open>HandlePacket\<close> parses it back.
\<close>

subsection \<open>Bytes in a bit buffer\<close>

definition be_enc :: "nat \<Rightarrow> u32 \<Rightarrow> u8 list" where
  "be_enc n v = map (\<lambda>i. ucast (drop_bit (8 * (n - 1 - i)) v)) [0..<n]"

lemma length_be_enc [simp]: "length (be_enc n v) = n"
  by (simp add: be_enc_def)

lemma nth_be_enc: "i < n \<Longrightarrow> be_enc n v ! i = ucast (drop_bit (8 * (n - 1 - i)) v)"
  by (simp add: be_enc_def)

lemma length_overwrite: "off + length src \<le> length bs \<Longrightarrow> length (overwrite off src bs) = length bs"
  by (simp add: overwrite_def)

lemma nth_overwrite:
  assumes "off + length src \<le> length bs" "j < length bs"
  shows "overwrite off src bs ! j = (if off \<le> j \<and> j < off + length src then src ! (j - off) else bs ! j)"
  using assms by (auto simp: overwrite_def nth_append not_less)

lemma take_overwrite: "off + length src \<le> length bs \<Longrightarrow> take (off + length src) (overwrite off src bs) = take off bs @ src"
  by (simp add: overwrite_def)

lemma byte_index:
  assumes "p \<le> j" "j < p + n" "m < (8 :: nat)"
  shows "8 * (n - 1 - (j - p)) + m < 8 * n" "8 * j + 7 - m = 8 * p + 8 * n - 1 - (8 * (n - 1 - (j - p)) + m)"
proof -
  obtain a where a: "j = p + a" using assms(1) le_Suc_ex by blast
  then obtain c where "n = a + c + 1" using assms(2) less_natE [of a n] by auto
  with a assms(3) show "8 * (n - 1 - (j - p)) + m < 8 * n" "8 * j + 7 - m = 8 * p + 8 * n - 1 - (8 * (n - 1 - (j - p)) + m)"
    by simp_all
qed

lemma byte_index_outside:
  assumes "j < p \<or> p + n \<le> j" "m < (8 :: nat)"
  shows "8 * j + 7 - m < 8 * p \<or> 8 * p + 8 * n \<le> 8 * j + 7 - m"
  using assms(1)
proof
  assume "j < p"
  moreover have "8 * j + 7 - m \<le> 8 * j + 7" by (rule diff_le_self)
  ultimately show ?thesis by linarith
next
  assume "p + n \<le> j"
  moreover have "8 * j \<le> 8 * j + 7 - m" using assms(2) by arith
  ultimately show ?thesis by linarith
qed

lemma Write_aligned:
  assumes ok: "buffer_ok b" and n: "0 < n" "n \<le> 4" and cur: "m_curBit b = 8 * p" and fit: "p + n \<le> length (m_data b)"
  shows "Write False (8 * n) v b = Some (b\<lparr>m_data := overwrite p (be_enc n v) (m_data b), m_curBit := 8 * (p + n)\<rparr>)"
proof -
  have len: "1 \<le> 8 * n" "8 * n \<le> 32" "hack_length False (8 * n) = 8 * n" using n by (simp_all add: hack_length_def)
  have mx: "m_maxBit b = 8 * length (m_data b)" using ok by (simp add: buffer_ok_def)
  then have room: "m_curBit b + 8 * n \<le> m_maxBit b" using cur fit by simp
  obtain b' where
    b': "WriteBitsSingle False v (8 * n) b = Some (True, b')" "m_curBit b' = m_curBit b + 8 * n"
      "m_maxBit b' = m_maxBit b" "length (m_data b') = length (m_data b)"
    and new: "\<And>k. k < 8 * n \<Longrightarrow> bit_at (m_data b') (m_curBit b + 8 * n - 1 - k) = bit v k"
    and old: "\<And>i. i < m_maxBit b \<Longrightarrow> i < m_curBit b \<or> m_curBit b + 8 * n \<le> i \<Longrightarrow> bit_at (m_data b') i = bit_at (m_data b) i"
    by (rule WriteBitsSingle_ok [OF ok len room, of v]) (rule that, assumption+)
  have "m_data b' = overwrite p (be_enc n v) (m_data b)"
  proof (rule nth_equalityI)
    show "length (m_data b') = length (overwrite p (be_enc n v) (m_data b))" using b'(4) fit by (simp add: length_overwrite)
    fix j assume "j < length (m_data b')"
    then have j: "j < length (m_data b)" using b'(4) by simp
    show "m_data b' ! j = overwrite p (be_enc n v) (m_data b) ! j"
    proof (rule bit_word_eqI)
      fix m assume "m < LENGTH(8)"
      then have m: "m < 8" by simp
      have "bit (m_data b' ! j) m = bit_at (m_data b') (8 * j + 7 - m)" using bit_at_byte [OF m] by simp
      also have "\<dots> = bit (overwrite p (be_enc n v) (m_data b) ! j) m"
      proof (cases "p \<le> j \<and> j < p + n")
        case True
        define k where "k = 8 * (n - 1 - (j - p)) + m"
        have k: "k < 8 * n" "8 * j + 7 - m = m_curBit b + 8 * n - 1 - k"
          using byte_index [of p j n m] True m unfolding cur k_def by blast+
        have "overwrite p (be_enc n v) (m_data b) ! j = ucast (drop_bit (8 * (n - 1 - (j - p))) v)"
          using True j fit nth_be_enc [of "j - p" n v] by (simp add: nth_overwrite less_diff_conv2)
        then have "bit (overwrite p (be_enc n v) (m_data b) ! j) m = bit v k"
          using m by (simp add: bit_simps k_def)
        then show ?thesis using new [OF k(1)] k(2) by simp
      next
        case False
        have "8 * j + 7 - m < m_maxBit b" using j m mx by simp
        moreover have "8 * j + 7 - m < m_curBit b \<or> m_curBit b + 8 * n \<le> 8 * j + 7 - m"
          using byte_index_outside [of j p n m] False m unfolding cur not_le de_Morgan_conj by auto
        moreover have "overwrite p (be_enc n v) (m_data b) ! j = m_data b ! j"
          using False j fit by (auto simp: nth_overwrite)
        ultimately show ?thesis using old [of "8 * j + 7 - m"] bit_at_byte [OF m] by simp
      qed
      finally show "bit (m_data b' ! j) m = bit (overwrite p (be_enc n v) (m_data b) ! j) m" .
    qed
  qed
  then have "b' = b\<lparr>m_data := overwrite p (be_enc n v) (m_data b), m_curBit := 8 * (p + n)\<rparr>"
    using b'(2,3) cur by simp
  then show ?thesis using b'(1) by (simp add: Write_def)
qed

lemma bit_be_enc:
  assumes "k < 8 * n"
  shows "bit_at (xs @ be_enc n v @ ys) (8 * (length xs + n) - 1 - k) = bit v k"
proof -
  define j where "j = n - 1 - k div 8"
  have k: "k mod 8 < 8" "k div 8 < n" "k = 8 * (k div 8) + k mod 8" using assms by auto
  have "8 * (length xs + n) - 1 - k = 8 * (length xs + j) + 7 - k mod 8" using k by (simp add: j_def algebra_simps)
  moreover have "bit_at zs (8 * (length xs + j) + 7 - k mod 8) = bit (zs ! (length xs + j)) (k mod 8)" for zs
    by (rule bit_at_byte [OF k(1)])
  moreover have j: "j < n" "n - 1 - j = k div 8" using k(2) by (simp_all add: j_def)
  moreover have "(xs @ be_enc n v @ ys) ! (length xs + j) = ucast (drop_bit (8 * (k div 8)) v)"
    using nth_be_enc [OF j(1), of v] j(1) unfolding j(2) by (simp add: nth_append)
  moreover have "bit (ucast (drop_bit (8 * (k div 8)) v) :: u8) (k mod 8) = bit v k"
    using k(1,3) by (simp add: bit_simps)
  ultimately show ?thesis by simp
qed

lemma Read_aligned:
  assumes "buffer_ok b" "0 < n" "n \<le> 4" "m_curBit b = 8 * length xs" "m_data b = xs @ be_enc n v @ ys"
  shows "ReadBitsSingle False (8 * n) b = Some (Some (take_bit (8 * n) v), b\<lparr>m_curBit := 8 * (length xs + n)\<rparr>)"
proof -
  have "ReadBitsSingle False (8 * n) b = Some (Some (take_bit (8 * n) v), b\<lparr>m_curBit := m_curBit b + 8 * n\<rparr>)"
  proof (rule ReadBitsSingle_stored)
    show "m_curBit b + 8 * n \<le> m_maxBit b" using assms by (simp add: buffer_ok_def)
    show "bit_at (m_data b) (m_curBit b + 8 * n - 1 - k) = bit v k" if "k < 8 * n" for k
      using bit_be_enc [OF that, of xs v ys] assms(4,5) by (simp add: algebra_simps)
  qed (use assms in \<open>simp_all add: hack_length_def\<close>)
  then show ?thesis using assms(4) by (simp add: algebra_simps)
qed

subsection \<open>Framed strings\<close>

definition frame :: "u8 list \<Rightarrow> u8 list" where
  "frame s = be_enc 2 (of_nat (length s + 1)) @ s @ [0]"

lemma length_frame [simp]: "length (frame s) = length s + 3"
  by (simp add: frame_def)

text \<open>A buffer whose first bytes, up to the position, are \<open>xs\<close>.\<close>

definition filled :: "message_buffer \<Rightarrow> u8 list \<Rightarrow> bool" where
  "filled b xs \<longleftrightarrow> buffer_ok b \<and> m_curBit b = 8 * length xs \<and> take (length xs) (m_data b) = xs \<and> length xs \<le> length (m_data b)"

lemma filled_start: "buffer_ok b \<Longrightarrow> filled (SetCurrentBit 0 b) []"
  by (simp add: filled_def SetCurrentBit_def buffer_ok_def)

lemma filled_overwrite:
  assumes "filled b xs" "length xs + length src \<le> length (m_data b)"
  shows "filled (b\<lparr>m_data := overwrite (length xs) src (m_data b), m_curBit := 8 * (length xs + length src)\<rparr>) (xs @ src)"
  using assms take_overwrite [of "length xs" src "m_data b"]
  by (simp add: filled_def buffer_ok_def length_overwrite)

lemma filled_Write:
  assumes "filled b xs" "0 < n" "n \<le> 4" "length xs + n \<le> length (m_data b)"
  obtains b' where "Write False (8 * n) v b = Some b'" "filled b' (xs @ be_enc n v)" "length (m_data b') = length (m_data b)"
  using filled_overwrite [OF assms(1), of "be_enc n v"] Write_aligned [of b n "length xs" v] assms
  by (simp add: filled_def length_overwrite)

lemma filled_WriteBits:
  assumes "filled b xs" "length xs + length src \<le> length (m_data b)"
  shows "filled (WriteBits_bytes src b) (xs @ src)" "length (m_data (WriteBits_bytes src b)) = length (m_data b)"
proof -
  have "WriteBits_bytes src b = b\<lparr>m_data := overwrite (length xs) src (m_data b), m_curBit := 8 * (length xs + length src)\<rparr>"
    using assms by (simp add: WriteBits_bytes_def filled_def buffer_ok_def)
  then show "filled (WriteBits_bytes src b) (xs @ src)" "length (m_data (WriteBits_bytes src b)) = length (m_data b)"
    using filled_overwrite [OF assms] assms(2) by (simp_all add: length_overwrite)
qed

lemma WriteBits_too_long:
  assumes "filled b xs" "length (m_data b) < length xs + length src"
  shows "WriteBits_bytes src b = b"
  using assms by (simp add: WriteBits_bytes_def filled_def buffer_ok_def)

lemma u16_length: "n < 65536 \<Longrightarrow> ucast (of_nat n :: u16) = (of_nat n :: u32)"
  by (simp add: unsigned_of_nat take_bit_nat_eq_self)

lemma u16_length_read: "n < 65536 \<Longrightarrow> unat (ucast (take_bit 16 (of_nat n :: u32)) :: u16) = n"
  by (simp add: unsigned_ucast_eq unsigned_take_bit_eq unsigned_of_nat take_bit_nat_eq_self)

lemma filled_write_str:
  assumes b: "filled b xs" and fit: "length xs + length s + 3 \<le> length (m_data b)" and s: "length s < 65535"
  obtains b' where "write_str s b = Some b'" "filled b' (xs @ frame s)" "length (m_data b') = length (m_data b)"
proof -
  have two: "8 * 2 = (16 :: nat)" "8 * 1 = (8 :: nat)" by simp_all
  obtain b1 where b1: "Write False 16 (of_nat (length s + 1)) b = Some b1"
      "filled b1 (xs @ be_enc 2 (of_nat (length s + 1)))" "length (m_data b1) = length (m_data b)"
    using filled_Write [OF b, of 2 "of_nat (length s + 1)"] fit unfolding two by auto
  note b2 = filled_WriteBits [OF b1(2), of s]
  have "length (xs @ be_enc 2 (of_nat (length s + 1))) + length s \<le> length (m_data b1)" using fit b1(3) by simp
  note b2 = b2 [OF this]
  have "length ((xs @ be_enc 2 (of_nat (length s + 1))) @ s) + 1 \<le> length (m_data (WriteBits_bytes s b1))"
    using fit b2(2) b1(3) by simp
  then obtain b3 where b3: "Write False 8 0 (WriteBits_bytes s b1) = Some b3"
      "filled b3 (((xs @ be_enc 2 (of_nat (length s + 1))) @ s) @ be_enc 1 0)"
      "length (m_data b3) = length (m_data (WriteBits_bytes s b1))"
    using filled_Write [OF b2(1), of 1 0] unfolding two by auto
  show ?thesis
  proof (rule that)
    have "ucast (of_nat (length s + 1) :: u16) = (of_nat (length s + 1) :: u32)" using s by (intro u16_length) simp
    then show "write_str s b = Some b3" using b1(1) b3(1) by (simp only: write_str_def) simp
    show "filled b3 (xs @ frame s)" using b3(2) by (simp add: frame_def be_enc_def)
  qed (use b3(3) b2(2) b1(3) in simp)
qed

lemma read_str_frame:
  assumes ok: "buffer_ok b" and cur: "m_curBit b = 8 * length xs" and d: "m_data b = xs @ frame s @ ys" and s: "length s < 65535"
  shows "read_str b = Some (s, b\<lparr>m_curBit := 8 * (length xs + length s + 3)\<rparr>)"
proof -
  let ?w = "of_nat (length s + 1) :: u32"
  let ?b1 = "b\<lparr>m_curBit := 8 * (length xs + 2)\<rparr>" and ?b2 = "b\<lparr>m_curBit := 8 * (length xs + 2 + length s)\<rparr>"
  have two: "8 * 2 = (16 :: nat)" "8 * 1 = (8 :: nat)" by simp_all
  have "ReadBitsSingle False 16 b = Some (Some (take_bit 16 ?w), ?b1)"
    using Read_aligned [OF ok, of 2 xs ?w "s @ [0] @ ys"] cur d unfolding two by (simp add: frame_def)
  moreover have len: "unat (ucast (take_bit 16 ?w) :: u16) = length s + 1"
    using s by (intro u16_length_read) simp
  moreover have "ReadBits_bytes (length s) ?b1 = (Some s, ?b2)"
    using ok d by (auto simp: ReadBits_bytes_def buffer_ok_def frame_def)
  moreover have "ReadBitsSingle False 8 ?b2 = Some (Some (take_bit 8 0), b\<lparr>m_curBit := 8 * (length xs + 2 + length s + 1)\<rparr>)"
    using Read_aligned [of ?b2 1 "xs @ be_enc 2 ?w @ s" 0 ys] ok d unfolding two
    by (simp add: buffer_ok_def frame_def be_enc_def add.commute add.left_commute)
  ultimately show ?thesis
    by (simp add: read_str_def Read_out_def Read_def add.commute add.left_commute numeral_3_eq_3)
qed

subsection \<open>Packets of version 1\<close>

definition bag_frame :: "u8 list \<Rightarrow> u8 list \<Rightarrow> u8 list \<Rightarrow> u8 list" where
  "bag_frame i k v = frame i @ frame k @ v"

definition bag_fits :: "u8 list \<Rightarrow> u8 list \<Rightarrow> u8 list \<Rightarrow> bool" where
  "bag_fits i k v \<longleftrightarrow> i \<noteq> [] \<and> k \<noteq> [] \<and> v \<noteq> [] \<and> length i < 65535 \<and> length k < 65535 \<and> length (bag_frame i k v) \<le> 131072"

lemma parse_bag_frame:
  assumes "i \<noteq> []" "k \<noteq> []" "length i < 65535" "length k < 65535"
  shows "parse_bag_packet (bag_frame i k v) = Some (if v = [] then None else Some (i, k, v))"
proof -
  let ?b = "MessageBuffer_make (bag_frame i k v)"
  let ?b1 = "?b\<lparr>m_curBit := 8 * (length i + 3)\<rparr>" and ?b2 = "?b\<lparr>m_curBit := 8 * (length i + 3 + length k + 3)\<rparr>"
  have r1: "read_str ?b = Some (i, ?b1)"
    using read_str_frame [of ?b "[]" i "frame k @ v"] assms(3) by (simp add: MessageBuffer_make_def buffer_ok_def bag_frame_def)
  have r2: "read_str ?b1 = Some (k, ?b2)"
    using read_str_frame [of ?b1 "frame i" k v] assms(4)
    by (simp add: MessageBuffer_make_def buffer_ok_def bag_frame_def)
  have l: "length (bag_frame i k v) = length i + 3 + length k + 3 + length v" by (simp add: bag_frame_def)
  have d: "drop (length i + 3 + length k + 3) (bag_frame i k v) = v"
    using length_frame by (simp add: bag_frame_def)
  have m: "m_data ?b2 = bag_frame i k v" "m_curBit ?b2 = 8 * (length i + 3 + length k + 3)"
      "m_maxBit ?b2 = 8 * length (bag_frame i k v)" by (simp_all add: MessageBuffer_make_def)
  have e: "IsAtEnd ?b2 \<longleftrightarrow> v = []" unfolding IsAtEnd_def m by (simp add: l)
  have n: "length (bag_frame i k v) * 8 - 8 * (length i + 3 + length k + 3) = 8 * length v" by (simp add: l)
  have "ReadBits_bytes (length v) ?b2 = (Some v, ?b2\<lparr>m_curBit := 8 * (length i + 3 + length k + 3) + length v * 8\<rparr>)" if "v \<noteq> []"
    using d l that unfolding ReadBits_bytes_def m by simp
  then show ?thesis
    using assms unfolding parse_bag_packet_def r1 option.case prod.case r2 e m n by (simp add: Let_def)
qed

text \<open>Whatever the bytes, parsing stays inside the buffer, and a message that is returned has no empty part.\<close>

lemma ReadBitsSingle_total:
  assumes "buffer_ok b" "1 \<le> n" "n \<le> 32" "n \<noteq> 13"
  shows "\<exists>v. ReadBitsSingle False n b = Some (v, b\<lparr>m_curBit := m_curBit b + n\<rparr>)"
proof (cases "m_curBit b + n \<le> m_maxBit b")
  case True
  have "hack_length False n = n" by (simp add: hack_length_def)
  then obtain v where "ReadBitsSingle False n b = Some (Some v, b\<lparr>m_curBit := m_curBit b + n\<rparr>)"
    using ReadBitsSingle_bits [OF assms(1-3) _ True] by metis
  then show ?thesis by blast
next
  case False
  then show ?thesis by (simp add: ReadBitsSingle_def Let_def hack_length_def)
qed

lemma ReadBits_bytes_ok: "buffer_ok b \<Longrightarrow> ReadBits_bytes n b = (bs, b') \<Longrightarrow> buffer_ok b' \<and> (\<forall>xs. bs = Some xs \<longrightarrow> m_curBit b mod 8 = 0 \<longrightarrow> length xs = n)"
  by (auto simp: ReadBits_bytes_def buffer_ok_def split: if_splits)

lemma read_str_total:
  assumes "buffer_ok b"
  shows "\<exists>s b'. read_str b = Some (s, b') \<and> buffer_ok b'"
proof -
  obtain v where v: "ReadBitsSingle False 16 b = Some (v, b\<lparr>m_curBit := m_curBit b + 16\<rparr>)"
    using ReadBitsSingle_total [OF assms, of 16] by auto
  let ?b = "b\<lparr>m_curBit := m_curBit b + 16\<rparr>"
  have ok: "buffer_ok ?b" using assms by (simp add: buffer_ok_def)
  obtain fl w where ro: "Read_out False 16 b = Some (fl, w, ?b)" using v by (cases v) (auto simp: Read_out_def)
  define n where "n = unat (ucast w :: u16)"
  obtain bs b1 where r: "ReadBits_bytes (n - 1) ?b = (bs, b1)" by force
  have ok1: "buffer_ok b1" using ReadBits_bytes_ok [OF ok r] by simp
  obtain v' where v': "ReadBitsSingle False 8 b1 = Some (v', b1\<lparr>m_curBit := m_curBit b1 + 8\<rparr>)"
    using ReadBitsSingle_total [OF ok1, of 8] by auto
  have ok2: "buffer_ok (b1\<lparr>m_curBit := m_curBit b1 + 8\<rparr>)" using ok1 by (simp add: buffer_ok_def)
  show ?thesis
  proof (cases "n = 0")
    case True
    then have "read_str b = Some ([], ?b)" by (simp add: read_str_def ro Let_def n_def [symmetric])
    then show ?thesis using ok by blast
  next
    case False
    then have "read_str b = Some (case bs of Some bs \<Rightarrow> bs | None \<Rightarrow> replicate (n - 1) 0, b1\<lparr>m_curBit := m_curBit b1 + 8\<rparr>)"
      using r v' by (simp add: read_str_def ro Let_def n_def [symmetric] Read_def split: option.splits)
    then show ?thesis using ok2 by blast
  qed
qed

lemma parse_bag_packet_total:
  "\<exists>m. parse_bag_packet d = Some m \<and> (\<forall>i k v. m = Some (i, k, v) \<longrightarrow> i \<noteq> [] \<and> k \<noteq> [] \<and> v \<noteq> [])"
proof -
  have ok: "buffer_ok (MessageBuffer_make d)" by (simp add: buffer_ok_def MessageBuffer_make_def)
  obtain i b1 where r1: "read_str (MessageBuffer_make d) = Some (i, b1)" "buffer_ok b1" using read_str_total [OF ok] by blast
  obtain k b2 where r2: "read_str b1 = Some (k, b2)" "buffer_ok b2" using read_str_total [OF r1(2)] by blast
  define n where "n = (length (m_data b2) * 8 - m_curBit b2 + 7) div 8"
  obtain bs b3 where r3: "ReadBits_bytes n b2 = (bs, b3)" by force
  define v where "v = (case bs of Some bs \<Rightarrow> bs | None \<Rightarrow> replicate n 0)"
  have "v \<noteq> []" if "\<not> IsAtEnd b2"
  proof -
    have l: "m_curBit b2 < length (m_data b2) * 8" using that r2(2) by (simp add: IsAtEnd_def buffer_ok_def)
    then have "0 < n" by (simp add: n_def)
    moreover have "m_curBit b2 div 8 < length (m_data b2)" using l by (simp add: less_mult_imp_div_less)
    ultimately show ?thesis using r3 by (auto simp: v_def ReadBits_bytes_def split: if_splits)
  qed
  moreover have "parse_bag_packet d = Some (if i = [] \<or> k = [] \<or> IsAtEnd b2 \<or> length (m_data b2) * 8 - m_curBit b2 = 0 then None
      else Some (i, k, v))"
    unfolding parse_bag_packet_def r1(1) option.case prod.case r2(1) Let_def n_def [symmetric] r3 v_def by simp
  ultimately show ?thesis by auto
qed

end
