(* ===== verification/StateBagLaws.thy ===== *)
theory StateBagLaws
  imports StateBagWire
begin

text \<open>
  What the operations on one bag do: the packets they send, as a list that is added to the log, and the
  change of the data as an update of a map. \<open>bag_wire\<close> is the contract between the side that writes
  packets and the side that reads them, interpreted on both packet formats.
\<close>

subsection \<open>Packets\<close>

definition encode_packet :: "StateBagRole \<Rightarrow> u8 list \<Rightarrow> u8 list \<Rightarrow> u8 list \<Rightarrow> bag_packet" where
  "encode_packet role i k v =
     (if role = Role_ClientV2 then BagPacketV2 (StateBagV2Packet_init\<lparr>pdata := StateBagV2.make i k v\<rparr>)
      else BagPacket (StateBagPacket_init\<lparr>pdata := StateBag.make (bag_frame i k v)\<rparr>))"

text \<open>What a receiver reads from a packet.\<close>

definition decode_packet :: "bag_packet \<Rightarrow> (u8 list \<times> u8 list \<times> u8 list) option" where
  "decode_packet p =
     (case p of
        BagPacket p \<Rightarrow> (case parse_bag_packet (StateBag.data (pdata p)) of None \<Rightarrow> None | Some m \<Rightarrow> m)
      | BagPacketV2 p \<Rightarrow>
          let m = pdata p in
          if StateBagV2.stateBagName m = [] \<or> StateBagV2.key m = [] \<or> StateBagV2.data m = [] then None
          else Some (StateBagV2.stateBagName m, StateBagV2.key m, StateBagV2.data m))"

text \<open>The key and value in a packet about the bag \<open>i\<close>.\<close>

definition update_in :: "('p \<Rightarrow> (u8 list \<times> u8 list \<times> u8 list) option) \<Rightarrow> u8 list \<Rightarrow> 'p \<Rightarrow> (u8 list \<times> u8 list) option" where
  "update_in decode i p = (case decode p of Some (j, k, v) \<Rightarrow> if j = i then Some (k, v) else None | None \<Rightarrow> None)"

locale bag_wire =
  fixes encode :: "u8 list \<Rightarrow> u8 list \<Rightarrow> u8 list \<Rightarrow> 'p"
    and decode :: "'p \<Rightarrow> (u8 list \<times> u8 list \<times> u8 list) option"
    and fits :: "u8 list \<Rightarrow> u8 list \<Rightarrow> u8 list \<Rightarrow> bool"
  assumes decode_encode: "fits i k v \<Longrightarrow> decode (encode i k v) = Some (i, k, v)"
begin

lemma update_in_encode: "fits i k v \<Longrightarrow> update_in decode j (encode i k v) = (if i = j then Some (k, v) else None)"
  by (simp add: update_in_def decode_encode)

lemma updates_received:
  "\<forall>(k, v)\<in>set us. fits i k v \<Longrightarrow> List.map_filter (update_in decode i) (map (\<lambda>(k, v). encode i k v) us) = us"
  by (induction us) (auto simp: map_filter_simps update_in_encode)

lemma updates_foreign:
  "\<forall>(k, v)\<in>set us. fits i k v \<Longrightarrow> i \<noteq> j \<Longrightarrow> List.map_filter (update_in decode j) (map (\<lambda>(k, v). encode i k v) us) = []"
  by (induction us) (auto simp: map_filter_simps update_in_encode)

end

interpretation wire: bag_wire "encode_packet role" decode_packet bag_fits for role
  by unfold_locales
    (auto simp: encode_packet_def decode_packet_def bag_fits_def parse_bag_frame StateBag.defs StateBagV2.defs)

text \<open>The updates of bag \<open>i\<close> in what was sent to peer \<open>t\<close>.\<close>

definition sent_updates :: "int \<Rightarrow> u8 list \<Rightarrow> (int \<times> bag_packet) list \<Rightarrow> (u8 list \<times> u8 list) list" where
  "sent_updates t i sent = List.map_filter (update_in decode_packet i) (map snd (filter (\<lambda>(u, _). u = t) sent))"

lemma map_filter_append: "List.map_filter f (xs @ ys) = List.map_filter f xs @ List.map_filter f ys"
  by (simp add: map_filter_def)

lemma sent_updates_append [simp]: "sent_updates t i (xs @ ys) = sent_updates t i xs @ sent_updates t i ys"
  by (simp add: sent_updates_def map_filter_append)

lemma sent_updates_Nil [simp]: "sent_updates t i [] = []"
  by (simp add: sent_updates_def map_filter_simps)

lemma sent_updates_other: "t \<notin> fst ` set out \<Longrightarrow> sent_updates t i out = []"
  by (induction out) (auto simp: sent_updates_def map_filter_simps)

lemma sent_updates_packet:
  "bag_fits j k v \<Longrightarrow> sent_updates t i [(u, encode_packet role j k v)] = (if u = t \<and> i = j then [(k, v)] else [])"
  by (simp add: sent_updates_def map_filter_simps wire.update_in_encode)

subsection \<open>Sending\<close>

definition buffer_ready :: "state_bags \<Rightarrow> bool" where
  "buffer_ready st \<longleftrightarrow> buffer_ok (dataBuffer st) \<and> length (m_data (dataBuffer st)) = 131072"

definition sends :: "state_bags \<Rightarrow> state_bags \<Rightarrow> (int \<times> bag_packet) list \<Rightarrow> bool" where
  "sends st st' out \<longleftrightarrow> buffer_ready st' \<and> (\<exists>b. st' = st\<lparr>dataBuffer := b, bagSent := bagSent st @ out\<rparr>)"

lemma sends_refl: "buffer_ready st \<Longrightarrow> sends st st []"
  unfolding sends_def by (intro conjI exI [of _ "dataBuffer st"]) simp_all

lemma sends_trans: "sends st st1 out1 \<Longrightarrow> sends st1 st2 out2 \<Longrightarrow> sends st st2 (out1 @ out2)"
  by (auto simp: sends_def)

lemma sends_keeps:
  assumes "sends st st' out"
  shows "m_role st' = m_role st" "m_bagTargets st' = m_bagTargets st" "m_erasureList st' = m_erasureList st"
    "m_stateBags st' = m_stateBags st" "m_preCreatePrefixes st' = m_preCreatePrefixes st"
    "m_preCreatedStateBags st' = m_preCreatedStateBags st" "bags st' = bags st" "nextBag st' = nextBag st"
    "holders st' = holders st" "bagTasks st' = bagTasks st" "bagSent st' = bagSent st @ out" "buffer_ready st'"
  using assms by (auto simp: sends_def)

text \<open>A string that has no room leaves the buffer as it is, and so does a length.\<close>

lemma Write_total:
  assumes "buffer_ok b" "m_curBit b mod 8 = 0" "0 < n" "n \<le> 4"
  shows "\<exists>b'. Write False (8 * n) v b = Some b' \<and> buffer_ok b' \<and> m_curBit b' mod 8 = 0 \<and> length (m_data b') = length (m_data b)"
proof -
  obtain p where p: "m_curBit b = 8 * p" using assms(2) by auto
  show ?thesis
  proof (cases "p + n \<le> length (m_data b)")
    case True
    then show ?thesis using Write_aligned [OF assms(1,3,4) p True, of v] assms(1) by (simp add: buffer_ok_def length_overwrite)
  next
    case False
    have "m_maxBit b < m_curBit b + 8 * n" using False p assms(1) by (simp add: buffer_ok_def)
    then have "WriteBitsSingle False v (8 * n) b = Some (False, b)" by (simp add: WriteBitsSingle_def Let_def hack_length_def)
    then show ?thesis using assms(1,2) by (simp add: Write_def)
  qed
qed

lemma WriteBits_total:
  assumes "buffer_ok b" "m_curBit b mod 8 = 0"
  shows "buffer_ok (WriteBits_bytes s b) \<and> m_curBit (WriteBits_bytes s b) mod 8 = 0
    \<and> length (m_data (WriteBits_bytes s b)) = length (m_data b)"
  using assms by (auto simp: WriteBits_bytes_def buffer_ok_def length_overwrite)

lemma write_str_total:
  assumes "buffer_ok b" "m_curBit b mod 8 = 0"
  shows "\<exists>b'. write_str s b = Some b' \<and> buffer_ok b' \<and> m_curBit b' mod 8 = 0 \<and> length (m_data b') = length (m_data b)"
proof -
  obtain b1 where b1: "Write False 16 (ucast (of_nat (length s + 1) :: u16)) b = Some b1" "buffer_ok b1"
      "m_curBit b1 mod 8 = 0" "length (m_data b1) = length (m_data b)"
    using Write_total [OF assms, of 2 "ucast (of_nat (length s + 1) :: u16)"] by auto
  note w = WriteBits_total [OF b1(2,3), of s]
  obtain b2 where "Write False 8 0 (WriteBits_bytes s b1) = Some b2" "buffer_ok b2" "m_curBit b2 mod 8 = 0"
      "length (m_data b2) = length (m_data (WriteBits_bytes s b1))"
    using Write_total [OF conjunct1 [OF w] conjunct1 [OF conjunct2 [OF w]], of 1 0] by auto
  then show ?thesis using b1 w unfolding write_str_def b1(1) by simp
qed

lemma SendKeyValue_sends:
  assumes ready: "buffer_ready st"
  obtains st' out where "SendKeyValue bag t k v st = Some st'" "sends st st' out" "fst ` set out \<subseteq> {t}"
    "bag_fits (m_bagId bag) k v \<Longrightarrow> out = [(t, encode_packet (m_role st) (m_bagId bag) k v)]"
proof (cases "k = [] \<or> v = []")
  case True
  then show ?thesis using sends_refl [OF ready] by (intro that [of st "[]"]) (auto simp: SendKeyValue_def bag_fits_def)
next
  case False
  show ?thesis
  proof (cases "m_role st = Role_ClientV2")
    case True
    let ?p = "(t, encode_packet (m_role st) (m_bagId bag) k v)"
    show ?thesis
    proof (rule that [of "st\<lparr>bagSent := bagSent st @ [?p]\<rparr>" "[?p]"])
      show "sends st (st\<lparr>bagSent := bagSent st @ [?p]\<rparr>) [?p]"
        unfolding sends_def using ready by (intro conjI exI [of _ "dataBuffer st"]) (simp_all add: buffer_ready_def)
    qed (use True False in \<open>simp_all add: SendKeyValue_def encode_packet_def QueueSend_def\<close>)
  next
    case v1: False
    let ?i = "m_bagId bag" and ?b0 = "SetCurrentBit 0 (dataBuffer st)"
    have ok: "buffer_ok ?b0" "m_curBit ?b0 mod 8 = 0" "length (m_data ?b0) = 131072"
      using ready by (simp_all add: buffer_ready_def SetCurrentBit_def buffer_ok_def)
    obtain b1 where b1: "write_str ?i ?b0 = Some b1" "buffer_ok b1" "m_curBit b1 mod 8 = 0" "length (m_data b1) = 131072"
      using write_str_total [OF ok(1,2), of ?i] ok(3) by auto
    obtain b2 where b2: "write_str k b1 = Some b2" "buffer_ok b2" "m_curBit b2 mod 8 = 0" "length (m_data b2) = 131072"
      using write_str_total [OF b1(2,3), of k] b1(4) by auto
    let ?b3 = "WriteBits_bytes v b2"
    let ?p = "(t, BagPacket (StateBagPacket_init\<lparr>pdata := StateBag.make (take (m_curBit ?b3 div 8) (m_data ?b3))\<rparr>))"
    let ?st = "st\<lparr>dataBuffer := ?b3, bagSent := bagSent st @ [?p]\<rparr>"
    show ?thesis
    proof (rule that [of ?st "[?p]"])
      show "SendKeyValue bag t k v st = Some ?st"
        using False v1 b1(1) b2(1) by (simp add: SendKeyValue_def QueueSend_def Let_def)
      show "sends st ?st [?p]"
        using WriteBits_total [OF b2(2,3), of v] b2(4) by (auto simp: sends_def buffer_ready_def)
    next
      assume fits: "bag_fits ?i k v"
      then have l: "length ?i + 3 + length k + 3 + length v \<le> 131072" "length ?i < 65535" "length k < 65535"
        by (simp_all add: bag_fits_def bag_frame_def)
      have f0: "filled ?b0 []" using ready by (intro filled_start) (simp add: buffer_ready_def)
      obtain c1 where "write_str ?i ?b0 = Some c1" "filled c1 ([] @ frame ?i)" "length (m_data c1) = length (m_data ?b0)"
        by (rule filled_write_str [OF f0, of ?i]) (use l ok(3) in auto)
      then have f1: "filled b1 (frame ?i)" using b1(1) by simp
      obtain c2 where "write_str k b1 = Some c2" "filled c2 (frame ?i @ frame k)" "length (m_data c2) = length (m_data b1)"
        by (rule filled_write_str [OF f1, of k]) (use l b1(4) in auto)
      then have f2: "filled b2 (frame ?i @ frame k)" using b2(1) by simp
      have "filled ?b3 ((frame ?i @ frame k) @ v)"
        by (rule filled_WriteBits [OF f2]) (use l b2(4) in simp)
      then have "take (m_curBit ?b3 div 8) (m_data ?b3) = bag_frame ?i k v"
        by (simp add: filled_def bag_frame_def)
      then show "[?p] = [(t, encode_packet (m_role st) ?i k v)]" using v1 by (simp add: encode_packet_def)
    qed simp
  qed
qed

text \<open>The updates in a list of packets, by peer and bag.\<close>

definition conveys :: "(int \<times> bag_packet) list \<Rightarrow> (int \<Rightarrow> u8 list \<Rightarrow> (u8 list \<times> u8 list) list) \<Rightarrow> bool" where
  "conveys out f \<longleftrightarrow> (\<forall>t i. sent_updates t i out = f t i)"

lemma conveys_Nil [simp]: "conveys [] (\<lambda>_ _. [])"
  by (simp add: conveys_def)

lemma SendKeyValue_conveys:
  assumes "buffer_ready st"
  shows "\<exists>st' out. SendKeyValue bag t k v st = Some st' \<and> sends st st' out
    \<and> (bag_fits (m_bagId bag) k v \<longrightarrow> conveys out (\<lambda>u i. if u = t \<and> i = m_bagId bag then [(k, v)] else []))"
proof (rule SendKeyValue_sends [OF assms, of bag t k v])
  fix st' out
  assume "SendKeyValue bag t k v st = Some st'" "sends st st' out"
    and out: "bag_fits (m_bagId bag) k v \<Longrightarrow> out = [(t, encode_packet (m_role st) (m_bagId bag) k v)]"
  moreover have "conveys out (\<lambda>u i. if u = t \<and> i = m_bagId bag then [(k, v)] else [])" if "bag_fits (m_bagId bag) k v"
    using sent_updates_packet [OF that] unfolding out [OF that] conveys_def by auto
  ultimately show ?thesis by blast
qed

text \<open>A loop that only sends.\<close>

lemma handle_all_sends:
  assumes "buffer_ready st"
    and "\<And>x st. x \<in> set xs \<Longrightarrow> buffer_ready st \<Longrightarrow> m_bagTargets st = tg \<Longrightarrow> bags st = bs \<Longrightarrow>
      \<exists>st' out. h x st = Some st' \<and> sends st st' out \<and> (P x \<longrightarrow> conveys out (f x))"
    and "m_bagTargets st = tg" "bags st = bs"
  shows "\<exists>st' out. handle_all h xs st = Some st' \<and> sends st st' out
    \<and> ((\<forall>x\<in>set xs. P x) \<longrightarrow> conveys out (\<lambda>t i. concat (map (\<lambda>x. f x t i) xs)))"
  using assms
proof (induction xs arbitrary: st)
  case Nil
  then show ?case using sends_refl by fastforce
next
  case (Cons x xs)
  obtain st1 out1 where 1: "h x st = Some st1" "sends st st1 out1" "P x \<longrightarrow> conveys out1 (f x)"
    using Cons.prems(2) [of x st] Cons.prems(1,3,4) by auto
  obtain st2 out2 where 2: "handle_all h xs st1 = Some st2" "sends st1 st2 out2"
      "(\<forall>x\<in>set xs. P x) \<longrightarrow> conveys out2 (\<lambda>t i. concat (map (\<lambda>x. f x t i) xs))"
    using Cons.IH [of st1] Cons.prems sends_keeps [OF 1(2)] by auto
  show ?case
    using 1 2 sends_trans [OF 1(2) 2(2)]
    by (intro exI [of _ st2] exI [of _ "out1 @ out2"]) (auto simp: conveys_def)
qed

lemma concat_if_single: "distinct xs \<Longrightarrow> concat (map (\<lambda>x. if u = x \<and> Q then ys else []) xs) = (if u \<in> set xs \<and> Q then ys else [])"
  by (induction xs) auto

lemma concat_pairs: "concat (map (\<lambda>x. if Q then [x] else []) xs) = (if Q then xs else [])"
  by (induction xs) auto

definition bag_data_fits :: "state_bag \<Rightarrow> bool" where
  "bag_data_fits bag \<longleftrightarrow> (\<forall>(k, v)\<in>set (m_bagData bag) \<union> set (m_replicateData bag). bag_fits (m_bagId bag) k v)"

lemma SendAll_conveys:
  assumes "buffer_ready st"
  shows "\<exists>st' out. SendAll bag t st = Some st' \<and> sends st st' out
    \<and> (bag_data_fits bag \<longrightarrow> conveys out (\<lambda>u i. if u = t \<and> i = m_bagId bag then m_bagData bag else []))"
proof -
  have "\<exists>st' out. (\<lambda>(k, v). SendKeyValue bag t k v) x st = Some st' \<and> sends st st' out
      \<and> (bag_fits (m_bagId bag) (fst x) (snd x) \<longrightarrow> conveys out (\<lambda>u i. if u = t \<and> i = m_bagId bag then [x] else []))"
    if "buffer_ready st" for x st
    using SendKeyValue_conveys [OF that, of bag t "fst x" "snd x"] unfolding prod.collapse by (simp only: case_prod_unfold)
  note step = this
  have "\<exists>st' out. handle_all (\<lambda>(k, v). SendKeyValue bag t k v) (m_bagData bag) st = Some st' \<and> sends st st' out
      \<and> ((\<forall>x\<in>set (m_bagData bag). bag_fits (m_bagId bag) (fst x) (snd x)) \<longrightarrow>
         conveys out (\<lambda>u i. concat (map (\<lambda>x. if u = t \<and> i = m_bagId bag then [x] else []) (m_bagData bag))))"
    by (rule handle_all_sends [OF assms step refl refl])
  then obtain st' out where "SendAll bag t st = Some st'" "sends st st' out"
    "(\<forall>x\<in>set (m_bagData bag). bag_fits (m_bagId bag) (fst x) (snd x)) \<longrightarrow>
       conveys out (\<lambda>u i. if u = t \<and> i = m_bagId bag then m_bagData bag else [])"
    by (auto simp: SendAll_def concat_pairs)
  then show ?thesis by (fastforce simp: bag_data_fits_def)
qed

lemma SendAllInitial_conveys:
  assumes "buffer_ready st"
  shows "\<exists>st' out. SendAllInitial bag t st = Some st' \<and> sends st st' out
    \<and> (bag_data_fits bag \<longrightarrow> conveys out (\<lambda>u i. if u = t \<and> i = m_bagId bag
         \<and> (m_routingTargets bag = [] \<or> t \<in> set (m_routingTargets bag)) then m_bagData bag else []))"
proof (cases "m_routingTargets bag \<noteq> [] \<and> t \<notin> set (m_routingTargets bag)")
  case True
  then show ?thesis using sends_refl [OF assms] by (intro exI [of _ st] exI [of _ "[]"]) (simp add: SendAllInitial_def)
next
  case False
  then have "SendAllInitial bag t st = SendAll bag t st" by (auto simp: SendAllInitial_def)
  with False SendAll_conveys [OF assms, of bag t] show ?thesis by auto
qed

abbreviation update_targets :: "state_bag \<Rightarrow> state_bags \<Rightarrow> int list" where
  "update_targets bag st \<equiv> if m_useParentTargets bag then m_bagTargets st else m_routingTargets bag"

lemma SendKeyValueToAllTargets_conveys:
  assumes "buffer_ready st" "distinct (update_targets bag st)"
  shows "\<exists>st' out. SendKeyValueToAllTargets bag k v st = Some st' \<and> sends st st' out
    \<and> (bag_fits (m_bagId bag) k v \<longrightarrow>
       conveys out (\<lambda>u i. if u \<in> set (update_targets bag st) \<and> i = m_bagId bag then [(k, v)] else []))"
proof -
  define ts where "ts = update_targets bag st"
  have step: "\<exists>st' out. SendKeyValue bag t k v st = Some st' \<and> sends st st' out
      \<and> (bag_fits (m_bagId bag) k v \<longrightarrow> conveys out (\<lambda>u i. if u = t \<and> i = m_bagId bag then [(k, v)] else []))"
    if "buffer_ready st" for t st
    by (rule SendKeyValue_conveys [OF that])
  have "\<exists>st' out. handle_all (\<lambda>t. SendKeyValue bag t k v) ts st = Some st' \<and> sends st st' out
      \<and> ((\<forall>x\<in>set ts. bag_fits (m_bagId bag) k v) \<longrightarrow>
         conveys out (\<lambda>u i. concat (map (\<lambda>t. if u = t \<and> i = m_bagId bag then [(k, v)] else []) ts)))"
    by (rule handle_all_sends [OF assms(1) step refl refl])
  then obtain st' out where "handle_all (\<lambda>t. SendKeyValue bag t k v) ts st = Some st'" "sends st st' out"
    "(\<forall>x\<in>set ts. bag_fits (m_bagId bag) k v) \<longrightarrow>
       conveys out (\<lambda>u i. concat (map (\<lambda>t. if u = t \<and> i = m_bagId bag then [(k, v)] else []) ts))"
    by blast
  moreover have "distinct ts" using assms(2) by (simp only: ts_def)
  ultimately show ?thesis unfolding SendKeyValueToAllTargets_def ts_def [symmetric]
    by (auto simp: concat_if_single)
qed

subsection \<open>Changing a key\<close>

text \<open>An update of a map, with nil as the removal.\<close>

fun apply_update :: "u8 list \<times> u8 list \<Rightarrow> (u8 list \<rightharpoonup> u8 list) \<Rightarrow> (u8 list \<rightharpoonup> u8 list)" where
  "apply_update (k, v) m = (if hd v = MsgPackNil then m(k := None) else m(k \<mapsto> v))"

definition bag_ok :: "state_bag \<Rightarrow> bool" where
  "bag_ok bag \<longleftrightarrow> map_ok (m_bagData bag) \<and> (\<forall>(k, v)\<in>set (m_bagData bag). v \<noteq> [] \<and> hd v \<noteq> MsgPackNil)
     \<and> sorted_wrt (<) (m_routingTargets bag)"

lemma map_ok_filter: "map_ok xs \<Longrightarrow> map_ok (filter P xs)"
  by (induction xs) auto

lemma map_of_filter_key: "map_of (filter (\<lambda>(l, _). l \<noteq> k) xs) = (map_of xs)(k := None)"
  by (induction xs) auto

lemma set_map_put: "set (map_put k v xs) \<subseteq> insert (k, v) (set xs)"
  by (induction k v xs rule: map_put.induct) auto

lemma store_key_spec:
  assumes "bag_ok bag" "v \<noteq> []"
  shows "\<exists>d. map_of d = apply_update (k, v) (map_of (m_bagData bag)) \<and> bag_ok (bag\<lparr>m_bagData := d\<rparr>) \<and> set d \<subseteq> insert (k, v) (set (m_bagData bag))
    \<and> (case store_key k v replicated bag of
         None \<Rightarrow> d = m_bagData bag
       | Some (bag', replicated') \<Rightarrow> bag' = bag\<lparr>m_bagData := d\<rparr> \<and>
           (replicated' \<longleftrightarrow> replicated \<and> map_of d \<noteq> map_of (m_bagData bag)))"
proof -
  have ok: "map_ok (m_bagData bag)" using assms(1) by (simp add: bag_ok_def)
  have same: "m(k := m k) = m" for m :: "u8 list \<rightharpoonup> u8 list" by simp
  show ?thesis
  proof (cases "map_of (m_bagData bag) k")
    case None
    show ?thesis
    proof (cases "hd v = MsgPackNil")
      case True
      then show ?thesis using assms ok None by (intro exI [of _ "m_bagData bag"]) (auto simp: store_key_def fun_eq_iff)
    next
      case False
      have "(map_of (m_bagData bag))(k \<mapsto> v) \<noteq> map_of (m_bagData bag)" using None by (metis fun_upd_same option.distinct(1))
      then show ?thesis using assms None False ok set_map_put [of k v]
        by (intro exI [of _ "map_put k v (m_bagData bag)"])
          (fastforce simp: store_key_def Let_def bag_ok_def map_ok_put map_of_put)
    qed
  next
    case (Some old)
    show ?thesis
    proof (cases "hd v = MsgPackNil")
      case True
      have "(map_of (m_bagData bag))(k := None) \<noteq> map_of (m_bagData bag)" using Some by (metis fun_upd_same option.distinct(1))
      then show ?thesis using assms Some True ok
        by (intro exI [of _ "filter (\<lambda>(l, _). l \<noteq> k) (m_bagData bag)"])
          (auto simp: store_key_def Let_def bag_ok_def map_ok_filter map_of_filter_key)
    next
      case nonnil: False
      show ?thesis
      proof (cases "v = old")
        case True
        then have "(map_of (m_bagData bag))(k \<mapsto> v) = map_of (m_bagData bag)" using Some by auto
        then show ?thesis using assms ok Some True nonnil by (intro exI [of _ "m_bagData bag"]) (auto simp: store_key_def Let_def)
      next
        case False
        have "(map_of (m_bagData bag))(k \<mapsto> v) \<noteq> map_of (m_bagData bag)" using Some False by (metis fun_upd_same option.inject)
        then show ?thesis using assms Some False nonnil ok set_map_put [of k v]
          by (intro exI [of _ "map_put k v (m_bagData bag)"])
            (fastforce simp: store_key_def Let_def bag_ok_def map_ok_put map_of_put)
      qed
    qed
  qed
qed

text \<open>\<open>bags_set st r bag st' out\<close>: the bag \<open>r\<close> is replaced and packets are sent, nothing else.\<close>

definition bags_set :: "state_bags \<Rightarrow> bag_ref \<Rightarrow> state_bag \<Rightarrow> state_bags \<Rightarrow> (int \<times> bag_packet) list \<Rightarrow> bool" where
  "bags_set st r bag st' out \<longleftrightarrow> sends (st\<lparr>bags := (bags st)(r \<mapsto> bag)\<rparr>) st' out"

lemma bags_set_keeps:
  assumes "bags_set st r bag st' out"
  shows "m_role st' = m_role st" "m_bagTargets st' = m_bagTargets st" "m_erasureList st' = m_erasureList st"
    "m_stateBags st' = m_stateBags st" "m_preCreatePrefixes st' = m_preCreatePrefixes st"
    "m_preCreatedStateBags st' = m_preCreatedStateBags st" "bags st' = (bags st)(r \<mapsto> bag)" "nextBag st' = nextBag st"
    "holders st' = holders st" "bagTasks st' = bagTasks st" "bagSent st' = bagSent st @ out" "buffer_ready st'"
  using sends_keeps [OF assms [unfolded bags_set_def]] by simp_all

lemma SetKeyInternal_spec:
  assumes bag: "bags st r = Some bag" and v: "v \<noteq> []" and ready: "buffer_ready st" and ok: "bag_ok bag" "distinct (m_bagTargets st)"
  shows "\<exists>st' d q out. SetKeyInternal r k v replicated st = Some st'
    \<and> bags_set st r (bag\<lparr>m_bagData := d, m_replicateData := q\<rparr>) st' out
    \<and> map_of d = apply_update (k, v) (map_of (m_bagData bag)) \<and> bag_ok (bag\<lparr>m_bagData := d\<rparr>) \<and> set d \<subseteq> insert (k, v) (set (m_bagData bag))
    \<and> (let update = (replicated \<and> map_of d \<noteq> map_of (m_bagData bag)) in
       q = (if update \<and> \<not> m_replicationEnabled bag then m_replicateData (queue_update k v bag) else m_replicateData bag)
       \<and> (bag_fits (m_bagId bag) k v \<longrightarrow> conveys out (\<lambda>u i. if update \<and> m_replicationEnabled bag
            \<and> u \<in> set (update_targets bag st) \<and> i = m_bagId bag then [(k, v)] else [])))"
proof -
  obtain d where d: "map_of d = apply_update (k, v) (map_of (m_bagData bag))" "bag_ok (bag\<lparr>m_bagData := d\<rparr>)" "set d \<subseteq> insert (k, v) (set (m_bagData bag))"
    and stored: "case store_key k v replicated bag of None \<Rightarrow> d = m_bagData bag
       | Some (bag', replicated') \<Rightarrow> bag' = bag\<lparr>m_bagData := d\<rparr> \<and> (replicated' \<longleftrightarrow> replicated \<and> map_of d \<noteq> map_of (m_bagData bag))"
    using store_key_spec [OF ok(1) v] by blast
  define update where "update \<longleftrightarrow> replicated \<and> map_of d \<noteq> map_of (m_bagData bag)"
  let ?new = "bag\<lparr>m_bagData := d\<rparr>" and ?same = "bag\<lparr>m_bagData := d, m_replicateData := m_replicateData bag\<rparr>"
  let ?st = "st\<lparr>bags := (bags st)(r \<mapsto> ?new)\<rparr>"
  have ready': "buffer_ready ?st" using ready by (simp add: buffer_ready_def)
  have quiet: ?thesis if "SetKeyInternal r k v replicated st = Some ?st" "\<not> update"
    using that d sends_refl [OF ready'] unfolding update_def bags_set_def
    by (intro exI [of _ ?st] exI [of _ d] exI [of _ "m_replicateData bag"] exI [of _ "[]"]) (auto simp: Let_def)
  show ?thesis
  proof (cases "store_key k v replicated bag")
    case None
    then have "d = m_bagData bag" using stored by simp
    then have "?st = st" using bag by (simp add: fun_upd_idem)
    then show ?thesis using None bag v \<open>d = m_bagData bag\<close> by (intro quiet) (simp_all add: SetKeyInternal_def update_def)
  next
    case (Some x)
    then have key: "store_key k v replicated bag = Some (?new, update)" using stored by (auto simp: update_def)
    show ?thesis
    proof (cases update)
      case False
      then show ?thesis using key bag v by (intro quiet) (simp_all add: SetKeyInternal_def Let_def)
    next
      case True
      show ?thesis
      proof (cases "m_replicationEnabled bag")
        case False
        let ?q = "m_replicateData (queue_update k v bag)"
        let ?st' = "st\<lparr>bags := (bags st)(r \<mapsto> bag\<lparr>m_bagData := d, m_replicateData := ?q\<rparr>)\<rparr>"
        have "queue_update k v ?new = bag\<lparr>m_bagData := d, m_replicateData := ?q\<rparr>" by (simp add: queue_update_def)
        then have "SetKeyInternal r k v replicated st = Some ?st'"
          using key bag v True False by (simp add: SetKeyInternal_def Let_def update_bag_def)
        moreover have "buffer_ready ?st'" using ready by (simp add: buffer_ready_def)
        ultimately show ?thesis using d True False sends_refl [of ?st'] unfolding bags_set_def update_def
          by (intro exI [of _ ?st'] exI [of _ d] exI [of _ ?q] exI [of _ "[]"]) (auto simp: Let_def)
      next
        case enabled: True
        have tg: "update_targets ?new ?st = update_targets bag st" by simp
        have "distinct (update_targets bag st)" using ok by (auto simp: bag_ok_def strict_sorted_iff)
        from SendKeyValueToAllTargets_conveys [OF ready', of ?new k v, unfolded tg, OF this]
        obtain st' out where sent: "SendKeyValueToAllTargets ?new k v ?st = Some st'" "sends ?st st' out"
          "bag_fits (m_bagId bag) k v \<longrightarrow> conveys out (\<lambda>u i. if u \<in> set (update_targets bag st) \<and> i = m_bagId bag then [(k, v)] else [])"
          by auto
        have "SetKeyInternal r k v replicated st = Some st'"
          using key bag v True enabled sent(1) by (simp add: SetKeyInternal_def Let_def)
        then show ?thesis using d True enabled sent(2,3) unfolding bags_set_def update_def
          by (intro exI [of _ st'] exI [of _ d] exI [of _ "m_replicateData bag"] exI [of _ out]) (auto simp: Let_def)
      qed
    qed
  qed
qed

end
