(* ===== verification/StateBagSteps.thy ===== *)
theory StateBagSteps
  imports StateBagLaws
begin

text \<open>
  The state bag component as a state machine: its methods as calls, an invariant of the bags, their
  owners and their names, and its preservation by every call except \<open>Reset\<close>. A caller may only use a bag
  it holds; a call that breaks this rule, or that the C++ code leaves undefined, has no successor.
\<close>

datatype bag_call =
    Call_Register "u8 list" bool
  | Call_Get "u8 list"
  | Call_Release bag_ref
  | Call_SetKey bag_ref int "u8 list" "u8 list" bool
  | Call_SetOwner bag_ref "int option"
  | Call_Immediate bag_ref bool
  | Call_SendQueued bag_ref
  | Call_SetTargets bag_ref "int list"
  | Call_AddTarget bag_ref int
  | Call_RemoveTarget bag_ref int
  | Call_RegisterTarget int
  | Call_UnregisterTarget int
  | Call_AddPrefix "u8 list" bool
  | Call_Packet int "u8 list"
  | Call_PacketV2 int StateBagV2
  | Call_Tick
  | Call_Task
  | Call_SetRole StateBagRole
  | Call_Reset

abbreviation if_held :: "bag_ref \<Rightarrow> state_bags \<Rightarrow> state_bags option \<Rightarrow> state_bags option" where
  "if_held r st result \<equiv> if holders st r = 0 then None else result"

fun run_call :: "bag_env \<Rightarrow> bag_call \<Rightarrow> state_bags \<Rightarrow> state_bags option" where
  "run_call env (Call_Register i p) st = Some (snd (RegisterStateBag i p st))"
| "run_call env (Call_Get i) st = Some (snd (GetStateBag i st))"
| "run_call env (Call_Release r) st = if_held r st (Some (release_bag r st))"
| "run_call env (Call_SetKey r source k v replicated) st = if_held r st (SetKey env r source k v replicated st)"
| "run_call env (Call_SetOwner r peer) st = if_held r st (Some (SetOwningPeer r peer st))"
| "run_call env (Call_Immediate r enabled) st = if_held r st (Some (EnableImmediateReplication r enabled st))"
| "run_call env (Call_SendQueued r) st = if_held r st (SendQueuedUpdates r st)"
| "run_call env (Call_SetTargets r peers) st = if_held r st (if sorted_wrt (<) peers then SetRoutingTargets r peers st else None)"
| "run_call env (Call_AddTarget r peer) st = if_held r st (AddRoutingTarget r peer st)"
| "run_call env (Call_RemoveTarget r peer) st = if_held r st (Some (RemoveRoutingTarget r peer st))"
| "run_call env (Call_RegisterTarget t) st = bag_RegisterTarget t st"
| "run_call env (Call_UnregisterTarget t) st = Some (bag_UnregisterTarget t st)"
| "run_call env (Call_AddPrefix i p) st = Some (AddSafePreCreatePrefix i p st)"
| "run_call env (Call_Packet source bytes) st = map_option fst (bag_HandlePacket env source bytes st)"
| "run_call env (Call_PacketV2 source m) st = map_option fst (bag_HandlePacketV2 env source m st)"
| "run_call env Call_Tick st = Some (StateBags_OnTick st)"
| "run_call env Call_Task st = run_task env st"
| "run_call env (Call_SetRole role) st = Some (st\<lparr>m_role := role\<rparr>)"
| "run_call env Call_Reset st = Some (StateBags_Reset st)"

abbreviation run_calls :: "bag_env \<Rightarrow> bag_call list \<Rightarrow> state_bags \<Rightarrow> state_bags option" where
  "run_calls env \<equiv> handle_all (run_call env)"

subsection \<open>The invariant\<close>

text \<open>
  A live bag is found under its name, is not about to be erased and has an owner; owners refer to live
  bags only. The bags of \<open>R\<close> are exempt from having an owner, in the middle of a call.
\<close>

definition bags_inv :: "bag_ref set \<Rightarrow> state_bags \<Rightarrow> bool" where
  "bags_inv R st \<longleftrightarrow>
     (\<forall>r bag. bags st r = Some bag \<longrightarrow> map_of (m_stateBags st) (m_bagId bag) = Some r
        \<and> m_bagId bag \<notin> set (m_erasureList st) \<and> bag_ok bag \<and> (r \<in> R \<or> owned st r)) \<and>
     (\<forall>r. owned st r \<longrightarrow> bags st r \<noteq> None) \<and>
     (\<forall>i r. map_of (m_stateBags st) i = Some r \<longrightarrow> r < nextBag st \<and> (\<forall>bag. bags st r = Some bag \<longrightarrow> m_bagId bag = i)) \<and>
     (\<forall>r. nextBag st \<le> r \<longrightarrow> bags st r = None) \<and>
     distinct (m_bagTargets st) \<and> buffer_ready st \<and> (\<forall>task\<in>set (bagTasks st). taskData task \<noteq> [])"

lemma bags_invD:
  assumes "bags_inv R st"
  shows "bags st r = Some bag \<Longrightarrow> map_of (m_stateBags st) (m_bagId bag) = Some r"
    "bags st r = Some bag \<Longrightarrow> m_bagId bag \<notin> set (m_erasureList st)"
    "bags st r = Some bag \<Longrightarrow> bag_ok bag"
    "bags st r = Some bag \<Longrightarrow> r \<notin> R \<Longrightarrow> owned st r"
    "owned st r \<Longrightarrow> bags st r \<noteq> None"
    "map_of (m_stateBags st) i = Some r \<Longrightarrow> r < nextBag st"
    "map_of (m_stateBags st) i = Some r \<Longrightarrow> bags st r = Some bag \<Longrightarrow> m_bagId bag = i"
    "nextBag st \<le> r \<Longrightarrow> bags st r = None"
    "distinct (m_bagTargets st)" "buffer_ready st" "task \<in> set (bagTasks st) \<Longrightarrow> taskData task \<noteq> []"
  using assms by (auto simp: bags_inv_def)

lemma bags_inv_start: "bags_inv {} (StateBags_make role)"
  by (auto simp: bags_inv_def StateBags_make_def owned_def buffer_ready_def buffer_ok_def MessageBuffer_sized_def)

lemma lock_bag_live:
  assumes "bags_inv R st" "bags st r = Some bag"
  shows "lock_bag st (m_bagId bag) = Some r"
  using bags_invD(1) [OF assms] assms(2) by (simp add: lock_bag_def)

lemma lock_bag_Some:
  assumes "bags_inv R st" "lock_bag st i = Some r"
  obtains bag where "bags st r = Some bag" "m_bagId bag = i"
  using assms bags_invD(7) [OF assms(1)] by (auto simp: lock_bag_def split: option.splits if_splits)

text \<open>Two live bags have different names.\<close>

lemma bag_names_unique:
  assumes "bags_inv R st" "bags st r = Some bag" "bags st s = Some bag'" "m_bagId bag = m_bagId bag'"
  shows "r = s"
  using bags_invD(1) [OF assms(1,2)] bags_invD(1) [OF assms(1,3)] assms(4) by simp

subsection \<open>Calls that change one bag\<close>

lemma bags_inv_update:
  assumes inv: "bags_inv R st" and bag: "bags st r = Some bag"
    and new: "bags st' = (bags st)(r \<mapsto> new)" "m_bagId new = m_bagId bag" "bag_ok new"
    and same: "m_erasureList st' = m_erasureList st" "m_stateBags st' = m_stateBags st"
      "m_preCreatedStateBags st' = m_preCreatedStateBags st" "nextBag st' = nextBag st" "holders st' = holders st"
    and rest: "distinct (m_bagTargets st')" "buffer_ready st'"
      "taskBag ` set (bagTasks st') \<subseteq> insert r (taskBag ` set (bagTasks st))" "taskBag ` set (bagTasks st) \<subseteq> taskBag ` set (bagTasks st')"
      "\<forall>task\<in>set (bagTasks st'). taskData task \<noteq> []"
  shows "bags_inv R st'"
proof -
  have o1: "owned st s \<Longrightarrow> owned st' s" for s using same(3,5) rest(4) by (auto simp: owned_def)
  have o2: "owned st' s \<Longrightarrow> s = r \<or> owned st s" for s using same(3,5) rest(3) by (auto simp: owned_def)
  have b: "\<exists>old. bags st s = Some old \<and> m_bagId bag' = m_bagId old \<and> bag_ok bag'" if "bags st' s = Some bag'" for s bag'
    using that new bag bags_invD(3) [OF inv] by (cases "s = r") auto
  show ?thesis
    unfolding bags_inv_def
  proof (intro conjI allI impI)
    fix s bag' assume "bags st' s = Some bag'"
    then obtain old where old: "bags st s = Some old" "m_bagId bag' = m_bagId old" and "bag_ok bag'" using b by blast
    then show "map_of (m_stateBags st') (m_bagId bag') = Some s" "m_bagId bag' \<notin> set (m_erasureList st')" "bag_ok bag'"
      using bags_invD(1,2) [OF inv old(1)] same by simp_all
    show "s \<in> R \<or> owned st' s" using bags_invD(4) [OF inv old(1)] o1 by blast
  next
    fix s assume "owned st' s"
    then show "bags st' s \<noteq> None" using o2 bags_invD(5) [OF inv] bag new(1) by fastforce
  next
    fix i s assume s: "map_of (m_stateBags st') i = Some s"
    then show "s < nextBag st'" using bags_invD(6) [OF inv] same by simp
    fix bag' assume "bags st' s = Some bag'"
    then show "m_bagId bag' = i" using b bags_invD(7) [OF inv] s same(2) by fastforce
  next
    fix s assume "nextBag st' \<le> s"
    then show "bags st' s = None" using bags_invD(8) [OF inv, of s] same(4) new(1) bag by auto
  qed (use rest in auto)
qed

lemma bags_inv_set:
  assumes inv: "bags_inv R st" and bag: "bags st r = Some bag" and upd: "bags_set st r new st' out"
    and new: "m_bagId new = m_bagId bag" "bag_ok new"
  shows "bags_inv R st'"
proof -
  note k = bags_set_keeps [OF upd]
  show ?thesis
    by (rule bags_inv_update [OF inv bag k(7) new k(3,4,6,8,9)])
      (use k bags_invD(9,11) [OF inv] in auto)
qed

lemma bags_inv_sends:
  assumes "bags_inv R st" "sends st st' out"
  shows "bags_inv R st'"
proof -
  note k = sends_keeps [OF assms(2)]
  show ?thesis using assms(1) k unfolding bags_inv_def owned_def by simp
qed

lemma bag_ok_routing:
  "bag_ok bag \<Longrightarrow> sorted_wrt (<) ts \<Longrightarrow> bag_ok (bag\<lparr>m_routingTargets := ts\<rparr>)"
  by (simp add: bag_ok_def)

lemma bag_ok_remove: "bag_ok bag \<Longrightarrow> bag_ok (bag\<lparr>m_routingTargets := removeAll t (m_routingTargets bag)\<rparr>)"
  by (simp add: bag_ok_def removeAll_filter_not_eq sorted_wrt_filter)

lemma strict_insort: "sorted_wrt (<) xs \<Longrightarrow> x \<notin> set xs \<Longrightarrow> sorted_wrt (<) (insort (x :: int) xs)"
  by (simp add: strict_sorted_iff sorted_insort distinct_insort)

lemma bag_ok_insort:
  "bag_ok bag \<Longrightarrow> t \<notin> set (m_routingTargets bag) \<Longrightarrow> bag_ok (bag\<lparr>m_routingTargets := insort t (m_routingTargets bag)\<rparr>)"
  by (simp add: bag_ok_def strict_insort)

lemma update_bag_set:
  assumes "bags st r = Some bag" "buffer_ready st"
  shows "bags_set st r (f bag) (update_bag r f st) []"
  using sends_refl [of "update_bag r f st"] assms by (simp add: bags_set_def update_bag_def buffer_ready_def)

lemma SetRoutingTargets_spec:
  assumes bag: "bags st r = Some bag" and ready: "buffer_ready st" and sorted: "sorted_wrt (<) peers"
  shows "\<exists>st' out. SetRoutingTargets r peers st = Some st' \<and> bags_set st r (bag\<lparr>m_routingTargets := peers\<rparr>) st' out
    \<and> (bag_data_fits bag \<longrightarrow> conveys out (\<lambda>u i. if u \<in> set peers - set (m_routingTargets bag) \<and> i = m_bagId bag then m_bagData bag else []))"
proof -
  let ?new = "bag\<lparr>m_routingTargets := peers\<rparr>" and ?ts = "filter (\<lambda>t. t \<notin> set (m_routingTargets bag)) peers"
  let ?st = "st\<lparr>bags := (bags st)(r \<mapsto> ?new)\<rparr>"
  have ready': "buffer_ready ?st" using ready by (simp add: buffer_ready_def)
  have step: "\<exists>st' out. SendAll ?new t st = Some st' \<and> sends st st' out
      \<and> (bag_data_fits bag \<longrightarrow> conveys out (\<lambda>u i. if u = t \<and> i = m_bagId bag then m_bagData bag else []))"
    if "buffer_ready st" for t st
    using SendAll_conveys [OF that, of ?new t] by (simp add: bag_data_fits_def cong: if_cong)
  have "\<exists>st' out. handle_all (SendAll ?new) ?ts ?st = Some st' \<and> sends ?st st' out
      \<and> ((\<forall>t\<in>set ?ts. bag_data_fits bag) \<longrightarrow>
         conveys out (\<lambda>u i. concat (map (\<lambda>t. if u = t \<and> i = m_bagId bag then m_bagData bag else []) ?ts)))"
    by (rule handle_all_sends [OF ready' step refl refl])
  then obtain st' out where "SetRoutingTargets r peers st = Some st'" "sends ?st st' out"
    and out: "bag_data_fits bag \<longrightarrow> conveys out (\<lambda>u i. concat (map (\<lambda>t. if u = t \<and> i = m_bagId bag then m_bagData bag else []) ?ts))"
    using bag by (auto simp: SetRoutingTargets_def Let_def)
  moreover have "distinct ?ts" using sorted by (simp add: strict_sorted_iff)
  ultimately show ?thesis using out unfolding bags_set_def by (auto simp: concat_if_single)
qed

lemma AddRoutingTarget_spec:
  assumes bag: "bags st r = Some bag" and ready: "buffer_ready st" and new: "peer \<notin> set (m_routingTargets bag)"
  shows "\<exists>st' out. AddRoutingTarget r peer st = Some st'
    \<and> bags_set st r (bag\<lparr>m_routingTargets := insort peer (m_routingTargets bag)\<rparr>) st' out
    \<and> (bag_data_fits bag \<longrightarrow> conveys out (\<lambda>u i. if u = peer \<and> i = m_bagId bag then m_bagData bag else []))"
proof -
  let ?new = "bag\<lparr>m_routingTargets := insort peer (m_routingTargets bag)\<rparr>"
  have "buffer_ready (st\<lparr>bags := (bags st)(r \<mapsto> ?new)\<rparr>)" using ready by (simp add: buffer_ready_def)
  from SendAll_conveys [OF this, of ?new peer] show ?thesis
    using bag new by (simp add: AddRoutingTarget_def Let_def bags_set_def bag_data_fits_def cong: if_cong)
qed

lemma AddRoutingTarget_present:
  "bags st r = Some bag \<Longrightarrow> peer \<in> set (m_routingTargets bag) \<Longrightarrow> AddRoutingTarget r peer st = Some st"
  by (simp add: AddRoutingTarget_def)

lemma SendQueuedUpdates_spec:
  assumes bag: "bags st r = Some bag" and ready: "buffer_ready st" and dist: "distinct (update_targets bag st)"
  shows "\<exists>st' out. SendQueuedUpdates r st = Some st' \<and> bags_set st r (bag\<lparr>m_replicateData := []\<rparr>) st' out
    \<and> (bag_data_fits bag \<longrightarrow> conveys out (\<lambda>u i. if u \<in> set (update_targets bag st) \<and> i = m_bagId bag then m_replicateData bag else []))"
proof -
  let ?st = "update_bag r (\<lambda>bag. bag\<lparr>m_replicateData := []\<rparr>) st"
  have upd: "?st = st\<lparr>bags := (bags st)(r \<mapsto> bag\<lparr>m_replicateData := []\<rparr>)\<rparr>" using bag by (simp add: update_bag_def)
  define tg where "tg = update_targets bag st"
  have step: "\<exists>st' out. (\<lambda>(k, v). SendKeyValueToAllTargets bag k v) x st1 = Some st' \<and> sends st1 st' out
      \<and> (bag_fits (m_bagId bag) (fst x) (snd x) \<longrightarrow>
         conveys out (\<lambda>u i. if u \<in> set tg \<and> i = m_bagId bag then [x] else []))"
    if "buffer_ready st1" "m_bagTargets st1 = m_bagTargets st" for x st1
    using SendKeyValueToAllTargets_conveys [OF that(1), of bag "fst x" "snd x"] dist
    unfolding prod.collapse tg_def that(2) by (simp only: case_prod_unfold)
  have "\<exists>st' out. handle_all (\<lambda>(k, v). SendKeyValueToAllTargets bag k v) (m_replicateData bag) ?st = Some st' \<and> sends ?st st' out
      \<and> ((\<forall>x\<in>set (m_replicateData bag). bag_fits (m_bagId bag) (fst x) (snd x)) \<longrightarrow>
         conveys out (\<lambda>u i. concat (map (\<lambda>x. if u \<in> set tg \<and> i = m_bagId bag then [x] else []) (m_replicateData bag))))"
  proof (rule handle_all_sends)
    show "buffer_ready ?st" using ready by (simp add: upd buffer_ready_def)
    show "m_bagTargets ?st = m_bagTargets st" by (simp add: upd)
  qed (use step in auto)
  then obtain st' out where "SendQueuedUpdates r st = Some st'" "sends ?st st' out"
    "(\<forall>x\<in>set (m_replicateData bag). bag_fits (m_bagId bag) (fst x) (snd x)) \<longrightarrow>
       conveys out (\<lambda>u i. if u \<in> set tg \<and> i = m_bagId bag then m_replicateData bag else [])"
    using bag by (auto simp: SendQueuedUpdates_def concat_pairs)
  then show ?thesis unfolding bags_set_def upd tg_def by (fastforce simp: bag_data_fits_def)
qed

text \<open>A call of \<open>SetKey\<close> does nothing, leaves a task, or changes the bag.\<close>

lemma SetKey_cases:
  assumes "bags st r = Some bag"
  obtains "SetKey env r source k v replicated st = Some st"
  | "SetKey env r source k v replicated st = Some (st\<lparr>bagTasks := bagTasks st @
        [\<lparr>taskBag = r, taskSource = source, taskKey = k, taskData = v, taskReplicated = replicated\<rparr>]\<rparr>)" "msgpack_unpacks env v"
  | "SetKey env r source k v replicated st = SetKeyInternal r k v replicated st" "hasChangeHandler env \<longrightarrow> msgpack_unpacks env v"
proof -
  consider "hasChangeHandler env" "\<not> msgpack_unpacks env v"
    | "hasChangeHandler env" "msgpack_unpacks env v" "IsAsynchronous env"
    | "hasChangeHandler env" "msgpack_unpacks env v" "\<not> IsAsynchronous env" "\<not> OnStateBagChange env source (m_bagId bag) k v replicated"
    | "hasChangeHandler env \<longrightarrow> msgpack_unpacks env v \<and> \<not> IsAsynchronous env \<and> OnStateBagChange env source (m_bagId bag) k v replicated"
    by blast
  then show ?thesis
  proof cases
    case 1
    with assms show ?thesis by (intro that(1)) (simp add: SetKey_def)
  next
    case 2
    with assms show ?thesis by (intro that(2)) (simp_all add: SetKey_def)
  next
    case 3
    with assms show ?thesis by (intro that(1)) (simp add: SetKey_def)
  next
    case 4
    with assms show ?thesis by (intro that(3)) (simp_all add: SetKey_def)
  qed
qed

lemma SetKeyInternal_inv:
  assumes inv: "bags_inv R st" and bag: "bags st r = Some bag" and v: "v \<noteq> []"
  shows "\<exists>st'. SetKeyInternal r k v replicated st = Some st' \<and> bags_inv R st'"
proof -
  from SetKeyInternal_spec [OF bag v bags_invD(10) [OF inv] bags_invD(3) [OF inv bag] bags_invD(9) [OF inv], of k replicated]
  obtain st' d q out where st': "SetKeyInternal r k v replicated st = Some st'"
      "bags_set st r (bag\<lparr>m_bagData := d, m_replicateData := q\<rparr>) st' out" "bag_ok (bag\<lparr>m_bagData := d\<rparr>)"
    by blast
  then have "bag_ok (bag\<lparr>m_bagData := d, m_replicateData := q\<rparr>)" by (simp add: bag_ok_def)
  with st' show ?thesis using bags_inv_set [OF inv bag st'(2)] by simp
qed

lemma SetKey_inv:
  assumes inv: "bags_inv R st" and bag: "bags st r = Some bag" and v: "v \<noteq> []"
  shows "\<exists>st'. SetKey env r source k v replicated st = Some st' \<and> bags_inv R st'"
proof (rule SetKey_cases [OF bag, of env source k v replicated])
  let ?st = "st\<lparr>bagTasks := bagTasks st @
        [\<lparr>taskBag = r, taskSource = source, taskKey = k, taskData = v, taskReplicated = replicated\<rparr>]\<rparr>"
  assume "SetKey env r source k v replicated st = Some ?st"
  moreover have "bags_inv R ?st"
    by (rule bags_inv_update [OF inv bag, of ?st bag])
      (use v bag bags_invD(3) [OF inv bag] bags_invD(9,10,11) [OF inv] in \<open>auto simp: buffer_ready_def fun_upd_idem\<close>)
  ultimately show ?thesis by blast
qed (use inv SetKeyInternal_inv [OF inv bag v] in auto)

subsection \<open>The lifetime of bags\<close>

lemma bags_inv_exempt:
  assumes "bags_inv R st" "\<And>s bag. bags st s = Some bag \<Longrightarrow> s \<in> S \<or> owned st s"
  shows "bags_inv S st"
  using assms unfolding bags_inv_def by blast

lemma bags_inv_mono: "bags_inv R st \<Longrightarrow> R \<subseteq> S \<Longrightarrow> bags_inv S st"
  by (rule bags_inv_exempt) (use bags_invD(4) in blast)+

lemma destroy_unowned_inv:
  assumes inv: "bags_inv R st"
  shows "bags_inv (R - {r}) (destroy_unowned r st)"
proof (cases "bags st r = None \<or> owned st r")
  case True
  then have "destroy_unowned r st = st" by (auto simp: destroy_unowned_def split: option.splits)
  moreover have "s \<in> R - {r} \<or> owned st s" if "bags st s = Some bag" for s bag
    using True bags_invD(4) [OF inv that] that by (cases "s = r") auto
  ultimately show ?thesis using bags_inv_exempt [OF inv] by simp
next
  case False
  then obtain bag where bag: "bags st r = Some bag" "\<not> owned st r" by auto
  let ?st = "UnregisterStateBag (m_bagId bag) (st\<lparr>bags := (bags st)(r := None)\<rparr>)"
  have same: "bags ?st = (bags st)(r := None)" "m_stateBags ?st = m_stateBags st" "m_bagTargets ?st = m_bagTargets st"
      "nextBag ?st = nextBag st" "bagTasks ?st = bagTasks st" "set (m_erasureList ?st) = insert (m_bagId bag) (set (m_erasureList st))"
    and own: "owned ?st s \<longleftrightarrow> owned st s" and ready: "buffer_ready ?st \<longleftrightarrow> buffer_ready st" for s
    by (simp_all add: UnregisterStateBag_def owned_def buffer_ready_def)
  have uniq: "m_bagId bag' \<noteq> m_bagId bag" if "bags st s = Some bag'" "s \<noteq> r" for s bag'
    using bag_names_unique [OF inv that(1) bag(1)] that(2) by blast
  have "bags_inv (R - {r}) ?st"
    using inv uniq bag(2) unfolding bags_inv_def same own ready by auto
  then show ?thesis using bag by (simp add: destroy_unowned_def)
qed

text \<open>Forgetting an owner of one bag.\<close>

lemma bags_inv_disown:
  assumes inv: "bags_inv R st" and same: "m_erasureList st' = m_erasureList st" "m_stateBags st' = m_stateBags st"
      "nextBag st' = nextBag st" "bags st' = bags st" "m_bagTargets st' = m_bagTargets st" "dataBuffer st' = dataBuffer st"
    and tasks: "set (bagTasks st') \<subseteq> set (bagTasks st)"
    and own: "\<And>s. owned st' s \<Longrightarrow> owned st s" "\<And>s. owned st s \<Longrightarrow> s = r \<or> owned st' s"
  shows "bags_inv (insert r R) st'"
proof -
  have "buffer_ready st' \<longleftrightarrow> buffer_ready st" using same(6) by (simp add: buffer_ready_def)
  then show ?thesis using inv own tasks unfolding bags_inv_def same by blast
qed

lemma release_bag_inv:
  assumes "bags_inv R st"
  shows "bags_inv R (release_bag r st)"
proof -
  let ?st = "st\<lparr>holders := (holders st)(r := holders st r - 1)\<rparr>"
  have "bags_inv (insert r R) ?st"
    by (rule bags_inv_disown [OF assms]) (auto simp: owned_def split: if_splits)
  from destroy_unowned_inv [OF this, of r] have "bags_inv (insert r R - {r}) (release_bag r st)"
    by (simp add: release_bag_def)
  then show ?thesis by (rule bags_inv_mono) blast
qed

lemma hold_bag_inv:
  assumes "bags_inv R st" "bags st r \<noteq> None"
  shows "bags_inv (R - {r}) (hold_bag r st)"
proof -
  have ready: "buffer_ready (hold_bag r st) \<longleftrightarrow> buffer_ready st" by (simp add: buffer_ready_def hold_bag_def)
  have own: "owned (hold_bag r st) s \<longleftrightarrow> s = r \<or> owned st s" for s by (auto simp: owned_def hold_bag_def)
  have same: "m_erasureList (hold_bag r st) = m_erasureList st" "m_stateBags (hold_bag r st) = m_stateBags st"
      "nextBag (hold_bag r st) = nextBag st" "bags (hold_bag r st) = bags st" "m_bagTargets (hold_bag r st) = m_bagTargets st"
      "bagTasks (hold_bag r st) = bagTasks st"
    by (simp_all add: hold_bag_def)
  show ?thesis using assms unfolding bags_inv_def own ready same by blast
qed

lemma GetStateBag_inv:
  assumes "bags_inv {} st"
  shows "bags_inv {} (snd (GetStateBag i st))"
  using assms hold_bag_inv [OF assms] by (auto simp: GetStateBag_def lock_bag_def split: option.splits)

text \<open>Calls about names and lifetimes send nothing.\<close>

definition same_output :: "state_bags \<Rightarrow> state_bags \<Rightarrow> bool" where
  "same_output st st' \<longleftrightarrow> m_role st' = m_role st \<and> bagSent st' = bagSent st \<and> m_bagTargets st' = m_bagTargets st \<and> bagTasks st' = bagTasks st"

lemma same_output_refl [simp]: "same_output st st"
  by (simp add: same_output_def)

lemma same_output_trans: "same_output st st1 \<Longrightarrow> same_output st1 st2 \<Longrightarrow> same_output st st2"
  by (simp add: same_output_def)

lemma same_output_lifetime:
  "same_output st (hold_bag r st)" "same_output st (release_bag r st)" "same_output st (destroy_unowned r st)"
  by (auto simp: same_output_def hold_bag_def release_bag_def destroy_unowned_def UnregisterStateBag_def split: option.splits)

lemma RegisterStateBag_output: "same_output st (snd (RegisterStateBag i p st))"
  by (auto simp: same_output_def RegisterStateBag_def Let_def hold_bag_def split: option.splits)

text \<open>
  \<open>RegisterStateBag\<close> returns the live bag of the name, or a new one: the bag it returns is live, has the
  name and is held.
\<close>

lemma RegisterStateBag_new:
  assumes inv: "bags_inv {} st" and new: "i \<in> set (m_erasureList st) \<or> lock_bag st i = None"
  defines "r \<equiv> nextBag st"
  shows "\<exists>st'. RegisterStateBag i p st = (r, st') \<and> bags_inv {} st' \<and> bags st' = (bags st)(r \<mapsto> StateBagImpl_make i p) \<and> holders st' r > 0
    \<and> bags st r = None \<and> (\<forall>s. s \<noteq> r \<longrightarrow> holders st' s = holders st s)"
proof -
  let ?st = "st\<lparr>m_erasureList := removeAll i (m_erasureList st), bags := (bags st)(r \<mapsto> StateBagImpl_make i p),
      nextBag := r + 1, m_stateBags := AList.update i r (m_stateBags st), holders := (holders st)(r := holders st r + 1)\<rparr>"
  have fresh: "bags st r = None" using bags_invD(8) [OF inv] by (simp add: r_def)
  have unnamed: "m_bagId bag \<noteq> i" if "bags st s = Some bag" for s bag
    using new bags_invD(2) [OF inv that] lock_bag_live [OF inv that] by auto
  have e: "RegisterStateBag i p st = (r, ?st)"
    using new by (auto simp: RegisterStateBag_def Let_def hold_bag_def r_def lock_bag_def split: option.splits)
  have own: "owned ?st s \<longleftrightarrow> s = r \<or> owned st s" for s by (auto simp: owned_def)
  have ok: "bag_ok (StateBagImpl_make i p)" "m_bagId (StateBagImpl_make i p) = i" by (simp_all add: bag_ok_def StateBagImpl_make_def)
  have below: "s < r" if "map_of (m_stateBags st) j = Some s" for j s using bags_invD(6) [OF inv that] by (simp add: r_def)
  have dead: "bags st s = None" if "r \<le> s" for s using bags_invD(8) [OF inv] that by (simp add: r_def)
  have "bags_inv {} ?st"
    unfolding bags_inv_def own
  proof (intro conjI allI impI)
    fix s bag assume "bags ?st s = Some bag"
    then consider "s = r" "bag = StateBagImpl_make i p" | "s \<noteq> r" "bags st s = Some bag" by (auto split: if_splits)
    then show "map_of (m_stateBags ?st) (m_bagId bag) = Some s" "m_bagId bag \<notin> set (m_erasureList ?st)" "bag_ok bag"
        "s \<in> {} \<or> s = r \<or> owned st s"
      using ok bags_invD(1-4) [OF inv, of s bag] unnamed by (cases; auto simp: AList.update_conv')+
  next
    fix s assume "s = r \<or> owned st s"
    then show "bags ?st s \<noteq> None" using bags_invD(5) [OF inv] by auto
  next
    fix j s assume "map_of (m_stateBags ?st) j = Some s"
    then consider "j = i" "s = r" | "j \<noteq> i" "map_of (m_stateBags st) j = Some s" by (auto simp: AList.update_conv' split: if_splits)
    note c = this
    show "s < nextBag ?st" using c below by cases fastforce+
    fix bag assume "bags ?st s = Some bag"
    then have bag: "((bags st)(r \<mapsto> StateBagImpl_make i p)) s = Some bag" by simp
    show "m_bagId bag = j" using c
    proof cases
      case 1
      then show ?thesis using bag ok(2) by auto
    next
      case 2
      then show ?thesis using bag below [OF 2(2)] bags_invD(7) [OF inv 2(2), of bag] by simp
    qed
  next
    fix s assume "nextBag ?st \<le> s"
    then show "bags ?st s = None" using dead by auto
  qed (use bags_invD(9,10,11) [OF inv] in \<open>auto simp: buffer_ready_def\<close>)
  then show ?thesis using e fresh by auto
qed

lemma RegisterStateBag_old:
  assumes inv: "bags_inv {} st" and old: "lock_bag st i = Some r"
  shows "\<exists>st'. RegisterStateBag i p st = (r, st') \<and> bags_inv {} st' \<and> bags st' = bags st \<and> holders st' r > 0"
proof -
  obtain bag where bag: "bags st r = Some bag" "m_bagId bag = i" by (rule lock_bag_Some [OF inv old])
  have live: "i \<notin> set (m_erasureList st)" using bags_invD(2) [OF inv bag(1)] bag(2) by simp
  let ?st = "st\<lparr>m_preCreatedStateBags := removeAll r (m_preCreatedStateBags st)\<rparr>"
  have e: "RegisterStateBag i p st = (r, hold_bag r ?st)"
    using live old by (simp add: RegisterStateBag_def Let_def lock_bag_def)
  have "bags_inv (insert r {}) ?st"
    by (rule bags_inv_disown [OF inv]) (auto simp: owned_def)
  from hold_bag_inv [OF this, of r] bag(1) have "bags_inv {} (hold_bag r ?st)" by simp
  then show ?thesis using e by (auto simp: hold_bag_def)
qed

lemma RegisterStateBag_inv:
  assumes "bags_inv {} st"
  shows "\<exists>r st' bag. RegisterStateBag i p st = (r, st') \<and> bags_inv {} st' \<and> bags st' r = Some bag \<and> m_bagId bag = i \<and> holders st' r > 0"
proof (cases "lock_bag st i")
  case None
  from RegisterStateBag_new [OF assms disjI2 [OF this], of p] show ?thesis by (auto simp: StateBagImpl_make_def)
next
  case (Some r)
  obtain bag where "bags st r = Some bag" "m_bagId bag = i" by (rule lock_bag_Some [OF assms Some])
  with RegisterStateBag_old [OF assms Some, of p] show ?thesis by auto
qed

text \<open>The erased names belong to dead bags, so the tick forgets no live one.\<close>

lemma map_of_filter_names: "map_of (filter (\<lambda>(i, _). P i) xs) i = (if P i then map_of xs i else None)"
  by (induction xs) auto

lemma StateBags_OnTick_inv:
  assumes inv: "bags_inv {} st"
  shows "bags_inv {} (StateBags_OnTick st)"
proof -
  let ?st = "st\<lparr>m_stateBags := filter (\<lambda>(i, _). i \<notin> set (m_erasureList st)) (m_stateBags st), m_erasureList := []\<rparr>"
  have "bags_inv {} ?st"
    unfolding bags_inv_def
  proof (intro conjI allI impI)
    fix r bag assume "bags ?st r = Some bag"
    then have bag: "bags st r = Some bag" by simp
    then show "map_of (m_stateBags ?st) (m_bagId bag) = Some r" "m_bagId bag \<notin> set (m_erasureList ?st)" "bag_ok bag"
        "r \<in> {} \<or> owned ?st r"
      using bags_invD(1-4) [OF inv bag] by (simp_all add: map_of_filter_names owned_def)
  next
    fix r assume "owned ?st r"
    then show "bags ?st r \<noteq> None" using bags_invD(5) [OF inv, of r] by (simp add: owned_def)
  next
    fix i r assume "map_of (m_stateBags ?st) i = Some r"
    then have i: "map_of (m_stateBags st) i = Some r" by (simp add: map_of_filter_names split: if_splits)
    show "r < nextBag ?st" using bags_invD(6) [OF inv i] by simp
    fix bag assume "bags ?st r = Some bag"
    then show "m_bagId bag = i" using bags_invD(7) [OF inv i] by simp
  next
    fix r assume "nextBag ?st \<le> r"
    then show "bags ?st r = None" using bags_invD(8) [OF inv] by simp
  qed (use bags_invD(9,10,11) [OF inv] in \<open>auto simp: buffer_ready_def\<close>)
  then show ?thesis using inv by (simp add: StateBags_OnTick_def)
qed

subsection \<open>Targets of the component\<close>

lemma fold_RemoveRoutingTarget:
  "fold (\<lambda>(i, r). RemoveRoutingTarget r t) xs st = st\<lparr>bags := (\<lambda>s. if s \<in> snd ` set xs
     then map_option (\<lambda>bag. bag\<lparr>m_routingTargets := removeAll t (m_routingTargets bag)\<rparr>) (bags st s) else bags st s)\<rparr>"
proof (induction xs arbitrary: st)
  case (Cons x xs)
  have "map_option (\<lambda>bag. bag\<lparr>m_routingTargets := removeAll t (m_routingTargets bag)\<rparr>)
      (map_option (\<lambda>bag. bag\<lparr>m_routingTargets := removeAll t (m_routingTargets bag)\<rparr>) b)
    = map_option (\<lambda>bag. bag\<lparr>m_routingTargets := removeAll t (m_routingTargets bag)\<rparr>) b" for b :: "state_bag option"
    by (cases b) (simp_all add: removeAll_filter_not_eq)
  note twice = this
  obtain i r where x: "x = (i, r)" by force
  show ?case
    unfolding x fold.simps comp_def prod.case Cons.IH
    by (auto simp: RemoveRoutingTarget_def update_bag_def fun_eq_iff twice intro!: arg_cong [where f = "\<lambda>b. st\<lparr>bags := b\<rparr>"])
qed simp

lemma bag_UnregisterTarget_spec:
  assumes inv: "bags_inv R st"
  shows "bag_UnregisterTarget t st = st\<lparr>m_bagTargets := removeAll t (m_bagTargets st),
    bags := (\<lambda>s. map_option (\<lambda>bag. bag\<lparr>m_routingTargets := removeAll t (m_routingTargets bag)\<rparr>) (bags st s))\<rparr>"
proof -
  have "bags st s = None" if "s \<notin> snd ` set (m_stateBags st)" for s
  proof (rule ccontr)
    assume "bags st s \<noteq> None"
    then obtain bag where "bags st s = Some bag" by blast
    from bags_invD(1) [OF inv this] show False using that by (metis image_eqI map_of_SomeD snd_conv)
  qed
  then show ?thesis by (auto simp: bag_UnregisterTarget_def fold_RemoveRoutingTarget fun_eq_iff)
qed

lemma bag_UnregisterTarget_inv:
  assumes inv: "bags_inv {} st"
  shows "bags_inv {} (bag_UnregisterTarget t st)"
proof -
  let ?st = "bag_UnregisterTarget t st"
  note e = bag_UnregisterTarget_spec [OF inv, of t]
  have own: "owned ?st s \<longleftrightarrow> owned st s" for s by (simp add: e owned_def)
  show ?thesis
    unfolding bags_inv_def own
  proof (intro conjI allI impI)
    fix r bag assume "bags ?st r = Some bag"
    then obtain old where old: "bags st r = Some old" "bag = old\<lparr>m_routingTargets := removeAll t (m_routingTargets old)\<rparr>"
      by (auto simp: e)
    then show "map_of (m_stateBags ?st) (m_bagId bag) = Some r" "m_bagId bag \<notin> set (m_erasureList ?st)" "bag_ok bag"
        "r \<in> {} \<or> owned st r"
      using bags_invD(1-4) [OF inv old(1)] by (simp_all add: e bag_ok_remove)
  next
    fix r assume "owned st r"
    then show "bags ?st r \<noteq> None" using bags_invD(5) [OF inv, of r] by (simp add: e)
  next
    fix i r assume "map_of (m_stateBags ?st) i = Some r"
    then have i: "map_of (m_stateBags st) i = Some r" by (simp add: e)
    show "r < nextBag ?st" using bags_invD(6) [OF inv i] by (simp add: e)
    fix bag assume "bags ?st r = Some bag"
    then show "m_bagId bag = i" using bags_invD(7) [OF inv i] by (auto simp: e)
  next
    fix r assume "nextBag ?st \<le> r"
    then show "bags ?st r = None" using bags_invD(8) [OF inv] by (simp add: e)
  qed (use bags_invD(9,10,11) [OF inv] in \<open>auto simp: e buffer_ready_def distinct_removeAll\<close>)
qed

text \<open>What a new target is sent: the bags without targets of their own, and those that have it as one.\<close>

definition initial_updates :: "state_bags \<Rightarrow> int \<Rightarrow> int \<Rightarrow> u8 list \<Rightarrow> bag_ref \<Rightarrow> (u8 list \<times> u8 list) list" where
  "initial_updates st t u i r =
     (case bags st r of
        None \<Rightarrow> []
      | Some bag \<Rightarrow> if u = t \<and> i = m_bagId bag \<and> (m_routingTargets bag = [] \<or> t \<in> set (m_routingTargets bag)) then m_bagData bag else [])"

lemma bag_RegisterTarget_spec:
  assumes ready: "buffer_ready st" and new: "t \<notin> set (m_bagTargets st)"
  shows "\<exists>st' out. bag_RegisterTarget t st = Some st' \<and> sends (st\<lparr>m_bagTargets := m_bagTargets st @ [t]\<rparr>) st' out
    \<and> ((\<forall>r bag. bags st r = Some bag \<longrightarrow> bag_data_fits bag) \<longrightarrow>
       conveys out (\<lambda>u i. concat (map (\<lambda>(_, r). initial_updates st t u i r) (m_stateBags st))))"
proof -
  let ?st = "st\<lparr>m_bagTargets := m_bagTargets st @ [t]\<rparr>"
  let ?h = "\<lambda>(i :: u8 list, r) st. case bags st r of None \<Rightarrow> Some st | Some bag \<Rightarrow> SendAllInitial bag t st"
  let ?fits = "\<forall>r bag. bags st r = Some bag \<longrightarrow> bag_data_fits bag"
  have step: "\<exists>st' out. ?h x st1 = Some st' \<and> sends st1 st' out
      \<and> (?fits \<longrightarrow> conveys out (\<lambda>u i. (\<lambda>(_, r). initial_updates st t u i r) x))"
    if ready1: "buffer_ready st1" and b: "bags st1 = bags st" for x st1
  proof -
    obtain j r where x: "x = (j, r)" by force
    show ?thesis
    proof (cases "bags st r")
      case None
      then show ?thesis using sends_refl [OF ready1] b by (simp add: x initial_updates_def) (metis conveys_Nil)
    next
      case (Some bag)
      then show ?thesis using SendAllInitial_conveys [OF ready1, of bag t] b by (auto simp: x initial_updates_def)
    qed
  qed
  have "\<exists>st' out. handle_all ?h (m_stateBags st) ?st = Some st' \<and> sends ?st st' out
      \<and> ((\<forall>x\<in>set (m_stateBags st). ?fits) \<longrightarrow>
         conveys out (\<lambda>u i. concat (map (\<lambda>x. (\<lambda>(_, r). initial_updates st t u i r) x) (m_stateBags st))))"
  proof (rule handle_all_sends)
    show "buffer_ready ?st" using ready by (simp add: buffer_ready_def)
    show "bags ?st = bags st" by simp
  qed (use step in auto)
  then show ?thesis using new by (simp add: bag_RegisterTarget_def) blast
qed

lemma bag_RegisterTarget_inv:
  assumes inv: "bags_inv {} st"
  shows "\<exists>st'. bag_RegisterTarget t st = Some st' \<and> bags_inv {} st'"
proof (cases "t \<in> set (m_bagTargets st)")
  case True
  then show ?thesis using inv by (simp add: bag_RegisterTarget_def)
next
  case False
  let ?st = "st\<lparr>m_bagTargets := m_bagTargets st @ [t]\<rparr>"
  have "bags_inv {} ?st" using inv False unfolding bags_inv_def owned_def buffer_ready_def by simp
  then show ?thesis using bag_RegisterTarget_spec [OF bags_invD(10) [OF inv] False] bags_inv_sends by blast
qed

subsection \<open>Received packets and tasks\<close>

lemma release_owned:
  assumes "r \<in> set (m_preCreatedStateBags st)"
  shows "bags (release_bag r st) = bags st"
  using assms by (auto simp: release_bag_def destroy_unowned_def owned_def split: option.splits)

lemma precreate_inv:
  assumes inv: "bags_inv R st" and "bags st r \<noteq> None"
  shows "bags_inv R (st\<lparr>m_preCreatedStateBags := List.insert r (m_preCreatedStateBags st)\<rparr>)"
proof -
  let ?st = "st\<lparr>m_preCreatedStateBags := List.insert r (m_preCreatedStateBags st)\<rparr>"
  have own: "owned ?st s \<longleftrightarrow> s = r \<or> owned st s" for s by (auto simp: owned_def)
  have ready: "buffer_ready ?st \<longleftrightarrow> buffer_ready st" by (simp add: buffer_ready_def)
  show ?thesis using assms unfolding bags_inv_def own ready by auto
qed

lemma find_or_create_bag_spec:
  assumes inv: "bags_inv {} st"
  shows "\<exists>res st'. find_or_create_bag i st = (res, st') \<and> bags_inv {} st' \<and> same_output st st'
    \<and> (\<forall>s. bags st s \<noteq> None \<longrightarrow> bags st' s = bags st s \<and> holders st' s = holders st s)
    \<and> (\<forall>s bag. bags st' s = Some bag \<longrightarrow> bags st s = Some bag \<or> bags st s = None \<and> m_bagData bag = [] \<and> m_replicateData bag = []
         \<and> fst (IsSafePreCreateName st (m_bagId bag)))
    \<and> (case res of None \<Rightarrow> st' = st \<and> lock_bag st i = None | Some r \<Rightarrow> \<exists>bag. bags st' r = Some bag \<and> m_bagId bag = i)"
proof (cases "lock_bag st i")
  case (Some r)
  obtain bag where "bags st r = Some bag" "m_bagId bag = i" by (rule lock_bag_Some [OF inv Some])
  then show ?thesis using inv Some by (simp add: find_or_create_bag_def)
next
  case None
  obtain safe p where safe: "IsSafePreCreateName st i = (safe, p)" by force
  show ?thesis
  proof (cases safe)
    case False
    then show ?thesis using inv None safe by (simp add: find_or_create_bag_def)
  next
    case True
    from RegisterStateBag_new [OF inv disjI2 [OF None], of p] obtain r st1 where
      r: "RegisterStateBag i p st = (r, st1)" "bags_inv {} st1" "bags st1 = (bags st)(r \<mapsto> StateBagImpl_make i p)" "bags st r = None"
        "\<forall>s. s \<noteq> r \<longrightarrow> holders st1 s = holders st s"
      by blast
    let ?st2 = "st1\<lparr>m_preCreatedStateBags := List.insert r (m_preCreatedStateBags st1)\<rparr>"
    have inv2: "bags_inv {} (release_bag r ?st2)"
      by (rule release_bag_inv, rule precreate_inv [OF r(2)]) (simp add: r(3))
    have b: "bags (release_bag r ?st2) = (bags st)(r \<mapsto> StateBagImpl_make i p)"
      using release_owned [of r ?st2] r(3) by simp
    have h: "holders (release_bag r ?st2) s = holders st s" if "s \<noteq> r" for s
      using r(5) that by (auto simp: release_bag_def destroy_unowned_def UnregisterStateBag_def split: option.splits)
    have "same_output st st1" using RegisterStateBag_output [of st i p] r(1) by simp
    moreover have "same_output st1 ?st2" by (simp add: same_output_def)
    ultimately have out: "same_output st (release_bag r ?st2)"
      using same_output_lifetime(2) same_output_trans by blast
    have "find_or_create_bag i st = (Some r, release_bag r ?st2)"
      using None safe True r(1) by (simp add: find_or_create_bag_def PreCreateStateBag_def)
    then show ?thesis using inv2 out b r(4) h safe True by (auto simp: StateBagImpl_make_def)
  qed
qed

lemma handle_bag_message_inv:
  assumes inv: "bags_inv {} st" and v: "v \<noteq> []"
  shows "\<exists>st' name. handle_bag_message env source i k v st = Some (st', name) \<and> bags_inv {} st'"
proof -
  obtain res st1 where f: "find_or_create_bag i st = (res, st1)" "bags_inv {} st1"
    and live: "case res of None \<Rightarrow> st1 = st \<and> lock_bag st i = None | Some r \<Rightarrow> \<exists>bag. bags st1 r = Some bag \<and> m_bagId bag = i"
    using find_or_create_bag_spec [OF inv, of i] by blast
  show ?thesis
  proof (cases res)
    case None
    then show ?thesis using f by (simp add: handle_bag_message_def)
  next
    case (Some r)
    then obtain bag where bag: "bags st1 r = Some bag" using live by auto
    from SetKey_inv [OF f(2) bag v, of env source k "m_role st1 = Role_Server"] show ?thesis
      using f Some bag by (auto simp: handle_bag_message_def)
  qed
qed

lemma bag_HandlePacket_inv:
  assumes "bags_inv {} st"
  shows "\<exists>st' name. bag_HandlePacket env source d st = Some (st', name) \<and> bags_inv {} st'"
    "\<exists>st' name. bag_HandlePacketV2 env source m st = Some (st', name) \<and> bags_inv {} st'"
proof -
  obtain msg where msg: "parse_bag_packet d = Some msg" "\<forall>i k v. msg = Some (i, k, v) \<longrightarrow> v \<noteq> []"
    using parse_bag_packet_total [of d] by blast
  show "\<exists>st' name. bag_HandlePacket env source d st = Some (st', name) \<and> bags_inv {} st'"
    using msg assms handle_bag_message_inv [OF assms] by (cases msg) (auto simp: bag_HandlePacket_def)
  show "\<exists>st' name. bag_HandlePacketV2 env source m st = Some (st', name) \<and> bags_inv {} st'"
    using assms handle_bag_message_inv [OF assms] by (simp add: bag_HandlePacketV2_def)
qed

lemma run_task_inv:
  assumes inv: "bags_inv {} st"
  shows "\<exists>st'. run_task env st = Some st' \<and> bags_inv {} st'"
proof (cases "bagTasks st")
  case Nil
  then show ?thesis using inv by (simp add: run_task_def)
next
  case (Cons task rest)
  let ?r = "taskBag task"
  have "owned st ?r" using Cons by (simp add: owned_def)
  then obtain bag where bag: "bags st ?r = Some bag" using bags_invD(5) [OF inv] by blast
  have v: "taskData task \<noteq> []" using bags_invD(11) [OF inv] Cons by simp
  let ?change = "OnStateBagChange env (taskSource task) (m_bagId bag) (taskKey task) (taskData task) (taskReplicated task)"
  obtain st1 where st1: "(if ?change then SetKeyInternal ?r (taskKey task) (taskData task) (taskReplicated task) st else Some st) = Some st1"
      "bags_inv {} st1" "bagTasks st1 = task # rest"
  proof (cases ?change)
    case False
    then show ?thesis using that inv Cons by simp
  next
    case True
    from SetKeyInternal_spec [OF bag v bags_invD(10) [OF inv] bags_invD(3) [OF inv bag] bags_invD(9) [OF inv], of "taskKey task" "taskReplicated task"]
    obtain st1 d q out where "SetKeyInternal ?r (taskKey task) (taskData task) (taskReplicated task) st = Some st1"
      "bags_set st ?r (bag\<lparr>m_bagData := d, m_replicateData := q\<rparr>) st1 out" by blast
    then show ?thesis
      using that True SetKeyInternal_inv [OF inv bag v, of "taskKey task" "taskReplicated task"] bags_set_keeps(10) Cons by auto
  qed
  let ?st2 = "st1\<lparr>bagTasks := rest\<rparr>"
  have "bags_inv (insert ?r {}) ?st2"
    by (rule bags_inv_disown [OF st1(2)]) (use st1(3) in \<open>auto simp: owned_def\<close>)
  from destroy_unowned_inv [OF this, of ?r] have "bags_inv {} (destroy_unowned ?r ?st2)" by simp
  then show ?thesis using st1(1) bag Cons by (auto simp: run_task_def)
qed

subsection \<open>Every call keeps the invariant\<close>

text \<open>The calls that are defined: what the caller holds, with data that is not empty.\<close>

definition call_ok :: "state_bags \<Rightarrow> bag_call \<Rightarrow> bool" where
  "call_ok st c \<longleftrightarrow> (case c of
       Call_Release r \<Rightarrow> holders st r > 0
     | Call_SetKey r _ _ v _ \<Rightarrow> holders st r > 0 \<and> v \<noteq> []
     | Call_SetOwner r _ \<Rightarrow> holders st r > 0
     | Call_Immediate r _ \<Rightarrow> holders st r > 0
     | Call_SendQueued r \<Rightarrow> holders st r > 0
     | Call_SetTargets r peers \<Rightarrow> holders st r > 0 \<and> sorted_wrt (<) peers
     | Call_AddTarget r _ \<Rightarrow> holders st r > 0
     | Call_RemoveTarget r _ \<Rightarrow> holders st r > 0
     | Call_Reset \<Rightarrow> False
     | _ \<Rightarrow> True)"

lemma held_live: "bags_inv {} st \<Longrightarrow> holders st r > 0 \<Longrightarrow> \<exists>bag. bags st r = Some bag"
  using bags_invD(5) [of "{}" st r] by (auto simp: owned_def)

lemma update_bag_inv:
  assumes inv: "bags_inv {} st" and held: "holders st r > 0"
    and f: "\<And>bag. m_bagId (f bag) = m_bagId bag" "\<And>bag. bag_ok bag \<Longrightarrow> bag_ok (f bag)"
  shows "bags_inv {} (update_bag r f st)"
proof -
  obtain bag where bag: "bags st r = Some bag" using held_live [OF inv held] by blast
  from bags_inv_set [OF inv bag update_bag_set [OF bag bags_invD(10) [OF inv]]] f bags_invD(3) [OF inv bag] show ?thesis by blast
qed

theorem run_call_inv:
  assumes inv: "bags_inv {} st" and ok: "call_ok st c"
  shows "\<exists>st'. run_call env c st = Some st' \<and> bags_inv {} st'"
proof (cases c)
  case (Call_Register i p)
  then show ?thesis using RegisterStateBag_inv [OF inv, of i p] by auto
next
  case (Call_SetKey r source k v replicated)
  then obtain bag where "bags st r = Some bag" "v \<noteq> []" "holders st r > 0" using held_live [OF inv] ok by (auto simp: call_ok_def)
  with SetKey_inv [OF inv this(1,2)] show ?thesis using Call_SetKey by simp
next
  case (Call_SendQueued r)
  then obtain bag where bag: "bags st r = Some bag" "holders st r > 0" using held_live [OF inv] ok by (auto simp: call_ok_def)
  have "distinct (update_targets bag st)" using bags_invD(3,9) [OF inv] bag(1) by (auto simp: bag_ok_def strict_sorted_iff)
  from SendQueuedUpdates_spec [OF bag(1) bags_invD(10) [OF inv] this] obtain st' out where
    "SendQueuedUpdates r st = Some st'" "bags_set st r (bag\<lparr>m_replicateData := []\<rparr>) st' out" by blast
  with bags_inv_set [OF inv bag(1) this(2)] bags_invD(3) [OF inv bag(1)] bag(2) show ?thesis using Call_SendQueued by (simp add: bag_ok_def)
next
  case (Call_SetTargets r peers)
  then obtain bag where bag: "bags st r = Some bag" "holders st r > 0" "sorted_wrt (<) peers" using held_live [OF inv] ok by (auto simp: call_ok_def)
  from SetRoutingTargets_spec [OF bag(1) bags_invD(10) [OF inv] bag(3)] obtain st' out where
    "SetRoutingTargets r peers st = Some st'" "bags_set st r (bag\<lparr>m_routingTargets := peers\<rparr>) st' out" by blast
  with bags_inv_set [OF inv bag(1) this(2)] bags_invD(3) [OF inv bag(1)] bag bag_ok_routing show ?thesis using Call_SetTargets by simp
next
  case (Call_AddTarget r peer)
  then obtain bag where bag: "bags st r = Some bag" "holders st r > 0" using held_live [OF inv] ok by (auto simp: call_ok_def)
  show ?thesis
  proof (cases "peer \<in> set (m_routingTargets bag)")
    case True
    then show ?thesis using AddRoutingTarget_present [OF bag(1) True] inv bag(2) Call_AddTarget by simp
  next
    case False
    from AddRoutingTarget_spec [OF bag(1) bags_invD(10) [OF inv] False] obtain st' out where
      "AddRoutingTarget r peer st = Some st'" "bags_set st r (bag\<lparr>m_routingTargets := insort peer (m_routingTargets bag)\<rparr>) st' out" by blast
    with bags_inv_set [OF inv bag(1) this(2)] bags_invD(3) [OF inv bag(1)] bag(2) bag_ok_insort False show ?thesis using Call_AddTarget by simp
  qed
next
  case (Call_Packet source d)
  then show ?thesis using bag_HandlePacket_inv(1) [OF inv, of env source d] by auto
next
  case (Call_PacketV2 source m)
  then show ?thesis using bag_HandlePacket_inv(2) [OF inv, of env source m] by auto
next
  case (Call_RemoveTarget r peer)
  then show ?thesis using update_bag_inv [OF inv, of r] ok bag_ok_remove by (simp add: call_ok_def RemoveRoutingTarget_def)
next
  case (Call_SetOwner r peer)
  then show ?thesis using update_bag_inv [OF inv, of r] ok by (simp add: call_ok_def SetOwningPeer_def bag_ok_def)
next
  case (Call_Immediate r enabled)
  then show ?thesis using update_bag_inv [OF inv, of r] ok by (simp add: call_ok_def EnableImmediateReplication_def bag_ok_def)
next
  case (Call_AddPrefix i p)
  then show ?thesis using inv unfolding bags_inv_def owned_def buffer_ready_def by (simp add: AddSafePreCreatePrefix_def)
next
  case (Call_SetRole role)
  then show ?thesis using inv unfolding bags_inv_def owned_def buffer_ready_def by simp
qed (use ok GetStateBag_inv [OF inv] release_bag_inv [OF inv] bag_RegisterTarget_inv [OF inv] bag_UnregisterTarget_inv [OF inv]
    StateBags_OnTick_inv [OF inv] run_task_inv [OF inv] in \<open>simp_all add: call_ok_def\<close>)

inductive bags_reachable :: "bag_env \<Rightarrow> state_bags \<Rightarrow> bool" for env where
  start: "bags_reachable env (StateBags_make role)"
| step: "bags_reachable env st \<Longrightarrow> call_ok st c \<Longrightarrow> run_call env c st = Some st' \<Longrightarrow> bags_reachable env st'"

lemma bags_reachable_inv: "bags_reachable env st \<Longrightarrow> bags_inv {} st"
proof (induction rule: bags_reachable.induct)
  case (step st c st')
  from run_call_inv [OF step.IH step.hyps(2), of env] step.hyps(3) show ?case by simp
qed (rule bags_inv_start)

end
