(* ===== verification/StateBagReplicas.thy ===== *)
theory StateBagReplicas
  imports StateBagSteps
begin

text \<open>
  Replication: what a routing target was sent since it joined a bag, applied in order to an empty map,
  is the data of the bag. \<open>synced\<close> is the invariant, kept by every call that replicates.
\<close>

lemma fold_apply_update:
  assumes "map_ok d" "\<forall>(k, v)\<in>set d. hd v \<noteq> MsgPackNil"
  shows "fold apply_update d m = m ++ map_of d"
  using assms
proof (induction d arbitrary: m)
  case (Cons x d)
  obtain k v where x: "x = (k, v)" by force
  have k: "map_of d k = None" using Cons.prems(1) by (force simp: x map_of_eq_None_iff)
  have "fold apply_update (x # d) m = (m(k \<mapsto> v)) ++ map_of d"
    using Cons by (simp add: x)
  also have "\<dots> = m ++ map_of (x # d)" using k by (auto simp: x map_add_def fun_eq_iff split: option.splits)
  finally show ?case .
qed simp

lemma bag_data_replay:
  assumes "bag_ok bag"
  shows "fold apply_update (m_bagData bag) Map.empty = map_of (m_bagData bag)"
    "fold apply_update (m_bagData bag) (map_of (m_bagData bag)) = map_of (m_bagData bag)"
proof -
  have "map_ok (m_bagData bag)" "\<forall>(k, v)\<in>set (m_bagData bag). hd v \<noteq> MsgPackNil" using assms by (auto simp: bag_ok_def)
  from fold_apply_update [OF this] show "fold apply_update (m_bagData bag) Map.empty = map_of (m_bagData bag)"
    "fold apply_update (m_bagData bag) (map_of (m_bagData bag)) = map_of (m_bagData bag)"
    by (auto simp: map_add_def fun_eq_iff split: option.splits)
qed

text \<open>Everything that is stored or waits to be stored fits in a packet.\<close>

definition all_fit :: "state_bags \<Rightarrow> bool" where
  "all_fit st \<longleftrightarrow> (\<forall>r bag. bags st r = Some bag \<longrightarrow> bag_data_fits bag) \<and>
     (\<forall>task\<in>set (bagTasks st). \<forall>bag. bags st (taskBag task) = Some bag \<longrightarrow> bag_fits (m_bagId bag) (taskKey task) (taskData task))"

definition synced :: "int \<Rightarrow> bag_ref \<Rightarrow> u8 list \<Rightarrow> nat \<Rightarrow> state_bags \<Rightarrow> bool" where
  "synced t r nm n st \<longleftrightarrow> holders st r > 0 \<and> n \<le> length (bagSent st) \<and>
     (\<exists>bag. bags st r = Some bag \<and> m_bagId bag = nm \<and> \<not> m_useParentTargets bag \<and> t \<in> set (m_routingTargets bag)
        \<and> m_replicationEnabled bag \<and> m_replicateData bag = []
        \<and> fold apply_update (sent_updates t (m_bagId bag) (drop n (bagSent st))) Map.empty = map_of (m_bagData bag))"

lemma synced_keep:
  assumes syn: "synced t r nm n st" and bag: "bags st r = Some bag" and held: "holders st' r > 0"
    and new: "bags st' r = Some new" "m_bagId new = m_bagId bag" "\<not> m_useParentTargets new" "t \<in> set (m_routingTargets new)"
      "m_replicationEnabled new" "m_replicateData new = []"
    and sent: "bagSent st' = bagSent st @ out"
    and data: "fold apply_update (sent_updates t (m_bagId bag) out) (map_of (m_bagData bag)) = map_of (m_bagData new)"
  shows "synced t r nm n st'"
proof -
  have n: "n \<le> length (bagSent st)" and nm: "m_bagId bag = nm"
    and old: "fold apply_update (sent_updates t (m_bagId bag) (drop n (bagSent st))) Map.empty = map_of (m_bagData bag)"
    using syn bag by (auto simp: synced_def)
  have "drop n (bagSent st') = drop n (bagSent st) @ out" using n sent by simp
  then have "fold apply_update (sent_updates t (m_bagId new) (drop n (bagSent st'))) Map.empty = map_of (m_bagData new)"
    using old data new(2) by simp
  then show ?thesis using new held n nm sent by (auto simp: synced_def)
qed

text \<open>A call that leaves the bag and its updates alone.\<close>

lemma synced_same:
  assumes syn: "synced t r nm n st" and "bags st' r = bags st r" "holders st' r > 0" "bagSent st' = bagSent st"
  shows "synced t r nm n st'"
  using assms by (auto simp: synced_def)

lemma all_fit_bags:
  assumes "all_fit st" "\<And>s bag. bags st' s = Some bag \<Longrightarrow> bag_data_fits bag \<and> (\<forall>old. bags st s = Some old \<longrightarrow> m_bagId bag = m_bagId old)"
    and "set (bagTasks st') \<subseteq> set (bagTasks st)" "\<And>task. task \<in> set (bagTasks st) \<Longrightarrow> bags st (taskBag task) \<noteq> None"
  shows "all_fit st'"
  using assms unfolding all_fit_def by (metis (no_types, lifting) not_None_eq subset_iff)

lemma task_bags_live: "bags_inv R st \<Longrightarrow> task \<in> set (bagTasks st) \<Longrightarrow> bags st (taskBag task) \<noteq> None"
  using bags_invD(5) [of R st "taskBag task"] by (auto simp: owned_def)

lemma synced_set:
  assumes inv: "bags_inv {} st" and fit: "all_fit st" and syn: "synced t r nm n st"
    and old: "bags st s = Some old" and upd: "bags_set st s new st' out"
    and new: "m_bagId new = m_bagId old" "bag_data_fits new"
    and foreign: "\<And>i. i \<noteq> m_bagId old \<Longrightarrow> sent_updates t i out = []"
    and self: "s = r \<Longrightarrow> \<not> m_useParentTargets new \<and> t \<in> set (m_routingTargets new) \<and> m_replicationEnabled new \<and> m_replicateData new = []
        \<and> fold apply_update (sent_updates t (m_bagId old) out) (map_of (m_bagData old)) = map_of (m_bagData new)"
  shows "all_fit st' \<and> synced t r nm n st'"
proof
  note k = bags_set_keeps [OF upd]
  show "all_fit st'"
    by (rule all_fit_bags [OF fit]) (use k old new fit task_bags_live [OF inv] in \<open>auto simp: all_fit_def split: if_splits\<close>)
  obtain bag where bag: "bags st r = Some bag" and held: "holders st r > 0" using syn by (auto simp: synced_def)
  show "synced t r nm n st'"
  proof (cases "s = r")
    case True
    then show ?thesis using self [OF True] bag old new held
      by (intro synced_keep [OF syn bag, of st' new out]) (simp_all add: k)
  next
    case False
    have "m_bagId bag \<noteq> m_bagId old" using bag_names_unique [OF inv bag old] False by auto
    then show ?thesis using foreign syn bag False held
      by (intro synced_keep [OF syn bag, of st' bag out]) (auto simp: k synced_def)
  qed
qed

lemma SetKeyInternal_synced:
  assumes inv: "bags_inv {} st" and fit: "all_fit st" and syn: "synced t r nm n st"
    and bag: "bags st s = Some bag" and fits: "bag_fits (m_bagId bag) k v" and rep: "s = r \<longrightarrow> replicated"
    and step: "SetKeyInternal s k v replicated st = Some st'"
  shows "all_fit st' \<and> synced t r nm n st'"
proof -
  have v: "v \<noteq> []" using fits by (simp add: bag_fits_def)
  from SetKeyInternal_spec [OF bag v bags_invD(10) [OF inv] bags_invD(3) [OF inv bag] bags_invD(9) [OF inv], of k replicated]
  obtain d q out where upd: "bags_set st s (bag\<lparr>m_bagData := d, m_replicateData := q\<rparr>) st' out"
    and d: "map_of d = apply_update (k, v) (map_of (m_bagData bag))" "set d \<subseteq> insert (k, v) (set (m_bagData bag))"
    and q: "q = (if (replicated \<and> map_of d \<noteq> map_of (m_bagData bag)) \<and> \<not> m_replicationEnabled bag
      then m_replicateData (queue_update k v bag) else m_replicateData bag)"
    and out: "conveys out (\<lambda>u i. if (replicated \<and> map_of d \<noteq> map_of (m_bagData bag)) \<and> m_replicationEnabled bag
            \<and> u \<in> set (update_targets bag st) \<and> i = m_bagId bag then [(k, v)] else [])"
    using step fits by (auto simp: Let_def)
  have "set q \<subseteq> insert (k, v) (set (m_replicateData bag))" using q by (auto simp: queue_update_def)
  then have fits': "bag_data_fits (bag\<lparr>m_bagData := d, m_replicateData := q\<rparr>)"
    using d(2) fit bag fits by (fastforce simp: all_fit_def bag_data_fits_def)
  show ?thesis
  proof (rule synced_set [OF inv fit syn bag upd])
    show "sent_updates t i out = []" if "i \<noteq> m_bagId bag" for i using out that by (simp add: conveys_def)
    assume "s = r"
    then have "\<not> m_useParentTargets bag" "t \<in> set (m_routingTargets bag)" "m_replicationEnabled bag" "m_replicateData bag = []" replicated
      using syn bag rep by (auto simp: synced_def)
    then show "\<not> m_useParentTargets (bag\<lparr>m_bagData := d, m_replicateData := q\<rparr>) \<and> t \<in> set (m_routingTargets (bag\<lparr>m_bagData := d, m_replicateData := q\<rparr>))
      \<and> m_replicationEnabled (bag\<lparr>m_bagData := d, m_replicateData := q\<rparr>) \<and> m_replicateData (bag\<lparr>m_bagData := d, m_replicateData := q\<rparr>) = []
      \<and> fold apply_update (sent_updates t (m_bagId bag) out) (map_of (m_bagData bag)) = map_of (m_bagData (bag\<lparr>m_bagData := d, m_replicateData := q\<rparr>))"
      using out d(1) q by (auto simp: conveys_def)
  qed (use fits' in simp_all)
qed

lemma SetKey_synced:
  assumes inv: "bags_inv {} st" and fit: "all_fit st" and syn: "synced t r nm n st"
    and bag: "bags st s = Some bag" and fits: "bag_fits (m_bagId bag) k v" and rep: "s = r \<longrightarrow> replicated"
    and step: "SetKey env s source k v replicated st = Some st'"
  shows "all_fit st' \<and> synced t r nm n st'"
proof (rule SetKey_cases [OF bag, of env source k v replicated])
  assume "SetKey env s source k v replicated st = Some (st\<lparr>bagTasks := bagTasks st @
        [\<lparr>taskBag = s, taskSource = source, taskKey = k, taskData = v, taskReplicated = replicated\<rparr>]\<rparr>)"
  then show ?thesis using step fit syn fits bag by (auto simp: all_fit_def synced_def)
qed (use step fit syn SetKeyInternal_synced [OF inv fit syn bag fits rep] in auto)

lemma handle_bag_message_synced:
  assumes inv: "bags_inv {} st" and fit: "all_fit st" and syn: "synced t r nm n st"
    and fits: "bag_fits i k v" and role: "m_role st = Role_Server"
    and step: "handle_bag_message env source i k v st = Some (st', name)"
  shows "all_fit st' \<and> synced t r nm n st'"
proof -
  obtain res st1 where f: "find_or_create_bag i st = (res, st1)" "bags_inv {} st1" "same_output st st1"
    and keep: "\<forall>s. bags st s \<noteq> None \<longrightarrow> bags st1 s = bags st s \<and> holders st1 s = holders st s"
    and new: "\<forall>s bag. bags st1 s = Some bag \<longrightarrow> bags st s = Some bag \<or> bags st s = None \<and> m_bagData bag = [] \<and> m_replicateData bag = []
         \<and> fst (IsSafePreCreateName st (m_bagId bag))"
    and live: "case res of None \<Rightarrow> st1 = st \<and> lock_bag st i = None | Some r \<Rightarrow> \<exists>bag. bags st1 r = Some bag \<and> m_bagId bag = i"
    using find_or_create_bag_spec [OF inv, of i] by blast
  have fit1: "all_fit st1"
  proof (rule all_fit_bags [OF fit])
    show "bag_data_fits bag \<and> (\<forall>old. bags st s = Some old \<longrightarrow> m_bagId bag = m_bagId old)" if "bags st1 s = Some bag" for s bag
      using new that fit by (fastforce simp: all_fit_def bag_data_fits_def)
  qed (use f(3) task_bags_live [OF inv] in \<open>auto simp: same_output_def\<close>)
  have held: "holders st1 r > 0" using keep syn by (auto simp: synced_def)
  have syn1: "synced t r nm n st1"
    by (rule synced_same [OF syn]) (use keep syn f(3) held in \<open>auto simp: synced_def same_output_def\<close>)
  show ?thesis
  proof (cases res)
    case None
    then show ?thesis using step f(1) fit1 syn1 by (simp add: handle_bag_message_def)
  next
    case (Some s)
    then obtain bag where bag: "bags st1 s = Some bag" "m_bagId bag = i" using live by auto
    have "m_role st1 = Role_Server" using role f(3) by (simp add: same_output_def)
    then show ?thesis
      using step f(1) Some bag fit1 syn1 fits SetKey_synced [OF f(2) fit1 syn1 bag(1), of k v True env source]
      by (auto simp: handle_bag_message_def split: if_splits)
  qed
qed

subsection \<open>Calls that replicate\<close>

text \<open>
  A change of the bag \<open>r\<close> has to be replicated, it has to stay a bag with \<open>t\<close> as a target and immediate
  replication, the caller keeps a reference, and every change, of any bag, has to fit in a packet.
\<close>

definition replicates :: "int \<Rightarrow> bag_ref \<Rightarrow> state_bags \<Rightarrow> bag_call \<Rightarrow> bool" where
  "replicates t r st c \<longleftrightarrow> call_ok st c \<and> (case c of
       Call_Release s \<Rightarrow> s = r \<longrightarrow> holders st r > 1
     | Call_SetKey s _ k v replicated \<Rightarrow> (s = r \<longrightarrow> replicated) \<and> (\<forall>bag. bags st s = Some bag \<longrightarrow> bag_fits (m_bagId bag) k v)
     | Call_Immediate s enabled \<Rightarrow> s = r \<longrightarrow> enabled
     | Call_SetTargets s peers \<Rightarrow> s = r \<longrightarrow> t \<in> set peers
     | Call_RemoveTarget s peer \<Rightarrow> s = r \<longrightarrow> peer \<noteq> t
     | Call_UnregisterTarget u \<Rightarrow> u \<noteq> t
     | Call_Packet _ d \<Rightarrow> m_role st = Role_Server \<and> (\<forall>i k v. parse_bag_packet d = Some (Some (i, k, v)) \<longrightarrow> bag_fits i k v)
     | Call_PacketV2 _ m \<Rightarrow> m_role st = Role_Server
         \<and> bag_fits (StateBagV2.stateBagName m) (StateBagV2.key m) (StateBagV2.data m)
     | Call_Task \<Rightarrow> (\<forall>task rest. bagTasks st = task # rest \<longrightarrow> taskBag task = r \<longrightarrow> taskReplicated task)
     | _ \<Rightarrow> True)"

lemma fold_apply_pieces:
  assumes "\<forall>us\<in>set uss. us = [] \<or> us = d" "map_ok d" "\<forall>(k, v)\<in>set d. hd v \<noteq> MsgPackNil"
  shows "fold apply_update (concat uss) (map_of d) = map_of d"
proof -
  have "map_of d ++ map_of d = map_of d" by (auto simp: map_add_def fun_eq_iff split: option.splits)
  then show ?thesis
    using assms(1) by (induction uss) (auto simp: fold_apply_update [OF assms(2,3)])
qed

lemma RegisterTarget_synced:
  assumes inv: "bags_inv {} st" and fit: "all_fit st" and syn: "synced t r nm n st" and step: "bag_RegisterTarget u st = Some st'"
  shows "all_fit st' \<and> synced t r nm n st'"
proof (cases "u \<in> set (m_bagTargets st)")
  case True
  then show ?thesis using step fit syn by (simp add: bag_RegisterTarget_def)
next
  case False
  obtain bag where bag: "bags st r = Some bag" and b: "\<not> m_useParentTargets bag" "t \<in> set (m_routingTargets bag)"
      "m_replicationEnabled bag" "m_replicateData bag = []" and held: "holders st r > 0" using syn by (auto simp: synced_def)
  from bag_RegisterTarget_spec [OF bags_invD(10) [OF inv] False] step obtain out where
    sends: "sends (st\<lparr>m_bagTargets := m_bagTargets st @ [u]\<rparr>) st' out"
    and out: "conveys out (\<lambda>u' i. concat (map (\<lambda>(_, r). initial_updates st u u' i r) (m_stateBags st)))"
    using fit by (auto simp: all_fit_def)
  note k = sends_keeps [OF sends, simplified]
  have "all_fit st'" using fit k unfolding all_fit_def by simp
  moreover have "synced t r nm n st'"
  proof (rule synced_keep [OF syn bag, of st' bag out])
    have "initial_updates st u t (m_bagId bag) s = [] \<or> initial_updates st u t (m_bagId bag) s = m_bagData bag" for s
      using bag_names_unique [OF inv _ bag, of s] bag by (auto simp: initial_updates_def split: option.splits)
    moreover have "map_ok (m_bagData bag)" "\<forall>(k, v)\<in>set (m_bagData bag). hd v \<noteq> MsgPackNil"
      using bags_invD(3) [OF inv bag] by (auto simp: bag_ok_def)
    moreover have "sent_updates t (m_bagId bag) out = concat (map (\<lambda>(_, r). initial_updates st u t (m_bagId bag) r) (m_stateBags st))"
      using out by (simp add: conveys_def)
    ultimately show "fold apply_update (sent_updates t (m_bagId bag) out) (map_of (m_bagData bag)) = map_of (m_bagData bag)"
      using fold_apply_pieces [of "map (\<lambda>(_, r). initial_updates st u t (m_bagId bag) r) (m_stateBags st)" "m_bagData bag"] by fastforce
  qed (use k bag b held in auto)
  ultimately show ?thesis ..
qed

lemma release_bag_other:
  assumes "s \<noteq> r"
  shows "bags (release_bag s st) r = bags st r" "holders (release_bag s st) r = holders st r"
  using assms by (auto simp: release_bag_def destroy_unowned_def UnregisterStateBag_def split: option.splits)

lemma destroy_unowned_sub:
  "bags (destroy_unowned s st) q = Some bag \<Longrightarrow> bags st q = Some bag"
  "bagTasks (destroy_unowned s st) = bagTasks st" "bagSent (destroy_unowned s st) = bagSent st"
  "holders (destroy_unowned s st) = holders st" "holders st q > 0 \<Longrightarrow> bags (destroy_unowned s st) q = bags st q"
  by (auto simp: destroy_unowned_def UnregisterStateBag_def owned_def split: option.splits if_splits)

lemma release_synced:
  assumes inv: "bags_inv {} st" and fit: "all_fit st" and syn: "synced t r nm n st" and "s = r \<longrightarrow> holders st r > 1"
  shows "all_fit (release_bag s st) \<and> synced t r nm n (release_bag s st)"
proof
  let ?st = "st\<lparr>holders := (holders st)(s := holders st s - 1)\<rparr>"
  have held: "holders ?st r > 0" using assms(3,4) by (auto simp: synced_def)
  show "all_fit (release_bag s st)"
    by (rule all_fit_bags [OF fit])
      (use fit task_bags_live [OF inv] in \<open>auto simp: release_bag_def all_fit_def destroy_unowned_sub(2) dest!: destroy_unowned_sub(1)\<close>)
  show "synced t r nm n (release_bag s st)"
    by (rule synced_same [OF syn]) (use held destroy_unowned_sub(5) [OF held] in \<open>simp_all add: release_bag_def destroy_unowned_sub(3,4)\<close>)
qed

lemma all_fitD: "all_fit st \<Longrightarrow> bags st r = Some bag \<Longrightarrow> bag_data_fits bag"
  by (simp add: all_fit_def)

lemma bag_data_fits_routing [simp]: "bag_data_fits (bag\<lparr>m_routingTargets := ts\<rparr>) = bag_data_fits bag"
  by (simp add: bag_data_fits_def)

lemma new_bag_fits: "bag_data_fits (StateBagImpl_make i p)"
  by (simp add: bag_data_fits_def StateBagImpl_make_def)

lemma RegisterStateBag_synced:
  assumes inv: "bags_inv {} st" and fit: "all_fit st" and syn: "synced t r nm n st"
  shows "all_fit (snd (RegisterStateBag i p st)) \<and> synced t r nm n (snd (RegisterStateBag i p st))"
proof -
  obtain s st' where e: "RegisterStateBag i p st = (s, st')" by force
  have out: "same_output st st'" using RegisterStateBag_output [of st i p] e by simp
  have held: "holders st r > 0" using syn by (simp add: synced_def)
  then have live: "bags st r \<noteq> None" using held_live [OF inv] by auto
  have "(bags st' = bags st \<or> (bags st s = None \<and> bags st' = (bags st)(s \<mapsto> StateBagImpl_make i p))) \<and> holders st' r > 0"
  proof (cases "i \<in> set (m_erasureList st) \<or> lock_bag st i = None")
    case True
    from RegisterStateBag_new [OF inv True, of p] e live held show ?thesis by (cases "r = s") auto
  next
    case False
    then obtain q where q: "lock_bag st i = Some q" by auto
    have "RegisterStateBag i p st = (q, hold_bag q (st\<lparr>m_preCreatedStateBags := removeAll q (m_preCreatedStateBags st)\<rparr>))"
      if "i \<notin> set (m_erasureList st)" using that q by (simp add: RegisterStateBag_def Let_def lock_bag_def)
    then show ?thesis using False e held by (auto simp: hold_bag_def)
  qed
  then have b: "bags st' = bags st \<or> (bags st s = None \<and> bags st' = (bags st)(s \<mapsto> StateBagImpl_make i p))"
    and h: "holders st' r > 0" by blast+
  have "all_fit st'"
  proof (rule all_fit_bags [OF fit])
    show "bag_data_fits bag \<and> (\<forall>old. bags st q = Some old \<longrightarrow> m_bagId bag = m_bagId old)" if "bags st' q = Some bag" for q bag
      using b that all_fitD [OF fit, of q bag] new_bag_fits by (auto split: if_splits)
  qed (use out task_bags_live [OF inv] in \<open>auto simp: same_output_def\<close>)
  moreover have "synced t r nm n st'"
    by (rule synced_same [OF syn]) (use b live h out in \<open>auto simp: same_output_def\<close>)
  ultimately show ?thesis by (simp add: e)
qed

lemma update_bag_synced:
  assumes inv: "bags_inv {} st" and fit: "all_fit st" and syn: "synced t r nm n st" and held: "holders st s > 0"
    and f: "\<And>bag. m_bagId (f bag) = m_bagId bag \<and> m_bagData (f bag) = m_bagData bag \<and> m_replicateData (f bag) = m_replicateData bag
        \<and> m_useParentTargets (f bag) = m_useParentTargets bag"
    and self: "\<And>bag. s = r \<Longrightarrow> t \<in> set (m_routingTargets bag) \<Longrightarrow> t \<in> set (m_routingTargets (f bag))"
      "\<And>bag. s = r \<Longrightarrow> m_replicationEnabled bag \<Longrightarrow> m_replicationEnabled (f bag)"
  shows "all_fit (update_bag s f st) \<and> synced t r nm n (update_bag s f st)"
proof -
  obtain bag where bag: "bags st s = Some bag" using held_live [OF inv held] by blast
  show ?thesis
  proof (rule synced_set [OF inv fit syn bag update_bag_set [OF bag bags_invD(10) [OF inv], of f]])
    show "bag_data_fits (f bag)" using fit bag f by (auto simp: all_fit_def bag_data_fits_def)
  qed (use f self syn bag in \<open>auto simp: synced_def\<close>)
qed

lemma run_task_synced:
  assumes inv: "bags_inv {} st" and fit: "all_fit st" and syn: "synced t r nm n st"
    and rep: "\<forall>task rest. bagTasks st = task # rest \<longrightarrow> taskBag task = r \<longrightarrow> taskReplicated task"
    and step: "run_task env st = Some st'"
  shows "all_fit st' \<and> synced t r nm n st'"
proof (cases "bagTasks st")
  case Nil
  then show ?thesis using step fit syn by (simp add: run_task_def)
next
  case (Cons task rest)
  let ?s = "taskBag task"
  obtain bag where bag: "bags st ?s = Some bag" using task_bags_live [OF inv, of task] Cons by auto
  have fits: "bag_fits (m_bagId bag) (taskKey task) (taskData task)" using fit Cons bag by (auto simp: all_fit_def)
  obtain st1 where st1: "all_fit st1" "synced t r nm n st1" "bags_inv {} st1" "bagTasks st1 = task # rest"
    and st': "st' = destroy_unowned ?s (st1\<lparr>bagTasks := rest\<rparr>)"
  proof (cases "OnStateBagChange env (taskSource task) (m_bagId bag) (taskKey task) (taskData task) (taskReplicated task)")
    case False
    then show ?thesis using that [of st] fit syn inv Cons step bag by (simp add: run_task_def)
  next
    case True
    have v: "taskData task \<noteq> []" using fits by (simp add: bag_fits_def)
    from SetKeyInternal_spec [OF bag v bags_invD(10) [OF inv] bags_invD(3) [OF inv bag] bags_invD(9) [OF inv], of "taskKey task" "taskReplicated task"]
    obtain st1 d q out where 1: "SetKeyInternal ?s (taskKey task) (taskData task) (taskReplicated task) st = Some st1"
      "bags_set st ?s (bag\<lparr>m_bagData := d, m_replicateData := q\<rparr>) st1 out" by blast
    moreover have "bags_inv {} st1" using SetKeyInternal_inv [OF inv bag v, of "taskKey task" "taskReplicated task"] 1(1) by simp
    moreover have "all_fit st1 \<and> synced t r nm n st1"
      by (rule SetKeyInternal_synced [OF inv fit syn bag fits _ 1(1)]) (use rep Cons in auto)
    ultimately show ?thesis using that [of st1] bags_set_keeps(10) [OF 1(2)] Cons True step bag by (simp add: run_task_def)
  qed
  let ?st2 = "st1\<lparr>bagTasks := rest\<rparr>"
  have held: "holders ?st2 r > 0" using st1(2) by (simp add: synced_def)
  show ?thesis unfolding st'
  proof
    show "all_fit (destroy_unowned ?s ?st2)"
      by (rule all_fit_bags [OF st1(1)])
        (use st1(1,4) task_bags_live [OF st1(3)] in \<open>auto simp: all_fit_def destroy_unowned_sub(2) dest!: destroy_unowned_sub(1)\<close>)
    show "synced t r nm n (destroy_unowned ?s ?st2)"
      by (rule synced_same [OF st1(2)]) (use held destroy_unowned_sub(5) [OF held] in \<open>simp_all add: destroy_unowned_sub(3,4)\<close>)
  qed
qed

lemma SendQueued_synced:
  assumes inv: "bags_inv {} st" and fit: "all_fit st" and syn: "synced t r nm n st" and bag: "bags st s = Some bag"
    and step: "SendQueuedUpdates s st = Some st'"
  shows "all_fit st' \<and> synced t r nm n st'"
proof -
  have "distinct (update_targets bag st)" using bags_invD(3,9) [OF inv] bag by (auto simp: bag_ok_def strict_sorted_iff)
  moreover have "bag_data_fits bag" using fit bag by (simp add: all_fit_def)
  ultimately obtain out where out: "bags_set st s (bag\<lparr>m_replicateData := []\<rparr>) st' out"
    "conveys out (\<lambda>u i. if u \<in> set (update_targets bag st) \<and> i = m_bagId bag then m_replicateData bag else [])"
    using SendQueuedUpdates_spec [OF bag bags_invD(10) [OF inv]] step by auto
  show ?thesis
    by (rule synced_set [OF inv fit syn bag out(1)])
      (use out(2) syn bag fit in \<open>auto simp: conveys_def synced_def all_fit_def bag_data_fits_def\<close>)
qed

lemma SetTargets_synced:
  assumes inv: "bags_inv {} st" and fit: "all_fit st" and syn: "synced t r nm n st" and bag: "bags st s = Some bag"
    and ps: "sorted_wrt (<) peers" "s = r \<longrightarrow> t \<in> set peers"
    and step: "SetRoutingTargets s peers st = Some st'"
  shows "all_fit st' \<and> synced t r nm n st'"
proof -
  have fits: "bag_data_fits bag" using fit bag by (simp add: all_fit_def)
  then obtain out where out: "bags_set st s (bag\<lparr>m_routingTargets := peers\<rparr>) st' out"
    "conveys out (\<lambda>u i. if u \<in> set peers - set (m_routingTargets bag) \<and> i = m_bagId bag then m_bagData bag else [])"
    using SetRoutingTargets_spec [OF bag bags_invD(10) [OF inv] ps(1)] step by auto
  show ?thesis
    by (rule synced_set [OF inv fit syn bag out(1)])
      (use out(2) syn bag fits ps(2) in \<open>auto simp: conveys_def synced_def bag_data_fits_def\<close>)
qed

lemma AddTarget_synced:
  assumes inv: "bags_inv {} st" and fit: "all_fit st" and syn: "synced t r nm n st" and bag: "bags st s = Some bag"
    and step: "AddRoutingTarget s peer st = Some st'"
  shows "all_fit st' \<and> synced t r nm n st'"
proof (cases "peer \<in> set (m_routingTargets bag)")
  case True
  then show ?thesis using step bag fit syn by (simp add: AddRoutingTarget_present)
next
  case False
  have fits: "bag_data_fits bag" using fit bag by (simp add: all_fit_def)
  then obtain out where out: "bags_set st s (bag\<lparr>m_routingTargets := insort peer (m_routingTargets bag)\<rparr>) st' out"
    "conveys out (\<lambda>u i. if u = peer \<and> i = m_bagId bag then m_bagData bag else [])"
    using AddRoutingTarget_spec [OF bag bags_invD(10) [OF inv] False] step by auto
  show ?thesis
    by (rule synced_set [OF inv fit syn bag out(1)])
      (use out(2) syn bag fits False in \<open>auto simp: conveys_def synced_def bag_data_fits_def set_insort_key\<close>)
qed

lemma packets_synced:
  assumes inv: "bags_inv {} st" and fit: "all_fit st" and syn: "synced t r nm n st" and role: "m_role st = Role_Server"
  shows "\<forall>i k v. parse_bag_packet d = Some (Some (i, k, v)) \<longrightarrow> bag_fits i k v \<Longrightarrow>
      bag_HandlePacket env source d st = Some (st', name) \<Longrightarrow> all_fit st' \<and> synced t r nm n st'"
    "bag_fits (StateBagV2.stateBagName m) (StateBagV2.key m) (StateBagV2.data m) \<Longrightarrow>
      bag_HandlePacketV2 env source m st = Some (st', name) \<Longrightarrow> all_fit st' \<and> synced t r nm n st'"
  using handle_bag_message_synced [OF inv fit syn _ role] fit syn
  by (auto simp: bag_HandlePacket_def bag_HandlePacketV2_def split: option.splits if_splits)

theorem run_call_synced:
  assumes inv: "bags_inv {} st" and fit: "all_fit st" and syn: "synced t r nm n st" and rep: "replicates t r st c"
    and step: "run_call env c st = Some st'"
  shows "all_fit st' \<and> synced t r nm n st'"
proof -
  note upd = update_bag_synced [OF inv fit syn]
  have held: "holders st r > 0" using syn by (simp add: synced_def)
  have live: "\<exists>bag. bags st s = Some bag" if "holders st s > 0" for s using held_live [OF inv that] .
  show ?thesis
  proof (cases c)
    case (Call_Register i p)
    then show ?thesis using RegisterStateBag_synced [OF inv fit syn, of i p] step by auto
  next
    case (Call_Get i)
    then show ?thesis using step fit syn
      by (auto simp: GetStateBag_def hold_bag_def all_fit_def synced_def split: option.splits)
  next
    case (Call_Release s)
    then show ?thesis using release_synced [OF inv fit syn, of s] step rep by (auto simp: replicates_def split: if_splits)
  next
    case (Call_SetKey s source k v replicated)
    then obtain bag where "bags st s = Some bag" using live rep by (auto simp: replicates_def call_ok_def)
    with SetKey_synced [OF inv fit syn this] Call_SetKey step rep show ?thesis by (auto simp: replicates_def split: if_splits)
  next
    case (Call_SetOwner s peer)
    then show ?thesis using upd [of s "\<lambda>bag. bag\<lparr>m_owningPeer := peer\<rparr>"] step
      by (auto simp: SetOwningPeer_def split: if_splits)
  next
    case (Call_Immediate s enabled)
    then show ?thesis using upd [of s "\<lambda>bag. bag\<lparr>m_replicationEnabled := enabled\<rparr>"] step rep
      by (auto simp: EnableImmediateReplication_def replicates_def split: if_splits)
  next
    case (Call_SendQueued s)
    then obtain bag where "bags st s = Some bag" using live rep by (auto simp: replicates_def call_ok_def)
    with SendQueued_synced [OF inv fit syn this] Call_SendQueued step show ?thesis by (auto split: if_splits)
  next
    case (Call_SetTargets s peers)
    then obtain bag where "bags st s = Some bag" using live rep by (auto simp: replicates_def call_ok_def)
    with SetTargets_synced [OF inv fit syn this] Call_SetTargets step rep show ?thesis
      by (auto simp: replicates_def split: if_splits)
  next
    case (Call_AddTarget s peer)
    then obtain bag where "bags st s = Some bag" using live rep by (auto simp: replicates_def call_ok_def)
    with AddTarget_synced [OF inv fit syn this] Call_AddTarget step show ?thesis by (auto split: if_splits)
  next
    case (Call_RemoveTarget s peer)
    then show ?thesis using upd [of s "\<lambda>bag. bag\<lparr>m_routingTargets := removeAll peer (m_routingTargets bag)\<rparr>"] step rep
      by (auto simp: RemoveRoutingTarget_def replicates_def split: if_splits)
  next
    case (Call_RegisterTarget u)
    then show ?thesis using RegisterTarget_synced [OF inv fit syn] step by simp
  next
    case (Call_UnregisterTarget u)
    then have u: "u \<noteq> t" "st' = bag_UnregisterTarget u st" using step rep by (auto simp: replicates_def)
    show ?thesis using fit syn u(1) unfolding u(2) bag_UnregisterTarget_spec [OF inv]
      by (auto simp: all_fit_def synced_def)
  next
    case (Call_AddPrefix i p)
    then show ?thesis using step fit syn by (auto simp: AddSafePreCreatePrefix_def all_fit_def synced_def)
  next
    case (Call_Packet source d)
    then show ?thesis using packets_synced(1) [OF inv fit syn] step rep by (auto simp: replicates_def)
  next
    case (Call_PacketV2 source m)
    then show ?thesis using packets_synced(2) [OF inv fit syn] step rep by (auto simp: replicates_def)
  next
    case Call_Tick
    then show ?thesis using step fit syn
      by (cases "m_erasureList st = []") (auto simp: StateBags_OnTick_def all_fit_def synced_def)
  next
    case Call_Task
    then show ?thesis using run_task_synced [OF inv fit syn] step rep by (simp add: replicates_def)
  next
    case (Call_SetRole role)
    then show ?thesis using step fit syn by (auto simp: all_fit_def synced_def)
  next
    case Call_Reset
    then show ?thesis using rep by (simp add: replicates_def call_ok_def)
  qed
qed

text \<open>A run of calls that replicate, from one state to another.\<close>

inductive replicating_run :: "bag_env \<Rightarrow> int \<Rightarrow> bag_ref \<Rightarrow> state_bags \<Rightarrow> state_bags \<Rightarrow> bool" for env t r where
  refl: "replicating_run env t r st st"
| step: "replicating_run env t r st st' \<Longrightarrow> replicates t r st' c \<Longrightarrow> run_call env c st' = Some st'' \<Longrightarrow> replicating_run env t r st st''"

lemma replicating_run_synced:
  assumes "replicating_run env t r st st'" "bags_inv {} st" "all_fit st" "synced t r nm n st"
  shows "bags_inv {} st' \<and> all_fit st' \<and> synced t r nm n st'"
  using assms
proof (induction rule: replicating_run.induct)
  case (step st st' c st'')
  then have "bags_inv {} st'" "all_fit st'" "synced t r nm n st'" by blast+
  moreover have "bags_inv {} st''"
    using run_call_inv [OF \<open>bags_inv {} st'\<close>, of c env] step.hyps(2,3) by (auto simp: replicates_def)
  ultimately show ?case using run_call_synced [OF _ _ _ step.hyps(2,3)] by blast
qed simp

lemma join_synced:
  assumes inv: "bags_inv {} st" and fit: "all_fit st" and bag: "bags st r = Some bag" and held: "holders st r > 0"
    and b: "\<not> m_useParentTargets bag" "m_replicationEnabled bag" "m_replicateData bag = []" "t \<notin> set (m_routingTargets bag)"
    and step: "AddRoutingTarget r t st = Some st'"
  shows "bags_inv {} st' \<and> all_fit st' \<and> synced t r (m_bagId bag) (length (bagSent st)) st'"
proof -
  have fits: "bag_data_fits bag" using fit bag by (simp add: all_fit_def)
  let ?new = "bag\<lparr>m_routingTargets := insort t (m_routingTargets bag)\<rparr>"
  obtain out where out: "bags_set st r ?new st' out" "conveys out (\<lambda>u i. if u = t \<and> i = m_bagId bag then m_bagData bag else [])"
    using AddRoutingTarget_spec [OF bag bags_invD(10) [OF inv] b(4)] step fits by auto
  note k = bags_set_keeps [OF out(1)]
  have ok: "bag_ok bag" by (rule bags_invD(3) [OF inv bag])
  have "bags_inv {} st'" using bags_inv_set [OF inv bag out(1)] bag_ok_insort [OF ok b(4)] by simp
  moreover have "all_fit st'"
  proof (rule all_fit_bags [OF fit])
    have "bag_data_fits ?new" using fits by (simp add: bag_data_fits_def)
    then show "bag_data_fits b \<and> (\<forall>old. bags st s = Some old \<longrightarrow> m_bagId b = m_bagId old)" if "bags st' s = Some b" for s b
      using that k(7) bag all_fitD [OF fit, of s b] by (auto split: if_splits)
  qed (use k(10) task_bags_live [OF inv] in auto)
  moreover have "synced t r (m_bagId bag) (length (bagSent st)) st'"
    using k held b out(2) bag_data_replay(1) [OF ok] by (auto simp: synced_def conveys_def set_insort_key)
  ultimately show ?thesis by blast
qed

text \<open>From the moment \<open>t\<close> joins.\<close>

lemma replicating_run_joined:
  assumes "bags_inv {} st" "all_fit st" "bags st r = Some bag" "holders st r > 0"
    and "\<not> m_useParentTargets bag" "m_replicationEnabled bag" "m_replicateData bag = []" "t \<notin> set (m_routingTargets bag)"
    and "AddRoutingTarget r t st = Some st1" "replicating_run env t r st1 st2"
  shows "bags_inv {} st2 \<and> all_fit st2 \<and> synced t r (m_bagId bag) (length (bagSent st)) st2"
  using join_synced [OF assms(1-9)] replicating_run_synced [OF assms(10)] by blast

end
