(* ===== verification/StateBagDelivery.thy ===== *)
theory StateBagDelivery
  imports StateBagReplicas
begin

text \<open>
  The receiving side, through its handlers: each packet applies its update to the bag of its name, so a
  peer that handles what it was sent ends with the sender's data. Then who may change a bag, and the
  cases in which the data is lost.
\<close>

definition receive_packet :: "bag_env \<Rightarrow> int \<Rightarrow> bag_packet \<Rightarrow> state_bags \<Rightarrow> state_bags option" where
  "receive_packet env source p st =
     (case p of
        BagPacket q \<Rightarrow> map_option fst (bag_HandlePacket env source (StateBag.data (pdata q)) st)
      | BagPacketV2 q \<Rightarrow> map_option fst (bag_HandlePacketV2 env source (pdata q) st))"

lemma receive_packet_decoded:
  "receive_packet env source p st =
     (case decode_packet p of
        None \<Rightarrow> Some st
      | Some (i, k, v) \<Rightarrow> map_option fst (handle_bag_message env source i k v st))"
proof (cases p)
  case (BagPacket q)
  obtain m where "parse_bag_packet (StateBag.data (pdata q)) = Some m" using parse_bag_packet_total by blast
  then show ?thesis using BagPacket
    by (cases m) (auto simp: receive_packet_def decode_packet_def bag_HandlePacket_def)
next
  case (BagPacketV2 q)
  then show ?thesis by (auto simp: receive_packet_def decode_packet_def bag_HandlePacketV2_def Let_def)
qed

lemma decode_packet_nonempty: "decode_packet p = Some (i, k, v) \<Longrightarrow> v \<noteq> []"
proof (cases p)
  case (BagPacket q)
  assume d: "decode_packet p = Some (i, k, v)"
  obtain m where "parse_bag_packet (StateBag.data (pdata q)) = Some m" "\<forall>i k v. m = Some (i, k, v) \<longrightarrow> i \<noteq> [] \<and> k \<noteq> [] \<and> v \<noteq> []"
    using parse_bag_packet_total by blast
  then show ?thesis using d BagPacket by (simp add: decode_packet_def)
qed (auto simp: decode_packet_def Let_def split: if_splits)

text \<open>Changing one bag leaves the others.\<close>

lemma SetKeyInternal_others:
  assumes inv: "bags_inv {} st" and bag: "bags st s = Some bag" and v: "v \<noteq> []" and step: "SetKeyInternal s k v replicated st = Some st'"
  shows "(\<forall>r. r \<noteq> s \<longrightarrow> bags st' r = bags st r)
    \<and> (\<exists>new. bags st' s = Some new \<and> m_bagId new = m_bagId bag \<and> m_owningPeer new = m_owningPeer bag
         \<and> map_of (m_bagData new) = apply_update (k, v) (map_of (m_bagData bag)))"
proof -
  from SetKeyInternal_spec [OF bag v bags_invD(10) [OF inv] bags_invD(3) [OF inv bag] bags_invD(9) [OF inv], of k replicated]
  obtain d q out where "bags_set st s (bag\<lparr>m_bagData := d, m_replicateData := q\<rparr>) st' out"
    "map_of d = apply_update (k, v) (map_of (m_bagData bag))" using step by auto
  then show ?thesis using bags_set_keeps(7) by fastforce
qed

lemma SetKey_others:
  assumes inv: "bags_inv {} st" and bag: "bags st s = Some bag" and v: "v \<noteq> []" and step: "SetKey env s source k v replicated st = Some st'"
  shows "r \<noteq> s \<Longrightarrow> bags st' r = bags st r"
  by (rule SetKey_cases [OF bag, of env source k v replicated])
    (use step SetKeyInternal_others [OF inv bag v, of k replicated st'] in auto)

text \<open>A message changes at most the bag of its name, and only for its owner.\<close>

lemma handle_bag_message_guard:
  assumes inv: "bags_inv {} st" and v: "v \<noteq> []" and bag: "bags st r = Some bag"
    and other: "m_bagId bag \<noteq> i \<or> (\<exists>q. m_owningPeer bag = Some q \<and> q \<noteq> source)"
    and step: "handle_bag_message env source i k v st = Some (st', name)"
  shows "bags st' r = Some bag"
proof -
  obtain res st1 where f: "find_or_create_bag i st = (res, st1)" "bags_inv {} st1"
    and keep: "\<forall>s. bags st s \<noteq> None \<longrightarrow> bags st1 s = bags st s \<and> holders st1 s = holders st s"
    and live: "case res of None \<Rightarrow> st1 = st \<and> lock_bag st i = None | Some r \<Rightarrow> \<exists>bag. bags st1 r = Some bag \<and> m_bagId bag = i"
    using find_or_create_bag_spec [OF inv, of i] by blast
  have bag1: "bags st1 r = Some bag" using keep bag by auto
  show ?thesis
  proof (cases res)
    case None
    then show ?thesis using step f(1) bag1 by (simp add: handle_bag_message_def)
  next
    case (Some s)
    then obtain b where b: "bags st1 s = Some b" "m_bagId b = i" using live by auto
    show ?thesis
    proof (cases "m_owningPeer b = None \<or> m_owningPeer b = Some source")
      case False
      then show ?thesis using step f(1) bag1 Some b by (simp add: handle_bag_message_def split: if_splits)
    next
      case True
      then have "s \<noteq> r" using other b bag1 by auto
      moreover have "SetKey env s source k v (m_role st1 = Role_Server) st1 = Some st'"
        using step f(1) Some b True by (auto simp: handle_bag_message_def)
      ultimately show ?thesis using SetKey_others [OF f(2) b(1) v] bag1 by metis
    qed
  qed
qed

lemma handle_bag_message_creates:
  assumes inv: "bags_inv {} st" and v: "v \<noteq> []" and step: "handle_bag_message env source i k v st = Some (st', name)"
    and bag: "bags st' r = Some bag" "bags st r = None"
  shows "fst (IsSafePreCreateName st (m_bagId bag))"
proof -
  obtain res st1 where f: "find_or_create_bag i st = (res, st1)" "bags_inv {} st1"
    and new: "\<forall>s bag. bags st1 s = Some bag \<longrightarrow> bags st s = Some bag \<or> bags st s = None \<and> m_bagData bag = [] \<and> m_replicateData bag = []
         \<and> fst (IsSafePreCreateName st (m_bagId bag))"
    and live: "case res of None \<Rightarrow> st1 = st \<and> lock_bag st i = None | Some r \<Rightarrow> \<exists>bag. bags st1 r = Some bag \<and> m_bagId bag = i"
    using find_or_create_bag_spec [OF inv, of i] by blast
  obtain b1 where "bags st1 r = Some b1" "m_bagId b1 = m_bagId bag"
  proof (cases res)
    case None
    then show ?thesis using that step f(1) bag(1) by (auto simp: handle_bag_message_def)
  next
    case (Some s)
    then obtain b where b: "bags st1 s = Some b" using live by auto
    show ?thesis
    proof (cases "m_owningPeer b = None \<or> m_owningPeer b = Some source")
      case False
      then show ?thesis using that step f(1) Some b bag(1) by (auto simp: handle_bag_message_def split: if_splits)
    next
      case True
      then have k: "SetKey env s source k v (m_role st1 = Role_Server) st1 = Some st'"
        using step f(1) Some b by (auto simp: handle_bag_message_def)
      show ?thesis
      proof (cases "r = s")
        case False
        then show ?thesis using that SetKey_others [OF f(2) b v k] bag(1) by simp
      next
        case True
        have "\<exists>new. bags st' s = Some new \<and> m_bagId new = m_bagId b"
          by (rule SetKey_cases [OF b, of env source k v "m_role st1 = Role_Server"])
            (use k b SetKeyInternal_others [OF f(2) b v, of k "m_role st1 = Role_Server" st'] in auto)
        then show ?thesis using that True b bag(1) by auto
      qed
    qed
  qed
  then show ?thesis using new bag(2) by fastforce
qed

text \<open>A received packet is one message with data, or is ignored.\<close>

lemma packet_call_cases:
  assumes "run_call env (Call_Packet source d) st = Some st' \<or> run_call env (Call_PacketV2 source m) st = Some st'"
  shows "st' = st \<or> (\<exists>i k v name. v \<noteq> [] \<and> handle_bag_message env source i k v st = Some (st', name))"
  using assms
proof
  assume step: "run_call env (Call_Packet source d) st = Some st'"
  obtain p where p: "parse_bag_packet d = Some p" "\<forall>i k v. p = Some (i, k, v) \<longrightarrow> i \<noteq> [] \<and> k \<noteq> [] \<and> v \<noteq> []"
    using parse_bag_packet_total by blast
  show ?thesis
  proof (cases p)
    case (Some msg)
    then show ?thesis using step p by (cases msg) (fastforce simp: bag_HandlePacket_def)
  qed (use step p in \<open>simp add: bag_HandlePacket_def\<close>)
next
  assume "run_call env (Call_PacketV2 source m) st = Some st'"
  then show ?thesis by (fastforce simp: bag_HandlePacketV2_def Let_def split: if_splits)
qed

subsection \<open>A replica\<close>

lemma receive_packet_replica:
  assumes inv: "bags_inv {} st" and bag: "bags st r = Some bag" "m_bagId bag = i" "m_owningPeer bag = None \<or> m_owningPeer bag = Some source"
    and env: "\<not> hasChangeHandler env"
  shows "\<exists>st' new. receive_packet env source p st = Some st' \<and> bags_inv {} st' \<and> bags st' r = Some new \<and> m_bagId new = i
    \<and> m_owningPeer new = m_owningPeer bag
    \<and> map_of (m_bagData new) = fold apply_update (case update_in decode_packet i p of None \<Rightarrow> [] | Some u \<Rightarrow> [u]) (map_of (m_bagData bag))"
proof (cases "decode_packet p")
  case None
  then show ?thesis using inv bag by (simp add: receive_packet_decoded update_in_def)
next
  case (Some m)
  obtain j k v where m: "m = (j, k, v)" by (cases m)
  have v: "v \<noteq> []" using decode_packet_nonempty Some m by blast
  obtain st' name where st': "handle_bag_message env source j k v st = Some (st', name)" "bags_inv {} st'"
    using handle_bag_message_inv [OF inv v] by blast
  have rp: "receive_packet env source p st = Some st'" using Some m st'(1) by (simp add: receive_packet_decoded)
  show ?thesis
  proof (cases "j = i")
    case False
    have "bags st' r = Some bag" using handle_bag_message_guard [OF inv v bag(1) _ st'(1)] bag(2) False by blast
    then show ?thesis using rp st'(2) bag Some m False by (simp add: update_in_def)
  next
    case True
    have "find_or_create_bag j st = (Some r, st)" using lock_bag_live [OF inv bag(1)] bag(2) True by (simp add: find_or_create_bag_def)
    then have "SetKeyInternal r k v (m_role st = Role_Server) st = Some st'"
      using st'(1) bag env by (auto simp: handle_bag_message_def SetKey_def)
    from SetKeyInternal_others [OF inv bag(1) v this] show ?thesis using rp st'(2) bag Some m True by (auto simp: update_in_def)
  qed
qed

lemma receive_packets_replica:
  assumes "bags_inv {} st" "bags st r = Some bag" "m_bagId bag = i" "m_owningPeer bag = None \<or> m_owningPeer bag = Some source"
    and env: "\<not> hasChangeHandler env"
  shows "\<exists>st' new. handle_all (receive_packet env source) ps st = Some st' \<and> bags_inv {} st' \<and> bags st' r = Some new \<and> m_bagId new = i
    \<and> map_of (m_bagData new) = fold apply_update (List.map_filter (update_in decode_packet i) ps) (map_of (m_bagData bag))"
  using assms(1-4)
proof (induction ps arbitrary: st bag)
  case (Cons p ps)
  obtain st1 b1 where 1: "receive_packet env source p st = Some st1" "bags_inv {} st1" "bags st1 r = Some b1" "m_bagId b1 = i"
    "m_owningPeer b1 = m_owningPeer bag"
    "map_of (m_bagData b1) = fold apply_update (case update_in decode_packet i p of None \<Rightarrow> [] | Some u \<Rightarrow> [u]) (map_of (m_bagData bag))"
    using receive_packet_replica [OF Cons.prems env, of p] by blast
  obtain st2 b2 where "handle_all (receive_packet env source) ps st1 = Some st2" "bags_inv {} st2" "bags st2 r = Some b2" "m_bagId b2 = i"
    "map_of (m_bagData b2) = fold apply_update (List.map_filter (update_in decode_packet i) ps) (map_of (m_bagData b1))"
    using Cons.IH [OF 1(2-4)] 1(5) Cons.prems(4) by auto
  then show ?case using 1 by (auto simp: map_filter_simps split: option.splits)
qed (use assms in \<open>auto simp: map_filter_simps\<close>)

text \<open>
  From end to end: a peer that has an empty bag of the name, and handles in order what it was sent since
  it joined the sender's bag, has the sender's data.
\<close>

lemma replica_equal:
  assumes syn: "synced t r nm n st" and bag: "bags st r = Some bag"
    and peer: "bags_inv {} pst" "bags pst q = Some pbag" "m_bagId pbag = m_bagId bag" "m_bagData pbag = []"
      "m_owningPeer pbag = None \<or> m_owningPeer pbag = Some source" "\<not> hasChangeHandler env"
  shows "\<exists>pst' new. handle_all (receive_packet env source) (map snd (filter (\<lambda>(u, _). u = t) (drop n (bagSent st)))) pst = Some pst'
    \<and> bags pst' q = Some new \<and> GetKey new = GetKey bag"
proof -
  let ?ps = "map snd (filter (\<lambda>(u, _). u = t) (drop n (bagSent st)))"
  obtain pst' new where new: "handle_all (receive_packet env source) ?ps pst = Some pst'" "bags pst' q = Some new"
    "map_of (m_bagData new) = fold apply_update (List.map_filter (update_in decode_packet (m_bagId bag)) ?ps) (map_of (m_bagData pbag))"
    using receive_packets_replica [OF peer(1,2,3,5,6), of ?ps] by blast
  have "fold apply_update (sent_updates t (m_bagId bag) (drop n (bagSent st))) Map.empty = map_of (m_bagData bag)"
    using syn bag by (auto simp: synced_def)
  then have "map_of (m_bagData new) = map_of (m_bagData bag)"
    using new(3) peer(4) by (simp add: sent_updates_def)
  then show ?thesis using new(1,2) by (auto simp: GetKey_def fun_eq_iff)
qed

subsection \<open>Data that is lost\<close>

text \<open>A value without room after its framed names is left out; the receiver ignores what remains.\<close>

lemma long_value_lost:
  assumes ready: "buffer_ready st" and role: "m_role st \<noteq> Role_ClientV2"
    and names: "m_bagId bag \<noteq> []" "k \<noteq> []" "length (m_bagId bag) < 65535" "length k < 65535"
    and room: "length (frame (m_bagId bag)) + length (frame k) \<le> 131072" "length (bag_frame (m_bagId bag) k v) > 131072"
  shows "\<exists>st' p. SendKeyValue bag t k v st = Some st' \<and> bagSent st' = bagSent st @ [(t, p)] \<and> decode_packet p = None"
proof -
  let ?i = "m_bagId bag" and ?b0 = "SetCurrentBit 0 (dataBuffer st)"
  have v: "v \<noteq> []" using room by (auto simp: bag_frame_def)
  have f0: "filled ?b0 []" and l0: "length (m_data ?b0) = 131072"
    using ready by (simp_all add: buffer_ready_def filled_start SetCurrentBit_def [of 0 "dataBuffer st", THEN arg_cong [where f = m_data]])
  obtain b1 where b1: "write_str ?i ?b0 = Some b1" "filled b1 ([] @ frame ?i)" "length (m_data b1) = length (m_data ?b0)"
    by (rule filled_write_str [OF f0, of ?i]) (use names room l0 in auto)
  have f1: "filled b1 (frame ?i)" using b1(2) by simp
  obtain b2 where b2: "write_str k b1 = Some b2" "filled b2 (frame ?i @ frame k)" "length (m_data b2) = length (m_data b1)"
    by (rule filled_write_str [OF f1, of k]) (use names room b1(3) l0 in auto)
  have keep: "WriteBits_bytes v b2 = b2"
    by (rule WriteBits_too_long [OF b2(2)]) (use room b1(3) b2(3) l0 in \<open>simp add: bag_frame_def\<close>)
  have "take (m_curBit b2 div 8) (m_data b2) = bag_frame ?i k []"
    using b2(2) by (simp add: filled_def bag_frame_def)
  then show ?thesis
    using v names role b1(1) b2(1) keep parse_bag_frame [OF names, of "[]"]
    by (simp add: SendKeyValue_def QueueSend_def Let_def decode_packet_def StateBag.defs)
qed

text \<open>
  Without immediate replication, the first value queued for a key is the one that is sent, whatever is
  stored afterwards.
\<close>

lemma queued_update_stale:
  assumes inv: "bags_inv {} st" and bag: "bags st r = Some bag" and b: "\<not> m_replicationEnabled bag" "m_replicateData bag = []"
      "\<not> m_useParentTargets bag" "t \<in> set (m_routingTargets bag)" "bag_data_fits bag"
    and k: "map_of (m_bagData bag) k = None" and v: "bag_fits (m_bagId bag) k v1" "bag_fits (m_bagId bag) k v2"
      "hd v1 \<noteq> MsgPackNil" "hd v2 \<noteq> MsgPackNil" "v1 \<noteq> v2"
  shows "\<exists>st1 st2 st3 new. SetKeyInternal r k v1 True st = Some st1 \<and> SetKeyInternal r k v2 True st1 = Some st2
    \<and> SendQueuedUpdates r st2 = Some st3 \<and> bags st3 r = Some new \<and> GetKey new k = Some v2
    \<and> sent_updates t (m_bagId bag) (bagSent st3) = sent_updates t (m_bagId bag) (bagSent st) @ [(k, v1)]"
proof -
  have ne: "v1 \<noteq> []" "v2 \<noteq> []" using v by (auto simp: bag_fits_def)
  have ok: "map_ok (m_bagData bag)" using bags_invD(3) [OF inv bag] by (simp add: bag_ok_def)
  let ?bag1 = "bag\<lparr>m_bagData := map_put k v1 (m_bagData bag), m_replicateData := [(k, v1)]\<rparr>"
  let ?bag2 = "bag\<lparr>m_bagData := map_put k v2 (map_put k v1 (m_bagData bag)), m_replicateData := [(k, v1)]\<rparr>"
  let ?st1 = "st\<lparr>bags := (bags st)(r \<mapsto> ?bag1)\<rparr>" and ?st2 = "st\<lparr>bags := (bags st)(r \<mapsto> ?bag2)\<rparr>"
  have swap: "b\<lparr>m_replicateData := q, m_bagData := d\<rparr> = b\<lparr>m_bagData := d, m_replicateData := q\<rparr>" for b :: state_bag and q d
    by (cases b) simp
  have m1: "map_of (map_put k v1 (m_bagData bag)) k = Some v1" using ok by (simp add: map_of_put)
  have s1: "SetKeyInternal r k v1 True st = Some ?st1"
    using bag b k v ne by (simp add: SetKeyInternal_def store_key_def Let_def update_bag_def queue_update_def)
  have s2: "SetKeyInternal r k v2 True ?st1 = Some ?st2"
    using bag b v ne m1 by (simp add: SetKeyInternal_def store_key_def Let_def update_bag_def queue_update_def swap)
  have inv2: "bags_inv {} ?st2"
    using SetKeyInternal_inv [OF inv bag ne(1), of k True] s1 SetKeyInternal_inv [of "{}" ?st1 r ?bag1 v2 k True] s2 ne by auto
  have dist: "distinct (update_targets ?bag2 ?st2)"
    using bags_invD(3) [OF inv bag] b by (simp add: bag_ok_def strict_sorted_iff)
  have "bag_data_fits ?bag2"
    using b(5) v(1,2) set_map_put [of k v2 "map_put k v1 (m_bagData bag)"] set_map_put [of k v1 "m_bagData bag"]
    by (fastforce simp: bag_data_fits_def)
  with SendQueuedUpdates_spec [OF _ bags_invD(10) [OF inv2] dist, of r] obtain st3 out where
    s3: "SendQueuedUpdates r ?st2 = Some st3" "bags_set ?st2 r (?bag2\<lparr>m_replicateData := []\<rparr>) st3 out"
      "conveys out (\<lambda>u i. if u \<in> set (update_targets ?bag2 ?st2) \<and> i = m_bagId ?bag2 then m_replicateData ?bag2 else [])"
    by auto
  note kp = bags_set_keeps [OF s3(2)]
  have "sent_updates t (m_bagId bag) out = [(k, v1)]" using s3(3) b by (simp add: conveys_def)
  moreover have "GetKey (?bag2\<lparr>m_replicateData := []\<rparr>) k = Some v2" using ok by (simp add: GetKey_def map_of_put map_ok_put)
  ultimately show ?thesis using s1 s2 s3(1) kp(7,11)
    by (intro exI [of _ ?st1] exI [of _ ?st2] exI [of _ st3] exI [of _ "?bag2\<lparr>m_replicateData := []\<rparr>"]) simp
qed

text \<open>\<open>Reset\<close> forgets bags that are in use: their names can be given to new bags, which the old ones then erase.\<close>

lemma reset_loses_bag:
  "\<exists>st. run_calls env [Call_Register i False, Call_Reset, Call_Register i False, Call_Release 0, Call_Tick] (StateBags_make role) = Some st
    \<and> bags st 1 = Some (StateBagImpl_make i False) \<and> holders st 1 = 1 \<and> lock_bag st i = None"
  by (simp add: RegisterStateBag_def Let_def StateBags_make_def lock_bag_def hold_bag_def StateBags_Reset_def release_bag_def
      destroy_unowned_def owned_def UnregisterStateBag_def StateBags_OnTick_def StateBagImpl_make_def)

lemma lock_bag_none: "lock_bag st i = None \<Longrightarrow> fst (GetStateBag i st) = None"
  by (simp add: GetStateBag_def)

end
