(* ===== verification/SampleBags.thy ===== *)
theory SampleBags
  imports StateBagDelivery
begin

text \<open>A component with one bag that its caller holds, and an environment without handlers, for the examples.\<close>

definition quiet_bags :: "bag_env" where
  "quiet_bags = \<lparr>hasChangeHandler = False, msgpack_unpacks = (\<lambda>_. True), OnStateBagChange = (\<lambda>_ _ _ _ _. True), IsAsynchronous = False\<rparr>"

abbreviation bag_name :: "u8 list" where
  "bag_name \<equiv> [103, 108]"

definition one_bag :: "StateBagRole \<Rightarrow> state_bags" where
  "one_bag role = snd (RegisterStateBag bag_name False (StateBags_make role))"

lemma one_bag_simps [simp]:
  "bags (one_bag role) = [0 \<mapsto> StateBagImpl_make bag_name False]" "holders (one_bag role) 0 = 1"
  "m_role (one_bag role) = role" "bagSent (one_bag role) = []" "bagTasks (one_bag role) = []"
  "dataBuffer (one_bag role) = MessageBuffer_sized 131072"
  by (auto simp: one_bag_def RegisterStateBag_def Let_def StateBags_make_def lock_bag_def hold_bag_def)

lemma one_bag_reachable: "bags_reachable env (one_bag role)"
  by (rule bags_reachable.step [OF bags_reachable.start, where c = "Call_Register bag_name False"])
    (simp_all add: call_ok_def one_bag_def)

lemma one_bag_fits: "all_fit (one_bag role)"
  by (auto simp: all_fit_def new_bag_fits split: if_splits)

lemma new_bag_simps [simp]:
  "m_bagId (StateBagImpl_make i p) = i" "m_useParentTargets (StateBagImpl_make i p) = p"
  "m_routingTargets (StateBagImpl_make i p) = []" "m_owningPeer (StateBagImpl_make i p) = None"
  "m_bagData (StateBagImpl_make i p) = []" "m_replicationEnabled (StateBagImpl_make i p)" "m_replicateData (StateBagImpl_make i p) = []"
  by (simp_all add: StateBagImpl_make_def)

lemma one_bag_joined:
  "\<exists>st1. AddRoutingTarget 0 7 (one_bag Role_Server) = Some st1 \<and> bags_reachable env st1
    \<and> bags st1 0 = Some (StateBagImpl_make bag_name False\<lparr>m_routingTargets := [7]\<rparr>) \<and> holders st1 0 = 1 \<and> bagSent st1 = []"
proof -
  let ?bag = "StateBagImpl_make bag_name False\<lparr>m_routingTargets := [7]\<rparr>"
  let ?st1 = "one_bag Role_Server\<lparr>bags := (bags (one_bag Role_Server))(0 \<mapsto> ?bag)\<rparr>"
  have add: "AddRoutingTarget 0 7 (one_bag Role_Server) = Some ?st1"
    by (simp add: AddRoutingTarget_def SendAll_def Let_def)
  have "bags_reachable env ?st1"
    by (rule bags_reachable.step [OF one_bag_reachable [of env Role_Server], where c = "Call_AddTarget 0 7"])
      (simp_all add: call_ok_def add del: fun_upd_apply)
  then show ?thesis using add by (intro exI [of _ ?st1]) simp
qed

lemma small_fits: "bag_fits bag_name [107] [1]" "bag_fits bag_name [107] [2]"
  by (simp_all add: bag_fits_def bag_frame_def)

lemma quiet_bags_simps [simp]: "\<not> hasChangeHandler quiet_bags"
  by (simp add: quiet_bags_def)

end
