(* ===== verification/ConsoleText.thy ===== *)
theory ConsoleText
  imports Prelude "HOL-Library.Char_ord"
begin

text \<open>
  The text of the console, \<open>client/citicore/console/Console.cpp\<close> and \<open>ProgramArguments.h\<close>: the UTF-8
  conversion, \<open>Tokenize\<close>, which cuts a line into arguments, and the loop of \<open>ExecuteBuffer\<close> that cuts a
  buffer into lines. Characters of a line are code points. A position in the line is the rest of the line
  with the character before it, \<open>None\<close> at the beginning; \<open>line[i]\<close> at the end of the line is 0.

  \<open>json_accept\<close> is third-party code: given a text that starts with a bracket it returns how many characters
  behind that bracket belong to a JSON value, or \<open>None\<close>. It exists for characters and for code points.
\<close>

subsection \<open>UTF-8\<close>

text \<open>
  \<open>std::codecvt_utf8\<close> over the scalar values of Unicode; \<open>None\<close> is \<open>std::range_error\<close>.
\<close>

type_synonym code_point = nat

definition scalar_value :: "code_point \<Rightarrow> bool" where
  "scalar_value c \<longleftrightarrow> c < 0xD800 \<or> 0xE000 \<le> c \<and> c < 0x110000"

definition utf8_point :: "code_point \<Rightarrow> nat list" where
  "utf8_point c =
     (if c < 0x80 then [c]
      else if c < 0x800 then [0xC0 + c div 64, 0x80 + c mod 64]
      else if c < 0x10000 then [0xE0 + c div 4096, 0x80 + c div 64 mod 64, 0x80 + c mod 64]
      else [0xF0 + c div 262144, 0x80 + c div 4096 mod 64, 0x80 + c div 64 mod 64, 0x80 + c mod 64])"

definition utf8_tail :: "nat \<Rightarrow> bool" where
  "utf8_tail b \<longleftrightarrow> 0x80 \<le> b \<and> b < 0xC0"

text \<open>A sequence is accepted when it is the encoding of what it decodes to, so none is overlong.\<close>

definition utf8_check :: "code_point \<Rightarrow> nat list \<Rightarrow> code_point option" where
  "utf8_check c bs = (if scalar_value c \<and> utf8_point c = bs then Some c else None)"

fun utf8_in :: "nat list \<Rightarrow> code_point list option" where
  "utf8_in [] = Some []"
| "utf8_in (b1 # s) =
     (if b1 < 0x80 then map_option (Cons b1) (utf8_in s)
      else if b1 < 0xE0 then
        (case s of
           b2 # s \<Rightarrow> Option.bind (utf8_check ((b1 - 0xC0) * 64 + (b2 - 0x80)) [b1, b2]) (\<lambda>c. map_option (Cons c) (utf8_in s))
         | _ \<Rightarrow> None)
      else if b1 < 0xF0 then
        (case s of
           b2 # b3 # s \<Rightarrow>
             Option.bind (utf8_check ((b1 - 0xE0) * 4096 + (b2 - 0x80) * 64 + (b3 - 0x80)) [b1, b2, b3])
               (\<lambda>c. map_option (Cons c) (utf8_in s))
         | _ \<Rightarrow> None)
      else
        (case s of
           b2 # b3 # b4 # s \<Rightarrow>
             Option.bind (utf8_check ((b1 - 0xF0) * 262144 + (b2 - 0x80) * 4096 + (b3 - 0x80) * 64 + (b4 - 0x80)) [b1, b2, b3, b4])
               (\<lambda>c. map_option (Cons c) (utf8_in s))
         | _ \<Rightarrow> None))"

definition from_bytes :: "string \<Rightarrow> code_point list option" where
  "from_bytes s = utf8_in (map of_char s)"

definition to_bytes :: "code_point list \<Rightarrow> string option" where
  "to_bytes cs = (if list_all scalar_value cs then Some (map char_of (concat (map utf8_point cs))) else None)"

lemma utf8_check_point:
  assumes "scalar_value c"
  shows "utf8_in (utf8_point c @ s) = map_option (Cons c) (utf8_in s)"
proof -
  have d: "c div 4096 mod 64 = c div 64 div 64 mod 64" "c div 262144 = c div 64 div 64 div 64" "c div 4096 = c div 64 div 64"
    by (simp_all flip: div_mult2_eq)
  have c: "c = (c div 64) * 64 + c mod 64" "c div 64 = (c div 64 div 64) * 64 + c div 64 mod 64"
    "c div 64 div 64 = (c div 64 div 64 div 64) * 64 + c div 64 div 64 mod 64" by simp_all
  consider "c < 0x80" | "0x80 \<le> c" "c < 0x800" | "0x800 \<le> c" "c < 0x10000" | "0x10000 \<le> c" "c < 0x110000"
    using assms by (fastforce simp: scalar_value_def)
  then show ?thesis
  proof cases
    case 2
    then have "utf8_point c = [0xC0 + c div 64, 0x80 + c mod 64]" "c div 64 < 0x20" by (auto simp: utf8_point_def)
    then show ?thesis using assms by (simp add: utf8_check_def)
  next
    case 3
    then have p: "utf8_point c = [0xE0 + c div 4096, 0x80 + c div 64 mod 64, 0x80 + c mod 64]" "c div 4096 < 0x10"
      by (auto simp: utf8_point_def)
    have "c div 4096 * 4096 + c div 64 mod 64 * 64 + c mod 64 = c" using c d by linarith
    then show ?thesis using assms p by (simp add: utf8_check_def)
  next
    case 4
    then have p: "utf8_point c = [0xF0 + c div 262144, 0x80 + c div 4096 mod 64, 0x80 + c div 64 mod 64, 0x80 + c mod 64]"
      by (auto simp: utf8_point_def)
    have "c div 262144 * 262144 + c div 4096 mod 64 * 4096 + c div 64 mod 64 * 64 + c mod 64 = c" using c d by linarith
    then show ?thesis using assms p by (simp add: utf8_check_def)
  qed (simp add: utf8_point_def)
qed

lemma utf8_point_bytes: "scalar_value c \<Longrightarrow> b \<in> set (utf8_point c) \<Longrightarrow> b < 256"
  by (auto simp: utf8_point_def scalar_value_def split: if_splits)

lemma utf8_in_points: "list_all scalar_value cs \<Longrightarrow> utf8_in (concat (map utf8_point cs)) = Some cs"
  by (induction cs) (auto simp: utf8_check_point)

text \<open>The conversions are inverse to each other.\<close>

lemma from_to_bytes:
  assumes "to_bytes cs = Some s"
  shows "from_bytes s = Some cs"
proof -
  have sc: "list_all scalar_value cs" and s: "s = map char_of (concat (map utf8_point cs))"
    using assms by (auto simp: to_bytes_def split: if_splits)
  have "b mod 256 = b" if "b \<in> set (concat (map utf8_point cs))" for b
    using sc that utf8_point_bytes by (fastforce simp: list_all_iff)
  then have "map (\<lambda>b. b mod 256) (concat (map utf8_point cs)) = concat (map utf8_point cs)" by (rule map_idI)
  then have "map of_char s = concat (map utf8_point cs)" unfolding s by (simp add: comp_def)
  then show ?thesis using sc by (simp add: from_bytes_def utf8_in_points)
qed

lemma utf8_check_Some: "utf8_check c bs = Some d \<longleftrightarrow> d = c \<and> scalar_value c \<and> utf8_point c = bs"
  by (auto simp: utf8_check_def)

lemma utf8_point_ascii: "c < 0x80 \<Longrightarrow> scalar_value c \<and> utf8_point c = [c]"
  by (simp add: scalar_value_def utf8_point_def)

lemma utf8_in_Some: "utf8_in bs = Some cs \<Longrightarrow> list_all scalar_value cs \<and> concat (map utf8_point cs) = bs"
proof (induction bs arbitrary: cs rule: utf8_in.induct)
  case (2 b1 s)
  note prem = "2.prems" [unfolded utf8_in.simps(2) [of b1 s]]
  consider "b1 < 0x80" | "\<not> b1 < 0x80" "b1 < 0xE0" | "\<not> b1 < 0xE0" "b1 < 0xF0" | "\<not> b1 < 0xF0" by linarith
  then show ?case
  proof cases
    case 1
    then show ?thesis using 2 prem by (auto simp: utf8_point_ascii simp del: utf8_in.simps)
  next
    case c: 2
    then obtain b2 t where [simp]: "s = b2 # t" using prem by (cases s) auto
    show ?thesis using c 2(2) [OF c(1,2), of b2 t] prem
      by (auto simp: utf8_check_Some bind_eq_Some_conv simp del: utf8_in.simps)
  next
    case c: 3
    then obtain b2 b3 t where [simp]: "s = b2 # b3 # t" using prem by (auto split: list.splits)
    show ?thesis using c 2(3) [of b2 "b3 # t" b3 t] prem
      by (auto simp: utf8_check_Some bind_eq_Some_conv simp del: utf8_in.simps)
  next
    case c: 4
    then obtain b2 b3 b4 t where [simp]: "s = b2 # b3 # b4 # t" using prem by (auto split: list.splits)
    show ?thesis using c 2(4) [of b2 "b3 # b4 # t" b3 "b4 # t" b4 t] prem
      by (auto simp: utf8_check_Some bind_eq_Some_conv simp del: utf8_in.simps)
  qed
qed simp

lemma to_from_bytes: "from_bytes s = Some cs \<Longrightarrow> to_bytes cs = Some s"
  using utf8_in_Some [of "map of_char s" cs] by (simp add: from_bytes_def to_bytes_def comp_def)

lemma utf8_in_ascii: "list_all (\<lambda>b. b < 128) bs \<Longrightarrow> utf8_in bs = Some bs"
  by (induction bs) auto

subsection \<open>Tokenize\<close>

abbreviation quote :: code_point where "quote \<equiv> 34"
abbreviation hash_sign :: code_point where "hash_sign \<equiv> 35"
abbreviation star :: code_point where "star \<equiv> 42"
abbreviation slash :: code_point where "slash \<equiv> 47"
abbreviation backslash :: code_point where "backslash \<equiv> 92"
abbreviation blank :: code_point where "blank \<equiv> 32"

definition at :: "code_point list \<Rightarrow> nat \<Rightarrow> code_point" where
  "at rest k = (if k < length rest then rest ! k else 0)"

lemma at_simps [simp]: "at [] k = 0" "at (c # cs) 0 = c" "at (c # cs) (Suc k) = at cs k"
  by (simp_all add: at_def)

type_synonym position = "code_point option \<times> code_point list"

fun skip_blanks :: "code_point option \<Rightarrow> code_point list \<Rightarrow> position" where
  "skip_blanks prev [] = (prev, [])"
| "skip_blanks prev (c # cs) = (if c \<le> blank then skip_blanks (Some c) cs else (prev, c # cs))"

text \<open>The loop over a block comment. At the end of the line its condition reads behind the terminator.\<close>

fun skip_comment :: "code_point option \<Rightarrow> code_point list \<Rightarrow> position option" where
  "skip_comment prev [] = None"
| "skip_comment prev (c # cs) =
     (if c \<noteq> star \<and> at cs 0 \<noteq> slash then skip_comment (Some c) cs else Some (prev, c # cs))"

text \<open>Where the next argument starts, the end of the arguments, or undefined behaviour.\<close>

datatype skipped = Skip_undefined | Skip_return | Skip_to "code_point option" "code_point list"

lemma skip_blanks_length: "(p, r) = skip_blanks prev rest \<Longrightarrow> length r \<le> length rest \<and> (r \<noteq> [] \<longrightarrow> blank < at r 0)"
  by (induction prev rest rule: skip_blanks.induct) (auto split: if_splits)

lemma skip_comment_length: "skip_comment prev rest = Some (p, r) \<Longrightarrow> length r \<le> length rest"
  by (induction prev rest rule: skip_comment.induct) (auto split: if_splits)

lemma skip_comment_step:
  assumes "(p0, r0) = skip_blanks prev rest" "skip_comment p0 r0 = Some pr" "(p, r) = pr" "r \<noteq> []"
  shows "length (drop 2 r) < length rest"
proof -
  have "length r \<le> length r0" using skip_comment_length [of p0 r0 p r] assms(2,3) by simp
  moreover have "length r0 \<le> length rest" using skip_blanks_length [OF assms(1)] by simp
  ultimately show ?thesis using assms(4) by (cases r) auto
qed

function skip_space :: "code_point option \<Rightarrow> code_point list \<Rightarrow> skipped" where
  "skip_space prev rest =
     (case skip_blanks prev rest of (prev, rest) \<Rightarrow>
        if rest = [] then Skip_return
        else if prev = None then Skip_to prev rest
        else if at rest 0 = slash \<and> at rest 1 = slash \<or> at rest 0 = hash_sign then Skip_return
        else if at rest 0 = slash \<and> at rest 1 = star then
          (case skip_comment prev rest of
             None \<Rightarrow> Skip_undefined
           | Some (prev, rest) \<Rightarrow> if rest = [] then Skip_return else skip_space (Some (at rest 1)) (drop 2 rest))
        else Skip_to prev rest)"
  by pat_completeness auto
termination
  by (relation "measure (\<lambda>(prev, rest). length rest)") (simp, simp only: in_measure case_prod_conv, rule skip_comment_step, assumption+)

declare skip_space.simps [simp del]

text \<open>A quoted argument, behind its quote: the argument and the rest behind the closing quote.\<close>

fun quoted :: "bool \<Rightarrow> code_point list \<Rightarrow> code_point list \<times> code_point list" where
  "quoted inEscape [] = ([], [])"
| "quoted inEscape (c # cs) =
     (if c = quote \<and> \<not> inEscape then ([], cs)
      else if c = backslash \<and> at cs 0 = quote then quoted True cs
      else case quoted False cs of (arg, rest) \<Rightarrow> (c # arg, rest))"

text \<open>An argument without quotes: whether a comment ends the line there, the argument and where it ends.\<close>

fun plain :: "code_point option \<Rightarrow> code_point list \<Rightarrow> bool \<times> code_point list \<times> position" where
  "plain prev [] = (False, [], prev, [])"
| "plain prev (c # cs) =
     (if c \<le> blank \<or> c = quote then (False, [], prev, c # cs)
      else if (prev = None \<or> prev = Some blank \<or> prev = Some 9)
          \<and> (c = hash_sign \<or> cs \<noteq> [] \<and> c = slash \<and> (at cs 0 = slash \<or> at cs 0 = star)) then (True, [], prev, c # cs)
      else case plain (Some c) cs of (ended, arg, pos) \<Rightarrow> (ended, c # arg, pos))"

lemma quoted_length: "(arg, r) = quoted esc rest \<Longrightarrow> length r \<le> length rest"
  by (induction esc rest arbitrary: arg rule: quoted.induct) (fastforce split: if_splits prod.splits)+

lemma plain_length: "plain prev rest = (ended, arg, p, r) \<Longrightarrow> length arg + length r = length rest"
  by (induction prev rest arbitrary: ended arg rule: plain.induct) (fastforce split: if_splits prod.splits)+

lemma plain_progress:
  "plain prev (c # cs) = (False, arg, p, r) \<Longrightarrow> blank < c \<Longrightarrow> c \<noteq> quote \<Longrightarrow> length r < length (c # cs)"
  using plain_length [of prev "c # cs" False arg p r] by (auto split: if_splits prod.splits)

lemma skip_space_length: "skip_space prev rest = Skip_to p r \<Longrightarrow> r \<noteq> [] \<and> blank < at r 0 \<and> length r \<le> length rest"
proof (induction prev rest rule: skip_space.induct)
  case (1 prev rest)
  obtain p0 r0 where b: "skip_blanks prev rest = (p0, r0)" by force
  show ?case
  proof (cases "r0 \<noteq> [] \<and> p0 \<noteq> None \<and> \<not> (at r0 0 = slash \<and> at r0 1 = slash \<or> at r0 0 = hash_sign) \<and> at r0 0 = slash \<and> at r0 1 = star")
    case True
    then obtain p1 r1 where c: "skip_comment p0 r0 = Some (p1, r1)" "r1 \<noteq> []" "skip_space (Some (at r1 1)) (drop 2 r1) = Skip_to p r"
      using "1.prems" b by (subst (asm) skip_space.simps) (auto split: option.splits if_splits prod.splits)
    from "1.IH" [OF b [symmetric]] True c have "r \<noteq> [] \<and> blank < at r 0 \<and> length r \<le> length (drop 2 r1)" by auto
    then show ?thesis using skip_blanks_length [OF b [symmetric]] skip_comment_length [OF c(1)] by auto
  next
    case False
    then have "p = p0 \<and> r = r0 \<and> r0 \<noteq> []"
      using "1.prems" b by (subst (asm) skip_space.simps) (auto split: if_splits)
    then show ?thesis using skip_blanks_length [OF b [symmetric]] by simp
  qed
qed

function Tokenize_loop ::
    "(code_point list \<Rightarrow> nat option) \<Rightarrow> code_point option \<Rightarrow> code_point list \<Rightarrow> code_point list list
      \<Rightarrow> code_point list list option" where
  "Tokenize_loop json_accept prev rest args =
     (case skip_space prev rest of
        Skip_undefined \<Rightarrow> None
      | Skip_return \<Rightarrow> Some args
      | Skip_to prev rest \<Rightarrow>
          case (if at rest 0 = 123 \<or> at rest 0 = 91 then json_accept rest else None) of
            Some n \<Rightarrow> Tokenize_loop json_accept (Some (at rest n)) (drop (Suc n) rest) (args @ [take (Suc n) rest])
          | None \<Rightarrow>
              if at rest 0 = quote then
                (case quoted False (tl rest) of (arg, rest) \<Rightarrow>
                   if rest = [] then Some (args @ [arg]) else Tokenize_loop json_accept (Some quote) rest (args @ [arg]))
              else
                (case plain prev rest of (ended, arg, prev, rest') \<Rightarrow>
                   if ended then Some args
                   else let args = (if arg = [] then args else args @ [arg]) in
                     if rest' = [] then Some args else Tokenize_loop json_accept prev rest' args))"
  by pat_completeness auto
termination
proof (relation "measure (\<lambda>(j, prev, rest, args). length rest)", goal_cases)
  case (2 j prev rest args p r arg r')
  then show ?case using skip_space_length [OF 2(1)] quoted_length [of arg r' False "tl r"] by (cases r) auto
next
  case (3 j prev rest args p r ended y arg z p' r')
  then have "plain p r = (False, arg, p', r')" by (simp del: plain.simps)
  then show ?case using 3 skip_space_length [OF 3(1)] plain_progress [of p "hd r" "tl r" arg p' r']
    by (cases r) (auto simp del: plain.simps)
next
  case (4 j prev rest args p r n)
  then show ?case using skip_space_length [OF 4(1)] by (cases r) auto
qed simp

declare Tokenize_loop.simps [simp del]

text \<open>\<open>ProgramArguments\<close> keeps an empty string where the conversion fails.\<close>

definition argument_bytes :: "code_point list \<Rightarrow> string" where
  "argument_bytes arg = (case to_bytes arg of None \<Rightarrow> [] | Some s \<Rightarrow> s)"

definition Tokenize :: "(code_point list \<Rightarrow> nat option) \<Rightarrow> string \<Rightarrow> string list option" where
  "Tokenize json_accept lineUtf8 =
     (case from_bytes lineUtf8 of
        None \<Rightarrow> Some []
      | Some line \<Rightarrow> map_option (map argument_bytes) (Tokenize_loop json_accept None line []))"

subsection \<open>The loop of ExecuteBuffer\<close>

text \<open>The command up to the first line end or semicolon outside quotes and JSON, and what is behind it.\<close>

function next_command :: "(string \<Rightarrow> nat option) \<Rightarrow> bool \<Rightarrow> string \<Rightarrow> string \<times> string" where
  "next_command json_accept inQuote [] = ([], [])"
| "next_command json_accept inQuote (c # cs) =
     (case (if \<not> inQuote \<and> (c = CHR ''{'' \<or> c = CHR ''['') then json_accept (c # cs) else None) of
        Some n \<Rightarrow>
          (case next_command json_accept inQuote (drop n cs) of (command, rest) \<Rightarrow> (c # take n cs @ command, rest))
      | None \<Rightarrow>
          let inQuote = (if c = CHR 0x22 then \<not> inQuote else inQuote) in
          if \<not> inQuote \<and> c = CHR '';'' \<or> c = CHR 0x0D \<or> c = CHR 0x0A then ([], cs)
          else (case next_command json_accept inQuote cs of (command, rest) \<Rightarrow> (c # command, rest)))"
  by pat_completeness auto
termination by (relation "measure (\<lambda>(j, q, s). length s)") auto

lemma next_command_length: "s \<noteq> [] \<Longrightarrow> length (snd (next_command j q s)) < length s"
proof (induction j q s rule: next_command.induct)
  case (2 j q c cs)
  show ?case
  proof (cases "if \<not> q \<and> (c = CHR ''{'' \<or> c = CHR ''['') then j (c # cs) else None")
    case None
    then show ?thesis using "2.IH"(1) [OF None refl] by (cases "cs = []") (auto simp: Let_def split: prod.splits)
  next
    case (Some n)
    then show ?thesis using "2.IH"(2) [OF Some] by (cases "drop n cs = []") (auto split: prod.splits)
  qed
qed simp

definition trim_left :: "string \<Rightarrow> string" where
  "trim_left = dropWhile (\<lambda>c. c = CHR '' '' \<or> CHR 0x09 \<le> c \<and> c \<le> CHR 0x0D)"

text \<open>The commands to execute and what stays in the buffer: a \<open>wait\<close> ends the loop.\<close>

function take_commands :: "(string \<Rightarrow> nat option) \<Rightarrow> string \<Rightarrow> string list \<times> string" where
  "take_commands json_accept buffer =
     (if buffer = [] then ([], [])
      else
        case next_command json_accept False buffer of (command, rest) \<Rightarrow>
          if take 4 (trim_left command) = ''wait'' then ([command], rest)
          else case take_commands json_accept rest of (commands, rest) \<Rightarrow> (command # commands, rest))"
  by pat_completeness auto
termination
  by (relation "measure (\<lambda>(j, s). length s)") (simp, metis in_measure case_prod_conv next_command_length snd_conv)

declare take_commands.simps [simp del]

end
