(* ===== verification/ConsoleArgs.thy ===== *)
theory ConsoleArgs
  imports ConsoleText Hash
begin

text \<open>
  The arguments of console commands, \<open>client/citicore/console/Console.Commands.h\<close>: names that are compared
  without case, and the conversions of arguments to the types of parameters and back. Floating-point
  parameters are not modelled; integers are \<open>int\<close>.
\<close>

subsection \<open>Names\<close>

text \<open>\<open>IgnoreCaseLess\<close> is \<open>_stricmp\<close> of the C strings, which end at the first null character.\<close>

definition c_str :: "string \<Rightarrow> string" where
  "c_str s = takeWhile (\<lambda>c. c \<noteq> CHR 0x00) s"

definition ci :: "string \<Rightarrow> string" where
  "ci s = map ToLower (c_str s)"

subsection \<open>Values\<close>

datatype ctype = T_string | T_bool | T_int

datatype cvalue = CString string | CBool bool | CInt u32

fun type_of :: "cvalue \<Rightarrow> ctype" where
  "type_of (CString _) = T_string"
| "type_of (CBool _) = T_bool"
| "type_of (CInt _) = T_int"

definition digit :: "char \<Rightarrow> bool" where
  "digit c \<longleftrightarrow> CHR ''0'' \<le> c \<and> c \<le> CHR ''9''"

definition digit_value :: "char \<Rightarrow> nat" where
  "digit_value c = of_char c - 48"

definition decimal :: "string \<Rightarrow> nat" where
  "decimal = foldl (\<lambda>n c. 10 * n + digit_value c) 0"

text \<open>\<open>std::stoull\<close>: blanks, a sign, digits; a negative number wraps. \<open>None\<close> is an exception.\<close>

definition stoull :: "string \<Rightarrow> u64 option" where
  "stoull input =
     (let s = trim_left input;
          negative = (s \<noteq> [] \<and> hd s = CHR ''-'');
          s = (if s \<noteq> [] \<and> (hd s = CHR ''-'' \<or> hd s = CHR ''+'') then tl s else s);
          digits = takeWhile digit s in
      if digits = [] then None
      else if decimal digits \<ge> 2 ^ 64 then None
      else Some (if negative then - of_nat (decimal digits) else of_nat (decimal digits)))"

definition ParseBool :: "string \<Rightarrow> bool" where
  "ParseBool input =
     (if ci input = ''true'' then True
      else if ci input = ''false'' then False
      else case stoull input of None \<Rightarrow> False | Some n \<Rightarrow> n \<noteq> 0)"

definition ParseArgument :: "ctype \<Rightarrow> string \<Rightarrow> cvalue option" where
  "ParseArgument t input =
     (case t of
        T_string \<Rightarrow> Some (CString input)
      | T_bool \<Rightarrow> Some (CBool (ParseBool input))
      | T_int \<Rightarrow> map_option (\<lambda>n. CInt (ucast n)) (stoull input))"

fun UnparseArgument :: "cvalue \<Rightarrow> string" where
  "UnparseArgument (CString s) = s"
| "UnparseArgument (CBool b) = (if b then ''true'' else ''false'')"
| "UnparseArgument (CInt n) = show_int (sint n)"

text \<open>\<open>Constraints<T>::Compare\<close>: strings have no constraints; the flag of a range error is the bound that fails.\<close>

fun less_value :: "cvalue \<Rightarrow> cvalue \<Rightarrow> bool" where
  "less_value (CInt a) (CInt b) \<longleftrightarrow> sint a < sint b"
| "less_value (CBool a) (CBool b) \<longleftrightarrow> a < b"
| "less_value _ _ \<longleftrightarrow> False"

definition Compare :: "cvalue \<Rightarrow> cvalue \<Rightarrow> cvalue \<Rightarrow> bool" where
  "Compare v minValue maxValue \<longleftrightarrow> \<not> less_value maxValue v \<and> \<not> less_value v minValue"

subsection \<open>Calls\<close>

text \<open>What is written to \<open>errorBuffer\<close>.\<close>

datatype call_error = Count_mismatch nat nat | No_conversion nat string

text \<open>\<open>CallInternal\<close>: the parameters from left to right.\<close>

fun CallInternal :: "nat \<Rightarrow> ctype list \<Rightarrow> string list \<Rightarrow> call_error + cvalue list" where
  "CallInternal i (t # ts) (a # as) =
     (case ParseArgument t a of
        None \<Rightarrow> Inl (No_conversion i a)
      | Some v \<Rightarrow> map_sum id (Cons v) (CallInternal (i + 1) ts as))"
| "CallInternal i _ _ = Inr []"

definition Call :: "ctype list \<Rightarrow> string list \<Rightarrow> call_error + cvalue list" where
  "Call params arguments =
     (if length params \<noteq> length arguments then Inl (Count_mismatch (length arguments) (length params))
      else CallInternal 0 params arguments)"

subsection \<open>Parsing what was printed\<close>

lemma digit_char [simp]: "(n :: nat) < 10 \<Longrightarrow> digit (char_of (48 + n))"
  by (simp add: digit_def less_eq_char_def of_char_of)

lemma digit_value_char [simp]: "(n :: nat) < 10 \<Longrightarrow> digit_value (char_of (48 + n)) = n"
  by (simp add: digit_value_def of_char_of)

lemma show_nat_digits: "list_all digit (show_nat n) \<and> show_nat n \<noteq> []"
proof (induction n rule: show_nat.induct)
  case (1 n)
  then show ?case by (subst (1 2) show_nat.simps) simp
qed

lemma decimal_show_nat: "decimal (show_nat n) = n"
proof (induction n rule: show_nat.induct)
  case (1 n)
  then show ?case by (subst show_nat.simps) (simp add: decimal_def)
qed

lemma digit_not_blank: "digit c \<Longrightarrow> c \<noteq> CHR ''-'' \<and> c \<noteq> CHR ''+'' \<and> trim_left (c # s) = c # s"
  by (auto simp: digit_def trim_left_def less_eq_char_def)

lemma stoull_show_nat:
  assumes "n < 2 ^ 64"
  shows "stoull (show_nat n) = Some (of_nat n)" "stoull (CHR ''-'' # show_nat n) = Some (- of_nat n)"
proof -
  have d: "takeWhile digit (show_nat n) = show_nat n" "show_nat n \<noteq> []"
    using show_nat_digits [of n] by (auto simp: takeWhile_eq_all_conv list_all_iff)
  then obtain c s where s: "show_nat n = c # s" by (cases "show_nat n") auto
  then have "digit c" using show_nat_digits [of n] by simp
  then have c: "hd (show_nat n) \<noteq> CHR ''-''" "hd (show_nat n) \<noteq> CHR ''+''" "trim_left (show_nat n) = show_nat n"
    using digit_not_blank s by auto
  show "stoull (show_nat n) = Some (of_nat n)"
    unfolding stoull_def Let_def c(3) using assms by (simp add: d c decimal_show_nat)
  have "trim_left (CHR ''-'' # show_nat n) = CHR ''-'' # show_nat n" by (simp add: trim_left_def less_eq_char_def)
  then show "stoull (CHR ''-'' # show_nat n) = Some (- of_nat n)"
    unfolding stoull_def Let_def using assms by (simp add: d decimal_show_nat)
qed

lemma stoull_show:
  assumes "- (2 ^ 63) \<le> x" "x < 2 ^ 63"
  shows "stoull (show_int x) = Some (of_int x)"
proof (cases "x < 0")
  case True
  then have "x = - int (nat (- x))" by simp
  then obtain n where x: "x = - int n" ..
  then have n: "n < 2 ^ 64" using assms(1) by simp
  have "show_int x = CHR ''-'' # show_nat n" using True by (simp add: show_int_def x)
  then show ?thesis using stoull_show_nat(2) [OF n] by (simp add: x)
next
  case False
  then have "x = int (nat x)" by simp
  then obtain n where x: "x = int n" ..
  then have n: "n < 2 ^ 64" using assms(2) by simp
  have "show_int x = show_nat n" by (simp add: show_int_def x)
  then show ?thesis using stoull_show_nat(1) [OF n] by (simp add: x)
qed

lemma stoull_show_int: "stoull (show_int (sint (n :: u32))) = Some (scast n)"
proof -
  have "- (2 ^ 31) \<le> sint n" "sint n < 2 ^ 31" using sint_ge [of n] sint_lt [of n] by simp_all
  then have "- (2 ^ 63) \<le> sint n" "sint n < 2 ^ 63" by simp_all
  from stoull_show [OF this] show ?thesis by (simp only: scast_eq)
qed

theorem ParseArgument_Unparse: "ParseArgument (type_of v) (UnparseArgument v) = Some v"
proof (cases v)
  case (CBool b)
  have "ci ''true'' = ''true''" "ci ''false'' = ''false''" by code_simp+
  then show ?thesis using CBool by (simp add: ParseArgument_def ParseBool_def)
next
  case (CInt n)
  have "ucast (scast n :: u64) = n" by (rule bit_word_eqI) (auto simp: bit_unsigned_iff bit_signed_iff)
  then show ?thesis using CInt by (simp add: ParseArgument_def stoull_show_int)
qed (simp add: ParseArgument_def)

lemma ParseArgument_type: "ParseArgument t s = Some v \<Longrightarrow> type_of v = t"
  by (auto simp: ParseArgument_def split: ctype.splits)

end
