(* ===== verification/Security.thy ===== *)
theory Security
  imports Hash StdMap "HOL-Library.Char_ord" "HOL-Library.List_Lexorder"
begin

text \<open>
  Access control, \<open>client/citicore/se/Security.{h,cpp}\<close>: a context has access control entries for objects
  and an inheritance relation on principals; a privilege is checked for a principal or for the stack of
  principals on whose behalf the code runs. \<open>None\<close> of a check is a recursion that does not end; that it
  always ends, also when principals inherit from each other, is shown in \<open>SecurityLaws\<close>. The mutex and the
  debug prints are left out.
\<close>

subsection \<open>Principals and objects\<close>

text \<open>Both constructors lower the case of the identifier.\<close>

datatype Principal = Principal_id (GetIdentifier : string)

definition Principal :: "string \<Rightarrow> Principal" where
  "Principal prin = Principal_id (map ToLower prin)"

datatype Object = Object_id (GetObjectIdentifier : string)

definition Object :: "string \<Rightarrow> Object" where
  "Object identifier = Object_id (map ToLower identifier)"

instantiation Principal :: linorder
begin

definition less_Principal :: "Principal \<Rightarrow> Principal \<Rightarrow> bool" where
  "less_Principal a b \<longleftrightarrow> GetIdentifier a < GetIdentifier b"

definition less_eq_Principal :: "Principal \<Rightarrow> Principal \<Rightarrow> bool" where
  "less_eq_Principal a b \<longleftrightarrow> GetIdentifier a \<le> GetIdentifier b"

instance
  by standard (auto simp: less_Principal_def less_eq_Principal_def intro: Principal.expand)

end

instantiation Object :: linorder
begin

definition less_Object :: "Object \<Rightarrow> Object \<Rightarrow> bool" where
  "less_Object a b \<longleftrightarrow> GetObjectIdentifier a < GetObjectIdentifier b"

definition less_eq_Object :: "Object \<Rightarrow> Object \<Rightarrow> bool" where
  "less_eq_Object a b \<longleftrightarrow> GetObjectIdentifier a \<le> GetObjectIdentifier b"

instance
  by standard (auto simp: less_Object_def less_eq_Object_def intro: Object.expand)

end

datatype AccessType = Allow | Unset | Deny

record AccessControlEntry =
  aceObject :: Object
  acePrincipal :: Principal
  aceType :: AccessType

subsection \<open>A context\<close>

record se_context =
  m_aces :: "(Object \<times> AccessControlEntry) list"
  m_principalInheritance :: "(Principal \<times> Principal) list"

definition se_Context :: se_context where
  "se_Context = \<lparr>m_aces = [], m_principalInheritance = []\<rparr>"

definition se_Reset :: "se_context \<Rightarrow> se_context" where
  "se_Reset ctx = ctx\<lparr>m_aces := [], m_principalInheritance := []\<rparr>"

definition AddPrincipalInheritance :: "Principal \<Rightarrow> Principal \<Rightarrow> se_context \<Rightarrow> se_context" where
  "AddPrincipalInheritance child parent ctx =
     ctx\<lparr>m_principalInheritance := multi_put child parent (m_principalInheritance ctx)\<rparr>"

definition RemovePrincipalInheritance :: "Principal \<Rightarrow> Principal \<Rightarrow> se_context \<Rightarrow> se_context" where
  "RemovePrincipalInheritance child parent ctx =
     ctx\<lparr>m_principalInheritance := filter (\<lambda>(c, p). \<not> (c = child \<and> p = parent)) (m_principalInheritance ctx)\<rparr>"

definition AddAccessControlEntry :: "Principal \<Rightarrow> Object \<Rightarrow> AccessType \<Rightarrow> se_context \<Rightarrow> se_context" where
  "AddAccessControlEntry prin object type ctx =
     ctx\<lparr>m_aces := multi_put object \<lparr>aceObject = object, acePrincipal = prin, aceType = type\<rparr> (m_aces ctx)\<rparr>"

definition RemoveAccessControlEntry :: "Principal \<Rightarrow> Object \<Rightarrow> AccessType \<Rightarrow> se_context \<Rightarrow> se_context" where
  "RemoveAccessControlEntry prin object type ctx =
     ctx\<lparr>m_aces := filter (\<lambda>(k, e). \<not> (k = object \<and> acePrincipal e = prin \<and> aceType e = type)) (m_aces ctx)\<rparr>"

definition ForAllPrincipalInheritances :: "se_context \<Rightarrow> (Principal \<times> Principal) list" where
  "ForAllPrincipalInheritances ctx = m_principalInheritance ctx"

definition ForAllAccessControlEntries :: "se_context \<Rightarrow> (Principal \<times> Object \<times> AccessType) list" where
  "ForAllAccessControlEntries ctx = map (\<lambda>(_, e). (acePrincipal e, aceObject e, aceType e)) (m_aces ctx)"

subsection \<open>Checking a privilege\<close>

text \<open>
  The recursion of \<open>AddPrincipals\<close>: the parents that are left to visit, and the set so far as a list.
\<close>

partial_function (option) AddParents ::
    "(Principal \<times> Principal) list \<Rightarrow> Principal list \<Rightarrow> Principal list \<Rightarrow> Principal list option" where
  "AddParents inheritance parents found =
     (case parents of
        [] \<Rightarrow> Some found
      | p # ps \<Rightarrow>
          if p \<in> set found then AddParents inheritance ps found
          else Option.bind (AddParents inheritance (multi_get p inheritance) (p # found)) (AddParents inheritance ps))"

definition AddPrincipals :: "se_context \<Rightarrow> Principal \<Rightarrow> Principal list \<Rightarrow> Principal list option" where
  "AddPrincipals ctx prin found =
     AddParents (m_principalInheritance ctx) (multi_get prin (m_principalInheritance ctx)) found"

text \<open>\<open>substr(0, find_last_of('.'))\<close>.\<close>

definition cut_last :: "string \<Rightarrow> string" where
  "cut_last s = rev (tl (dropWhile (\<lambda>c. c \<noteq> CHR ''.'') (rev s)))"

function parent_objects :: "string \<Rightarrow> Object list" where
  "parent_objects s = (if CHR ''.'' \<in> set s then Object (cut_last s) # parent_objects (cut_last s) else [])"
  by pat_completeness auto
termination
proof (relation "measure length")
  fix s :: string assume dot: "CHR ''.'' \<in> set s"
  then have "s \<noteq> []" by auto
  moreover have "length (tl (dropWhile (\<lambda>c. c \<noteq> CHR ''.'') (rev s))) \<le> length s - 1"
    using length_dropWhile_le [of "\<lambda>c. c \<noteq> CHR ''.''" "rev s"] by (simp add: diff_le_mono)
  ultimately show "(cut_last s, s) \<in> measure length" by (cases s) (auto simp: cut_last_def)
qed simp

declare parent_objects.simps [simp del]

text \<open>The loop over the entries, with the early return of a denial.\<close>

fun check_aces :: "Principal list \<Rightarrow> AccessControlEntry list \<Rightarrow> bool \<Rightarrow> bool" where
  "check_aces principals [] allowed = allowed"
| "check_aces principals (e # es) allowed =
     (if acePrincipal e \<in> set principals then
        case aceType e of
          Allow \<Rightarrow> check_aces principals es True
        | Deny \<Rightarrow> False
        | Unset \<Rightarrow> check_aces principals es allowed
      else check_aces principals es allowed)"

abbreviation everyone :: Principal where
  "everyone \<equiv> Principal ''builtin.everyone''"

definition CheckPrivilege_of :: "se_context \<Rightarrow> Principal \<Rightarrow> Object \<Rightarrow> bool option" where
  "CheckPrivilege_of ctx prin object =
     (case AddPrincipals ctx prin [prin, everyone] of
        None \<Rightarrow> None
      | Some principals \<Rightarrow>
          let objects = object # parent_objects (GetObjectIdentifier object) in
          Some (check_aces principals (concat (map (\<lambda>obj. multi_get obj (m_aces ctx)) objects)) False))"

subsection \<open>The stack of principals\<close>

text \<open>
  An entry is a reference to a principal, or a source, such as a \<open>fx::Client\<close>, whose list of principals is
  read whenever the stack is. Sources are numbered.
\<close>

datatype principal_entry = Principal_ref Principal | Principal_source nat

record se_state =
  se_contexts :: "nat \<Rightarrow> se_context"
  se_nextContext :: nat
  g_currentContext :: "nat option"
  g_globalContext :: "nat option"
  g_principalStack :: "principal_entry list"
  g_principalStackStack :: "principal_entry list list"
  principalSources :: "nat \<Rightarrow> Principal list"

text \<open>\<open>Client::GetPrincipals\<close>: the callback is called until it returns true.\<close>

fun EachPrincipal :: "Principal list \<Rightarrow> (Principal \<Rightarrow> 'a \<Rightarrow> bool \<times> 'a) \<Rightarrow> 'a \<Rightarrow> 'a" where
  "EachPrincipal [] func a = a"
| "EachPrincipal (p # ps) func a = (case func p a of (stop, a) \<Rightarrow> if stop then a else EachPrincipal ps func a)"

text \<open>A callback that returns true ends the loop at a reference; in a source it ends only that source.\<close>

fun LoopPrincipalStack ::
    "(nat \<Rightarrow> Principal list) \<Rightarrow> principal_entry list \<Rightarrow> (Principal \<Rightarrow> 'a \<Rightarrow> bool \<times> 'a) \<Rightarrow> 'a \<Rightarrow> 'a" where
  "LoopPrincipalStack sources [] func a = a"
| "LoopPrincipalStack sources (Principal_ref p # es) func a =
     (case func p a of (stop, a) \<Rightarrow> if stop then a else LoopPrincipalStack sources es func a)"
| "LoopPrincipalStack sources (Principal_source s # es) func a =
     LoopPrincipalStack sources es func (EachPrincipal (sources s) func a)"

text \<open>The accumulator is \<open>privilege\<close>, or \<open>None\<close> once a check does not return.\<close>

definition check_next :: "se_context \<Rightarrow> Object \<Rightarrow> Principal \<Rightarrow> bool option \<Rightarrow> bool \<times> bool option" where
  "check_next ctx object prin privilege =
     (case (privilege, CheckPrivilege_of ctx prin object) of
        (Some _, Some True) \<Rightarrow> (True, Some True)
      | (Some privilege, Some False) \<Rightarrow> (False, Some privilege)
      | _ \<Rightarrow> (True, None))"

definition CheckPrivilege :: "se_context \<Rightarrow> Object \<Rightarrow> se_state \<Rightarrow> bool option" where
  "CheckPrivilege ctx object st =
     (if g_principalStack st = [] then CheckPrivilege_of ctx everyone object
      else LoopPrincipalStack (principalSources st) (g_principalStack st) (check_next ctx object) (Some False))"

definition PushPrincipal :: "Principal \<Rightarrow> se_state \<Rightarrow> se_state" where
  "PushPrincipal prin st = st\<lparr>g_principalStack := Principal_ref prin # g_principalStack st\<rparr>"

definition PushPrincipal_source :: "nat \<Rightarrow> se_state \<Rightarrow> se_state" where
  "PushPrincipal_source source st = st\<lparr>g_principalStack := Principal_source source # g_principalStack st\<rparr>"

text \<open>\<open>pop_front\<close> of an empty stack is undefined.\<close>

definition PopPrincipal :: "se_state \<Rightarrow> se_state option" where
  "PopPrincipal st = (case g_principalStack st of [] \<Rightarrow> None | _ # es \<Rightarrow> Some (st\<lparr>g_principalStack := es\<rparr>))"

definition PushPrincipalReset :: "se_state \<Rightarrow> se_state" where
  "PushPrincipalReset st =
     st\<lparr>g_principalStackStack := g_principalStack st # g_principalStackStack st, g_principalStack := []\<rparr>"

definition PopPrincipalReset :: "se_state \<Rightarrow> se_state option" where
  "PopPrincipalReset st =
     (case g_principalStackStack st of
        [] \<Rightarrow> None
      | es # ess \<Rightarrow> Some (st\<lparr>g_principalStack := es, g_principalStackStack := ess\<rparr>))"

subsection \<open>The current context\<close>

definition MakeCurrent :: "nat \<Rightarrow> se_state \<Rightarrow> se_state" where
  "MakeCurrent c st = st\<lparr>g_currentContext := Some c\<rparr>"

definition seCreateContext :: "se_state \<Rightarrow> nat \<times> se_state" where
  "seCreateContext st =
     (let c = se_nextContext st in
      (c, st\<lparr>se_contexts := (se_contexts st)(c := se_Context), se_nextContext := c + 1\<rparr>))"

text \<open>The global context is made on the first use, with the entry of the console.\<close>

definition seGetCurrentContext :: "se_state \<Rightarrow> nat \<times> se_state" where
  "seGetCurrentContext st =
     (case g_currentContext st of
        Some c \<Rightarrow> (c, st)
      | None \<Rightarrow>
          case g_globalContext st of
            Some c \<Rightarrow> (c, st)
          | None \<Rightarrow>
              case seCreateContext st of
                (c, st) \<Rightarrow>
                  (c, st\<lparr>g_globalContext := Some c,
                     se_contexts := (se_contexts st)(c := AddAccessControlEntry (Principal ''system.console'') (Object ''command'') Allow (se_contexts st c))\<rparr>))"

definition seCheckPrivilege :: "string \<Rightarrow> se_state \<Rightarrow> bool option \<times> se_state" where
  "seCheckPrivilege object st =
     (case seGetCurrentContext st of (c, st) \<Rightarrow> (CheckPrivilege (se_contexts st c) (Object object) st, st))"

definition on_current :: "(se_context \<Rightarrow> se_context) \<Rightarrow> se_state \<Rightarrow> se_state" where
  "on_current f st =
     (case seGetCurrentContext st of (c, st) \<Rightarrow> st\<lparr>se_contexts := (se_contexts st)(c := f (se_contexts st c))\<rparr>)"

subsection \<open>The console commands\<close>

definition parse_access :: "string \<Rightarrow> AccessType option" where
  "parse_access allow = (if allow = ''allow'' then Some Allow else if allow = ''deny'' then Some Deny else None)"

text \<open>The test compares the argument as it was typed.\<close>

definition is_self :: "string \<Rightarrow> se_state \<Rightarrow> bool" where
  "is_self prin st =
     LoopPrincipalStack (principalSources st) (g_principalStack st)
       (\<lambda>ref isSelf. if prin = GetIdentifier ref then (True, True) else (False, isSelf)) False"

datatype ace_result = Ace_bad_type | Ace_self | Ace_done

definition add_ace :: "string \<Rightarrow> string \<Rightarrow> string \<Rightarrow> se_state \<Rightarrow> ace_result \<times> se_state" where
  "add_ace prin object allow st =
     (case parse_access allow of
        None \<Rightarrow> (Ace_bad_type, st)
      | Some type \<Rightarrow>
          if is_self prin st then (Ace_self, st)
          else (Ace_done, on_current (AddAccessControlEntry (Principal prin) (Object object) type) st))"

definition remove_ace :: "string \<Rightarrow> string \<Rightarrow> string \<Rightarrow> se_state \<Rightarrow> ace_result \<times> se_state" where
  "remove_ace prin object allow st =
     (case parse_access allow of
        None \<Rightarrow> (Ace_bad_type, st)
      | Some type \<Rightarrow>
          if is_self prin st then (Ace_self, st)
          else (Ace_done, on_current (RemoveAccessControlEntry (Principal prin) (Object object) type) st))"

definition add_principal :: "string \<Rightarrow> string \<Rightarrow> se_state \<Rightarrow> se_state" where
  "add_principal prin parent = on_current (AddPrincipalInheritance (Principal prin) (Principal parent))"

definition remove_principal :: "string \<Rightarrow> string \<Rightarrow> se_state \<Rightarrow> se_state" where
  "remove_principal prin parent = on_current (RemovePrincipalInheritance (Principal prin) (Principal parent))"

definition test_ace :: "string \<Rightarrow> string \<Rightarrow> se_state \<Rightarrow> bool option \<times> se_state" where
  "test_ace prin object st =
     (case seGetCurrentContext st of
        (c, st) \<Rightarrow> (CheckPrivilege_of (se_contexts st c) (Principal prin) (Object object), st))"

end
