(* ===== verification/Console.thy ===== *)
theory Console
  imports ConsoleArgs Security
begin

text \<open>
  The console, \<open>client/citicore/console/Console.{Commands,Variables}.{h,cpp}\<close>, \<open>Console.cpp\<close>: contexts with
  a command manager and a variable manager, the commands that set variables, and the execution of lines.
  Contexts, variables and the security state form one state; a variable is an object that is owned by its
  manager's map and by the \<open>ConVar\<close> objects of other code (\<open>cvHolders\<close>), and takes its two commands with it
  when it goes. Handlers are a data type, interpreted by \<open>run_function\<close>. Prints, events and callbacks are a
  log. Locks are left out. Outside code is the environment: event handlers, JSON, scripted commands, the
  clock, and whether the build is a server (\<open>IS_FXSERVER\<close>).
\<close>

subsection \<open>The state\<close>

type_synonym ctx_ref = nat
type_synonym var_ref = nat

datatype cmd_function =
    Fn_set ctx_ref u32
  | Fn_toggle ctx_ref
  | Fn_toggle2 ctx_ref
  | Fn_vstr ctx_ref
  | Fn_vstr_hold ctx_ref
  | Fn_vstr_release ctx_ref
  | Fn_get var_ref
  | Fn_put var_ref
  | Fn_wait ctx_ref
  | Fn_cmdlist ctx_ref
  | Fn_add_ace
  | Fn_remove_ace
  | Fn_add_principal
  | Fn_remove_principal
  | Fn_script nat

record cmd_entry =
  cmdName :: string
  cmdFunction :: cmd_function
  cmdResource :: string
  cmdToken :: nat
  cmdArity :: nat

record var_entry =
  veName :: string
  veDefaultFlags :: u32
  veFlags :: u32
  veVariable :: var_ref
  veToken :: nat

text \<open>\<open>m_trackingVar\<close> is the value of the tracked variable of the C++ code, which that code may change.\<close>

record cvar =
  cvManager :: ctx_ref
  cvName :: string
  m_curValue :: cvalue
  m_offlineValue :: cvalue
  m_constraints :: "(cvalue \<times> cvalue) option"
  m_defaultValue :: cvalue
  m_trackingVar :: "cvalue option"
  m_onChangeCallback :: bool
  m_getCommand :: nat
  m_setCommand :: nat

record console_context =
  m_fallbackContext :: "ctx_ref option"
  cmdEntries :: "(string \<times> cmd_entry) list"
  cmdCurToken :: nat
  m_rawCommand :: string
  varEntries :: "(string \<times> var_entry) list"
  varCurToken :: nat
  m_suppressReadOnlyWarning :: bool
  m_variableModifiedFlags :: u32
  m_commandBuffer :: string
  m_executing :: bool
  waitUntil :: int

datatype con_event =
    No_such_command string
  | Access_denied string
  | Command_failed call_error
  | Internal_warning string
  | ReadOnly_warning string
  | Out_of_range cvalue
  | Replicated_refused string
  | Change_callback var_ref
  | OnConvarModified string
  | Shown string "string option"
  | Ace_answer ace_result
  | Script_called nat "string list" string

record con_state =
  con_contexts :: "ctx_ref \<Rightarrow> console_context option"
  nextContext :: ctx_ref
  cvars :: "var_ref \<Rightarrow> cvar option"
  nextVar :: var_ref
  cvHolders :: "var_ref \<Rightarrow> nat"
  security :: se_state
  con_events :: "con_event list"

record con_env =
  is_fxserver :: bool
  json_points :: "code_point list \<Rightarrow> nat option"
  json_chars :: "string \<Rightarrow> nat option"
  FallbackEvent :: "string \<Rightarrow> string list \<Rightarrow> string \<Rightarrow> bool"
  AccessDeniedEvent :: "string \<Rightarrow> bool"
  script_arity :: "nat \<Rightarrow> nat option"
  script_accepts :: "nat \<Rightarrow> string list \<Rightarrow> string \<Rightarrow> bool"
  clock_ns :: int

definition log_event :: "con_event \<Rightarrow> con_state \<Rightarrow> con_state" where
  "log_event e st = st\<lparr>con_events := con_events st @ [e]\<rparr>"

definition upd_context :: "ctx_ref \<Rightarrow> (console_context \<Rightarrow> console_context) \<Rightarrow> con_state \<Rightarrow> con_state" where
  "upd_context c f st = st\<lparr>con_contexts := (con_contexts st)(c := map_option f (con_contexts st c))\<rparr>"

definition upd_var :: "var_ref \<Rightarrow> (cvar \<Rightarrow> cvar) \<Rightarrow> con_state \<Rightarrow> con_state" where
  "upd_var v f st = st\<lparr>cvars := (cvars st)(v := map_option f (cvars st v))\<rparr>"

text \<open>\<open>seCheckPrivilege\<close>; that it always returns is shown in \<open>SecurityLaws\<close>.\<close>

definition con_check :: "string \<Rightarrow> con_state \<Rightarrow> bool \<times> con_state" where
  "con_check object st =
     (case seCheckPrivilege object (security st) of (answer, s) \<Rightarrow> (answer = Some True, st\<lparr>security := s\<rparr>))"

subsection \<open>The command manager\<close>

definition cmd_Register :: "ctx_ref \<Rightarrow> string \<Rightarrow> string \<Rightarrow> cmd_function \<Rightarrow> nat \<Rightarrow> con_state \<Rightarrow> (nat \<times> con_state) option" where
  "cmd_Register c cmd resource func arity st =
     (case con_contexts st c of
        None \<Rightarrow> None
      | Some cx \<Rightarrow>
          let token = cmdCurToken cx in
          Some (token, upd_context c (\<lambda>cx. cx\<lparr>cmdCurToken := token + 1,
            cmdEntries := multi_put (ci cmd)
              \<lparr>cmdName = cmd, cmdFunction = func, cmdResource = resource, cmdToken = token, cmdArity = arity\<rparr> (cmdEntries cx)\<rparr>) st))"

text \<open>The first entry that satisfies \<open>P\<close> is erased.\<close>

fun erase_first :: "('a \<Rightarrow> bool) \<Rightarrow> 'a list \<Rightarrow> 'a list" where
  "erase_first P [] = []"
| "erase_first P (x # xs) = (if P x then xs else x # erase_first P xs)"

definition cmd_Unregister :: "ctx_ref \<Rightarrow> nat \<Rightarrow> con_state \<Rightarrow> con_state" where
  "cmd_Unregister c token =
     upd_context c (\<lambda>cx. cx\<lparr>cmdEntries := erase_first (\<lambda>(_, e). cmdToken e = token) (cmdEntries cx)\<rparr>)"

definition cmd_names :: "console_context \<Rightarrow> string list" where
  "cmd_names cx = map (cmdName \<circ> snd) (cmdEntries cx)"

definition HasCommand :: "console_context \<Rightarrow> string \<Rightarrow> bool" where
  "HasCommand cx cmd \<longleftrightarrow> multi_get (ci cmd) (cmdEntries cx) \<noteq> []"

subsection \<open>The variable manager\<close>

definition ConVar_Archive :: u32 where "ConVar_Archive = 0x1"
definition ConVar_Modified :: u32 where "ConVar_Modified = 0x2"
definition ConVar_ServerInfo :: u32 where "ConVar_ServerInfo = 0x4"
definition ConVar_Replicated :: u32 where "ConVar_Replicated = 0x8"
definition ConVar_ReadOnly :: u32 where "ConVar_ReadOnly = 0x10"
definition ConVar_Internal :: u32 where "ConVar_Internal = 0x40"

abbreviation flagged :: "u32 \<Rightarrow> u32 \<Rightarrow> bool" where
  "flagged flags msk \<equiv> flags AND msk \<noteq> 0"

definition find_var :: "console_context \<Rightarrow> string \<Rightarrow> var_entry option" where
  "find_var cx nm = map_of (varEntries cx) (ci nm)"

definition FindEntryRaw :: "ctx_ref \<Rightarrow> string \<Rightarrow> con_state \<Rightarrow> var_ref option" where
  "FindEntryRaw c nm st = Option.bind (con_contexts st c) (\<lambda>cx. map_option veVariable (find_var cx nm))"

definition GetEntryFlags :: "ctx_ref \<Rightarrow> string \<Rightarrow> con_state \<Rightarrow> u32" where
  "GetEntryFlags c nm st =
     (case Option.bind (con_contexts st c) (\<lambda>cx. find_var cx nm) of None \<Rightarrow> 0 | Some e \<Rightarrow> veFlags e)"

definition GetEntryDefaultFlags :: "ctx_ref \<Rightarrow> string \<Rightarrow> con_state \<Rightarrow> u32" where
  "GetEntryDefaultFlags c nm st =
     (case Option.bind (con_contexts st c) (\<lambda>cx. find_var cx nm) of None \<Rightarrow> 0 | Some e \<Rightarrow> veDefaultFlags e)"

definition set_entry_flags :: "ctx_ref \<Rightarrow> string \<Rightarrow> (u32 \<Rightarrow> u32) \<Rightarrow> con_state \<Rightarrow> con_state" where
  "set_entry_flags c nm f =
     upd_context c (\<lambda>cx. cx\<lparr>varEntries := map (\<lambda>(k, e). (k, if k = ci nm then e\<lparr>veFlags := f (veFlags e)\<rparr> else e)) (varEntries cx)\<rparr>)"

definition SetVariableModifiedFlags :: "ctx_ref \<Rightarrow> u32 \<Rightarrow> con_state \<Rightarrow> con_state" where
  "SetVariableModifiedFlags c flags = upd_context c (\<lambda>cx. cx\<lparr>m_variableModifiedFlags := m_variableModifiedFlags cx OR flags\<rparr>)"

definition AddEntryFlags :: "ctx_ref \<Rightarrow> string \<Rightarrow> u32 \<Rightarrow> con_state \<Rightarrow> con_state" where
  "AddEntryFlags c nm flags st =
     (if FindEntryRaw c nm st = None then st
      else
        let st = set_entry_flags c nm (\<lambda>f. f OR flags) st in
        SetVariableModifiedFlags c (GetEntryFlags c nm st) st)"

definition RemoveEntryFlags :: "ctx_ref \<Rightarrow> string \<Rightarrow> u32 \<Rightarrow> con_state \<Rightarrow> con_state" where
  "RemoveEntryFlags c nm flags = set_entry_flags c nm (\<lambda>f. f AND NOT flags)"

definition MarkConsoleVarModified :: "ctx_ref \<Rightarrow> string \<Rightarrow> con_state \<Rightarrow> con_state" where
  "MarkConsoleVarModified c nm st = log_event (OnConvarModified nm) (AddEntryFlags c nm ConVar_Modified st)"

subsection \<open>Variables\<close>

text \<open>What \<open>GetValue\<close> and \<open>UpdateTrackingVariable\<close> compare is a difference to the tracked variable.\<close>

definition refresh :: "cvar \<Rightarrow> cvar" where
  "refresh v = (case m_trackingVar v of None \<Rightarrow> v | Some t \<Rightarrow> v\<lparr>m_curValue := t\<rparr>)"

definition GetValue :: "var_ref \<Rightarrow> con_state \<Rightarrow> (string \<times> con_state) option" where
  "GetValue r st =
     (case cvars st r of
        None \<Rightarrow> None
      | Some v \<Rightarrow> Some (UnparseArgument (m_curValue (refresh v)), upd_var r refresh st))"

definition GetOfflineValue :: "cvar \<Rightarrow> string" where
  "GetOfflineValue v = UnparseArgument (m_offlineValue v)"

definition SaveOfflineValue :: "var_ref \<Rightarrow> con_state \<Rightarrow> con_state" where
  "SaveOfflineValue r = upd_var r (\<lambda>v. v\<lparr>m_offlineValue := m_curValue v\<rparr>)"

definition SetConstraints :: "var_ref \<Rightarrow> cvalue \<Rightarrow> cvalue \<Rightarrow> con_state \<Rightarrow> con_state" where
  "SetConstraints r minValue maxValue = upd_var r (\<lambda>v. v\<lparr>m_constraints := Some (minValue, maxValue)\<rparr>)"

definition SetTrackingVar :: "var_ref \<Rightarrow> bool \<Rightarrow> con_state \<Rightarrow> con_state" where
  "SetTrackingVar r tracked = upd_var r (\<lambda>v. v\<lparr>m_trackingVar := (if tracked then Some (m_curValue v) else None)\<rparr>)"

definition SetChangeCallback :: "var_ref \<Rightarrow> bool \<Rightarrow> con_state \<Rightarrow> con_state" where
  "SetChangeCallback r callback = upd_var r (\<lambda>v. v\<lparr>m_onChangeCallback := callback\<rparr>)"

text \<open>The store of the new value and the notifications at the end of \<open>SetRawValue\<close>.\<close>

definition store_value :: "var_ref \<Rightarrow> cvar \<Rightarrow> cvalue \<Rightarrow> con_state \<Rightarrow> con_state" where
  "store_value r v newValue st =
     (let st = upd_var r (\<lambda>v. v\<lparr>m_curValue := newValue, m_trackingVar := map_option (\<lambda>_. newValue) (m_trackingVar v)\<rparr>) st;
          st = (if m_onChangeCallback v then log_event (Change_callback r) st else st) in
      if m_curValue v \<noteq> newValue then MarkConsoleVarModified (cvManager v) (cvName v) st else st)"

definition SetRawValue :: "con_env \<Rightarrow> var_ref \<Rightarrow> cvalue \<Rightarrow> con_state \<Rightarrow> (bool \<times> con_state) option" where
  "SetRawValue env r newValue st =
     (case cvars st r of
        None \<Rightarrow> None
      | Some v \<Rightarrow>
          if (case m_constraints v of None \<Rightarrow> False | Some (lo, hi) \<Rightarrow> \<not> Compare newValue lo hi) then
            Some (False, log_event (Out_of_range newValue) st)
          else
            case (if \<not> is_fxserver env \<and> flagged (GetEntryFlags (cvManager v) (cvName v) st) ConVar_Replicated
                  then con_check ''builtin.setReplicated'' st else (True, st)) of
              (False, st) \<Rightarrow> Some (False, log_event (Replicated_refused (cvName v)) st)
            | (True, st) \<Rightarrow> Some (True, store_value r v newValue st))"

definition UpdateTrackingVariable :: "con_env \<Rightarrow> var_ref \<Rightarrow> con_state \<Rightarrow> con_state option" where
  "UpdateTrackingVariable env r st =
     (case cvars st r of
        None \<Rightarrow> None
      | Some v \<Rightarrow>
          (case m_trackingVar v of
             None \<Rightarrow> Some st
           | Some t \<Rightarrow> if t \<noteq> m_curValue v then map_option snd (SetRawValue env r t st) else Some st))"

definition suppressed :: "ctx_ref \<Rightarrow> con_state \<Rightarrow> bool" where
  "suppressed c st = (case con_contexts st c of None \<Rightarrow> False | Some cx \<Rightarrow> m_suppressReadOnlyWarning cx)"

definition SetValue :: "con_env \<Rightarrow> var_ref \<Rightarrow> string \<Rightarrow> con_state \<Rightarrow> (bool \<times> con_state) option" where
  "SetValue env r val st =
     (case cvars st r of
        None \<Rightarrow> None
      | Some v \<Rightarrow>
          let convarFlags = GetEntryFlags (cvManager v) (cvName v) st in
          if flagged convarFlags ConVar_Internal then Some (False, log_event (Internal_warning (cvName v)) st)
          else if flagged convarFlags ConVar_ReadOnly then
            Some (False, if suppressed (cvManager v) st then st else log_event (ReadOnly_warning (cvName v)) st)
          else
            case ParseArgument (type_of (m_curValue v)) val of
              None \<Rightarrow> Some (False, st)
            | Some newValue \<Rightarrow> SetRawValue env r newValue st)"

text \<open>The command with the name of the variable and one argument.\<close>

definition put_command :: "con_env \<Rightarrow> var_ref \<Rightarrow> cvalue \<Rightarrow> con_state \<Rightarrow> con_state option" where
  "put_command env r newValue st =
     (case cvars st r of
        None \<Rightarrow> None
      | Some v \<Rightarrow>
          let convarFlags = GetEntryFlags (cvManager v) (cvName v) st in
          if flagged convarFlags ConVar_Internal then Some (log_event (Internal_warning (cvName v)) st)
          else if flagged convarFlags ConVar_ReadOnly then
            Some (if suppressed (cvManager v) st then st else log_event (ReadOnly_warning (cvName v)) st)
          else map_option snd (SetRawValue env r newValue st))"

text \<open>The command with the name of the variable and no argument.\<close>

definition get_command :: "var_ref \<Rightarrow> con_state \<Rightarrow> con_state option" where
  "get_command r st =
     (case (cvars st r, GetValue r st) of
        (Some v, Some (val, st)) \<Rightarrow> Some (log_event (Shown (cvName v) (Some val)) st)
      | _ \<Rightarrow> None)"

definition new_variable :: "ctx_ref \<Rightarrow> string \<Rightarrow> cvalue \<Rightarrow> con_state \<Rightarrow> (var_ref \<times> con_state) option" where
  "new_variable c nm defaultValue st =
     (let r = nextVar st in
      case cmd_Register c nm ''internal'' (Fn_get r) 0 st of
        None \<Rightarrow> None
      | Some (getToken, st) \<Rightarrow>
          case cmd_Register c nm ''internal'' (Fn_put r) 1 st of
            None \<Rightarrow> None
          | Some (setToken, st) \<Rightarrow>
              Some (r, st\<lparr>nextVar := r + 1,
                cvars := (cvars st)(r \<mapsto> \<lparr>cvManager = c, cvName = nm, m_curValue = defaultValue, m_offlineValue = defaultValue,
                  m_constraints = None, m_defaultValue = defaultValue, m_trackingVar = None, m_onChangeCallback = False,
                  m_getCommand = getToken, m_setCommand = setToken\<rparr>)\<rparr>))"

text \<open>The type of an entry is the type of its value.\<close>

definition CreateVariableEntry :: "con_env \<Rightarrow> ctx_ref \<Rightarrow> string \<Rightarrow> cvalue \<Rightarrow> con_state \<Rightarrow> (var_ref \<times> con_state) option" where
  "CreateVariableEntry env c nm defaultValue st =
     (case FindEntryRaw c nm st of
        None \<Rightarrow> new_variable c nm defaultValue st
      | Some old \<Rightarrow>
          case cvars st old of
            None \<Rightarrow> None
          | Some v \<Rightarrow>
              if type_of (m_curValue v) = type_of defaultValue then Some (old, st)
              else
                case GetValue old st of
                  None \<Rightarrow> None
                | Some (oldValue, st) \<Rightarrow>
                    case new_variable c nm defaultValue st of
                      None \<Rightarrow> None
                    | Some (r, st) \<Rightarrow> map_option (\<lambda>(_, st). (r, st)) (SetValue env r oldValue st))"

subsection \<open>Registration and the lifetime of variables\<close>

definition var_owned :: "con_state \<Rightarrow> var_ref \<Rightarrow> bool" where
  "var_owned st r \<longleftrightarrow> cvHolders st r > 0 \<or>
     (case cvars st r of
        None \<Rightarrow> False
      | Some v \<Rightarrow>
          (case con_contexts st (cvManager v) of None \<Rightarrow> False | Some cx \<Rightarrow> r \<in> (veVariable \<circ> snd) ` set (varEntries cx)))"

definition drop_variable :: "var_ref \<Rightarrow> con_state \<Rightarrow> con_state" where
  "drop_variable r st =
     (case cvars st r of
        None \<Rightarrow> st
      | Some v \<Rightarrow>
          if var_owned st r then st
          else cmd_Unregister (cvManager v) (m_getCommand v)
            (cmd_Unregister (cvManager v) (m_setCommand v) (st\<lparr>cvars := (cvars st)(r := None)\<rparr>)))"

text \<open>A registration replaces the entry of the name.\<close>

definition var_Register :: "ctx_ref \<Rightarrow> string \<Rightarrow> u32 \<Rightarrow> var_ref \<Rightarrow> con_state \<Rightarrow> (nat \<times> con_state) option" where
  "var_Register c nm flags r st =
     (case con_contexts st c of
        None \<Rightarrow> None
      | Some cx \<Rightarrow>
          let token = varCurToken cx; old = FindEntryRaw c nm st;
              entry = \<lparr>veName = nm, veDefaultFlags = flags, veFlags = flags, veVariable = r, veToken = token\<rparr>;
              st = upd_context c (\<lambda>cx. cx\<lparr>varCurToken := token + 1, varEntries := map_put (ci nm) entry (varEntries cx)\<rparr>) st in
          Some (token, case old of None \<Rightarrow> st | Some o' \<Rightarrow> drop_variable o' st))"

definition erase_var :: "ctx_ref \<Rightarrow> (string \<times> var_entry \<Rightarrow> bool) \<Rightarrow> con_state \<Rightarrow> con_state" where
  "erase_var c P st =
     (case con_contexts st c of
        None \<Rightarrow> st
      | Some cx \<Rightarrow>
          case find P (varEntries cx) of
            None \<Rightarrow> st
          | Some (k, e) \<Rightarrow>
              drop_variable (veVariable e) (upd_context c (\<lambda>cx. cx\<lparr>varEntries := erase_first P (varEntries cx)\<rparr>) st))"

definition var_Unregister :: "ctx_ref \<Rightarrow> nat \<Rightarrow> con_state \<Rightarrow> con_state" where
  "var_Unregister c token = erase_var c (\<lambda>(_, e). veToken e = token)"

text \<open>\<open>it->first == name\<close> compares the case, too.\<close>

definition var_Unregister_name :: "ctx_ref \<Rightarrow> string \<Rightarrow> con_state \<Rightarrow> con_state" where
  "var_Unregister_name c nm = erase_var c (\<lambda>(_, e). veName e = nm)"

definition ForAllVariables :: "ctx_ref \<Rightarrow> u32 \<Rightarrow> con_state \<Rightarrow> var_entry list" where
  "ForAllVariables c flagMask st =
     (case con_contexts st c of
        None \<Rightarrow> []
      | Some cx \<Rightarrow>
          filter (\<lambda>e. flagged (veFlags e) flagMask \<or> veFlags e = 0 \<and> flagMask = - 1) (map snd (varEntries cx)))"

definition RemoveVariablesWithFlag :: "ctx_ref \<Rightarrow> u32 \<Rightarrow> con_state \<Rightarrow> con_state" where
  "RemoveVariablesWithFlag c flagMask st =
     (case con_contexts st c of
        None \<Rightarrow> st
      | Some cx \<Rightarrow>
          fold (var_Unregister c) (map veToken (filter (\<lambda>e. flagged (veFlags e) flagMask) (map snd (varEntries cx)))) st)"

text \<open>The constructor and the destructor of \<open>ConVar\<close>, an object of other code: its token and its variable.\<close>

definition ConVar_make ::
    "con_env \<Rightarrow> ctx_ref \<Rightarrow> string \<Rightarrow> u32 \<Rightarrow> cvalue \<Rightarrow> bool \<Rightarrow> bool \<Rightarrow> con_state \<Rightarrow> ((nat \<times> var_ref) \<times> con_state) option" where
  "ConVar_make env c nm flags defaultValue tracked callback st =
     (case CreateVariableEntry env c nm defaultValue st of
        None \<Rightarrow> None
      | Some (r, st) \<Rightarrow>
          case var_Register c nm flags r (st\<lparr>cvHolders := (cvHolders st)(r := cvHolders st r + 1)\<rparr>) of
            None \<Rightarrow> None
          | Some (token, st) \<Rightarrow>
              let st = (if tracked then SetTrackingVar r True st else st);
                  st = (if callback then SetChangeCallback r True st else st) in
              Some ((token, r), st))"

definition ConVar_drop :: "ctx_ref \<Rightarrow> nat \<Rightarrow> var_ref \<Rightarrow> con_state \<Rightarrow> con_state" where
  "ConVar_drop c token r st =
     (let st = var_Unregister c token st in
      drop_variable r (st\<lparr>cvHolders := (cvHolders st)(r := cvHolders st r - 1)\<rparr>))"

end
