(* ===== verification/ConsoleRun.thy ===== *)
theory ConsoleRun
  imports Console
begin

text \<open>
  The commands of the console and their execution: what each handler does, how a command is looked up in a
  context and its fallback, checked for privilege and called, and how lines and buffers are executed and the
  configuration is saved. \<open>None\<close> is undefined behaviour.
\<close>

subsection \<open>The handlers\<close>

text \<open>\<open>setCommand\<close> of the variable manager.\<close>

definition setCommand :: "con_env \<Rightarrow> ctx_ref \<Rightarrow> u32 \<Rightarrow> string \<Rightarrow> string \<Rightarrow> con_state \<Rightarrow> con_state option" where
  "setCommand env c addFlags variable val st =
     (case FindEntryRaw c variable st of
        Some r \<Rightarrow>
          (case SetValue env r val st of
             None \<Rightarrow> None
           | Some (done, st) \<Rightarrow> Some (if done then set_entry_flags c variable (\<lambda>f. f OR addFlags) st else st))
      | None \<Rightarrow>
          case CreateVariableEntry env c variable (CString []) st of
            None \<Rightarrow> None
          | Some (r, st) \<Rightarrow>
              case var_Register c variable (ConVar_Modified OR addFlags) r st of
                None \<Rightarrow> None
              | Some (_, st) \<Rightarrow> map_option snd (SetValue env r val st))"

definition toggleCommand :: "con_env \<Rightarrow> ctx_ref \<Rightarrow> string \<Rightarrow> string \<Rightarrow> string \<Rightarrow> con_state \<Rightarrow> con_state option" where
  "toggleCommand env c nm value1 value2 st =
     (case FindEntryRaw c nm st of
        None \<Rightarrow> Some st
      | Some r \<Rightarrow>
          case GetValue r st of
            None \<Rightarrow> None
          | Some (v, st) \<Rightarrow>
              let v = (if v = ''true'' then ''1'' else if v = ''false'' then ''0'' else v) in
              map_option snd (SetValue env r (if v = value1 then value2 else value1) st))"

definition AddToBuffer :: "ctx_ref \<Rightarrow> string \<Rightarrow> con_state \<Rightarrow> con_state" where
  "AddToBuffer c txt = upd_context c (\<lambda>cx. cx\<lparr>m_commandBuffer := m_commandBuffer cx @ txt\<rparr>)"

definition vstrCommand :: "ctx_ref \<Rightarrow> string \<Rightarrow> con_state \<Rightarrow> con_state option" where
  "vstrCommand c nm st =
     (case FindEntryRaw c nm st of
        None \<Rightarrow> Some st
      | Some r \<Rightarrow> map_option (\<lambda>(v, st). AddToBuffer c (v @ [CHR 0x0A]) st) (GetValue r st))"

definition waitCommand :: "con_env \<Rightarrow> ctx_ref \<Rightarrow> u32 \<Rightarrow> con_state \<Rightarrow> con_state" where
  "waitCommand env c msec =
     upd_context c (\<lambda>cx. cx\<lparr>waitUntil := (if waitUntil cx = 0 then clock_ns env div 1000000 else waitUntil cx) + sint msec\<rparr>)"

text \<open>\<open>cmdlist\<close>: the names of the context and its fallback, each once, that may be run.\<close>

definition listed :: "string list \<Rightarrow> (string \<times> string) list" where
  "listed names = fold (\<lambda>nm xs. if ci nm \<in> fst ` set xs then xs else map_put (ci nm) nm xs) names []"

definition fallback_of :: "ctx_ref \<Rightarrow> con_state \<Rightarrow> ctx_ref option" where
  "fallback_of c st = Option.bind (con_contexts st c) m_fallbackContext"

definition names_of :: "ctx_ref \<Rightarrow> con_state \<Rightarrow> string list" where
  "names_of c st = (case con_contexts st c of None \<Rightarrow> [] | Some cx \<Rightarrow> cmd_names cx)"

text \<open>The object of a command, \<open>fmt::sprintf("command.%s", name)\<close>.\<close>

definition command_object :: "string \<Rightarrow> string" where
  "command_object nm = ''command.'' @ nm"

definition show_command :: "ctx_ref \<Rightarrow> string \<Rightarrow> con_state \<Rightarrow> con_state option" where
  "show_command c nm st =
     (case con_check (command_object nm) st of
        (False, st) \<Rightarrow> Some st
      | (True, st) \<Rightarrow>
          case (case FindEntryRaw c nm st of
                  None \<Rightarrow> Option.bind (fallback_of c st) (\<lambda>f. FindEntryRaw f nm st)
                | Some r \<Rightarrow> Some r) of
            None \<Rightarrow> Some (log_event (Shown nm None) st)
          | Some r \<Rightarrow> map_option (\<lambda>(v, st). log_event (Shown nm (Some v)) st) (GetValue r st))"

definition cmdlist :: "ctx_ref \<Rightarrow> con_state \<Rightarrow> con_state option" where
  "cmdlist c st =
     handle_all (\<lambda>(_, nm). show_command c nm)
       (listed (names_of c st @ (case fallback_of c st of None \<Rightarrow> [] | Some f \<Rightarrow> names_of f st))) st"

definition on_security :: "(se_state \<Rightarrow> se_state) \<Rightarrow> con_state \<Rightarrow> con_state" where
  "on_security f st = st\<lparr>security := f (security st)\<rparr>"

definition ace_command :: "(se_state \<Rightarrow> ace_result \<times> se_state) \<Rightarrow> con_state \<Rightarrow> con_state" where
  "ace_command f st =
     (case f (security st) of (answer, s) \<Rightarrow>
        if answer = Ace_done then st\<lparr>security := s\<rparr> else log_event (Ace_answer answer) (st\<lparr>security := s\<rparr>))"

text \<open>The types of the parameters; a scripted command checks its arguments itself.\<close>

fun command_params :: "con_state \<Rightarrow> cmd_function \<Rightarrow> ctype list option" where
  "command_params st (Fn_set _ _) = Some [T_string, T_string]"
| "command_params st (Fn_toggle _) = Some [T_string]"
| "command_params st (Fn_toggle2 _) = Some [T_string, T_string, T_string]"
| "command_params st (Fn_vstr _) = Some [T_string]"
| "command_params st (Fn_vstr_hold _) = Some [T_string, T_string]"
| "command_params st (Fn_vstr_release _) = Some [T_string, T_string]"
| "command_params st (Fn_get _) = Some []"
| "command_params st (Fn_put r) = Some (case cvars st r of None \<Rightarrow> [] | Some v \<Rightarrow> [type_of (m_curValue v)])"
| "command_params st (Fn_wait _) = Some [T_int]"
| "command_params st (Fn_cmdlist _) = Some []"
| "command_params st Fn_add_ace = Some [T_string, T_string, T_string]"
| "command_params st Fn_remove_ace = Some [T_string, T_string, T_string]"
| "command_params st Fn_add_principal = Some [T_string, T_string]"
| "command_params st Fn_remove_principal = Some [T_string, T_string]"
| "command_params st (Fn_script _) = None"

text \<open>\<open>Call\<close> has checked the number and the types of the arguments.\<close>

definition str_arg :: "cvalue list \<Rightarrow> nat \<Rightarrow> string" where
  "str_arg values i = (case values ! i of CString s \<Rightarrow> s | _ \<Rightarrow> [])"

definition int_arg :: "cvalue list \<Rightarrow> nat \<Rightarrow> u32" where
  "int_arg values i = (case values ! i of CInt n \<Rightarrow> n | _ \<Rightarrow> 0)"

definition run_function :: "con_env \<Rightarrow> cmd_function \<Rightarrow> cvalue list \<Rightarrow> con_state \<Rightarrow> con_state option" where
  "run_function env func values st =
     (let a = str_arg values in
      case func of
        Fn_set c flags \<Rightarrow> setCommand env c flags (a 0) (a 1) st
      | Fn_toggle c \<Rightarrow> toggleCommand env c (a 0) ''1'' ''0'' st
      | Fn_toggle2 c \<Rightarrow> toggleCommand env c (a 0) (a 1) (a 2) st
      | Fn_vstr c \<Rightarrow> vstrCommand c (a 0) st
      | Fn_vstr_hold c \<Rightarrow> vstrCommand c (a 0) st
      | Fn_vstr_release c \<Rightarrow> vstrCommand c (a 1) st
      | Fn_get r \<Rightarrow> get_command r st
      | Fn_put r \<Rightarrow> put_command env r (values ! 0) st
      | Fn_wait c \<Rightarrow> Some (waitCommand env c (int_arg values 0) st)
      | Fn_cmdlist c \<Rightarrow> cmdlist c st
      | Fn_add_ace \<Rightarrow> Some (ace_command (add_ace (a 0) (a 1) (a 2)) st)
      | Fn_remove_ace \<Rightarrow> Some (ace_command (remove_ace (a 0) (a 1) (a 2)) st)
      | Fn_add_principal \<Rightarrow> Some (on_security (add_principal (a 0) (a 1)) st)
      | Fn_remove_principal \<Rightarrow> Some (on_security (remove_principal (a 0) (a 1)) st)
      | Fn_script n \<Rightarrow> None)"

text \<open>One overload: an error, or that it accepted the arguments. A scripted command reports by its result.\<close>

definition call_function :: "con_env \<Rightarrow> string \<Rightarrow> string list \<Rightarrow> cmd_function \<Rightarrow> con_state \<Rightarrow> (call_error + con_state) option" where
  "call_function env executionContext arguments func st =
     (case func of
        Fn_script n \<Rightarrow>
          if script_accepts env n arguments executionContext
          then Some (Inr (log_event (Script_called n arguments executionContext) st))
          else Some (Inl (Count_mismatch (length arguments) 0))
      | _ \<Rightarrow>
          case command_params st func of
            None \<Rightarrow> None
          | Some params \<Rightarrow>
              case Call params arguments of
                Inl err \<Rightarrow> Some (Inl err)
              | Inr values \<Rightarrow> map_option Inr (run_function env func values st))"

subsection \<open>Calling a command\<close>

text \<open>The overloads are tried until one accepts; otherwise the last error is printed.\<close>

fun try_functions :: "con_env \<Rightarrow> string \<Rightarrow> string list \<Rightarrow> cmd_function list \<Rightarrow> con_state \<Rightarrow> con_state option" where
  "try_functions env executionContext arguments [] st = Some st"
| "try_functions env executionContext arguments (f # fs) st =
     (case call_function env executionContext arguments f st of
        None \<Rightarrow> None
      | Some (Inr st) \<Rightarrow> Some st
      | Some (Inl err) \<Rightarrow>
          if fs = [] then Some (log_event (Command_failed err) st)
          else try_functions env executionContext arguments fs st)"

text \<open>A fallback context is older than the contexts that fall back to it, so the recursion ends.\<close>

function InvokeDirect :: "con_env \<Rightarrow> ctx_ref \<Rightarrow> string \<Rightarrow> string list \<Rightarrow> string \<Rightarrow> con_state \<Rightarrow> con_state option" where
  "InvokeDirect env c cmd arguments executionContext st =
     (case con_contexts st c of
        None \<Rightarrow> None
      | Some cx \<Rightarrow>
          let functionAttempts = map cmdFunction (multi_get (ci cmd) (cmdEntries cx)) in
          if functionAttempts = [] then
            if \<not> FallbackEvent env cmd arguments executionContext then Some st
            else
              (case m_fallbackContext cx of
                 Some f \<Rightarrow>
                   if f < c then InvokeDirect env f cmd arguments executionContext (upd_context f (\<lambda>cx'. cx'\<lparr>m_rawCommand := m_rawCommand cx\<rparr>) st)
                   else None
               | None \<Rightarrow> Some (if executionContext = [] then log_event (No_such_command cmd) st else st))
          else
            case con_check (command_object cmd) st of
              (False, st) \<Rightarrow> Some (if AccessDeniedEvent env cmd then log_event (Access_denied cmd) st else st)
            | (True, st) \<Rightarrow> try_functions env executionContext arguments functionAttempts st)"
  by pat_completeness auto
termination by (relation "measure (\<lambda>(env, c, _). c)") auto

declare InvokeDirect.simps [simp del]

definition Invoke :: "con_env \<Rightarrow> ctx_ref \<Rightarrow> string \<Rightarrow> string \<Rightarrow> con_state \<Rightarrow> con_state option" where
  "Invoke env c commandString executionContext st =
     (case Tokenize (json_points env) commandString of
        None \<Rightarrow> None
      | Some [] \<Rightarrow> Some st
      | Some (cmd # arguments) \<Rightarrow>
          map_option (upd_context c (\<lambda>cx. cx\<lparr>m_rawCommand := []\<rparr>))
            (InvokeDirect env c cmd arguments executionContext (upd_context c (\<lambda>cx. cx\<lparr>m_rawCommand := commandString\<rparr>) st)))"

definition ExecuteSingleCommand :: "con_env \<Rightarrow> ctx_ref \<Rightarrow> string \<Rightarrow> con_state \<Rightarrow> con_state option" where
  "ExecuteSingleCommand env c cmd = Invoke env c cmd []"

definition ExecuteSingleCommandDirect :: "con_env \<Rightarrow> ctx_ref \<Rightarrow> string list \<Rightarrow> con_state \<Rightarrow> con_state option" where
  "ExecuteSingleCommandDirect env c arguments st =
     (case arguments of [] \<Rightarrow> Some st | cmd # localArgs \<Rightarrow> InvokeDirect env c cmd localArgs [] st)"

subsection \<open>Contexts\<close>

definition empty_context :: "ctx_ref option \<Rightarrow> console_context" where
  "empty_context fallback =
     \<lparr>m_fallbackContext = fallback, cmdEntries = [], cmdCurToken = 0, m_rawCommand = [], varEntries = [], varCurToken = 0,
      m_suppressReadOnlyWarning = False, m_variableModifiedFlags = 0, m_commandBuffer = [], m_executing = False, waitUntil = 0\<rparr>"

definition builtin_commands :: "con_env \<Rightarrow> ctx_ref \<Rightarrow> (string \<times> cmd_function \<times> nat) list" where
  "builtin_commands env c =
     [(''set'', Fn_set c 0, 2), (''seta'', Fn_set c ConVar_Archive, 2)]
     @ (if is_fxserver env then [(''sets'', Fn_set c ConVar_ServerInfo, 2)] else [])
     @ [(''setr'', Fn_set c ConVar_Replicated, 2), (''toggle'', Fn_toggle c, 1), (''toggle'', Fn_toggle2 c, 3),
        (''vstr'', Fn_vstr c, 1), (''+vstr'', Fn_vstr_hold c, 2), (''-vstr'', Fn_vstr_release c, 2),
        (''wait'', Fn_wait c, 1), (''cmdlist'', Fn_cmdlist c, 0)]"

definition Context_make :: "con_env \<Rightarrow> ctx_ref option \<Rightarrow> con_state \<Rightarrow> (ctx_ref \<times> con_state) option" where
  "Context_make env fallback st =
     (let c = nextContext st in
      map_option (Pair c)
        (handle_all (\<lambda>(nm, f, n) st. map_option snd (cmd_Register c nm ''internal'' f n st)) (builtin_commands env c)
          (st\<lparr>con_contexts := (con_contexts st)(c \<mapsto> empty_context fallback), nextContext := c + 1\<rparr>)))"

text \<open>The commands that \<open>seGetCurrentContext\<close> registers with the default context.\<close>

definition security_commands :: "con_env \<Rightarrow> (string \<times> cmd_function \<times> nat) list" where
  "security_commands env =
     (if is_fxserver env then
        [(''add_ace'', Fn_add_ace, 3), (''add_principal'', Fn_add_principal, 2), (''remove_ace'', Fn_remove_ace, 3),
         (''remove_principal'', Fn_remove_principal, 2)]
      else [])"

definition IsBufferEmpty :: "console_context \<Rightarrow> bool" where
  "IsBufferEmpty cx \<longleftrightarrow> m_commandBuffer cx = [] \<and> \<not> m_executing cx"

definition ExecuteBuffer :: "con_env \<Rightarrow> ctx_ref \<Rightarrow> con_state \<Rightarrow> con_state option" where
  "ExecuteBuffer env c st =
     (case con_contexts st c of
        None \<Rightarrow> None
      | Some cx \<Rightarrow>
          if waitUntil cx \<noteq> 0 \<and> waitUntil cx * 1000000 \<ge> clock_ns env then Some st
          else
            case take_commands (json_chars env) (m_commandBuffer cx) of
              (toExecute, rest) \<Rightarrow>
                map_option (upd_context c (\<lambda>cx. cx\<lparr>m_executing := False\<rparr>))
                  (handle_all (ExecuteSingleCommand env c) toExecute
                    (upd_context c (\<lambda>cx. cx\<lparr>waitUntil := 0, m_commandBuffer := rest, m_executing := True\<rparr>) st)))"

subsection \<open>Saving the configuration\<close>

definition config_line :: "var_entry \<Rightarrow> con_state \<Rightarrow> (string \<times> con_state) option" where
  "config_line e st =
     (case cvars st (veVariable e) of
        None \<Rightarrow> None
      | Some v \<Rightarrow>
          map_option (\<lambda>(val, st). (''seta '' @ [CHR 0x22] @ veName e @ [CHR 0x22, CHR '' '', CHR 0x22] @ val @ [CHR 0x22], st))
            (if flagged (veFlags e) ConVar_Replicated then Some (GetOfflineValue v, st) else GetValue (veVariable e) st))"

fun config_lines :: "var_entry list \<Rightarrow> con_state \<Rightarrow> (string list \<times> con_state) option" where
  "config_lines [] st = Some ([], st)"
| "config_lines (e # es) st =
     (case config_line e st of
        None \<Rightarrow> None
      | Some (line, st) \<Rightarrow> map_option (\<lambda>(lines, st). (line # lines, st)) (config_lines es st))"

definition var_SaveConfiguration :: "ctx_ref \<Rightarrow> con_state \<Rightarrow> (string list \<times> con_state) option" where
  "var_SaveConfiguration c st = config_lines (ForAllVariables c ConVar_Archive st) st"

text \<open>
  The lines of the file, without those that handlers of \<open>OnSaveConfiguration\<close> add; a line is followed by
  carriage return and newline.
\<close>

definition SaveConfiguration :: "ctx_ref \<Rightarrow> con_state \<Rightarrow> (string \<times> con_state) option" where
  "SaveConfiguration c st =
     map_option (\<lambda>(lines, st). (concat (map (\<lambda>l. l @ [CHR 0x0D, CHR 0x0A]) (''// generated by CitizenFX'' # lines)), st))
       (var_SaveConfiguration c st)"

text \<open>The static variables of \<open>SaveConfigurationIfNeeded\<close> are its first two arguments.\<close>

definition SaveConfigurationIfNeeded ::
    "con_env \<Rightarrow> int \<Rightarrow> bool \<Rightarrow> ctx_ref \<Rightarrow> con_state \<Rightarrow> (string option \<times> (int \<times> bool) \<times> con_state) option" where
  "SaveConfigurationIfNeeded env lastCheck wasSavedBefore c st =
     (let now = clock_ns env div 1000000; check = (now - lastCheck > 2500) in
      case (if check then handle_all (UpdateTrackingVariable env \<circ> veVariable) (ForAllVariables c (- 1) st) st else Some st) of
        None \<Rightarrow> None
      | Some st \<Rightarrow>
          let lastCheck = (if check then now else lastCheck) in
          case con_contexts st c of
            None \<Rightarrow> None
          | Some cx \<Rightarrow>
              if \<not> wasSavedBefore \<or> flagged (m_variableModifiedFlags cx) ConVar_Archive then
                map_option (\<lambda>(txt, st). (Some txt, (lastCheck, True),
                    upd_context c (\<lambda>cx. cx\<lparr>m_variableModifiedFlags := m_variableModifiedFlags cx AND NOT ConVar_Archive\<rparr>) st))
                  (SaveConfiguration c st)
              else Some (None, (lastCheck, wasSavedBefore), st))"

end
