(* ===== verification/ConsoleTextLaws.thy ===== *)
theory ConsoleTextLaws
  imports ConsoleText
begin

text \<open>
  \<open>Tokenize\<close> always returns; it reads back arguments that are spelled as words or in quotes; a block comment
  is not skipped. \<open>ExecuteBuffer\<close> cuts a buffer into the lines it was made of, as long as no quote is escaped.
\<close>

subsection \<open>Comments\<close>

lemma skip_comment_opening [simp]: "skip_comment prev (slash # star # r) = Some (Some slash, star # r)"
  by simp

text \<open>The loop over a comment stops at the star of the opening, so only that and one character are skipped.\<close>

lemma skip_space_eq:
  "skip_space prev rest =
     (case skip_blanks prev rest of (prev, rest) \<Rightarrow>
        if rest = [] then Skip_return
        else if prev = None then Skip_to prev rest
        else if at rest 0 = slash \<and> at rest 1 = slash \<or> at rest 0 = hash_sign then Skip_return
        else if at rest 0 = slash \<and> at rest 1 = star then skip_space (Some (at rest 2)) (drop 3 rest)
        else Skip_to prev rest)"
proof -
  obtain p r where b: "skip_blanks prev rest = (p, r)" by force
  show ?thesis
  proof (cases "at r 0 = slash \<and> at r 1 = star")
    case True
    then obtain t where r: "r = slash # star # t"
      by (cases r; cases "tl r") auto
    have "drop 2 (star # t) = drop 3 r" "at (star # t) 1 = at r 2" by (simp_all add: r numeral_2_eq_2 numeral_3_eq_3)
    then show ?thesis by (subst skip_space.simps) (simp add: b r del: skip_comment.simps)
  next
    case False
    then show ?thesis by (subst skip_space.simps) (auto simp: b)
  qed
qed

lemma skip_space_defined: "skip_space prev rest \<noteq> Skip_undefined"
proof (induction "length rest" arbitrary: prev rest rule: less_induct)
  case less
  obtain p r where b: "skip_blanks prev rest = (p, r)" by force
  then have "length r \<le> length rest" using skip_blanks_length [of p r prev rest] by simp
  then have "length (drop 3 r) < length rest" if "r \<noteq> []" using that by (cases r) auto
  then have "skip_space (Some (at r 2)) (drop 3 r) \<noteq> Skip_undefined" if "r \<noteq> []" using less that by blast
  then show ?case by (subst skip_space_eq) (auto simp: b)
qed

lemma Tokenize_loop_total: "\<exists>args'. Tokenize_loop j prev rest args = Some args'"
proof (induction j prev rest args rule: Tokenize_loop.induct)
  case (1 j prev rest args)
  show ?case
  proof (cases "skip_space prev rest")
    case (Skip_to p r)
    obtain qa qr where q: "quoted False (tl r) = (qa, qr)" by force
    obtain e pa pp pr where l: "plain p r = (e, pa, pp, pr)" by (metis prod_cases4)
    show ?thesis
      using "1.IH" [OF Skip_to] by (subst Tokenize_loop.simps) (auto simp: Skip_to q l Let_def split: option.splits if_splits)
  qed (use skip_space_defined [of prev rest] in \<open>auto simp: Tokenize_loop.simps [of j prev rest]\<close>)
qed

lemma Tokenize_total: "\<exists>args. Tokenize j s = Some args"
  using Tokenize_loop_total [of j None _ "[]"] by (fastforce simp: Tokenize_def split: option.splits)

subsection \<open>Spelling arguments\<close>

definition escape :: "code_point list \<Rightarrow> code_point list" where
  "escape arg = concat (map (\<lambda>c. if c = quote then [backslash, quote] else [c]) arg)"

lemma escape_simps [simp]:
  "escape [] = []" "escape (c # cs) = (if c = quote then backslash # quote # escape cs else c # escape cs)"
  by (simp_all add: escape_def)

definition word :: "code_point list \<Rightarrow> bool" where
  "word w \<longleftrightarrow> w \<noteq> [] \<and> (\<forall>c\<in>set w. blank < c \<and> c \<noteq> quote) \<and> hd w \<notin> {hash_sign, slash, 91, 123}"

text \<open>An argument may be given as a word, or in quotes, if it does not end in a backslash.\<close>

definition spells :: "code_point list \<Rightarrow> code_point list \<Rightarrow> bool" where
  "spells s arg \<longleftrightarrow> s = arg \<and> word arg \<or> s = quote # escape arg @ [quote] \<and> (arg = [] \<or> last arg \<noteq> backslash)"

lemma quoted_escape: "arg = [] \<or> last arg \<noteq> backslash \<Longrightarrow> quoted False (escape arg @ quote # rest) = (arg, rest)"
proof (induction arg)
  case (Cons c arg)
  have "at (escape arg @ quote # rest) 0 \<noteq> quote" if "arg \<noteq> []" using that by (cases arg) auto
  then show ?case using Cons by (auto split: if_splits)
qed simp

lemma plain_word:
  assumes "\<forall>c\<in>set w. blank < c \<and> c \<noteq> quote" "p \<noteq> blank" "p \<noteq> 9" "tail = [] \<or> hd tail = blank"
  shows "\<exists>q. plain (Some p) (w @ tail) = (False, w, Some q, tail)"
  using assms
proof (induction w arbitrary: p)
  case Nil
  then show ?case by (cases tail) auto
next
  case (Cons c w)
  then obtain q where "plain (Some c) (w @ tail) = (False, w, Some q, tail)" by fastforce
  then show ?case using Cons.prems by auto
qed

lemma plain_word_start:
  assumes w: "word w" and tail: "tail = [] \<or> hd tail = blank"
  shows "\<exists>q. plain prev (w @ tail) = (False, w, Some q, tail)"
proof -
  obtain c cs where [simp]: "w = c # cs" using w by (cases w) (auto simp: word_def)
  have "\<forall>c\<in>set cs. blank < c \<and> c \<noteq> quote" "c \<noteq> blank" "c \<noteq> 9" using w by (auto simp: word_def)
  from plain_word [OF this tail] obtain q where "plain (Some c) (cs @ tail) = (False, cs, Some q, tail)" by blast
  then show ?thesis using w by (auto simp: word_def)
qed

lemma skip_blank [simp]: "skip_space prev (blank # rest) = skip_space (Some blank) rest"
  by (simp add: skip_space.simps [of prev "blank # rest"] skip_space.simps [of "Some blank" rest])

lemma skip_space_here:
  "blank < c \<Longrightarrow> c \<noteq> hash_sign \<Longrightarrow> c \<noteq> slash \<Longrightarrow> skip_space prev (c # cs) = Skip_to prev (c # cs)"
  by (simp add: skip_space.simps [of prev "c # cs"])

text \<open>One argument.\<close>

lemma Tokenize_loop_spelled:
  assumes s: "spells s arg" and tail: "tail = [] \<or> hd tail = blank"
  shows "\<exists>q. Tokenize_loop j prev (s @ tail) args
     = (if tail = [] then Some (args @ [arg]) else Tokenize_loop j (Some q) tail (args @ [arg]))"
proof (cases "s = arg \<and> word arg")
  case True
  then obtain c cs where [simp]: "arg = c # cs" by (cases arg) (auto simp: word_def)
  have c: "blank < c" "c \<notin> {quote, hash_sign, slash, 91, 123}" using True by (auto simp: word_def)
  obtain q where q: "plain prev (arg @ tail) = (False, arg, Some q, tail)" using plain_word_start True tail by blast
  have "skip_space prev (arg @ tail) = Skip_to prev (arg @ tail)" using c skip_space_here [of c] by simp
  then show ?thesis using True c q by (subst Tokenize_loop.simps) (auto simp del: plain.simps)
next
  case False
  then have [simp]: "s = quote # escape arg @ [quote]" and "arg = [] \<or> last arg \<noteq> backslash" using s by (auto simp: spells_def)
  then have q: "quoted False (escape arg @ quote # tail) = (arg, tail)" by (simp add: quoted_escape)
  have "skip_space prev (s @ tail) = Skip_to prev (s @ tail)" by (simp add: skip_space_here)
  then show ?thesis using q by (subst Tokenize_loop.simps) auto
qed

text \<open>Arguments with a blank in front of each.\<close>

definition spaced :: "code_point list list \<Rightarrow> code_point list" where
  "spaced ss = concat (map (Cons blank) ss)"

lemma spaced_simps [simp]: "spaced [] = []" "spaced (s # ss) = blank # s @ spaced ss" "spaced (ss @ ss') = spaced ss @ spaced ss'"
  by (simp_all add: spaced_def)

lemma spaced_tail: "spaced ss = [] \<or> hd (spaced ss) = blank"
  by (cases ss) auto

lemma Tokenize_loop_blank: "Tokenize_loop j prev (blank # rest) args = Tokenize_loop j (Some blank) rest args"
  by (simp add: Tokenize_loop.simps [of j prev "blank # rest"] Tokenize_loop.simps [of j "Some blank" rest])

lemma Tokenize_loop_spaced:
  assumes "list_all2 spells ss args'" "tail = [] \<or> hd tail = blank" "prev \<noteq> None"
  shows "\<exists>q. Tokenize_loop j prev (spaced ss @ tail) args
    = (if tail = [] then Some (args @ args') else Tokenize_loop j (Some q) tail (args @ args'))"
  using assms
proof (induction ss args' arbitrary: prev args rule: list_all2_induct)
  case Nil
  then show ?case by (auto simp: Tokenize_loop.simps [of j prev "[]"] skip_space.simps)
next
  case (Cons s ss arg args')
  have "spaced ss @ tail = [] \<or> hd (spaced ss @ tail) = blank" using Cons.prems spaced_tail [of ss] by (cases ss) auto
  from Tokenize_loop_spelled [OF Cons.hyps(1) this, of j "Some blank" args] obtain q where
    q: "Tokenize_loop j (Some blank) (s @ spaced ss @ tail) args
      = (if spaced ss @ tail = [] then Some (args @ [arg]) else Tokenize_loop j (Some q) (spaced ss @ tail) (args @ [arg]))" by blast
  show ?case
  proof (cases "spaced ss @ tail = []")
    case True
    then have "ss = []" "tail = []" by (cases ss; auto)+
    then show ?thesis using q Cons.hyps(2) by (auto simp: Tokenize_loop_blank)
  next
    case False
    then show ?thesis using q Cons.IH [of "Some q" "args @ [arg]"] Cons.prems by (auto simp: Tokenize_loop_blank)
  qed
qed

text \<open>A block comment between arguments: its contents and its end are arguments.\<close>

lemma Tokenize_loop_comment:
  "Tokenize_loop j (Some p) (blank # slash # star # blank # rest) args = Tokenize_loop j (Some blank) rest args"
proof -
  have "skip_space (Some p) (blank # slash # star # blank # rest) = skip_space (Some blank) rest"
    by (subst skip_space_eq) (simp add: numeral_2_eq_2)
  then show ?thesis
    by (simp add: Tokenize_loop.simps [of j "Some p" "blank # slash # star # blank # rest"] Tokenize_loop.simps [of j "Some blank" rest])
qed

lemma Tokenize_loop_start:
  assumes "spells s arg" "list_all2 spells ss args'" "tail = [] \<or> hd tail = blank"
  shows "\<exists>q. Tokenize_loop j prev (s @ spaced ss @ tail) args
    = (if tail = [] then Some (args @ arg # args') else Tokenize_loop j (Some q) tail (args @ arg # args'))"
proof -
  have "spaced ss @ tail = [] \<or> hd (spaced ss @ tail) = blank" using assms(3) by (cases ss) auto
  from Tokenize_loop_spelled [OF assms(1) this, of j prev args] obtain q where
    q: "Tokenize_loop j prev (s @ spaced ss @ tail) args
      = (if spaced ss @ tail = [] then Some (args @ [arg]) else Tokenize_loop j (Some q) (spaced ss @ tail) (args @ [arg]))" by blast
  show ?thesis
  proof (cases "spaced ss @ tail = []")
    case True
    then have "ss = []" "tail = []" by (cases ss; auto)+
    then show ?thesis using q assms(2) by auto
  next
    case False
    then show ?thesis using q Tokenize_loop_spaced [OF assms(2,3), of "Some q" j "args @ [arg]"] by auto
  qed
qed

theorem Tokenize_spelled:
  assumes "spells s arg" "list_all2 spells ss args" "to_bytes (s @ spaced ss) = Some line"
  shows "Tokenize j line = Some (map argument_bytes (arg # args))"
  using Tokenize_loop_start [OF assms(1,2), of "[]" j None "[]"] from_to_bytes [OF assms(3)] by (simp add: Tokenize_def)

theorem Tokenize_comment:
  assumes a: "spells s arg" "list_all2 spells ss args" and b: "list_all2 spells ts args'" "ts \<noteq> []"
    and "to_bytes (s @ spaced ss @ [blank, slash, star] @ spaced ts @ [blank, star, slash]) = Some line"
  shows "Tokenize j line = Some (map argument_bytes (arg # args @ args' @ [[star, slash]]))"
proof -
  obtain t tt x xs where ts: "ts = t # tt" "args' = x # xs" "spells t x" "list_all2 spells tt xs"
    using b by (cases ts; cases args') auto
  have e: "list_all2 spells (tt @ [[star, slash]]) (xs @ [[star, slash]])"
    using ts(4) by (simp add: list_all2_appendI spells_def word_def)
  obtain q where "Tokenize_loop j None (s @ spaced ss @ [blank, slash, star] @ spaced ts @ [blank, star, slash]) []
      = Tokenize_loop j (Some q) ([blank, slash, star] @ spaced ts @ [blank, star, slash]) (arg # args)"
    using Tokenize_loop_start [OF a, of "[blank, slash, star] @ spaced ts @ [blank, star, slash]" j None "[]"] by auto
  also have "\<dots> = Tokenize_loop j (Some blank) (t @ spaced (tt @ [[star, slash]])) (arg # args)"
    using Tokenize_loop_comment [of j q] by (simp add: ts(1))
  also have "\<dots> = Some (arg # args @ args' @ [[star, slash]])"
    using Tokenize_loop_start [OF ts(3) e, of "[]" j "Some blank" "arg # args"] by (simp add: ts(2))
  finally show ?thesis using from_to_bytes [OF assms(5)] by (simp add: Tokenize_def)
qed

subsection \<open>Buffers\<close>

text \<open>A command with balanced quotes, whose semicolons and brackets are quoted.\<close>

fun clean :: "bool \<Rightarrow> string \<Rightarrow> bool" where
  "clean inQuote [] \<longleftrightarrow> \<not> inQuote"
| "clean inQuote (c # cs) \<longleftrightarrow> c \<noteq> CHR 0x0D \<and> c \<noteq> CHR 0x0A \<and> (inQuote \<or> c \<notin> {CHR '';'', CHR ''{'', CHR ''[''})
     \<and> clean (if c = CHR 0x22 then \<not> inQuote else inQuote) cs"

lemma next_command_clean:
  "clean q s \<Longrightarrow> sep \<in> {CHR '';'', CHR 0x0D, CHR 0x0A} \<Longrightarrow> next_command j q (s @ sep # rest) = (s, rest)"
  by (induction q s rule: clean.induct) (auto split: if_splits)

lemma next_command_last: "clean q s \<Longrightarrow> next_command j q s = (s, [])"
  by (induction q s rule: clean.induct) (auto split: if_splits)

definition terminated :: "string list \<Rightarrow> string" where
  "terminated commands = concat (map (\<lambda>s. s @ [CHR 0x0A]) commands)"

lemma take_commands_terminated:
  assumes "\<forall>s\<in>set commands. clean False s \<and> take 4 (trim_left s) \<noteq> ''wait''"
  shows "take_commands j (terminated commands) = (commands, [])"
  using assms
proof (induction commands)
  case (Cons s commands)
  have "next_command j False (s @ CHR 0x0A # terminated commands) = (s, terminated commands)"
    using Cons.prems by (intro next_command_clean) auto
  then show ?case using Cons by (subst take_commands.simps) (simp add: terminated_def)
qed (simp add: take_commands.simps terminated_def)

text \<open>
  An escaped quote ends the quotes of \<open>ExecuteBuffer\<close>, although it does not end those of \<open>Tokenize\<close>: what
  follows a semicolon is a command of its own.
\<close>

definition harmless :: "string \<Rightarrow> bool" where
  "harmless s \<longleftrightarrow> (\<forall>c\<in>set s. c \<notin> {CHR 0x0D, CHR 0x0A, CHR 0x22, CHR 0x5C, CHR '';'', CHR ''{'', CHR ''[''})"

lemma clean_harmless: "harmless s \<Longrightarrow> clean q (s @ t) = clean q t"
  by (induction s arbitrary: q) (auto simp: harmless_def)

lemma next_command_escaped:
  assumes "harmless a" "harmless b"
  shows "next_command j False (a @ CHR 0x22 # b @ [CHR 0x5C, CHR 0x22] @ CHR '';'' # rest) = (a @ CHR 0x22 # b @ [CHR 0x5C, CHR 0x22], rest)"
proof -
  have "clean False (a @ CHR 0x22 # b @ [CHR 0x5C, CHR 0x22])"
    using assms clean_harmless [of a] clean_harmless [of b] by (simp add: clean_harmless)
  from next_command_clean [OF this, of "CHR '';''" j rest] show ?thesis by simp
qed

lemma from_bytes_ascii:
  assumes "from_bytes s = Some cs" "c \<in> set cs" "c < 128"
  shows "char_of c \<in> set s"
proof -
  have "s = map char_of (concat (map utf8_point cs))"
    using to_from_bytes [OF assms(1)] by (simp add: to_bytes_def split: if_splits)
  moreover have "utf8_point c = [c]" using utf8_point_ascii [of c] assms(3) by simp
  ultimately show ?thesis using assms(2) by force
qed

lemma harmless_points:
  assumes "harmless s" "from_bytes s = Some cs"
  shows "quote \<notin> set cs" "backslash \<notin> set cs"
  using assms(1) from_bytes_ascii [OF assms(2), of quote] from_bytes_ascii [OF assms(2), of backslash]
  by (auto simp: harmless_def char_of_def bit_0)

lemma to_bytes_append: "to_bytes a = Some s \<Longrightarrow> to_bytes b = Some t \<Longrightarrow> to_bytes (a @ b) = Some (s @ t)"
  by (auto simp: to_bytes_def split: if_splits)

lemma to_bytes_quote [simp]: "to_bytes [quote] = Some [CHR 0x22]" "to_bytes [blank] = Some '' ''"
  by (simp_all add: to_bytes_def scalar_value_def utf8_point_def char_of_def bit_0)

text \<open>A line with an escaped quote and a semicolon in quotes: one argument for \<open>Tokenize\<close>.\<close>

definition escaped_line :: "string \<Rightarrow> string \<Rightarrow> string" where
  "escaped_line b d = ''say '' @ [CHR 0x22] @ b @ [CHR 0x5C, CHR 0x22, CHR '';''] @ d @ [CHR 0x22]"

lemma Tokenize_escaped_line:
  assumes h: "harmless b" "harmless d" and u: "from_bytes b = Some bs" "from_bytes d = Some ds"
  shows "Tokenize j (escaped_line b d) = Some [''say'', b @ [CHR 0x22, CHR '';''] @ d]"
proof -
  let ?say = "[115, 97, 121] :: code_point list" and ?arg = "bs @ [quote, 59] @ ds"
  have say: "spells ?say ?say" "to_bytes ?say = Some ''say''" "to_bytes [backslash, quote, 59] = Some [CHR 0x5C, CHR 0x22, CHR '';'']"
    "to_bytes [quote, 59] = Some [CHR 0x22, CHR '';'']"
    by (simp_all add: spells_def word_def to_bytes_def scalar_value_def utf8_point_def char_of_def bit_0)
  have id: "escape cs = cs" if "quote \<notin> set cs" for cs using that by (induction cs) auto
  have app: "escape (cs @ cs') = escape cs @ escape cs'" for cs cs' by (simp add: escape_def)
  have e: "escape ?arg = bs @ [backslash, quote, 59] @ ds"
    using id harmless_points(1) [OF h(1) u(1)] harmless_points(1) [OF h(2) u(2)] by (simp add: app)
  have "last ?arg \<noteq> backslash" using harmless_points(2) [OF h(2) u(2)] by (cases "ds = []") (simp, metis append_is_Nil_conv last_appendR last_in_set)
  then have sp: "list_all2 spells [quote # escape ?arg @ [quote]] [?arg]" by (simp add: spells_def)
  have "to_bytes (?say @ [blank] @ [quote] @ bs @ [backslash, quote, 59] @ ds @ [quote])
      = Some (''say'' @ '' '' @ [CHR 0x22] @ b @ [CHR 0x5C, CHR 0x22, CHR '';''] @ d @ [CHR 0x22])"
    by (intro to_bytes_append say to_bytes_quote to_from_bytes u)
  then have "to_bytes (?say @ spaced [quote # escape ?arg @ [quote]]) = Some (escaped_line b d)" using e by (simp add: escaped_line_def)
  from Tokenize_spelled [OF say(1) sp this, of j] show ?thesis
    using say(2) to_bytes_append [OF to_from_bytes [OF u(1)] to_bytes_append [OF say(4) to_from_bytes [OF u(2)]]]
    by (simp add: argument_bytes_def)
qed

text \<open>For \<open>ExecuteBuffer\<close> it is two commands.\<close>

lemma take_commands_escaped:
  assumes "harmless b" "harmless d"
  shows "take_commands j (escaped_line b d) =
    ([''say '' @ [CHR 0x22] @ b @ [CHR 0x5C, CHR 0x22], d @ [CHR 0x22]],  [])"
proof -
  have say: "harmless ''say ''" by (simp add: harmless_def)
  have 1: "next_command j False (escaped_line b d) = (''say '' @ CHR 0x22 # b @ [CHR 0x5C, CHR 0x22], d @ [CHR 0x22])"
    using next_command_escaped [OF say assms(1), of j "d @ [CHR 0x22]"] by (simp add: escaped_line_def)
  have 2: "next_command j False (d @ [CHR 0x22]) = (d @ [CHR 0x22], [])"
    using assms(2) by (induction d) (auto simp: harmless_def)
  have w: "take 4 (trim_left (''say '' @ x)) \<noteq> ''wait''" for x by (simp add: trim_left_def less_eq_char_def)
  have "take_commands j (d @ [CHR 0x22]) = ([d @ [CHR 0x22]], [])"
    by (subst take_commands.simps) (simp add: 2 take_commands.simps [of j "[]"])
  moreover have "escaped_line b d \<noteq> []" by (simp add: escaped_line_def)
  ultimately show ?thesis using w [of "CHR 0x22 # b @ [CHR 0x5C, CHR 0x22]"]
    by (subst take_commands.simps) (simp add: 1 del: next_command.simps)
qed

end
