(* ===== verification/SecurityLaws.thy ===== *)
theory SecurityLaws
  imports Security
begin

text \<open>
  What a privilege check decides: \<open>acts_as\<close> is the set of principals a principal stands for, \<open>covers\<close> says
  that an object is another one or a parent of it, and \<open>granted\<close> is the decision in terms of both. The
  checks of the code always end and agree with it.
\<close>

subsection \<open>Inheritance\<close>

definition spans :: "(Principal \<times> Principal) list \<Rightarrow> Principal set \<Rightarrow> (Principal \<times> Principal) set" where
  "spans g S = {(a, b). (a, b) \<in> set g \<and> a \<notin> S}"

lemma spans_mono: "S \<subseteq> S' \<Longrightarrow> (spans g S')\<^sup>* \<subseteq> (spans g S)\<^sup>*"
  by (intro rtrancl_mono) (auto simp: spans_def)

text \<open>What the recursion returns: it ends, visits all parents, and adds what is reached from them.\<close>

definition visits :: "(Principal \<times> Principal) list \<Rightarrow> Principal list \<Rightarrow> Principal set \<Rightarrow> Principal set \<Rightarrow> bool" where
  "visits g ps S S' \<longleftrightarrow> S \<subseteq> S' \<and> set ps \<subseteq> S' \<and> (\<forall>q\<in>S' - S. set (multi_get q g) \<subseteq> S')
     \<and> (\<forall>q\<in>S' - S. \<exists>p\<in>set ps. (p, q) \<in> (spans g S)\<^sup>*)"

lemma visits_Nil: "visits g [] S S"
  by (simp add: visits_def)

lemma visits_skip: "p \<in> S \<Longrightarrow> visits g ps S S' \<Longrightarrow> visits g (p # ps) S S'"
  unfolding visits_def by (metis insert_subset list.set(2) list.set_intros(2) subset_iff)

lemma visits_step:
  assumes p: "p \<notin> S" and 1: "visits g (multi_get p g) (insert p S) S1" and 2: "visits g ps S1 S2"
  shows "visits g (p # ps) S S2"
  unfolding visits_def
proof (intro conjI ballI)
  note v1 = 1 [unfolded visits_def] and v2 = 2 [unfolded visits_def]
  show "S \<subseteq> S2" "set (p # ps) \<subseteq> S2" using v1 v2 by auto
  fix q assume q: "q \<in> S2 - S"
  consider "q = p" | "q \<in> S1 - insert p S" | "q \<in> S2 - S1" using q by blast
  then have "set (multi_get q g) \<subseteq> S2 \<and> (\<exists>r\<in>set (p # ps). (r, q) \<in> (spans g S)\<^sup>*)"
  proof cases
    case 1
    then show ?thesis using v1 v2 by auto
  next
    case 2
    then obtain r where r: "r \<in> set (multi_get p g)" "(r, q) \<in> (spans g (insert p S))\<^sup>*" using v1 by blast
    then have "(p, r) \<in> spans g S" using p by (simp add: spans_def)
    moreover have "(r, q) \<in> (spans g S)\<^sup>*" using r(2) spans_mono [of S "insert p S" g] by blast
    ultimately have "(p, q) \<in> (spans g S)\<^sup>*" by (rule converse_rtrancl_into_rtrancl)
    moreover have "set (multi_get q g) \<subseteq> S1" "S1 \<subseteq> S2" using 2 v1 v2 by blast+
    ultimately show ?thesis by auto
  next
    case 3
    then obtain r where "r \<in> set ps" "(r, q) \<in> (spans g S1)\<^sup>*" using v2 by blast
    then show ?thesis using 3 v1 v2 spans_mono [of S S1 g] by (meson insert_subset list.set_intros(2) subset_iff)
  qed
  then show "set (multi_get q g) \<subseteq> S2" "\<exists>r\<in>set (p # ps). (r, q) \<in> (spans g S)\<^sup>*" by blast+
qed

text \<open>Principals that are found are not visited again, so the recursion ends although inheritance may be cyclic.\<close>

lemma AddParents_visits:
  assumes "finite U" "snd ` set g \<subseteq> U" "set ps \<subseteq> U"
  shows "\<exists>S'. AddParents g ps S = Some S' \<and> visits g ps (set S) (set S')"
  using assms(3)
proof (induction "card (U - set S)" arbitrary: ps S rule: less_induct)
  case less
  from less.prems show ?case
  proof (induction ps)
    case Nil
    then show ?case by (subst AddParents.simps) (simp add: visits_Nil)
  next
    case (Cons p ps)
    show ?case
    proof (cases "p \<in> set S")
      case True
      then show ?thesis using Cons visits_skip by (subst AddParents.simps) auto
    next
      case False
      have shrink: "card (U - set S1) < card (U - set S)" if "insert p (set S) \<subseteq> set S1" for S1
        using assms(1) Cons.prems False that by (intro psubset_card_mono) auto
      have "set (multi_get p g) \<subseteq> U" using assms(2) by force
      then obtain S1 where 1: "AddParents g (multi_get p g) (p # S) = Some S1" "visits g (multi_get p g) (insert p (set S)) (set S1)"
        using less.hyps [OF shrink, of "p # S" "multi_get p g"] by auto
      have "insert p (set S) \<subseteq> set S1" using 1(2) by (simp add: visits_def)
      then obtain S2 where 2: "AddParents g ps S1 = Some S2" "visits g ps (set S1) (set S2)"
        using less.hyps [OF shrink, of S1 ps] Cons.prems by auto
      show ?thesis using 1 2 False visits_step [OF False 1(2) 2(2)] by (subst AddParents.simps) auto
    qed
  qed
qed

text \<open>
  Everybody acts as \<open>builtin.everyone\<close>, but what that principal inherits is not followed, except for itself.
\<close>

definition acts_as :: "se_context \<Rightarrow> Principal \<Rightarrow> Principal set" where
  "acts_as ctx p = insert everyone
     ({(a, b). (a, b) \<in> set (m_principalInheritance ctx) \<and> (a = p \<or> a \<noteq> everyone)}\<^sup>* `` {p})"

lemma AddPrincipals_acts_as:
  "\<exists>S. AddPrincipals ctx p [p, everyone] = Some S \<and> set S = acts_as ctx p"
proof -
  let ?g = "m_principalInheritance ctx"
  let ?r = "{(a, b). (a, b) \<in> set ?g \<and> (a = p \<or> a \<noteq> everyone)}"
  let ?ps = "multi_get p ?g"
  obtain S where S: "AddParents ?g ?ps [p, everyone] = Some S" "visits ?g ?ps {p, everyone} (set S)"
    using AddParents_visits [of "snd ` set ?g" ?g ?ps "[p, everyone]"] by force
  note v = S(2) [unfolded visits_def]
  have "set S \<subseteq> acts_as ctx p"
  proof
    fix q assume q: "q \<in> set S"
    show "q \<in> acts_as ctx p"
    proof (cases "q = p \<or> q = everyone")
      case False
      then have "\<exists>a\<in>set ?ps. (a, q) \<in> (spans ?g {p, everyone})\<^sup>*" using v q by blast
      then obtain a where "a \<in> set ?ps" "(a, q) \<in> (spans ?g {p, everyone})\<^sup>*" by blast
      then have a: "(p, a) \<in> set ?g" "(a, q) \<in> (spans ?g {p, everyone})\<^sup>*" by simp_all
      have "(spans ?g {p, everyone})\<^sup>* \<subseteq> ?r\<^sup>*" by (intro rtrancl_mono) (auto simp: spans_def)
      then have "(p, q) \<in> ?r\<^sup>*" using a by (intro converse_rtrancl_into_rtrancl [of p a]) auto
      then show ?thesis by (simp add: acts_as_def)
    qed (auto simp: acts_as_def)
  qed
  have closed: "b \<in> set S" if "a \<in> set S" "a = p \<or> a \<noteq> everyone" "(a, b) \<in> set ?g" for a b
  proof -
    have "set (multi_get a ?g) \<subseteq> set S" using v that(1,2) by (cases "a = p") blast+
    then show ?thesis using that(3) by auto
  qed
  have "q \<in> set S" if "(p, q) \<in> ?r\<^sup>*" for q
    using that by (induction rule: rtrancl_induct) (use v closed in auto)
  then have "acts_as ctx p \<subseteq> set S" using v by (auto simp: acts_as_def)
  moreover note \<open>set S \<subseteq> acts_as ctx p\<close>
  ultimately show ?thesis using S(1) by (auto simp: AddPrincipals_def)
qed

subsection \<open>Objects\<close>

definition covers :: "Object \<Rightarrow> Object \<Rightarrow> bool" where
  "covers parent object \<longleftrightarrow> parent = object \<or> (\<exists>a b. GetObjectIdentifier object = a @ CHR ''.'' # b \<and> parent = Object a)"

lemma cut_last: "CHR ''.'' \<notin> set b \<Longrightarrow> cut_last (a @ CHR ''.'' # b) = a"
  unfolding cut_last_def rev_append rev.simps append_assoc by (subst dropWhile_append2) auto

lemma dot_split:
  assumes "CHR ''.'' \<notin> set b"
  shows "a @ CHR ''.'' # b = a' @ CHR ''.'' # b' \<longleftrightarrow> a' = a \<and> b' = b \<or> (\<exists>c. a = a' @ CHR ''.'' # c \<and> b' = c @ CHR ''.'' # b)"
proof
  assume "a @ CHR ''.'' # b = a' @ CHR ''.'' # b'"
  then obtain us where "a = a' @ us \<and> us @ CHR ''.'' # b = CHR ''.'' # b' \<or> a @ us = a' \<and> CHR ''.'' # b = us @ CHR ''.'' # b'"
    by (auto simp: append_eq_append_conv2)
  then show "a' = a \<and> b' = b \<or> (\<exists>c. a = a' @ CHR ''.'' # c \<and> b' = c @ CHR ''.'' # b)"
    using assms by (cases us) auto
qed auto

lemma parent_objects_iff: "p \<in> set (parent_objects s) \<longleftrightarrow> (\<exists>a b. s = a @ CHR ''.'' # b \<and> p = Object a)"
proof (induction s rule: parent_objects.induct)
  case (1 s)
  show ?case
  proof (cases "CHR ''.'' \<in> set s")
    case True
    then obtain a b where s: "s = a @ CHR ''.'' # b" "CHR ''.'' \<notin> set b" by (metis split_list_last)
    have split: "s = a' @ CHR ''.'' # b' \<longleftrightarrow> a' = a \<and> b' = b \<or> (\<exists>c. a = a' @ CHR ''.'' # c \<and> b' = c @ CHR ''.'' # b)" for a' b'
      unfolding s(1) by (rule dot_split [OF s(2)])
    have "p \<in> set (parent_objects s) \<longleftrightarrow> p = Object a \<or> p \<in> set (parent_objects a)"
      using True s by (subst parent_objects.simps) (simp add: cut_last)
    also have "\<dots> \<longleftrightarrow> p = Object a \<or> (\<exists>a' b'. a = a' @ CHR ''.'' # b' \<and> p = Object a')"
      using "1.IH" [OF True] s by (simp add: cut_last)
    also have "\<dots> \<longleftrightarrow> (\<exists>a b. s = a @ CHR ''.'' # b \<and> p = Object a)" unfolding split by blast
    finally show ?thesis .
  next
    case False
    then have "\<not> (\<exists>a b. s = a @ CHR ''.'' # b \<and> p = Object a)" by auto
    with False show ?thesis by (subst parent_objects.simps) simp
  qed
qed

subsection \<open>The decision\<close>

lemma check_aces_iff:
  "check_aces P es allowed \<longleftrightarrow>
     (allowed \<or> (\<exists>e\<in>set es. acePrincipal e \<in> set P \<and> aceType e = Allow)) \<and>
     \<not> (\<exists>e\<in>set es. acePrincipal e \<in> set P \<and> aceType e = Deny)"
  by (induction P es allowed rule: check_aces.induct) (auto split: AccessType.splits)

definition concerns :: "se_context \<Rightarrow> Principal \<Rightarrow> Object \<Rightarrow> Object \<times> AccessControlEntry \<Rightarrow> bool" where
  "concerns ctx p object = (\<lambda>(k, e). covers k object \<and> acePrincipal e \<in> acts_as ctx p)"

definition granted :: "se_context \<Rightarrow> Principal \<Rightarrow> Object \<Rightarrow> bool" where
  "granted ctx p object \<longleftrightarrow>
     (\<exists>x\<in>set (m_aces ctx). concerns ctx p object x \<and> aceType (snd x) = Allow) \<and>
     \<not> (\<exists>x\<in>set (m_aces ctx). concerns ctx p object x \<and> aceType (snd x) = Deny)"

lemma CheckPrivilege_of_granted: "CheckPrivilege_of ctx p object = Some (granted ctx p object)"
proof -
  obtain S where S: "AddPrincipals ctx p [p, everyone] = Some S" "set S = acts_as ctx p"
    using AddPrincipals_acts_as by blast
  let ?objects = "object # parent_objects (GetObjectIdentifier object)"
  have cov: "k \<in> set ?objects \<longleftrightarrow> covers k object" for k by (auto simp: parent_objects_iff covers_def)
  have entry: "e \<in> set (concat (map (\<lambda>obj. multi_get obj (m_aces ctx)) ?objects)) \<longleftrightarrow> (\<exists>k. covers k object \<and> (k, e) \<in> set (m_aces ctx))" for e
    unfolding cov [symmetric] by (simp only: set_concat set_map UN_iff image_image multi_get_iff) blast
  have ex: "(\<exists>e\<in>set (concat (map (\<lambda>obj. multi_get obj (m_aces ctx)) ?objects)). acePrincipal e \<in> set S \<and> aceType e = t)
      \<longleftrightarrow> (\<exists>x\<in>set (m_aces ctx). concerns ctx p object x \<and> aceType (snd x) = t)" for t
    unfolding Bex_def entry S(2) concerns_def by auto
  show ?thesis by (simp only: CheckPrivilege_of_def S(1) option.case Let_def check_aces_iff granted_def ex) simp
qed

subsection \<open>The stack\<close>

text \<open>The principals on the stack, in the order in which they are asked.\<close>

definition entry_principals :: "(nat \<Rightarrow> Principal list) \<Rightarrow> principal_entry \<Rightarrow> Principal list" where
  "entry_principals sources e = (case e of Principal_ref p \<Rightarrow> [p] | Principal_source s \<Rightarrow> sources s)"

definition stack_principals :: "se_state \<Rightarrow> Principal set" where
  "stack_principals st = (\<Union>e\<in>set (g_principalStack st). set (entry_principals (principalSources st) e))"

text \<open>A callback that stops where it succeeds looks for a success, whatever is skipped.\<close>

lemma EachPrincipal_search:
  "EachPrincipal ps (\<lambda>p a. if P p then (True, True) else (False, a)) a \<longleftrightarrow> a \<or> (\<exists>p\<in>set ps. P p)"
  by (induction ps arbitrary: a) auto

lemma LoopPrincipalStack_search:
  "LoopPrincipalStack src es (\<lambda>p a. if P p then (True, True) else (False, a)) a
    \<longleftrightarrow> a \<or> (\<exists>e\<in>set es. \<exists>p\<in>set (entry_principals src e). P p)"
proof (induction es arbitrary: a)
  case (Cons e es)
  then show ?case
    by (cases e) (auto simp: EachPrincipal_search entry_principals_def)
qed simp

lemma check_next_eq: "check_next ctx object p (Some a) = (if granted ctx p object then (True, Some True) else (False, Some a))"
  by (simp add: check_next_def CheckPrivilege_of_granted split: bool.splits)

lemma EachPrincipal_check:
  "EachPrincipal ps (check_next ctx object) (Some a) = Some (a \<or> (\<exists>p\<in>set ps. granted ctx p object))"
  by (induction ps arbitrary: a) (auto simp: check_next_eq)

lemma LoopPrincipalStack_check:
  "LoopPrincipalStack src es (check_next ctx object) (Some a) =
     Some (a \<or> (\<exists>e\<in>set es. \<exists>p\<in>set (entry_principals src e). granted ctx p object))"
proof (induction es arbitrary: a)
  case (Cons e es)
  then show ?case
    by (cases e) (auto simp: check_next_eq EachPrincipal_check entry_principals_def)
qed simp

definition allowed :: "se_context \<Rightarrow> se_state \<Rightarrow> Object \<Rightarrow> bool" where
  "allowed ctx st object \<longleftrightarrow>
     (if g_principalStack st = [] then granted ctx everyone object else \<exists>p\<in>stack_principals st. granted ctx p object)"

lemma CheckPrivilege_allowed: "CheckPrivilege ctx object st = Some (allowed ctx st object)"
  by (simp add: CheckPrivilege_def allowed_def stack_principals_def CheckPrivilege_of_granted LoopPrincipalStack_check)

lemma seGetCurrentContext_keeps:
  assumes "seGetCurrentContext st = (c, st')"
  shows "g_principalStack st' = g_principalStack st" "g_principalStackStack st' = g_principalStackStack st"
    "principalSources st' = principalSources st" "seGetCurrentContext st' = (c, st')"
    "\<And>f. seGetCurrentContext (st'\<lparr>se_contexts := f\<rparr>) = (c, st'\<lparr>se_contexts := f\<rparr>)"
  using assms by (auto simp: seGetCurrentContext_def seCreateContext_def Let_def split: option.splits)

definition current_context :: "se_state \<Rightarrow> se_context" where
  "current_context st = (case seGetCurrentContext st of (c, st') \<Rightarrow> se_contexts st' c)"

definition may :: "se_state \<Rightarrow> string \<Rightarrow> bool" where
  "may st object \<longleftrightarrow> allowed (current_context st) st (Object object)"

lemma seCheckPrivilege_may: "seCheckPrivilege object st = (Some (may st object), snd (seGetCurrentContext st))"
proof -
  obtain c st' where c: "seGetCurrentContext st = (c, st')" by force
  note k = seGetCurrentContext_keeps [OF c]
  have "allowed ctx st' obj = allowed ctx st obj" for ctx obj
    by (simp add: allowed_def stack_principals_def k)
  then show ?thesis by (simp add: seCheckPrivilege_def c CheckPrivilege_allowed may_def current_context_def)
qed

text \<open>Asking changes no later answer.\<close>

lemma current_context_again [simp]: "current_context (snd (seGetCurrentContext st)) = current_context st"
proof -
  obtain c st' where c: "seGetCurrentContext st = (c, st')" by force
  then show ?thesis using seGetCurrentContext_keeps(4) [OF c] by (simp add: current_context_def)
qed

lemma may_again [simp]: "may (snd (seGetCurrentContext st)) = may st"
proof -
  obtain c st' where c: "seGetCurrentContext st = (c, st')" by force
  note k = seGetCurrentContext_keeps [OF c]
  show ?thesis using current_context_again [of st] by (auto simp: may_def allowed_def stack_principals_def c k fun_eq_iff)
qed

lemma on_current_context [simp]:
  "current_context (on_current f st) = f (current_context st)"
  "g_principalStack (on_current f st) = g_principalStack st" "principalSources (on_current f st) = principalSources st"
proof -
  obtain c st' where c: "seGetCurrentContext st = (c, st')" by force
  note k = seGetCurrentContext_keeps [OF c]
  show "current_context (on_current f st) = f (current_context st)"
    using k(5) [of "(se_contexts st')(c := f (se_contexts st' c))"] by (simp add: on_current_def current_context_def c)
  show "g_principalStack (on_current f st) = g_principalStack st" "principalSources (on_current f st) = principalSources st"
    by (simp_all add: on_current_def c k)
qed

lemma stack_principals_on_current [simp]: "stack_principals (on_current f st) = stack_principals st"
  by (simp add: stack_principals_def)

lemma may_on_current: "may (on_current f st) obj \<longleftrightarrow> allowed (f (current_context st)) st (Object obj)"
  by (simp add: may_def allowed_def)

lemma reset_scope:
  "may (PushPrincipalReset st) obj \<longleftrightarrow> granted (current_context st) everyone (Object obj)"
  "PopPrincipalReset (PushPrincipalReset st) = Some st"
  "PopPrincipal (PushPrincipal p st) = Some st" "PopPrincipal (PushPrincipal_source s st) = Some st"
  by (simp_all add: may_def allowed_def PushPrincipalReset_def PopPrincipalReset_def PushPrincipal_def PushPrincipal_source_def
      PopPrincipal_def current_context_def seGetCurrentContext_def seCreateContext_def Let_def split: option.splits prod.splits)

subsection \<open>Changing the entries\<close>

lemma acts_as_aces [simp]: "acts_as (ctx\<lparr>m_aces := aces\<rparr>) p = acts_as ctx p"
  by (simp add: acts_as_def)

lemma concerns_aces [simp]: "concerns (ctx\<lparr>m_aces := aces\<rparr>) p object = concerns ctx p object"
  by (simp add: concerns_def)

lemma granted_aces:
  "granted (ctx\<lparr>m_aces := aces\<rparr>) p object \<longleftrightarrow>
     (\<exists>x\<in>set aces. concerns ctx p object x \<and> aceType (snd x) = Allow) \<and>
     \<not> (\<exists>x\<in>set aces. concerns ctx p object x \<and> aceType (snd x) = Deny)"
  by (simp add: granted_def)

lemma granted_add:
  "granted (AddAccessControlEntry q obj type ctx) p object \<longleftrightarrow>
     (if covers obj object \<and> q \<in> acts_as ctx p then
        (case type of
           Allow \<Rightarrow> \<not> (\<exists>x\<in>set (m_aces ctx). concerns ctx p object x \<and> aceType (snd x) = Deny)
         | Unset \<Rightarrow> granted ctx p object
         | Deny \<Rightarrow> False)
      else granted ctx p object)"
  unfolding AddAccessControlEntry_def granted_aces
  by (auto simp: granted_def concerns_def split: AccessType.splits)

lemma filter_multi_put_same: "\<not> P (k, v) \<Longrightarrow> filter P (multi_put k v xs) = filter P xs"
  unfolding multi_put_def by (metis filter.simps(2) filter_append takeWhile_dropWhile_id)

lemma remove_add_ace:
  "RemoveAccessControlEntry q obj type (AddAccessControlEntry q obj type ctx) = RemoveAccessControlEntry q obj type ctx"
  by (simp add: RemoveAccessControlEntry_def AddAccessControlEntry_def filter_multi_put_same)

lemma remove_absent_ace:
  assumes "(obj, \<lparr>aceObject = obj, acePrincipal = q, aceType = type\<rparr>) \<notin> set (m_aces ctx)"
    and "\<forall>(k, e)\<in>set (m_aces ctx). aceObject e = k"
  shows "RemoveAccessControlEntry q obj type ctx = ctx"
proof -
  have "filter (\<lambda>(k, e). \<not> (k = obj \<and> acePrincipal e = q \<and> aceType e = type)) (m_aces ctx) = m_aces ctx"
  proof (rule filter_True, rule ballI, rule ccontr)
    fix x assume x: "x \<in> set (m_aces ctx)" "\<not> (case x of (k, e) \<Rightarrow> \<not> (k = obj \<and> acePrincipal e = q \<and> aceType e = type))"
    obtain k e where [simp]: "x = (k, e)" by force
    have "e = \<lparr>aceObject = obj, acePrincipal = q, aceType = type\<rparr>" using x assms(2) by (cases e) auto
    then show False using x assms(1) by auto
  qed
  then show ?thesis by (simp add: RemoveAccessControlEntry_def)
qed

subsection \<open>The commands\<close>

lemma is_self_iff: "is_self s st \<longleftrightarrow> (\<exists>p\<in>stack_principals st. s = GetIdentifier p)"
  unfolding is_self_def stack_principals_def
  by (simp add: LoopPrincipalStack_search)

lemma acts_as_self [simp]: "p \<in> acts_as ctx p" "everyone \<in> acts_as ctx p"
  by (simp_all add: acts_as_def)

lemma covers_refl [simp]: "covers obj obj"
  by (simp add: covers_def)

text \<open>The same principal with a capital letter is not recognised, and the entry is made.\<close>

lemma add_ace_capital:
  assumes p: "p \<in> stack_principals st" "map ToLower s = GetIdentifier p" and s: "\<forall>q\<in>stack_principals st. s \<noteq> GetIdentifier q"
    and free: "\<not> (\<exists>x\<in>set (m_aces (current_context st)). concerns (current_context st) p (Object obj) x \<and> aceType (snd x) = Deny)"
  shows "\<exists>st'. add_ace s obj ''allow'' st = (Ace_done, st') \<and> may st' obj"
proof -
  have self: "\<not> is_self s st" using s by (auto simp: is_self_iff)
  have q: "Principal s = p" using p(2) by (simp add: Principal_def)
  have "granted (AddAccessControlEntry p (Object obj) Allow (current_context st)) p (Object obj)"
    using free by (simp add: granted_add)
  moreover have "g_principalStack st \<noteq> []" using p(1) by (auto simp: stack_principals_def)
  ultimately have "may (on_current (AddAccessControlEntry p (Object obj) Allow) st) obj"
    using p(1) by (auto simp: may_on_current allowed_def)
  then show ?thesis using self q by (simp add: add_ace_def parse_access_def)
qed

end
