(* ===== verification/ConsoleLaws.thy ===== *)
theory ConsoleLaws
  imports ConsoleRun ConsoleTextLaws SecurityLaws
begin

text \<open>
  The invariant of the console: entries refer to variables that exist, variables to contexts that exist and
  to their own commands, and values keep their types. Every operation keeps it and returns, so no line that
  is executed, whatever its text, is undefined.
\<close>

subsection \<open>What most operations leave alone\<close>

definition view_context :: "console_context \<Rightarrow>
    ctx_ref option \<times> (string \<times> cmd_entry) list \<times> nat \<times> (string \<times> string \<times> var_ref) list" where
  "view_context cx = (m_fallbackContext cx, cmdEntries cx, cmdCurToken cx,
     map (\<lambda>(k, e). (k, veName e, veVariable e)) (varEntries cx))"

definition view_var :: "cvar \<Rightarrow> ctx_ref \<times> string \<times> nat \<times> nat" where
  "view_var v = (cvManager v, cvName v, m_getCommand v, m_setCommand v)"

definition value_ok :: "cvar \<Rightarrow> bool" where
  "value_ok v \<longleftrightarrow> (\<forall>x\<in>{m_offlineValue v, m_defaultValue v} \<union> set_option (m_trackingVar v). type_of x = type_of (m_curValue v))"

definition typed :: "con_state \<Rightarrow> bool" where
  "typed st \<longleftrightarrow> (\<forall>r v. cvars st r = Some v \<longrightarrow> value_ok v)"

definition calm :: "con_state \<Rightarrow> con_state \<Rightarrow> bool" where
  "calm st st' \<longleftrightarrow>
     (\<forall>c. map_option view_context (con_contexts st' c) = map_option view_context (con_contexts st c)) \<and>
     (\<forall>r. map_option view_var (cvars st' r) = map_option view_var (cvars st r)) \<and>
     nextContext st' = nextContext st \<and> nextVar st' = nextVar st \<and> cvHolders st' = cvHolders st \<and>
     (typed st \<longrightarrow> typed st' \<and> (\<forall>r v v'. cvars st r = Some v \<longrightarrow> cvars st' r = Some v' \<longrightarrow> type_of (m_curValue v') = type_of (m_curValue v)))"

lemma calm_refl [simp, intro]: "calm st st"
  by (simp add: calm_def)

lemma calm_live: "calm st st' \<Longrightarrow> (cvars st' r = None) = (cvars st r = None)" "calm st st' \<Longrightarrow> (con_contexts st' c = None) = (con_contexts st c = None)"
  unfolding calm_def by (metis map_option_is_None)+

lemma calm_trans:
  assumes 1: "calm st st1" and 2: "calm st1 st2"
  shows "calm st st2"
  unfolding calm_def
proof (intro conjI allI impI)
  assume t: "typed st"
  then have t1: "typed st1" using 1 by (simp add: calm_def)
  then show "typed st2" using 2 by (simp add: calm_def)
  fix r v v'
  assume v: "cvars st r = Some v" "cvars st2 r = Some v'"
  then obtain v1 where "cvars st1 r = Some v1" using calm_live(1) [OF 1, of r] by auto
  then show "type_of (m_curValue v') = type_of (m_curValue v)" using 1 2 t t1 v unfolding calm_def by metis
qed (use 1 2 in \<open>simp_all add: calm_def\<close>)

lemma calm_log [simp]: "calm st (log_event e st)"
  by (simp add: calm_def log_event_def typed_def)

lemma calm_security [simp]: "calm st (st\<lparr>security := s\<rparr>)"
  by (simp add: calm_def typed_def)

lemma calm_con_check: "con_check obj st = (b, st') \<Longrightarrow> calm st st'"
  by (auto simp: con_check_def split: prod.splits)

lemma calm_context:
  "(\<And>cx. view_context (f cx) = view_context cx) \<Longrightarrow> calm st (upd_context c f st)"
  by (simp add: calm_def upd_context_def typed_def option.map_comp comp_def)

lemma calm_var:
  assumes "\<And>v. view_var (f v) = view_var v"
    and "\<And>v. cvars st r = Some v \<Longrightarrow> value_ok v \<Longrightarrow> value_ok (f v) \<and> type_of (m_curValue (f v)) = type_of (m_curValue v)"
  shows "calm st (upd_var r f st)"
  using assms by (auto simp: calm_def upd_var_def typed_def option.map_comp comp_def)

subsection \<open>Operations on values\<close>

lemma calm_flags: "calm st (set_entry_flags c nm f st)"
  unfolding set_entry_flags_def by (rule calm_context) (auto simp: view_context_def)

lemma calm_AddEntryFlags: "calm st (AddEntryFlags c nm flags st)"
proof -
  have "calm (set_entry_flags c nm (\<lambda>f. f OR flags) st) (SetVariableModifiedFlags c g (set_entry_flags c nm (\<lambda>f. f OR flags) st))" for g
    unfolding SetVariableModifiedFlags_def by (rule calm_context) (simp add: view_context_def)
  from calm_trans [OF calm_flags this] show ?thesis by (simp add: AddEntryFlags_def Let_def)
qed

lemma calm_MarkModified: "calm st (MarkConsoleVarModified c nm st)"
  unfolding MarkConsoleVarModified_def by (rule calm_trans [OF calm_AddEntryFlags calm_log])

lemma calm_store_value:
  assumes "cvars st r = Some v" "type_of newValue = type_of (m_curValue v)"
  shows "calm st (store_value r v newValue st)"
proof -
  let ?f = "\<lambda>v. v\<lparr>m_curValue := newValue, m_trackingVar := map_option (\<lambda>_. newValue) (m_trackingVar v)\<rparr>"
  have 1: "calm st (upd_var r ?f st)"
    by (rule calm_var) (use assms in \<open>auto simp: view_var_def value_ok_def\<close>)
  let ?st = "if m_onChangeCallback v then log_event (Change_callback r) (upd_var r ?f st) else upd_var r ?f st"
  have 2: "calm st ?st" using calm_trans [OF 1 calm_log] 1 by simp
  show ?thesis using calm_trans [OF 2 calm_MarkModified] 2 by (simp add: store_value_def Let_def)
qed

lemma SetRawValue_calm:
  assumes v: "cvars st r = Some v" and t: "type_of newValue = type_of (m_curValue v)"
  shows "\<exists>b st'. SetRawValue env r newValue st = Some (b, st') \<and> calm st st'"
proof -
  obtain b st1 where b: "(if \<not> is_fxserver env \<and> flagged (GetEntryFlags (cvManager v) (cvName v) st) ConVar_Replicated
      then con_check ''builtin.setReplicated'' st else (True, st)) = (b, st1)" by force
  have 1: "calm st st1" "cvars st1 = cvars st"
    using b calm_con_check by (auto simp: con_check_def split: if_splits prod.splits)
  have "calm st (store_value r v newValue st1)" "calm st (log_event e st1)" for e
    using calm_trans [OF 1(1) calm_store_value [OF _ t]] calm_trans [OF 1(1) calm_log] 1(2) v by simp_all
  then show ?thesis using v by (auto simp: SetRawValue_def b split: bool.splits)
qed

lemma calm_if [simp]: "calm st a \<Longrightarrow> calm st b \<Longrightarrow> calm st (if P then a else b)"
  by simp

lemma SetValue_calm:
  assumes v: "cvars st r = Some v"
  shows "\<exists>b st'. SetValue env r val st = Some (b, st') \<and> calm st st'"
  using v SetRawValue_calm [OF v] ParseArgument_type by (auto simp: SetValue_def Let_def split: option.splits)

lemma put_command_calm:
  assumes v: "cvars st r = Some v" and t: "type_of newValue = type_of (m_curValue v)"
  shows "\<exists>st'. put_command env r newValue st = Some st' \<and> calm st st'"
  using v SetRawValue_calm [OF v t, of env] by (auto simp: put_command_def Let_def)

lemma refresh_ok: "value_ok v \<Longrightarrow> value_ok (refresh v) \<and> type_of (m_curValue (refresh v)) = type_of (m_curValue v)"
  by (cases "m_trackingVar v") (simp_all add: refresh_def value_ok_def)

lemma view_refresh: "view_var (refresh v) = view_var v"
  by (simp add: refresh_def view_var_def split: option.splits)

lemma GetValue_calm:
  assumes v: "cvars st r = Some v"
  shows "\<exists>s st'. GetValue r st = Some (s, st') \<and> calm st st'"
proof -
  have "calm st (upd_var r refresh st)"
    by (rule calm_var) (simp_all add: view_refresh refresh_ok)
  then show ?thesis using v by (simp add: GetValue_def)
qed

lemma get_command_calm:
  assumes v: "cvars st r = Some v"
  shows "\<exists>st'. get_command r st = Some st' \<and> calm st st'"
proof -
  obtain s st' where "GetValue r st = Some (s, st')" "calm st st'" using GetValue_calm [OF v] by blast
  then show ?thesis using v calm_trans [OF _ calm_log] by (simp add: get_command_def)
qed

lemma UpdateTrackingVariable_calm:
  assumes v: "cvars st r = Some v" and "typed st"
  shows "\<exists>st'. UpdateTrackingVariable env r st = Some st' \<and> calm st st'"
proof (cases "m_trackingVar v")
  case (Some t)
  then have "type_of t = type_of (m_curValue v)" using assms by (auto simp: typed_def value_ok_def)
  then show ?thesis using SetRawValue_calm [OF v, of t env] Some v by (auto simp: UpdateTrackingVariable_def)
qed (use v in \<open>auto simp: UpdateTrackingVariable_def\<close>)

subsection \<open>The invariant\<close>

definition fn_ok :: "con_state \<Rightarrow> ctx_ref \<Rightarrow> cmd_entry \<Rightarrow> bool" where
  "fn_ok st c e \<longleftrightarrow>
     (case cmdFunction e of
        Fn_get r \<Rightarrow> (\<exists>v. cvars st r = Some v \<and> cvManager v = c \<and> m_getCommand v = cmdToken e)
      | Fn_put r \<Rightarrow> (\<exists>v. cvars st r = Some v \<and> cvManager v = c \<and> m_setCommand v = cmdToken e)
      | Fn_set c' flags \<Rightarrow> con_contexts st c' \<noteq> None
      | _ \<Rightarrow> True)"

definition context_ok :: "con_state \<Rightarrow> ctx_ref \<Rightarrow> console_context \<Rightarrow> bool" where
  "context_ok st c cx \<longleftrightarrow> c < nextContext st
     \<and> (\<forall>f. m_fallbackContext cx = Some f \<longrightarrow> f < c \<and> con_contexts st f \<noteq> None)
     \<and> distinct (map (cmdToken \<circ> snd) (cmdEntries cx))
     \<and> (\<forall>x\<in>set (cmdEntries cx). cmdToken (snd x) < cmdCurToken cx \<and> fn_ok st c (snd x))
     \<and> map_ok (varEntries cx)
     \<and> (\<forall>x\<in>set (varEntries cx). fst x = ci (veName (snd x)) \<and> (\<exists>v. cvars st (veVariable (snd x)) = Some v \<and> cvManager v = c))"

text \<open>The variables of \<open>R\<close> are exempt from having an owner, in the middle of an operation.\<close>

definition con_inv :: "var_ref set \<Rightarrow> con_state \<Rightarrow> bool" where
  "con_inv R st \<longleftrightarrow>
     (\<forall>c cx. con_contexts st c = Some cx \<longrightarrow> context_ok st c cx) \<and>
     (\<forall>r v. cvars st r = Some v \<longrightarrow> r < nextVar st \<and> con_contexts st (cvManager v) \<noteq> None \<and> (r \<in> R \<or> var_owned st r)) \<and>
     (\<forall>r. cvHolders st r > 0 \<longrightarrow> cvars st r \<noteq> None)"

lemma con_invD:
  assumes "con_inv R st"
  shows "con_contexts st c = Some cx \<Longrightarrow> context_ok st c cx"
    "cvars st r = Some v \<Longrightarrow> r < nextVar st" "cvars st r = Some v \<Longrightarrow> con_contexts st (cvManager v) \<noteq> None"
    "cvars st r = Some v \<Longrightarrow> r \<in> R \<or> var_owned st r" "cvHolders st r > 0 \<Longrightarrow> cvars st r \<noteq> None"
  using assms unfolding con_inv_def by blast+

lemma con_inv_mono: "con_inv R st \<Longrightarrow> R \<subseteq> R' \<Longrightarrow> con_inv R' st"
  unfolding con_inv_def by blast

lemma calm_var_of:
  assumes "calm st st'" "cvars st r = Some v"
  shows "\<exists>v'. cvars st' r = Some v' \<and> view_var v' = view_var v"
proof -
  have "map_option view_var (cvars st' r) = map_option view_var (cvars st r)" using assms(1) by (simp add: calm_def)
  then show ?thesis using assms(2) by (cases "cvars st' r") auto
qed

lemma calm_context_of:
  assumes "calm st st'" "con_contexts st c = Some cx"
  shows "\<exists>cx'. con_contexts st' c = Some cx' \<and> view_context cx' = view_context cx"
proof -
  have "map_option view_context (con_contexts st' c) = map_option view_context (con_contexts st c)" using assms(1) by (simp add: calm_def)
  then show ?thesis using assms(2) by (cases "con_contexts st' c") auto
qed

lemma calm_sym_var: "calm st st' \<Longrightarrow> cvars st' r = Some v' \<Longrightarrow> \<exists>v. cvars st r = Some v \<and> view_var v' = view_var v"
  using calm_live(1) [of st st' r] calm_var_of [of st st' r] by (cases "cvars st r") fastforce+

lemma calm_sym_context: "calm st st' \<Longrightarrow> con_contexts st' c = Some cx' \<Longrightarrow> \<exists>cx. con_contexts st c = Some cx \<and> view_context cx' = view_context cx"
  using calm_live(2) [of st st' c] calm_context_of [of st st' c] by (cases "con_contexts st c") fastforce+

lemma view_entries:
  assumes "view_context cx' = view_context cx"
  shows "map fst (varEntries cx') = map fst (varEntries cx)"
    "(veVariable \<circ> snd) ` set (varEntries cx') = (veVariable \<circ> snd) ` set (varEntries cx)"
    "(\<forall>x\<in>set (varEntries cx'). P (fst x) (veName (snd x)) (veVariable (snd x))) \<longleftrightarrow> (\<forall>x\<in>set (varEntries cx). P (fst x) (veName (snd x)) (veVariable (snd x)))"
proof -
  have m: "map (\<lambda>(k, e). (k, veName e, veVariable e)) (varEntries cx') = map (\<lambda>(k, e). (k, veName e, veVariable e)) (varEntries cx)"
    using assms by (simp add: view_context_def)
  from arg_cong [OF m, of "map fst"] show "map fst (varEntries cx') = map fst (varEntries cx)" by (simp add: comp_def case_prod_beta)
  from arg_cong [OF m, of "\<lambda>xs. (snd \<circ> snd) ` set xs"] show "(veVariable \<circ> snd) ` set (varEntries cx') = (veVariable \<circ> snd) ` set (varEntries cx)"
    by (simp add: image_image comp_def case_prod_beta)
  from arg_cong [OF m, of "\<lambda>xs. \<forall>(k, n, v)\<in>set xs. P k n v"]
  show "(\<forall>x\<in>set (varEntries cx'). P (fst x) (veName (snd x)) (veVariable (snd x))) \<longleftrightarrow> (\<forall>x\<in>set (varEntries cx). P (fst x) (veName (snd x)) (veVariable (snd x)))"
    by (simp add: case_prod_beta)
qed

lemma calm_fn_ok: "calm st st' \<Longrightarrow> fn_ok st c e \<Longrightarrow> fn_ok st' c e"
  using calm_var_of [of st st'] calm_live(2) [of st st']
  by (fastforce simp: fn_ok_def view_var_def split: cmd_function.splits)

lemma calm_inv:
  assumes inv: "con_inv R st" and calm: "calm st st'"
  shows "con_inv R st'"
  unfolding con_inv_def
proof (intro conjI allI impI)
  note eq = calm [unfolded calm_def]
  show "context_ok st' c cx'" if cx': "con_contexts st' c = Some cx'" for c cx'
  proof -
    obtain cx where cx: "con_contexts st c = Some cx" and view: "view_context cx' = view_context cx" using calm_sym_context [OF calm cx'] by blast
    have ok: "context_ok st c cx" by (rule con_invD(1) [OF inv cx])
    have "\<forall>x\<in>set (varEntries cx). fst x = ci (veName (snd x)) \<and> (\<exists>v. cvars st' (veVariable (snd x)) = Some v \<and> cvManager v = c)"
      using ok calm_var_of [OF calm] unfolding context_ok_def view_var_def by fastforce
    then have "\<forall>x\<in>set (varEntries cx'). fst x = ci (veName (snd x)) \<and> (\<exists>v. cvars st' (veVariable (snd x)) = Some v \<and> cvManager v = c)"
      using view_entries(3) [OF view, of "\<lambda>k n r. k = ci n \<and> (\<exists>v. cvars st' r = Some v \<and> cvManager v = c)"] by simp
    then show ?thesis
      using ok view eq calm_fn_ok [OF calm] calm_live(2) [OF calm] view_entries(1) [OF view]
      unfolding context_ok_def map_ok_def by (simp add: view_context_def)
  qed
  fix r
  show "cvars st' r \<noteq> None" if "cvHolders st' r > 0" using that eq con_invD(5) [OF inv] calm_live(1) [OF calm, of r] by auto
  fix v' assume v': "cvars st' r = Some v'"
  then obtain v where v: "cvars st r = Some v" and view: "view_var v' = view_var v" using calm_sym_var [OF calm] by blast
  show "r < nextVar st'" using con_invD(2) [OF inv v] eq by simp
  show "con_contexts st' (cvManager v') \<noteq> None" using con_invD(3) [OF inv v] calm_live(2) [OF calm] view by (simp add: view_var_def)
  have "var_owned st' r = var_owned st r"
  proof -
    obtain cx where cx: "con_contexts st (cvManager v) = Some cx" using con_invD(3) [OF inv v] by blast
    obtain cx' where cx': "con_contexts st' (cvManager v) = Some cx'" "view_context cx' = view_context cx"
      using calm_context_of [OF calm cx] by blast
    show ?thesis using eq v v' view cx cx'(1) view_entries(2) [OF cx'(2)] by (simp add: var_owned_def view_var_def)
  qed
  then show "r \<in> R \<or> var_owned st' r" using con_invD(4) [OF inv v] by simp
qed

end
