(* ===== verification/ConsoleSteps.thy ===== *)
theory ConsoleSteps
  imports ConsoleLaws
begin

text \<open>
  The operations that register and drop commands and variables, the handlers, and the execution of commands:
  each keeps the invariant of the console, and those that run what a user typed always return.
\<close>

subsection \<open>Registration\<close>

lemma context_ok_cong:
  assumes "nextContext st' = nextContext st" "\<And>c. (con_contexts st' c = None) = (con_contexts st c = None)" "cvars st' = cvars st"
  shows "context_ok st' = context_ok st"
  using assms by (auto simp: context_ok_def fn_ok_def fun_eq_iff split: cmd_function.splits)

definition var_refs :: "console_context \<Rightarrow> var_ref set" where
  "var_refs cx = (veVariable \<circ> snd) ` set (varEntries cx)"

lemma var_owned_eq:
  "cvars st r = Some v \<Longrightarrow> var_owned st r \<longleftrightarrow>
     cvHolders st r > 0 \<or> (\<exists>cx. con_contexts st (cvManager v) = Some cx \<and> r \<in> var_refs cx)"
  by (auto simp: var_owned_def var_refs_def split: option.splits)

text \<open>The change of one context.\<close>

lemma con_inv_context:
  assumes inv: "con_inv R st" and cx: "con_contexts st c = Some cx" and ok: "context_ok st c (f cx)"
    and refs: "\<And>r. r \<in> var_refs cx \<Longrightarrow> r \<in> var_refs (f cx) \<or> r \<in> R'" and R: "\<And>r. r \<in> R \<Longrightarrow> r \<in> R' \<or> r \<in> var_refs (f cx)"
    and other: "\<And>r. r \<in> var_refs (f cx) \<Longrightarrow> \<exists>v. cvars st r = Some v \<and> cvManager v = c"
  shows "con_inv R' (upd_context c f st)"
proof -
  let ?st = "upd_context c f st"
  have live: "(con_contexts ?st d = None) = (con_contexts st d = None)" for d by (simp add: upd_context_def)
  have same: "cvars ?st = cvars st" "cvHolders ?st = cvHolders st" "nextVar ?st = nextVar st" "nextContext ?st = nextContext st"
    by (simp_all add: upd_context_def)
  have okc: "context_ok ?st = context_ok st" by (rule context_ok_cong [OF same(4) live same(1)])
  show ?thesis
    unfolding con_inv_def okc same
  proof (intro conjI allI impI)
    show "context_ok st d dx" if "con_contexts ?st d = Some dx" for d dx
      using that ok cx con_invD(1) [OF inv, of d dx] by (auto simp: upd_context_def split: if_splits)
    fix r v assume v: "cvars st r = Some v"
    show "r < nextVar st" by (rule con_invD(2) [OF inv v])
    show "con_contexts ?st (cvManager v) \<noteq> None" using con_invD(3) [OF inv v] live by simp
    have v': "cvars ?st r = Some v" using v same by simp
    have own: "r \<in> R \<or> cvHolders st r > 0 \<or> (\<exists>cx. con_contexts st (cvManager v) = Some cx \<and> r \<in> var_refs cx)"
      using con_invD(4) [OF inv v] var_owned_eq [OF v] by blast
    show "r \<in> R' \<or> var_owned ?st r"
    proof (cases "r \<in> var_refs (f cx)")
      case True
      then obtain w where "cvars st r = Some w" "cvManager w = c" using other by blast
      then have "cvManager v = c" using v by simp
      then show ?thesis using True cx var_owned_eq [OF v'] by (simp add: upd_context_def)
    next
      case False
      then have "r \<in> R' \<or> cvHolders st r > 0 \<or> (\<exists>cx. cvManager v \<noteq> c \<and> con_contexts st (cvManager v) = Some cx \<and> r \<in> var_refs cx)"
        using own R refs cx by fastforce
      then show ?thesis unfolding var_owned_eq [OF v'] same by (auto simp: upd_context_def)
    qed
  qed (use con_invD(5) [OF inv] in auto)
qed

lemma distinct_multi_put: "distinct (map f (multi_put k v xs)) \<longleftrightarrow> f (k, v) \<notin> f ` set xs \<and> distinct (map f xs)"
proof -
  let ?P = "\<lambda>(l, _). l \<le> k"
  have "xs = takeWhile ?P xs @ dropWhile ?P xs" by simp
  then obtain ys zs where "xs = ys @ zs" "multi_put k v xs = ys @ (k, v) # zs" unfolding multi_put_def by blast
  then show ?thesis by auto
qed

lemma con_inv_refs:
  assumes "con_inv R st" "con_contexts st c = Some cx" "r \<in> var_refs cx"
  shows "\<exists>v. cvars st r = Some v \<and> cvManager v = c"
  using con_invD(1) [OF assms(1,2)] assms(3) by (auto simp: context_ok_def var_refs_def)

definition plain_fn :: "con_state \<Rightarrow> cmd_function \<Rightarrow> bool" where
  "plain_fn st func \<longleftrightarrow> (case func of Fn_get _ \<Rightarrow> False | Fn_put _ \<Rightarrow> False | Fn_set c _ \<Rightarrow> con_contexts st c \<noteq> None | _ \<Rightarrow> True)"

lemma cmd_Register_inv:
  assumes inv: "con_inv R st" and cx: "con_contexts st c = Some cx" and f: "plain_fn st func"
  shows "\<exists>st'. cmd_Register c nm res func n st = Some (cmdCurToken cx, st') \<and> con_inv R st' \<and> cvars st' = cvars st
    \<and> nextContext st' = nextContext st \<and> (\<forall>d. (con_contexts st' d = None) = (con_contexts st d = None))"
proof -
  let ?e = "\<lparr>cmdName = nm, cmdFunction = func, cmdResource = res, cmdToken = cmdCurToken cx, cmdArity = n\<rparr>"
  let ?f = "\<lambda>cx'. cx'\<lparr>cmdCurToken := cmdCurToken cx + 1, cmdEntries := multi_put (ci nm) ?e (cmdEntries cx')\<rparr>"
  note ok = con_invD(1) [OF inv cx, unfolded context_ok_def]
  have e: "fn_ok st c ?e" using f by (simp add: fn_ok_def plain_fn_def split: cmd_function.splits)
  have fresh: "cmdCurToken cx \<notin> (cmdToken \<circ> snd) ` set (cmdEntries cx)" using ok by fastforce
  have "context_ok st c (?f cx)"
    unfolding context_ok_def using ok e fresh by (auto simp: distinct_multi_put intro: less_SucI)
  moreover have "var_refs (?f cx) = var_refs cx" by (simp add: var_refs_def)
  ultimately have "con_inv R (upd_context c ?f st)"
    using con_inv_context [OF inv cx, of ?f R] con_inv_refs [OF inv cx] by auto
  moreover have "upd_context c (\<lambda>cx. cx\<lparr>cmdCurToken := cmdCurToken cx + 1, cmdEntries := multi_put (ci nm) ?e (cmdEntries cx)\<rparr>) st = upd_context c ?f st"
    using cx by (simp add: upd_context_def)
  ultimately show ?thesis using cx by (simp add: cmd_Register_def Let_def upd_context_def)
qed

lemma set_erase_first:
  "distinct (map f xs) \<Longrightarrow> set (erase_first (\<lambda>x. f x = t) xs) = {x \<in> set xs. f x \<noteq> t}"
proof (induction xs)
  case (Cons a xs)
  have "f x \<noteq> f a" if "x \<in> set xs" for x using Cons.prems that by (metis distinct.simps(2) image_eqI list.map(2) set_map)
  then show ?case using Cons by auto
qed simp

lemma set_erase_token:
  assumes "distinct (map (cmdToken \<circ> snd) xs)"
  shows "set (erase_first (\<lambda>(_, e). cmdToken e = t) xs) = {x \<in> set xs. cmdToken (snd x) \<noteq> t}"
  using set_erase_first [OF assms, of t] by (simp add: comp_def case_prod_unfold)

lemma erase_first_sub: "set (erase_first P xs) \<subseteq> set xs" "distinct (map f xs) \<Longrightarrow> distinct (map f (erase_first P xs))"
  "sorted_wrt Q (map f xs) \<Longrightarrow> sorted_wrt Q (map f (erase_first P xs))"
proof -
  show sub: "set (erase_first P xs) \<subseteq> set xs" for xs :: "'a list" by (induction xs) auto
  show "distinct (map f xs) \<Longrightarrow> distinct (map f (erase_first P xs))" using sub by (induction xs) fastforce+
  show "sorted_wrt Q (map f xs) \<Longrightarrow> sorted_wrt Q (map f (erase_first P xs))" using sub by (induction xs) fastforce+
qed

text \<open>Unregistering a command.\<close>

lemma cmd_Unregister_inv:
  assumes inv: "con_inv R st"
  shows "con_inv R (cmd_Unregister c token st)"
proof (cases "con_contexts st c")
  case None
  then have "cmd_Unregister c token st = st" by (simp add: cmd_Unregister_def upd_context_def fun_upd_idem)
  then show ?thesis using inv by simp
next
  case (Some cx)
  let ?f = "\<lambda>cx. cx\<lparr>cmdEntries := erase_first (\<lambda>(_, e). cmdToken e = token) (cmdEntries cx)\<rparr>"
  have "context_ok st c (?f cx)"
    using con_invD(1) [OF inv Some] erase_first_sub(1) [of "\<lambda>(_, e). cmdToken e = token" "cmdEntries cx"]
    unfolding context_ok_def by (auto simp: erase_first_sub(2))
  moreover have "var_refs (?f cx) = var_refs cx" by (simp add: var_refs_def)
  ultimately show ?thesis
    unfolding cmd_Unregister_def using con_inv_context [OF inv Some, of ?f R] con_inv_refs [OF inv Some] by auto
qed

text \<open>A variable without an owner takes its commands with it.\<close>

lemma drop_variable_inv:
  assumes inv: "con_inv (insert r R) st"
  shows "con_inv (R - {r}) (drop_variable r st)"
proof (cases "cvars st r = None \<or> var_owned st r")
  case True
  then have "drop_variable r st = st" by (auto simp: drop_variable_def split: option.splits)
  moreover have "con_inv (R - {r}) st"
    using inv True unfolding con_inv_def by (metis Diff_iff insert_iff option.distinct(1) singletonD)
  ultimately show ?thesis by simp
next
  case False
  then obtain v where v: "cvars st r = Some v" and no: "\<not> var_owned st r" by auto
  obtain cx where cx: "con_contexts st (cvManager v) = Some cx" using con_invD(3) [OF inv v] by blast
  let ?c = "cvManager v" and ?st0 = "st\<lparr>cvars := (cvars st)(r := None)\<rparr>"
  let ?E = "\<lambda>t. erase_first (\<lambda>(_, e). cmdToken e = t)"
  let ?cx = "cx\<lparr>cmdEntries := ?E (m_getCommand v) (?E (m_setCommand v) (cmdEntries cx))\<rparr>"
  have drop: "drop_variable r st = ?st0\<lparr>con_contexts := (con_contexts st)(?c \<mapsto> ?cx)\<rparr>"
    using v no cx by (simp add: drop_variable_def cmd_Unregister_def upd_context_def)
  have unref: "r \<notin> var_refs cx" "cvHolders st r = 0" using no cx by (auto simp: var_owned_eq [OF v])
  have foreign: "r \<notin> var_refs dx" if "con_contexts st d = Some dx" for d dx
    using con_inv_refs [OF inv that, of r] that unref(1) cx v by (cases "d = ?c") auto
  note ok = con_invD(1) [OF inv cx, unfolded context_ok_def]
  have d1: "distinct (map (cmdToken \<circ> snd) (?E (m_setCommand v) (cmdEntries cx)))" using ok erase_first_sub(2) by blast
  have ents: "set (cmdEntries ?cx) = {x \<in> set (cmdEntries cx). cmdToken (snd x) \<notin> {m_getCommand v, m_setCommand v}}"
    using ok by (auto simp: set_erase_token [OF d1] set_erase_token)
  have fn: "fn_ok (drop_variable r st) c e" if "fn_ok st c e" "c = ?c \<longrightarrow> cmdToken e \<notin> {m_getCommand v, m_setCommand v}" for c e
    using that v unfolding drop fn_ok_def by (auto split: cmd_function.splits)
  show ?thesis
    unfolding con_inv_def
  proof (intro conjI allI impI)
    fix c dx assume dx: "con_contexts (drop_variable r st) c = Some dx"
    show "context_ok (drop_variable r st) c dx"
    proof (cases "c = ?c")
      case True
      then have [simp]: "dx = ?cx" using dx by (simp add: drop)
      have "\<forall>x\<in>set (cmdEntries ?cx). cmdToken (snd x) < cmdCurToken ?cx \<and> fn_ok (drop_variable r st) c (snd x)"
        using ok ents fn True by fastforce
      moreover have "\<forall>x\<in>set (varEntries cx). fst x = ci (veName (snd x)) \<and> (\<exists>w. cvars (drop_variable r st) (veVariable (snd x)) = Some w \<and> cvManager w = c)"
        using ok unref(1) True by (auto simp: drop var_refs_def)
      moreover have "distinct (map (cmdToken \<circ> snd) (cmdEntries ?cx))" using erase_first_sub(2) [OF d1] by simp
      ultimately show ?thesis using ok True unfolding context_ok_def by (simp add: drop)
    next
      case False
      then have dx': "con_contexts st c = Some dx" using dx by (simp add: drop)
      have "\<forall>x\<in>set (varEntries dx). fst x = ci (veName (snd x)) \<and> (\<exists>w. cvars (drop_variable r st) (veVariable (snd x)) = Some w \<and> cvManager w = c)"
        using con_invD(1) [OF inv dx'] foreign [OF dx'] by (auto simp: drop context_ok_def var_refs_def)
      moreover have "\<forall>x\<in>set (cmdEntries dx). cmdToken (snd x) < cmdCurToken dx \<and> fn_ok (drop_variable r st) c (snd x)"
        using con_invD(1) [OF inv dx'] fn False by (auto simp: context_ok_def)
      ultimately show ?thesis using con_invD(1) [OF inv dx'] unfolding context_ok_def by (simp add: drop)
    qed
  next
    fix s w assume w: "cvars (drop_variable r st) s = Some w"
    then have s: "s \<noteq> r" "cvars st s = Some w" by (auto simp: drop split: if_splits)
    show "s < nextVar (drop_variable r st)" using con_invD(2) [OF inv s(2)] by (simp add: drop)
    show "con_contexts (drop_variable r st) (cvManager w) \<noteq> None" using con_invD(3) [OF inv s(2)] by (simp add: drop)
    have "var_refs ?cx = var_refs cx" by (simp add: var_refs_def)
    then have "var_owned (drop_variable r st) s = var_owned st s"
      unfolding var_owned_eq [OF w] var_owned_eq [OF s(2)] using cx by (auto simp: drop)
    then show "s \<in> R - {r} \<or> var_owned (drop_variable r st) s" using con_invD(4) [OF inv s(2)] s(1) by blast
  next
    fix s assume "cvHolders (drop_variable r st) s > 0"
    then show "cvars (drop_variable r st) s \<noteq> None" using con_invD(5) [OF inv, of s] unref(2) by (auto simp: drop)
  qed
qed

lemma map_ok_map_put: "map_ok xs \<Longrightarrow> map_ok (map_put k v xs)"
  by (rule map_ok_put)

lemma set_map_put_sub: "set (map_put k v xs) \<subseteq> insert (k, v) (set xs)"
  by (induction k v xs rule: map_put.induct) auto

lemma map_put_other: "map_ok xs \<Longrightarrow> (l, w) \<in> set xs \<Longrightarrow> l \<noteq> k \<Longrightarrow> (l, w) \<in> set (map_put k v xs)"
  by (induction k v xs rule: map_put.induct) auto

lemma map_put_in: "(k, v) \<in> set (map_put k v xs)"
  by (induction k v xs rule: map_put.induct) auto

text \<open>A new variable, which its creator is about to own.\<close>

lemma new_variable_inv:
  assumes inv: "con_inv R st" and cx: "con_contexts st c \<noteq> None" and ty: "typed st"
  shows "\<exists>r st'. new_variable c nm d st = Some (r, st') \<and> con_inv (insert r R) st' \<and> typed st' \<and> cvars st r = None
    \<and> (\<exists>v. cvars st' r = Some v \<and> cvManager v = c \<and> cvName v = nm \<and> m_curValue v = d \<and> m_trackingVar v = None) \<and> cvHolders st' = cvHolders st
    \<and> (\<forall>s. s \<noteq> r \<longrightarrow> cvars st' s = cvars st s) \<and> (\<forall>e. (con_contexts st' e = None) = (con_contexts st e = None))
    \<and> (\<forall>nm. FindEntryRaw c nm st' = FindEntryRaw c nm st)"
proof -
  obtain cx where cx: "con_contexts st c = Some cx" using assms(2) by blast
  let ?r = "nextVar st" and ?t = "cmdCurToken cx"
  let ?e1 = "\<lparr>cmdName = nm, cmdFunction = Fn_get ?r, cmdResource = ''internal'', cmdToken = ?t, cmdArity = 0\<rparr>"
  let ?e2 = "\<lparr>cmdName = nm, cmdFunction = Fn_put ?r, cmdResource = ''internal'', cmdToken = ?t + 1, cmdArity = 1\<rparr>"
  let ?cx = "cx\<lparr>cmdCurToken := ?t + 2, cmdEntries := multi_put (ci nm) ?e2 (multi_put (ci nm) ?e1 (cmdEntries cx))\<rparr>"
  let ?v = "\<lparr>cvManager = c, cvName = nm, m_curValue = d, m_offlineValue = d, m_constraints = None, m_defaultValue = d,
     m_trackingVar = None, m_onChangeCallback = False, m_getCommand = ?t, m_setCommand = ?t + 1\<rparr>"
  let ?st = "st\<lparr>con_contexts := (con_contexts st)(c \<mapsto> ?cx), nextVar := ?r + 1, cvars := (cvars st)(?r \<mapsto> ?v)\<rparr>"
  have eq: "new_variable c nm d st = Some (?r, ?st)"
    using cx by (simp add: new_variable_def cmd_Register_def Let_def upd_context_def)
  have dead: "cvars st ?r = None" using con_invD(2) [OF inv, of ?r] by (cases "cvars st ?r") auto
  note ok = con_invD(1) [OF inv cx, unfolded context_ok_def]
  have fresh: "?t \<notin> (cmdToken \<circ> snd) ` set (cmdEntries cx)" "?t + 1 \<notin> (cmdToken \<circ> snd) ` set (cmdEntries cx)" using ok by fastforce+
  have fn: "fn_ok ?st e x" if "fn_ok st e x" for e x
    using that dead unfolding fn_ok_def by (auto split: cmd_function.splits)
  have refs: "\<exists>w. cvars ?st s = Some w \<and> cvManager w = e" if "\<exists>w. cvars st s = Some w \<and> cvManager w = e" for s e
    using that dead by auto
  have new: "fn_ok ?st c ?e1" "fn_ok ?st c ?e2" by (simp_all add: fn_ok_def)
  have inv': "con_inv (insert ?r R) ?st"
    unfolding con_inv_def
  proof (intro conjI allI impI)
    fix e ex assume ex: "con_contexts ?st e = Some ex"
    show "context_ok ?st e ex"
    proof (cases "e = c")
      case True
      then have [simp]: "ex = ?cx" using ex by simp
      have "\<forall>x\<in>set (cmdEntries ?cx). cmdToken (snd x) < cmdCurToken ?cx \<and> fn_ok ?st c (snd x)"
        using ok fn new by (fastforce simp: less_SucI)
      moreover have "distinct (map (cmdToken \<circ> snd) (cmdEntries ?cx))" using ok fresh by (simp add: distinct_multi_put)
      moreover have "\<forall>x\<in>set (varEntries ?cx). fst x = ci (veName (snd x)) \<and> (\<exists>w. cvars ?st (veVariable (snd x)) = Some w \<and> cvManager w = c)"
        using ok refs by simp
      ultimately show ?thesis using ok True unfolding context_ok_def by auto
    next
      case False
      then have old: "con_contexts st e = Some ex" using ex by simp
      show ?thesis using con_invD(1) [OF inv old] fn refs unfolding context_ok_def by auto
    qed
  next
    fix s w assume w: "cvars ?st s = Some w"
    show "s < nextVar ?st" using con_invD(2) [OF inv, of s w] w by (cases "s = ?r") auto
    show "con_contexts ?st (cvManager w) \<noteq> None" using con_invD(3) [OF inv, of s w] w by (cases "s = ?r") auto
    show "s \<in> insert ?r R \<or> var_owned ?st s"
    proof (cases "s = ?r")
      case False
      then have w': "cvars st s = Some w" using w by simp
      have "var_refs ?cx = var_refs cx" by (simp add: var_refs_def)
      then have "var_owned ?st s = var_owned st s" unfolding var_owned_eq [OF w] var_owned_eq [OF w'] using cx by simp
      then show ?thesis using con_invD(4) [OF inv w'] by blast
    qed simp
  next
    fix s assume "cvHolders ?st s > 0"
    then show "cvars ?st s \<noteq> None" using con_invD(5) [OF inv, of s] by auto
  qed
  have "typed ?st" using ty by (auto simp: typed_def value_ok_def)
  moreover have "FindEntryRaw c n ?st = FindEntryRaw c n st" for n by (simp add: FindEntryRaw_def find_var_def cx)
  ultimately show ?thesis using eq inv' dead cx by auto
qed

text \<open>Contexts stay.\<close>

definition same_contexts :: "con_state \<Rightarrow> con_state \<Rightarrow> bool" where
  "same_contexts st st' \<longleftrightarrow> (\<forall>c. (con_contexts st' c = None) = (con_contexts st c = None)) \<and> cvHolders st' = cvHolders st"

lemma same_contexts_refl [simp]: "same_contexts st st"
  by (simp add: same_contexts_def)

lemma same_contexts_trans: "same_contexts st st1 \<Longrightarrow> same_contexts st1 st2 \<Longrightarrow> same_contexts st st2"
  by (simp add: same_contexts_def)

lemma calm_same_contexts: "calm st st' \<Longrightarrow> same_contexts st st'"
  using calm_live(2) by (auto simp: same_contexts_def calm_def)

lemma FindEntryRaw_live:
  assumes inv: "con_inv R st" and "FindEntryRaw c nm st = Some r"
  shows "\<exists>v. cvars st r = Some v \<and> cvManager v = c"
proof -
  obtain cx e where cx: "con_contexts st c = Some cx" "map_of (varEntries cx) (ci nm) = Some e" "veVariable e = r"
    using assms(2) by (auto simp: FindEntryRaw_def find_var_def bind_eq_Some_conv)
  then have "r \<in> var_refs cx" using map_of_SomeD [OF cx(2)] by (force simp: var_refs_def)
  then show ?thesis using con_inv_refs [OF inv cx(1)] by blast
qed

lemma CreateVariableEntry_inv:
  assumes inv: "con_inv R st" and cx: "con_contexts st c \<noteq> None" and ty: "typed st"
  shows "\<exists>r st'. CreateVariableEntry env c nm d st = Some (r, st') \<and> con_inv (insert r R) st' \<and> typed st'
    \<and> (\<exists>v. cvars st' r = Some v \<and> cvManager v = c) \<and> same_contexts st st'"
proof (cases "FindEntryRaw c nm st")
  case None
  then show ?thesis using new_variable_inv [OF inv cx ty, of nm d] by (auto simp: CreateVariableEntry_def same_contexts_def)
next
  case (Some old)
  then obtain v where v: "cvars st old = Some v" "cvManager v = c" using FindEntryRaw_live [OF inv] by blast
  show ?thesis
  proof (cases "type_of (m_curValue v) = type_of d")
    case True
    then show ?thesis using Some v ty con_inv_mono [OF inv, of "insert old R"] by (auto simp: CreateVariableEntry_def)
  next
    case False
    obtain s st1 where 1: "GetValue old st = Some (s, st1)" "calm st st1" using GetValue_calm [OF v(1)] by blast
    have t1: "typed st1" using 1(2) ty by (simp add: calm_def)
    obtain r st2 where 2: "new_variable c nm d st1 = Some (r, st2)" "con_inv (insert r R) st2" "typed st2"
        "\<exists>v. cvars st2 r = Some v \<and> cvManager v = c" "same_contexts st1 st2"
      using new_variable_inv [OF calm_inv [OF inv 1(2)] _ t1, of c nm d] calm_live(2) [OF 1(2)] cx by (auto simp: same_contexts_def)
    obtain v2 where v2: "cvars st2 r = Some v2" "cvManager v2 = c" using 2(4) by blast
    obtain b st3 where 3: "SetValue env r s st2 = Some (b, st3)" "calm st2 st3" using SetValue_calm [OF v2(1)] by blast
    have "\<exists>v. cvars st3 r = Some v \<and> cvManager v = c" using calm_var_of [OF 3(2) v2(1)] v2(2) by (auto simp: view_var_def)
    moreover have "typed st3" using 3(2) 2(3) by (simp add: calm_def)
    moreover have "same_contexts st st3"
      using same_contexts_trans [OF same_contexts_trans [OF calm_same_contexts [OF 1(2)] 2(5)] calm_same_contexts [OF 3(2)]] .
    ultimately show ?thesis
      using Some v False 1(1) 2(1) 3(1) calm_inv [OF 2(2) 3(2)] by (simp add: CreateVariableEntry_def)
  qed
qed

lemma drop_variable_frame:
  "same_contexts st (drop_variable r st)" "s \<noteq> r \<Longrightarrow> cvars (drop_variable r st) s = cvars st s"
  "typed st \<Longrightarrow> typed (drop_variable r st)" "var_owned st r \<Longrightarrow> drop_variable r st = st"
  by (auto simp: drop_variable_def same_contexts_def cmd_Unregister_def upd_context_def typed_def split: option.splits if_splits)

lemma var_Register_inv:
  assumes inv: "con_inv R st" and v: "cvars st r = Some v" "cvManager v = c" and ty: "typed st"
  shows "\<exists>token st'. var_Register c nm flags r st = Some (token, st') \<and> con_inv (R - {r}) st' \<and> typed st'
    \<and> cvars st' r = Some v \<and> same_contexts st st'"
proof -
  obtain cx where cx: "con_contexts st c = Some cx" using con_invD(3) [OF inv v(1)] v(2) by blast
  let ?e = "\<lparr>veName = nm, veDefaultFlags = flags, veFlags = flags, veVariable = r, veToken = varCurToken cx\<rparr>"
  let ?f = "\<lambda>cx'. cx'\<lparr>varCurToken := varCurToken cx + 1, varEntries := map_put (ci nm) ?e (varEntries cx')\<rparr>"
  let ?st = "upd_context c ?f st"
  note ok = con_invD(1) [OF inv cx, unfolded context_ok_def]
  have sub: "set (varEntries (?f cx)) \<subseteq> insert (ci nm, ?e) (set (varEntries cx))" using set_map_put_sub by simp
  have okf: "context_ok st c (?f cx)"
    unfolding context_ok_def using ok sub v by (auto simp: map_ok_put)
  have r_in: "r \<in> var_refs (?f cx)" using map_put_in [of "ci nm" ?e "varEntries cx"] by (force simp: var_refs_def)
  have other: "\<exists>w. cvars st s = Some w \<and> cvManager w = c" if "s \<in> var_refs (?f cx)" for s
  proof -
    obtain k e where "(k, e) \<in> set (varEntries (?f cx))" "s = veVariable e" using \<open>s \<in> var_refs (?f cx)\<close> by (auto simp: var_refs_def)
    then have "s = r \<or> s \<in> var_refs cx" using sub by (force simp: var_refs_def)
    then show ?thesis using v con_inv_refs [OF inv cx, of s] by auto
  qed
  have kept: "s \<in> var_refs (?f cx) \<or> FindEntryRaw c nm st = Some s" if s: "s \<in> var_refs cx" for s
  proof -
    obtain k e where e: "(k, e) \<in> set (varEntries cx)" "s = veVariable e" using s by (auto simp: var_refs_def)
    show ?thesis
    proof (cases "k = ci nm")
      case True
      then have "map_of (varEntries cx) (ci nm) = Some e" using e(1) ok map_ok_distinct by (metis map_of_is_SomeI)
      then show ?thesis using cx e(2) by (simp add: FindEntryRaw_def find_var_def)
    next
      case False
      then have "(k, e) \<in> set (varEntries (?f cx))" using map_put_other [of "varEntries cx" k e] ok e(1) by simp
      then show ?thesis using e(2) by (force simp: var_refs_def)
    qed
  qed
  have same: "same_contexts st ?st" "cvars ?st = cvars st" "typed ?st" using ty by (simp_all add: same_contexts_def upd_context_def typed_def)
  show ?thesis
  proof (cases "FindEntryRaw c nm st")
    case None
    have "con_inv (R - {r}) ?st"
      by (rule con_inv_context [where f = ?f, OF inv cx okf]) (use kept None r_in other in auto)
    then show ?thesis using cx None same v by (simp add: var_Register_def Let_def)
  next
    case (Some old)
    have i: "con_inv (insert old (R - {r})) ?st"
      by (rule con_inv_context [where f = ?f, OF inv cx okf]) (use kept Some r_in other in auto)
    have eq: "var_Register c nm flags r st = Some (varCurToken cx, drop_variable old ?st)" using cx Some by (simp add: var_Register_def Let_def)
    have "con_inv (R - {r}) (drop_variable old ?st)" by (rule con_inv_mono [OF drop_variable_inv [OF i]]) auto
    moreover have "cvars (drop_variable old ?st) r = Some v"
    proof (cases "old = r")
      case True
      have "var_owned ?st r" using var_owned_eq [of ?st r v] v r_in cx same(2) by (simp add: upd_context_def)
      then show ?thesis using True drop_variable_frame(4) [of ?st r] same(2) v by simp
    qed (use drop_variable_frame(2) [of r old ?st] same(2) v in simp)
    ultimately show ?thesis
      using eq drop_variable_frame(3) [OF same(3)] same_contexts_trans [OF same(1) drop_variable_frame(1)] by blast
  qed
qed

lemma holders_inv:
  assumes inv: "con_inv R st" and live: "cvars st r \<noteq> None \<or> n = 0" and R: "r \<in> R' \<or> n > 0" "R - {r} \<subseteq> R'"
  shows "con_inv R' (st\<lparr>cvHolders := (cvHolders st)(r := n)\<rparr>)"
proof -
  let ?st = "st\<lparr>cvHolders := (cvHolders st)(r := n)\<rparr>"
  have okc: "context_ok ?st = context_ok st" by (rule context_ok_cong) simp_all
  have "s \<in> R' \<or> var_owned ?st s" if "cvars st s = Some v" for s v
    using con_invD(4) [OF inv that] var_owned_eq [of ?st s v] var_owned_eq [OF that] that R by (cases "s = r") auto
  then show ?thesis
    unfolding con_inv_def okc using con_invD [OF inv] live by (auto split: if_splits)
qed

lemma typed_upd_context [simp]: "typed (upd_context c f st) = typed st"
  by (simp add: typed_def upd_context_def)

lemma find_erased: "find P xs = Some x \<Longrightarrow> set xs \<subseteq> insert x (set (erase_first P xs))"
  by (induction xs) (auto split: if_splits)

lemma erase_var_inv:
  assumes inv: "con_inv {} st"
  shows "con_inv {} (erase_var c P st)" "typed st \<Longrightarrow> typed (erase_var c P st)" "same_contexts st (erase_var c P st)"
proof -
  show "typed st \<Longrightarrow> typed (erase_var c P st)"
    using drop_variable_frame(3) typed_upd_context by (simp add: erase_var_def split: option.splits)
  show "same_contexts st (erase_var c P st)"
    using same_contexts_trans [OF _ drop_variable_frame(1)] by (auto simp: erase_var_def same_contexts_def upd_context_def split: option.splits)
  show "con_inv {} (erase_var c P st)"
  proof (cases "con_contexts st c")
    case (Some cx)
    show ?thesis
    proof (cases "find P (varEntries cx)")
      case found: (Some x)
      let ?f = "\<lambda>cx. cx\<lparr>varEntries := erase_first P (varEntries cx)\<rparr>"
      let ?r = "veVariable (snd x)"
      have rest: "insert x (set (erase_first P (varEntries cx))) \<supseteq> set (varEntries cx)"
        by (rule find_erased [OF found])
      note ok = con_invD(1) [OF inv Some, unfolded context_ok_def]
      have "context_ok st c (?f cx)"
        unfolding context_ok_def using ok erase_first_sub(1) [of P "varEntries cx"] erase_first_sub(3) [of "(<)" fst "varEntries cx" P]
        by (auto simp: map_ok_def)
      moreover have "var_refs cx \<subseteq> insert ?r (var_refs (?f cx))" "var_refs (?f cx) \<subseteq> var_refs cx"
        using rest erase_first_sub(1) [of P "varEntries cx"] by (force simp: var_refs_def)+
      ultimately have "con_inv {?r} (upd_context c ?f st)"
        using con_inv_refs [OF inv Some] by (intro con_inv_context [where f = ?f, OF inv Some]) blast+
      from drop_variable_inv [OF this] show ?thesis using Some found by (auto simp: erase_var_def split: prod.splits)
    qed (use inv Some in \<open>simp add: erase_var_def\<close>)
  qed (use inv in \<open>simp add: erase_var_def\<close>)
qed

end
