(* ===== verification/ConsoleSafety.thy ===== *)
theory ConsoleSafety
  imports ConsoleSteps
begin

text \<open>
  Handlers and execution. Whatever text is executed in a context that exists, and whatever commands it names,
  the result is defined and the invariant holds again.
\<close>

definition con_ok :: "con_state \<Rightarrow> bool" where
  "con_ok st \<longleftrightarrow> con_inv {} st \<and> typed st"

text \<open>An operation that returns a state in which the invariant holds and the same contexts exist.\<close>

definition returns_ok :: "con_state \<Rightarrow> con_state option \<Rightarrow> bool" where
  "returns_ok st res \<longleftrightarrow> (\<exists>st'. res = Some st' \<and> con_ok st' \<and> same_contexts st st')"

lemma returns_calm: "con_ok st \<Longrightarrow> calm st st' \<Longrightarrow> returns_ok st (Some st')"
  using calm_inv calm_same_contexts by (auto simp: returns_ok_def con_ok_def calm_def)

lemma calm_ok: "con_ok st \<Longrightarrow> calm st st' \<Longrightarrow> con_ok st'"
  using calm_inv by (auto simp: con_ok_def calm_def)

lemma returns_after:
  assumes "same_contexts st st1" "returns_ok st1 res"
  shows "returns_ok st res"
  using assms same_contexts_trans by (auto simp: returns_ok_def)

lemma con_ok_live: "con_ok st \<Longrightarrow> FindEntryRaw c nm st = Some r \<Longrightarrow> \<exists>v. cvars st r = Some v"
  using FindEntryRaw_live [of "{}"] by (fastforce simp: con_ok_def)

lemma SetValue_ok:
  assumes "con_ok st" "cvars st r = Some v"
  shows "\<exists>b st'. SetValue env r val st = Some (b, st') \<and> calm st st' \<and> con_ok st'"
  using SetValue_calm [OF assms(2)] calm_ok [OF assms(1)] by blast

subsection \<open>The handlers\<close>

lemma setCommand_ok:
  assumes ok: "con_ok st" and cx: "con_contexts st c \<noteq> None"
  shows "returns_ok st (setCommand env c flags nm val st)"
proof (cases "FindEntryRaw c nm st")
  case (Some r)
  then obtain v where v: "cvars st r = Some v" using con_ok_live [OF ok] by blast
  obtain b st1 where 1: "SetValue env r val st = Some (b, st1)" "calm st st1" using SetValue_ok [OF ok v] by blast
  have "calm st (if b then set_entry_flags c nm (\<lambda>f. f OR flags) st1 else st1)"
    using 1(2) calm_trans [OF 1(2) calm_flags] by simp
  then show ?thesis using returns_calm [OF ok] Some 1(1) by (simp add: setCommand_def)
next
  case None
  obtain r st1 v where 1: "CreateVariableEntry env c nm (CString []) st = Some (r, st1)" "con_inv {r} st1" "typed st1"
      "cvars st1 r = Some v" "cvManager v = c" "same_contexts st st1"
    using CreateVariableEntry_inv [of "{}" st c env nm "CString []"] ok cx unfolding con_ok_def by blast
  obtain t st2 where 2: "var_Register c nm (ConVar_Modified OR flags) r st1 = Some (t, st2)" "con_inv ({r} - {r}) st2" "typed st2"
      "cvars st2 r = Some v" "same_contexts st1 st2"
    using var_Register_inv [OF 1(2,4,5,3)] by blast
  have "con_ok st2" using 2(2,3) by (simp add: con_ok_def)
  then obtain b st3 where 3: "SetValue env r val st2 = Some (b, st3)" "calm st2 st3" "con_ok st3" using SetValue_ok [OF _ 2(4)] by blast
  have "same_contexts st st3"
    using same_contexts_trans [OF same_contexts_trans [OF 1(6) 2(5)] calm_same_contexts [OF 3(2)]] .
  then show ?thesis using None 1(1) 2(1) 3(1,3) by (simp add: setCommand_def returns_ok_def)
qed

lemma toggleCommand_ok:
  assumes ok: "con_ok st"
  shows "returns_ok st (toggleCommand env c nm v1 v2 st)"
proof (cases "FindEntryRaw c nm st")
  case (Some r)
  then obtain v where v: "cvars st r = Some v" using con_ok_live [OF ok] by blast
  obtain s st1 where 1: "GetValue r st = Some (s, st1)" "calm st st1" using GetValue_calm [OF v] by blast
  obtain w where w: "cvars st1 r = Some w" using calm_var_of [OF 1(2) v] by blast
  let ?s = "if s = ''true'' then ''1'' else if s = ''false'' then ''0'' else s"
  let ?x = "if ?s = v1 then v2 else v1"
  obtain b st2 where 2: "SetValue env r ?x st1 = Some (b, st2)" "calm st1 st2"
    using SetValue_calm [OF w, of env ?x] by blast
  have "toggleCommand env c nm v1 v2 st = Some st2"
    unfolding toggleCommand_def Some option.case 1(1) prod.case Let_def 2(1) by simp
  then show ?thesis using returns_calm [OF ok calm_trans [OF 1(2) 2(2)]] by simp
qed (use returns_calm [OF ok calm_refl] in \<open>simp add: toggleCommand_def\<close>)

lemma vstrCommand_ok:
  assumes ok: "con_ok st"
  shows "returns_ok st (vstrCommand c nm st)"
proof (cases "FindEntryRaw c nm st")
  case (Some r)
  then obtain v where v: "cvars st r = Some v" using con_ok_live [OF ok] by blast
  obtain s st1 where 1: "GetValue r st = Some (s, st1)" "calm st st1" using GetValue_calm [OF v] by blast
  have "calm st1 (AddToBuffer c x st1)" for x unfolding AddToBuffer_def by (rule calm_context) (simp add: view_context_def)
  then show ?thesis using Some 1(1) returns_calm [OF ok calm_trans [OF 1(2)]] by (simp add: vstrCommand_def)
qed (use returns_calm [OF ok calm_refl] in \<open>simp add: vstrCommand_def\<close>)

lemma show_command_ok:
  assumes ok: "con_ok st"
  shows "returns_ok st (show_command c nm st)"
proof -
  obtain b st1 where b: "con_check (command_object nm) st = (b, st1)" by force
  note c1 = calm_con_check [OF b] and ok1 = calm_ok [OF ok calm_con_check [OF b]]
  let ?found = "case FindEntryRaw c nm st1 of None \<Rightarrow> Option.bind (fallback_of c st1) (\<lambda>f. FindEntryRaw f nm st1) | Some r \<Rightarrow> Some r"
  show ?thesis
  proof (cases ?found)
    case None
    then show ?thesis using returns_calm [OF ok c1] returns_calm [OF ok calm_trans [OF c1 calm_log]]
      by (auto simp: show_command_def b split: bool.splits)
  next
    case (Some r)
    then obtain v where v: "cvars st1 r = Some v" using con_ok_live [OF ok1] by (auto split: option.splits simp: bind_eq_Some_conv)
    obtain s st2 where 2: "GetValue r st1 = Some (s, st2)" "calm st1 st2" using GetValue_calm [OF v] by blast
    have "calm st (log_event e st2)" for e by (rule calm_trans [OF calm_trans [OF c1 2(2)] calm_log])
    then show ?thesis using Some 2(1) returns_calm [OF ok c1] returns_calm [OF ok]
      by (auto simp: show_command_def b split: bool.splits)
  qed
qed

lemma handle_all_ok:
  assumes "con_ok st" "\<And>x st'. con_ok st' \<Longrightarrow> same_contexts st st' \<Longrightarrow> returns_ok st' (h x st')"
  shows "returns_ok st (handle_all h xs st)"
  using assms
proof (induction xs arbitrary: st)
  case Nil
  then show ?case using returns_calm by auto
next
  case (Cons x xs)
  obtain st1 where 1: "h x st = Some st1" "con_ok st1" "same_contexts st st1" using Cons.prems(2) [OF Cons.prems(1)] by (auto simp: returns_ok_def)
  have "returns_ok st1 (handle_all h xs st1)"
    by (rule Cons.IH [OF 1(2)]) (use Cons.prems(2) same_contexts_trans [OF 1(3)] in blast)
  from returns_after [OF 1(3) this] show ?case using 1(1) by simp
qed

lemma cmdlist_ok: "con_ok st \<Longrightarrow> returns_ok st (cmdlist c st)"
  unfolding cmdlist_def by (rule handle_all_ok) (auto intro: show_command_ok)

lemma calm_ace_command: "calm st (ace_command f st)" "calm st (on_security g st)"
  by (auto simp: ace_command_def on_security_def split: prod.splits intro: calm_trans [OF calm_security calm_log])

lemma calm_wait: "calm st (waitCommand env c msec st)"
  unfolding waitCommand_def by (rule calm_context) (simp add: view_context_def)

subsection \<open>Calls\<close>

definition fn_live :: "con_state \<Rightarrow> cmd_function \<Rightarrow> bool" where
  "fn_live st func \<longleftrightarrow>
     (case func of Fn_get r \<Rightarrow> cvars st r \<noteq> None | Fn_put r \<Rightarrow> cvars st r \<noteq> None | Fn_set c _ \<Rightarrow> con_contexts st c \<noteq> None | _ \<Rightarrow> True)"

lemma calm_fn_live: "calm st st' \<Longrightarrow> fn_live st f \<Longrightarrow> fn_live st' f"
  using calm_live [of st st'] by (auto simp: fn_live_def split: cmd_function.splits)

lemma Call_one: "Call [t] args = Inr values \<Longrightarrow> \<exists>v. values = [v] \<and> type_of v = t"
  using ParseArgument_type by (cases args) (auto simp: Call_def split: if_splits option.splits)

lemma call_function_ok:
  assumes ok: "con_ok st" and live: "fn_live st func"
  shows "\<exists>res. call_function env ectx args func st = Some res \<and> (\<forall>st'. res = Inr st' \<longrightarrow> con_ok st' \<and> same_contexts st st')"
proof -
  have run: "\<exists>res. call_function env ectx args func st = Some res \<and> (\<forall>st'. res = Inr st' \<longrightarrow> con_ok st' \<and> same_contexts st st')"
    if p: "command_params st func = Some params" and no: "\<not> (\<exists>n. func = Fn_script n)"
      and r: "\<And>values. Call params args = Inr values \<Longrightarrow> returns_ok st (run_function env func values st)" for params
  proof -
    have "call_function env ectx args func st =
        (case Call params args of Inl err \<Rightarrow> Some (Inl err) | Inr values \<Rightarrow> map_option Inr (run_function env func values st))"
      using p no by (auto simp: call_function_def split: cmd_function.split)
    then show ?thesis using r by (cases "Call params args") (fastforce simp: returns_ok_def)+
  qed
  note calm_ret = returns_calm [OF ok]
  show ?thesis
  proof (cases func)
    case (Fn_set c flags)
    then show ?thesis using live setCommand_ok [OF ok] by (intro run) (auto simp: fn_live_def run_function_def Let_def)
  next
    case (Fn_get r)
    then obtain v where "cvars st r = Some v" using live by (auto simp: fn_live_def)
    with get_command_calm [OF this] calm_ret show ?thesis using Fn_get by (intro run) (auto simp: run_function_def Let_def)
  next
    case (Fn_put r)
    then obtain v where v: "cvars st r = Some v" using live by (auto simp: fn_live_def)
    show ?thesis
    proof (rule run [of "[type_of (m_curValue v)]"])
      show "returns_ok st (run_function env func vals st)" if c: "Call [type_of (m_curValue v)] args = Inr vals" for vals
      proof -
        obtain w where "vals = [w]" "type_of w = type_of (m_curValue v)" using Call_one [OF c] by blast
        then show ?thesis using put_command_calm [OF v, of w env] calm_ret Fn_put by (auto simp: run_function_def Let_def)
      qed
    qed (use Fn_put v in simp_all)
  next
    case (Fn_script n)
    then show ?thesis using calm_ret [OF calm_log] by (auto simp: call_function_def returns_ok_def)
  qed (rule run; simp add: run_function_def Let_def toggleCommand_ok [OF ok] vstrCommand_ok [OF ok] cmdlist_ok [OF ok]
      calm_ret [OF calm_wait] calm_ret [OF calm_ace_command(1)] calm_ret [OF calm_ace_command(2)])+
qed

lemma try_functions_ok:
  assumes "con_ok st" "\<forall>f\<in>set fs. fn_live st f"
  shows "returns_ok st (try_functions env ectx args fs st)"
  using assms
proof (induction fs)
  case (Cons f fs)
  obtain res where res: "call_function env ectx args f st = Some res" "\<forall>st'. res = Inr st' \<longrightarrow> con_ok st' \<and> same_contexts st st'"
    using call_function_ok [OF Cons.prems(1)] Cons.prems(2) by fastforce
  then show ?case
    using Cons returns_calm [OF Cons.prems(1) calm_log] by (cases res) (auto simp: returns_ok_def)
qed (use returns_calm in auto)

lemma calm_rawCommand: "calm st (upd_context c (\<lambda>cx. cx\<lparr>m_rawCommand := s\<rparr>) st)"
  by (rule calm_context) (simp add: view_context_def)

lemma InvokeDirect_ok:
  assumes "con_ok st" "con_contexts st c \<noteq> None"
  shows "returns_ok st (InvokeDirect env c cmd args ectx st)"
  using assms
proof (induction c arbitrary: st rule: less_induct)
  case (less c)
  obtain cx where cx: "con_contexts st c = Some cx" using less.prems(2) by blast
  note inv = less.prems(1) [unfolded con_ok_def, THEN conjunct1]
  note okc = con_invD(1) [OF inv cx, unfolded context_ok_def]
  let ?fs = "map cmdFunction (multi_get (ci cmd) (cmdEntries cx))"
  show ?case
  proof (cases "?fs = []")
    case none: True
    show ?thesis
    proof (cases "FallbackEvent env cmd args ectx \<and> m_fallbackContext cx \<noteq> None")
      case True
      then obtain f where f: "m_fallbackContext cx = Some f" by blast
      let ?st = "upd_context f (\<lambda>cx'. cx'\<lparr>m_rawCommand := m_rawCommand cx\<rparr>) st"
      have c: "calm st ?st" by (rule calm_rawCommand)
      have "returns_ok ?st (InvokeDirect env f cmd args ectx ?st)"
        using less.IH [of f ?st] okc f calm_ok [OF less.prems(1) c] calm_live(2) [OF c, of f] by auto
      from returns_after [OF calm_same_contexts [OF c] this] show ?thesis
        using cx none True f okc by (subst InvokeDirect.simps) simp
    next
      case False
      then show ?thesis
        using cx none returns_calm [OF less.prems(1)] by (subst InvokeDirect.simps) (auto split: option.splits)
    qed
  next
    case some: False
    obtain b st1 where b: "con_check (command_object cmd) st = (b, st1)" by force
    note c1 = calm_con_check [OF b]
    have "fn_live st f" if f: "f \<in> set ?fs" for f
    proof -
      obtain e where e: "(ci cmd, e) \<in> set (cmdEntries cx)" "f = cmdFunction e" using f by auto
      have "fn_ok st c e" using okc e(1) by fastforce
      then show ?thesis using e(2) by (auto simp: fn_ok_def fn_live_def split: cmd_function.splits)
    qed
    then have "fn_live st1 f" if "f \<in> set ?fs" for f
      using that calm_fn_live [OF c1] by blast
    then have "returns_ok st1 (try_functions env ectx args ?fs st1)" using try_functions_ok [OF calm_ok [OF less.prems(1) c1]] by blast
    from returns_after [OF calm_same_contexts [OF c1] this] show ?thesis
      using cx some b returns_calm [OF less.prems(1) c1] returns_calm [OF less.prems(1) calm_trans [OF c1 calm_log]]
      by (subst InvokeDirect.simps) (auto simp: Let_def split: bool.splits)
  qed
qed

lemma Invoke_ok:
  assumes ok: "con_ok st" and cx: "con_contexts st c \<noteq> None"
  shows "returns_ok st (Invoke env c s ectx st)"
proof -
  obtain ts where ts: "Tokenize (json_points env) s = Some ts" using Tokenize_total by blast
  show ?thesis
  proof (cases ts)
    case Nil
    then show ?thesis using ts returns_calm [OF ok calm_refl] by (simp add: Invoke_def)
  next
    case (Cons cmd args)
    let ?st = "upd_context c (\<lambda>cx. cx\<lparr>m_rawCommand := s\<rparr>) st"
    note c = calm_rawCommand [of st c s]
    have "con_contexts ?st c \<noteq> None" using cx calm_live(2) [OF c, of c] by auto
    from InvokeDirect_ok [OF calm_ok [OF ok c] this] obtain st1 where
      1: "InvokeDirect env c cmd args ectx ?st = Some st1" "con_ok st1" "same_contexts ?st st1" unfolding returns_ok_def by blast
    have "returns_ok st1 (Some (upd_context c (\<lambda>cx. cx\<lparr>m_rawCommand := []\<rparr>) st1))" by (rule returns_calm [OF 1(2) calm_rawCommand])
    from returns_after [OF same_contexts_trans [OF calm_same_contexts [OF c] 1(3)] this] show ?thesis
      using ts Cons 1(1) by (simp add: Invoke_def)
  qed
qed

lemma ExecuteBuffer_ok:
  assumes ok: "con_ok st" and "con_contexts st c \<noteq> None"
  shows "returns_ok st (ExecuteBuffer env c st)"
proof -
  obtain cx where cx: "con_contexts st c = Some cx" using assms(2) by blast
  obtain cmds rest where t: "take_commands (json_chars env) (m_commandBuffer cx) = (cmds, rest)" by force
  let ?st = "upd_context c (\<lambda>cx. cx\<lparr>waitUntil := 0, m_commandBuffer := rest, m_executing := True\<rparr>) st"
  have c: "calm st ?st" by (rule calm_context) (simp add: view_context_def)
  have "returns_ok ?st (handle_all (ExecuteSingleCommand env c) cmds ?st)"
  proof (rule handle_all_ok [OF calm_ok [OF ok c]])
    show "returns_ok st' (ExecuteSingleCommand env c x st')" if "con_ok st'" "same_contexts ?st st'" for x st'
      unfolding ExecuteSingleCommand_def
      by (rule Invoke_ok [OF that(1)]) (use that(2) calm_live(2) [OF c, of c] assms(2) in \<open>simp add: same_contexts_def\<close>)
  qed
  then obtain st1 where 1: "handle_all (ExecuteSingleCommand env c) cmds ?st = Some st1" "con_ok st1" "same_contexts ?st st1"
    by (auto simp: returns_ok_def)
  have "calm st1 (upd_context c (\<lambda>cx. cx\<lparr>m_executing := False\<rparr>) st1)" by (rule calm_context) (simp add: view_context_def)
  from returns_after [OF same_contexts_trans [OF calm_same_contexts [OF c] 1(3)] returns_calm [OF 1(2) this]]
  show ?thesis using cx t 1(1) returns_calm [OF ok calm_refl] by (simp add: ExecuteBuffer_def)
qed

end
