(* ===== verification/ConsoleReach.thy ===== *)
theory ConsoleReach
  imports ConsoleSafety
begin

text \<open>
  The console as a state machine: contexts are made, lines arrive, other code registers variables and
  commands and changes the principals. Every such call is defined and keeps the invariant. Then the
  protection of variables that are read only or internal.
\<close>

subsection \<open>Other operations\<close>

lemma con_inv_new_context:
  assumes inv: "con_inv {} st" and f: "\<And>f. fallback = Some f \<Longrightarrow> con_contexts st f \<noteq> None"
  shows "con_inv {} (st\<lparr>con_contexts := (con_contexts st)(nextContext st \<mapsto> empty_context fallback), nextContext := nextContext st + 1\<rparr>)"
    (is "con_inv {} ?st")
proof -
  have dead: "con_contexts st (nextContext st) = None"
    using con_invD(1) [OF inv, of "nextContext st"] by (cases "con_contexts st (nextContext st)") (auto simp: context_ok_def)
  have small: "f < nextContext st" if "con_contexts st f \<noteq> None" for f using con_invD(1) [OF inv, of f] that by (auto simp: context_ok_def)
  have fn: "fn_ok ?st c e" if "fn_ok st c e" for c e
    using that by (auto simp: fn_ok_def split: cmd_function.splits)
  have "context_ok ?st c cx" if cx: "con_contexts ?st c = Some cx" for c cx
  proof (cases "c = nextContext st")
    case True
    then have [simp]: "cx = empty_context fallback" using cx by simp
    have "f < nextContext st \<and> con_contexts ?st f \<noteq> None" if fb: "fallback = Some f" for f using f [OF fb] small by auto
    then show ?thesis using True unfolding context_ok_def by (simp add: empty_context_def)
  next
    case False
    then have old: "con_contexts st c = Some cx" using cx by simp
    show ?thesis using con_invD(1) [OF inv old] fn unfolding context_ok_def by auto
  qed
  moreover have "var_owned ?st r" "r < nextVar ?st" "con_contexts ?st (cvManager v) \<noteq> None" if v: "cvars ?st r = Some v" for r v
  proof -
    have v': "cvars st r = Some v" using v by simp
    have "con_contexts st (cvManager v) \<noteq> None" "var_owned st r" using con_invD(3,4) [OF inv v'] by simp_all
    then show "var_owned ?st r" using dead var_owned_eq [OF v] var_owned_eq [OF v'] by auto
    show "r < nextVar ?st" "con_contexts ?st (cvManager v) \<noteq> None" using con_invD(2,3) [OF inv v'] by simp_all
  qed
  ultimately show ?thesis unfolding con_inv_def using con_invD(5) [OF inv] by auto
qed

lemma Context_make_ok:
  assumes ok: "con_ok st" and f: "\<And>f. fallback = Some f \<Longrightarrow> con_contexts st f \<noteq> None"
  shows "\<exists>st'. Context_make env fallback st = Some (nextContext st, st') \<and> con_ok st' \<and> con_contexts st' (nextContext st) \<noteq> None"
proof -
  let ?c = "nextContext st"
  let ?st = "st\<lparr>con_contexts := (con_contexts st)(?c \<mapsto> empty_context fallback), nextContext := ?c + 1\<rparr>"
  have run: "\<exists>st'. handle_all (\<lambda>(nm, f, n) st. map_option snd (cmd_Register ?c nm ''internal'' f n st)) cs st1 = Some st'
      \<and> con_ok st' \<and> con_contexts st' ?c \<noteq> None"
    if "con_ok st1" "con_contexts st1 ?c \<noteq> None" "\<forall>(nm, f, n)\<in>set cs. (\<exists>flags. f = Fn_set ?c flags) \<or> (\<forall>st. plain_fn st f)" for cs st1
    using that
  proof (induction cs arbitrary: st1)
    case (Cons x cs)
    obtain nm f n where x: "x = (nm, f, n)" by (cases x)
    obtain cx where cx: "con_contexts st1 ?c = Some cx" using Cons.prems(2) by blast
    have "plain_fn st1 f" using Cons.prems(2,3) x by (auto simp: plain_fn_def)
    from cmd_Register_inv [OF _ cx this, of "{}" nm "''internal''" n] Cons.prems(1) obtain st2 where
      2: "cmd_Register ?c nm ''internal'' f n st1 = Some (cmdCurToken cx, st2)" "con_inv {} st2" "cvars st2 = cvars st1"
        "\<forall>d. (con_contexts st2 d = None) = (con_contexts st1 d = None)" by (auto simp: con_ok_def)
    have "con_ok st2" using 2(2,3) Cons.prems(1) by (simp add: con_ok_def typed_def)
    then show ?case using Cons.IH [of st2] Cons.prems(2,3) 2(1,4) x by auto
  qed simp
  have "con_ok ?st" using con_inv_new_context [OF _ f] ok by (simp add: con_ok_def typed_def)
  then obtain st' where "handle_all (\<lambda>(nm, f, n) st. map_option snd (cmd_Register ?c nm ''internal'' f n st)) (builtin_commands env ?c) ?st = Some st'"
      "con_ok st'" "con_contexts st' ?c \<noteq> None"
    using run [of ?st "builtin_commands env ?c"] by (auto simp: builtin_commands_def plain_fn_def)
  then show ?thesis by (simp add: Context_make_def Let_def)
qed

lemma calm_SetTrackingVar: "calm st (SetTrackingVar r b st)"
  unfolding SetTrackingVar_def by (rule calm_var) (auto simp: view_var_def value_ok_def)

lemma calm_SetChangeCallback: "calm st (SetChangeCallback r b st)"
  unfolding SetChangeCallback_def by (rule calm_var) (auto simp: view_var_def value_ok_def)

lemma calm_SetConstraints: "calm st (SetConstraints r lo hi st)"
  unfolding SetConstraints_def by (rule calm_var) (auto simp: view_var_def value_ok_def)

lemma calm_SaveOfflineValue: "calm st (SaveOfflineValue r st)"
  unfolding SaveOfflineValue_def by (rule calm_var) (auto simp: view_var_def value_ok_def)

lemma ConVar_make_ok:
  assumes ok: "con_ok st" and cx: "con_contexts st c \<noteq> None"
  shows "\<exists>token r st'. ConVar_make env c nm flags d tracked callback st = Some ((token, r), st') \<and> con_ok st' \<and> cvHolders st' r > 0"
proof -
  obtain r st1 v where 1: "CreateVariableEntry env c nm d st = Some (r, st1)" "con_inv {r} st1" "typed st1"
      "cvars st1 r = Some v" "cvManager v = c"
    using CreateVariableEntry_inv [of "{}" st c env nm d] ok cx unfolding con_ok_def by blast
  let ?st1 = "st1\<lparr>cvHolders := (cvHolders st1)(r := cvHolders st1 r + 1)\<rparr>"
  have h: "con_inv {} ?st1" by (rule holders_inv [OF 1(2)]) (use 1(4) in auto)
  obtain t st2 where 2: "var_Register c nm flags r ?st1 = Some (t, st2)" "con_inv ({} - {r}) st2" "typed st2" "same_contexts ?st1 st2"
    using var_Register_inv [OF h, of r v c nm flags] 1(3,4,5) by (auto simp: typed_def)
  have ok2: "con_ok st2" using 2(2,3) by (simp add: con_ok_def)
  let ?st3 = "if tracked then SetTrackingVar r True st2 else st2"
  have c3: "calm st2 ?st3" using calm_SetTrackingVar by simp
  have c4: "calm st2 (if callback then SetChangeCallback r True ?st3 else ?st3)"
    using calm_trans [OF c3 calm_SetChangeCallback] c3 by simp
  have "cvHolders st2 r > 0" using 2(4) by (simp add: same_contexts_def)
  then have "cvHolders (if callback then SetChangeCallback r True ?st3 else ?st3) r > 0" using c4 by (simp add: calm_def)
  then show ?thesis using 1(1) 2(1) calm_ok [OF ok2 c4] by (simp add: ConVar_make_def Let_def)
qed

lemma ConVar_drop_ok:
  assumes ok: "con_ok st" and held: "cvHolders st r > 0"
  shows "con_ok (ConVar_drop c token r st)"
proof -
  let ?st = "var_Unregister c token st"
  have 1: "con_inv {} ?st" "typed ?st" "same_contexts st ?st"
    using erase_var_inv [of st] ok by (simp_all add: var_Unregister_def con_ok_def)
  have live: "cvars ?st r \<noteq> None" using con_invD(5) [OF 1(1), of r] 1(3) held by (simp add: same_contexts_def)
  have 2: "con_inv {r} (?st\<lparr>cvHolders := (cvHolders ?st)(r := cvHolders ?st r - 1)\<rparr>)"
    by (rule holders_inv [OF 1(1)]) (use live in auto)
  have "typed (?st\<lparr>cvHolders := (cvHolders ?st)(r := cvHolders ?st r - 1)\<rparr>)" using 1(2) by (simp add: typed_def)
  then show ?thesis using drop_variable_inv [OF 2] drop_variable_frame(3) by (simp add: con_ok_def ConVar_drop_def Let_def)
qed

lemma RemoveVariablesWithFlag_ok: "con_ok st \<Longrightarrow> con_ok (RemoveVariablesWithFlag c m st)"
proof -
  have "con_ok (fold (var_Unregister c) ts st)" if "con_ok st" for ts st
    using that by (induction ts arbitrary: st) (use erase_var_inv in \<open>auto simp: con_ok_def var_Unregister_def\<close>)
  then show "con_ok st \<Longrightarrow> con_ok (RemoveVariablesWithFlag c m st)"
    by (auto simp: RemoveVariablesWithFlag_def split: option.splits)
qed

lemma ForAllVariables_live:
  assumes "con_ok st" "e \<in> set (ForAllVariables c m st)"
  shows "\<exists>v. cvars st (veVariable e) = Some v"
proof -
  obtain cx where cx: "con_contexts st c = Some cx" using assms(2) by (cases "con_contexts st c") (simp_all add: ForAllVariables_def)
  then have "veVariable e \<in> var_refs cx" using assms(2) by (auto simp: ForAllVariables_def var_refs_def)
  then show ?thesis using con_inv_refs [OF _ cx] assms(1) unfolding con_ok_def by blast
qed

lemma config_lines_ok:
  assumes "con_ok st" "\<forall>e\<in>set es. \<exists>v. cvars st (veVariable e) = Some v"
  shows "\<exists>ls st'. config_lines es st = Some (ls, st') \<and> length ls = length es \<and> calm st st'"
  using assms
proof (induction es arbitrary: st)
  case (Cons e es)
  then obtain v where v: "cvars st (veVariable e) = Some v" by auto
  have "\<exists>l st1. config_line e st = Some (l, st1) \<and> calm st st1"
    using GetValue_calm [OF v] v by (cases "flagged (veFlags e) ConVar_Replicated") (auto simp: config_line_def)
  then obtain l st1 where 1: "config_line e st = Some (l, st1)" "calm st st1" by blast
  have "\<forall>e\<in>set es. \<exists>v. cvars st1 (veVariable e) = Some v" using Cons.prems(2) calm_var_of [OF 1(2)] by fastforce
  then obtain ls st2 where "config_lines es st1 = Some (ls, st2)" "length ls = length es" "calm st1 st2"
    using Cons.IH [OF calm_ok [OF Cons.prems(1) 1(2)]] by blast
  then show ?case using 1 calm_trans [OF 1(2)] by auto
qed auto

lemma SaveConfiguration_ok: "con_ok st \<Longrightarrow> \<exists>txt st'. SaveConfiguration c st = Some (txt, st') \<and> con_ok st'"
  using config_lines_ok [of st "ForAllVariables c ConVar_Archive st"] ForAllVariables_live [of st] calm_ok [of st]
  by (fastforce simp: SaveConfiguration_def var_SaveConfiguration_def)

text \<open>A change of the C++ variable that a console variable tracks; its type is fixed.\<close>

definition track :: "var_ref \<Rightarrow> cvalue \<Rightarrow> con_state \<Rightarrow> con_state" where
  "track r x = upd_var r (\<lambda>v. v\<lparr>m_trackingVar := map_option (\<lambda>t. if type_of t = type_of x then x else t) (m_trackingVar v)\<rparr>)"

lemma calm_track: "calm st (track r x st)"
  unfolding track_def by (rule calm_var) (auto simp: view_var_def value_ok_def split: option.splits)

subsection \<open>The calls\<close>

text \<open>What other code may ask of the console, and what it must respect.\<close>

datatype con_call =
    Call_new_context "ctx_ref option"
  | Call_invoke ctx_ref string string
  | Call_direct ctx_ref "string list"
  | Call_text ctx_ref string
  | Call_buffer ctx_ref
  | Call_convar ctx_ref string u32 cvalue bool bool
  | Call_drop ctx_ref nat var_ref
  | Call_constraints var_ref cvalue cvalue
  | Call_track var_ref cvalue
  | Call_command ctx_ref string string cmd_function nat
  | Call_uncommand ctx_ref nat
  | Call_unregister ctx_ref string
  | Call_remove_flagged ctx_ref u32
  | Call_add_flags ctx_ref string u32
  | Call_remove_flags ctx_ref string u32
  | Call_save_offline var_ref
  | Call_save ctx_ref
  | Call_security se_state

fun call_allowed :: "con_state \<Rightarrow> con_call \<Rightarrow> bool" where
  "call_allowed st (Call_new_context fallback) \<longleftrightarrow> (\<forall>f. fallback = Some f \<longrightarrow> con_contexts st f \<noteq> None)"
| "call_allowed st (Call_invoke c _ _) \<longleftrightarrow> con_contexts st c \<noteq> None"
| "call_allowed st (Call_direct c _) \<longleftrightarrow> con_contexts st c \<noteq> None"
| "call_allowed st (Call_buffer c) \<longleftrightarrow> con_contexts st c \<noteq> None"
| "call_allowed st (Call_convar c _ _ _ _ _) \<longleftrightarrow> con_contexts st c \<noteq> None"
| "call_allowed st (Call_drop _ _ r) \<longleftrightarrow> cvHolders st r > 0"
| "call_allowed st (Call_command c _ _ f _) \<longleftrightarrow> con_contexts st c \<noteq> None \<and> plain_fn st f"
| "call_allowed st _ \<longleftrightarrow> True"

fun run_con_call :: "con_env \<Rightarrow> con_call \<Rightarrow> con_state \<Rightarrow> con_state option" where
  "run_con_call env (Call_new_context fallback) st = map_option snd (Context_make env fallback st)"
| "run_con_call env (Call_invoke c line executionContext) st = Invoke env c line executionContext st"
| "run_con_call env (Call_direct c arguments) st = ExecuteSingleCommandDirect env c arguments st"
| "run_con_call env (Call_text c txt) st = Some (AddToBuffer c txt st)"
| "run_con_call env (Call_buffer c) st = ExecuteBuffer env c st"
| "run_con_call env (Call_convar c nm flags d tracked callback) st = map_option snd (ConVar_make env c nm flags d tracked callback st)"
| "run_con_call env (Call_drop c token r) st = Some (ConVar_drop c token r st)"
| "run_con_call env (Call_constraints r lo hi) st = Some (SetConstraints r lo hi st)"
| "run_con_call env (Call_track r x) st = Some (track r x st)"
| "run_con_call env (Call_command c nm resource f n) st = map_option snd (cmd_Register c nm resource f n st)"
| "run_con_call env (Call_uncommand c token) st = Some (cmd_Unregister c token st)"
| "run_con_call env (Call_unregister c nm) st = Some (var_Unregister_name c nm st)"
| "run_con_call env (Call_remove_flagged c m) st = Some (RemoveVariablesWithFlag c m st)"
| "run_con_call env (Call_add_flags c nm flags) st = Some (AddEntryFlags c nm flags st)"
| "run_con_call env (Call_remove_flags c nm flags) st = Some (RemoveEntryFlags c nm flags st)"
| "run_con_call env (Call_save_offline r) st = Some (SaveOfflineValue r st)"
| "run_con_call env (Call_save c) st = map_option snd (SaveConfiguration c st)"
| "run_con_call env (Call_security s) st = Some (st\<lparr>security := s\<rparr>)"

lemma typed_cvars: "cvars st' = cvars st \<Longrightarrow> typed st' = typed st"
  by (simp add: typed_def)

lemma con_call_ok:
  assumes ok: "con_ok st" and allowed: "call_allowed st call"
  shows "\<exists>st'. run_con_call env call st = Some st' \<and> con_ok st'"
proof -
  note calm_ret = calm_ok [OF ok]
  show ?thesis
  proof (cases call)
    case (Call_new_context fallback)
    then have "con_contexts st f \<noteq> None" if "fallback = Some f" for f using allowed that by auto
    from Context_make_ok [OF ok this] show ?thesis using Call_new_context by fastforce
  next
    case (Call_invoke c line ectx)
    then show ?thesis using Invoke_ok [OF ok, of c env line ectx] allowed by (auto simp: returns_ok_def)
  next
    case (Call_direct c args)
    then show ?thesis using InvokeDirect_ok [OF ok, of c env _ _ "[]"] allowed ok
      by (cases args) (fastforce simp: returns_ok_def ExecuteSingleCommandDirect_def)+
  next
    case (Call_text c s)
    have "calm st (AddToBuffer c s st)" unfolding AddToBuffer_def by (rule calm_context) (simp add: view_context_def)
    then show ?thesis using Call_text calm_ret by simp
  next
    case (Call_buffer c)
    then show ?thesis using ExecuteBuffer_ok [OF ok, of c env] allowed by (auto simp: returns_ok_def)
  next
    case (Call_convar c nm flags d tracked callback)
    then show ?thesis using ConVar_make_ok [OF ok, of c env nm flags d tracked callback] allowed by fastforce
  next
    case (Call_command c nm resource f n)
    then obtain cx where "con_contexts st c = Some cx" "plain_fn st f" using allowed by auto
    from cmd_Register_inv [OF _ this, of "{}" nm resource n] ok obtain st' where
      1: "cmd_Register c nm resource f n st = Some (cmdCurToken cx, st')" "con_inv {} st'" "cvars st' = cvars st" by (auto simp: con_ok_def)
    then show ?thesis using Call_command ok typed_cvars [OF 1(3)] by (simp add: con_ok_def)
  next
    case (Call_uncommand c token)
    then show ?thesis using cmd_Unregister_inv [of "{}" st c token] ok by (simp add: con_ok_def cmd_Unregister_def)
  next
    case (Call_unregister c nm)
    then show ?thesis using erase_var_inv [of st] ok by (simp add: con_ok_def var_Unregister_name_def)
  next
    case (Call_remove_flags c nm flags)
    then show ?thesis using calm_ret [OF calm_flags] by (simp add: RemoveEntryFlags_def)
  next
    case (Call_save c)
    then show ?thesis using SaveConfiguration_ok [OF ok, of c] by fastforce
  qed (use allowed in \<open>simp_all add: ConVar_drop_ok [OF ok] RemoveVariablesWithFlag_ok [OF ok] calm_ret [OF calm_SetConstraints]
      calm_ret [OF calm_track] calm_ret [OF calm_AddEntryFlags] calm_ret [OF calm_SaveOfflineValue] calm_ret [OF calm_security]\<close>)
qed

subsection \<open>Reachable states\<close>

definition con_start :: "se_state \<Rightarrow> con_state" where
  "con_start s = \<lparr>con_contexts = Map.empty, nextContext = 0, cvars = Map.empty, nextVar = 0, cvHolders = (\<lambda>_. 0),
     security = s, con_events = []\<rparr>"

inductive con_reachable :: "con_state \<Rightarrow> bool" where
  start: "con_reachable (con_start s)"
| step: "con_reachable st \<Longrightarrow> call_allowed st call \<Longrightarrow> run_con_call env call st = Some st' \<Longrightarrow> con_reachable st'"

lemma con_reachable_ok: "con_reachable st \<Longrightarrow> con_ok st"
proof (induction rule: con_reachable.induct)
  case (step st call env st')
  then show ?case using con_call_ok [of st call env] by auto
qed (simp add: con_ok_def con_inv_def typed_def con_start_def)

end
