(* ===== verification/ConsoleLock.thy ===== *)
theory ConsoleLock
  imports ConsoleReach
begin

text \<open>
  What executed lines cannot do: the value of a variable that is read only or internal, and that no C++
  variable backs, is the same after any line, whoever runs it; a command whose object is not granted changes
  nothing. The name of a command may end in a null character and more text, which the lookup does not see
  and the privilege does.
\<close>

subsection \<open>Protected variables\<close>

definition shielded :: "con_state \<Rightarrow> cvar \<Rightarrow> bool" where
  "shielded st v \<longleftrightarrow> flagged (GetEntryFlags (cvManager v) (cvName v) st) ConVar_ReadOnly
     \<or> flagged (GetEntryFlags (cvManager v) (cvName v) st) ConVar_Internal"

definition protected :: "var_ref \<Rightarrow> cvalue \<Rightarrow> con_state \<Rightarrow> bool" where
  "protected r x st \<longleftrightarrow> r < nextVar st \<and> (\<exists>v. cvars st r = Some v \<and> m_curValue v = x \<and> m_trackingVar v = None \<and> shielded st v)"

definition guards :: "con_state \<Rightarrow> con_state \<Rightarrow> bool" where
  "guards st st' \<longleftrightarrow> (\<forall>r x. protected r x st \<longrightarrow> protected r x st')"

lemma guards_refl [simp, intro]: "guards st st"
  by (simp add: guards_def)

lemma guards_trans: "guards st st1 \<Longrightarrow> guards st1 st2 \<Longrightarrow> guards st st2"
  by (simp add: guards_def)

lemma flagged_OR: "flagged (f OR g) m \<longleftrightarrow> flagged f m \<or> flagged g m" for f g m :: u32
  by (simp add: bit.conj_disj_distrib2 or_eq_0_iff)

text \<open>Entries may gain flags.\<close>

definition entries_kept :: "console_context \<Rightarrow> console_context \<Rightarrow> bool" where
  "entries_kept cx cx' \<longleftrightarrow>
     (\<forall>nm e. find_var cx nm = Some e \<longrightarrow> (\<exists>e' g. find_var cx' nm = Some e' \<and> veFlags e' = veFlags e OR g))"

lemma gains_nothing [simp]: "\<exists>g. f = f OR g" for f :: u32
  by (rule exI [of _ 0]) simp

lemma entries_kept_same: "varEntries cx' = varEntries cx \<Longrightarrow> entries_kept cx cx'"
  by (auto simp: entries_kept_def find_var_def intro: exI [of _ 0])

lemma guards_vars:
  assumes kept: "\<And>d cx. con_contexts st d = Some cx \<Longrightarrow> \<exists>cx'. con_contexts st' d = Some cx' \<and> entries_kept cx cx'"
    and vars: "\<And>r v. cvars st r = Some v \<Longrightarrow> m_trackingVar v = None \<Longrightarrow> shielded st v \<Longrightarrow> r < nextVar st \<Longrightarrow> cvars st' r = Some v"
    and "nextVar st \<le> nextVar st'"
  shows "guards st st'"
proof -
  have sh: "shielded st' v" if "shielded st v" for v
  proof -
    have "GetEntryFlags (cvManager v) (cvName v) st \<noteq> 0" using that by (auto simp: shielded_def)
    then obtain cx e where e: "con_contexts st (cvManager v) = Some cx" "find_var cx (cvName v) = Some e"
      by (auto simp: GetEntryFlags_def bind_eq_Some_conv split: option.splits)
    have fl: "flagged (veFlags e) ConVar_ReadOnly \<or> flagged (veFlags e) ConVar_Internal"
      using that e by (simp add: shielded_def GetEntryFlags_def)
    obtain cx' where cx': "con_contexts st' (cvManager v) = Some cx'" "entries_kept cx cx'" using kept [OF e(1)] by blast
    then obtain e' g where "find_var cx' (cvName v) = Some e'" "veFlags e' = veFlags e OR g"
      using e(2) unfolding entries_kept_def by blast
    then show ?thesis using fl cx'(1) by (auto simp: shielded_def GetEntryFlags_def flagged_OR)
  qed
  show ?thesis unfolding guards_def protected_def using vars sh assms(3) by fastforce
qed

lemma guards_context: "(\<And>cx. entries_kept cx (f cx)) \<Longrightarrow> guards st (upd_context c f st)"
  by (rule guards_vars) (auto simp: upd_context_def entries_kept_same)

lemma guards_log [simp]: "guards st (log_event e st)"
  by (rule guards_vars) (auto simp: log_event_def entries_kept_same)

lemma guards_security [simp]: "guards st (st\<lparr>security := s\<rparr>)"
  by (rule guards_vars) (auto simp: entries_kept_same)

lemma guards_check: "con_check obj st = (b, st') \<Longrightarrow> guards st st'"
  by (auto simp: con_check_def split: prod.splits)

lemma guards_flags: "guards st (set_entry_flags c nm (\<lambda>f. f OR flags) st)"
  unfolding set_entry_flags_def
proof (rule guards_context)
  fix cx
  have "map_of (map (\<lambda>(k, e). (k, if k = ci nm then e\<lparr>veFlags := veFlags e OR flags\<rparr> else e)) xs) k
      = map_option (\<lambda>e. if k = ci nm then e\<lparr>veFlags := veFlags e OR flags\<rparr> else e) (map_of xs k)" for xs :: "(string \<times> var_entry) list" and k
    by (induction xs) auto
  then show "entries_kept cx (cx\<lparr>varEntries := map (\<lambda>(k, e). (k, if k = ci nm then e\<lparr>veFlags := veFlags e OR flags\<rparr> else e)) (varEntries cx)\<rparr>)"
    by (auto simp: entries_kept_def find_var_def intro: exI [of _ "0 :: u32"] exI [of _ flags])
qed

lemma guards_modified: "guards st (MarkConsoleVarModified c nm st)"
proof -
  have "guards st1 (SetVariableModifiedFlags c g st1)" for st1 g
    unfolding SetVariableModifiedFlags_def by (rule guards_context) (simp add: entries_kept_same)
  from guards_trans [OF guards_flags this] have "guards st (AddEntryFlags c nm f st)" for f by (simp add: AddEntryFlags_def Let_def)
  from guards_trans [OF this guards_log] show ?thesis unfolding MarkConsoleVarModified_def .
qed

lemma guards_if: "guards st a \<Longrightarrow> guards st b \<Longrightarrow> guards st (if P then a else b)"
  by simp

lemma guards_store:
  assumes "cvars st r = Some v" "\<not> shielded st v"
  shows "guards st (store_value r v x st)"
proof -
  let ?u = "upd_var r (\<lambda>v. v\<lparr>m_curValue := x, m_trackingVar := map_option (\<lambda>_. x) (m_trackingVar v)\<rparr>) st"
  have u: "guards st ?u"
    by (rule guards_vars) (use assms in \<open>auto simp: upd_var_def entries_kept_same\<close>)
  show ?thesis
    unfolding store_value_def Let_def by (intro guards_if guards_trans [OF _ guards_modified] guards_trans [OF u guards_log] u)
qed

lemma guards_SetRawValue:
  assumes v: "cvars st r = Some v" "\<not> shielded st v" and run: "SetRawValue env r x st = Some (b, st')"
  shows "guards st st'"
proof (cases "case m_constraints v of None \<Rightarrow> False | Some (lo, hi) \<Rightarrow> \<not> Compare x lo hi")
  case True
  then show ?thesis using v run by (auto simp: SetRawValue_def)
next
  case False
  obtain ok st1 where ok: "(if \<not> is_fxserver env \<and> flagged (GetEntryFlags (cvManager v) (cvName v) st) ConVar_Replicated
      then con_check ''builtin.setReplicated'' st else (True, st)) = (ok, st1)" by force
  have 1: "guards st st1" "cvars st1 = cvars st" "con_contexts st1 = con_contexts st"
    using ok guards_check by (auto simp: con_check_def split: if_splits prod.splits)
  have "\<not> shielded st1 v" using v(2) 1(3) by (simp add: shielded_def GetEntryFlags_def)
  then have "guards st (store_value r v x st1)" using guards_trans [OF 1(1) guards_store] v(1) 1(2) by simp
  moreover have "guards st (log_event e st1)" for e using guards_trans [OF 1(1)] by simp
  ultimately show ?thesis using v(1) False run by (auto simp: SetRawValue_def ok split: bool.splits)
qed

lemma guards_SetValue:
  assumes "SetValue env r s st = Some (b, st')"
  shows "guards st st'"
proof -
  obtain v where v: "cvars st r = Some v" using assms by (cases "cvars st r") (simp_all add: SetValue_def)
  show ?thesis
  proof (cases "shielded st v")
    case True
    then show ?thesis using assms v by (auto simp: SetValue_def shielded_def Let_def split: if_splits)
  next
    case False
    then show ?thesis using assms v guards_SetRawValue [OF v False]
      by (auto simp: SetValue_def shielded_def Let_def split: if_splits option.splits)
  qed
qed

lemma guards_put:
  assumes "put_command env r x st = Some st'"
  shows "guards st st'"
proof -
  obtain v where v: "cvars st r = Some v" using assms by (cases "cvars st r") (simp_all add: put_command_def)
  show ?thesis
  proof (cases "shielded st v")
    case True
    then show ?thesis using assms v by (auto simp: put_command_def shielded_def Let_def split: if_splits)
  next
    case False
    then obtain b where "SetRawValue env r x st = Some (b, st')"
      using assms v by (auto simp: put_command_def shielded_def Let_def)
    then show ?thesis by (rule guards_SetRawValue [OF v False])
  qed
qed

lemma guards_GetValue: "GetValue r st = Some (s, st') \<Longrightarrow> guards st st'"
  by (rule guards_vars) (auto simp: GetValue_def upd_var_def entries_kept_same refresh_def split: option.splits)

lemma guards_get: "get_command r st = Some st' \<Longrightarrow> guards st st'"
  using guards_trans [OF guards_GetValue guards_log] by (auto simp: get_command_def split: option.splits)

subsection \<open>Handlers\<close>

lemma map_of_put_other: "l \<noteq> k \<Longrightarrow> map_of (map_put k v xs) l = map_of xs l"
  by (induction k v xs rule: map_put.induct) auto

lemma new_variable_frame:
  assumes "new_variable c nm d st = Some (r, st')"
  shows "guards st st'" "FindEntryRaw c nm st' = FindEntryRaw c nm st"
proof -
  obtain cx where cx: "con_contexts st c = Some cx" using assms
    by (cases "con_contexts st c") (simp_all add: new_variable_def cmd_Register_def)
  show "guards st st'"
    by (rule guards_vars) (use assms cx in \<open>auto simp: new_variable_def cmd_Register_def upd_context_def Let_def entries_kept_same\<close>)
  show "FindEntryRaw c nm st' = FindEntryRaw c nm st"
    using assms cx by (auto simp: new_variable_def cmd_Register_def upd_context_def Let_def FindEntryRaw_def find_var_def)
qed

lemma guards_new_entry:
  assumes "FindEntryRaw c nm st = None" "var_Register c nm flags r st = Some (t, st')"
  shows "guards st st'"
proof -
  obtain cx where cx: "con_contexts st c = Some cx" using assms(2) by (cases "con_contexts st c") (simp_all add: var_Register_def)
  have none: "map_of (varEntries cx) (ci nm) = None" using assms(1) cx by (simp add: FindEntryRaw_def find_var_def)
  show ?thesis
  proof (rule guards_vars)
    show "\<exists>dx'. con_contexts st' d = Some dx' \<and> entries_kept dx dx'" if dx: "con_contexts st d = Some dx" for d dx
    proof (cases "d = c")
      case True
      have "map_of (map_put (ci nm) e (varEntries cx)) k = Some e'" if "map_of (varEntries cx) k = Some e'" for e :: var_entry and k e'
        using that none by (cases "k = ci nm") (simp_all add: map_of_put_other)
      then show ?thesis using True dx cx assms
        by (auto simp: var_Register_def upd_context_def Let_def entries_kept_def find_var_def)
    qed (use dx cx assms in \<open>auto simp: var_Register_def upd_context_def Let_def entries_kept_same\<close>)
  qed (use cx assms in \<open>auto simp: var_Register_def upd_context_def Let_def\<close>)
qed

lemma guards_set:
  assumes "setCommand env c flags nm s st = Some st'"
  shows "guards st st'"
proof (cases "FindEntryRaw c nm st")
  case (Some r)
  then obtain b st1 where 1: "SetValue env r s st = Some (b, st1)" "st' = (if b then set_entry_flags c nm (\<lambda>f. f OR flags) st1 else st1)"
    using assms by (auto simp: setCommand_def split: option.splits)
  from guards_trans [OF guards_SetValue [OF 1(1)] guards_flags] guards_SetValue [OF 1(1)] show ?thesis unfolding 1(2) by simp
next
  case None
  then obtain r st1 t st2 b where 1: "new_variable c nm (CString []) st = Some (r, st1)"
      "var_Register c nm (ConVar_Modified OR flags) r st1 = Some (t, st2)" "SetValue env r s st2 = Some (b, st')"
    using assms by (auto simp: setCommand_def CreateVariableEntry_def split: option.splits)
  have "FindEntryRaw c nm st1 = None" using new_variable_frame(2) [OF 1(1)] None by simp
  from guards_trans [OF guards_trans [OF new_variable_frame(1) [OF 1(1)] guards_new_entry [OF this 1(2)]] guards_SetValue [OF 1(3)]]
  show ?thesis .
qed

lemma guards_toggle:
  assumes "toggleCommand env c nm v1 v2 st = Some st'"
  shows "guards st st'"
proof (cases "FindEntryRaw c nm st")
  case (Some r)
  then obtain s st1 where 1: "GetValue r st = Some (s, st1)" using assms by (auto simp: toggleCommand_def split: option.splits)
  then obtain x b where "SetValue env r x st1 = Some (b, st')" using assms Some by (auto simp: toggleCommand_def Let_def)
  from guards_trans [OF guards_GetValue [OF 1] guards_SetValue [OF this]] show ?thesis .
qed (use assms in \<open>simp add: toggleCommand_def\<close>)

lemma guards_buffer: "guards st (AddToBuffer c s st)"
  unfolding AddToBuffer_def by (rule guards_context) (simp add: entries_kept_same)

lemma guards_vstr:
  assumes "vstrCommand c nm st = Some st'"
  shows "guards st st'"
proof (cases "FindEntryRaw c nm st")
  case (Some r)
  then obtain s st1 where 1: "GetValue r st = Some (s, st1)" "st' = AddToBuffer c (s @ [CHR 0x0A]) st1"
    using assms by (auto simp: vstrCommand_def)
  from guards_trans [OF guards_GetValue [OF 1(1)] guards_buffer] show ?thesis unfolding 1(2) .
qed (use assms in \<open>simp add: vstrCommand_def\<close>)

lemma guards_show:
  assumes "show_command c nm st = Some st'"
  shows "guards st st'"
proof -
  obtain b st1 where b: "con_check (command_object nm) st = (b, st1)" by force
  note 1 = guards_check [OF b]
  have "guards st (log_event e st1)" for e by (rule guards_trans [OF 1]) simp
  moreover have "guards st (log_event e st2)" if "GetValue r st1 = Some (s, st2)" for e r s st2
    using guards_trans [OF guards_trans [OF 1 guards_GetValue [OF that]]] by simp
  ultimately show ?thesis using assms 1 by (auto simp: show_command_def b split: bool.splits option.splits)
qed

lemma handle_all_guards:
  "handle_all h xs st = Some st' \<Longrightarrow> (\<And>x st st'. h x st = Some st' \<Longrightarrow> guards st st') \<Longrightarrow> guards st st'"
proof (induction xs arbitrary: st)
  case (Cons x xs)
  then obtain st1 where "h x st = Some st1" "handle_all h xs st1 = Some st'" by (auto simp: bind_eq_Some_conv)
  then show ?case using Cons.IH [of st1] Cons.prems(2) guards_trans by blast
qed simp

lemma guards_cmdlist: "cmdlist c st = Some st' \<Longrightarrow> guards st st'"
  unfolding cmdlist_def by (erule handle_all_guards) (auto intro: guards_show)

lemma guards_ace: "guards st (ace_command f st)" "guards st (on_security g st)"
  by (auto simp: ace_command_def on_security_def split: prod.splits intro: guards_trans [OF guards_security guards_log])

lemma guards_wait: "guards st (waitCommand env c msec st)"
  unfolding waitCommand_def by (rule guards_context) (simp add: entries_kept_same)

lemma guards_function: "run_function env func args st = Some st' \<Longrightarrow> guards st st'"
  by (cases func) (auto simp: run_function_def Let_def
      intro: guards_set guards_toggle guards_vstr guards_get guards_put guards_cmdlist guards_ace guards_wait)

lemma guards_call:
  assumes "call_function env ectx args func st = Some (Inr st')"
  shows "guards st st'"
proof -
  have "guards st st' \<or> (\<exists>values. run_function env func values st = Some st')"
    using assms unfolding call_function_def by (cases func) (auto split: if_splits option.splits sum.splits)
  then show ?thesis using guards_function by blast
qed

lemma guards_try: "try_functions env ectx args fs st = Some st' \<Longrightarrow> guards st st'"
  by (induction fs) (auto intro: guards_call split: option.splits sum.splits if_splits)

subsection \<open>Lines\<close>

lemma guards_rawCommand: "guards st (upd_context c (\<lambda>cx. cx\<lparr>m_rawCommand := s\<rparr>) st)"
  by (rule guards_context) (simp add: entries_kept_same)

lemma guards_InvokeDirect: "InvokeDirect env c cmd args ectx st = Some st' \<Longrightarrow> guards st st'"
proof (induction c arbitrary: st rule: less_induct)
  case (less c)
  obtain cx where cx: "con_contexts st c = Some cx" using less.prems by (subst (asm) InvokeDirect.simps) (auto split: option.splits)
  let ?fs = "map cmdFunction (multi_get (ci cmd) (cmdEntries cx))"
  show ?case
  proof (cases "?fs = []")
    case True
    show ?thesis
    proof (cases "FallbackEvent env cmd args ectx \<and> m_fallbackContext cx \<noteq> None")
      case fb: True
      then obtain f where f: "m_fallbackContext cx = Some f" by blast
      have "f < c" "InvokeDirect env f cmd args ectx (upd_context f (\<lambda>cx'. cx'\<lparr>m_rawCommand := m_rawCommand cx\<rparr>) st) = Some st'"
        using less.prems cx True fb f by (subst (asm) InvokeDirect.simps; simp split: if_splits)+
      from guards_trans [OF guards_rawCommand less.IH [OF this]] show ?thesis .
    next
      case False
      then show ?thesis using less.prems cx True by (subst (asm) InvokeDirect.simps) (auto split: option.splits if_splits)
    qed
  next
    case some: False
    obtain b st1 where b: "con_check (command_object cmd) st = (b, st1)" by force
    note 1 = guards_check [OF b]
    have "guards st (log_event e st1)" for e by (rule guards_trans [OF 1]) simp
    moreover have "guards st st'" if "try_functions env ectx args ?fs st1 = Some st'" using guards_trans [OF 1 guards_try [OF that]] .
    ultimately show ?thesis using less.prems cx some b 1
      by (subst (asm) InvokeDirect.simps) (auto simp: Let_def split: bool.splits if_splits)
  qed
qed

lemma guards_Invoke:
  assumes "Invoke env c s ectx st = Some st'"
  shows "guards st st'"
proof -
  obtain ts where ts: "Tokenize (json_points env) s = Some ts" using Tokenize_total by blast
  show ?thesis
  proof (cases ts)
    case (Cons cmd args)
    then obtain st1 where "InvokeDirect env c cmd args ectx (upd_context c (\<lambda>cx. cx\<lparr>m_rawCommand := s\<rparr>) st) = Some st1"
        "st' = upd_context c (\<lambda>cx. cx\<lparr>m_rawCommand := []\<rparr>) st1" using assms ts by (auto simp: Invoke_def)
    with guards_trans [OF guards_trans [OF guards_rawCommand guards_InvokeDirect] guards_rawCommand] show ?thesis by blast
  qed (use assms ts in \<open>simp add: Invoke_def\<close>)
qed

lemma guards_ExecuteBuffer:
  assumes "ExecuteBuffer env c st = Some st'"
  shows "guards st st'"
proof -
  obtain cx where cx: "con_contexts st c = Some cx" using assms by (cases "con_contexts st c") (simp_all add: ExecuteBuffer_def)
  obtain cmds rest where t: "take_commands (json_chars env) (m_commandBuffer cx) = (cmds, rest)" by force
  show ?thesis
  proof (cases "waitUntil cx \<noteq> 0 \<and> waitUntil cx * 1000000 \<ge> clock_ns env")
    case False
    then obtain st1 where 1: "handle_all (ExecuteSingleCommand env c) cmds
          (upd_context c (\<lambda>cx. cx\<lparr>waitUntil := 0, m_commandBuffer := rest, m_executing := True\<rparr>) st) = Some st1"
        "st' = upd_context c (\<lambda>cx. cx\<lparr>m_executing := False\<rparr>) st1" using assms cx t by (auto simp: ExecuteBuffer_def)
    have "guards st (upd_context c (\<lambda>cx. cx\<lparr>waitUntil := 0, m_commandBuffer := rest, m_executing := True\<rparr>) st)"
      "guards st1 (upd_context c (\<lambda>cx. cx\<lparr>m_executing := False\<rparr>) st1)"
      by (rule guards_context; simp add: entries_kept_same)+
    moreover have "guards (upd_context c (\<lambda>cx. cx\<lparr>waitUntil := 0, m_commandBuffer := rest, m_executing := True\<rparr>) st) st1"
      using 1(1) by (rule handle_all_guards) (simp add: ExecuteSingleCommand_def guards_Invoke)
    ultimately show ?thesis using 1(2) guards_trans by blast
  qed (use assms cx in \<open>simp add: ExecuteBuffer_def\<close>)
qed

subsection \<open>Calls that execute\<close>

definition executes :: "con_call \<Rightarrow> bool" where
  "executes call \<longleftrightarrow> (case call of Call_invoke _ _ _ \<Rightarrow> True | Call_direct _ _ \<Rightarrow> True | Call_buffer _ \<Rightarrow> True | _ \<Rightarrow> False)"

lemma guards_call_executes:
  assumes "executes call" "run_con_call env call st = Some st'"
  shows "guards st st'"
  using assms guards_Invoke guards_InvokeDirect guards_ExecuteBuffer
  by (cases call) (auto simp: executes_def ExecuteSingleCommandDirect_def split: list.splits)

subsection \<open>Denied commands\<close>

lemma con_check_may: "con_check obj st = (may (security st) obj, st\<lparr>security := snd (seGetCurrentContext (security st))\<rparr>)"
  by (simp add: con_check_def seCheckPrivilege_may)

lemma InvokeDirect_known:
  assumes "con_contexts st c = Some cx" "map cmdFunction (multi_get (ci cmd) (cmdEntries cx)) = fs" "fs \<noteq> []"
    and "st1 = st\<lparr>security := snd (seGetCurrentContext (security st))\<rparr>"
  shows "InvokeDirect env c cmd args ectx st =
    (if may (security st) (command_object cmd) then try_functions env ectx args fs st1
     else Some (if AccessDeniedEvent env cmd then log_event (Access_denied cmd) st1 else st1))"
  using assms by (subst InvokeDirect.simps) (auto simp: con_check_may Let_def split: bool.splits)

lemma InvokeDirect_denied:
  assumes "con_contexts st c = Some cx" "multi_get (ci cmd) (cmdEntries cx) \<noteq> []" "\<not> may (security st) (command_object cmd)"
  shows "\<exists>st'. InvokeDirect env c cmd args ectx st = Some st' \<and> con_contexts st' = con_contexts st \<and> cvars st' = cvars st
    \<and> may (security st') = may (security st)"
  using assms InvokeDirect_known [OF assms(1) refl _ refl] by (simp add: log_event_def)

text \<open>The parents of the object of a command without dots.\<close>

lemma ToLower_small: "(of_char d :: nat) < 97 \<Longrightarrow> ToLower d = d \<Longrightarrow> ToLower c = d \<longleftrightarrow> c = d"
proof -
  assume d: "(of_char d :: nat) < 97" "ToLower d = d"
  have "(of_char (ToLower c) :: nat) = of_char c \<and> ToLower c = c \<or> (of_char (ToLower c) :: nat) \<ge> 97"
    by (auto simp: ToLower_def Let_def of_char_of)
  then show ?thesis using d by auto
qed

lemma lower_special [simp]: "ToLower c = CHR ''.'' \<longleftrightarrow> c = CHR ''.''" "ToLower c = CHR 0x00 \<longleftrightarrow> c = CHR 0x00"
  by (rule ToLower_small; simp add: ToLower_def)+

lemma covers_command:
  assumes "CHR ''.'' \<notin> set nm"
  shows "covers k (Object (command_object nm)) \<longleftrightarrow> k = Object (command_object nm) \<or> k = Object ''command''"
proof -
  have "CHR ''.'' \<notin> ToLower ` set nm" using assms by (metis imageE lower_special(1))
  then have "CHR ''.'' \<notin> set (map ToLower nm)" by simp
  note split = dot_split [OF this, of "''command''"]
  have no: "''command'' \<noteq> a @ CHR ''.'' # b" for a b
  proof
    assume "''command'' = a @ CHR ''.'' # b"
    then have "CHR ''.'' \<in> set ''command''" by simp
    then show False by simp
  qed
  have id: "GetObjectIdentifier (Object (command_object nm)) = ''command'' @ CHR ''.'' # map ToLower nm"
    by (simp add: Object_def command_object_def ToLower_def)
  have "(\<exists>a b. ''command'' @ CHR ''.'' # map ToLower nm = a @ CHR ''.'' # b \<and> k = Object a) \<longleftrightarrow> k = Object ''command''"
    unfolding split using no by blast
  then show ?thesis unfolding covers_def id by blast
qed

text \<open>
  A name with a null character and more text behind it: the same functions, another object. An entry that
  denies the command does not cover it, while one that allows all commands does.
\<close>

lemma ci_null: "ci (nm @ CHR 0x00 # tail) = ci nm"
  by (induction nm) (auto simp: ci_def c_str_def)

lemma granted_null_name:
  assumes dot: "CHR ''.'' \<notin> set nm" "CHR ''.'' \<notin> set tail"
    and all: "(Object ''command'', e) \<in> set (m_aces ctx)" "acePrincipal e \<in> acts_as ctx p" "aceType e = Allow"
    and deny: "\<forall>(k, d)\<in>set (m_aces ctx). aceType d = Deny \<longrightarrow> acePrincipal d \<in> acts_as ctx p \<longrightarrow>
      k \<noteq> Object ''command'' \<and> CHR 0x00 \<notin> set (GetObjectIdentifier k)"
  shows "granted ctx p (Object (command_object (nm @ CHR 0x00 # tail)))"
proof -
  let ?obj = "Object (command_object (nm @ CHR 0x00 # tail))"
  have "CHR ''.'' \<notin> set (nm @ CHR 0x00 # tail)" using dot by simp
  note cov = covers_command [OF this]
  have null: "CHR 0x00 \<in> set (GetObjectIdentifier ?obj)" by (simp add: Object_def command_object_def ToLower_def)
  have "aceType (snd x) \<noteq> Deny" if x: "x \<in> set (m_aces ctx)" "concerns ctx p ?obj x" for x
  proof
    assume d: "aceType (snd x) = Deny"
    obtain k e where [simp]: "x = (k, e)" by force
    have "k = ?obj \<or> k = Object ''command''" "acePrincipal e \<in> acts_as ctx p" using x(2) by (simp_all add: concerns_def cov)
    then show False using deny x(1) d null by fastforce
  qed
  moreover have "\<exists>x\<in>set (m_aces ctx). concerns ctx p ?obj x \<and> aceType (snd x) = Allow"
    using all by (intro bexI [OF _ all(1)]) (simp add: concerns_def cov)
  ultimately show ?thesis unfolding granted_def by blast
qed

lemma InvokeDirect_null_name:
  assumes cx: "con_contexts st c = Some cx" "map cmdFunction (multi_get (ci nm) (cmdEntries cx)) = fs" "fs \<noteq> []"
    and dot: "CHR ''.'' \<notin> set nm" "CHR ''.'' \<notin> set tail"
    and ctx: "ctx = current_context (security st)" and p: "p \<in> stack_principals (security st)"
    and all: "(Object ''command'', e) \<in> set (m_aces ctx)" "acePrincipal e \<in> acts_as ctx p" "aceType e = Allow"
    and deny: "\<forall>(k, d)\<in>set (m_aces ctx). aceType d = Deny \<longrightarrow> acePrincipal d \<in> acts_as ctx p \<longrightarrow>
      k \<noteq> Object ''command'' \<and> CHR 0x00 \<notin> set (GetObjectIdentifier k)"
  shows "InvokeDirect env c (nm @ CHR 0x00 # tail) args ectx st =
    try_functions env ectx args fs (st\<lparr>security := snd (seGetCurrentContext (security st))\<rparr>)"
proof -
  have "granted ctx p (Object (command_object (nm @ CHR 0x00 # tail)))" by (rule granted_null_name [OF dot all deny])
  then have "may (security st) (command_object (nm @ CHR 0x00 # tail))"
    using p ctx by (auto simp: may_def allowed_def stack_principals_def)
  then show ?thesis using cx InvokeDirect_known [OF cx(1) _ cx(3) refl, of "nm @ CHR 0x00 # tail"] by (simp add: ci_null)
qed

end
