(* ===== verification/ConsoleConfig.thy ===== *)
theory ConsoleConfig
  imports ConsoleLock
begin

text \<open>
  The configuration that is saved: each of its lines is read back as the command that sets the variable, and
  executing it gives the variable the saved value, as long as no text has a quote in it.
\<close>

subsection \<open>A line of the file\<close>

text \<open>Text that may stand between quotes as it is.\<close>

definition quotable :: "string \<Rightarrow> bool" where
  "quotable s \<longleftrightarrow> (case from_bytes s of None \<Rightarrow> False | Some cs \<Rightarrow> quote \<notin> set cs \<and> (cs = [] \<or> last cs \<noteq> backslash))"

lemma escape_id: "quote \<notin> set cs \<Longrightarrow> escape cs = cs"
  by (induction cs) auto

lemma spells_quotable:
  assumes "quotable s"
  shows "\<exists>cs. spells (quote # cs @ [quote]) cs \<and> argument_bytes cs = s \<and> to_bytes (quote # cs @ [quote]) = Some (CHR 0x22 # s @ [CHR 0x22])"
proof -
  obtain cs where cs: "from_bytes s = Some cs" "quote \<notin> set cs" "cs = [] \<or> last cs \<noteq> backslash"
    using assms by (auto simp: quotable_def split: option.splits)
  have b: "to_bytes cs = Some s" by (rule to_from_bytes [OF cs(1)])
  have "to_bytes ([quote] @ cs @ [quote]) = Some ([CHR 0x22] @ s @ [CHR 0x22])" by (rule to_bytes_append [OF to_bytes_quote(1) to_bytes_append [OF b to_bytes_quote(1)]])
  then show ?thesis using cs b by (intro exI [of _ cs]) (simp add: spells_def escape_id argument_bytes_def)
qed

definition seta_line :: "string \<Rightarrow> string \<Rightarrow> string" where
  "seta_line nm val = ''seta '' @ [CHR 0x22] @ nm @ [CHR 0x22, CHR '' '', CHR 0x22] @ val @ [CHR 0x22]"

lemma Tokenize_seta_line:
  assumes "quotable nm" "quotable val"
  shows "Tokenize j (seta_line nm val) = Some [''seta'', nm, val]"
proof -
  obtain ns where ns: "spells (quote # ns @ [quote]) ns" "argument_bytes ns = nm"
      "to_bytes (quote # ns @ [quote]) = Some (CHR 0x22 # nm @ [CHR 0x22])" using spells_quotable [OF assms(1)] by blast
  obtain vs where vs: "spells (quote # vs @ [quote]) vs" "argument_bytes vs = val"
      "to_bytes (quote # vs @ [quote]) = Some (CHR 0x22 # val @ [CHR 0x22])" using spells_quotable [OF assms(2)] by blast
  let ?seta = "[115, 101, 116, 97] :: code_point list"
  have seta: "spells ?seta ?seta" "to_bytes ?seta = Some ''seta''"
    by (simp_all add: spells_def word_def to_bytes_def scalar_value_def utf8_point_def char_of_def bit_0)
  have "to_bytes (?seta @ [blank] @ (quote # ns @ [quote]) @ [blank] @ (quote # vs @ [quote]))
      = Some (''seta'' @ '' '' @ (CHR 0x22 # nm @ [CHR 0x22]) @ '' '' @ (CHR 0x22 # val @ [CHR 0x22]))"
    by (intro to_bytes_append seta to_bytes_quote ns(3) vs(3))
  then have "to_bytes (?seta @ spaced [quote # ns @ [quote], quote # vs @ [quote]]) = Some (seta_line nm val)"
    by (simp add: seta_line_def)
  from Tokenize_spelled [OF seta(1) _ this, of "[ns, vs]" j] ns vs show ?thesis
    using seta(2) by (simp add: argument_bytes_def [of ?seta])
qed

lemma config_line_eq:
  "config_line e st = Some (l, st') \<Longrightarrow>
     \<exists>v. cvars st (veVariable e) = Some v \<and>
       l = seta_line (veName e) (UnparseArgument (if flagged (veFlags e) ConVar_Replicated then m_offlineValue v else m_curValue (refresh v)))"
  by (auto simp: config_line_def seta_line_def GetOfflineValue_def GetValue_def split: option.splits if_splits)

subsection \<open>Setting a variable\<close>

lemma cvars_flags [simp]: "cvars (set_entry_flags c nm f st) = cvars st"
  by (simp add: set_entry_flags_def upd_context_def)

lemma cvars_modified [simp]: "cvars (MarkConsoleVarModified c nm st) = cvars st"
  by (simp add: MarkConsoleVarModified_def AddEntryFlags_def SetVariableModifiedFlags_def upd_context_def log_event_def Let_def)

lemma store_value_cvars:
  "cvars st r = Some v \<Longrightarrow> \<exists>w. cvars (store_value r v x st) r = Some w \<and> m_curValue w = x"
  by (auto simp: store_value_def upd_var_def log_event_def Let_def)

text \<open>A variable that a command may set to any value of its type.\<close>

definition settable :: "ctx_ref \<Rightarrow> string \<Rightarrow> var_ref \<Rightarrow> ctype \<Rightarrow> con_state \<Rightarrow> bool" where
  "settable c nm r t st \<longleftrightarrow> FindEntryRaw c nm st = Some r \<and>
     (\<exists>v. cvars st r = Some v \<and> type_of (m_curValue v) = t \<and> m_constraints v = None \<and>
       \<not> flagged (GetEntryFlags (cvManager v) (cvName v) st) (ConVar_Internal OR ConVar_ReadOnly OR ConVar_Replicated))"

lemma flagged_OR2: "flagged f (m OR n) \<longleftrightarrow> flagged f m \<or> flagged f n" for f m n :: u32
  by (simp add: bit.conj_disj_distrib or_eq_0_iff)

lemma SetValue_settable:
  assumes "settable c nm r t st" "ParseArgument t val = Some x"
  shows "\<exists>st'. SetValue env r val st = Some (True, st') \<and> (\<exists>w. cvars st' r = Some w \<and> m_curValue w = x)"
proof -
  obtain v where v: "cvars st r = Some v" "type_of (m_curValue v) = t" "m_constraints v = None"
      "\<not> flagged (GetEntryFlags (cvManager v) (cvName v) st) (ConVar_Internal OR ConVar_ReadOnly OR ConVar_Replicated)"
    using assms(1) by (auto simp: settable_def)
  then have "SetValue env r val st = Some (True, store_value r v x st)"
    using assms(2) by (simp add: SetValue_def SetRawValue_def flagged_OR2 Let_def)
  then show ?thesis using store_value_cvars [OF v(1)] by blast
qed

lemma setCommand_settable:
  assumes "settable c nm r t st" "ParseArgument t val = Some x"
  shows "\<exists>st' w. setCommand env c flags nm val st = Some st' \<and> cvars st' r = Some w \<and> m_curValue w = x"
proof -
  obtain st1 w where 1: "SetValue env r val st = Some (True, st1)" "cvars st1 r = Some w" "m_curValue w = x"
    using SetValue_settable [OF assms] by blast
  then have "setCommand env c flags nm val st = Some (set_entry_flags c nm (\<lambda>f. f OR flags) st1)"
    using assms(1) by (simp add: setCommand_def settable_def)
  then show ?thesis using 1(2,3) by simp
qed

text \<open>The command \<open>seta\<close> of a context, for somebody who may run it.\<close>

definition seta_ready :: "ctx_ref \<Rightarrow> con_state \<Rightarrow> bool" where
  "seta_ready c st \<longleftrightarrow> may (security st) ''command.seta'' \<and>
     (\<exists>cx. con_contexts st c = Some cx \<and> map cmdFunction (multi_get ''seta'' (cmdEntries cx)) = [Fn_set c ConVar_Archive])"

lemma Invoke_seta:
  assumes ready: "seta_ready c st" and s: "settable c nm r t st" and x: "ParseArgument t val = Some x"
    and q: "quotable nm" "quotable val"
  shows "\<exists>st' w. Invoke env c (seta_line nm val) ectx st = Some st' \<and> cvars st' r = Some w \<and> m_curValue w = x"
proof -
  let ?st = "upd_context c (\<lambda>cx. cx\<lparr>m_rawCommand := seta_line nm val\<rparr>) st"
  let ?st1 = "?st\<lparr>security := snd (seGetCurrentContext (security ?st))\<rparr>"
  obtain cx where cx: "con_contexts st c = Some cx" "map cmdFunction (multi_get ''seta'' (cmdEntries cx)) = [Fn_set c ConVar_Archive]"
    and may: "may (security st) ''command.seta''" using ready by (auto simp: seta_ready_def)
  let ?cx = "cx\<lparr>m_rawCommand := seta_line nm val\<rparr>"
  have "find_var (f y) n = find_var y n" if "varEntries (f y) = varEntries y" for f y n using that by (simp add: find_var_def)
  then have "settable c nm r t ?st1"
    using s cx(1) by (auto simp: settable_def FindEntryRaw_def GetEntryFlags_def upd_context_def split: if_splits)
  from setCommand_settable [OF this x] obtain st2 w where
    2: "setCommand env c ConVar_Archive nm val ?st1 = Some st2" "cvars st2 r = Some w" "m_curValue w = x" by blast
  have call: "try_functions env ectx [nm, val] [Fn_set c ConVar_Archive] ?st1 = Some st2"
    using 2(1) by (simp add: call_function_def Call_def ParseArgument_def run_function_def str_arg_def Let_def)
  have ci: "ci ''seta'' = ''seta''" by code_simp
  have known: "con_contexts ?st c = Some ?cx" "map cmdFunction (multi_get (ci ''seta'') (cmdEntries ?cx)) = [Fn_set c ConVar_Archive]"
    using cx by (simp_all add: ci upd_context_def)
  have "InvokeDirect env c ''seta'' [nm, val] ectx ?st = Some st2"
    using may call InvokeDirect_known [OF known _ refl, of env "[nm, val]" ectx] by (simp add: command_object_def upd_context_def)
  then show ?thesis using 2 Tokenize_seta_line [OF q] by (simp add: Invoke_def upd_context_def)
qed

text \<open>What was saved in one state is set again in another one.\<close>

lemma config_line_restores:
  assumes "config_line e st = Some (l, st')" "cvars st (veVariable e) = Some v" "\<not> flagged (veFlags e) ConVar_Replicated"
    and x: "m_curValue (refresh v) = x" and q: "quotable (veName e)" "quotable (UnparseArgument x)"
    and "seta_ready c st2" "settable c (veName e) r (type_of x) st2"
  shows "\<exists>st3 w. Invoke env c l ectx st2 = Some st3 \<and> cvars st3 r = Some w \<and> m_curValue w = x"
  using config_line_eq [OF assms(1)] assms(2,3) x Invoke_seta [OF assms(7,8) ParseArgument_Unparse q] by auto

text \<open>A quote in a value is not escaped, so the line is read as other arguments.\<close>

lemma quoted_value_cut:
  "Tokenize j (seta_line ''motd'' (''say '' @ [CHR 0x22] @ ''hi'' @ [CHR 0x22])) = Some [''seta'', ''motd'', ''say '', ''hi'', '''']"
proof -
  have 1: "from_bytes (seta_line ''motd'' (''say '' @ [CHR 0x22] @ ''hi'' @ [CHR 0x22]))
      = Some [115, 101, 116, 97, 32, 34, 109, 111, 116, 100, 34, 32, 34, 115, 97, 121, 32, 34, 104, 105, 34, 34]"
    by code_simp
  show ?thesis unfolding Tokenize_def 1
    by (simp add: Tokenize_loop.simps skip_space.simps argument_bytes_def to_bytes_def scalar_value_def utf8_point_def char_of_def bit_0)
qed

end
