(* ===== verification/SampleConsole.thy ===== *)
theory SampleConsole
  imports ConsoleConfig
begin

text \<open>
  A console with one context, whose line is executed for an administrator who may run every command but
  \<open>quit\<close>, for the examples: first after it is made, then with a variable that is read only, one that is not,
  and the command \<open>quit\<close>.
\<close>

definition quiet_console :: con_env where
  "quiet_console = \<lparr>is_fxserver = False, json_points = (\<lambda>_. None), json_chars = (\<lambda>_. None), FallbackEvent = (\<lambda>_ _ _. True),
     AccessDeniedEvent = (\<lambda>_. True), script_arity = (\<lambda>_. None), script_accepts = (\<lambda>_ _ _. True), clock_ns = 0\<rparr>"

abbreviation admin :: Principal where
  "admin \<equiv> Principal ''group.admin''"

definition admin_aces :: se_context where
  "admin_aces = AddAccessControlEntry admin (Object ''command'') Allow
     (AddAccessControlEntry admin (Object ''command.quit'') Deny se_Context)"

definition admin_state :: se_state where
  "admin_state = \<lparr>se_contexts = (\<lambda>_. admin_aces), se_nextContext = 1, g_currentContext = Some 0, g_globalContext = Some 0,
     g_principalStack = [Principal_ref admin], g_principalStackStack = [], principalSources = (\<lambda>_. [])\<rparr>"

definition booted :: con_state where
  "booted = snd (the (Context_make quiet_console None (con_start admin_state)))"

definition with_motd :: con_state where
  "with_motd = snd (the (ConVar_make quiet_console 0 ''motd'' ConVar_ReadOnly (CString ''hi'') False False booted))"

definition with_port :: con_state where
  "with_port = snd (the (ConVar_make quiet_console 0 ''port'' ConVar_Archive (CInt 30120) False False with_motd))"

definition with_quit :: con_state where
  "with_quit = snd (the (cmd_Register 0 ''quit'' ''internal'' (Fn_script 0) 0 with_port))"

lemma booted_reachable: "con_reachable booted"
proof -
  have "run_con_call quiet_console (Call_new_context None) (con_start admin_state) = Some booted"
    using Context_make_ok [of "con_start admin_state" None quiet_console] con_reachable_ok [OF con_reachable.start]
    by (fastforce simp: booted_def)
  from con_reachable.step [OF con_reachable.start _ this] show ?thesis by simp
qed

lemma contexts_live: "\<not> Option.is_none (con_contexts booted 0) \<and> \<not> Option.is_none (con_contexts with_motd 0)
    \<and> \<not> Option.is_none (con_contexts with_port 0) \<and> \<not> Option.is_none (con_contexts with_quit 0)"
  by code_simp

lemmas contexts_0 = contexts_live [THEN conjunct1] contexts_live [THEN conjunct2, THEN conjunct1]
  contexts_live [THEN conjunct2, THEN conjunct2, THEN conjunct1] contexts_live [THEN conjunct2, THEN conjunct2, THEN conjunct2]

lemmas context_0 = contexts_0 [unfolded Option.is_none_def]

lemma convar_reachable:
  assumes "con_reachable st" "con_contexts st c \<noteq> None"
  shows "con_reachable (snd (the (ConVar_make env c nm flags d tracked callback st)))"
  using con_reachable.step [OF assms(1), of "Call_convar c nm flags d tracked callback" env] assms(2)
    ConVar_make_ok [OF con_reachable_ok [OF assms(1)] assms(2), of env nm flags d tracked callback] by fastforce

lemma with_motd_reachable: "con_reachable with_motd"
  unfolding with_motd_def by (rule convar_reachable [OF booted_reachable context_0(1)])

lemma with_port_reachable: "con_reachable with_port"
  unfolding with_port_def by (rule convar_reachable [OF with_motd_reachable context_0(2)])

lemma with_quit_reachable: "con_reachable with_quit"
proof -
  obtain cx where "con_contexts with_port 0 = Some cx" using context_0(3) by blast
  then have "run_con_call quiet_console (Call_command 0 ''quit'' ''internal'' (Fn_script 0) 0) with_port = Some with_quit"
    by (simp add: with_quit_def cmd_Register_def Let_def)
  from con_reachable.step [OF with_port_reachable _ this] context_0(3) show ?thesis by (simp add: plain_fn_def)
qed

text \<open>What the last of these states holds, evaluated once.\<close>

definition sample_view :: "con_state \<Rightarrow>
    (ctx_ref \<times> string \<times> cvalue \<times> cvalue option) option \<times> u32 \<times> (ctx_ref \<times> string \<times> cvalue \<times> (cvalue \<times> cvalue) option) option \<times> u32 \<times>
    var_ref option \<times> cmd_function list option \<times> cmd_function list option \<times> principal_entry list \<times> (Principal \<times> Principal) list \<times>
    (Object \<times> AccessControlEntry) list" where
  "sample_view st =
     (map_option (\<lambda>v. (cvManager v, cvName v, m_curValue v, m_trackingVar v)) (cvars st 0), GetEntryFlags 0 ''motd'' st,
      map_option (\<lambda>v. (cvManager v, cvName v, m_curValue v, m_constraints v)) (cvars st 1), GetEntryFlags 0 ''port'' st,
      FindEntryRaw 0 ''port'' st,
      map_option (\<lambda>cx. map cmdFunction (multi_get ''quit'' (cmdEntries cx))) (con_contexts st 0),
      map_option (\<lambda>cx. map cmdFunction (multi_get ''seta'' (cmdEntries cx))) (con_contexts st 0),
      g_principalStack (security st), m_principalInheritance (current_context (security st)), m_aces (current_context (security st)))"

lemma with_quit_view: "sample_view with_quit =
    (Some (0, ''motd'', CString ''hi'', None), ConVar_ReadOnly, Some (0, ''port'', CInt 30120, None), ConVar_Archive, Some 1,
     Some [Fn_script 0], Some [Fn_set 0 ConVar_Archive], [Principal_ref admin], [],
     [(Object ''command'', \<lparr>aceObject = Object ''command'', acePrincipal = admin, aceType = Allow\<rparr>),
      (Object ''command.quit'', \<lparr>aceObject = Object ''command.quit'', acePrincipal = admin, aceType = Deny\<rparr>)])"
  by code_simp

lemma with_quit_variables:
  "map_option (\<lambda>v. (cvManager v, cvName v, m_curValue v, m_trackingVar v)) (cvars with_quit 0) = Some (0, ''motd'', CString ''hi'', None)"
  "GetEntryFlags 0 ''motd'' with_quit = ConVar_ReadOnly"
  "map_option (\<lambda>v. (cvManager v, cvName v, m_curValue v, m_constraints v)) (cvars with_quit 1) = Some (0, ''port'', CInt 30120, None)"
  "GetEntryFlags 0 ''port'' with_quit = ConVar_Archive" "FindEntryRaw 0 ''port'' with_quit = Some 1"
  "map_option (\<lambda>cx. map cmdFunction (multi_get ''quit'' (cmdEntries cx))) (con_contexts with_quit 0) = Some [Fn_script 0]"
  "map_option (\<lambda>cx. map cmdFunction (multi_get ''seta'' (cmdEntries cx))) (con_contexts with_quit 0) = Some [Fn_set 0 ConVar_Archive]"
  using with_quit_view unfolding sample_view_def by simp_all

lemma with_quit_security:
  "g_principalStack (security with_quit) = [Principal_ref admin]"
  "m_principalInheritance (current_context (security with_quit)) = []"
  "m_aces (current_context (security with_quit)) =
     [(Object ''command'', \<lparr>aceObject = Object ''command'', acePrincipal = admin, aceType = Allow\<rparr>),
      (Object ''command.quit'', \<lparr>aceObject = Object ''command.quit'', acePrincipal = admin, aceType = Deny\<rparr>)]"
  using with_quit_view unfolding sample_view_def by simp_all

lemma with_quit_admin: "stack_principals (security with_quit) = {admin}" "admin \<in> acts_as (current_context (security with_quit)) admin"
  by (simp_all add: stack_principals_def with_quit_security entry_principals_def)

lemma with_quit_may: "may (security with_quit) ''command.seta''" "\<not> may (security with_quit) ''command.quit''"
proof -
  have cov: "covers (Object ''command'') (Object (''command.'' @ nm))" for nm
  proof -
    have "GetObjectIdentifier (Object (''command.'' @ nm)) = ''command'' @ CHR ''.'' # map ToLower nm" by (simp add: Object_def ToLower_def)
    then show ?thesis unfolding covers_def by blast
  qed
  have no: "\<not> covers (Object ''command.quit'') (Object ''command.seta'')"
    using covers_command [of "''seta''" "Object ''command.quit''"] by (simp add: command_object_def Object_def ToLower_def)
  note m = may_def allowed_def granted_def concerns_def with_quit_security with_quit_admin
  show "may (security with_quit) ''command.seta''" using cov [of "''seta''"] no by (simp add: m)
  show "\<not> may (security with_quit) ''command.quit''" by (simp add: m)
qed

end
