(* ===== verification/EventCore.thy ===== *)
theory EventCore
  imports Prelude
begin

text \<open>
  \<open>client/shared/EventCore.h\<close>: \<open>fwEvent\<close>, a list of callbacks with an order. A callback that returns
  \<open>false\<close> ends the invocation. The template argument of the event is the type of the state that the
  callbacks change; a callback is a value that is run by the function that the invocation is given.
\<close>

subsection \<open>The list of callbacks\<close>

record 'f fw_callback =
  function_of :: 'f
  order :: int
  cookie :: u64

record 'f fwEvent =
  m_callbacks :: "'f fw_callback list"
  m_connectCookie :: u64

definition fwEvent_init :: "'f fwEvent" where
  "fwEvent_init = \<lparr>m_callbacks = [], m_connectCookie = 0\<rparr>"

text \<open>The walk of \<open>ConnectInternal\<close> passes every callback whose order is not larger.\<close>

fun insert_callback :: "'f fw_callback \<Rightarrow> 'f fw_callback list \<Rightarrow> 'f fw_callback list" where
  "insert_callback cb [] = [cb]"
| "insert_callback cb (c # cs) = (if order cb \<ge> order c then c # insert_callback cb cs else cb # c # cs)"

text \<open>An empty \<open>std::function\<close> is \<open>None\<close>.\<close>

definition ConnectInternal :: "'f option \<Rightarrow> int \<Rightarrow> 'f fwEvent \<Rightarrow> u64 \<times> 'f fwEvent" where
  "ConnectInternal func ord e =
     (case func of
        None \<Rightarrow> (- 1, e)
      | Some f \<Rightarrow>
          (m_connectCookie e,
           e\<lparr>m_callbacks := insert_callback \<lparr>function_of = f, order = ord, cookie = m_connectCookie e\<rparr> (m_callbacks e),
             m_connectCookie := m_connectCookie e + 1\<rparr>))"

fun remove_cookie :: "u64 \<Rightarrow> 'f fw_callback list \<Rightarrow> 'f fw_callback list" where
  "remove_cookie k [] = []"
| "remove_cookie k (c # cs) = (if cookie c = k then cs else c # remove_cookie k cs)"

definition Disconnect :: "u64 \<Rightarrow> 'f fwEvent \<Rightarrow> 'f fwEvent" where
  "Disconnect k e = (if k = - 1 then e else e\<lparr>m_callbacks := remove_cookie k (m_callbacks e)\<rparr>)"

definition Reset_event :: "'f fwEvent \<Rightarrow> 'f fwEvent" where
  "Reset_event e = e\<lparr>m_callbacks := []\<rparr>"

text \<open>\<open>operator()\<close>: the callbacks run one after the other until one of them returns \<open>false\<close>.\<close>

fun invoke_all :: "('f \<Rightarrow> 's \<Rightarrow> bool \<times> 's) \<Rightarrow> 'f fw_callback list \<Rightarrow> 's \<Rightarrow> bool \<times> 's" where
  "invoke_all call [] s = (True, s)"
| "invoke_all call (c # cs) s =
     (let (ok, s') = call (function_of c) s in if ok then invoke_all call cs s' else (False, s'))"

definition Invoke_event :: "('f \<Rightarrow> 's \<Rightarrow> bool \<times> 's) \<Rightarrow> 'f fwEvent \<Rightarrow> 's \<Rightarrow> bool \<times> 's" where
  "Invoke_event call e s = invoke_all call (m_callbacks e) s"

text \<open>The callbacks in the order in which they run, for events whose callbacks are connected once.\<close>

definition connected :: "('f \<times> int) list \<Rightarrow> 'f list" where
  "connected fs = map function_of
     (m_callbacks (foldl (\<lambda>e (f, ord). snd (ConnectInternal (Some f) ord e)) fwEvent_init fs))"

subsection \<open>Order\<close>

text \<open>
  An event is in order when the callbacks ascend by order and the cookies are those that were handed out,
  each once.
\<close>

definition event_ok :: "'f fwEvent \<Rightarrow> bool" where
  "event_ok e \<longleftrightarrow> sorted (map order (m_callbacks e)) \<and> distinct (map cookie (m_callbacks e))
     \<and> (\<forall>c\<in>set (m_callbacks e). cookie c < m_connectCookie e)"

lemma set_insert_callback [simp]: "set (insert_callback c cs) = insert c (set cs)"
  by (induction c cs rule: insert_callback.induct) auto

lemma sorted_insert_callback: "sorted (map order cs) \<Longrightarrow> sorted (map order (insert_callback c cs))"
  by (induction c cs rule: insert_callback.induct) (auto simp: Ball_def dest: order_trans)

lemma distinct_insert_callback:
  "cookie c \<notin> cookie ` set cs \<Longrightarrow> distinct (map cookie cs) \<Longrightarrow> distinct (map cookie (insert_callback c cs))"
  by (induction c cs rule: insert_callback.induct) auto

lemma event_ok_init: "event_ok fwEvent_init"
  by (simp add: event_ok_def fwEvent_init_def)

lemma u64_less_Suc: "(k :: u64) \<noteq> - 1 \<Longrightarrow> k < k + 1"
proof -
  assume "k \<noteq> - 1"
  then have "unat k \<noteq> 2 ^ 64 - 1" by (simp add: unsigned_minus_1_eq_mask mask_eq_exp_minus_1 word_unat_eq_iff)
  moreover have "unat k < 2 ^ 64" by (rule unat_u64_less)
  ultimately have "unat k + 1 < 2 ^ 64" by linarith
  then show ?thesis by (simp add: word_less_nat_alt unat_add_u64)
qed

text \<open>The cookie counter does not wrap before \<open>2 ^ 64 - 1\<close> connections, and \<open>-1\<close> is never handed out.\<close>

lemma event_ok_connect:
  assumes "event_ok e" "m_connectCookie e \<noteq> - 1"
  shows "event_ok (snd (ConnectInternal f ord e))"
proof (cases f)
  case (Some g)
  have less: "m_connectCookie e < m_connectCookie e + 1" by (rule u64_less_Suc [OF assms(2)])
  then have "\<forall>c\<in>set (m_callbacks e). cookie c < m_connectCookie e + 1"
    using assms(1) unfolding event_ok_def by (auto dest: less_trans)
  moreover have "m_connectCookie e \<notin> cookie ` set (m_callbacks e)" using assms(1) by (auto simp: event_ok_def)
  ultimately show ?thesis
    using assms(1) Some less by (auto simp: event_ok_def ConnectInternal_def intro!: sorted_insert_callback distinct_insert_callback)
qed (simp add: assms ConnectInternal_def)

lemma remove_cookie_filter: "distinct (map cookie cs) \<Longrightarrow> remove_cookie k cs = filter (\<lambda>c. cookie c \<noteq> k) cs"
  by (induction cs) (auto simp: filter_id_conv image_iff intro!: sym [OF filter_True])

lemma event_ok_disconnect: "event_ok e \<Longrightarrow> event_ok (Disconnect k e)"
  unfolding Disconnect_def event_ok_def
  by (auto simp: remove_cookie_filter distinct_map_filter sorted_filter)

text \<open>Callbacks of the same order run in the order in which they were connected.\<close>

lemma insert_callback_stable:
  "sorted (map order cs) \<Longrightarrow> filter (\<lambda>c. order c = n) (insert_callback cb cs)
    = filter (\<lambda>c. order c = n) cs @ (if order cb = n then [cb] else [])"
proof (induction cb cs rule: insert_callback.induct)
  case (2 cb c cs)
  have "filter (\<lambda>d. order d = order cb) (c # cs) = []" if "order cb < order c"
    using 2(2) that by (force simp: filter_empty_conv)
  then show ?case using 2 by auto
qed simp

lemma remove_insert_callback:
  "cookie c \<notin> cookie ` set cs \<Longrightarrow> remove_cookie (cookie c) (insert_callback c cs) = cs"
  by (induction c cs rule: insert_callback.induct) auto

text \<open>An invocation is the callbacks up to the first that returns \<open>false\<close>.\<close>

lemma invoke_all_append:
  "invoke_all call (cs @ ds) s = (let (ok, s') = invoke_all call cs s in if ok then invoke_all call ds s' else (False, s'))"
  by (induction call cs s rule: invoke_all.induct) (auto split: prod.splits)

end
