(* ===== verification/Resources.thy ===== *)
theory Resources
  imports EventCore StdMap PacketsResource "HOL-Library.Char_ord" "HOL-Library.List_Lexorder"
begin

text \<open>
  The data of the resource system: \<open>citizen-resources-core/src/{ResourceManager,ResourceMetaDataComponent,
  ResourceManagerConstraintsComponent}.cpp\<close> and the part of \<open>citizen-server-impl/src/ServerResources.cpp\<close>
  that decides which resources a game may run. Resources live in a pool that is addressed by references
  (\<open>fwRefContainer\<close>), because a removed resource stays reachable through what it provides. Printing is left
  out. The manager is a single one, so which manager is current is not part of the state.
\<close>

subsection \<open>The state\<close>

datatype ResourceState = Uninitialized | Stopped | Starting | Started | Stopping

type_synonym resource_ref = nat

text \<open>\<open>m_metaDataEntries\<close> is an ascending \<open>std::multimap\<close>.\<close>

record resource =
  m_name :: string
  m_rootPath :: string
  m_state :: ResourceState
  m_metaDataEntries :: "(string \<times> string) list"

text \<open>The \<open>std::variant\<close> of a constraint; a check returns its verdict and the error text it sets, if any.\<close>

datatype constraint =
    ConstraintNumber int
  | ConstraintFlag bool
  | ConstraintText string
  | ConstraintCheck "string \<Rightarrow> bool \<times> string option"

text \<open>An event with the name of the resource that is its argument.\<close>

type_synonym resource_event = "string \<times> string"

text \<open>
  \<open>resourceDependencies\<close> and \<open>resourceDependants\<close> are the two multimaps of \<open>ResourceDependencyLoader.cpp\<close>,
  \<open>triggered\<close> lists the events that were triggered at once, \<open>m_eventQueue\<close> those that wait for a tick,
  \<open>broadcasts\<close> the packets that were sent to all clients. An unordered multimap is a list whose order is
  the one in which its range is enumerated.
\<close>

record resource_world =
  pool :: "resource list"
  m_resources :: "string \<Rightarrow> resource_ref option"
  m_resourceProvides :: "(string \<times> resource_ref) list"
  resourceDependencies :: "(string \<times> string) list"
  resourceDependants :: "(string \<times> string) list"
  m_constraints :: "string \<Rightarrow> constraint option"
  m_enforcingConstraints :: bool
  m_resourcesByComponent :: "string \<Rightarrow> string list"
  configured :: bool
  g_resourceStartOrder :: "string list"
  m_eventQueue :: "resource_event list"
  triggered :: "resource_event list"
  broadcasts :: "u8 list list"

text \<open>A reference that was handed out is in the pool; elsewhere there is an empty resource.\<close>

definition resource_at :: "resource_world \<Rightarrow> resource_ref \<Rightarrow> resource" where
  "resource_at w r =
     (if r < length (pool w) then pool w ! r
      else \<lparr>m_name = [], m_rootPath = [], m_state = Uninitialized, m_metaDataEntries = []\<rparr>)"

definition GetName :: "resource_world \<Rightarrow> resource_ref \<Rightarrow> string" where
  "GetName w r = m_name (resource_at w r)"

definition GetState :: "resource_world \<Rightarrow> resource_ref \<Rightarrow> ResourceState" where
  "GetState w r = m_state (resource_at w r)"

definition GetEntries :: "resource_world \<Rightarrow> resource_ref \<Rightarrow> string \<Rightarrow> string list" where
  "GetEntries w r ckey = multi_get ckey (m_metaDataEntries (resource_at w r))"

definition set_state :: "resource_ref \<Rightarrow> ResourceState \<Rightarrow> resource_world \<Rightarrow> resource_world" where
  "set_state r s w = w\<lparr>pool := (pool w)[r := (resource_at w r)\<lparr>m_state := s\<rparr>]\<rparr>"

subsection \<open>The manager\<close>

text \<open>
  \<open>GetResource\<close>: the resource of the name, or, when there is none or it is stopped, one that provides the
  name; of the providers the first that is started, or just the first when there is no resource of the name.
\<close>

fun first_provider :: "resource_world \<Rightarrow> resource_ref list \<Rightarrow> resource_ref option \<Rightarrow> resource_ref option" where
  "first_provider w [] found = found"
| "first_provider w (p # ps) found =
     (if GetState w p = Started \<or> found = None then Some p else first_provider w ps found)"

definition GetResource :: "resource_world \<Rightarrow> string \<Rightarrow> bool \<Rightarrow> resource_ref option" where
  "GetResource w identifier withProvides =
     (let found = m_resources w identifier in
      if withProvides \<and> (found = None \<or> GetState w (the found) = Stopped)
      then first_provider w (multi_get identifier (m_resourceProvides w)) found
      else found)"

definition CreateResource :: "string \<Rightarrow> resource_world \<Rightarrow> resource_ref \<times> resource_world" where
  "CreateResource name w =
     (let r = length (pool w) in
      (r, w\<lparr>pool := pool w @ [\<lparr>m_name = name, m_rootPath = [], m_state = Uninitialized, m_metaDataEntries = []\<rparr>],
            m_resources := (m_resources w)(name \<mapsto> r)\<rparr>))"

text \<open>
  \<open>LoadFrom\<close>. The loader of manifests is an interface that Lua code implements: what it makes of a path
  is the parameter \<open>loader\<close>, the entries it adds one by one and an error if there is one.
\<close>

definition LoadFrom ::
  "(string \<Rightarrow> (string \<times> string) list \<times> string option) \<Rightarrow> string \<Rightarrow> resource_ref \<Rightarrow> resource_world \<Rightarrow>
     (bool \<times> string option) \<times> resource_world" where
  "LoadFrom loader rootPath r w =
     (if GetState w r \<noteq> Uninitialized then ((True, None), w)
      else
        let (entries, retval) = loader rootPath;
            res = (resource_at w r)\<lparr>m_metaDataEntries := foldl (\<lambda>m (k, v). multi_put k v m) [] entries,
                               m_rootPath := rootPath, m_state := Stopped\<rparr>
        in ((retval = None, retval), w\<lparr>pool := (pool w)[r := res]\<rparr>))"

definition Destroy :: "resource_ref \<Rightarrow> resource_world \<Rightarrow> resource_world" where
  "Destroy r w = set_state r Uninitialized w"

text \<open>\<open>AddResourceWithError\<close>, when the mounter has loaded the resource: what it provides is noted.\<close>

definition note_provides :: "resource_ref \<Rightarrow> resource_world \<Rightarrow> resource_world" where
  "note_provides r w = w\<lparr>m_resourceProvides := m_resourceProvides w @ map (\<lambda>p. (p, r)) (GetEntries w r ''provide'')\<rparr>"

subsection \<open>Constraints\<close>

datatype ConstraintMatchResult = Pass | Fail | NoConstraint

text \<open>
  The characters of \<open>[a-z/0-9_-]\<close>, without case. The colon is not one of them, so an expression matches the
  regular expression in at most one way: it is cut at its first colon.
\<close>

definition constraint_char :: "char \<Rightarrow> bool" where
  "constraint_char c \<longleftrightarrow>
     (let n = of_char c :: nat in
      (97 \<le> n \<and> n \<le> 122) \<or> (65 \<le> n \<and> n \<le> 90) \<or> (48 \<le> n \<and> n \<le> 57)
      \<or> c = CHR ''/'' \<or> c = CHR ''_'' \<or> c = CHR ''-'')"

definition constraint_parts :: "string \<Rightarrow> (string \<times> string) option" where
  "constraint_parts expression =
     (let body = tl expression;
          ckey = takeWhile (\<lambda>c. c \<noteq> CHR '':'') body;
          rest = dropWhile (\<lambda>c. c \<noteq> CHR '':'') body in
      if expression = [] \<or> hd expression \<noteq> CHR ''/'' \<or> ckey = [] \<or> \<not> list_all constraint_char ckey then None
      else if rest = [] then Some (ckey, [])
      else if tl rest \<noteq> [] \<and> list_all constraint_char (tl rest) then Some (ckey, tl rest)
      else None)"

text \<open>
  \<open>atoi\<close> of a text without blanks: the C library reads a \<open>long\<close>, which saturates, and keeps the low
  32 bits.
\<close>

definition atoi :: "string \<Rightarrow> int" where
  "atoi s =
     (let negative = (s \<noteq> [] \<and> hd s = CHR ''-'');
          digits = takeWhile (\<lambda>c. 48 \<le> (of_char c :: nat) \<and> of_char c \<le> (57 :: nat)) (if negative then tl s else s);
          n = foldl (\<lambda>n c. 10 * n + (of_char c - 48)) 0 digits;
          v = (if negative then - n else n) :: int;
          saturated = max (- (2 ^ 63)) (min (2 ^ 63 - 1) v)
      in sint (word_of_int saturated :: 32 word))"

text \<open>\<open>MatchConstraint\<close>, with the error that it stores.\<close>

definition constraint_fail :: "resource_world \<Rightarrow> string \<Rightarrow> ConstraintMatchResult \<times> string option" where
  "constraint_fail w message = (if m_enforcingConstraints w then Fail else Pass, Some message)"

definition check_error :: "string option \<Rightarrow> string" where
  "check_error e = (case e of None \<Rightarrow> ''no details specified'' | Some t \<Rightarrow> t)"

fun match_bare :: "resource_world \<Rightarrow> string \<Rightarrow> constraint \<Rightarrow> ConstraintMatchResult \<times> string option" where
  "match_bare w ckey (ConstraintFlag b) = (if b then (Pass, None) else constraint_fail w (ckey @ '' isn'' @ [CHR 0x27] @ ''t enabled''))"
| "match_bare w ckey (ConstraintCheck f) =
     (let (ok, e) = f [] in if ok then (Pass, None) else constraint_fail w (ckey @ '': ^1'' @ check_error e @ ''^7''))"
| "match_bare w ckey _ = (Pass, None)"

fun match_value :: "resource_world \<Rightarrow> string \<Rightarrow> string \<Rightarrow> constraint \<Rightarrow> ConstraintMatchResult \<times> string option" where
  "match_value w ckey value (ConstraintNumber n) =
     (if n < atoi value then constraint_fail w (ckey @ '' needs to be '' @ show_int (atoi value) @ '' or higher'') else (Pass, None))"
| "match_value w ckey value (ConstraintFlag b) =
     (if b \<and> value = ''false'' then constraint_fail w (ckey @ '' needs to be disabled'')
      else if \<not> b \<and> value = ''true'' then constraint_fail w (ckey @ '' needs to be enabled'')
      else if value \<noteq> ''true'' \<and> value \<noteq> ''false'' then constraint_fail w (value @ '' isn'' @ [CHR 0x27] @ ''t a boolean'')
      else (Pass, None))"
| "match_value w ckey value (ConstraintText t) =
     (if t \<noteq> value then constraint_fail w (ckey @ '' needs to be '' @ t) else (Pass, None))"
| "match_value w ckey value (ConstraintCheck f) =
     (let (ok, e) = f value in
      if ok then (Pass, None) else constraint_fail w (ckey @ ''('' @ value @ ''): ^1'' @ check_error e @ ''^7''))"

definition MatchConstraint :: "resource_world \<Rightarrow> string \<Rightarrow> ConstraintMatchResult \<times> string option" where
  "MatchConstraint w expression =
     (if expression = [] \<or> hd expression \<noteq> CHR ''/'' then (NoConstraint, None)
      else case constraint_parts expression of
        None \<Rightarrow> constraint_fail w ''constraint syntax error''
      | Some (ckey, value) \<Rightarrow>
          (case m_constraints w ckey of
             None \<Rightarrow> constraint_fail w (''constraint '' @ [CHR 0x27] @ ckey @ [CHR 0x27] @ '' is unknown'')
           | Some c \<Rightarrow> if value = [] then match_bare w ckey c else match_value w ckey value c))"

definition RegisterConstraint :: "string \<Rightarrow> constraint \<Rightarrow> resource_world \<Rightarrow> resource_world" where
  "RegisterConstraint ckey value w = w\<lparr>m_constraints := (m_constraints w)(ckey \<mapsto> value)\<rparr>"

definition SetEnforcingConstraints :: "bool \<Rightarrow> resource_world \<Rightarrow> resource_world" where
  "SetEnforcingConstraints enabled w = w\<lparr>m_enforcingConstraints := enabled\<rparr>"

subsection \<open>Manifest versions\<close>

definition g_manifestVersionOrderV2 :: "string list" where
  "g_manifestVersionOrderV2 = ['''', ''adamant'', ''bodacious'', ''cerulean'']"

fun find_index :: "'a list \<Rightarrow> 'a \<Rightarrow> nat option" where
  "find_index [] x = None"
| "find_index (y # ys) x = (if y = x then Some 0 else map_option Suc (find_index ys x))"

text \<open>A version that is not found has the index \<open>-1\<close> of type \<open>size_t\<close>.\<close>

definition FindManifestVersionIndex :: "string list \<Rightarrow> string \<Rightarrow> u64" where
  "FindManifestVersionIndex versions v = (case find_index versions v of None \<Rightarrow> - 1 | Some n \<Rightarrow> of_nat n)"

definition IsManifestVersionBetween :: "resource_world \<Rightarrow> resource_ref \<Rightarrow> string \<Rightarrow> string \<Rightarrow> bool option" where
  "IsManifestVersionBetween w r lowerBound upperBound =
     (let entries = GetEntries w r ''fx_version'';
          manifestVersion = (if entries = [] then [] else hd entries);
          index = FindManifestVersionIndex g_manifestVersionOrderV2;
          resourceVersion = index manifestVersion in
      if resourceVersion = - 1 then None
      else
        let matches = \<not> (lowerBound \<noteq> [] \<and> resourceVersion < index lowerBound)
        in Some (matches \<and> \<not> (upperBound \<noteq> [] \<and> resourceVersion \<ge> index upperBound)))"

subsection \<open>Which resources the game of the server may run\<close>

datatype GameName = GTA4 | GTA5 | RDR3

fun gameNameString :: "GameName \<Rightarrow> string" where
  "gameNameString GTA4 = ''gta4''"
| "gameNameString GTA5 = ''gta5''"
| "gameNameString RDR3 = ''rdr3''"

definition rdr3_warningString :: string where
  "rdr3_warningString = ''I acknowledge that this is a prerelease build of RedM, and I am aware my resources *will* become incompatible once RedM ships.''"

text \<open>
  The callback of \<open>OnStart\<close> with the lowest order. It reads the result of \<open>IsManifestVersionBetween\<close> without
  asking whether there is one: for an unknown \<open>fx_version\<close> the value is the indeterminate \<open>ind\<close>.
\<close>

definition game_allows :: "GameName \<Rightarrow> bool \<Rightarrow> resource_world \<Rightarrow> resource_ref \<Rightarrow> bool" where
  "game_allows game ind w r =
     (let games = set (GetEntries w r ''game'');
          name = gameNameString game;
          isCommon = ''common'' \<in> games;
          isGame = name \<in> games;
          between = (case IsManifestVersionBetween w r ''adamant'' [] of None \<Rightarrow> ind | Some b \<Rightarrow> b);
          warningEntries = GetEntries w r ''rdr3_warning'' in
      if GetEntries w r ''is_cfxv2'' \<noteq> [] then
        \<not> (isCommon \<and> isGame) \<and> (isCommon \<or> isGame) \<and> between
        \<and> \<not> (isGame \<and> name = ''rdr3'' \<and> (warningEntries = [] \<or> hd warningEntries \<noteq> rdr3_warningString))
      else name = ''gta5'')"

subsection \<open>Messages to the clients\<close>

text \<open>
  The packets that tell the clients of a start and a stop, written into a buffer of \<open>4 + name.size()\<close>
  bytes of which what was written is sent.
\<close>

definition name_bytes :: "string \<Rightarrow> u8 list" where
  "name_bytes s = map of_char s"

definition written_bytes :: "'p proc \<Rightarrow> 'p \<Rightarrow> nat \<Rightarrow> u8 list" where
  "written_bytes process p n =
     (case process p (Writer (ByteWriter_make (replicate n 0) (of_nat n))) of
        (_, _, Writer wr) \<Rightarrow> take (unat (woffset wr)) (wdata wr)
      | _ \<Rightarrow> [])"

definition resource_start_packet :: "string \<Rightarrow> u8 list" where
  "resource_start_packet name = written_bytes ServerResourceStartPacket_Process
     (ServerResourceStartPacket_init\<lparr>pdata := ServerResourceStart.make (name_bytes name)\<rparr>) (4 + length name)"

definition resource_stop_packet :: "string \<Rightarrow> u8 list" where
  "resource_stop_packet name = written_bytes ServerResourceStopPacket_Process
     (ServerResourceStopPacket_init\<lparr>pdata := ServerResourceStop.make (name_bytes name)\<rparr>) (4 + length name)"

end
