(* ===== verification/ResourceRun.thy ===== *)
theory ResourceRun
  imports Resources
begin

text \<open>
  Starting and stopping: \<open>citizen-resources-core/src/{Resource,ResourceDependencyLoader}.cpp\<close>, the
  lifecycle events of \<open>ResourceEventComponent.cpp\<close>, and of \<open>citizen-server-impl/src/ServerResources.cpp\<close>
  the callbacks, the console commands and the natives. A start runs the callbacks of \<open>OnBeforeStart\<close> and
  \<open>OnStart\<close>, which start other resources, run scripts and so on: all of it is one recursion, over the
  datatype \<open>call\<close> of what is being executed. \<open>None\<close> is a recursion that does not end.
\<close>

subsection \<open>What is outside\<close>

text \<open>
  Event handlers, the build system and the script runtimes are code that is not here. A \<open>hook\<close> is a
  place where such code runs. It may call back into the resource system: what it does is a list of acts
  and, where the caller asks, a verdict, which for an event is whether it was not cancelled.
\<close>

datatype hook = EventHook string | TriggerBuild | ScriptsStart | ScriptsStop

datatype act = START_RESOURCE string | STOP_RESOURCE string string | ExecuteCommand string string

text \<open>
  \<open>may_execute\<close> is the access check of the console for the principal on whose behalf a command is executed.
\<close>

record resource_env =
  outside :: "resource_world \<Rightarrow> hook \<Rightarrow> string \<Rightarrow> act list \<times> bool"
  may_execute :: "resource_world \<Rightarrow> string \<Rightarrow> bool"
  game :: GameName
  indeterminate :: bool

subsection \<open>The callbacks of a resource\<close>

text \<open>
  The callbacks that are connected when a resource is created, with their orders. Those of the script
  runtimes, the stream and file components and the HTTP handler are one callback \<open>StartComponents\<close> (and
  \<open>StopComponents\<close>), since only scripts touch the state that is modelled; among the callbacks of order 0 the
  order of connection makes no difference to it.
\<close>

datatype lifecycle_callback =
    BeforeEvent | BeforeDependencies | BeforeBuild
  | StartFilter | StartQueue | StartComponents | StartEvent | StartDependants | StartAnnounce
  | StopDependants | StopEvent | StopAnnounce | StopQueue | StopComponents

definition INT32_MIN :: int where "INT32_MIN = - (2 ^ 31)"

definition OnBeforeStart :: "lifecycle_callback list" where
  "OnBeforeStart = connected [(BeforeBuild, 1000), (BeforeDependencies, - 9999), (BeforeEvent, - 10000)]"

definition OnStart :: "lifecycle_callback list" where
  "OnStart = connected [(StartDependants, 9999999), (StartQueue, 0), (StartEvent, 99999), (StartComponents, 0),
     (StartFilter, INT32_MIN), (StartAnnounce, 99999999)]"

definition OnStop :: "lifecycle_callback list" where
  "OnStop = connected [(StopDependants, INT32_MIN), (StopQueue, 0), (StopEvent, - 99999), (StopComponents, 0),
     (StopAnnounce, - 1000)]"

lemma callback_lists:
  "OnBeforeStart = [BeforeEvent, BeforeDependencies, BeforeBuild]"
  "OnStart = [StartFilter, StartQueue, StartComponents, StartEvent, StartDependants, StartAnnounce]"
  "OnStop = [StopDependants, StopEvent, StopAnnounce, StopQueue, StopComponents]"
  by (simp_all add: OnBeforeStart_def OnStart_def OnStop_def connected_def ConnectInternal_def fwEvent_init_def INT32_MIN_def)

subsection \<open>The steps of the callbacks\<close>

text \<open>The names that wait for a resource or depend on it: the range of the multimap, copied to a set.\<close>

definition waiting :: "(string \<times> string) list \<Rightarrow> string \<Rightarrow> string list" where
  "waiting m name = std_set (multi_get name m)"

definition erase_key :: "string \<Rightarrow> (string \<times> string) list \<Rightarrow> (string \<times> string) list" where
  "erase_key name m = filter (\<lambda>(k, _). k \<noteq> name) m"

definition add_dependant :: "resource_ref \<Rightarrow> resource_ref \<Rightarrow> resource_world \<Rightarrow> resource_world" where
  "add_dependant other r w = w\<lparr>resourceDependants := multi_put (GetName w other) (GetName w r) (resourceDependants w)\<rparr>"

definition add_dependency :: "resource_ref \<Rightarrow> resource_ref \<Rightarrow> resource_world \<Rightarrow> resource_world" where
  "add_dependency other r w = w\<lparr>resourceDependencies := multi_put (GetName w other) (GetName w r) (resourceDependencies w)\<rparr>"

definition clear_waiting :: "resource_ref \<Rightarrow> resource_world \<Rightarrow> resource_world" where
  "clear_waiting r w = w\<lparr>resourceDependencies := erase_key (GetName w r) (resourceDependencies w)\<rparr>"

definition clear_dependants :: "resource_ref \<Rightarrow> resource_world \<Rightarrow> resource_world" where
  "clear_dependants r w = w\<lparr>resourceDependants := erase_key (GetName w r) (resourceDependants w)\<rparr>"

definition trigger :: "string \<Rightarrow> resource_ref \<Rightarrow> resource_world \<Rightarrow> resource_world" where
  "trigger ev r w = w\<lparr>triggered := triggered w @ [(ev, GetName w r)]\<rparr>"

definition QueueResourceEvent :: "string \<Rightarrow> resource_ref \<Rightarrow> resource_world \<Rightarrow> resource_world" where
  "QueueResourceEvent ev r w = w\<lparr>m_eventQueue := m_eventQueue w @ [(ev, GetName w r)]\<rparr>"

text \<open>The resource is announced to the clients, unless it is for the server only.\<close>

definition announce_start :: "resource_ref \<Rightarrow> resource_world \<Rightarrow> resource_world" where
  "announce_start r w =
     (if GetEntries w r ''server_only'' \<noteq> [] then w
      else w\<lparr>g_resourceStartOrder := g_resourceStartOrder w @ [GetName w r],
             broadcasts := broadcasts w @ [resource_start_packet (GetName w r)]\<rparr>)"

definition announce_stop :: "resource_ref \<Rightarrow> resource_world \<Rightarrow> resource_world" where
  "announce_stop r w =
     (if GetEntries w r ''server_only'' \<noteq> [] then w
      else w\<lparr>g_resourceStartOrder := filter (\<lambda>n. n \<noteq> GetName w r) (g_resourceStartOrder w),
             broadcasts := broadcasts w @ [resource_stop_packet (GetName w r)]\<rparr>)"

text \<open>After a failure, \<open>m_state\<close> is stopped unless something has started the resource meanwhile.\<close>

definition give_up :: "resource_ref \<Rightarrow> resource_world \<Rightarrow> resource_world" where
  "give_up r w = (if GetState w r \<noteq> Started then set_state r Stopped w else w)"

definition g_managedResources :: "string set" where
  "g_managedResources = {''spawnmanager'', ''mapmanager'', ''baseevents'', ''chat'', ''sessionmanager'', ''monitor''}"

definition isCategory :: "string \<Rightarrow> bool" where
  "isCategory name \<longleftrightarrow> name \<noteq> [] \<and> hd name = CHR ''['' \<and> last name = CHR '']''"

subsection \<open>Execution\<close>

text \<open>
  \<open>LaunchCall\<close> is the part of \<open>Start\<close> behind the starting stage. \<open>DependenciesCall\<close> is the loop \<open>loadDeps\<close> over
  both lists of entries: its flag is \<open>success\<close>, which a failed constraint clears while the loop goes on.
\<close>

datatype call =
    StartCall resource_ref
  | LaunchCall resource_ref
  | StopCall resource_ref
  | FireCall "lifecycle_callback list" resource_ref
  | CallbackCall lifecycle_callback resource_ref
  | DependenciesCall resource_ref "string list" bool
  | StartNamesCall "string list"
  | StopNamesCall resource_ref "string list"
  | ActsCall "act list"
  | CommandCall string string
  | EachCall string "string list"
  | EnsureCall string
  | EnsureEachCall "string list"

text \<open>
  Every operation is a definition over \<open>exec\<close>, the execution of the calls that it makes.
\<close>

type_synonym exec = "call \<Rightarrow> resource_world \<Rightarrow> (bool \<times> resource_world) option"

definition Resource_Start :: "exec \<Rightarrow> resource_ref \<Rightarrow> resource_world \<Rightarrow> (bool \<times> resource_world) option" where
  "Resource_Start exec r w =
     (if GetState w r = Started then Some (True, set_state r Started w)
      else if GetState w r = Starting then exec (LaunchCall r) w
      else Option.bind (exec (FireCall OnBeforeStart r) (set_state r Starting w))
             (\<lambda>(ok, w). if ok then exec (LaunchCall r) w else Some (False, give_up r w)))"

definition Resource_Launch :: "exec \<Rightarrow> resource_ref \<Rightarrow> resource_world \<Rightarrow> (bool \<times> resource_world) option" where
  "Resource_Launch exec r w =
     Option.bind (exec (FireCall OnStart r) w)
       (\<lambda>(ok, w). if ok then Some (True, set_state r Started w) else Some (False, give_up r w))"

definition Resource_Stop :: "exec \<Rightarrow> resource_ref \<Rightarrow> resource_world \<Rightarrow> (bool \<times> resource_world) option" where
  "Resource_Stop exec r w =
     (if GetState w r = Stopped then Some (True, w)
      else Option.bind (exec (FireCall OnStop r) w)
             (\<lambda>(ok, w). if ok then Some (True, set_state r Stopped w) else Some (False, w)))"

fun fire :: "exec \<Rightarrow> lifecycle_callback list \<Rightarrow> resource_ref \<Rightarrow> resource_world \<Rightarrow> (bool \<times> resource_world) option" where
  "fire exec [] r w = Some (True, w)"
| "fire exec (cb # cbs) r w =
     Option.bind (exec (CallbackCall cb r) w) (\<lambda>(ok, w). if ok then exec (FireCall cbs r) w else Some (False, w))"

text \<open>Outside code runs at a hook; \<open>keep\<close> says whether the caller asks for the verdict.\<close>

definition run_outside ::
  "resource_env \<Rightarrow> exec \<Rightarrow> bool \<Rightarrow> hook \<Rightarrow> resource_ref \<Rightarrow> resource_world \<Rightarrow> (bool \<times> resource_world) option" where
  "run_outside E exec keep h r w =
     Option.bind (exec (ActsCall (fst (outside E w h (GetName w r)))) w)
       (\<lambda>(_, w'). Some (keep \<longrightarrow> snd (outside E w h (GetName w r)), w'))"

definition trigger_event ::
  "resource_env \<Rightarrow> exec \<Rightarrow> bool \<Rightarrow> string \<Rightarrow> resource_ref \<Rightarrow> resource_world \<Rightarrow> (bool \<times> resource_world) option" where
  "trigger_event E exec keep ev r w = run_outside E exec keep (EventHook ev) r (trigger ev r w)"

text \<open>
  \<open>loadDeps("dependency") && loadDeps("dependencie")\<close>, the loop over the entries of both types.
\<close>

definition load_all_deps :: "exec \<Rightarrow> resource_ref \<Rightarrow> resource_world \<Rightarrow> (bool \<times> resource_world) option" where
  "load_all_deps exec r w =
     exec (DependenciesCall r (GetEntries w r ''dependency'' @ GetEntries w r ''dependencie'') True) w"

fun loadDeps :: "exec \<Rightarrow> resource_ref \<Rightarrow> string list \<Rightarrow> bool \<Rightarrow> resource_world \<Rightarrow> (bool \<times> resource_world) option" where
  "loadDeps exec r [] success w = Some (success, w)"
| "loadDeps exec r (d # deps) success w =
     (case fst (MatchConstraint w d) of
        Fail \<Rightarrow> exec (DependenciesCall r deps False) w
      | Pass \<Rightarrow> exec (DependenciesCall r deps success) w
      | NoConstraint \<Rightarrow>
          (case GetResource w d True of
             None \<Rightarrow> Some (False, w)
           | Some other \<Rightarrow>
               if GetState w other = Starting \<or> GetState w other = Started
               then exec (DependenciesCall r deps success) (add_dependant other r w)
               else Option.bind (exec (StartCall other) (add_dependant other r w))
                      (\<lambda>(ok, w). if ok then exec (DependenciesCall r deps success) w
                                 else Some (False, add_dependency other r w))))"

definition start_dependants :: "exec \<Rightarrow> resource_ref \<Rightarrow> resource_world \<Rightarrow> (bool \<times> resource_world) option" where
  "start_dependants exec r w =
     Option.bind (exec (StartNamesCall (waiting (resourceDependencies w) (GetName w r))) w)
       (\<lambda>(_, w). Some (True, clear_waiting r w))"

fun start_names :: "exec \<Rightarrow> string list \<Rightarrow> resource_world \<Rightarrow> (bool \<times> resource_world) option" where
  "start_names exec [] w = Some (True, w)"
| "start_names exec (n # names) w =
     (case GetResource w n True of
        None \<Rightarrow> exec (StartNamesCall names) w
      | Some q \<Rightarrow> Option.bind (exec (StartCall q) w) (\<lambda>(_, w). exec (StartNamesCall names) w))"

definition stop_dependants :: "exec \<Rightarrow> resource_ref \<Rightarrow> resource_world \<Rightarrow> (bool \<times> resource_world) option" where
  "stop_dependants exec r w =
     Option.bind (exec (StopNamesCall r (waiting (resourceDependants w) (GetName w r))) w)
       (\<lambda>(_, w). Some (True, clear_dependants r w))"

fun stop_names :: "exec \<Rightarrow> resource_ref \<Rightarrow> string list \<Rightarrow> resource_world \<Rightarrow> (bool \<times> resource_world) option" where
  "stop_names exec r [] w = Some (True, w)"
| "stop_names exec r (n # names) w =
     (case GetResource w n True of
        None \<Rightarrow> exec (StopNamesCall r names) w
      | Some q \<Rightarrow>
          if GetName w q \<noteq> GetName w r
          then Option.bind (exec (StopCall q) w) (\<lambda>(_, w). exec (StopNamesCall r names) w)
          else exec (StopNamesCall r names) w)"

fun run_callback :: "resource_env \<Rightarrow> exec \<Rightarrow> lifecycle_callback \<Rightarrow> resource_ref \<Rightarrow> resource_world \<Rightarrow> (bool \<times> resource_world) option" where
  "run_callback E exec BeforeEvent r w = trigger_event E exec True ''onResourceStarting'' r w"
| "run_callback E exec BeforeDependencies r w = load_all_deps exec r w"
| "run_callback E exec BeforeBuild r w = run_outside E exec True TriggerBuild r w"
| "run_callback E exec StartFilter r w = Some (game_allows (game E) (indeterminate E) w r, w)"
| "run_callback E exec StartQueue r w = Some (True, QueueResourceEvent ''onServerResourceStart'' r w)"
| "run_callback E exec StartComponents r w = run_outside E exec False ScriptsStart r w"
| "run_callback E exec StartEvent r w = trigger_event E exec False ''onResourceStart'' r w"
| "run_callback E exec StartDependants r w = start_dependants exec r w"
| "run_callback E exec StartAnnounce r w = Some (True, announce_start r w)"
| "run_callback E exec StopDependants r w = stop_dependants exec r w"
| "run_callback E exec StopEvent r w = trigger_event E exec False ''onResourceStop'' r w"
| "run_callback E exec StopAnnounce r w = Some (True, announce_stop r w)"
| "run_callback E exec StopQueue r w = Some (True, QueueResourceEvent ''onServerResourceStop'' r w)"
| "run_callback E exec StopComponents r w = run_outside E exec False ScriptsStop r w"

text \<open>
  The natives \<open>START_RESOURCE\<close>, \<open>STOP_RESOURCE\<close> (of a script of the resource \<open>current\<close>) and the execution of a
  console command.
\<close>

definition StartResource_native :: "exec \<Rightarrow> string \<Rightarrow> resource_world \<Rightarrow> (bool \<times> resource_world) option" where
  "StartResource_native exec n w =
     (case GetResource w n True of None \<Rightarrow> Some (False, w) | Some q \<Rightarrow> exec (StartCall q) w)"

definition StopResource_native :: "exec \<Rightarrow> string \<Rightarrow> string \<Rightarrow> resource_world \<Rightarrow> (bool \<times> resource_world) option" where
  "StopResource_native exec current n w =
     (case GetResource w n True of
        None \<Rightarrow> Some (False, w)
      | Some q \<Rightarrow>
          if GetName w q \<in> g_managedResources \<or> GetName w q = current then Some (False, w) else exec (StopCall q) w)"

fun perform :: "exec \<Rightarrow> act \<Rightarrow> resource_world \<Rightarrow> (bool \<times> resource_world) option" where
  "perform exec (START_RESOURCE n) w = StartResource_native exec n w"
| "perform exec (STOP_RESOURCE current n) w = StopResource_native exec current n w"
| "perform exec (ExecuteCommand cmd n) w = exec (CommandCall cmd n) w"

fun run_acts :: "exec \<Rightarrow> act list \<Rightarrow> resource_world \<Rightarrow> (bool \<times> resource_world) option" where
  "run_acts exec [] w = Some (True, w)"
| "run_acts exec (a # acts) w = Option.bind (perform exec a w) (\<lambda>(_, w). exec (ActsCall acts) w)"

subsection \<open>The console commands\<close>

text \<open>
  The flag that a command returns is not part of the code; it says whether the command got as far as its
  operation, and is its result there.
\<close>

definition start_command :: "exec \<Rightarrow> string \<Rightarrow> resource_world \<Rightarrow> (bool \<times> resource_world) option" where
  "start_command exec n w =
     (if n = [] then Some (False, w)
      else if isCategory n then exec (EachCall ''start'' (m_resourcesByComponent w n)) w
      else case GetResource w n True of None \<Rightarrow> Some (False, w) | Some r \<Rightarrow> exec (StartCall r) w)"

definition stop_command :: "exec \<Rightarrow> string \<Rightarrow> resource_world \<Rightarrow> (bool \<times> resource_world) option" where
  "stop_command exec n w =
     (if n = [] then Some (False, w)
      else if isCategory n then exec (EachCall ''stop'' (m_resourcesByComponent w n)) w
      else case GetResource w n True of None \<Rightarrow> Some (False, w) | Some r \<Rightarrow> exec (StopCall r) w)"

definition restart_command :: "exec \<Rightarrow> string \<Rightarrow> resource_world \<Rightarrow> (bool \<times> resource_world) option" where
  "restart_command exec n w =
     (case GetResource w n True of
        None \<Rightarrow> Some (False, w)
      | Some r \<Rightarrow>
          if GetState w r \<noteq> Started then Some (False, w)
          else Option.bind (exec (CommandCall ''stop'' n) w) (\<lambda>(_, w). exec (CommandCall ''start'' n) w))"

definition doEnsure :: "exec \<Rightarrow> string \<Rightarrow> resource_world \<Rightarrow> (bool \<times> resource_world) option" where
  "doEnsure exec n w =
     (case GetResource w n True of
        None \<Rightarrow> Some (False, w)
      | Some r \<Rightarrow>
          Option.bind (if configured w \<and> GetState w r = Started then exec (CommandCall ''stop'' n) w else Some (True, w))
            (\<lambda>(_, w). Option.bind (exec (CommandCall ''start'' n) w) (\<lambda>(_, w). Some (True, w))))"

definition ensure_command :: "exec \<Rightarrow> string \<Rightarrow> resource_world \<Rightarrow> (bool \<times> resource_world) option" where
  "ensure_command exec n w =
     (if isCategory n then exec (EnsureEachCall (m_resourcesByComponent w n)) w else exec (EnsureCall n) w)"

text \<open>\<open>ExecuteSingleCommandDirect\<close>, for the commands of the resource system.\<close>

definition command :: "resource_env \<Rightarrow> exec \<Rightarrow> string \<Rightarrow> string \<Rightarrow> resource_world \<Rightarrow> (bool \<times> resource_world) option" where
  "command E exec cmd n w =
     (if \<not> may_execute E w cmd then Some (False, w)
      else if cmd = ''start'' then start_command exec n w
      else if cmd = ''stop'' then stop_command exec n w
      else if cmd = ''restart'' then restart_command exec n w
      else if cmd = ''ensure'' then ensure_command exec n w
      else Some (False, w))"

fun each_command :: "exec \<Rightarrow> string \<Rightarrow> string list \<Rightarrow> resource_world \<Rightarrow> (bool \<times> resource_world) option" where
  "each_command exec cmd [] w = Some (True, w)"
| "each_command exec cmd (n # names) w =
     Option.bind (exec (CommandCall cmd n) w) (\<lambda>(_, w). exec (EachCall cmd names) w)"

fun ensure_each :: "exec \<Rightarrow> string list \<Rightarrow> resource_world \<Rightarrow> (bool \<times> resource_world) option" where
  "ensure_each exec [] w = Some (True, w)"
| "ensure_each exec (n # names) w =
     Option.bind (exec (EnsureCall n) w) (\<lambda>(ok, w). if ok then exec (EnsureEachCall names) w else Some (False, w))"

subsection \<open>The recursion\<close>

fun step :: "resource_env \<Rightarrow> exec \<Rightarrow> exec" where
  "step E exec (StartCall r) w = Resource_Start exec r w"
| "step E exec (LaunchCall r) w = Resource_Launch exec r w"
| "step E exec (StopCall r) w = Resource_Stop exec r w"
| "step E exec (FireCall cbs r) w = fire exec cbs r w"
| "step E exec (CallbackCall cb r) w = run_callback E exec cb r w"
| "step E exec (DependenciesCall r deps success) w = loadDeps exec r deps success w"
| "step E exec (StartNamesCall names) w = start_names exec names w"
| "step E exec (StopNamesCall r names) w = stop_names exec r names w"
| "step E exec (ActsCall acts) w = run_acts exec acts w"
| "step E exec (CommandCall cmd n) w = command E exec cmd n w"
| "step E exec (EachCall cmd names) w = each_command exec cmd names w"
| "step E exec (EnsureCall n) w = doEnsure exec n w"
| "step E exec (EnsureEachCall names) w = ensure_each exec names w"

lemmas step_defs = Resource_Start_def Resource_Launch_def Resource_Stop_def run_outside_def trigger_event_def
  load_all_deps_def start_dependants_def stop_dependants_def StartResource_native_def StopResource_native_def
  start_command_def stop_command_def restart_command_def doEnsure_def ensure_command_def command_def

lemma case_option_mono:
  "mono_option N \<Longrightarrow> (\<And>x. mono_option (\<lambda>f. S f x)) \<Longrightarrow> mono_option (\<lambda>f. case v of None \<Rightarrow> N f | Some x \<Rightarrow> S f x)"
  by (cases v) auto

lemma case_match_mono:
  "mono_option P \<Longrightarrow> mono_option F \<Longrightarrow> mono_option N
   \<Longrightarrow> mono_option (\<lambda>f. case v of Pass \<Rightarrow> P f | Fail \<Rightarrow> F f | NoConstraint \<Rightarrow> N f)"
  by (cases v) auto

lemma case_result_mono: "(\<And>b w. mono_option (\<lambda>f. S f b w)) \<Longrightarrow> mono_option (\<lambda>f. case v of (b, w) \<Rightarrow> S f b w)"
  by (cases v) auto

lemmas call_monos = partial_function_mono case_option_mono case_match_mono case_result_mono

lemma step_mono [partial_function_mono]:
  assumes "\<And>c w. mono_option (\<lambda>f. B f c w)"
  shows "mono_option (\<lambda>f. step E (B f) c w)"
proof (cases c)
  case (FireCall cbs r)
  then show ?thesis by (cases cbs) (auto intro!: call_monos assms)
next
  case (CallbackCall cb r)
  then show ?thesis by (cases cb) (auto simp: step_defs intro!: call_monos assms)
next
  case (DependenciesCall r deps s)
  then show ?thesis by (cases deps) (auto intro!: call_monos assms)
next
  case (StartNamesCall names)
  then show ?thesis by (cases names) (auto intro!: call_monos assms)
next
  case (StopNamesCall r names)
  then show ?thesis by (cases names) (auto intro!: call_monos assms)
next
  case (ActsCall acts)
  have "mono_option (\<lambda>f. perform (B f) a w)" for a
    by (cases a) (auto simp: step_defs intro!: call_monos assms)
  then show ?thesis using ActsCall by (cases acts) (auto intro!: call_monos assms)
next
  case (EachCall cmd names)
  then show ?thesis by (cases names) (auto intro!: call_monos assms)
next
  case (EnsureEachCall names)
  then show ?thesis by (cases names) (auto intro!: call_monos assms)
qed (auto simp: step_defs intro!: call_monos assms)

partial_function (option) run :: "resource_env \<Rightarrow> call \<Rightarrow> resource_world \<Rightarrow> (bool \<times> resource_world) option" where
  "run E c w = step E (run E) c w"

declare run.simps [simp del]

end
