(* ===== verification/ResourceLaws.thy ===== *)
theory ResourceLaws
  imports ResourceRun
begin

text \<open>
  What every execution of the resource system keeps, whatever outside code does: the registry, the names
  and manifests (\<open>frame\<close>), the life cycle of a resource, the packets that the clients get. The preorders
  that all operations respect are a locale, \<open>run_preorder\<close>.
\<close>

subsection \<open>What the updates change\<close>

text \<open>The part of the state that starts and stops leave alone.\<close>

definition same_frame :: "resource_world \<Rightarrow> resource_world \<Rightarrow> bool" where
  "same_frame w v \<longleftrightarrow> length (pool v) = length (pool w) \<and> (\<forall>r. GetName v r = GetName w r)
     \<and> (\<forall>r k. GetEntries v r k = GetEntries w r k) \<and> m_resources v = m_resources w
     \<and> m_resourceProvides v = m_resourceProvides w \<and> m_constraints v = m_constraints w
     \<and> m_enforcingConstraints v = m_enforcingConstraints w \<and> m_resourcesByComponent v = m_resourcesByComponent w
     \<and> configured v = configured w"

lemma same_frame_refl [simp, intro]: "same_frame w w"
  by (simp add: same_frame_def)

lemma same_frame_trans [trans]: "same_frame u v \<Longrightarrow> same_frame v w \<Longrightarrow> same_frame u w"
  by (simp add: same_frame_def)

lemma same_frameD:
  assumes "same_frame w v"
  shows "length (pool v) = length (pool w)" "GetName v r = GetName w r" "GetEntries v r k = GetEntries w r k"
    "m_resources v = m_resources w" "m_resourceProvides v = m_resourceProvides w"
  using assms by (simp_all add: same_frame_def)

lemma resource_at_set_state:
  "resource_at (set_state r s w) q =
     (if q = r \<and> r < length (pool w) then (resource_at w r)\<lparr>m_state := s\<rparr> else resource_at w q)"
  by (auto simp: resource_at_def set_state_def)

lemma set_state_simps [simp]:
  "GetName (set_state r s w) q = GetName w q" "GetEntries (set_state r s w) q k = GetEntries w q k"
  "length (pool (set_state r s w)) = length (pool w)"
  by (simp_all add: GetName_def GetEntries_def resource_at_set_state) (simp add: set_state_def)

lemma GetState_set_state:
  "GetState (set_state r s w) q = (if q = r \<and> r < length (pool w) then s else GetState w q)"
  by (simp add: GetState_def resource_at_set_state)

lemma set_state_fields [simp]:
  "m_resources (set_state r s w) = m_resources w" "m_resourceProvides (set_state r s w) = m_resourceProvides w"
  "resourceDependencies (set_state r s w) = resourceDependencies w"
  "resourceDependants (set_state r s w) = resourceDependants w" "m_constraints (set_state r s w) = m_constraints w"
  "m_enforcingConstraints (set_state r s w) = m_enforcingConstraints w"
  "m_resourcesByComponent (set_state r s w) = m_resourcesByComponent w" "configured (set_state r s w) = configured w"
  "g_resourceStartOrder (set_state r s w) = g_resourceStartOrder w" "m_eventQueue (set_state r s w) = m_eventQueue w"
  "triggered (set_state r s w) = triggered w" "broadcasts (set_state r s w) = broadcasts w"
  by (simp_all add: set_state_def)

text \<open>An update of the other fields leaves the resources alone.\<close>

lemma pool_updates [simp]:
  "pool (add_dependant o' r w) = pool w" "pool (add_dependency o' r w) = pool w" "pool (clear_waiting r w) = pool w"
  "pool (clear_dependants r w) = pool w" "pool (trigger ev r w) = pool w" "pool (QueueResourceEvent ev r w) = pool w"
  "pool (announce_start r w) = pool w" "pool (announce_stop r w) = pool w"
  by (simp_all add: add_dependant_def add_dependency_def clear_waiting_def clear_dependants_def trigger_def
      QueueResourceEvent_def announce_start_def announce_stop_def)

lemma same_pool:
  assumes "pool v = pool w"
  shows "GetName v q = GetName w q" "GetState v q = GetState w q" "GetEntries v q k = GetEntries w q k"
  using assms by (simp_all add: GetName_def GetState_def GetEntries_def resource_at_def)

lemmas same_pools [simp] = pool_updates [THEN same_pool(1)] pool_updates [THEN same_pool(2)] pool_updates [THEN same_pool(3)]

lemmas update_defs = add_dependant_def add_dependency_def clear_waiting_def clear_dependants_def trigger_def
  QueueResourceEvent_def announce_start_def announce_stop_def

lemma frame_updates [simp]:
  "same_frame w (set_state r s w)" "same_frame w (give_up r w)" "same_frame w (add_dependant o' r w)"
  "same_frame w (add_dependency o' r w)" "same_frame w (clear_waiting r w)" "same_frame w (clear_dependants r w)"
  "same_frame w (trigger ev r w)" "same_frame w (QueueResourceEvent ev r w)" "same_frame w (announce_start r w)"
  "same_frame w (announce_stop r w)"
  by (simp_all add: same_frame_def give_up_def) (simp_all add: update_defs)

subsection \<open>Induction over an execution\<close>

lemma run_step: "run E c w = step E (run E) c w"
  by (rule run.simps)

lemma run_induct [consumes 1, case_names step]:
  assumes "run E c w = Some (b, w')"
    and "\<And>exec c w b w'. (\<And>c w b w'. exec c w = Some (b, w') \<Longrightarrow> P c w b w')
           \<Longrightarrow> step E exec c w = Some (b, w') \<Longrightarrow> P c w b w'"
  shows "P c w b w'"
proof -
  have "F = E \<longrightarrow> P c w (fst res) (snd res)" if "run F c w = Some res" for F c w res
  proof (rule run.raw_induct [OF _ that])
    fix ex F c w and res :: "bool \<times> resource_world"
    assume IH: "\<And>F c w res. ex F c w = Some res \<Longrightarrow> F = E \<longrightarrow> P c w (fst res) (snd res)"
      and st: "step F (ex F) c w = Some res"
    show "F = E \<longrightarrow> P c w (fst res) (snd res)"
      using assms(2) [of "ex E" c w "fst res" "snd res"] IH [of E] st by force
  qed
  from this [OF assms(1)] show ?thesis by simp
qed

text \<open>
  A preorder that the updates respect is respected by every execution: the result of a call is reached by
  updates only. A resource that a start marks as starting is started or given up when the start returns, so
  of the mark only the whole of a start has to respect the preorder.
\<close>

locale run_preorder =
  fixes R :: "resource_world \<Rightarrow> resource_world \<Rightarrow> bool"
  assumes refl: "R w w"
    and trans: "R u v \<Longrightarrow> R v w \<Longrightarrow> R u w"
    and started: "R w (set_state r Started w)"
    and stopped: "R w (set_state r Stopped w)"
    and starting: "R (set_state r Starting w) v \<Longrightarrow> R w (set_state r Started v)"
      "R (set_state r Starting w) v \<Longrightarrow> R w (give_up r v)"
    and dependant: "R w (add_dependant o' r w)"
    and dependency: "R w (add_dependency o' r w)"
    and waiting: "R w (clear_waiting r w)"
    and dependants: "R w (clear_dependants r w)"
    and events: "R w (trigger ev r w)" "R w (QueueResourceEvent ev r w)"
    and announce: "R w (announce_start r w)" "R w (announce_stop r w)"
begin

lemma give_up: "R w (give_up r w)"
  by (simp add: give_up_def stopped refl)

lemmas updates = refl started stopped dependant dependency waiting dependants events announce give_up

definition keeps :: "(bool \<times> resource_world) option \<Rightarrow> resource_world \<Rightarrow> bool" where
  "keeps m w \<longleftrightarrow> (\<forall>b v. m = Some (b, v) \<longrightarrow> R w v)"

lemma keeps_Some [intro]: "R w v \<Longrightarrow> keeps (Some (b, v)) w"
  by (simp add: keeps_def)

lemma keeps_bind: "keeps m w \<Longrightarrow> (\<And>b v. R w v \<Longrightarrow> keeps (f (b, v)) w) \<Longrightarrow> keeps (Option.bind m f) w"
  by (cases m) (auto simp: keeps_def)

lemma keeps_if: "(b \<Longrightarrow> keeps m w) \<Longrightarrow> (\<not> b \<Longrightarrow> keeps n w) \<Longrightarrow> keeps (if b then m else n) w"
  by simp

lemma keeps_option: "keeps m w \<Longrightarrow> (\<And>x. keeps (n x) w) \<Longrightarrow> keeps (case v of None \<Rightarrow> m | Some x \<Rightarrow> n x) w"
  by (cases v) auto

lemma keeps_match: "keeps m w \<Longrightarrow> keeps n w \<Longrightarrow> keeps k w
  \<Longrightarrow> keeps (case v of Pass \<Rightarrow> m | Fail \<Rightarrow> n | NoConstraint \<Rightarrow> k) w"
  by (cases v) auto

definition launched :: "call \<Rightarrow> resource_world \<Rightarrow> resource_world \<Rightarrow> bool" where
  "launched c w w' \<longleftrightarrow>
     (\<forall>r. c = LaunchCall r \<longrightarrow> (\<exists>v. R w v \<and> (w' = set_state r Started v \<or> w' = give_up r v)))"

lemma run_related_launched: "run E c w = Some (b, w') \<Longrightarrow> R w w' \<and> launched c w w'"
proof (induction rule: run_induct)
  case (step exec c w b w')
  have exec: "keeps (exec c v) u" if "R u v" for c v u
    using step(1) trans [OF that] by (auto simp: keeps_def)
  note rules = keeps_Some keeps_bind keeps_if keeps_option keeps_match exec updates trans [OF _ started]
    trans [OF _ stopped] trans [OF _ dependant] trans [OF _ dependency] trans [OF _ waiting] trans [OF _ dependants]
    trans [OF _ events(1)] trans [OF _ give_up]
  have acts: "keeps (perform exec a w) w" for a w
    by (cases a) (auto simp: step_defs intro!: rules)
  have start: "keeps (Resource_Start exec r w) w" for r w
  proof (cases "GetState w r = Started \<or> GetState w r = Starting")
    case False
    have "keeps (exec (LaunchCall r) v) w" if v: "R (set_state r Starting w) v" for v
      using step(1) [of "LaunchCall r" v] trans [OF v]
      by (auto simp: keeps_def launched_def intro: starting)
    then show ?thesis
      using False exec [OF refl, of "FireCall OnBeforeStart r" "set_state r Starting w"]
      by (fastforce simp: Resource_Start_def keeps_def intro: starting split: bind_splits if_splits)
  qed (auto simp: Resource_Start_def intro!: rules)
  have "keeps (run_callback E exec cb r w) w" for cb r w
    by (cases cb) (auto simp: step_defs intro!: rules)
  moreover have "keeps (fire exec cbs r w) w" for cbs r w
    by (cases cbs) (auto intro!: rules)
  moreover have "keeps (loadDeps exec r deps s w) w" for r deps s w
    by (cases deps) (auto intro!: rules)
  moreover have "keeps (start_names exec names w) w" for names w
    by (cases names) (auto intro!: rules)
  moreover have "keeps (stop_names exec r names w) w" for r names w
    by (cases names) (auto intro!: rules)
  moreover have "keeps (run_acts exec a w) w" for a w
    by (cases a) (auto intro!: rules acts)
  moreover have "keeps (each_command exec cmd names w) w" for cmd names w
    by (cases names) (auto intro!: rules)
  moreover have "keeps (ensure_each exec names w) w" for names w
    by (cases names) (auto intro!: rules)
  moreover have "keeps (Resource_Launch exec r w) w" "keeps (Resource_Stop exec r w) w" for r w
    unfolding Resource_Launch_def Resource_Stop_def by (auto intro!: rules)
  moreover have "keeps (command E exec cmd n w) w" "keeps (doEnsure exec n w) w" for cmd n w
    unfolding command_def start_command_def stop_command_def restart_command_def ensure_command_def doEnsure_def
    by (auto intro!: rules)
  ultimately have "keeps (step E exec c w) w" using start by (cases c) auto
  moreover have "launched c w w'"
    unfolding launched_def
  proof (intro allI impI)
    fix r assume "c = LaunchCall r"
    then obtain ok v where v: "exec (FireCall OnStart r) w = Some (ok, v)"
      "w' = (if ok then set_state r Started v else give_up r v)"
      using step(2) by (auto simp: Resource_Launch_def split: bind_splits if_splits)
    with step(1) [OF v(1)] show "\<exists>v. R w v \<and> (w' = set_state r Started v \<or> w' = give_up r v)" by auto
  qed
  ultimately show ?case using step(2) by (simp add: keeps_def)
qed

lemmas run_related = run_related_launched [THEN conjunct1]

end

lemma same_frame_set_state [simp]: "same_frame (set_state r s w) v \<longleftrightarrow> same_frame w v"
  by (auto simp: same_frame_def)

interpretation frame: run_preorder same_frame
  by unfold_locales (auto intro: same_frame_trans)

text \<open>What a start and a stop return is the state of the resource when they return.\<close>

lemma run_frame: "run E c w = Some (b, w') \<Longrightarrow> same_frame w w'"
  by (rule frame.run_related)

lemma GetState_give_up:
  "GetState (give_up r w) q = (if q = r \<and> r < length (pool w) \<and> GetState w r \<noteq> Started then Stopped else GetState w q)"
  by (auto simp: give_up_def GetState_set_state)

text \<open>Calls unfold to what they execute.\<close>

lemmas run_calls = run_step step.simps

lemma run_Start:
  "run E (StartCall r) w =
     (if GetState w r = Started then Some (True, set_state r Started w)
      else if GetState w r = Starting then run E (LaunchCall r) w
      else Option.bind (run E (FireCall OnBeforeStart r) (set_state r Starting w))
             (\<lambda>(ok, w). if ok then run E (LaunchCall r) w else Some (False, give_up r w)))"
  by (simp add: run_step [of E "StartCall r"] Resource_Start_def)

lemma run_Launch:
  "run E (LaunchCall r) w = Option.bind (run E (FireCall OnStart r) w)
     (\<lambda>(ok, w). if ok then Some (True, set_state r Started w) else Some (False, give_up r w))"
  by (simp add: run_step [of E "LaunchCall r"] Resource_Launch_def)

lemma run_Stop:
  "run E (StopCall r) w =
     (if GetState w r = Stopped then Some (True, w)
      else Option.bind (run E (FireCall OnStop r) w)
             (\<lambda>(ok, w). if ok then Some (True, set_state r Stopped w) else Some (False, w)))"
  by (simp add: run_step [of E "StopCall r"] Resource_Stop_def)

lemma run_Fire [simp]:
  "run E (FireCall [] r) w = Some (True, w)"
  "run E (FireCall (cb # cbs) r) w =
     Option.bind (run E (CallbackCall cb r) w) (\<lambda>(ok, w). if ok then run E (FireCall cbs r) w else Some (False, w))"
  by (simp_all add: run_calls)

lemma Launch_result:
  assumes "run E (LaunchCall r) w = Some (b, w')" "r < length (pool w)"
  shows "GetState w' r = (if b \<or> GetState w' r = Started then Started else Stopped)"
proof -
  obtain ok v where v: "run E (FireCall OnStart r) w = Some (ok, v)"
    "(b, w') = (if ok then (True, set_state r Started v) else (False, give_up r v))"
    using assms(1) by (auto simp: run_Launch split: bind_splits if_splits)
  have "length (pool v) = length (pool w)" by (rule same_frameD(1) [OF run_frame [OF v(1)]])
  then show ?thesis using v(2) assms(2) by (cases ok) (simp_all add: GetState_set_state GetState_give_up)
qed

lemma Start_result:
  assumes "run E (StartCall r) w = Some (b, w')" "r < length (pool w)"
  shows "GetState w' r = (if b \<or> GetState w' r = Started then Started else Stopped)"
proof (cases "GetState w r = Started \<or> GetState w r = Starting")
  case True
  then show ?thesis using assms Launch_result [of E r w b w'] by (auto simp: run_Start GetState_set_state split: if_splits)
next
  case False
  then obtain ok v where v: "run E (FireCall OnBeforeStart r) (set_state r Starting w) = Some (ok, v)"
    "(if ok then run E (LaunchCall r) v else Some (False, give_up r v)) = Some (b, w')"
    using assms(1) by (auto simp: run_Start split: bind_splits)
  have "length (pool v) = length (pool w)" using same_frameD(1) [OF run_frame [OF v(1)]] by simp
  then show ?thesis
    using v(2) assms(2) Launch_result [of E r v b w'] by (auto simp: GetState_give_up split: if_splits)
qed

lemma Stop_result:
  assumes "run E (StopCall r) w = Some (b, w')" "r < length (pool w)" b
  shows "GetState w' r = Stopped"
  using assms run_frame [of E "FireCall OnStop r" w] 
  by (auto simp: run_Stop GetState_set_state same_frame_def split: if_splits bind_splits)

subsection \<open>No resource is left starting\<close>

definition settles :: "resource_world \<Rightarrow> resource_world \<Rightarrow> bool" where
  "settles w v \<longleftrightarrow> same_frame w v
     \<and> (\<forall>q<length (pool w). GetState v q = Starting \<longrightarrow> GetState w q = Starting)"

lemma settles_pool: "same_frame w v \<Longrightarrow> pool v = pool w \<Longrightarrow> settles w v"
  by (simp add: settles_def same_pool(2) [of v w])

interpretation settling: run_preorder settles
proof unfold_locales
  fix w r v assume s: "settles (set_state r Starting w) v"
  then show "settles w (set_state r Started v)"
    by (auto simp: settles_def GetState_set_state same_frame_def split: if_splits)
  show "settles w (give_up r v)"
    using s by (auto simp: settles_def GetState_give_up GetState_set_state same_frame_def give_up_def split: if_splits)
next
  show "settles u v \<Longrightarrow> settles v w \<Longrightarrow> settles u w" for u v w
    unfolding settles_def by (metis same_frame_trans same_frameD(1))
qed ((rule settles_pool; simp; fail) | (simp add: settles_def GetState_set_state; fail))+

lemma Start_settles:
  assumes "run E (StartCall r) w = Some (b, w')" "r < length (pool w)" "q < length (pool w)" "GetState w' q = Starting"
  shows "GetState w q = Starting \<and> q \<noteq> r"
  using settling.run_related [OF assms(1)] Start_result [OF assms(1,2)] assms(3,4)
  by (auto simp: settles_def split: if_splits)

end
