(* ===== verification/ResourceClients.thy ===== *)
theory ResourceClients
  imports ResourceLaws
begin

text \<open>
  The clients' view: the packets that tell of starts and stops, and \<open>GetConfigurationMethod.cpp\<close>, which lists
  the resources for a client that joins.
\<close>

subsection \<open>The packets\<close>

text \<open>The length of a name is well below the size that a packet allows.\<close>

definition name_fits :: "string \<Rightarrow> bool" where
  "name_fits n \<longleftrightarrow> length n < 2 ^ 61"

lemma length_name_bytes [simp]: "length (name_bytes n) = length n"
  by (simp add: name_bytes_def)

lemma resource_packet_wire:
  assumes "name_fits n"
  shows "resource_start_packet n = wire_int (HashRageString ''msgResStart'') @ name_bytes n"
    "resource_stop_packet n = wire_int (HashRageString ''msgResStop'') @ name_bytes n"
proof -
  let ?p = "ServerResourceStartPacket_init\<lparr>pdata := ServerResourceStart.make (name_bytes n)\<rparr>"
  let ?q = "ServerResourceStopPacket_init\<lparr>pdata := ServerResourceStop.make (name_bytes n)\<rparr>"
  have wf: "packet_wf ServerResourceStart_wf ?p" "packet_wf ServerResourceStop_wf ?q"
    using assms by (simp_all add: name_fits_def packet_wf_def packet_defs codec_simps size_fits_def ServerResourceStart.defs ServerResourceStop.defs)
  have wire: "packet_wire ServerResourceStart_wire ?p = wire_int (HashRageString ''msgResStart'') @ name_bytes n"
    "packet_wire ServerResourceStop_wire ?q = wire_int (HashRageString ''msgResStop'') @ name_bytes n"
    by (simp_all add: packet_wire_def ServerResourceStart_wire_def ServerResourceStop_wire_def wire_string_def wire_size_def
        ServerResourceStartPacket_init_def ServerResourceStopPacket_init_def ServerResourceStart.defs ServerResourceStop.defs codec_simps)
  have fits: "length (packet_wire ServerResourceStart_wire ?p) \<le> length (replicate (4 + length n) (0 :: u8))"
    "length (packet_wire ServerResourceStop_wire ?q) \<le> length (replicate (4 + length n) (0 :: u8))"
    unfolding wire by (simp_all add: name_bytes_def)
  have a: "addressable (length (replicate (4 + length n) (0 :: u8)))" using assms by (simp add: name_fits_def)
  show "resource_start_packet n = wire_int (HashRageString ''msgResStart'') @ name_bytes n"
    using srs_packet.send_receive [OF wf(1) fits(1) a, of "\<lambda>_. 0"] wire(1) by (auto simp: resource_start_packet_def written_bytes_def)
  show "resource_stop_packet n = wire_int (HashRageString ''msgResStop'') @ name_bytes n"
    using srp_packet.send_receive [OF wf(2) fits(2) a, of "\<lambda>_. 0"] wire(2) by (auto simp: resource_stop_packet_def written_bytes_def)
qed

text \<open>
  What a receiver that keeps a list makes of a packet: the type selects the handler, which reads the rest;
  a start appends the name, a stop removes it.
\<close>

definition text_of :: "u8 list \<Rightarrow> string" where
  "text_of bs = map (\<lambda>b. char_of (unat b)) bs"

lemma unat_of_char [simp]: "unat (of_char c :: u8) = of_char c"
proof -
  have "(of_char c :: u8) = of_nat (of_char c)" by (simp add: of_nat_of_char)
  moreover have "(of_char c :: nat) < 2 ^ 8" using of_char_of [of "of_char c :: nat"] by simp
  ultimately show ?thesis by (simp add: unat_of_nat)
qed

lemma text_name_bytes [simp]: "text_of (name_bytes n) = n"
  by (simp add: text_of_def name_bytes_def comp_def)

definition mirror :: "(nat \<Rightarrow> u64) \<Rightarrow> u8 list \<Rightarrow> string list \<Rightarrow> string list" where
  "mirror ind bytes names =
     (let ty = take 4 bytes; rest = drop 4 bytes; reader = ByteReader_make rest (of_nat (length rest)) ind in
      if ty = wire_int (HashRageString ''msgResStart'') then
        case fst (ProcessPacket ServerResourceStart_Process ServerResourceStart_init reader) of
          None \<Rightarrow> names
        | Some v \<Rightarrow> names @ [text_of (ServerResourceStart.resourceName v)]
      else if ty = wire_int (HashRageString ''msgResStop'') then
        case fst (ProcessPacket ServerResourceStop_Process ServerResourceStop_init reader) of
          None \<Rightarrow> names
        | Some v \<Rightarrow> filter (\<lambda>n. n \<noteq> text_of (ServerResourceStop.resourceName v)) names
      else names)"

lemma mirror_packets:
  assumes "name_fits n"
  shows "mirror ind (resource_start_packet n) names = names @ [n]"
    "mirror ind (resource_stop_packet n) names = filter (\<lambda>m. m \<noteq> n) names"
proof -
  let ?v = "ServerResourceStart.make (name_bytes n)" and ?u = "ServerResourceStop.make (name_bytes n)"
  have wf: "ServerResourceStart_wf ?v" "ServerResourceStop_wf ?u"
    using assms by (simp_all add: name_fits_def packet_defs codec_simps size_fits_def ServerResourceStart.defs ServerResourceStop.defs)
  have wire: "ServerResourceStart_wire ?v = name_bytes n" "ServerResourceStop_wire ?u = name_bytes n"
    by (simp_all add: ServerResourceStart_wire_def ServerResourceStop_wire_def wire_string_def wire_size_def
        ServerResourceStart.defs ServerResourceStop.defs codec_simps)
  have a: "addressable (length (ServerResourceStart_wire ?v))" "addressable (length (ServerResourceStop_wire ?u))"
    using assms unfolding wire by (simp_all add: name_fits_def)
  have four: "length (wire_int (w :: u32)) = 4" for w by (simp add: wire_int_def)
  have ne: "(wire_int (HashRageString ''msgResStop'') = wire_int (HashRageString ''msgResStart'')) = False"
    by (simp add: wire_int_def) code_simp
  show "mirror ind (resource_start_packet n) names = names @ [n]"
    using srs.ProcessPacket_wire [OF wf(1) a(1), of ind] wire(1) assms
    by (simp add: mirror_def resource_packet_wire four ServerResourceStart.defs)
  show "mirror ind (resource_stop_packet n) names = filter (\<lambda>m. m \<noteq> n) names"
    using srp.ProcessPacket_wire [OF wf(2) a(2), of ind] wire(2) assms
    by (simp add: mirror_def resource_packet_wire four ne ServerResourceStop.defs)
qed

text \<open>
  Whatever is executed, a receiver that starts from the start order of the server and applies the packets
  that are sent meanwhile ends with the start order of the server.
\<close>

definition mirrored :: "(nat \<Rightarrow> u64) \<Rightarrow> resource_world \<Rightarrow> resource_world \<Rightarrow> bool" where
  "mirrored ind w v \<longleftrightarrow> same_frame w v
     \<and> ((\<forall>r. name_fits (GetName w r)) \<longrightarrow>
        (\<exists>ps. broadcasts v = broadcasts w @ ps
           \<and> g_resourceStartOrder v = fold (mirror ind) ps (g_resourceStartOrder w)))"

lemma mirrored_same:
  "same_frame w v \<Longrightarrow> broadcasts v = broadcasts w \<Longrightarrow> g_resourceStartOrder v = g_resourceStartOrder w \<Longrightarrow> mirrored ind w v"
  by (simp add: mirrored_def)

lemma mirrored_announce:
  "mirrored ind w (announce_start r w)" "mirrored ind w (announce_stop r w)"
proof -
  show "mirrored ind w (announce_start r w)"
    unfolding mirrored_def
  proof (intro conjI impI exI)
    let ?ps = "if GetEntries w r ''server_only'' \<noteq> [] then [] else [resource_start_packet (GetName w r)]"
    show "broadcasts (announce_start r w) = broadcasts w @ ?ps" by (simp add: announce_start_def)
    show "g_resourceStartOrder (announce_start r w) = fold (mirror ind) ?ps (g_resourceStartOrder w)"
      if "\<forall>r. name_fits (GetName w r)"
      using that by (simp add: announce_start_def mirror_packets)
  qed simp
  show "mirrored ind w (announce_stop r w)"
    unfolding mirrored_def
  proof (intro conjI impI exI)
    let ?ps = "if GetEntries w r ''server_only'' \<noteq> [] then [] else [resource_stop_packet (GetName w r)]"
    show "broadcasts (announce_stop r w) = broadcasts w @ ?ps" by (simp add: announce_stop_def)
    show "g_resourceStartOrder (announce_stop r w) = fold (mirror ind) ?ps (g_resourceStartOrder w)"
      if "\<forall>r. name_fits (GetName w r)"
      using that by (simp add: announce_stop_def mirror_packets)
  qed simp
qed

lemma mirrored_trans: "mirrored ind u v \<Longrightarrow> mirrored ind v w \<Longrightarrow> mirrored ind u w"
  unfolding mirrored_def by (auto simp: same_frameD(2) intro: same_frame_trans)

lemma mirrored_set_state [simp]: "mirrored ind (set_state r s w) v \<longleftrightarrow> mirrored ind w v"
  by (simp add: mirrored_def)

lemma mirrored_give_up: "mirrored ind w (give_up r w)"
  by (rule mirrored_same) (simp_all add: give_up_def)

interpretation client_mirror: run_preorder "mirrored ind" for ind
proof unfold_locales
  fix w v r
  assume "mirrored ind (set_state r Starting w) v"
  then have m: "mirrored ind w v" by simp
  show "mirrored ind w (set_state r Started v)" "mirrored ind w (give_up r v)"
    by (rule mirrored_trans [OF m], rule mirrored_same; simp; fail)
      (rule mirrored_trans [OF m mirrored_give_up])
qed ((rule mirrored_announce mirrored_trans, assumption+)
  | (rule mirrored_announce)
  | (rule mirrored_same, simp, simp add: update_defs, simp add: update_defs)
  | (rule mirrored_same, simp, simp, simp))+

subsection \<open>The configuration for a client\<close>

text \<open>
  \<open>GetConfigurationMethod.cpp\<close>: the resources that a client is told of, for the names it asks for. The
  loop over the names ends at the first empty one.
\<close>

function config_filters :: "string \<Rightarrow> string list" where
  "config_filters s =
     (let v = takeWhile (\<lambda>c. c \<noteq> CHR '';'') s; rest = dropWhile (\<lambda>c. c \<noteq> CHR '';'') s in
      if v = [] then [] else v # (if rest = [] then [] else config_filters (tl rest)))"

  by pat_completeness auto
termination
proof (relation "measure length")
  fix s :: string and x xa
  assume "x = takeWhile (\<lambda>c. c \<noteq> CHR '';'') s" "xa = dropWhile (\<lambda>c. c \<noteq> CHR '';'') s" "x \<noteq> []" "xa \<noteq> []"
  then show "(tl xa, s) \<in> measure length"
    using length_dropWhile_le [of "\<lambda>c. c \<noteq> CHR '';''" s] by (cases s) (auto simp: le_imp_less_Suc)
qed simp

declare config_filters.simps [simp del]

definition config_wanted :: "string list \<Rightarrow> resource_world \<Rightarrow> resource_ref \<Rightarrow> bool" where
  "config_wanted filters w r \<longleftrightarrow>
     (filters \<noteq> [] \<longrightarrow> GetName w r \<in> set filters)
     \<and> (GetState w r = Started \<or> GetState w r = Starting) \<and> GetEntries w r ''server_only'' = []"

definition appendResource ::
  "string list \<Rightarrow> resource_world \<Rightarrow> resource_ref \<Rightarrow> string list \<times> resource_ref list \<Rightarrow> string list \<times> resource_ref list" where
  "appendResource filters w r st =
     (let (resourceNames, resources) = st in
      if GetName w r \<in> set resourceNames then st
      else (GetName w r # resourceNames,
            if filters \<noteq> [] \<and> GetName w r \<notin> set filters then resources
            else if GetState w r \<noteq> Started \<and> GetState w r \<noteq> Starting then resources
            else if GetEntries w r ''server_only'' \<noteq> [] then resources
            else resources @ [r]))"

text \<open>First the resources in start order, then all of the hash table, in its order \<open>rs\<close>.\<close>

definition start_order_refs :: "resource_world \<Rightarrow> resource_ref list" where
  "start_order_refs w = concat (map (\<lambda>n. case GetResource w n False of None \<Rightarrow> [] | Some r \<Rightarrow> [r]) (g_resourceStartOrder w))"

definition GetConfiguration :: "string option \<Rightarrow> resource_ref list \<Rightarrow> resource_world \<Rightarrow> resource_ref list" where
  "GetConfiguration asked rs w =
     (let filters = (case asked of None \<Rightarrow> [] | Some s \<Rightarrow> config_filters s) in
      snd (fold (appendResource filters w) (start_order_refs w @ rs) ([], [])))"

text \<open>The reference: the first occurrences, filtered.\<close>

definition firsts :: "'a list \<Rightarrow> 'a list" where
  "firsts xs = rev (remdups (rev xs))"

lemma firsts_simps [simp]:
  "firsts [] = []" "firsts (xs @ [x]) = (if x \<in> set xs then firsts xs else firsts xs @ [x])"
  "set (firsts xs) = set xs" "distinct (firsts xs)"
  by (simp_all add: firsts_def)

lemma firsts_append: "\<exists>zs. firsts (xs @ ys) = firsts xs @ zs"
proof (induction ys rule: rev_induct)
  case (snoc y ys)
  then obtain zs where "firsts (xs @ ys) = firsts xs @ zs" by auto
  then have "firsts (xs @ ys @ [y]) = firsts xs @ (if y \<in> set (xs @ ys) then zs else zs @ [y])"
    using firsts_simps(2) [of "xs @ ys" y] by simp
  then show ?case by blast
qed (use HOL.refl in simp)

lemma appendResource_eq:
  "appendResource filters w r (seen, out) =
     (if GetName w r \<in> set seen then (seen, out)
      else (GetName w r # seen, if config_wanted filters w r then out @ [r] else out))"
  by (simp add: appendResource_def config_wanted_def)

lemma appendResource_fold:
  assumes "inj_on (GetName w) (set rs)"
  shows "fold (appendResource filters w) rs ([], [])
    = (rev (map (GetName w) (firsts rs)), filter (config_wanted filters w) (firsts rs))"
  using assms
proof (induction rs rule: rev_induct)
  case (snoc r rs)
  have IH: "fold (appendResource filters w) rs ([], [])
      = (rev (map (GetName w) (firsts rs)), filter (config_wanted filters w) (firsts rs))"
    using snoc by (simp add: inj_on_def)
  have "GetName w r \<in> GetName w ` set rs \<longleftrightarrow> r \<in> set rs"
    using snoc.prems by (auto simp: inj_on_def)
  then show ?case by (simp add: IH appendResource_eq)
qed simp

lemma GetConfiguration_firsts:
  assumes names: "\<And>n r. m_resources w n = Some r \<Longrightarrow> GetName w r = n" and rs: "set rs = ran (m_resources w)"
  shows "GetConfiguration asked rs w
    = filter (config_wanted (case asked of None \<Rightarrow> [] | Some s \<Rightarrow> config_filters s) w) (firsts (start_order_refs w @ rs))"
proof -
  have sub: "set (start_order_refs w) \<subseteq> ran (m_resources w)"
    by (auto simp: start_order_refs_def GetResource_def ran_def split: option.splits)
  have "inj_on (GetName w) (ran (m_resources w))"
  proof (rule inj_onI)
    fix r q assume rq: "r \<in> ran (m_resources w)" "q \<in> ran (m_resources w)" "GetName w r = GetName w q"
    then obtain n m where "m_resources w n = Some r" "m_resources w m = Some q" by (auto simp: ran_def)
    with names rq(3) show "r = q" by (metis option.inject)
  qed
  then have "inj_on (GetName w) (set (start_order_refs w @ rs))"
    using sub rs by (auto intro: inj_on_subset)
  from appendResource_fold [OF this] show ?thesis by (simp add: GetConfiguration_def)
qed

lemma GetConfiguration_spec:
  assumes names: "\<And>n r. m_resources w n = Some r \<Longrightarrow> GetName w r = n" and rs: "set rs = ran (m_resources w)"
  shows "distinct (GetConfiguration asked rs w)"
    "set (GetConfiguration asked rs w) = {r \<in> ran (m_resources w). config_wanted (case asked of None \<Rightarrow> [] | Some s \<Rightarrow> config_filters s) w r}"
    "\<exists>rest. GetConfiguration asked rs w
       = filter (config_wanted (case asked of None \<Rightarrow> [] | Some s \<Rightarrow> config_filters s) w) (firsts (start_order_refs w)) @ rest"
proof -
  have sub: "set (start_order_refs w) \<subseteq> ran (m_resources w)"
    by (auto simp: start_order_refs_def GetResource_def ran_def split: option.splits)
  note eq = GetConfiguration_firsts [OF assms, of asked]
  show "distinct (GetConfiguration asked rs w)" by (simp add: eq)
  show "set (GetConfiguration asked rs w) = {r \<in> ran (m_resources w). config_wanted (case asked of None \<Rightarrow> [] | Some s \<Rightarrow> config_filters s) w r}"
    using sub rs by (auto simp: eq)
  obtain zs where "firsts (start_order_refs w @ rs) = firsts (start_order_refs w) @ zs" using firsts_append by blast
  then show "\<exists>rest. GetConfiguration asked rs w
       = filter (config_wanted (case asked of None \<Rightarrow> [] | Some s \<Rightarrow> config_filters s) w) (firsts (start_order_refs w)) @ rest"
    by (simp add: eq)
qed

end
