(* ===== verification/ResourceSilent.thy ===== *)
theory ResourceSilent
  imports ResourceLaws
begin

text \<open>
  Executions in which outside code does not call back (\<open>silent\<close>). Then a call is a start or a stop with the
  dependencies it follows, and has an induction principle of its own: \<open>silent_step\<close> describes one level of
  the recursion as a relation, in which the callbacks are already executed.
\<close>

definition silent :: "resource_env \<Rightarrow> bool" where
  "silent E \<longleftrightarrow> (\<forall>w h n. fst (outside E w h n) = [])"

definition all_deps :: "resource_world \<Rightarrow> resource_ref \<Rightarrow> string list" where
  "all_deps w r = GetEntries w r ''dependency'' @ GetEntries w r ''dependencie''"

definition verdict :: "resource_env \<Rightarrow> resource_world \<Rightarrow> hook \<Rightarrow> resource_ref \<Rightarrow> bool" where
  "verdict E w h r = snd (outside E w h (GetName w r))"

definition allowed_game :: "resource_env \<Rightarrow> resource_world \<Rightarrow> resource_ref \<Rightarrow> bool" where
  "allowed_game E w r = game_allows (game E) (indeterminate E) w r"

text \<open>Before \<open>OnStart\<close> starts the dependants that wait, and after.\<close>

definition launching :: "resource_ref \<Rightarrow> resource_world \<Rightarrow> resource_world" where
  "launching r w = trigger ''onResourceStart'' r (QueueResourceEvent ''onServerResourceStart'' r w)"

definition started :: "resource_ref \<Rightarrow> resource_world \<Rightarrow> resource_world" where
  "started r w = set_state r Started (announce_start r (clear_waiting r w))"

text \<open>The marks of a start, and what \<open>OnStop\<close> does behind the dependants.\<close>

definition entering :: "resource_ref \<Rightarrow> resource_world \<Rightarrow> resource_world" where
  "entering r w = trigger ''onResourceStarting'' r (set_state r Starting w)"

definition stopped :: "resource_ref \<Rightarrow> resource_world \<Rightarrow> resource_world" where
  "stopped r w = set_state r Stopped (QueueResourceEvent ''onServerResourceStop'' r
     (announce_stop r (trigger ''onResourceStop'' r (clear_dependants r w))))"

lemma launching_fields [simp]:
  "resourceDependants (launching r w) = resourceDependants w" "resourceDependencies (launching r w) = resourceDependencies w"
  "pool (launching r w) = pool w" "m_resources (launching r w) = m_resources w"
  "m_resourceProvides (launching r w) = m_resourceProvides w" "g_resourceStartOrder (launching r w) = g_resourceStartOrder w"
  "triggered (launching r w) = triggered w @ [(''onResourceStart'', GetName w r)]"
  by (simp_all add: launching_def trigger_def QueueResourceEvent_def GetName_def resource_at_def)

lemmas launching_pool [simp] = launching_fields(3) [THEN same_pool(1)] launching_fields(3) [THEN same_pool(2)]
  launching_fields(3) [THEN same_pool(3)]

lemma entering_fields [simp]:
  "resourceDependants (entering r w) = resourceDependants w" "resourceDependencies (entering r w) = resourceDependencies w"
  "m_resources (entering r w) = m_resources w" "m_resourceProvides (entering r w) = m_resourceProvides w"
  "GetName (entering r w) q = GetName w q" "GetEntries (entering r w) q k = GetEntries w q k"
  "length (pool (entering r w)) = length (pool w)" "g_resourceStartOrder (entering r w) = g_resourceStartOrder w"
  "triggered (entering r w) = triggered w @ [(''onResourceStarting'', GetName w r)]"
  by (simp_all add: entering_def) (simp_all add: trigger_def)

lemma started_fields [simp]:
  "resourceDependants (started r w) = resourceDependants w"
  "resourceDependencies (started r w) = erase_key (GetName w r) (resourceDependencies w)"
  "m_resources (started r w) = m_resources w" "m_resourceProvides (started r w) = m_resourceProvides w"
  "GetName (started r w) q = GetName w q" "GetEntries (started r w) q k = GetEntries w q k"
  "length (pool (started r w)) = length (pool w)" "triggered (started r w) = triggered w"
  "g_resourceStartOrder (started r w) =
     g_resourceStartOrder w @ (if GetEntries w r ''server_only'' \<noteq> [] then [] else [GetName w r])"
  by (simp_all add: started_def) (simp_all add: clear_waiting_def announce_start_def GetName_def GetEntries_def resource_at_def)

lemma GetState_entering: "GetState (entering r w) q = (if q = r \<and> r < length (pool w) then Starting else GetState w q)"
  by (simp add: entering_def GetState_set_state)

lemma GetState_started: "GetState (started r w) q = (if q = r \<and> r < length (pool w) then Started else GetState w q)"
  by (simp add: started_def GetState_set_state)

lemma launching_frame: "same_frame w (launching r w)"
  unfolding launching_def by (rule same_frame_trans [OF frame_updates(8) frame_updates(7)])

lemma started_frame: "same_frame w (started r w)"
  unfolding started_def by (rule same_frame_trans [OF same_frame_trans [OF frame_updates(5) frame_updates(9)] frame_updates(1)])

type_synonym outcome = "call \<Rightarrow> resource_world \<Rightarrow> bool \<Rightarrow> resource_world \<Rightarrow> bool"

fun silent_step :: "resource_env \<Rightarrow> outcome \<Rightarrow> outcome" where
  "silent_step E P (StartCall r) w b w' =
     (if GetState w r = Started then b \<and> w' = set_state r Started w
      else if GetState w r = Starting then P (LaunchCall r) w b w'
      else if \<not> verdict E (entering r w) (EventHook ''onResourceStarting'') r then \<not> b \<and> w' = give_up r (entering r w)
      else \<exists>ok v. P (DependenciesCall r (all_deps w r) True) (entering r w) ok v
             \<and> (if ok \<and> verdict E v TriggerBuild r then P (LaunchCall r) v b w' else \<not> b \<and> w' = give_up r v))"
| "silent_step E P (LaunchCall r) w b w' =
     (if \<not> allowed_game E w r then \<not> b \<and> w' = give_up r w
      else b \<and> (\<exists>ok v. P (StartNamesCall (waiting (resourceDependencies w) (GetName w r))) (launching r w) ok v
             \<and> w' = started r v))"
| "silent_step E P (StopCall r) w b w' =
     (b \<and> (if GetState w r = Stopped then w' = w
           else \<exists>ok v. P (StopNamesCall r (waiting (resourceDependants w) (GetName w r))) w ok v \<and> w' = stopped r v))"
| "silent_step E P (DependenciesCall r [] s) w b w' = (b = s \<and> w' = w)"
| "silent_step E P (DependenciesCall r (d # deps) s) w b w' =
     (case fst (MatchConstraint w d) of
        Fail \<Rightarrow> P (DependenciesCall r deps False) w b w'
      | Pass \<Rightarrow> P (DependenciesCall r deps s) w b w'
      | NoConstraint \<Rightarrow>
          (case GetResource w d True of
             None \<Rightarrow> \<not> b \<and> w' = w
           | Some other \<Rightarrow>
               if GetState w other = Starting \<or> GetState w other = Started
               then P (DependenciesCall r deps s) (add_dependant other r w) b w'
               else \<exists>ok v. P (StartCall other) (add_dependant other r w) ok v
                      \<and> (if ok then P (DependenciesCall r deps s) v b w' else \<not> b \<and> w' = add_dependency other r v)))"
| "silent_step E P (StartNamesCall []) w b w' = (b \<and> w' = w)"
| "silent_step E P (StartNamesCall (n # names)) w b w' =
     (case GetResource w n True of
        None \<Rightarrow> P (StartNamesCall names) w b w'
      | Some q \<Rightarrow> \<exists>ok v. P (StartCall q) w ok v \<and> P (StartNamesCall names) v b w')"
| "silent_step E P (StopNamesCall r []) w b w' = (b \<and> w' = w)"
| "silent_step E P (StopNamesCall r (n # names)) w b w' =
     (case GetResource w n True of
        None \<Rightarrow> P (StopNamesCall r names) w b w'
      | Some q \<Rightarrow>
          if GetName w q \<noteq> GetName w r then \<exists>ok v. P (StopCall q) w ok v \<and> P (StopNamesCall r names) v b w'
          else P (StopNamesCall r names) w b w')"
| "silent_step E P _ w b w' = True"

subsection \<open>The callbacks, executed\<close>

lemma run_Callback: "run E (CallbackCall cb r) w = run_callback E (run E) cb r w"
  by (simp add: run_step [of E "CallbackCall cb r"])

lemma run_outside_silent: "silent E \<Longrightarrow> run_outside E (run E) keep h r w = Some (keep \<longrightarrow> verdict E w h r, w)"
  by (simp add: run_outside_def silent_def verdict_def run_step [of E "ActsCall []"])

lemma all_deps_trigger: "GetEntries w r ''dependency'' @ GetEntries w r ''dependencie'' = all_deps w r"
  by (simp add: all_deps_def)

lemma run_Deps: "run E (DependenciesCall r deps s) w = loadDeps (run E) r deps s w"
  by (simp add: run_step [of E "DependenciesCall r deps s"])

lemma Fire_before:
  assumes "silent E"
  shows "run E (FireCall OnBeforeStart r) (set_state r Starting w) =
     (if \<not> verdict E (entering r w) (EventHook ''onResourceStarting'') r then Some (False, entering r w)
      else Option.bind (run E (DependenciesCall r (all_deps w r) True) (entering r w))
             (\<lambda>(ok, v). Some (ok \<and> verdict E v TriggerBuild r, v)))"
  by (auto simp: callback_lists run_Callback trigger_event_def run_outside_silent [OF assms] load_all_deps_def
      entering_def all_deps_def split: bind_splits)

lemma Fire_start:
  assumes "silent E"
  shows "run E (FireCall OnStart r) w =
     (if \<not> allowed_game E w r then Some (False, w)
      else Option.bind (run E (StartNamesCall (waiting (resourceDependencies w) (GetName w r))) (launching r w))
             (\<lambda>(_, v). Some (True, announce_start r (clear_waiting r v))))"
  by (auto simp: callback_lists run_Callback trigger_event_def run_outside_silent [OF assms] start_dependants_def
      launching_def allowed_game_def trigger_def QueueResourceEvent_def GetName_def resource_at_def split: bind_splits)

lemma Fire_stop:
  assumes "silent E"
  shows "run E (FireCall OnStop r) w =
     Option.bind (run E (StopNamesCall r (waiting (resourceDependants w) (GetName w r))) w)
       (\<lambda>(_, v). Some (True, QueueResourceEvent ''onServerResourceStop'' r
          (announce_stop r (trigger ''onResourceStop'' r (clear_dependants r v)))))"
  by (auto simp: callback_lists run_Callback trigger_event_def run_outside_silent [OF assms] stop_dependants_def
      split: bind_splits)

subsection \<open>Induction\<close>

fun called :: "resource_env \<Rightarrow> outcome \<Rightarrow> lifecycle_callback \<Rightarrow> resource_ref \<Rightarrow> resource_world \<Rightarrow> bool \<Rightarrow> resource_world \<Rightarrow> bool" where
  "called E P BeforeEvent r w b v =
     (v = trigger ''onResourceStarting'' r w \<and> b = verdict E v (EventHook ''onResourceStarting'') r)"
| "called E P BeforeDependencies r w b v = P (DependenciesCall r (all_deps w r) True) w b v"
| "called E P BeforeBuild r w b v = (v = w \<and> b = verdict E w TriggerBuild r)"
| "called E P StartFilter r w b v = (v = w \<and> b = allowed_game E w r)"
| "called E P StartQueue r w b v = (b \<and> v = QueueResourceEvent ''onServerResourceStart'' r w)"
| "called E P StartComponents r w b v = (b \<and> v = w)"
| "called E P StartEvent r w b v = (b \<and> v = trigger ''onResourceStart'' r w)"
| "called E P StartDependants r w b v =
     (b \<and> (\<exists>ok u. P (StartNamesCall (waiting (resourceDependencies w) (GetName w r))) w ok u \<and> v = clear_waiting r u))"
| "called E P StartAnnounce r w b v = (b \<and> v = announce_start r w)"
| "called E P StopDependants r w b v =
     (b \<and> (\<exists>ok u. P (StopNamesCall r (waiting (resourceDependants w) (GetName w r))) w ok u \<and> v = clear_dependants r u))"
| "called E P StopEvent r w b v = (b \<and> v = trigger ''onResourceStop'' r w)"
| "called E P StopAnnounce r w b v = (b \<and> v = announce_stop r w)"
| "called E P StopQueue r w b v = (b \<and> v = QueueResourceEvent ''onServerResourceStop'' r w)"
| "called E P StopComponents r w b v = (b \<and> v = w)"

fun fired :: "resource_env \<Rightarrow> outcome \<Rightarrow> lifecycle_callback list \<Rightarrow> resource_ref \<Rightarrow> resource_world \<Rightarrow> bool \<Rightarrow> resource_world \<Rightarrow> bool" where
  "fired E P [] r w b v = (b \<and> v = w)"
| "fired E P (cb # cbs) r w b v =
     (\<exists>ok u. called E P cb r w ok u \<and> (if ok then fired E P cbs r u b v else \<not> b \<and> v = u))"

lemma fired_lists:
  "fired E P OnBeforeStart r (set_state r Starting w) b v \<longleftrightarrow>
     (if \<not> verdict E (entering r w) (EventHook ''onResourceStarting'') r then \<not> b \<and> v = entering r w
      else \<exists>ok. P (DependenciesCall r (all_deps w r) True) (entering r w) ok v \<and> b = (ok \<and> verdict E v TriggerBuild r))"
  "fired E P OnStart r w b v \<longleftrightarrow>
     (if \<not> allowed_game E w r then \<not> b \<and> v = w
      else b \<and> (\<exists>ok u. P (StartNamesCall (waiting (resourceDependencies w) (GetName w r))) (launching r w) ok u
             \<and> v = announce_start r (clear_waiting r u)))"
  "fired E P OnStop r w b v \<longleftrightarrow>
     b \<and> (\<exists>ok u. P (StopNamesCall r (waiting (resourceDependants w) (GetName w r))) w ok u
             \<and> v = QueueResourceEvent ''onServerResourceStop'' r
                 (announce_stop r (trigger ''onResourceStop'' r (clear_dependants r u))))"
proof -
  have enter: "trigger ''onResourceStarting'' r (set_state r Starting w) = entering r w" by (simp add: entering_def)
  have deps: "all_deps (entering r w) r = all_deps w r" by (simp add: all_deps_def entering_def)
  have first: "(\<exists>ok u. (u = a \<and> ok = f u) \<and> (if ok then R u else \<not> b \<and> v = u)) \<longleftrightarrow>
    (if \<not> f a then \<not> b \<and> v = a else R a)" for R f and a :: resource_world by auto
  have mid: "(\<exists>ok u. R ok u \<and> (if ok then if \<not> f u then \<not> b \<and> v = u else b \<and> v = u else \<not> b \<and> v = u))
      \<longleftrightarrow> (\<exists>ok. R ok v \<and> b = (ok \<and> f v))"
    for R and f :: "resource_world \<Rightarrow> bool" by (metis (full_types))
  show "fired E P OnBeforeStart r (set_state r Starting w) b v \<longleftrightarrow>
     (if \<not> verdict E (entering r w) (EventHook ''onResourceStarting'') r then \<not> b \<and> v = entering r w
      else \<exists>ok. P (DependenciesCall r (all_deps w r) True) (entering r w) ok v \<and> b = (ok \<and> verdict E v TriggerBuild r))"
    unfolding callback_lists fired.simps called.simps enter first mid deps by (rule HOL.refl)
  have "resourceDependencies (launching r w) = resourceDependencies w" "GetName (launching r w) r = GetName w r"
    by (simp_all add: launching_def trigger_def QueueResourceEvent_def GetName_def resource_at_def)
  then show "fired E P OnStart r w b v \<longleftrightarrow>
     (if \<not> allowed_game E w r then \<not> b \<and> v = w
      else b \<and> (\<exists>ok u. P (StartNamesCall (waiting (resourceDependencies w) (GetName w r))) (launching r w) ok u
             \<and> v = announce_start r (clear_waiting r u)))"
    by (auto simp: callback_lists launching_def)
qed (auto simp: callback_lists)

text \<open>The calls that matter, and what the others amount to.\<close>

fun outcome_of :: "resource_env \<Rightarrow> outcome \<Rightarrow> outcome" where
  "outcome_of E P (FireCall cbs r) w b v = fired E P cbs r w b v"
| "outcome_of E P (CallbackCall cb r) w b v = called E P cb r w b v"
| "outcome_of E P (ActsCall acts) w b v = (acts = [] \<longrightarrow> b \<and> v = w)"
| "outcome_of E P (CommandCall cmd n) w b v = True"
| "outcome_of E P (EachCall cmd ns) w b v = True"
| "outcome_of E P (EnsureCall n) w b v = True"
| "outcome_of E P (EnsureEachCall ns) w b v = True"
| "outcome_of E P (StartCall r) w b v = P (StartCall r) w b v"
| "outcome_of E P (LaunchCall r) w b v = P (LaunchCall r) w b v"
| "outcome_of E P (StopCall r) w b v = P (StopCall r) w b v"
| "outcome_of E P (DependenciesCall r ds s) w b v = P (DependenciesCall r ds s) w b v"
| "outcome_of E P (StartNamesCall ns) w b v = P (StartNamesCall ns) w b v"
| "outcome_of E P (StopNamesCall r ns) w b v = P (StopNamesCall r ns) w b v"

lemma silent_outcome:
  assumes "silent E" and closed: "\<And>c w b v. silent_step E P c w b v \<Longrightarrow> P c w b v" and "run E c w = Some (b, v)"
  shows "outcome_of E P c w b v"
  using assms(3)
proof (induction rule: run_induct)
  case (step exec c w b v)
  have acts: "\<And>u b v. exec (ActsCall []) u = Some (b, v) \<Longrightarrow> b \<and> v = u"
    using step(1) [of "ActsCall []"] by (simp, blast)
  have out: "b = (keep \<longrightarrow> verdict E w h r) \<and> v = w" if "run_outside E exec keep h r w = Some (b, v)" for keep h r w b v
    using that assms(1) acts by (auto simp: run_outside_def silent_def verdict_def split: bind_splits)
  have names: "silent_step E P (StartNamesCall ns) w b v" if "start_names exec ns w = Some (b, v)" for ns w b v
    using that by (cases ns) (auto dest!: step(1) split: option.splits bind_splits, blast)
  have stops: "silent_step E P (StopNamesCall r ns) w b v" if "stop_names exec r ns w = Some (b, v)" for r ns w b v
    using that by (cases ns) (auto dest!: step(1) split: option.splits bind_splits if_splits, blast)
  show ?case
  proof (cases c)
    case (CallbackCall cb r)
    then show ?thesis using step(2)
      by (cases cb) (auto simp: trigger_event_def load_all_deps_def all_deps_def start_dependants_def stop_dependants_def
          allowed_game_def dest!: out step(1) split: bind_splits, blast+)
  next
    case (FireCall cbs r)
    show ?thesis
    proof (cases cbs)
      case Nil
      then show ?thesis using step(2) FireCall by simp
    next
      case (Cons cb cbs')
      obtain ok u where u: "exec (CallbackCall cb r) w = Some (ok, u)"
        "(if ok then exec (FireCall cbs' r) u else Some (False, u)) = Some (b, v)"
        using step(2) FireCall Cons by (auto split: bind_splits)
      have "called E P cb r w ok u" using step(1) [OF u(1)] by (simp only: outcome_of.simps)
      moreover have "if ok then fired E P cbs' r u b v else \<not> b \<and> v = u"
        using u(2) step(1) [of "FireCall cbs' r" u b v] by (cases ok) (simp_all only: outcome_of.simps if_True if_False option.inject prod.inject HOL.simp_thms)
      ultimately show ?thesis unfolding FireCall Cons outcome_of.simps fired.simps by blast
    qed
  next
    case (StartCall r)
    have "silent_step E P (StartCall r) w b v"
    proof (cases "GetState w r = Started \<or> GetState w r = Starting")
      case True
      then show ?thesis
        using step(2) step(1) [of "LaunchCall r" w b v] StartCall by (auto simp: Resource_Start_def split: if_splits)
    next
      case False
      obtain ok u where u: "exec (FireCall OnBeforeStart r) (set_state r Starting w) = Some (ok, u)"
        "(if ok then exec (LaunchCall r) u else Some (False, give_up r u)) = Some (b, v)"
        using step(2) StartCall False by (auto simp: Resource_Start_def split: bind_splits)
      have launch: "P (LaunchCall r) u b v" if ok
        using u(2) that step(1) [of "LaunchCall r" u b v] by (simp only: outcome_of.simps if_True)
      have fired: "fired E P OnBeforeStart r (set_state r Starting w) ok u"
        using step(1) [OF u(1)] by (simp only: outcome_of.simps)
      have idle: "(GetState w r = Started) = False" "(GetState w r = Starting) = False" using False by simp_all
      show ?thesis
      proof (cases "verdict E (entering r w) (EventHook ''onResourceStarting'') r")
        case True
        with fired obtain ok' where ok': "P (DependenciesCall r (all_deps w r) True) (entering r w) ok' u"
          "ok = (ok' \<and> verdict E u TriggerBuild r)" unfolding fired_lists(1) by auto
        have "if ok' \<and> verdict E u TriggerBuild r then P (LaunchCall r) u b v else \<not> b \<and> v = give_up r u"
          using ok'(2) launch u(2) by (cases ok) auto
        with ok'(1) True show ?thesis unfolding silent_step.simps idle by (simp only: if_False HOL.simp_thms) blast
      next
        case False
        then have "\<not> ok \<and> u = entering r w" using fired unfolding fired_lists(1) by simp
        then have "\<not> b \<and> v = give_up r (entering r w)" using u(2) by simp
        then show ?thesis using False unfolding silent_step.simps idle by simp
      qed
    qed
    then show ?thesis using closed StartCall by simp
  next
    case (LaunchCall r)
    obtain ok u where u: "exec (FireCall OnStart r) w = Some (ok, u)"
      "(b, v) = (if ok then (True, set_state r Started u) else (False, give_up r u))"
      using step(2) LaunchCall by (auto simp: Resource_Launch_def split: bind_splits if_splits)
    have "fired E P OnStart r w ok u" using step(1) [OF u(1)] by (simp only: outcome_of.simps)
    then have "silent_step E P (LaunchCall r) w b v"
      using u(2) unfolding fired_lists(2) silent_step.simps started_def by (auto split: if_splits)
    then show ?thesis using closed LaunchCall by simp
  next
    case (StopCall r)
    have "silent_step E P (StopCall r) w b v"
    proof (cases "GetState w r = Stopped")
      case False
      obtain ok u where u: "exec (FireCall OnStop r) w = Some (ok, u)"
        "(b, v) = (if ok then (True, set_state r Stopped u) else (False, u))"
        using step(2) StopCall False by (auto simp: Resource_Stop_def split: bind_splits if_splits)
      have "fired E P OnStop r w ok u" using step(1) [OF u(1)] by (simp only: outcome_of.simps)
      then show ?thesis
        using u(2) False unfolding fired_lists(3) silent_step.simps stopped_def by (auto split: if_splits)
    qed (use step(2) StopCall in \<open>simp add: Resource_Stop_def\<close>)
    then show ?thesis using closed StopCall by simp
  next
    case (DependenciesCall r ds s)
    have more: "P (DependenciesCall r ds' s') u b v" if "exec (DependenciesCall r ds' s') u = Some (b, v)" for ds' s' u b v
      using step(1) [OF that] by (simp only: outcome_of.simps)
    have start: "P (StartCall q) u b v" if "exec (StartCall q) u = Some (b, v)" for q u b v
      using step(1) [OF that] by (simp only: outcome_of.simps)
    have "silent_step E P (DependenciesCall r ds s) w b v"
    proof (cases ds)
      case Nil
      then show ?thesis using step(2) DependenciesCall by simp
    next
      case (Cons d ds')
      note eq = step(2) [unfolded DependenciesCall Cons step.simps loadDeps.simps]
      show ?thesis
      proof (cases "fst (MatchConstraint w d)")
        case NoConstraint
        show ?thesis
        proof (cases "GetResource w d True")
          case None
          then show ?thesis using eq NoConstraint by (simp add: Cons)
        next
          case (Some other)
          show ?thesis
          proof (cases "GetState w other = Starting \<or> GetState w other = Started")
            case True
            then have "exec (DependenciesCall r ds' s) (add_dependant other r w) = Some (b, v)"
              using eq NoConstraint Some by auto
            then show ?thesis using more True NoConstraint Some by (simp add: Cons)
          next
            case False
            then obtain ok u where u: "exec (StartCall other) (add_dependant other r w) = Some (ok, u)"
              "(if ok then exec (DependenciesCall r ds' s) u else Some (False, add_dependency other r u)) = Some (b, v)"
              using eq NoConstraint Some by (auto split: bind_splits)
            have "if ok then P (DependenciesCall r ds' s) u b v else \<not> b \<and> v = add_dependency other r u"
              using u(2) more [of ds' s u b v] by (cases ok) simp_all
            then have "\<exists>ok u. P (StartCall other) (add_dependant other r w) ok u
                \<and> (if ok then P (DependenciesCall r ds' s) u b v else \<not> b \<and> v = add_dependency other r u)"
              using start [OF u(1)] by blast
            then show ?thesis
              using False unfolding Cons silent_step.simps NoConstraint Some
              by (simp only: ConstraintMatchResult.case option.case if_False)
          qed
        qed
      qed (use eq more Cons in simp_all)
    qed
    then show ?thesis using closed DependenciesCall by simp
  next
    case (StartNamesCall ns)
    then show ?thesis using step(2) closed [OF names] by simp
  next
    case (StopNamesCall r ns)
    then show ?thesis using step(2) closed [OF stops] by simp
  next
    case (ActsCall acts)
    then show ?thesis using step(2) by (cases acts) simp_all
  qed simp_all
qed

text \<open>The calls of starts and stops.\<close>

fun core_call :: "call \<Rightarrow> bool" where
  "core_call (StartCall _) = True"
| "core_call (LaunchCall _) = True"
| "core_call (StopCall _) = True"
| "core_call (DependenciesCall _ _ _) = True"
| "core_call (StartNamesCall _) = True"
| "core_call (StopNamesCall _ _) = True"
| "core_call _ = False"

lemma silent_induct [consumes 3, case_names step]:
  assumes "run E c w = Some (b, v)" "silent E" "core_call c"
    and "\<And>c w b v. silent_step E P c w b v \<Longrightarrow> P c w b v"
  shows "P c w b v"
  using silent_outcome [of E P, OF assms(2,4,1)] assms(3) by (cases c) simp_all

end
