(* ===== verification/ResourceStart.thy ===== *)
theory ResourceStart
  imports ResourceSilent
begin

text \<open>
  Starts in a system whose dependencies have no cycle. The measure that makes them end is the number of
  resources that are neither starting nor started, and the rank of names along the dependencies.
\<close>

subsection \<open>Ranks\<close>

text \<open>The resources that a name can resolve to, whatever their states.\<close>

definition candidate :: "resource_world \<Rightarrow> string \<Rightarrow> resource_ref \<Rightarrow> bool" where
  "candidate w n q \<longleftrightarrow> m_resources w n = Some q \<or> (n, q) \<in> set (m_resourceProvides w)"

text \<open>An entry that names a resource, not a constraint.\<close>

definition plain_entry :: "string \<Rightarrow> bool" where
  "plain_entry d \<longleftrightarrow> d = [] \<or> hd d \<noteq> CHR ''/''"

lemma match_results:
  "fst (constraint_fail w m) \<noteq> NoConstraint" "fst (match_bare w k c) \<noteq> NoConstraint"
  "fst (match_value w k u c) \<noteq> NoConstraint"
proof -
  show f: "fst (constraint_fail w m) \<noteq> NoConstraint" for m by (simp add: constraint_fail_def)
  show "fst (match_bare w k c) \<noteq> NoConstraint" "fst (match_value w k u c) \<noteq> NoConstraint"
    by (cases c; simp add: f split: prod.splits)+
qed

lemma MatchConstraint_plain: "fst (MatchConstraint w d) = NoConstraint \<longleftrightarrow> plain_entry d"
  by (auto simp: MatchConstraint_def plain_entry_def match_results split: option.splits)

lemma first_provider_in: "first_provider w ps found = Some q \<Longrightarrow> found = Some q \<or> q \<in> set ps"
  by (induction w ps found rule: first_provider.induct) (auto split: if_splits)

lemma GetResource_candidate: "GetResource w n p = Some q \<Longrightarrow> candidate w n q"
  by (auto simp: GetResource_def Let_def candidate_def dest: first_provider_in split: if_splits)

definition refs_ok :: "resource_world \<Rightarrow> bool" where
  "refs_ok w \<longleftrightarrow> (\<forall>n q. candidate w n q \<longrightarrow> q < length (pool w))"

text \<open>
  A rank of the names along the dependencies: it grows from a dependency to the resource that has it, and to
  every resource that the name of that one can resolve to.
\<close>

definition ranked :: "(string \<Rightarrow> nat) \<Rightarrow> resource_world \<Rightarrow> bool" where
  "ranked rk w \<longleftrightarrow> refs_ok w
     \<and> (\<forall>r d q p. r < length (pool w) \<longrightarrow> d \<in> set (all_deps w r) \<longrightarrow> plain_entry d \<longrightarrow> candidate w d q
          \<longrightarrow> p = r \<or> candidate w (GetName w r) p \<longrightarrow> rk (GetName w q) < rk (GetName w p))"

definition waiting_ranked :: "(string \<Rightarrow> nat) \<Rightarrow> resource_world \<Rightarrow> bool" where
  "waiting_ranked rk w \<longleftrightarrow>
     (\<forall>a d q. (a, d) \<in> set (resourceDependencies w) \<longrightarrow> candidate w d q \<longrightarrow> rk a < rk (GetName w q))"

definition start_inv :: "(string \<Rightarrow> nat) \<Rightarrow> resource_world \<Rightarrow> bool" where
  "start_inv rk w \<longleftrightarrow> ranked rk w \<and> waiting_ranked rk w"

lemma frame_candidate: "same_frame w v \<Longrightarrow> candidate v = candidate w"
  by (auto simp: candidate_def same_frame_def fun_eq_iff)

lemma frame_deps: "same_frame w v \<Longrightarrow> all_deps v r = all_deps w r"
  by (simp add: all_deps_def same_frame_def)

lemma frame_allowed: "same_frame w v \<Longrightarrow> allowed_game E v r = allowed_game E w r"
  by (simp add: allowed_game_def game_allows_def IsManifestVersionBetween_def same_frame_def)

lemma frame_ranked: "same_frame w v \<Longrightarrow> ranked rk v = ranked rk w"
  by (simp add: ranked_def refs_ok_def frame_candidate frame_deps same_frameD)

subsection \<open>Progress\<close>

definition active :: "resource_world \<Rightarrow> resource_ref \<Rightarrow> bool" where
  "active w q \<longleftrightarrow> GetState w q = Starting \<or> GetState w q = Started"

text \<open>The resources that the game allows and that are neither starting nor started.\<close>

definition idle :: "resource_env \<Rightarrow> resource_world \<Rightarrow> resource_ref set" where
  "idle E w = {q. q < length (pool w) \<and> allowed_game E w q \<and> \<not> active w q}"

lemma finite_idle [simp]: "finite (idle E w)"
  by (simp add: idle_def)

definition advances :: "resource_env \<Rightarrow> (string \<Rightarrow> nat) \<Rightarrow> resource_world \<Rightarrow> resource_world \<Rightarrow> bool" where
  "advances E rk w v \<longleftrightarrow> same_frame w v \<and> (waiting_ranked rk w \<longrightarrow> waiting_ranked rk v) \<and> idle E v \<subseteq> idle E w"

lemma progress_refl [simp, intro]: "advances E rk w w"
  by (simp add: advances_def)

lemma progress_trans [trans]: "advances E rk u v \<Longrightarrow> advances E rk v w \<Longrightarrow> advances E rk u w"
  by (auto simp: advances_def intro: same_frame_trans)

lemma progress_inv: "advances E rk w v \<Longrightarrow> start_inv rk w \<Longrightarrow> start_inv rk v"
  using frame_ranked [of w v rk] by (auto simp: advances_def start_inv_def)

lemma waiting_ranked_sub:
  "same_frame w v \<Longrightarrow> set (resourceDependencies v) \<subseteq> set (resourceDependencies w) \<Longrightarrow> waiting_ranked rk w \<Longrightarrow> waiting_ranked rk v"
  unfolding waiting_ranked_def by (simp add: frame_candidate same_frameD) blast

lemma idle_eq: "same_frame w v \<Longrightarrow> (\<And>q. active v q = active w q) \<Longrightarrow> idle E v = idle E w"
  by (simp add: idle_def frame_allowed same_frameD)

text \<open>The updates that do not touch the states, and those of a start that succeeds.\<close>

lemma progress_pool:
  assumes "pool v = pool w" "same_frame w v" "set (resourceDependencies v) \<subseteq> set (resourceDependencies w)"
  shows "advances E rk w v"
  using assms by (simp add: advances_def waiting_ranked_sub idle_eq active_def same_pool(2) [of v w])

lemma progress_events [simp]: "advances E rk w (trigger ev r w)" "advances E rk w (QueueResourceEvent ev r w)"
proof -
  show "advances E rk w (trigger ev r w)" by (rule progress_pool) (simp_all, simp add: trigger_def)
  show "advances E rk w (QueueResourceEvent ev r w)" by (rule progress_pool) (simp_all, simp add: QueueResourceEvent_def)
qed

lemma progress_updates [simp]:
  "advances E rk w (add_dependant q r w)" "advances E rk w (launching r w)" "advances E rk w (clear_waiting r w)"
  "advances E rk w (announce_start r w)"
proof -
  show "advances E rk w (add_dependant q r w)" by (rule progress_pool) (simp_all, simp add: update_defs)
  show "advances E rk w (clear_waiting r w)" by (rule progress_pool) (simp_all, auto simp: update_defs erase_key_def)
  show "advances E rk w (announce_start r w)" by (rule progress_pool) (simp_all, simp add: update_defs)
  show "advances E rk w (launching r w)" unfolding launching_def by (rule progress_trans [OF progress_events(2) progress_events(1)])
qed

lemma idle_set_state:
  "idle E (set_state r s w) = (if s = Starting \<or> s = Started then idle E w - {r}
     else if r < length (pool w) \<and> allowed_game E w r then insert r (idle E w) else idle E w)"
  by (auto simp: idle_def frame_allowed [OF frame_updates(1)] active_def GetState_set_state)

lemma progress_set_state: "s = Starting \<or> s = Started \<Longrightarrow> advances E rk w (set_state r s w)"
  by (auto simp: advances_def idle_set_state intro: waiting_ranked_sub [rotated -1])

lemma progress_entering: "advances E rk w (entering r w)"
  unfolding entering_def
  by (rule progress_trans [OF progress_set_state [of Starting] progress_events(1)]) simp

lemma entering_frame: "same_frame w (entering r w)"
  using progress_entering by (auto simp: advances_def)

lemma progress_started: "advances E rk w (started r w)"
  unfolding started_def by (rule progress_trans [OF progress_trans [OF progress_updates(3) progress_updates(4)] progress_set_state]) simp

text \<open>A start that fails leaves what it has marked, and no other resource, idle.\<close>

lemma idle_give_up: "idle E (give_up r w) \<subseteq> insert r (idle E w)" "\<not> allowed_game E w r \<Longrightarrow> idle E (give_up r w) \<subseteq> idle E w"
  by (auto simp: give_up_def idle_set_state split: if_splits)

lemma progress_give_up:
  assumes "advances E rk w v" "r \<in> idle E w \<or> \<not> allowed_game E w r"
  shows "advances E rk w (give_up r v)"
proof -
  have "idle E (give_up r v) \<subseteq> idle E w"
    using assms idle_give_up(1) [of E r v] idle_give_up(2) [of E v r] frame_allowed [of w v E r] unfolding advances_def by blast
  moreover have "waiting_ranked rk v \<Longrightarrow> waiting_ranked rk (give_up r v)"
    by (rule waiting_ranked_sub [OF frame_updates(2)]) (simp_all add: give_up_def)
  ultimately show ?thesis using assms(1) by (auto simp: advances_def intro: same_frame_trans)
qed

text \<open>The entry of a dependant that waits keeps to the ranks.\<close>

lemma progress_add_dependency:
  assumes "ranked rk w" "r < length (pool w)" "d \<in> set (all_deps w r)" "plain_entry d" "candidate w d q"
  shows "advances E rk w (add_dependency q r w)"
proof -
  have deps: "resourceDependencies (add_dependency q r w) = multi_put (GetName w q) (GetName w r) (resourceDependencies w)"
    by (simp add: add_dependency_def)
  have "waiting_ranked rk (add_dependency q r w)" if "waiting_ranked rk w"
    using that assms unfolding waiting_ranked_def frame_candidate [OF frame_updates(4)] deps ranked_def by auto
  moreover have "idle E (add_dependency q r w) = idle E w"
    by (rule idle_eq) (simp_all add: active_def)
  ultimately show ?thesis by (simp add: advances_def)
qed

text \<open>The calls of a start, with what they are given.\<close>

fun start_call :: "resource_world \<Rightarrow> call \<Rightarrow> bool" where
  "start_call w (StartCall r) = (r < length (pool w))"
| "start_call w (LaunchCall r) = (r < length (pool w))"
| "start_call w (DependenciesCall r ds s) = (r < length (pool w) \<and> set ds \<subseteq> set (all_deps w r))"
| "start_call w (StartNamesCall ns) = True"
| "start_call w _ = False"

lemma frame_start_call: "same_frame w v \<Longrightarrow> start_call v c = start_call w c"
  by (cases c) (simp_all add: same_frameD frame_deps)

lemma start_call_core: "start_call w c \<Longrightarrow> core_call c"
  by (cases c) auto

lemma start_invD:
  assumes "start_inv rk w"
  shows "ranked rk w" "refs_ok w" "waiting_ranked rk w" "GetResource w n p = Some q \<Longrightarrow> q < length (pool w)"
  using assms GetResource_candidate [of w n p q] by (auto simp: start_inv_def ranked_def refs_ok_def)

lemma start_progress:
  assumes "run E c w = Some (b, v)" "silent E" "start_call w c" "start_inv rk w"
  shows "advances E rk w v"
proof -
  define P :: outcome where "P c w b v \<longleftrightarrow> (start_call w c \<longrightarrow> start_inv rk w \<longrightarrow> advances E rk w v)" for c w b v
  have "P c w b v"
    using assms(1,2) start_call_core [OF assms(3)]
  proof (induction rule: silent_induct)
    case (step c w b v)
    have "advances E rk w v" if c: "start_call w c" and inv: "start_inv rk w"
    proof -
      note res = start_invD(4) [OF inv]
      have go: "advances E rk w z" if "P d u b z" "advances E rk w u" "start_call w d" for u z d b
        using that(1,3) progress_inv [OF that(2) inv] frame_start_call [of w u d] that(2) progress_trans [OF that(2)]
        by (simp add: P_def advances_def [of E rk w u])
      show "advances E rk w v"
      proof (cases c)
        case (StartCall r)
        have r: "start_call w (LaunchCall r)" "start_call w (DependenciesCall r (all_deps w r) True)"
          using c StartCall by simp_all
        show ?thesis
        proof (cases "active w r")
          case True
          then show ?thesis using step StartCall go [OF _ progress_refl r(1)]
            by (auto simp: active_def progress_set_state split: if_splits)
        next
          case False
          have fresh: "r \<in> idle E w \<or> \<not> allowed_game E w r" using False r by (simp add: idle_def)
          have fail: "advances E rk w (give_up r u)" if "advances E rk w u" for u by (rule progress_give_up [OF that fresh])
          have off: "(GetState w r = Started) = False" "(GetState w r = Starting) = False" using False by (simp_all add: active_def)
          show ?thesis
          proof (cases "verdict E (entering r w) (EventHook ''onResourceStarting'') r")
            case True
            then obtain ok u where u: "P (DependenciesCall r (all_deps w r) True) (entering r w) ok u"
              "if ok \<and> verdict E u TriggerBuild r then P (LaunchCall r) u b v else v = give_up r u"
              using step unfolding StartCall silent_step.simps off by (auto split: if_splits)
            have w: "advances E rk w u" by (rule go [OF u(1) progress_entering r(2)])
            show ?thesis using u(2) fail [OF w] go [OF _ w r(1)] by (auto split: if_splits)
          next
            case False
            then have "v = give_up r (entering r w)" using step unfolding StartCall silent_step.simps off by simp
            then show ?thesis using fail [OF progress_entering] by simp
          qed
        qed
      next
        case (LaunchCall r)
        show ?thesis
        proof (cases "allowed_game E w r")
          case True
          then obtain ok u where u: "P (StartNamesCall (waiting (resourceDependencies w) (GetName w r))) (launching r w) ok u"
            "v = started r u" using step LaunchCall by auto
          have "advances E rk w u" by (rule go [OF u(1) progress_updates(2)]) simp
          then show ?thesis unfolding u(2) by (rule progress_trans [OF _ progress_started])
        next
          case False
          then show ?thesis using step LaunchCall progress_give_up [OF progress_refl, of r E w rk] by simp
        qed
      next
        case (DependenciesCall r ds s)
        show ?thesis
        proof (cases ds)
          case Nil
          then show ?thesis using step DependenciesCall by simp
        next
          case (Cons d ds')
          have more: "start_call w (DependenciesCall r ds' s')" "d \<in> set (all_deps w r)" "r < length (pool w)" for s'
            using c DependenciesCall Cons by auto
          show ?thesis
          proof (cases "plain_entry d")
            case False
            then obtain s' where "P (DependenciesCall r ds' s') w b v"
              using step DependenciesCall Cons MatchConstraint_plain [of w d] by (auto split: ConstraintMatchResult.splits)
            from go [OF this progress_refl more(1)] show ?thesis .
          next
            case True
            then have m: "fst (MatchConstraint w d) = NoConstraint" by (simp add: MatchConstraint_plain)
            show ?thesis
            proof (cases "GetResource w d True")
              case None
              then show ?thesis using step DependenciesCall Cons m by simp
            next
              case (Some q)
              note st = step [unfolded DependenciesCall Cons silent_step.simps m Some ConstraintMatchResult.case option.case]
              have add: "advances E rk w (add_dependant q r w)" by simp
              show ?thesis
              proof (cases "GetState w q = Starting \<or> GetState w q = Started")
                case True
                then show ?thesis using st go [OF _ add more(1)] by auto
              next
                case False
                then obtain ok u where u: "P (StartCall q) (add_dependant q r w) ok u"
                  "if ok then P (DependenciesCall r ds' s) u b v else v = add_dependency q r u"
                  using st by (auto split: if_splits)
                have w: "advances E rk w u" by (rule go [OF u(1) add]) (simp add: res [OF Some])
                then have f: "same_frame w u" by (simp add: advances_def)
                have "advances E rk w (add_dependency q r u)"
                proof (rule progress_trans [OF w progress_add_dependency])
                  show "ranked rk u" using progress_inv [OF w inv] by (rule start_invD(1))
                  show "candidate u d q" using GetResource_candidate [OF Some] frame_candidate [OF f] by simp
                qed (use more(2,3) f \<open>plain_entry d\<close> in \<open>simp_all add: frame_deps same_frameD\<close>)
                then show ?thesis using u(2) go [OF _ w more(1)] by (auto split: if_splits)
              qed
            qed
          qed
        qed
      next
        case (StartNamesCall ns)
        then show ?thesis
        proof (cases ns)
          case (Cons n ns')
          show ?thesis
          proof (cases "GetResource w n True")
            case None
            then show ?thesis using step StartNamesCall Cons inv by (simp add: P_def)
          next
            case (Some q)
            then obtain ok u where u: "P (StartCall q) w ok u" "P (StartNamesCall ns') u b v"
              using step StartNamesCall Cons by auto
            have "advances E rk w u" by (rule go [OF u(1) progress_refl]) (simp add: res [OF Some])
            from go [OF u(2) this] show ?thesis by simp
          qed
        qed (use step in simp)
      qed (use c in auto)
    qed
    then show ?case by (simp add: P_def)
  qed
  then show ?thesis using assms by (simp add: P_def)
qed

subsection \<open>Starts end\<close>

text \<open>The rank of the resources that a loop is about to start.\<close>

definition above :: "(string \<Rightarrow> nat) \<Rightarrow> nat \<Rightarrow> resource_world \<Rightarrow> string list \<Rightarrow> bool" where
  "above rk k w ns \<longleftrightarrow> (\<forall>n\<in>set ns. \<forall>q. candidate w n q \<longrightarrow> k < rk (GetName w q))"

lemma waiting_above:
  "waiting_ranked rk w \<Longrightarrow> above rk (rk (GetName w r)) w (waiting (resourceDependencies w) (GetName w r))"
  by (auto simp: above_def waiting_def waiting_ranked_def)

lemma frame_above: "same_frame w v \<Longrightarrow> above rk k v ns = above rk k w ns"
  by (simp add: above_def frame_candidate same_frameD)

definition ends :: "resource_env \<Rightarrow> call \<Rightarrow> resource_world \<Rightarrow> bool" where
  "ends E c w \<longleftrightarrow> run E c w \<noteq> None"

text \<open>The unfolded loops.\<close>

lemma run_Names: "run E (StartNamesCall ns) w = start_names (run E) ns w"
  by (simp add: run_step [of E "StartNamesCall ns"])

lemma ends_bind: "Option.bind m f \<noteq> None \<longleftrightarrow> (\<exists>b v. m = Some (b, v) \<and> f (b, v) \<noteq> None)"
  by (cases m) auto

text \<open>
  The states that an execution passes through: those with the frame, the invariant and no more idle
  resources than a set \<open>I\<close>.
\<close>

definition within :: "resource_env \<Rightarrow> (string \<Rightarrow> nat) \<Rightarrow> resource_world \<Rightarrow> resource_ref set \<Rightarrow> resource_world \<Rightarrow> bool" where
  "within E rk w I u \<longleftrightarrow> same_frame w u \<and> start_inv rk u \<and> idle E u \<subseteq> I"

lemma within_progress: "within E rk w I u \<Longrightarrow> advances E rk u v \<Longrightarrow> within E rk w I v"
  using progress_inv by (auto simp: within_def advances_def intro: same_frame_trans)

lemma within_run:
  "within E rk w I u \<Longrightarrow> run E c u = Some (b, v) \<Longrightarrow> silent E \<Longrightarrow> start_call w c \<Longrightarrow> within E rk w I v"
  using start_progress [of E c u b v rk] within_progress [of E rk w I u v] frame_start_call [of w u c]
  by (simp add: within_def)

lemma within_ref: "within E rk w I u \<Longrightarrow> GetResource u n p = Some q \<Longrightarrow> candidate w n q \<and> q < length (pool w)"
  using GetResource_candidate [of u n p q] start_invD(4) [of rk u n p q] frame_candidate [of w u]
  by (auto simp: within_def same_frameD)

lemma names_end:
  assumes "silent E" "within E rk w I u"
    and "\<And>u q n. within E rk w I u \<Longrightarrow> n \<in> set ns \<Longrightarrow> candidate w n q \<Longrightarrow> q < length (pool w) \<Longrightarrow> ends E (StartCall q) u"
  shows "ends E (StartNamesCall ns) u"
  using assms(2,3)
proof (induction ns arbitrary: u)
  case (Cons n ns)
  have IH: "ends E (StartNamesCall ns) v" if "within E rk w I v" for v
    by (rule Cons.IH [OF that Cons.prems(2)]) simp_all
  show ?case
  proof (cases "GetResource u n True")
    case None
    then show ?thesis using IH [OF Cons.prems(1)] by (simp add: ends_def run_Names [of E "n # ns"])
  next
    case (Some q)
    note q = within_ref [OF Cons.prems(1) Some]
    have "ends E (StartCall q) u" by (rule Cons.prems(2)) (use q Cons.prems(1) in auto)
    then obtain b v where v: "run E (StartCall q) u = Some (b, v)" by (auto simp: ends_def)
    have "within E rk w I v" by (rule within_run [OF Cons.prems(1) v assms(1)]) (simp add: q)
    then have "ends E (StartNamesCall ns) v" by (rule IH)
    then show ?thesis using v Some by (simp add: ends_def run_Names [of E "n # ns"])
  qed
qed (simp add: ends_def run_Names)

lemma deps_end:
  assumes "silent E" "within E rk w I u" "r < length (pool w)" "set ds \<subseteq> set (all_deps w r)"
    and "\<And>u q d. within E rk w I u \<Longrightarrow> d \<in> set ds \<Longrightarrow> plain_entry d \<Longrightarrow> candidate w d q \<Longrightarrow> q < length (pool w)
           \<Longrightarrow> \<not> active u q \<Longrightarrow> ends E (StartCall q) u"
  shows "ends E (DependenciesCall r ds s) u"
  using assms(2,4,5)
proof (induction ds arbitrary: u s)
  case (Cons d ds)
  have more: "ends E (DependenciesCall r ds s') v" if "within E rk w I v" for v s'
    by (rule Cons.IH [OF that _ Cons.prems(3)]) (use Cons.prems(2) in auto)
  show ?case
  proof (cases "plain_entry d")
    case False
    then show ?thesis using more [OF Cons.prems(1)] MatchConstraint_plain [of u d]
      by (auto simp: ends_def run_Deps [of E r "d # ds"] split: ConstraintMatchResult.splits)
  next
    case True
    then have m: "fst (MatchConstraint u d) = NoConstraint" by (simp add: MatchConstraint_plain)
    show ?thesis
    proof (cases "GetResource u d True")
      case None
      then show ?thesis using m by (simp add: ends_def run_Deps [of E r "d # ds"])
    next
      case (Some q)
      note q = within_ref [OF Cons.prems(1) Some]
      have add: "within E rk w I (add_dependant q r u)" by (rule within_progress [OF Cons.prems(1)]) simp
      show ?thesis
      proof (cases "active u q")
        case True
        then show ?thesis using m Some more [OF add] by (simp add: ends_def run_Deps [of E r "d # ds"] active_def)
      next
        case False
        have "ends E (StartCall q) (add_dependant q r u)"
          by (rule Cons.prems(3) [OF add]) (use q True False in \<open>auto simp: active_def\<close>)
        then obtain b v where v: "run E (StartCall q) (add_dependant q r u) = Some (b, v)" by (auto simp: ends_def)
        have "within E rk w I v" by (rule within_run [OF add v assms(1)]) (simp add: q)
        then have "ends E (DependenciesCall r ds s) v" by (rule more)
        then show ?thesis using m Some False v by (cases b) (simp_all add: ends_def run_Deps [of E r "d # ds"] active_def)
      qed
    qed
  qed
qed (simp add: ends_def run_Deps)

lemma launch_end:
  assumes "silent E" "allowed_game E u r \<Longrightarrow> ends E (StartNamesCall (waiting (resourceDependencies u) (GetName u r))) (launching r u)"
  shows "ends E (LaunchCall r) u"
  using assms(2) by (auto simp: ends_def run_Launch Fire_start [OF assms(1)] split: bind_splits)

lemma start_end:
  assumes "silent E" "\<not> active u r" "ends E (DependenciesCall r (all_deps u r) True) (entering r u)"
    and "\<And>ok v. run E (DependenciesCall r (all_deps u r) True) (entering r u) = Some (ok, v) \<Longrightarrow> ends E (LaunchCall r) v"
  shows "ends E (StartCall r) u"
proof (cases "verdict E (entering r u) (EventHook ''onResourceStarting'') r")
  case True
  obtain ok v where v: "run E (DependenciesCall r (all_deps u r) True) (entering r u) = Some (ok, v)"
    using assms(3) by (auto simp: ends_def)
  show ?thesis
    using assms(2) v assms(4) [OF v] True
    by (cases ok; cases "verdict E v TriggerBuild r") (auto simp: ends_def run_Start Fire_before [OF assms(1)] active_def)
qed (use assms(2) in \<open>simp add: ends_def run_Start Fire_before [OF assms(1)] active_def\<close>)

text \<open>
  Every start ends: a fresh start of a resource that the game allows leaves fewer idle resources; one of a
  resource that it does not allow only goes down the ranks, and the start of the dependants that wait goes up.
\<close>

lemma starts_end:
  assumes silent: "silent E" and inv: "start_inv rk w"
  shows "finite I \<Longrightarrow> within E rk w I u \<Longrightarrow> r < length (pool w) \<Longrightarrow> ends E (StartCall r) u \<and> ends E (LaunchCall r) u"
proof (induction I arbitrary: u r rule: finite_psubset_induct)
  case (psubset I)
  have less: "ends E (StartCall q) v \<and> ends E (LaunchCall q) v"
    if "within E rk w (idle E z) v" "idle E z \<subset> I" "q < length (pool w)" for z v q
    using psubset.IH [OF that(2,1,3)] .
  have enter: "within E rk w (idle E (entering q v)) (entering q v)" if "within E rk w I v" for q v
    using within_progress [OF that progress_entering] by (simp add: within_def)
  have drop: "idle E (entering q v) \<subset> I" if "within E rk w I v" "q \<in> idle E v" for q v
  proof -
    have "idle E (entering q v) = idle E v - {q}"
      using idle_eq [of "set_state q Starting v" "entering q v" E] by (simp add: entering_def active_def idle_set_state)
    then show ?thesis using that by (auto simp: within_def)
  qed
  have fresh_allowed: "ends E (StartCall q) v"
    if v: "within E rk w I v" and q: "q \<in> idle E v" "q < length (pool w)" for q v
  proof (rule start_end [OF silent])
    note e = enter [OF v, of q] and d = drop [OF v q(1)]
    have deps: "all_deps v q = all_deps w q" using v by (simp add: within_def frame_deps)
    show "\<not> active v q" using q by (simp add: idle_def)
    show "ends E (DependenciesCall q (all_deps v q) True) (entering q v)"
      using less [OF _ d] by (intro deps_end [OF silent e q(2)]) (simp_all add: deps)
    show "ends E (LaunchCall q) z" if "run E (DependenciesCall q (all_deps v q) True) (entering q v) = Some (ok, z)" for ok z
      using less [OF within_run [OF e that silent] d] q by (simp add: deps)
  qed
  have fresh: "ends E (StartCall q) v"
    if "within E rk w I v" "\<not> active v q" "q < length (pool w)" for q v
    using that
  proof (induction "rk (GetName w q)" arbitrary: q v rule: less_induct)
    case (less q v)
    show ?case
    proof (cases "allowed_game E v q")
      case True
      with less.prems show ?thesis by (intro fresh_allowed) (auto simp: idle_def within_def same_frameD)
    next
      case False
      have deps: "all_deps v q = all_deps w q" using less.prems(1) by (simp add: within_def frame_deps)
      have e: "within E rk w I (entering q v)" by (rule within_progress [OF less.prems(1) progress_entering])
      show ?thesis
      proof (rule start_end [OF silent less.prems(2)])
        show "ends E (DependenciesCall q (all_deps v q) True) (entering q v)"
        proof (rule deps_end [OF silent e less.prems(3)])
          fix z p d
          assume z: "within E rk w I z" and d: "d \<in> set (all_deps v q)" "plain_entry d" "candidate w d p"
            and p: "p < length (pool w)" "\<not> active z p"
          have "rk (GetName w p) < rk (GetName w q)"
            using start_invD(1) [OF inv] d less.prems(3) unfolding ranked_def deps by blast
          then show "ends E (StartCall p) z" using less.hyps z p by blast
        qed (simp add: deps)
        fix ok z
        assume z: "run E (DependenciesCall q (all_deps v q) True) (entering q v) = Some (ok, z)"
        have "same_frame v z" by (rule same_frame_trans [OF _ run_frame [OF z]]) (simp add: entering_frame)
        then have "\<not> allowed_game E z q" using False frame_allowed [of v z E q] by simp
        then show "ends E (LaunchCall q) z" by (intro launch_end [OF silent]) simp
      qed
    qed
  qed
  define top where "top = Max ((\<lambda>q. rk (GetName w q)) ` {..<length (pool w)})"
  have launch: "ends E (LaunchCall q) v" if "within E rk w I v" "q < length (pool w)" for q v
    using that
  proof (induction "top - rk (GetName w q)" arbitrary: q v rule: less_induct)
    case (less q v)
    show ?case
    proof (rule launch_end [OF silent], rule names_end [OF silent])
      show "within E rk w I (launching q v)" by (rule within_progress [OF less.prems(1)]) simp
      fix z p n
      assume z: "within E rk w I z" and n: "n \<in> set (waiting (resourceDependencies v) (GetName v q))" "candidate w n p"
        and p: "p < length (pool w)"
      have "above rk (rk (GetName v q)) v (waiting (resourceDependencies v) (GetName v q))"
        using waiting_above start_invD(3) less.prems(1) unfolding within_def by blast
      then have "rk (GetName w q) < rk (GetName w p)"
        using n less.prems(1) frame_candidate [of w v] by (auto simp: above_def within_def same_frameD)
      moreover have "rk (GetName w p) \<le> top" unfolding top_def using p by (intro Max_ge) auto
      ultimately have l: "ends E (LaunchCall p) z" using less.hyps [OF _ z p] by simp
      show "ends E (StartCall p) z"
        using l fresh [OF z _ p] by (cases "active z p") (auto simp: active_def ends_def run_Start)
    qed
  qed
  show ?case
    using launch [OF psubset.prems] fresh [OF psubset.prems(1) _ psubset.prems(2)]
    by (cases "active u r") (auto simp: active_def ends_def run_Start)
qed

theorem Start_ends:
  assumes "silent E" "start_inv rk w" "r < length (pool w)"
  shows "\<exists>b v. run E (StartCall r) w = Some (b, v)"
  using starts_end [OF assms(1,2) finite_idle [of E w], where u = w and r = r] assms by (auto simp: within_def ends_def)

end
