(* ===== verification/ResourceStable.thy ===== *)
theory ResourceStable
  imports ResourceStart
begin

text \<open>
  The invariant that dependencies are for: a resource that is started has all its dependencies started. It
  is kept by starts that succeed and by stops, in a system in which no resource provides the name of
  another, the dependencies have no cycle and scripts do not interfere. Without these conditions it fails,
  see \<open>ResourceFaults\<close>.
\<close>

subsection \<open>The invariant\<close>

definition in_registry :: "resource_world \<Rightarrow> resource_ref \<Rightarrow> bool" where
  "in_registry w q \<longleftrightarrow> m_resources w (GetName w q) = Some q"

definition names_ok :: "resource_world \<Rightarrow> bool" where
  "names_ok w \<longleftrightarrow> m_resourceProvides w = []
     \<and> (\<forall>n q. m_resources w n = Some q \<longrightarrow> q < length (pool w) \<and> GetName w q = n)"

text \<open>The dependencies of a resource are started and have noted it as their dependant.\<close>

definition entry_runs :: "resource_world \<Rightarrow> resource_ref \<Rightarrow> string \<Rightarrow> bool" where
  "entry_runs w q d \<longleftrightarrow> (\<exists>p. m_resources w d = Some p \<and> GetState w p = Started
     \<and> (d, GetName w q) \<in> set (resourceDependants w))"

definition consistent :: "resource_world \<Rightarrow> bool" where
  "consistent w \<longleftrightarrow> (\<forall>q<length (pool w). GetState w q = Started \<longrightarrow>
     in_registry w q \<and> (\<forall>d\<in>set (all_deps w q). plain_entry d \<longrightarrow> entry_runs w q d))"

definition dependants_ranked :: "(string \<Rightarrow> nat) \<Rightarrow> resource_world \<Rightarrow> bool" where
  "dependants_ranked rk w \<longleftrightarrow>
     (\<forall>a n q. (a, n) \<in> set (resourceDependants w) \<longrightarrow> m_resources w n = Some q \<longrightarrow> rk a < rk (GetName w q))"

definition base_inv :: "(string \<Rightarrow> nat) \<Rightarrow> resource_world \<Rightarrow> bool" where
  "base_inv rk w \<longleftrightarrow> ranked rk w \<and> names_ok w \<and> dependants_ranked rk w \<and> consistent w"

lemma names_okD:
  assumes "names_ok w"
  shows "m_resources w n = Some q \<Longrightarrow> q < length (pool w)" "m_resources w n = Some q \<Longrightarrow> GetName w q = n"
    "GetResource w n p = m_resources w n" "candidate w n q \<longleftrightarrow> m_resources w n = Some q"
  using assms by (auto simp: names_ok_def GetResource_def Let_def multi_get_def candidate_def)

lemma frame_registry: "same_frame w v \<Longrightarrow> names_ok v = names_ok w" "same_frame w v \<Longrightarrow> in_registry v q = in_registry w q"
  by (simp_all add: names_ok_def in_registry_def same_frame_def)

lemma frame_dependants:
  "same_frame w v \<Longrightarrow> set (resourceDependants v) \<subseteq> set (resourceDependants w) \<Longrightarrow> dependants_ranked rk w \<Longrightarrow> dependants_ranked rk v"
  unfolding dependants_ranked_def by (simp add: same_frameD) blast

subsection \<open>Starts\<close>

text \<open>What a start keeps: it only adds started resources and dependants.\<close>

definition grows :: "(string \<Rightarrow> nat) \<Rightarrow> resource_world \<Rightarrow> resource_world \<Rightarrow> bool" where
  "grows rk w v \<longleftrightarrow> same_frame w v \<and> base_inv rk v
     \<and> set (resourceDependants w) \<subseteq> set (resourceDependants v)
     \<and> (\<forall>q. GetState w q = Started \<longrightarrow> GetState v q = Started)"

definition same_starting :: "resource_world \<Rightarrow> resource_world \<Rightarrow> bool" where
  "same_starting w v \<longleftrightarrow> (\<forall>q. GetState v q = Starting \<longleftrightarrow> GetState w q = Starting)"

lemma grows_refl: "base_inv rk w \<Longrightarrow> grows rk w w"
  by (simp add: grows_def)

lemma grows_trans: "grows rk u v \<Longrightarrow> grows rk v w \<Longrightarrow> grows rk u w"
  by (auto simp: grows_def intro: same_frame_trans)

lemma same_starting_trans: "same_starting u v \<Longrightarrow> same_starting v w \<Longrightarrow> same_starting u w"
  by (simp add: same_starting_def)

lemma entry_runs_mono:
  "same_frame w v \<Longrightarrow> set (resourceDependants w) \<subseteq> set (resourceDependants v)
   \<Longrightarrow> (\<And>p. GetState w p = Started \<Longrightarrow> GetState v p = Started) \<Longrightarrow> entry_runs w q d \<Longrightarrow> entry_runs v q d"
  by (auto simp: entry_runs_def same_frameD)

lemma grows_entry: "grows rk w v \<Longrightarrow> entry_runs w q d \<Longrightarrow> entry_runs v q d"
  unfolding grows_def by (blast intro: entry_runs_mono)

text \<open>A step that starts at most one resource, whose dependencies run.\<close>

lemma grows_step:
  assumes "base_inv rk w" "same_frame w v" "set (resourceDependants w) \<subseteq> set (resourceDependants v)" "dependants_ranked rk v"
    and "\<And>q. GetState w q = Started \<Longrightarrow> GetState v q = Started"
    and "\<And>q. GetState v q = Started \<Longrightarrow> GetState w q \<noteq> Started \<Longrightarrow> q < length (pool w) \<Longrightarrow>
           in_registry w q \<and> (\<forall>d\<in>set (all_deps w q). plain_entry d \<longrightarrow> entry_runs v q d)"
  shows "grows rk w v"
proof -
  have "consistent v"
    unfolding consistent_def
  proof (intro allI impI)
    fix q assume q: "q < length (pool v)" "GetState v q = Started"
    have len: "q < length (pool w)" using q(1) assms(2) by (simp add: same_frameD)
    show "in_registry v q \<and> (\<forall>d\<in>set (all_deps v q). plain_entry d \<longrightarrow> entry_runs v q d)"
    proof (cases "GetState w q = Started")
      case True
      then have "in_registry w q \<and> (\<forall>d\<in>set (all_deps w q). plain_entry d \<longrightarrow> entry_runs w q d)"
        using assms(1) len by (simp add: base_inv_def consistent_def)
      then show ?thesis
        using entry_runs_mono [OF assms(2,3,5), of q] by (simp add: frame_deps [OF assms(2)] frame_registry(2) [OF assms(2)])
    next
      case False
      then show ?thesis using assms(6) [OF q(2) False len] by (simp add: frame_deps [OF assms(2)] frame_registry(2) [OF assms(2)])
    qed
  qed
  moreover have "ranked rk v" "names_ok v"
    using assms(1) frame_ranked [OF assms(2)] frame_registry(1) [OF assms(2)] by (simp_all add: base_inv_def)
  ultimately show ?thesis using assms by (simp add: grows_def base_inv_def)
qed

lemma grows_same:
  assumes "base_inv rk w" "same_frame w v" "resourceDependants v = resourceDependants w"
    and "\<And>q. GetState v q = Started \<longleftrightarrow> GetState w q = Started"
  shows "grows rk w v"
proof (rule grows_step [OF assms(1,2)])
  show "dependants_ranked rk v" using frame_dependants [OF assms(2)] assms(1,3) by (simp add: base_inv_def)
qed (use assms in simp_all)

lemma add_dependant_fields [simp]:
  "m_resources (add_dependant q r w) = m_resources w" "resourceDependencies (add_dependant q r w) = resourceDependencies w"
  by (simp_all add: add_dependant_def)

lemma grows_add_dependant:
  assumes "base_inv rk w" "r < length (pool w)" "in_registry w r" "d \<in> set (all_deps w r)" "plain_entry d" "m_resources w d = Some q"
  shows "grows rk w (add_dependant q r w)"
proof (rule grows_step [OF assms(1)])
  have reg: "names_ok w" and rank: "ranked rk w" and dep: "dependants_ranked rk w"
    using assms(1) by (simp_all add: base_inv_def)
  have deps: "set (resourceDependants (add_dependant q r w)) = insert (GetName w q, GetName w r) (set (resourceDependants w))"
    by (simp add: add_dependant_def)
  then show "set (resourceDependants w) \<subseteq> set (resourceDependants (add_dependant q r w))" by auto
  have "rk (GetName w q) < rk (GetName w r)"
    using rank assms(2,4,5,6) names_okD(4) [OF reg] unfolding ranked_def by blast
  moreover have "m_resources (add_dependant q r w) = m_resources w" by (simp add: add_dependant_def)
  ultimately show "dependants_ranked rk (add_dependant q r w)"
    using dep assms(3) unfolding dependants_ranked_def deps by (auto simp: in_registry_def)
qed simp_all

text \<open>What the calls of a start are given and what they give.\<close>

definition lowest :: "(string \<Rightarrow> nat) \<Rightarrow> resource_world \<Rightarrow> nat \<Rightarrow> bool" where
  "lowest rk w k \<longleftrightarrow> (\<forall>q. GetState w q = Starting \<longrightarrow> k \<le> rk (GetName w q))"

lemma lowest_same: "same_frame w v \<Longrightarrow> same_starting w v \<Longrightarrow> lowest rk v k = lowest rk w k"
  by (simp add: lowest_def same_starting_def same_frameD)

fun grow_pre :: "(string \<Rightarrow> nat) \<Rightarrow> resource_world \<Rightarrow> call \<Rightarrow> bool" where
  "grow_pre rk w (StartCall r) = (r < length (pool w) \<and> in_registry w r \<and> GetState w r \<noteq> Starting \<and> lowest rk w (Suc (rk (GetName w r))))"
| "grow_pre rk w (LaunchCall r) = (r < length (pool w) \<and> in_registry w r \<and> GetState w r = Starting
     \<and> (\<forall>d\<in>set (all_deps w r). plain_entry d \<longrightarrow> entry_runs w r d))"
| "grow_pre rk w (DependenciesCall r ds s) = (r < length (pool w) \<and> in_registry w r \<and> GetState w r = Starting
     \<and> set ds \<subseteq> set (all_deps w r) \<and> lowest rk w (rk (GetName w r)))"
| "grow_pre rk w (StartNamesCall ns) = (ns = [])"
| "grow_pre rk w _ = False"

fun grow_post :: "call \<Rightarrow> resource_world \<Rightarrow> bool \<Rightarrow> resource_world \<Rightarrow> bool" where
  "grow_post (StartCall r) w b v = (same_starting w v \<and> (b \<longrightarrow> GetState v r = Started))"
| "grow_post (LaunchCall r) w b v =
     ((\<forall>q. q \<noteq> r \<longrightarrow> (GetState v q = Starting \<longleftrightarrow> GetState w q = Starting)) \<and> GetState v r \<noteq> Starting
      \<and> (b \<longrightarrow> GetState v r = Started))"
| "grow_post (DependenciesCall r ds s) w b v =
     (same_starting w v \<and> (b \<longrightarrow> s \<and> (\<forall>d\<in>set ds. plain_entry d \<longrightarrow> entry_runs v r d)))"
| "grow_post (StartNamesCall ns) w b v = (v = w)"
| "grow_post _ w b v = True"

definition grown :: "(string \<Rightarrow> nat) \<Rightarrow> call \<Rightarrow> resource_world \<Rightarrow> bool \<Rightarrow> resource_world \<Rightarrow> bool" where
  "grown rk c w b v \<longleftrightarrow> grows rk w v \<and> (b \<longrightarrow> resourceDependencies v = []) \<and> grow_post c w b v"

lemma grow_Launch:
  assumes "silent_step E P (LaunchCall r) w b v" "base_inv rk w" "resourceDependencies w = []" "grow_pre rk w (LaunchCall r)"
    and "\<And>b u. P (StartNamesCall []) (launching r w) b u \<Longrightarrow> u = launching r w"
  shows "grown rk (LaunchCall r) w b v"
proof (cases "allowed_game E w r")
  case True
  then have v: "b" "v = started r (launching r w)"
    using assms(1,3,5) by (auto simp: waiting_def multi_get_def std_set_def)
  have state: "GetState v q = (if q = r \<and> r < length (pool w) then Started else GetState w q)" for q
    by (simp add: v(2) GetState_started same_pool(2) [of "launching r w" w])
  have frame: "same_frame w v" unfolding v(2) by (rule same_frame_trans [OF launching_frame started_frame])
  have "grows rk w v"
  proof (rule grows_step [OF assms(2) frame])
    show "dependants_ranked rk v" using frame_dependants [OF frame] assms(2) by (simp add: v(2) base_inv_def)
    fix q assume "GetState v q = Started" "GetState w q \<noteq> Started"
    then have "q = r" by (simp add: state split: if_splits)
    moreover have "entry_runs v r d" if "entry_runs w r d" for d
      by (rule entry_runs_mono [OF frame _ _ that]) (simp_all add: v(2), simp flip: v(2) add: state)
    ultimately show "in_registry w q \<and> (\<forall>d\<in>set (all_deps w q). plain_entry d \<longrightarrow> entry_runs v q d)"
      using assms(4) by simp
  qed (simp_all add: v(2), simp flip: v(2) add: state)
  moreover have "resourceDependencies v = []" using assms(3) by (simp add: v(2) erase_key_def)
  ultimately show ?thesis using assms(4) v(1) by (simp add: grown_def state)
next
  case False
  then have v: "\<not> b" "v = give_up r w" using assms(1) by simp_all
  have "grows rk w v" unfolding v(2)
    by (rule grows_same [OF assms(2)]) (use assms(4) in \<open>auto simp: GetState_set_state give_up_def split: if_splits\<close>)
  then show ?thesis using assms(4) v by (auto simp: grown_def GetState_give_up)
qed

lemma base_invD:
  assumes "base_inv rk w"
  shows "ranked rk w" "names_ok w" "m_resources w n = Some q \<Longrightarrow> q < length (pool w) \<and> in_registry w q"
    "GetResource w n p = m_resources w n"
  using assms names_okD [of w] by (auto simp: base_inv_def in_registry_def)

lemma grow_Start:
  assumes "silent_step E P (StartCall r) w b v" and inv: "base_inv rk w" and pend: "resourceDependencies w = []"
    and pre: "grow_pre rk w (StartCall r)"
    and IH: "\<And>c u b v. P c u b v \<Longrightarrow> base_inv rk u \<Longrightarrow> resourceDependencies u = [] \<Longrightarrow> grow_pre rk u c \<Longrightarrow> grown rk c u b v"
  shows "grown rk (StartCall r) w b v"
proof (cases "GetState w r = Started")
  case True
  then have v: "b" "v = set_state r Started w" using assms(1) by simp_all
  have state: "GetState v q = GetState w q" for q using True by (simp add: v(2) GetState_set_state)
  have "grows rk w v" by (rule grows_same [OF inv]) (simp_all add: v(2), simp flip: v(2) add: state)
  moreover have "resourceDependencies v = []" using pend by (simp add: v(2))
  ultimately show ?thesis using True v(1) by (simp add: grown_def same_starting_def state)
next
  case False
  have r: "r < length (pool w)" "in_registry w r" "GetState w r \<noteq> Starting" "lowest rk w (Suc (rk (GetName w r)))"
    using pre by simp_all
  have off: "(GetState w r = Started) = False" "(GetState w r = Starting) = False" using r False by simp_all
  let ?e = "entering r w"
  have e: "grows rk w ?e" "resourceDependencies ?e = []"
    using pend off by (auto intro!: grows_same [OF inv] simp: entering_frame GetState_entering split: if_splits)
  have fail: "grown rk (StartCall r) w False (give_up r u)"
    if "grows rk ?e u" "same_starting ?e u" for u
  proof -
    have g: "grows rk w u" by (rule grows_trans [OF e(1) that(1)])
    have "r < length (pool u)" using r(1) g same_frameD(1) [of w u] by (simp add: grows_def)
    moreover have "GetState u r = Starting" using that(2) r(1) by (simp add: same_starting_def GetState_entering)
    ultimately have state: "GetState (give_up r u) q = (if q = r then Stopped else GetState u q)" for q
      by (simp add: GetState_give_up)
    have "grows rk u (give_up r u)"
      using g \<open>GetState u r = Starting\<close> by (intro grows_same) (auto simp: grows_def state, simp add: give_up_def)
    then have "grows rk w (give_up r u)" by (rule grows_trans [OF g])
    moreover have "same_starting w (give_up r u)"
      using that(2) off(2) by (auto simp: same_starting_def state GetState_entering)
    ultimately show ?thesis by (simp add: grown_def)
  qed
  show ?thesis
  proof (cases "verdict E ?e (EventHook ''onResourceStarting'') r")
    case False
    then have "\<not> b \<and> v = give_up r ?e" using assms(1) unfolding silent_step.simps off by simp
    then show ?thesis using fail [of ?e] e(1) by (simp add: grows_def same_starting_def)
  next
    case True
    then obtain ok u where u: "P (DependenciesCall r (all_deps w r) True) ?e ok u"
      "if ok \<and> verdict E u TriggerBuild r then P (LaunchCall r) u b v else \<not> b \<and> v = give_up r u"
      using assms(1) unfolding silent_step.simps off by (auto split: if_splits)
    have einv: "base_inv rk ?e" using e(1) by (simp add: grows_def)
    have frame: "same_frame w ?e" by (rule entering_frame)
    have pre_e: "grow_pre rk ?e (DependenciesCall r (all_deps w r) True)"
      using r by (auto simp: same_frameD [OF frame] frame_deps [OF frame] frame_registry(2) [OF frame] GetState_entering
          lowest_def Suc_le_eq dest: less_imp_le split: if_splits)
    from IH [OF u(1) einv e(2) this] have g: "grown rk (DependenciesCall r (all_deps w r) True) ?e ok u" .
    then have gu: "grows rk ?e u" "same_starting ?e u" by (simp_all add: grown_def)
    show ?thesis
    proof (cases "ok \<and> verdict E u TriggerBuild r")
      case False
      then show ?thesis using u(2) fail [OF gu] by (cases b) (auto split: if_splits)
    next
      case True
      have fu: "same_frame ?e u" using gu(1) by (simp add: grows_def)
      have "grow_pre rk u (LaunchCall r)"
        using g True r gu(2) same_frame_trans [OF frame fu] fu
        by (auto simp: grown_def same_frameD frame_deps frame_registry(2) same_starting_def GetState_entering)
      moreover have "P (LaunchCall r) u b v" "base_inv rk u" "resourceDependencies u = []"
        using u(2) g True by (simp_all add: grown_def grows_def)
      ultimately have l: "grown rk (LaunchCall r) u b v" by (intro IH)
      have "grows rk w v" using grows_trans [OF grows_trans [OF e(1) gu(1)]] l by (simp add: grown_def)
      moreover have "same_starting w v"
        using l gu(2) off(2) by (auto simp: grown_def same_starting_def GetState_entering split: if_splits)
      ultimately show ?thesis using l by (simp add: grown_def)
    qed
  qed
qed

lemma grow_Dependencies:
  assumes "silent_step E P (DependenciesCall r ds s) w b v" and inv: "base_inv rk w" and pend: "resourceDependencies w = []"
    and pre: "grow_pre rk w (DependenciesCall r ds s)"
    and IH: "\<And>c u b v. P c u b v \<Longrightarrow> base_inv rk u \<Longrightarrow> resourceDependencies u = [] \<Longrightarrow> grow_pre rk u c \<Longrightarrow> grown rk c u b v"
  shows "grown rk (DependenciesCall r ds s) w b v"
proof (cases ds)
  case Nil
  then show ?thesis using assms(1) inv pend by (simp add: grown_def grows_refl same_starting_def)
next
  case (Cons d ds')
  have r: "r < length (pool w)" "in_registry w r" "GetState w r = Starting" "lowest rk w (rk (GetName w r))"
    and d: "d \<in> set (all_deps w r)" "set ds' \<subseteq> set (all_deps w r)" using pre Cons by auto
  have more: "grown rk (DependenciesCall r (d # ds') s) w b v"
    if "grows rk w u" "same_starting w u" "P (DependenciesCall r ds' s') u b v" "resourceDependencies u = []"
      "b \<longrightarrow> s' \<longrightarrow> s" "plain_entry d \<longrightarrow> entry_runs u r d" for u s'
  proof -
    have f: "same_frame w u" "base_inv rk u" using that(1) by (simp_all add: grows_def)
    have "grow_pre rk u (DependenciesCall r ds' s')"
      using r d(2) that(2) lowest_same [OF f(1) that(2), of rk] 
      by (simp add: same_frameD [OF f(1)] frame_registry(2) [OF f(1)] frame_deps [OF f(1)] same_starting_def)
    then have g: "grown rk (DependenciesCall r ds' s') u b v" by (rule IH [OF that(3) f(2) that(4)])
    have "entry_runs v r d" if "entry_runs u r d" using g that grows_entry by (auto simp: grown_def)
    then show ?thesis
      using g that(1,2,5,6) grows_trans same_starting_trans by (auto simp: grown_def)
  qed
  show ?thesis
  proof (cases "plain_entry d")
    case False
    then obtain s' where "P (DependenciesCall r ds' s') w b v" "s' \<longrightarrow> s"
      using assms(1) Cons MatchConstraint_plain [of w d] by (auto split: ConstraintMatchResult.splits)
    then show ?thesis
      using more [OF grows_refl [OF inv]] pend False Cons by (auto simp: same_starting_def)
  next
    case True
    then have m: "fst (MatchConstraint w d) = NoConstraint" by (simp add: MatchConstraint_plain)
    note st = assms(1) [unfolded Cons silent_step.simps m ConstraintMatchResult.case base_invD(4) [OF inv]]
    show ?thesis
    proof (cases "m_resources w d")
      case None
      then show ?thesis using st inv pend by (simp add: grown_def grows_refl same_starting_def)
    next
      case (Some q)
      let ?a = "add_dependant q r w"
      have add: "grows rk w ?a" by (rule grows_add_dependant [OF inv r(1,2) d(1) True Some])
      have q: "q < length (pool w)" "in_registry w q" "GetName w q = d"
        using base_invD(3) [OF inv Some] names_okD(2) [OF base_invD(2) [OF inv] Some] by auto
      have rank: "rk (GetName w q) < rk (GetName w r)"
        using base_invD(1) [OF inv] r(1) d(1) True Some names_okD(4) [OF base_invD(2) [OF inv]]
        unfolding ranked_def by blast
      have mem: "(d, GetName w r) \<in> set (resourceDependants ?a)" by (simp add: add_dependant_def q)
      have ns: "GetState w q \<noteq> Starting"
        using r(4) rank by (auto simp: lowest_def)
      show ?thesis
      proof (cases "GetState w q = Started")
        case True
        have "entry_runs ?a r d" using Some True mem by (auto simp: entry_runs_def)
        moreover have "P (DependenciesCall r ds' s) ?a b v" using st Some True by simp
        ultimately show ?thesis
          using more [OF add] Cons pend by (simp add: same_starting_def)
      next
        case False
        then obtain ok u where u: "P (StartCall q) ?a ok u"
          "if ok then P (DependenciesCall r ds' s) u b v else \<not> b \<and> v = add_dependency q r u"
          using st Some ns by auto
        have fa: "same_frame w ?a" by simp
        have "grow_pre rk ?a (StartCall q)"
          using q ns r(4) rank by (force simp: same_frameD [OF fa] frame_registry(2) [OF fa] lowest_def)
        moreover have "base_inv rk ?a" using add by (simp add: grows_def)
        moreover have "resourceDependencies ?a = []" using pend by (simp add: add_dependant_def)
        ultimately have g: "grown rk (StartCall q) ?a ok u" by (intro IH [OF u(1)])
        have gw: "grows rk w u" "same_starting w u"
          using g grows_trans [OF add] by (auto simp: grown_def same_starting_def)
        have fu: "same_frame w u" "base_inv rk u" using gw by (simp_all add: grows_def)
        show ?thesis
        proof (cases ok)
          case True
          have "entry_runs u r d"
            using g True Some mem by (auto simp: grown_def grows_def entry_runs_def same_frameD [OF fu(1)])
          then show ?thesis using more [OF gw] u(2) True g Cons by (auto simp: grown_def)
        next
          case False
          have "grows rk u (add_dependency q r u)"
            by (rule grows_same [OF fu(2)]) (simp_all, simp add: add_dependency_def)
          then have "grows rk w (add_dependency q r u)" by (rule grows_trans [OF gw(1)])
          then show ?thesis using False u(2) gw(2) by (simp add: grown_def same_starting_def)
        qed
      qed
    qed
  qed
qed

text \<open>
  A start in a system that is consistent, in which nothing waits: it stays consistent, whatever the result.
\<close>

lemma Start_grows:
  assumes "run E (StartCall r) w = Some (b, v)" "silent E" "base_inv rk w" "resourceDependencies w = []"
    and "m_resources w n = Some r" "\<And>q. GetState w q \<noteq> Starting"
  shows "grown rk (StartCall r) w b v"
proof -
  define P :: outcome where
    "P c w b v \<longleftrightarrow> (base_inv rk w \<longrightarrow> resourceDependencies w = [] \<longrightarrow> grow_pre rk w c \<longrightarrow> grown rk c w b v)" for c w b v
  have IH: "grown rk c u b v" if "P c u b v" "base_inv rk u" "resourceDependencies u = []" "grow_pre rk u c" for c u b v
    using that by (simp add: P_def)
  have "core_call (StartCall r)" by simp
  with assms(1,2) have "P (StartCall r) w b v"
  proof (induction rule: silent_induct)
    case (step c w b v)
    have "grown rk c w b v" if inv: "base_inv rk w" and pend: "resourceDependencies w = []" and pre: "grow_pre rk w c"
    proof (cases c)
      case (StartCall r)
      then show ?thesis using grow_Start [OF _ inv pend _ IH] step pre by blast
    next
      case (LaunchCall r)
      have "u = launching r w" if "P (StartNamesCall []) (launching r w) b u" for b u
      proof -
        have "base_inv rk (launching r w)"
          using grows_same [OF inv launching_frame] by (simp add: grows_def same_pool(2) [of "launching r w" w])
        then show ?thesis using IH [OF that] pend by (simp add: grown_def)
      qed
      then show ?thesis using grow_Launch [OF _ inv pend, of E P r b v] step pre LaunchCall by blast
    next
      case (DependenciesCall r ds s)
      then show ?thesis using grow_Dependencies [OF _ inv pend _ IH] step pre by blast
    next
      case (StartNamesCall ns)
      then show ?thesis using step pre pend by (auto simp: grown_def grows_refl [OF inv])
    qed (use pre in simp_all)
    then show ?case by (simp add: P_def)
  qed
  moreover have "grow_pre rk w (StartCall r)"
    using base_invD(3) [OF assms(3,5)] assms(6) by (simp add: lowest_def)
  ultimately show ?thesis using assms(3,4) by (simp add: P_def)
qed

end
