(* ===== verification/ResourceStop.thy ===== *)
theory ResourceStop
  imports ResourceStable
begin

text \<open>
  Stops: a stop ends, it stops the resource and all that depend on it, and what is left is consistent. With
  the starts this gives the invariant of a session of starts and stops.
\<close>

subsection \<open>What a stop keeps\<close>

definition shrinks :: "(string \<Rightarrow> nat) \<Rightarrow> resource_world \<Rightarrow> resource_world \<Rightarrow> bool" where
  "shrinks rk w v \<longleftrightarrow> same_frame w v \<and> base_inv rk v \<and> (\<forall>q. GetState v q = GetState w q \<or> GetState v q = Stopped)
     \<and> set (resourceDependants v) \<subseteq> set (resourceDependants w) \<and> resourceDependencies v = resourceDependencies w"

lemma shrinks_refl: "base_inv rk w \<Longrightarrow> shrinks rk w w"
  by (simp add: shrinks_def)

lemma shrinks_trans: "shrinks rk u v \<Longrightarrow> shrinks rk v w \<Longrightarrow> shrinks rk u w"
  unfolding shrinks_def by (metis same_frame_trans subset_trans)

lemma shrinks_stopped: "shrinks rk w v \<Longrightarrow> GetState w q = Stopped \<Longrightarrow> GetState v q = Stopped"
  unfolding shrinks_def by metis

lemma stopped_frame: "same_frame w (stopped r w)"
  unfolding stopped_def by (meson same_frame_trans frame_updates)

lemma GetState_stopped: "GetState (stopped r w) q = (if q = r \<and> r < length (pool w) then Stopped else GetState w q)"
  by (simp add: stopped_def GetState_set_state)

lemma stopped_fields [simp]:
  "resourceDependants (stopped r w) = erase_key (GetName w r) (resourceDependants w)"
  "resourceDependencies (stopped r w) = resourceDependencies w"
  by (simp_all add: stopped_def QueueResourceEvent_def announce_stop_def trigger_def clear_dependants_def)

text \<open>The last part of a stop: no started resource depends on the one that stops.\<close>

lemma shrinks_stop:
  assumes inv: "base_inv rk w" and r: "r < length (pool w)" "in_registry w r"
    and gone: "\<And>n q. (GetName w r, n) \<in> set (resourceDependants w) \<Longrightarrow> m_resources w n = Some q \<Longrightarrow> q \<noteq> r \<Longrightarrow> GetState w q \<noteq> Started"
  shows "shrinks rk w (stopped r w)"
proof -
  let ?v = "stopped r w"
  have f: "same_frame w ?v" by (rule stopped_frame)
  have sub: "set (resourceDependants ?v) \<subseteq> set (resourceDependants w)" by (auto simp: erase_key_def)
  have "consistent ?v"
    unfolding consistent_def
  proof (intro allI impI)
    fix q assume q: "q < length (pool ?v)" "GetState ?v q = Started"
    have qr: "q \<noteq> r" "GetState w q = Started" "q < length (pool w)"
      using q r(1) by (auto simp: GetState_stopped same_frameD [OF f] split: if_splits)
    then have c: "in_registry w q" "\<And>d. d \<in> set (all_deps w q) \<Longrightarrow> plain_entry d \<Longrightarrow> entry_runs w q d"
      using inv by (simp_all add: base_inv_def consistent_def)
    have "entry_runs ?v q d" if d: "d \<in> set (all_deps w q)" "plain_entry d" for d
    proof -
      obtain p where p: "m_resources w d = Some p" "GetState w p = Started" "(d, GetName w q) \<in> set (resourceDependants w)"
        using c(2) [OF d] by (auto simp: entry_runs_def)
      have "d \<noteq> GetName w r"
        using gone [of "GetName w q" q] p(3) c(1) qr by (auto simp: in_registry_def)
      moreover have "p \<noteq> r" using names_okD(2) [OF base_invD(2) [OF inv] p(1)] calculation by auto
      ultimately show ?thesis
        using p by (auto simp: entry_runs_def same_frameD [OF f] GetState_stopped erase_key_def)
    qed
    then show "in_registry ?v q \<and> (\<forall>d\<in>set (all_deps ?v q). plain_entry d \<longrightarrow> entry_runs ?v q d)"
      using c(1) by (simp add: frame_deps [OF f] frame_registry(2) [OF f])
  qed
  moreover have "dependants_ranked rk ?v" using frame_dependants [OF f sub] inv by (simp add: base_inv_def)
  ultimately have "base_inv rk ?v"
    using inv frame_ranked [OF f] frame_registry(1) [OF f] by (simp add: base_inv_def)
  then show ?thesis using f sub by (simp add: shrinks_def GetState_stopped)
qed

fun shrink_pre :: "resource_world \<Rightarrow> call \<Rightarrow> bool" where
  "shrink_pre w (StopCall r) = (r < length (pool w) \<and> in_registry w r)"
| "shrink_pre w (StopNamesCall r ns) = True"
| "shrink_pre w _ = False"

fun shrink_post :: "call \<Rightarrow> resource_world \<Rightarrow> bool" where
  "shrink_post (StopCall r) v = (GetState v r = Stopped)"
| "shrink_post (StopNamesCall r ns) v =
     (\<forall>n\<in>set ns. \<forall>q. m_resources v n = Some q \<longrightarrow> GetName v q \<noteq> GetName v r \<longrightarrow> GetState v q = Stopped)"
| "shrink_post _ v = True"

lemma frame_shrink_pre: "same_frame w v \<Longrightarrow> shrink_pre v c = shrink_pre w c"
  by (cases c) (simp_all add: same_frameD frame_registry)

lemma Stop_shrinks:
  assumes "run E c w = Some (b, v)" "silent E" "base_inv rk w" "shrink_pre w c"
  shows "shrinks rk w v \<and> shrink_post c v"
proof -
  define P :: outcome where
    "P c w b v \<longleftrightarrow> (base_inv rk w \<longrightarrow> shrink_pre w c \<longrightarrow> shrinks rk w v \<and> shrink_post c v)" for c w b v
  have "core_call c" using assms(4) by (cases c) simp_all
  with assms(1,2) have "P c w b v"
  proof (induction rule: silent_induct)
    case (step c w b v)
    have "shrinks rk w v \<and> shrink_post c v" if inv: "base_inv rk w" and pre: "shrink_pre w c"
    proof (cases c)
      case (StopCall r)
      have r: "r < length (pool w)" "in_registry w r" using pre StopCall by simp_all
      show ?thesis
      proof (cases "GetState w r = Stopped")
        case True
        then show ?thesis using step StopCall inv by (simp add: shrinks_refl)
      next
        case False
        then obtain ok u where u: "P (StopNamesCall r (waiting (resourceDependants w) (GetName w r))) w ok u" "v = stopped r u"
          using step StopCall by auto
        have s: "shrinks rk w u" "shrink_post (StopNamesCall r (waiting (resourceDependants w) (GetName w r))) u"
          using u(1) inv by (simp_all add: P_def)
        have f: "same_frame w u" "base_inv rk u" "set (resourceDependants u) \<subseteq> set (resourceDependants w)"
          using s(1) by (simp_all add: shrinks_def)
        have "shrinks rk u (stopped r u)"
        proof (rule shrinks_stop [OF f(2)])
          fix n q assume n: "(GetName u r, n) \<in> set (resourceDependants u)" "m_resources u n = Some q" "q \<noteq> r"
          have "n \<in> set (waiting (resourceDependants w) (GetName w r))"
            using n(1) f(1,3) by (auto simp: waiting_def same_frameD)
          moreover have "GetName u q \<noteq> GetName u r"
            using n(2,3) r(2) names_okD(2) [OF base_invD(2) [OF f(2)] n(2)] 
            by (auto simp: in_registry_def same_frameD [OF f(1)])
          ultimately show "GetState u q \<noteq> Started" using s(2) n(2) by simp
        qed (use r in \<open>simp_all add: same_frameD [OF f(1)] frame_registry(2) [OF f(1)]\<close>)
        then show ?thesis
          using shrinks_trans [OF s(1)] u(2) r(1) StopCall by (simp add: GetState_stopped same_frameD [OF f(1)])
      qed
    next
      case (StopNamesCall r ns)
      show ?thesis
      proof (cases ns)
        case Nil
        then show ?thesis using step StopNamesCall inv by (simp add: shrinks_refl)
      next
        case (Cons n ns')
        have more: "shrinks rk w v \<and> shrink_post c v"
          if u: "P (StopNamesCall r ns') u b v" "shrinks rk w u"
            "\<And>q. m_resources w n = Some q \<Longrightarrow> GetName w q \<noteq> GetName w r \<Longrightarrow> GetState u q = Stopped" for u
        proof -
          have s: "shrinks rk u v" "shrink_post (StopNamesCall r ns') v"
            using u(1,2) by (simp_all add: P_def shrinks_def)
          have "same_frame w v" using shrinks_trans [OF u(2) s(1)] by (simp add: shrinks_def)
          then show ?thesis
            using shrinks_trans [OF u(2) s(1)] s(2) shrinks_stopped [OF s(1) u(3)] StopNamesCall Cons
            by (auto simp: same_frameD)
        qed
        show ?thesis
        proof (cases "m_resources w n")
          case None
          then show ?thesis using step StopNamesCall Cons more [OF _ shrinks_refl [OF inv]]
            by (simp add: base_invD(4) [OF inv])
        next
          case (Some q)
          show ?thesis
          proof (cases "GetName w q = GetName w r")
            case True
            then show ?thesis using step StopNamesCall Cons Some more [OF _ shrinks_refl [OF inv]]
              by (simp add: base_invD(4) [OF inv])
          next
            case False
            then obtain ok u where u: "P (StopCall q) w ok u" "P (StopNamesCall r ns') u b v"
              using step StopNamesCall Cons Some by (auto simp: base_invD(4) [OF inv])
            have "shrinks rk w u \<and> GetState u q = Stopped"
              using u(1) inv base_invD(3) [OF inv Some] by (simp add: P_def)
            then show ?thesis using more [OF u(2)] Some by simp
          qed
        qed
      qed
    qed (use pre in simp_all)
    then show ?case by (simp add: P_def)
  qed
  then show ?thesis using assms by (simp add: P_def)
qed

subsection \<open>Stops end\<close>

lemma run_StopNames: "run E (StopNamesCall r ns) w = stop_names (run E) r ns w"
  by (simp add: run_step [of E "StopNamesCall r ns"])

lemma stop_names_end:
  assumes "silent E" "base_inv rk w" "shrinks rk w u"
    and "\<And>u q n. shrinks rk w u \<Longrightarrow> n \<in> set ns \<Longrightarrow> m_resources w n = Some q \<Longrightarrow> ends E (StopCall q) u"
  shows "ends E (StopNamesCall r ns) u"
  using assms(3,4)
proof (induction ns arbitrary: u)
  case (Cons n ns)
  have IH: "ends E (StopNamesCall r ns) v" if "shrinks rk w v" for v
    by (rule Cons.IH [OF that Cons.prems(2)]) simp_all
  have u: "base_inv rk u" "same_frame w u" using Cons.prems(1) by (simp_all add: shrinks_def)
  show ?case
  proof (cases "m_resources u n")
    case None
    then show ?thesis using IH [OF Cons.prems(1)]
      by (simp add: ends_def run_StopNames [of E r "n # ns"] base_invD(4) [OF u(1)])
  next
    case (Some q)
    have "ends E (StopCall q) u"
      by (rule Cons.prems(2) [OF Cons.prems(1)]) (use Some u(2) in \<open>auto simp: same_frameD\<close>)
    then obtain b v where v: "run E (StopCall q) u = Some (b, v)" by (auto simp: ends_def)
    have "shrinks rk u v"
      using Stop_shrinks [OF v assms(1) u(1)] base_invD(3) [OF u(1) Some] by simp
    then have "ends E (StopNamesCall r ns) v" by (intro IH shrinks_trans [OF Cons.prems(1)])
    then show ?thesis using v Some IH [OF Cons.prems(1)]
      by (simp add: ends_def run_StopNames [of E r "n # ns"] base_invD(4) [OF u(1)])
  qed
qed (simp add: ends_def run_StopNames)

lemma Stop_ends:
  assumes silent: "silent E" and inv: "base_inv rk w" and "shrinks rk w u" "r < length (pool w)"
  shows "ends E (StopCall r) u"
proof -
  define top where "top = Max ((\<lambda>q. rk (GetName w q)) ` {..<length (pool w)})"
  show ?thesis
    using assms(3,4)
  proof (induction "top - rk (GetName w r)" arbitrary: r u rule: less_induct)
    case (less r u)
    have u: "base_inv rk u" "same_frame w u" using less.prems(1) by (simp_all add: shrinks_def)
    have "ends E (StopNamesCall r (waiting (resourceDependants u) (GetName u r))) u"
    proof (rule stop_names_end [OF silent inv less.prems(1)])
      fix z q n
      assume z: "shrinks rk w z" and n: "n \<in> set (waiting (resourceDependants u) (GetName u r))" "m_resources w n = Some q"
      have "(GetName u r, n) \<in> set (resourceDependants u)" using n(1) by (simp add: waiting_def)
      then have rank: "rk (GetName w r) < rk (GetName w q)"
        using u(1) n(2) unfolding base_inv_def dependants_ranked_def same_frameD(2) [OF u(2)] same_frameD(4) [OF u(2)] by blast
      have q: "q < length (pool w)" using base_invD(3) [OF inv n(2)] by simp
      then have "rk (GetName w q) \<le> top" unfolding top_def by (intro Max_ge) auto
      then show "ends E (StopCall q) z" using less.hyps [OF _ z q] rank by simp
    qed
    then show ?case by (auto simp: ends_def run_Stop Fire_stop [OF silent])
  qed
qed

subsection \<open>Sessions\<close>

text \<open>A sequence of stops and of starts that succeed, of resources that are found by name.\<close>

inductive resource_session :: "resource_env \<Rightarrow> resource_world \<Rightarrow> resource_world \<Rightarrow> bool" for E w0 where
  session_init: "resource_session E w0 w0"
| session_start: "resource_session E w0 u \<Longrightarrow> GetResource u n True = Some r \<Longrightarrow> run E (StartCall r) u = Some (True, v)
    \<Longrightarrow> resource_session E w0 v"
| session_stop: "resource_session E w0 u \<Longrightarrow> GetResource u n True = Some r \<Longrightarrow> run E (StopCall r) u = Some (b, v)
    \<Longrightarrow> resource_session E w0 v"

text \<open>Before anything is started.\<close>

definition fresh_world :: "resource_world \<Rightarrow> bool" where
  "fresh_world w \<longleftrightarrow> names_ok w \<and> (\<forall>q<length (pool w). \<not> active w q)
     \<and> resourceDependencies w = [] \<and> resourceDependants w = []"

definition session_inv :: "(string \<Rightarrow> nat) \<Rightarrow> resource_world \<Rightarrow> bool" where
  "session_inv rk w \<longleftrightarrow> base_inv rk w \<and> resourceDependencies w = [] \<and> (\<forall>q. GetState w q \<noteq> Starting)"

lemma GetState_beyond: "\<not> q < length (pool w) \<Longrightarrow> GetState w q = Uninitialized"
  by (simp add: GetState_def resource_at_def)

lemma session_inv_init: "fresh_world w \<Longrightarrow> ranked rk w \<Longrightarrow> session_inv rk w"
  unfolding session_inv_def fresh_world_def base_inv_def dependants_ranked_def consistent_def
  by (auto simp: active_def) (metis GetState_beyond ResourceState.distinct(3))

lemma session_inv_start:
  assumes "session_inv rk u" "GetResource u n True = Some r" "run E (StartCall r) u = Some (b, v)" "silent E"
  shows "base_inv rk v" "\<And>q. GetState v q \<noteq> Starting" "b \<Longrightarrow> session_inv rk v"
proof -
  have "m_resources u n = Some r" using assms(1,2) base_invD(4) [of rk u n True] by (simp add: session_inv_def)
  then have g: "grown rk (StartCall r) u b v"
    using Start_grows [OF assms(3,4), of rk n] assms(1) by (simp add: session_inv_def)
  then show "base_inv rk v" "\<And>q. GetState v q \<noteq> Starting" "b \<Longrightarrow> session_inv rk v"
    using assms(1) by (auto simp: grown_def grows_def session_inv_def same_starting_def)
qed

lemma session_inv_stop:
  assumes "session_inv rk u" "GetResource u n True = Some r" "run E (StopCall r) u = Some (b, v)" "silent E"
  shows "session_inv rk v" "GetState v r = Stopped"
proof -
  have inv: "base_inv rk u" using assms(1) by (simp add: session_inv_def)
  have "m_resources u n = Some r" using assms(2) base_invD(4) [OF inv, of n True] by simp
  then have s: "shrinks rk u v" "GetState v r = Stopped"
    using Stop_shrinks [OF assms(3,4) inv] base_invD(3) [OF inv, of n r] by auto
  show "session_inv rk v"
  proof -
    have "GetState v q \<noteq> Starting" for q
    proof -
      have "GetState v q = GetState u q \<or> GetState v q = Stopped" "GetState u q \<noteq> Starting"
        using s(1) assms(1) by (simp_all add: session_inv_def shrinks_def)
      then show ?thesis by auto
    qed
    then show ?thesis using s(1) assms(1) by (simp add: session_inv_def shrinks_def)
  qed
  show "GetState v r = Stopped" by (rule s(2))
qed

lemma session_invariant:
  assumes "resource_session E w0 w" "silent E" "fresh_world w0" "ranked rk w0"
  shows "session_inv rk w"
  using assms(1)
proof induction
  case session_init
  then show ?case by (rule session_inv_init [OF assms(3,4)])
next
  case (session_start u n r v)
  then show ?case using session_inv_start(3) [OF session_start.IH session_start.hyps(2,3) assms(2)] by simp
next
  case (session_stop u n r b v)
  then show ?case using session_inv_stop(1) [OF session_stop.IH session_stop.hyps(2,3) assms(2)] by simp
qed

lemma consistent_runs:
  assumes "base_inv rk w" "GetState w q = Started" "d \<in> set (all_deps w q)" "plain_entry d"
  shows "\<exists>p. GetResource w d True = Some p \<and> GetState w p = Started"
proof -
  have "q < length (pool w)" using assms(2) GetState_beyond [of q w] by fastforce
  then have "entry_runs w q d" using assms by (auto simp: base_inv_def consistent_def)
  then show ?thesis using base_invD(4) [OF assms(1)] by (auto simp: entry_runs_def)
qed

text \<open>In a session, the next start and the next stop end.\<close>

lemma session_ends:
  assumes "session_inv rk w" "silent E" "GetResource w n True = Some r"
  shows "\<exists>b v. run E (StartCall r) w = Some (b, v)" "\<exists>b v. run E (StopCall r) w = Some (b, v)"
proof -
  have inv: "base_inv rk w" and pend: "resourceDependencies w = []" using assms(1) by (simp_all add: session_inv_def)
  have r: "r < length (pool w)" using assms(3) base_invD(3,4) [OF inv] by metis
  show "\<exists>b v. run E (StartCall r) w = Some (b, v)"
    using Start_ends [OF assms(2) _ r, of rk] base_invD(1) [OF inv] pend by (simp add: start_inv_def waiting_ranked_def)
  show "\<exists>b v. run E (StopCall r) w = Some (b, v)"
    using Stop_ends [OF assms(2) inv shrinks_refl [OF inv] r] by (simp add: ends_def)
qed

end
