(* ===== verification/ResourceFaults.thy ===== *)
theory ResourceFaults
  imports ResourceStop
begin

text \<open>
  Where the resource system does not do what its users expect: recursions that do not end when dependencies
  have a cycle, dependants that are started twice, a stop that reaches a resource that does not depend on the
  one that stops, and removed resources that are still found.
\<close>

subsection \<open>Cycles\<close>

text \<open>
  A set of resources that are not stopped, each with a first dependant in the set. \<open>Stop\<close> marks a resource
  as stopped only behind its dependants, so none of them is ever marked. Scripts play no part.
\<close>

definition stop_cycle :: "resource_world \<Rightarrow> resource_ref set \<Rightarrow> bool" where
  "stop_cycle w C \<longleftrightarrow> (\<forall>q\<in>C. GetState w q \<noteq> Stopped \<and> (\<exists>n ns p. waiting (resourceDependants w) (GetName w q) = n # ns
     \<and> GetResource w n True = Some p \<and> GetName w p \<noteq> GetName w q \<and> p \<in> C))"

definition stop_loop :: "resource_world \<Rightarrow> resource_ref set \<Rightarrow> call set" where
  "stop_loop w C = (\<Union>q\<in>C. {StopCall q, FireCall OnStop q, CallbackCall StopDependants q,
     StopNamesCall q (waiting (resourceDependants w) (GetName w q))})"

lemma stop_cycle_None:
  assumes "stop_cycle w C" "r \<in> C"
  shows "run E (StopCall r) w = None"
proof (rule ccontr)
  assume "run E (StopCall r) w \<noteq> None"
  then obtain b v where "run E (StopCall r) w = Some (b, v)" by auto
  then have "\<not> (stop_cycle w C \<and> StopCall r \<in> stop_loop w C)"
  proof (induction rule: run_induct)
    case (step exec c w b v)
    show ?case
    proof
      assume c: "stop_cycle w C \<and> c \<in> stop_loop w C"
      have no: "exec d w = None" if "d \<in> stop_loop w C" for d
        using step(1) [of d w] that c by (cases "exec d w") auto
      obtain q where q: "q \<in> C" "c = StopCall q \<or> c = FireCall OnStop q \<or> c = CallbackCall StopDependants q
          \<or> c = StopNamesCall q (waiting (resourceDependants w) (GetName w q))"
        using c by (auto simp: stop_loop_def)
      obtain n ns p where p: "waiting (resourceDependants w) (GetName w q) = n # ns" "GetResource w n True = Some p"
        "GetName w p \<noteq> GetName w q" "p \<in> C" and st: "GetState w q \<noteq> Stopped"
        using c q(1) by (auto simp: stop_cycle_def)
      have in_loop: "FireCall OnStop q \<in> stop_loop w C" "CallbackCall StopDependants q \<in> stop_loop w C"
        "StopNamesCall q (waiting (resourceDependants w) (GetName w q)) \<in> stop_loop w C" "StopCall p \<in> stop_loop w C"
        using q(1) p(4) by (auto simp: stop_loop_def)
      have nones: "exec (FireCall OnStop q) w = None" "exec (CallbackCall StopDependants q) w = None"
        "exec (StopNamesCall q (waiting (resourceDependants w) (GetName w q))) w = None" "exec (StopCall p) w = None"
        using in_loop no by blast+
      from q(2) show False
        using step(2) st nones p
        by (elim disjE) (simp_all add: Resource_Stop_def stop_dependants_def callback_lists(3))
    qed
  qed
  then show False using assms by (auto simp: stop_loop_def)
qed

text \<open>
  A set of resources that are starting, each with a first waiting dependant in the set: a start of one that
  is starting already launches it again, and so on.
\<close>

definition launch_cycle :: "resource_env \<Rightarrow> resource_world \<Rightarrow> resource_ref set \<Rightarrow> bool" where
  "launch_cycle E w C \<longleftrightarrow> (\<forall>q\<in>C. GetState w q = Starting \<and> allowed_game E w q
     \<and> (\<exists>n ns p. waiting (resourceDependencies w) (GetName w q) = n # ns \<and> GetResource w n True = Some p \<and> p \<in> C))"

lemma first_provider_same: "(\<And>q. GetState v q = GetState w q) \<Longrightarrow> first_provider v ps found = first_provider w ps found"
  by (induction ps arbitrary: found) auto

lemma GetResource_same:
  "m_resources v = m_resources w \<Longrightarrow> m_resourceProvides v = m_resourceProvides w \<Longrightarrow> (\<And>q. GetState v q = GetState w q)
   \<Longrightarrow> GetResource v n p = GetResource w n p"
  by (simp add: GetResource_def first_provider_same [of v w] cong: if_cong)

lemma GetResource_launching [simp]: "GetResource (launching r w) n p = GetResource w n p"
  by (rule GetResource_same) simp_all

lemma allowed_launching [simp]: "allowed_game E (launching r w) q = allowed_game E w q"
  by (simp add: allowed_game_def game_allows_def IsManifestVersionBetween_def)

lemma GetResource_plain: "m_resourceProvides w = [] \<Longrightarrow> GetResource w n p = m_resources w n"
  by (simp add: GetResource_def multi_get_def cong: if_cong)

lemma launch_cycle_None:
  assumes "silent E" "launch_cycle E w C" "r \<in> C"
  shows "run E (StartCall r) w = None"
proof (rule ccontr)
  define loop where "loop w = (\<Union>q\<in>C. {StartCall q, LaunchCall q, StartNamesCall (waiting (resourceDependencies w) (GetName w q))})" for w
  define P :: outcome where "P c w b v \<longleftrightarrow> \<not> (launch_cycle E w C \<and> c \<in> loop w)" for c w b v
  assume "run E (StartCall r) w \<noteq> None"
  then obtain b v where r: "run E (StartCall r) w = Some (b, v)" by auto
  have "core_call (StartCall r)" by simp
  with r assms(1) have "P (StartCall r) w b v"
  proof (induction rule: silent_induct [case_names step])
    case (step c w b v)
    have "False" if cyc: "launch_cycle E w C" and c: "c \<in> loop w"
    proof -
      obtain q where q: "q \<in> C" "c = StartCall q \<or> c = LaunchCall q \<or> c = StartNamesCall (waiting (resourceDependencies w) (GetName w q))"
        using c by (auto simp: loop_def)
      obtain n ns p where p: "waiting (resourceDependencies w) (GetName w q) = n # ns" "GetResource w n True = Some p" "p \<in> C"
        and st: "GetState w q = Starting" "allowed_game E w q"
        using cyc q(1) by (auto simp: launch_cycle_def)
      have cyc': "launch_cycle E (launching q w) C" using cyc by (simp add: launch_cycle_def)
      have in_loop: "LaunchCall q \<in> loop w" "StartCall p \<in> loop w"
        "StartNamesCall (waiting (resourceDependencies w) (GetName w q)) \<in> loop (launching q w)"
        using q(1) p(3) by (auto simp: loop_def)
      have no: "\<not> P (LaunchCall q) w b v" "\<not> P (StartCall p) w b v"
        "\<not> P (StartNamesCall (waiting (resourceDependencies w) (GetName w q))) (launching q w) b v" for b v
        using in_loop cyc cyc' by (auto simp: P_def)
      from q(2) show False
        using step no p st by (elim disjE) auto
    qed
    then show ?case by (auto simp: P_def)
  qed
  then show False using assms by (auto simp: P_def loop_def)
qed

subsection \<open>A dependant that waited is started twice\<close>

text \<open>
  A dependency failed to start once, so its dependant waits for it. The next start of the dependant starts
  the dependency, which starts what waits for it: the dependant, which is starting, is launched from within
  its own dependencies, before the dependency is done, and again when they are done.
\<close>

lemma waiting_single: "waiting [(a, b)] n = (if n = a then [b] else [])"
  by (simp add: waiting_def multi_get_def std_set_def)

lemma run_Start_silent:
  assumes "silent E" "GetState w r \<noteq> Started" "GetState w r \<noteq> Starting" "verdict E (entering r w) (EventHook ''onResourceStarting'') r"
    and "run E (DependenciesCall r (all_deps w r) True) (entering r w) = Some (True, v)" "verdict E v TriggerBuild r"
  shows "run E (StartCall r) w = run E (LaunchCall r) v"
  using assms by (simp add: run_Start Fire_before)

lemma run_Launch_silent:
  assumes "silent E" "allowed_game E w r"
    and "run E (StartNamesCall (waiting (resourceDependencies w) (GetName w r))) (launching r w) = Some (b, v)"
  shows "run E (LaunchCall r) w = Some (True, started r v)"
  using assms by (simp add: run_Launch Fire_start started_def)

lemma deferred_started_twice:
  assumes silent: "silent E" and yes: "\<And>w h r. verdict E w h r" and ab: "a \<noteq> b" "GetName w a \<noteq> GetName w b"
    and a: "a < length (pool w)" "GetState w a = Stopped" "m_resources w (GetName w a) = Some a"
    and b: "b < length (pool w)" "GetState w b = Stopped" "m_resources w (GetName w b) = Some b"
    and none: "m_resourceProvides w = []" and deps: "all_deps w a = [GetName w b]" "all_deps w b = []" "plain_entry (GetName w b)"
    and pend: "resourceDependencies w = [(GetName w b, GetName w a)]"
    and game: "allowed_game E w a" "allowed_game E w b"
    and client: "GetEntries w a ''server_only'' = []" "GetEntries w b ''server_only'' = []"
  shows "\<exists>v. run E (StartCall a) w = Some (True, v)
    \<and> g_resourceStartOrder v = g_resourceStartOrder w @ [GetName w a, GetName w b, GetName w a]
    \<and> triggered v = triggered w @ [(''onResourceStarting'', GetName w a), (''onResourceStarting'', GetName w b),
        (''onResourceStart'', GetName w b), (''onResourceStart'', GetName w a), (''onResourceStart'', GetName w a)]"
proof -
  let ?na = "GetName w a" and ?nb = "GetName w b"
  define w1 where "w1 = add_dependant b a (entering a w)"
  define w2 where "w2 = entering b w1"
  define w3 where "w3 = launching b w2"
  define w4 where "w4 = started a (launching a w3)"
  define w5 where "w5 = started b w4"
  define w6 where "w6 = started a (launching a w5)"
  note ws = w1_def w2_def w3_def w4_def w5_def
  have find: "GetResource u n True = m_resources w n" if "m_resources u = m_resources w" "m_resourceProvides u = []" for u n
    using that by (simp add: GetResource_plain)
  have dep1: "m_resources w1 = m_resources w" "m_resourceProvides w1 = []" "resourceDependencies w1 = [(?nb, ?na)]"
    "length (pool w1) = length (pool w)" "g_resourceStartOrder w1 = g_resourceStartOrder w"
    "triggered w1 = triggered w @ [(''onResourceStarting'', ?na)]"
    by (simp_all add: w1_def none pend) (simp_all add: add_dependant_def none pend)
  have names: "GetName u q = GetName w q" if "u \<in> {w1, w2, w3, w4, w5}" for u q
    using that by (auto simp: ws)
  have entries: "GetEntries u q k = GetEntries w q k" if "u \<in> {w1, w2, w3, w4, w5}" for u q k
    using that by (auto simp: ws)
  have game': "allowed_game E u q = allowed_game E w q" if "u \<in> {w1, w2, w3, w4, w5}" for u q
    using entries [OF that] by (simp add: allowed_game_def game_allows_def IsManifestVersionBetween_def)
  have states: "GetState w1 a = Starting" "GetState w1 b = Stopped" "GetState w3 a = Starting"
    using a b ab by (simp_all add: ws GetState_entering)
  have launch_a: "run E (LaunchCall a) w3 = Some (True, w4)"
    unfolding w4_def
  proof (rule run_Launch_silent [OF silent])
    show "allowed_game E w3 a" using game' [of w3 a] game by simp
    show "run E (StartNamesCall (waiting (resourceDependencies w3) (GetName w3 a))) (launching a w3) = Some (True, launching a w3)"
      using ab dep1 names by (simp add: waiting_single run_Names ws)
  qed
  have names_a: "run E (StartNamesCall [?na]) w3 = Some (True, w4)"
    using find [of w3 ?na] a dep1 launch_a states by (simp add: run_Names run_Start ws)
  have launch_b: "run E (LaunchCall b) w2 = Some (True, w5)"
    unfolding w5_def
  proof (rule run_Launch_silent [OF silent])
    show "allowed_game E w2 b" using game' [of w2 b] game by simp
    show "run E (StartNamesCall (waiting (resourceDependencies w2) (GetName w2 b))) (launching b w2) = Some (True, w4)"
      using names_a dep1 names by (simp add: waiting_single ws)
  qed
  have start_b: "run E (StartCall b) w1 = Some (True, w5)"
  proof -
    have "run E (DependenciesCall b (all_deps w1 b) True) w2 = Some (True, w2)"
      using deps(2) entries [of w1] by (simp add: all_deps_def run_Deps)
    then show ?thesis
      using run_Start_silent [OF silent, of w1 b w2] states yes launch_b by (simp add: w2_def)
  qed
  have "fst (MatchConstraint (entering a w) ?nb) = NoConstraint"
    using deps(3) by (auto simp: plain_entry_def MatchConstraint_def)
  then have "run E (DependenciesCall a (all_deps w a) True) (entering a w) = Some (True, w5)"
    using find [of "entering a w" ?nb] b none ab deps(1) start_b by (simp add: run_Deps GetState_entering w1_def)
  then have "run E (StartCall a) w = run E (LaunchCall a) w5"
    using run_Start_silent [OF silent _ _ yes _ yes] a by simp
  also have "run E (LaunchCall a) w5 = Some (True, w6)"
    unfolding w6_def
  proof (rule run_Launch_silent [OF silent])
    show "allowed_game E w5 a" using game' [of w5 a] game by simp
    have "resourceDependencies w5 = []" using dep1 by (simp add: ws erase_key_def)
    then show "run E (StartNamesCall (waiting (resourceDependencies w5) (GetName w5 a))) (launching a w5) = Some (True, launching a w5)"
      by (simp add: waiting_def multi_get_def std_set_def run_Names)
  qed
  finally have "run E (StartCall a) w = Some (True, w6)" .
  moreover have "g_resourceStartOrder w6 = g_resourceStartOrder w @ [?na, ?nb, ?na]"
    "triggered w6 = triggered w @ [(''onResourceStarting'', ?na), (''onResourceStarting'', ?nb),
        (''onResourceStart'', ?nb), (''onResourceStart'', ?na), (''onResourceStart'', ?na)]"
    using client dep1 by (simp_all add: w6_def ws)
  ultimately show ?thesis by blast
qed

subsection \<open>A stop reaches a resource by the name of another\<close>

text \<open>
  The dependants of a resource are noted by name. When the dependant of that name is stopped, the name
  resolves to a resource that provides it: this one is stopped instead, whatever it depends on.
\<close>

lemma stop_reaches_provider:
  assumes silent: "silent E" and r: "r < length (pool w)" "GetState w r \<noteq> Stopped" "waiting (resourceDependants w) (GetName w r) = [n]"
    and n: "m_resources w n = Some d" "GetState w d = Stopped"
    and p: "multi_get n (m_resourceProvides w) = [p]" "GetState w p = Started" "GetName w p \<noteq> GetName w r" "p < length (pool w)"
      "waiting (resourceDependants w) (GetName w p) = []"
  shows "\<exists>v. run E (StopCall r) w = Some (True, v) \<and> GetState v p = Stopped"
proof -
  have find: "GetResource w n True = Some p" using n p(1,2) by (simp add: GetResource_def)
  have "run E (StopNamesCall p []) w = Some (True, w)" for w by (simp add: run_step [of E "StopNamesCall p []"])
  then have "run E (StopCall p) w = Some (True, stopped p w)"
    using p by (simp add: run_Stop Fire_stop [OF silent] stopped_def)
  then have "run E (StopNamesCall r [n]) w = Some (True, stopped p w)"
    using find p(3) by (simp add: run_step [of E "StopNamesCall r [n]"] run_step [of E "StopNamesCall r []"])
  then have "run E (StopCall r) w = Some (True, stopped r (stopped p w))"
    using r by (simp add: run_Stop Fire_stop [OF silent] stopped_def)
  moreover have "GetState (stopped r (stopped p w)) p = Stopped"
    using p(4) by (auto simp: stopped_def GetState_set_state)
  ultimately show ?thesis by blast
qed

end
