(* ===== verification/ResourceScan.thy ===== *)
theory ResourceScan
  imports ResourceStop Hash
begin

text \<open>
  Adding and removing resources: the rest of \<open>ResourceManager.cpp\<close>, \<open>ServerResourceMounter.cpp\<close> and
  \<open>ServerResourceList.cpp\<close>, which scans the resource folders for the command \<open>refresh\<close>. The tasks of the
  asynchronous library run at once, the file system is a tree that does not change during a scan. Names are
  those that the URL of a resource holds unchanged; the warnings of outdated manifests are left out.
\<close>

subsection \<open>Removing and resetting\<close>

definition RemoveResource :: "resource_env \<Rightarrow> resource_ref \<Rightarrow> resource_world \<Rightarrow> resource_world option" where
  "RemoveResource E r w =
     Option.bind (run E (StopCall r) w)
       (\<lambda>(_, w). let w = Destroy r w in Some (w\<lparr>m_resources := (m_resources w)(GetName w r := None)\<rparr>))"

text \<open>
  \<open>ResetResources\<close>: the resources of the hash table, in its order, are stopped and destroyed. \<open>OnAfterReset\<close>
  clears the dependency maps and the event queue.
\<close>

definition reset_resource :: "resource_env \<Rightarrow> resource_ref \<Rightarrow> resource_world \<Rightarrow> resource_world option" where
  "reset_resource E r w = Option.bind (run E (StopCall r) w) (\<lambda>(_, w). Some (Destroy r w))"

definition ResetResources :: "resource_env \<Rightarrow> resource_ref list \<Rightarrow> resource_world \<Rightarrow> resource_world option" where
  "ResetResources E rs w =
     Option.bind (handle_all (reset_resource E) rs w)
       (\<lambda>w. Some (w\<lparr>m_resourceProvides := [], m_resources := Map.empty, resourceDependants := [],
                   resourceDependencies := [], m_eventQueue := []\<rparr>))"

subsection \<open>Adding\<close>

type_synonym manifest_loader = "string \<Rightarrow> (string \<times> string) list \<times> string option"

datatype ScanMessageType = Info | Warning | Error

type_synonym scan_message = "ScanMessageType \<times> string \<times> string \<times> string list"

text \<open>
  \<open>LoadResource\<close> of the mounter, for the path and the fragment of the URL, with the message it leaves when
  the resource does not load.
\<close>

definition load_message :: "string \<Rightarrow> string \<Rightarrow> scan_message" where
  "load_message name err =
     (if err = ''Could not open resource metadata file - no such file.'' then (Warning, name, ''no_manifest'', [])
      else (Error, name, ''load_failed'', [err]))"

definition LoadResource ::
  "resource_env \<Rightarrow> manifest_loader \<Rightarrow> string \<Rightarrow> string \<Rightarrow> resource_world \<Rightarrow>
     (resource_ref option \<times> scan_message list \<times> resource_world) option" where
  "LoadResource E loader path name w =
     (if path = [] \<or> name = [] then Some (None, [], w)
      else
        let (r, w) = CreateResource name w; ((ok, err), w) = LoadFrom loader path r w in
        if ok then Some (Some r, [], w)
        else Option.bind (RemoveResource E r w)
               (\<lambda>w. Some (None, [load_message name (case err of None \<Rightarrow> [] | Some e \<Rightarrow> e)], w)))"

definition AddResource ::
  "resource_env \<Rightarrow> manifest_loader \<Rightarrow> string \<Rightarrow> string \<Rightarrow> resource_world \<Rightarrow>
     (resource_ref option \<times> scan_message list \<times> resource_world) option" where
  "AddResource E loader path name w =
     Option.bind (LoadResource E loader path name w)
       (\<lambda>(r, msgs, w). case r of None \<Rightarrow> Some (None, msgs, w) | Some r \<Rightarrow> Some (Some r, msgs, note_provides r w))"

subsection \<open>Scanning\<close>

text \<open>
  A folder knows whether it holds a manifest file (\<open>fxmanifest.lua\<close> or \<open>__resource.lua\<close>); other files do not
  matter. The convar \<open>resources_useSystemChat\<close> and the kind of the root decide whether \<open>chat\<close> is skipped.
\<close>

datatype fs_entry = FsFile string | FsFolder string bool "fs_entry list"

record scan =
  scan_world :: resource_world
  m_scanData :: "string \<Rightarrow> string option"
  scannedNow :: "(string \<times> string) list"
  updatedNow :: "string list"
  newResources :: nat
  updatedResources :: nat
  reloadedResources :: nat
  messages :: "scan_message list"

fun entry_name :: "fs_entry \<Rightarrow> string" where
  "entry_name (FsFile n) = n"
| "entry_name (FsFolder n _ _) = n"

definition skipped_entry :: "bool \<Rightarrow> fs_entry \<Rightarrow> bool" where
  "skipped_entry otherChat e \<longleftrightarrow>
     entry_name e \<in> {''.'', ''..'', ''.git''} \<or> (entry_name e = ''chat'' \<and> otherChat)"

text \<open>Metadata without the entries that Lua orders at random.\<close>

definition is_extra :: "string \<Rightarrow> bool" where
  "is_extra k \<longleftrightarrow> (\<exists>p. k = p @ ''_extra'')"

lemma is_extra_code [code]: "is_extra k \<longleftrightarrow> length k \<ge> 6 \<and> drop (length k - 6) k = ''_extra''"
proof
  assume "length k \<ge> 6 \<and> drop (length k - 6) k = ''_extra''"
  then have "k = take (length k - 6) k @ ''_extra''" by (metis append_take_drop_id)
  then show "is_extra k" unfolding is_extra_def by blast
qed (auto simp: is_extra_def)

definition filterMetadata :: "(string \<times> string) list \<Rightarrow> (string \<times> string) list" where
  "filterMetadata md = filter (\<lambda>(k, _). \<not> is_extra k) md"

definition LoadMetaData :: "manifest_loader \<Rightarrow> string \<Rightarrow> resource_ref \<Rightarrow> resource_world \<Rightarrow> resource_world" where
  "LoadMetaData loader path r w =
     w\<lparr>pool := (pool w)[r := (resource_at w r)\<lparr>m_metaDataEntries := foldl (\<lambda>m (k, v). multi_put k v m) [] (fst (loader path))\<rparr>]\<rparr>"

text \<open>A resource that has moved is stopped and removed, also from the lists by category.\<close>

definition unload_moved ::
  "resource_env \<Rightarrow> string \<Rightarrow> string \<Rightarrow> scan \<Rightarrow> (resource_ref option \<times> scan) option" where
  "unload_moved E name resPath s =
     (let w = scan_world s in
      case (GetResource w name False, m_scanData s name) of
        (Some r, Some old) \<Rightarrow>
          if old = resPath then Some (Some r, s)
          else
            let w = w\<lparr>m_resourcesByComponent := (\<lambda>c. filter (\<lambda>n. n \<noteq> name) (m_resourcesByComponent w c))\<rparr> in
            Option.bind (run E (StopCall r) w)
              (\<lambda>(_, w). Option.bind (RemoveResource E r w) (\<lambda>w. Some (None, s\<lparr>scan_world := w\<rparr>)))
      | (old, _) \<Rightarrow> Some (old, s))"

definition reload_resource :: "manifest_loader \<Rightarrow> string \<Rightarrow> string \<Rightarrow> resource_ref \<Rightarrow> scan \<Rightarrow> scan" where
  "reload_resource loader name resPath r s =
     (let w = scan_world s; w' = LoadMetaData loader resPath r w;
          old = filterMetadata (m_metaDataEntries (resource_at w r));
          new = filterMetadata (m_metaDataEntries (resource_at w' r));
          s = s\<lparr>scan_world := w', reloadedResources := reloadedResources s + 1\<rparr> in
      if old \<noteq> new then s\<lparr>updatedNow := name # updatedNow s, updatedResources := updatedResources s + 1\<rparr> else s)"

definition add_to_categories :: "string list \<Rightarrow> string \<Rightarrow> resource_world \<Rightarrow> resource_world" where
  "add_to_categories components name w =
     w\<lparr>m_resourcesByComponent := (\<lambda>c. if c \<in> set components then std_set (name # m_resourcesByComponent w c)
                                    else m_resourcesByComponent w c)\<rparr>"

definition new_resource ::
  "resource_env \<Rightarrow> manifest_loader \<Rightarrow> string list \<Rightarrow> string \<Rightarrow> string \<Rightarrow> scan \<Rightarrow> scan option" where
  "new_resource E loader components name resPath s =
     (let s = s\<lparr>newResources := newResources s + 1, updatedNow := name # updatedNow s,
                m_scanData := (m_scanData s)(name \<mapsto> resPath)\<rparr> in
      Option.bind (AddResource E loader resPath name (scan_world s))
        (\<lambda>(r, msgs, w). Some (s\<lparr>messages := messages s @ msgs,
            scan_world := (case r of None \<Rightarrow> w | Some r \<Rightarrow> add_to_categories components (GetName w r) w)\<rparr>)))"

definition scan_resource ::
  "resource_env \<Rightarrow> manifest_loader \<Rightarrow> string list \<Rightarrow> string \<Rightarrow> string \<Rightarrow> scan \<Rightarrow> scan option" where
  "scan_resource E loader components name resPath s =
     (case map_of (scannedNow s) name of
        Some first \<Rightarrow> Some (s\<lparr>messages := messages s @ [(Warning, name, ''duplicate_resource'', [resPath, first])]\<rparr>)
      | None \<Rightarrow>
          if (name \<noteq> [] \<and> hd name = CHR ''.'') \<or> map ToLower name = ''txadmin'' then Some s
          else
            Option.bind (unload_moved E name resPath (s\<lparr>scannedNow := (name, resPath) # scannedNow s\<rparr>))
              (\<lambda>(old, s). case old of
                 Some r \<Rightarrow> Some (reload_resource loader name resPath r s)
               | None \<Rightarrow> new_resource E loader components name resPath s))"

fun scan_entry ::
  "resource_env \<Rightarrow> manifest_loader \<Rightarrow> bool \<Rightarrow> string list \<Rightarrow> string \<Rightarrow> fs_entry \<Rightarrow> scan \<Rightarrow> scan option" where
  "scan_entry E loader otherChat components path (FsFile n) s = Some s"
| "scan_entry E loader otherChat components path (FsFolder n manifest es) s =
     (if skipped_entry otherChat (FsFolder n manifest es) then Some s
      else if isCategory n then
        Some (if manifest then s\<lparr>messages := messages s @ [(Warning, butlast (tl n), ''category_manifest'', [n])]\<rparr> else s)
      else scan_resource E loader components n (path @ ''/'' @ n) s)"

text \<open>The categories of a folder go to the end of the queue, with the category names on the way to them.\<close>

fun subfolder :: "bool \<Rightarrow> string list \<Rightarrow> string \<Rightarrow> fs_entry \<Rightarrow> (string list \<times> string \<times> fs_entry list) list" where
  "subfolder otherChat components path (FsFile n) = []"
| "subfolder otherChat components path (FsFolder n manifest es) =
     (if skipped_entry otherChat (FsFolder n manifest es) \<or> \<not> isCategory n then []
      else [(components @ [n], path @ ''/'' @ n, es)])"

lemma subfolder_size:
  "sum_list (map (\<lambda>(_, _, es). Suc (size_list size es)) (concat (map (subfolder oc cs path) es))) \<le> size_list size es"
proof (induction es)
  case (Cons e es)
  have "sum_list (map (\<lambda>(_, _, es). Suc (size_list size es)) (subfolder oc cs path e)) \<le> size e"
    by (cases e) auto
  then show ?case using Cons by simp
qed simp

function scan_queue ::
  "resource_env \<Rightarrow> manifest_loader \<Rightarrow> bool \<Rightarrow> (string list \<times> string \<times> fs_entry list) list \<Rightarrow> scan \<Rightarrow> scan option" where
  "scan_queue E loader otherChat [] s = Some s"
| "scan_queue E loader otherChat ((components, path, es) # queue) s =
     Option.bind (handle_all (scan_entry E loader otherChat components path) es s)
       (scan_queue E loader otherChat (queue @ concat (map (subfolder otherChat components path) es)))"
  by pat_completeness auto
termination
proof (relation "measure (\<lambda>(_, _, _, queue, _). sum_list (map (\<lambda>(_, _, es). Suc (size_list size es)) queue))")
  fix E loader otherChat components path es queue s x
  show "((E, loader, otherChat, queue @ concat (map (subfolder otherChat components path) es), x),
      E, loader, otherChat, (components, path, es) # queue, s) \<in> measure (\<lambda>(_, _, _, queue, _). sum_list (map (\<lambda>(_, _, es). Suc (size_list size es)) queue))"
    using subfolder_size [of otherChat components path es] by simp
qed simp

definition ScanResources ::
  "resource_env \<Rightarrow> manifest_loader \<Rightarrow> bool \<Rightarrow> string \<Rightarrow> fs_entry list \<Rightarrow> resource_world \<Rightarrow> (string \<Rightarrow> string option) \<Rightarrow> scan option" where
  "ScanResources E loader otherChat root es w scanData =
     scan_queue E loader otherChat [([], root, es)]
       \<lparr>scan_world = w, m_scanData = scanData, scannedNow = [], updatedNow = [], newResources = 0,
        updatedResources = 0, reloadedResources = 0, messages = []\<rparr>"

subsection \<open>What removing and adding do\<close>

lemma Destroy_fields [simp]:
  "GetName (Destroy r w) q = GetName w q" "length (pool (Destroy r w)) = length (pool w)" "m_resources (Destroy r w) = m_resources w"
  "m_resourceProvides (Destroy r w) = m_resourceProvides w"
  "GetState (Destroy r w) q = (if q = r \<and> r < length (pool w) then Uninitialized else GetState w q)"
  by (simp_all add: Destroy_def GetState_set_state)

text \<open>
  A resource that is removed is gone from the registry, but not from what it provides: when no resource has
  the name, a name that it provided first still resolves to it.
\<close>

lemma removed_still_provides:
  assumes "RemoveResource E r w = Some v" "r < length (pool w)" "m_resources w n = None" "multi_get n (m_resourceProvides w) = r # ps"
  shows "m_resources v (GetName w r) = None" "GetResource v n True = Some r" "GetState v r = Uninitialized"
proof -
  obtain b u where u: "run E (StopCall r) w = Some (b, u)"
    "v = Destroy r u\<lparr>m_resources := (m_resources u)(GetName u r := None)\<rparr>"
    using assms(1) by (auto simp: RemoveResource_def Let_def split: bind_splits)
  note f = same_frameD [OF run_frame [OF u(1)]]
  have pool: "pool v = pool (Destroy r u)" by (simp add: u(2))
  show "m_resources v (GetName w r) = None" by (simp add: u(2) f)
  show "GetState v r = Uninitialized" using assms(2) by (simp add: same_pool(2) [OF pool] f)
  show "GetResource v n True = Some r"
    using assms(3,4) by (cases "n = GetName w r") (simp_all add: GetResource_def u(2) f)
qed

text \<open>A loaded resource is found by its name, stopped, with the manifest of its path.\<close>

lemma AddResource_found:
  assumes "path \<noteq> []" "name \<noteq> []" "loader path = (entries, None)"
  shows "\<exists>v. AddResource E loader path name w = Some (Some (length (pool w)), [], v)
    \<and> GetResource v name False = Some (length (pool w)) \<and> GetState v (length (pool w)) = Stopped
    \<and> GetName v (length (pool w)) = name \<and> pool v = pool w @ [resource_at v (length (pool w))]
    \<and> m_resourceProvides v = m_resourceProvides w @ map (\<lambda>p. (p, length (pool w))) (GetEntries v (length (pool w)) ''provide'')"
  using assms
  by (simp add: AddResource_def LoadResource_def CreateResource_def LoadFrom_def note_provides_def GetResource_def
      GetState_def GetName_def GetEntries_def resource_at_def Let_def nth_append)

text \<open>A resource whose manifest does not load is not found afterwards, even when there was one of its name.\<close>

lemma AddResource_failed:
  assumes "path \<noteq> []" "name \<noteq> []" "loader path = (entries, Some err)"
  shows "\<exists>v. AddResource E loader path name w = Some (None, [load_message name err], v) \<and> m_resources v name = None
    \<and> m_resourceProvides v = m_resourceProvides w"
  using assms
  by (simp add: AddResource_def LoadResource_def CreateResource_def LoadFrom_def RemoveResource_def Destroy_def
      GetState_def GetName_def resource_at_def Let_def nth_append run_Stop set_state_def)

lemma ResetResources_empty:
  assumes "ResetResources E rs w = Some v"
  shows "GetResource v n p = None" "m_eventQueue v = []" "resourceDependencies v = []" "resourceDependants v = []"
  using assms by (auto simp: ResetResources_def GetResource_def multi_get_def split: bind_splits)

subsection \<open>A scan that finds nothing new\<close>

text \<open>Every folder of a resource is known under its path.\<close>

fun known_entry :: "bool \<Rightarrow> resource_world \<Rightarrow> (string \<Rightarrow> string option) \<Rightarrow> string \<Rightarrow> fs_entry \<Rightarrow> bool" where
  "known_entry otherChat w paths path (FsFile n) = True"
| "known_entry otherChat w paths path (FsFolder n manifest es) =
     (skipped_entry otherChat (FsFolder n manifest es)
      \<or> (if isCategory n then list_all (known_entry otherChat w paths (path @ ''/'' @ n)) es
         else m_resources w n \<noteq> None \<and> paths n = Some (path @ ''/'' @ n)))"

definition unchanged :: "resource_world \<Rightarrow> (string \<Rightarrow> string option) \<Rightarrow> scan \<Rightarrow> bool" where
  "unchanged w paths s \<longleftrightarrow> m_resources (scan_world s) = m_resources w \<and> m_scanData s = paths \<and> newResources s = 0
     \<and> length (pool (scan_world s)) = length (pool w)
     \<and> (\<forall>q. GetState (scan_world s) q = GetState w q \<and> GetName (scan_world s) q = GetName w q)"

lemma handle_all_total:
  "P s \<Longrightarrow> (\<And>x s. x \<in> set xs \<Longrightarrow> P s \<Longrightarrow> \<exists>s'. h x s = Some s' \<and> P s') \<Longrightarrow> \<exists>s'. handle_all h xs s = Some s' \<and> P s'"
proof (induction xs arbitrary: s)
  case (Cons x xs)
  obtain s' where s': "h x s = Some s'" "P s'" using Cons.prems by auto
  obtain s'' where "handle_all h xs s' = Some s''" "P s''" using Cons.IH [OF s'(2)] Cons.prems(2) by auto
  then show ?case using s'(1) by auto
qed auto

lemma LoadMetaData_fields [simp]:
  "m_resources (LoadMetaData loader path r w) = m_resources w" "GetState (LoadMetaData loader path r w) q = GetState w q"
  "GetName (LoadMetaData loader path r w) q = GetName w q" "length (pool (LoadMetaData loader path r w)) = length (pool w)"
  by (auto simp: LoadMetaData_def GetState_def GetName_def resource_at_def Let_def nth_list_update)

lemma scan_resource_unchanged:
  assumes "unchanged w paths s" "m_resources w n \<noteq> None" "paths n = Some p"
  shows "\<exists>s'. scan_resource E loader cs n p s = Some s' \<and> unchanged w paths s'"
proof -
  obtain r where r: "m_resources w n = Some r" using assms(2) by auto
  show ?thesis
    using assms r
    by (auto simp: scan_resource_def unload_moved_def GetResource_def unchanged_def reload_resource_def Let_def split: option.splits)
qed

lemma scan_entry_unchanged:
  assumes "unchanged w paths s" "known_entry oc w paths path e"
  shows "\<exists>s'. scan_entry E loader oc cs path e s = Some s' \<and> unchanged w paths s'"
proof (cases e)
  case (FsFolder n manifest es)
  show ?thesis
  proof (cases "skipped_entry oc e \<or> isCategory n")
    case True
    then show ?thesis using assms(1) FsFolder by (auto simp: unchanged_def)
  next
    case False
    then show ?thesis using assms scan_resource_unchanged [OF assms(1), of n "path @ ''/'' @ n" E loader cs] FsFolder by simp
  qed
qed (use assms in simp)

lemma scan_queue_unchanged:
  "unchanged w paths s \<Longrightarrow> (\<forall>(cs, path, es)\<in>set queue. list_all (known_entry oc w paths path) es)
   \<Longrightarrow> \<exists>s'. scan_queue E loader oc queue s = Some s' \<and> unchanged w paths s'"
proof (induction E loader oc queue s rule: scan_queue.induct)
  case (2 E loader oc cs path es queue s)
  have known: "list_all (known_entry oc w paths path) es" using 2(3) by auto
  obtain s' where s': "handle_all (scan_entry E loader oc cs path) es s = Some s'" "unchanged w paths s'"
    using handle_all_total [where P = "unchanged w paths" and s = s and h = "scan_entry E loader oc cs path" and xs = es]
      2(2) scan_entry_unchanged known by (auto simp: list_all_iff)
  have "list_all (known_entry oc w paths p) es'" if "(cs', p, es') \<in> set (subfolder oc cs path e)" "e \<in> set es" for cs' p es' e
    using that known by (cases e) (auto simp: list_all_iff split: if_splits)
  then have "\<forall>(cs, path, es)\<in>set (queue @ concat (map (subfolder oc cs path) es)). list_all (known_entry oc w paths path) es"
    using 2(3) by auto
  then show ?case using 2(1) [of s'] s' by simp
qed auto

lemma ScanResources_unchanged:
  assumes "list_all (known_entry oc w paths root) es"
  shows "\<exists>s. ScanResources E loader oc root es w paths = Some s \<and> unchanged w paths s"
  unfolding ScanResources_def by (rule scan_queue_unchanged) (use assms in \<open>simp_all add: unchanged_def\<close>)

end
