(* ===== verification/ResourceEvents.thy ===== *)
theory ResourceEvents
  imports StdMap Prelude
begin

text \<open>
  \<open>citizen-resources-core/src/ResourceEventComponent.cpp\<close>: events that scripts trigger and queue, which
  resources they reach, and their cancelation. A handler is the list of what it does; it may depend on the
  state, for instance on \<open>WasLastEventCanceled\<close>. The payload of an event and its source are left out.
\<close>

subsection \<open>The state\<close>

datatype event_action = Do_Cancel | Do_Trigger string | Do_Queue string

text \<open>
  The stack holds the flags that the pointers of \<open>g_eventCancelationStack\<close> point to, the innermost event
  first. \<open>delivered\<close> lists the deliveries; a queued event may be for one resource only (\<open>filter\<close>).
\<close>

record event_manager =
  m_queue :: "(string \<times> string option) list"
  m_eventResources :: "(string \<times> string) list"
  g_eventCancelationStack :: "bool list"
  g_wasLastEventCanceled :: bool
  delivered :: "(string \<times> string) list"

text \<open>
  \<open>handler\<close> is what a resource does with an event, \<open>global\<close> what the handlers of the manager itself do, with the
  flag whether the event goes on to the resources, and \<open>known\<close> the registry of resources.
\<close>

record dispatch_env =
  handler :: "event_manager \<Rightarrow> string \<Rightarrow> string \<Rightarrow> event_action list"
  global :: "event_manager \<Rightarrow> string \<Rightarrow> event_action list \<times> bool"
  known :: "string \<Rightarrow> bool"

definition AddResourceHandledEvent :: "string \<Rightarrow> string \<Rightarrow> event_manager \<Rightarrow> event_manager" where
  "AddResourceHandledEvent resourceName eventName m =
     (if resourceName \<in> set (multi_get eventName (m_eventResources m)) then m
      else m\<lparr>m_eventResources := m_eventResources m @ [(eventName, resourceName)]\<rparr>)"

text \<open>The resources that an event reaches: those that handle every event, then those that handle this one.\<close>

definition nui_event :: "string \<Rightarrow> bool" where
  "nui_event e \<longleftrightarrow> take 10 e = ''__cfx_nui:''"

definition event_targets_of :: "dispatch_env \<Rightarrow> event_manager \<Rightarrow> string \<Rightarrow> string option \<Rightarrow> string list" where
  "event_targets_of E m e only =
     (case only of
        Some r \<Rightarrow> [r]
      | None \<Rightarrow>
          if nui_event e then []
          else filter (known E) (multi_get ''*'' (m_eventResources m) @ multi_get e (m_eventResources m)))"

definition cancel_top :: "event_manager \<Rightarrow> event_manager" where
  "cancel_top m =
     (case g_eventCancelationStack m of [] \<Rightarrow> m | _ # s \<Rightarrow> m\<lparr>g_eventCancelationStack := True # s\<rparr>)"

definition queue_event :: "string \<Rightarrow> string option \<Rightarrow> event_manager \<Rightarrow> event_manager" where
  "queue_event e only m = m\<lparr>m_queue := m_queue m @ [(e, only)]\<rparr>"

text \<open>The pop of the stack, with the flag in \<open>g_wasLastEventCanceled\<close>.\<close>

definition finish_event :: "event_manager \<Rightarrow> event_manager" where
  "finish_event m = m\<lparr>g_wasLastEventCanceled := hd (g_eventCancelationStack m), g_eventCancelationStack := tl (g_eventCancelationStack m)\<rparr>"

subsection \<open>Triggering\<close>

text \<open>
  An event is delivered to its resources, whose handlers may trigger events: one recursion over what is being
  executed, which need not end (\<open>None\<close>).
\<close>

datatype event_call =
    TriggerCall string "string option"
  | DeliverCall string "string list"
  | ActionsCall "event_action list"

type_synonym event_exec = "event_call \<Rightarrow> event_manager \<Rightarrow> event_manager option"

definition push_flag :: "event_manager \<Rightarrow> event_manager" where
  "push_flag m = m\<lparr>g_eventCancelationStack := False # g_eventCancelationStack m\<rparr>"

definition trigger_step :: "dispatch_env \<Rightarrow> event_exec \<Rightarrow> string \<Rightarrow> string option \<Rightarrow> event_manager \<Rightarrow> event_manager option" where
  "trigger_step E exec e only m =
     (let m = push_flag m in
      Option.bind (exec (ActionsCall (fst (global E m e))) m)
        (\<lambda>m'. Option.bind (if snd (global E m e) then exec (DeliverCall e (event_targets_of E m' e only)) m' else Some m')
           (\<lambda>m. Some (finish_event m))))"

fun deliver_step :: "dispatch_env \<Rightarrow> event_exec \<Rightarrow> string \<Rightarrow> string list \<Rightarrow> event_manager \<Rightarrow> event_manager option" where
  "deliver_step E exec e [] m = Some m"
| "deliver_step E exec e (r # rs) m =
     (let m = m\<lparr>delivered := delivered m @ [(r, e)]\<rparr> in
      Option.bind (exec (ActionsCall (handler E m r e)) m) (exec (DeliverCall e rs)))"

fun actions_step :: "event_exec \<Rightarrow> event_action list \<Rightarrow> event_manager \<Rightarrow> event_manager option" where
  "actions_step exec [] m = Some m"
| "actions_step exec (Do_Cancel # as) m = exec (ActionsCall as) (cancel_top m)"
| "actions_step exec (Do_Trigger e # as) m = Option.bind (exec (TriggerCall e None) m) (exec (ActionsCall as))"
| "actions_step exec (Do_Queue e # as) m = exec (ActionsCall as) (queue_event e None m)"

fun event_step :: "dispatch_env \<Rightarrow> event_exec \<Rightarrow> event_exec" where
  "event_step E exec (TriggerCall e only) m = trigger_step E exec e only m"
| "event_step E exec (DeliverCall e rs) m = deliver_step E exec e rs m"
| "event_step E exec (ActionsCall as) m = actions_step exec as m"

lemma event_step_mono [partial_function_mono]:
  assumes "\<And>c m. mono_option (\<lambda>f. B f c m)"
  shows "mono_option (\<lambda>f. event_step E (B f) c m)"
proof (cases c)
  case (DeliverCall e rs)
  then show ?thesis by (cases rs) (auto simp: Let_def intro!: partial_function_mono assms)
next
  case (ActionsCall as)
  show ?thesis
  proof (cases as)
    case (Cons a as')
    then show ?thesis by (cases a) (auto simp: ActionsCall intro!: partial_function_mono assms)
  qed (auto simp: ActionsCall intro!: partial_function_mono)
qed (auto simp: trigger_step_def Let_def intro!: partial_function_mono assms)

partial_function (option) run_event :: "dispatch_env \<Rightarrow> event_call \<Rightarrow> event_manager \<Rightarrow> event_manager option" where
  "run_event E c m = event_step E (run_event E) c m"

declare run_event.simps [simp del]

text \<open>\<open>TriggerEvent\<close> returns whether the event was not cancelled.\<close>

definition TriggerEvent_result :: "dispatch_env \<Rightarrow> string \<Rightarrow> string option \<Rightarrow> event_manager \<Rightarrow> (bool \<times> event_manager) option" where
  "TriggerEvent_result E e only m = map_option (\<lambda>m. (\<not> g_wasLastEventCanceled m, m)) (run_event E (TriggerCall e only) m)"

text \<open>\<open>Tick\<close>: the queue is emptied, also of what handlers queue meanwhile.\<close>

partial_function (option) Tick_events :: "dispatch_env \<Rightarrow> event_manager \<Rightarrow> event_manager option" where
  "Tick_events E m =
     (case m_queue m of
        [] \<Rightarrow> Some m
      | (e, only) # q \<Rightarrow> Option.bind (run_event E (TriggerCall e only) (m\<lparr>m_queue := q\<rparr>)) (Tick_events E))"

declare Tick_events.simps [simp del]

subsection \<open>What an event does to the stack\<close>

lemma run_event_induct [consumes 1, case_names step]:
  assumes "run_event E c m = Some m'"
    and "\<And>exec c m m'. (\<And>c m m'. exec c m = Some m' \<Longrightarrow> P c m m') \<Longrightarrow> event_step E exec c m = Some m' \<Longrightarrow> P c m m'"
  shows "P c m m'"
proof -
  have "F = E \<longrightarrow> P c m m'" if "run_event F c m = Some m'" for F c m m'
  proof (rule run_event.raw_induct [OF _ that])
    fix ex F c m m'
    assume IH: "\<And>F c m m'. ex F c m = Some m' \<Longrightarrow> F = E \<longrightarrow> P c m m'" and st: "event_step F (ex F) c m = Some m'"
    show "F = E \<longrightarrow> P c m m'" using assms(2) [of "ex E" c m m'] IH [of E] st by blast
  qed
  from this [OF assms(1)] show ?thesis by simp
qed

text \<open>Registrations stay; the stack below the event that is being delivered is not touched, and its flag is only ever set.\<close>

definition top_kept :: "event_manager \<Rightarrow> event_manager \<Rightarrow> bool" where
  "top_kept m m' \<longleftrightarrow>
     m_eventResources m' = m_eventResources m \<and>
     (case g_eventCancelationStack m of
        [] \<Rightarrow> g_eventCancelationStack m' = []
      | b # s \<Rightarrow> \<exists>b'. g_eventCancelationStack m' = b' # s \<and> (b \<longrightarrow> b'))"

definition stack_kept :: "event_manager \<Rightarrow> event_manager \<Rightarrow> bool" where
  "stack_kept m m' \<longleftrightarrow>
     m_eventResources m' = m_eventResources m \<and> g_eventCancelationStack m' = g_eventCancelationStack m"

lemma step_trigger:
  assumes "event_step E exec (TriggerCall e only) m = Some m'"
  obtains m1 m2 where "exec (ActionsCall (fst (global E (push_flag m) e))) (push_flag m) = Some m1"
    and "if snd (global E (push_flag m) e) then exec (DeliverCall e (event_targets_of E m1 e only)) m1 = Some m2 else m2 = m1"
    and "m' = finish_event m2"
proof -
  from assms obtain m1 m2 where "exec (ActionsCall (fst (global E (push_flag m) e))) (push_flag m) = Some m1"
      "(if snd (global E (push_flag m) e) then exec (DeliverCall e (event_targets_of E m1 e only)) m1 else Some m1) = Some m2"
      "m' = finish_event m2"
    unfolding event_step.simps trigger_step_def Let_def bind_eq_Some_conv by blast
  then show ?thesis by (intro that [of m1 m2]) (simp_all split: if_splits)
qed

lemma step_deliver:
  assumes "event_step E exec (DeliverCall e rs) m = Some m'"
  obtains (none) "rs = []" "m' = m"
  | (some) r rs' m1 where "rs = r # rs'"
      "exec (ActionsCall (handler E (m\<lparr>delivered := delivered m @ [(r, e)]\<rparr>) r e)) (m\<lparr>delivered := delivered m @ [(r, e)]\<rparr>) = Some m1"
      "exec (DeliverCall e rs') m1 = Some m'"
  using assms by (cases rs) (auto simp: Let_def bind_eq_Some_conv)

lemma step_actions:
  assumes "event_step E exec (ActionsCall as) m = Some m'"
  obtains (none) "as = []" "m' = m"
  | (cancel) as' where "as = Do_Cancel # as'" "exec (ActionsCall as') (cancel_top m) = Some m'"
  | (trigger) e as' m1 where "as = Do_Trigger e # as'" "exec (TriggerCall e None) m = Some m1" "exec (ActionsCall as') m1 = Some m'"
  | (queue) e as' where "as = Do_Queue e # as'" "exec (ActionsCall as') (queue_event e None m) = Some m'"
proof (cases as)
  case (Cons a as')
  then show ?thesis using assms that by (cases a) (auto simp: bind_eq_Some_conv)
qed (use assms that in auto)

lemma top_kept_trans: "top_kept m m1 \<Longrightarrow> top_kept m1 m' \<Longrightarrow> top_kept m m'"
  by (auto simp: top_kept_def split: list.splits)

lemma top_kept_small:
  "top_kept m m" "top_kept m (cancel_top m)" "top_kept m (queue_event e only m)" "top_kept m (m\<lparr>delivered := d\<rparr>)"
  "stack_kept m m' \<Longrightarrow> top_kept m m'"
  by (auto simp: top_kept_def stack_kept_def cancel_top_def queue_event_def split: list.splits)

lemma top_kept_event: "top_kept (push_flag m) m' \<Longrightarrow> stack_kept m (finish_event m')"
  by (auto simp: top_kept_def stack_kept_def push_flag_def finish_event_def)

definition call_kept :: "event_call \<Rightarrow> event_manager \<Rightarrow> event_manager \<Rightarrow> bool" where
  "call_kept c m m' \<longleftrightarrow> (case c of TriggerCall e only \<Rightarrow> stack_kept m m' | _ \<Rightarrow> top_kept m m')"

lemma event_step_kept:
  assumes "\<And>c m m'. exec c m = Some m' \<Longrightarrow> call_kept c m m'" and st: "event_step E exec c m = Some m'"
  shows "call_kept c m m'"
proof -
  note small = top_kept_small
  have IH: "top_kept m m'" if "exec c m = Some m'" for c m m'
    using assms(1) [OF that] small(5) unfolding call_kept_def by (cases c) simp_all
  show ?thesis
  proof (cases c)
    case (TriggerCall e only)
    obtain m1 m2 where *: "exec (ActionsCall (fst (global E (push_flag m) e))) (push_flag m) = Some m1"
        "if snd (global E (push_flag m) e) then exec (DeliverCall e (event_targets_of E m1 e only)) m1 = Some m2 else m2 = m1"
        "m' = finish_event m2"
      using st [unfolded TriggerCall] by (rule step_trigger)
    have "top_kept m1 m2"
    proof (cases "snd (global E (push_flag m) e)")
      case True
      then show ?thesis using *(2) IH by (simp only: if_True)
    next
      case False
      then show ?thesis using *(2) small(1) by (simp only: if_False)
    qed
    from top_kept_event [OF top_kept_trans [OF IH [OF *(1)] this]] show ?thesis unfolding TriggerCall *(3) call_kept_def by simp
  next
    case (DeliverCall e rs)
    from st [unfolded DeliverCall] have "top_kept m m'"
    proof (cases rule: step_deliver)
      case (some r rs' m1)
      from top_kept_trans [OF top_kept_trans [OF small(4) IH [OF some(2)]] IH [OF some(3)]] show ?thesis .
    qed (simp only: small)
    then show ?thesis by (simp only: DeliverCall call_kept_def event_call.case)
  next
    case (ActionsCall as)
    from st [unfolded ActionsCall] have "top_kept m m'"
    proof (cases rule: step_actions)
      case (cancel as')
      from top_kept_trans [OF small(2) IH [OF cancel(2)]] show ?thesis .
    next
      case (trigger e as' m1)
      from top_kept_trans [OF IH [OF trigger(2)] IH [OF trigger(3)]] show ?thesis .
    next
      case (queue e as')
      from top_kept_trans [OF small(3) IH [OF queue(2)]] show ?thesis .
    qed (simp only: small)
    then show ?thesis by (simp only: ActionsCall call_kept_def event_call.case)
  qed
qed

lemma run_event_kept: "run_event E c m = Some m' \<Longrightarrow> call_kept c m m'"
  by (erule run_event_induct) (rule event_step_kept)

lemma run_event_induct_kept [consumes 1, case_names step]:
  assumes "run_event E c m = Some m'"
    and "\<And>exec c m m'.
           (\<And>c m m'. exec c m = Some m' \<Longrightarrow> call_kept c m m' \<and> P c m m') \<Longrightarrow>
           event_step E exec c m = Some m' \<Longrightarrow> call_kept c m m' \<Longrightarrow> P c m m'"
  shows "P c m m'"
proof -
  have "call_kept c m m' \<and> P c m m'" using assms(1)
  proof (induction rule: run_event_induct)
    case (step exec c m m')
    have "call_kept c m m'" by (rule event_step_kept [OF _ step.hyps]) (use step.IH in blast)
    then show ?case using assms(2) [OF step.IH step.hyps] by blast
  qed
  then show ?thesis ..
qed

subsection \<open>Cancelation\<close>

text \<open>No handler of the event cancels; a resource whose handlers of the event always cancel it.\<close>

definition never_cancels :: "dispatch_env \<Rightarrow> string \<Rightarrow> bool" where
  "never_cancels E e \<longleftrightarrow> (\<forall>m. Do_Cancel \<notin> set (fst (global E m e)) \<and> (\<forall>r. Do_Cancel \<notin> set (handler E m r e)))"

definition always_cancels :: "dispatch_env \<Rightarrow> string \<Rightarrow> string \<Rightarrow> bool" where
  "always_cancels E r e \<longleftrightarrow> (\<forall>m. Do_Cancel \<in> set (handler E m r e))"

fun uncancelled :: "dispatch_env \<Rightarrow> event_call \<Rightarrow> event_manager \<Rightarrow> event_manager \<Rightarrow> bool" where
  "uncancelled E (TriggerCall e only) m m' \<longleftrightarrow> (never_cancels E e \<longrightarrow> \<not> g_wasLastEventCanceled m')"
| "uncancelled E (DeliverCall e rs) m m' \<longleftrightarrow>
     (never_cancels E e \<longrightarrow> g_eventCancelationStack m' = g_eventCancelationStack m)"
| "uncancelled E (ActionsCall as) m m' \<longleftrightarrow>
     (Do_Cancel \<notin> set as \<longrightarrow> g_eventCancelationStack m' = g_eventCancelationStack m)"

lemma never_cancels_handlers:
  "never_cancels E e \<Longrightarrow> Do_Cancel \<notin> set (fst (global E m e))" "never_cancels E e \<Longrightarrow> Do_Cancel \<notin> set (handler E m r e)"
  by (auto simp: never_cancels_def)

lemma call_kept_trigger: "call_kept (TriggerCall e only) m m' \<Longrightarrow> stack_kept m m'"
  by (simp add: call_kept_def)

lemma run_event_uncancelled: "run_event E c m = Some m' \<Longrightarrow> uncancelled E c m m'"
proof (induction rule: run_event_induct_kept)
  case (step exec c m m')
  note IH = step.IH [THEN conjunct2]
  show ?case
  proof (cases c)
    case (TriggerCall e only)
    obtain m1 m2 where *: "exec (ActionsCall (fst (global E (push_flag m) e))) (push_flag m) = Some m1"
        "if snd (global E (push_flag m) e) then exec (DeliverCall e (event_targets_of E m1 e only)) m1 = Some m2 else m2 = m1"
        "m' = finish_event m2"
      using step.hyps(1) [unfolded TriggerCall] by (rule step_trigger)
    show ?thesis unfolding TriggerCall uncancelled.simps
    proof
      assume never: "never_cancels E e"
      have "g_eventCancelationStack m1 = g_eventCancelationStack (push_flag m)"
        using IH [OF *(1)] never_cancels_handlers(1) [OF never] by simp
      moreover have "g_eventCancelationStack m2 = g_eventCancelationStack m1"
        using *(2) IH [of "DeliverCall e (event_targets_of E m1 e only)" m1 m2] never
        by (cases "snd (global E (push_flag m) e)") simp_all
      ultimately show "\<not> g_wasLastEventCanceled m'" unfolding *(3) by (simp add: finish_event_def push_flag_def)
    qed
  next
    case (DeliverCall e rs)
    from step.hyps(1) [unfolded DeliverCall] show ?thesis
    proof (cases rule: step_deliver)
      case (some r rs' m1)
      then show ?thesis unfolding DeliverCall using IH [OF some(2)] IH [OF some(3)] never_cancels_handlers(2) by simp
    qed (simp add: DeliverCall)
  next
    case (ActionsCall as)
    from step.hyps(1) [unfolded ActionsCall] show ?thesis
    proof (cases rule: step_actions)
      case (trigger e as' m1)
      have "g_eventCancelationStack m1 = g_eventCancelationStack m"
        using call_kept_trigger [OF step.IH [OF trigger(2), THEN conjunct1]] by (simp add: stack_kept_def)
      then show ?thesis using IH [OF trigger(3)] by (simp add: ActionsCall trigger(1))
    next
      case (queue e as')
      then show ?thesis using IH [OF queue(2)] by (simp add: ActionsCall queue_event_def)
    qed (simp_all add: ActionsCall)
  qed
qed

text \<open>A cancel is seen by every later handler of the event, and when the event is done.\<close>

definition cancel_flagged :: "event_manager \<Rightarrow> bool" where
  "cancel_flagged m \<longleftrightarrow> (case g_eventCancelationStack m of b # _ \<Rightarrow> b | [] \<Rightarrow> True)"

lemma top_kept_flagged: "top_kept m m' \<Longrightarrow> cancel_flagged m \<Longrightarrow> cancel_flagged m'"
  by (auto simp: top_kept_def cancel_flagged_def split: list.splits)

lemma call_kept_flagged: "call_kept c m m' \<Longrightarrow> cancel_flagged m \<Longrightarrow> cancel_flagged m'"
  using top_kept_flagged top_kept_small(5) by (cases c) (auto simp: call_kept_def)

lemma flagged_small: "cancel_flagged (cancel_top m)" "cancel_flagged (queue_event e only m) = cancel_flagged m" "cancel_flagged (m\<lparr>delivered := d\<rparr>) = cancel_flagged m"
  by (auto simp: cancel_flagged_def cancel_top_def queue_event_def split: list.splits)

fun cancelling :: "dispatch_env \<Rightarrow> event_call \<Rightarrow> event_manager \<Rightarrow> bool" where
  "cancelling E (TriggerCall e only) m \<longleftrightarrow>
     (\<forall>m. snd (global E m e)) \<and> (\<exists>r\<in>set (event_targets_of E m e only). always_cancels E r e)"
| "cancelling E (DeliverCall e rs) m \<longleftrightarrow> (\<exists>r\<in>set rs. always_cancels E r e)"
| "cancelling E (ActionsCall as) m \<longleftrightarrow> Do_Cancel \<in> set as"

lemma event_targets_of_kept:
  "m_eventResources m' = m_eventResources m \<Longrightarrow> event_targets_of E m' e only = event_targets_of E m e only"
  by (simp add: event_targets_of_def split: option.splits)

lemma run_event_flagged:
  "run_event E c m = Some m' \<Longrightarrow> cancelling E c m \<longrightarrow> (case c of TriggerCall e only \<Rightarrow> g_wasLastEventCanceled m' | _ \<Rightarrow> cancel_flagged m')"
proof (induction rule: run_event_induct_kept)
  case (step exec c m m')
  have later: "cancel_flagged m'" if "exec c m = Some m'" "cancel_flagged m" for c m m'
    using call_kept_flagged [OF step.IH [OF that(1), THEN conjunct1] that(2)] .
  note IH = step.IH [THEN conjunct2]
  show ?case
  proof (cases c)
    case (TriggerCall e only)
    obtain m1 m2 where *: "exec (ActionsCall (fst (global E (push_flag m) e))) (push_flag m) = Some m1"
        "if snd (global E (push_flag m) e) then exec (DeliverCall e (event_targets_of E m1 e only)) m1 = Some m2 else m2 = m1"
        "m' = finish_event m2"
      using step.hyps(1) [unfolded TriggerCall] by (rule step_trigger)
    show ?thesis unfolding TriggerCall event_call.case
    proof
      assume can: "cancelling E (TriggerCall e only) m"
      have one: "top_kept (push_flag m) m1"
        using step.IH [OF *(1), THEN conjunct1] by (simp add: call_kept_def)
      then have reg: "m_eventResources m1 = m_eventResources m" by (simp add: top_kept_def push_flag_def)
      have two: "exec (DeliverCall e (event_targets_of E m1 e only)) m1 = Some m2" using *(2) can by simp
      have "cancel_flagged m2" using IH [OF two] can event_targets_of_kept [OF reg, of E e only] by simp
      moreover have "top_kept m1 m2" using step.IH [OF two, THEN conjunct1] by (simp add: call_kept_def)
      then have "g_eventCancelationStack m2 \<noteq> []"
        using one by (auto simp: top_kept_def push_flag_def split: list.splits)
      ultimately show "g_wasLastEventCanceled m'"
        unfolding *(3) by (auto simp: finish_event_def cancel_flagged_def split: list.splits)
    qed
  next
    case (DeliverCall e rs)
    from step.hyps(1) [unfolded DeliverCall] show ?thesis
    proof (cases rule: step_deliver)
      case (some r rs' m1)
      have "cancel_flagged m1" if "always_cancels E r e"
        using IH [OF some(2)] that by (simp add: always_cancels_def)
      then show ?thesis unfolding DeliverCall using IH [OF some(3)] later [OF some(3)] by (auto simp: some(1))
    qed (simp add: DeliverCall)
  next
    case (ActionsCall as)
    from step.hyps(1) [unfolded ActionsCall] show ?thesis
    proof (cases rule: step_actions)
      case (cancel as')
      then show ?thesis using later [OF cancel(2) flagged_small(1)] by (simp add: ActionsCall)
    next
      case (trigger e as' m1)
      then show ?thesis using IH [OF trigger(3)] by (simp add: ActionsCall)
    next
      case (queue e as')
      then show ?thesis using IH [OF queue(2)] by (simp add: ActionsCall)
    qed (simp add: ActionsCall)
  qed
qed

text \<open>
  An event that returns leaves the events around it as they were; it is cancelled exactly by its own handlers.
\<close>

theorem TriggerEvent_cancelation:
  assumes "TriggerEvent_result E e only m = Some (b, m')"
  shows "g_eventCancelationStack m' = g_eventCancelationStack m"
    and "b = (\<not> g_wasLastEventCanceled m')"
    and "never_cancels E e \<Longrightarrow> b"
    and "(\<And>m. snd (global E m e)) \<Longrightarrow> r \<in> set (event_targets_of E m e only) \<Longrightarrow> always_cancels E r e \<Longrightarrow> \<not> b"
proof -
  have run: "run_event E (TriggerCall e only) m = Some m'" and b: "b = (\<not> g_wasLastEventCanceled m')"
    using assms by (auto simp: TriggerEvent_result_def)
  show "b = (\<not> g_wasLastEventCanceled m')" by (fact b)
  show "g_eventCancelationStack m' = g_eventCancelationStack m"
    using run_event_kept [OF run] by (simp add: call_kept_def stack_kept_def)
  show "never_cancels E e \<Longrightarrow> b" using run_event_uncancelled [OF run] b by simp
  show "(\<And>m. snd (global E m e)) \<Longrightarrow> r \<in> set (event_targets_of E m e only) \<Longrightarrow> always_cancels E r e \<Longrightarrow> \<not> b"
    using run_event_flagged [OF run] b by auto
qed

text \<open>A resource that handles every event and also registered for one gets that one twice.\<close>

lemma event_twice:
  assumes "(''*'', r) \<in> set (m_eventResources m)" "(e, r) \<in> set (m_eventResources m)" "e \<noteq> ''*''" "known E r" "\<not> nui_event e"
  shows "2 \<le> count_list (event_targets_of E m e None) r"
proof -
  have pos: "0 < count_list xs r" if "r \<in> set xs" for xs :: "string list"
    using that count_list_0_iff [of xs r] by (cases "count_list xs r") simp_all
  have "r \<in> set (multi_get ''*'' (m_eventResources m))" "r \<in> set (multi_get e (m_eventResources m))"
    using assms(1,2) by (force simp: multi_get_def)+
  then have "r \<in> set (filter (known E) (multi_get ''*'' (m_eventResources m)))"
      "r \<in> set (filter (known E) (multi_get e (m_eventResources m)))"
    using assms(4) by simp_all
  from this [THEN pos] show ?thesis using assms(5) by (simp add: event_targets_of_def)
qed

end
