(* ===== verification/SampleResources.thy ===== *)
theory SampleResources
  imports ResourceClients ResourceFaults ResourceScan ResourceEvents
begin

text \<open>
  Small systems of resources for the examples, without scripts that interfere: a game mode that depends on
  the chat, two resources that depend on each other, and so on. Their starts and stops are executed with fuel.
\<close>

definition quiet_server :: resource_env where
  "quiet_server = \<lparr>outside = (\<lambda>_ _ _. ([], True)), may_execute = (\<lambda>_ _. True), game = GTA5, indeterminate = False\<rparr>"

lemma quiet_silent [simp]: "silent quiet_server"
  by (simp add: silent_def quiet_server_def)

lemma quiet_verdict [simp]: "verdict quiet_server w h r"
  by (simp add: verdict_def quiet_server_def)

definition loaded :: "string \<Rightarrow> (string \<times> string) list \<Rightarrow> resource" where
  "loaded n entries = \<lparr>m_name = n, m_rootPath = ''resources/'' @ n, m_state = Stopped, m_metaDataEntries = entries\<rparr>"

definition system :: "resource list \<Rightarrow> (string \<times> resource_ref) list \<Rightarrow> resource_world" where
  "system rs provides = \<lparr>pool = rs, m_resources = map_of (zip (map m_name rs) [0..<length rs]), m_resourceProvides = provides,
     resourceDependencies = [], resourceDependants = [], m_constraints = Map.empty, m_enforcingConstraints = True,
     m_resourcesByComponent = (\<lambda>_. []), configured = True, g_resourceStartOrder = [], m_eventQueue = [], triggered = [],
     broadcasts = []\<rparr>"

definition mode_system :: resource_world where
  "mode_system = system [loaded ''chat'' [], loaded ''mode'' [(''dependency'', ''chat'')]] []"

definition cyclic_system :: resource_world where
  "cyclic_system = system [loaded ''a'' [(''dependency'', ''b'')], loaded ''b'' [(''dependency'', ''a'')]] []"

text \<open>Execution with fuel: what it returns is what the execution returns.\<close>

primrec run_fuel :: "nat \<Rightarrow> resource_env \<Rightarrow> exec" where
  "run_fuel 0 E = (\<lambda>c w. None)"
| "run_fuel (Suc n) E = step E (run_fuel n E)"

lemma run_fuel_run: "run_fuel n E c w = Some x \<Longrightarrow> run E c w = Some x"
proof (induction n arbitrary: c w x)
  case (Suc n)
  have mono: "mono_option (\<lambda>f :: call \<times> resource_world \<Rightarrow> (bool \<times> resource_world) option. step E (\<lambda>c w. f (c, w)) c w)"
    by (rule step_mono) (simp add: monotone_def fun_ord_def)
  have less: "fun_ord option_ord (\<lambda>(c, w). run_fuel n E c w) (\<lambda>(c, w). run E c w)"
    unfolding fun_ord_def flat_ord_def
  proof (clarify, rename_tac d u)
    fix d u
    assume "run_fuel n E d u \<noteq> run E d u"
    then show "run_fuel n E d u = None" using Suc.IH [of d u] by (cases "run_fuel n E d u") simp_all
  qed
  have "option_ord (step E (run_fuel n E) c w) (step E (run E) c w)"
    using mono [THEN monotoneD, OF less] by simp
  then show ?case using Suc.prems by (simp add: flat_ord_def run_step)
qed simp

text \<open>The game mode is started, which starts the chat.\<close>

definition executed :: "call \<Rightarrow> resource_world \<Rightarrow> resource_world" where
  "executed c w = snd (the (run_fuel 24 quiet_server c w))"

lemma executed_run:
  assumes "map_option fst (run_fuel 24 quiet_server c w) = Some b"
  shows "run quiet_server c w = Some (b, executed c w)"
proof -
  obtain v where "run_fuel 24 quiet_server c w = Some (b, v)" using assms by auto
  then show ?thesis using run_fuel_run by (simp add: executed_def)
qed

definition mode_running :: resource_world where
  "mode_running = executed (StartCall 1) mode_system"

lemma mode_started: "run quiet_server (StartCall 1) mode_system = Some (True, mode_running)"
  unfolding mode_running_def by (rule executed_run) code_simp

lemma mode_states:
  "GetState mode_running 1 = Started" "all_deps mode_running 1 = [''chat'']" "GetResource mode_running ''chat'' True = Some 0"
  by code_simp+

definition mode_rank :: "string \<Rightarrow> nat" where
  "mode_rank n = (if n = ''mode'' then 1 else 0)"

lemma mode_registry: "m_resources mode_system = [''mode'' \<mapsto> 1, ''chat'' \<mapsto> 0]"
  by (auto simp: mode_system_def system_def loaded_def)

lemma mode_system_fields:
  "m_resourceProvides mode_system = []" "length (pool mode_system) = 2"
  "resourceDependencies mode_system = []" "resourceDependants mode_system = []"
  "GetName mode_system 0 = ''chat''" "GetName mode_system (Suc 0) = ''mode''"
  "all_deps mode_system 0 = []" "all_deps mode_system (Suc 0) = [''chat'']"
  "GetState mode_system 0 = Stopped" "GetState mode_system (Suc 0) = Stopped"
  by (simp_all add: mode_system_def system_def loaded_def GetName_def GetState_def all_deps_def GetEntries_def resource_at_def multi_get_def)

lemma mode_candidate: "candidate mode_system n q \<longleftrightarrow> (n = ''mode'' \<and> q = 1) \<or> (n = ''chat'' \<and> q = 0)"
  by (auto simp: candidate_def mode_registry mode_system_fields)

lemma below_two: "(q :: nat) < 2 \<longleftrightarrow> q = 0 \<or> q = Suc 0"
  by auto

lemma mode_ranked: "ranked mode_rank mode_system"
  by (auto simp: ranked_def refs_ok_def mode_candidate mode_system_fields below_two mode_rank_def)

lemma mode_fresh: "fresh_world mode_system"
  by (auto simp: fresh_world_def names_ok_def mode_registry mode_system_fields below_two active_def split: if_splits)

lemma mode_session: "resource_session quiet_server mode_system mode_running"
proof (rule session_start [OF session_init])
  show "GetResource mode_system ''mode'' True = Some 1" by code_simp
qed (rule mode_started)

text \<open>Two resources that depend on each other are started.\<close>

definition cyclic_running :: resource_world where
  "cyclic_running = executed (StartCall 0) cyclic_system"

lemma cyclic_started: "run quiet_server (StartCall 0) cyclic_system = Some (True, cyclic_running)"
  unfolding cyclic_running_def by (rule executed_run) code_simp

lemma cyclic_cycle: "stop_cycle cyclic_running {0, 1}"
proof -
  have w: "waiting (resourceDependants cyclic_running) (GetName cyclic_running 0) = [''b'']"
    "waiting (resourceDependants cyclic_running) (GetName cyclic_running 1) = [''a'']"
    and g: "GetResource cyclic_running ''a'' True = Some 0" "GetResource cyclic_running ''b'' True = Some 1"
    and n: "GetName cyclic_running 0 = ''a''" "GetName cyclic_running 1 = ''b''"
    and s: "GetState cyclic_running 0 = Started" "GetState cyclic_running 1 = Started"
    by code_simp+
  show ?thesis unfolding stop_cycle_def using w g n s by simp
qed

text \<open>
  A resource \<open>a\<close> depends on \<open>b\<close>. The start of \<open>b\<close> is cancelled once, so \<open>a\<close> waits for it.
\<close>

definition pair_system :: resource_world where
  "pair_system = system [loaded ''a'' [(''dependency'', ''b'')], loaded ''b'' []] []"

definition refusing_server :: resource_env where
  "refusing_server = quiet_server\<lparr>outside := (\<lambda>_ _ n. ([], n \<noteq> ''b''))\<rparr>"

definition deferred :: resource_world where
  "deferred = snd (the (run_fuel 24 refusing_server (StartCall 0) pair_system))"

lemma deferred_reached: "run refusing_server (StartCall 0) pair_system = Some (False, deferred)"
proof -
  have "map_option fst (run_fuel 24 refusing_server (StartCall 0) pair_system) = Some False" by code_simp
  then obtain v where "run_fuel 24 refusing_server (StartCall 0) pair_system = Some (False, v)" by auto
  then show ?thesis using run_fuel_run by (simp add: deferred_def)
qed

lemma deferred_fields:
  "GetName deferred 0 = ''a''" "GetName deferred 1 = ''b''" "length (pool deferred) = 2"
  "GetState deferred 0 = Stopped" "GetState deferred 1 = Stopped"
  "m_resources deferred ''a'' = Some 0" "m_resources deferred ''b'' = Some 1" "m_resourceProvides deferred = []"
  "all_deps deferred 0 = [''b'']" "all_deps deferred 1 = []" "resourceDependencies deferred = [(''b'', ''a'')]"
  "GetEntries deferred 0 ''server_only'' = []" "GetEntries deferred 1 ''server_only'' = []"
  "g_resourceStartOrder deferred = []"
  "allowed_game quiet_server deferred 0" "allowed_game quiet_server deferred 1"
  by code_simp+

text \<open>A resource that provides \<open>map\<close>, which no resource is called.\<close>

definition map_system :: resource_world where
  "map_system = system [loaded ''island'' [(''provide'', ''map'')]] [(''map'', 0)]"

definition map_removed :: resource_world where
  "map_removed = the (RemoveResource quiet_server 0 map_system)"

lemma map_system_fields:
  "length (pool map_system) = 1" "m_resources map_system ''map'' = None"
  "multi_get ''map'' (m_resourceProvides map_system) = [0]" "GetState map_system 0 = Stopped" "GetName map_system 0 = ''island''"
  by code_simp+

lemma map_removal: "RemoveResource quiet_server 0 map_system = Some map_removed"
  by (simp add: map_removed_def RemoveResource_def run_Stop map_system_fields Let_def)

lemma two_filters: "config_filters ''chat;mode'' = [''chat'', ''mode'']"
  by code_simp

text \<open>The folders of the game mode, and the paths that an earlier scan has found.\<close>

definition mode_folders :: "fs_entry list" where
  "mode_folders = [FsFile ''README.md'', FsFolder ''[core]'' False [FsFolder ''chat'' True []], FsFolder ''mode'' True []]"

definition mode_paths :: "string \<Rightarrow> string option" where
  "mode_paths = [''chat'' \<mapsto> ''resources/[core]/chat'', ''mode'' \<mapsto> ''resources/mode'']"

text \<open>
  Two resources and the events that reach them: the first handles every event and answers \<open>pick\<close> by
  triggering \<open>check\<close>, which the second cancels.
\<close>

definition two_handlers :: dispatch_env where
  "two_handlers = \<lparr>handler = (\<lambda>m r e. if r = ''log'' \<and> e = ''pick'' then [Do_Trigger ''check'']
       else if r = ''guard'' \<and> e = ''check'' then [Do_Cancel] else []),
     global = (\<lambda>_ _. ([], True)), known = (\<lambda>_. True)\<rparr>"

definition two_registered :: event_manager where
  "two_registered = AddResourceHandledEvent ''guard'' ''check'' (AddResourceHandledEvent ''guard'' ''pick''
     (AddResourceHandledEvent ''log'' ''*''
       \<lparr>m_queue = [], m_eventResources = [], g_eventCancelationStack = [], g_wasLastEventCanceled = False, delivered = []\<rparr>))"

lemma two_events:
  "map_option fst (TriggerEvent_result two_handlers ''pick'' None two_registered) = Some True"
  "map_option fst (TriggerEvent_result two_handlers ''check'' None two_registered) = Some False"
  by (simp_all add: TriggerEvent_result_def two_registered_def two_handlers_def AddResourceHandledEvent_def multi_get_def
      run_event.simps trigger_step_def push_flag_def finish_event_def event_targets_of_def nui_event_def cancel_top_def Let_def)

end
