(* ===== verification/Spec2Isabelle.thy ===== *)
theory Spec2Isabelle
  imports PacketsGame PacketsResource PacketsSession PacketsState ObjectIds Mumble MessageBuffer SampleServer SampleReassembly SampleBags SampleConsole SampleResources
begin

text \<open>
  A verification of the network core of the repository: the C++ code that turns bytes from game clients
  into messages, keeps the server's list of players, and moves messages between them, and the parts of the
  server that this serves: replicated state, access control, the console and the resource system. All paths
  below are under \<open>src/code\<close>.

  \<^bold>\<open>How the parts fit together.\<close> A packet arrives as bytes. \<open>GameServer::ProcessPacket\<close> reads its type, finds
  the sender in the \<open>ClientRegistry\<close> or runs the connection handshake, and hands the rest of the packet to
  the handler of its type. The handler decodes it with the \<open>Process\<close> method of a packet class, which walks
  the class's properties over a byte reader; the same method encodes an object over a byte writer and
  computes its size over a counter. Handlers change the registry, queue callbacks for other threads, and
  send packets, which are written into \<open>net::Buffer\<close> objects. Resources (the units of script code that a server
  runs) are started and stopped by console commands and by each other; a command is executed on behalf of
  principals whose privileges are checked first, and every start and stop is told to the clients by a packet.

  \<^bold>\<open>Theories and the code they model.\<close>
  \<^item> \<open>Prelude\<close>: words, little-endian encoding, the facts about 64-bit offsets that all theories share.
  \<^item> \<open>DataStream\<close>: \<open>components/net-base/include/{ByteReader,ByteWriter,ByteCounter,DataStream,Net}.h\<close>. A
    stream is a reader, a writer or one of three counters; every \<open>Field\<close> overload is a definition. A
    \<open>memcpy\<close> outside its buffer is an outcome of its own, so that safety can be proved.
  \<^item> \<open>Serialization\<close>, \<open>SerializationLaws\<close>, \<open>PropertyLaws\<close>: \<open>SerializableStorageType.h\<close>,
    \<open>SerializableProperty.h\<close>, \<open>SerializableComponent.h\<close>, \<open>PacketHandler.h\<close>, and the laws of a
    property: reading what was written, writing into enough room, sizes between minimum and maximum, no
    access outside the buffer. Locals that the code reads before it assigns them are the parameter \<open>ind\<close>.
  \<^item> \<open>PacketContract\<close>: the contract \<open>serializable\<close> of a packet class as a locale (round trip, size window,
    safety), with what follows from it for \<open>ProcessPacket\<close>.
  \<^item> \<open>PacketsGame\<close>, \<open>PacketsResource\<close>, \<open>PacketsSession\<close>, \<open>PacketsState\<close>, \<open>ObjectIds\<close>, \<open>Mumble\<close>: every class of
    \<open>components/net-packet/include\<close>, with its setters, each an interpretation of the contract.
  \<^item> \<open>Hash\<close>: the string hashes of \<open>client/shared/Utils.h\<close>.
  \<^item> \<open>StreamReader\<close>: \<open>StreamByteReader.h\<close>, which cuts a TCP stream into messages; its loop is a partial
    function, and the chunk theorem shows that it ends.
  \<^item> \<open>MessageBuffer\<close>: the bit-level buffer of \<open>shared/state/RlMessageBuffer.h\<close>.
  \<^item> \<open>NetBuffer\<close>: \<open>NetBuffer.h\<close>, \<open>NetBuffer.cpp\<close>, over a heap of shared byte vectors.
  \<^item> \<open>FormData\<close>: \<open>FormData.cpp\<close>, against the relation of URL encodings.
  \<^item> \<open>Client\<close>, \<open>ClientRegistry\<close>: \<open>citizen-server-impl/{include,src}\<close>, with clients in a pool and the alias
    maps as weak references into it. \<open>ClientRegistryLaws\<close> holds the invariant, kept by every operation the
    server runs, and the locale \<open>directory\<close> (a lookup finds the member that has the key), interpreted for
    net ids, slots and guids; \<open>RegistryCount\<close> the counter of connected clients and the host.
  \<^item> \<open>GameServer\<close>, \<open>Handlers\<close>: \<open>GameServer.cpp\<close> and the packet handlers; \<open>HandlerLaws\<close> and
    \<open>DeliveryLaws\<close> show what drops, the handshake and the handlers do, from the bytes that arrive to the
    bytes that leave.
  \<^item> \<open>StdMap\<close>, \<open>EventReassembly\<close>: ascending maps, and
    \<open>citizen-resources-core/src/EventReassemblyComponent.cpp\<close>: large events are cut into fragments, sent in
    bursts, acknowledged and put together. \<open>ReassemblyLaws\<close>, \<open>ReassemblySteps\<close> hold the invariant of its step
    relation, \<open>ReassemblyFlow\<close> the run from the sender to the receiver, as a refinement of a set of numbers.
  \<^item> \<open>StateBags\<close>: \<open>citizen-resources-core/src/StateBagComponent.cpp\<close>, named bags of keys and values that are
    replicated to peers, in a store whose owners (\<open>shared_ptr\<close>) and weak references are explicit.
    \<open>StateBagWire\<close> shows that what is written into a bit buffer at a byte position is parsed back,
    \<open>StateBagLaws\<close> has the contract \<open>bag_wire\<close> of both packet formats and what each operation sends,
    \<open>StateBagSteps\<close> the calls of the component with the invariant each keeps, \<open>StateBagReplicas\<close> the
    invariant \<open>synced\<close> (what a target was sent, applied in order, is the data of the bag), and
    \<open>StateBagDelivery\<close> the receiving component, who may change a bag, and when data is lost.
  \<^item> \<open>Security\<close>, \<open>SecurityLaws\<close>: \<open>client/citicore/se\<close>, principals, entries, the stack of principals and the
    privilege check, with its termination and the reference that it decides by.
  \<^item> \<open>ConsoleText\<close>, \<open>ConsoleTextLaws\<close>, \<open>ConsoleArgs\<close>: \<open>client/citicore/console\<close>, how a line is cut into
    arguments and a buffer into lines, and how arguments are parsed and printed. \<open>Console\<close>, \<open>ConsoleRun\<close>: commands,
    variables and contexts in a store of objects, and their execution, a partial function over what is executed.
    \<open>ConsoleLaws\<close>, \<open>ConsoleSteps\<close>, \<open>ConsoleSafety\<close>, \<open>ConsoleReach\<close> hold the invariant of every call, that calls
    return and are defined; \<open>ConsoleLock\<close> what denied commands and protected variables keep, \<open>ConsoleConfig\<close> the
    saved configuration.
  \<^item> \<open>EventCore\<close>: \<open>client/shared/EventCore.h\<close>, the event \<open>fwEvent\<close>, a list of callbacks in order.
  \<^item> \<open>Resources\<close>, \<open>ResourceRun\<close>: \<open>citizen-resources-core/src/{Resource,ResourceManager,ResourceMetaDataComponent,
    ResourceManagerConstraintsComponent,ResourceDependencyLoader,ResourceEventComponent}.cpp\<close> and
    \<open>citizen-server-impl/src/ServerResources.cpp\<close>: the data of the resource system, and starts, stops, commands and
    natives as one partial function over what is executed. \<open>ResourceLaws\<close> has the locale \<open>run_preorder\<close> (a
    preorder that the updates respect is respected by every execution), interpreted for the frame and the life
    cycle; \<open>ResourceClients\<close> interprets it for what the clients are told and models
    \<open>GetConfigurationMethod.cpp\<close>. \<open>ResourceSilent\<close>, \<open>ResourceStart\<close>, \<open>ResourceStable\<close>, \<open>ResourceStop\<close> are about
    executions without interfering scripts: calls end when dependencies have no cycle, and the invariant of the
    dependencies in a session of starts and stops. \<open>ResourceFaults\<close> has what fails without these conditions.
  \<^item> \<open>ResourceScan\<close>: adding, removing and scanning for resources (\<open>ServerResourceList.cpp\<close>,
    \<open>ServerResourceMounter.cpp\<close>). \<open>ResourceEvents\<close>: the events of scripts, triggered, queued and cancelled.
  \<^item> \<open>SampleServer\<close>, \<open>SampleReassembly\<close>, \<open>SampleBags\<close>, \<open>SampleConsole\<close>, \<open>SampleResources\<close>: concrete states on
    which the properties are applied.

  \<^bold>\<open>Conventions.\<close> Integers of the code keep their width as words; \<open>unat\<close> is written where a theorem is about
  their value. Containers are lists or maps. A result \<open>None\<close> of a partial function is a loop that does not
  end; elsewhere the comments say what \<open>None\<close> stands for. Offsets are 64-bit words; the hypothesis
  \<open>addressable\<close> says that a buffer is smaller than the address space. Loops are structural recursions,
  functions with a measure, or partial functions whose termination, or the lack of it, is a theorem; fuel is used
  only to execute the examples of \<open>SampleResources\<close>, where \<open>run_fuel_run\<close> carries the result over.

  \<^bold>\<open>Not modelled.\<close> The network libraries (ENet, libuv), the scripting runtimes and the closed-source game are
  outside the repository or its core; where the model needs them they are parameters. Threads are modelled
  by their queues: each method is one atomic step. \<open>ServerGameState.cpp\<close> (entity synchronisation over
  floating-point culling and third-party containers), the client's hooks into the game binary, HTTP and
  TCP servers and the user interfaces are left out. Of the console, printing, floating-point variables, the
  handlers of \<open>OnSaveConfiguration\<close> and locks are not modelled; scripted commands and the JSON parser are
  parameters. Of the resource system, scripts and build tasks are the parameter \<open>outside\<close> (what they call, and
  their verdict), manifests the parameter \<open>loader\<close>; which manager is current, the rate limiter, printing, the
  payloads of events, file globs, manifest versions by guid and the reset of \<open>OnTriggerEvent\<close> are left out, and
  the tasks of the asynchronous library run at once. Of the event reassembly, the bit layout of
  an event packet of version 1 is not modelled (its fields are the packet); of the state bags, MessagePack
  and the change handlers are parameters, a handler that calls back into the component is not modelled.
\<close>

section \<open>Packets\<close>

text \<open>
  C1. No packet that a client sends can make the server read outside the packet: whatever the bytes,
  the position and the values of uninitialised locals, \<open>Process\<close> of every client class ends with a
  result, inside the buffer.
\<close>

theorem client_packets_memory_safe:
  "reader_safe ClientArrayUpdate_Process \<and> reader_safe ClientGameStateAck_Process
   \<and> reader_safe ClientGameStateNAck_Process \<and> reader_safe ClientRoute_Process
   \<and> reader_safe ClientNetGameEvent_Process \<and> reader_safe ClientNetGameEventV2_Process
   \<and> reader_safe ClientServerEvent_Process \<and> reader_safe ReassembledEvent_Process
   \<and> reader_safe ReassembledEventV2_Process \<and> reader_safe ClientServerCommand_Process
   \<and> reader_safe StateBag_Process \<and> reader_safe StateBagV2_Process \<and> reader_safe ClientHeHost_Process
   \<and> reader_safe ClientIHost_Process \<and> reader_safe ClientIQuit_Process
   \<and> reader_safe TimeSyncRequest_Process \<and> reader_safe ClientRequestObjectIds_Process
   \<and> reader_safe ClientMumbleMessage_Process"
  by (intro conjI cau.safe gsa.safe gsn.safe crt.safe cnge.safe cnge2.safe cse.safe rev.safe rev2.safe
      csc.safe sbg.safe sbg2.safe chh.safe cih.safe ciq.safe tsq.safe cro.safe cmm.safe)

text \<open>
  The type tags of the messages a receiver tells apart are pairwise different: no two message
  names of the protocol have the same \<open>HashRageString\<close>.
\<close>

theorem message_types_distinct:
  "distinct (map HashRageString
     [''msgArrayUpdate'', ''gameStateAck'', ''gameStateNAck'', ''msgRoute'', ''msgNetGameEvent'',
      ''msgNetGameEventV2'', ''msgServerEvent'', ''msgNetEvent'', ''msgReassembledEvent'',
      ''msgReassembledEventV2'', ''msgServerCommand'', ''msgStateBag'', ''msgStateBagV2'', ''msgHeHost'',
      ''msgIHost'', ''msgIQuit'', ''msgTimeSyncReq'', ''msgTimeSync'', ''msgRequestObjectIds'',
      ''msgObjectIds'', ''msgConVars'', ''msgFrame'', ''msgWorldGrid3'', ''msgPackedAcks'',
      ''msgPackedClones'', ''msgRpcNative'', ''msgResStart'', ''msgResStop'', ''msgPaymentRequest''])"
  by code_simp

text \<open>
  C2. A network event that a client writes into any buffer large enough for it is what the server's
  \<open>ProcessPacket\<close> hands to the event handler: same name, same data, whatever the buffer held before.
\<close>

theorem server_event_received:
  assumes "packet_wf ClientServerEvent_wf p"
    and "length (packet_wire ClientServerEvent_wire p) \<le> length buf" and "addressable (length buf)"
  shows "\<exists>w s. ClientServerEventPacket_Process p (Writer (ByteWriter_make buf (of_nat (length buf))))
      = (Success, p, Writer w)
    \<and> ProcessPacket ClientServerEventPacket_Process ClientServerEventPacket_init
        (ByteReader_make (take (unat (woffset w)) (wdata w)) (woffset w) ind) = (Some p, s)"
  using cse_packet.send_receive [OF assms, of ind] by blast

theorem server_event_received_witness:
  "\<exists>w s. ClientServerEventPacket_Process
        \<lparr>ptype = 7, pdata = ClientServerEvent.make (Span [0x61, 0]) (Span [5])\<rparr>
        (Writer (ByteWriter_make (replicate 9 0) (of_nat (length (replicate 9 (0 :: u8))))))
      = (Success, \<lparr>ptype = 7, pdata = ClientServerEvent.make (Span [0x61, 0]) (Span [5])\<rparr>, Writer w)
    \<and> ProcessPacket ClientServerEventPacket_Process ClientServerEventPacket_init
        (ByteReader_make (take (unat (woffset w)) (wdata w)) (woffset w) (\<lambda>_. 0))
        = (Some \<lparr>ptype = 7, pdata = ClientServerEvent.make (Span [0x61, 0]) (Span [5])\<rparr>, s)"
  by (rule server_event_received)
    (simp_all add: packet_wf_def ClientServerEvent_wf_def size_fits_def codec_simps ClientServerEvent.defs
      packet_wire_def ClientServerEvent_wire_def)

text \<open>
  A negative acknowledgement built through the setters reaches the server as it was built: the
  frame index, the missing range (0 when none was set), the ignore list and the recreate list, as long
  as the lists have at most 255 entries.
\<close>

theorem game_state_nack_received:
  assumes "length es \<le> 255" "length rs \<le> 255" "3087 \<le> length buf" "addressable (length buf)"
  shows "\<exists>w s v. ClientGameStateNAck_Process (build_NAck i missing es rs)
        (Writer (ByteWriter_make buf (of_nat (length buf)))) = (Success, build_NAck i missing es rs, Writer w)
    \<and> ProcessPacket ClientGameStateNAck_Process ClientGameStateNAck_init
        (ByteReader_make (take (unat (woffset w)) (wdata w)) (woffset w) ind) = (Some v, s)
    \<and> ClientGameStateNAck.frameIndex v = i \<and> ClientGameStateNAck.ignoreList v = Span es
    \<and> ClientGameStateNAck.recreateList v = Span rs
    \<and> (GetFirstMissingFrame v, GetLastMissingFrame v) = (case missing of None \<Rightarrow> (0, 0) | Some m \<Rightarrow> m)"
proof -
  let ?v = "build_NAck i missing es rs"
  have wf: "ClientGameStateNAck_wf ?v" by (rule build_NAck_wf [OF assms(1,2)])
  have "length (ClientGameStateNAck_wire ?v) \<le> length buf"
    using gsn.window [OF wf] assms(3) by simp
  from gsn.send_receive [OF wf this assms(4), of ind] show ?thesis
    by (cases missing) (auto simp: build_NAck_fields)
qed

theorem game_state_nack_received_witness:
  "\<exists>w s v. ClientGameStateNAck_Process (build_NAck 9 (Some (3, 5)) [] [1, 2])
        (Writer (ByteWriter_make (replicate 4096 0) (of_nat (length (replicate 4096 (0 :: u8))))))
      = (Success, build_NAck 9 (Some (3, 5)) [] [1, 2], Writer w)
    \<and> ProcessPacket ClientGameStateNAck_Process ClientGameStateNAck_init
        (ByteReader_make (take (unat (woffset w)) (wdata w)) (woffset w) (\<lambda>_. 0)) = (Some v, s)
    \<and> ClientGameStateNAck.frameIndex v = 9 \<and> ClientGameStateNAck.ignoreList v = Span []
    \<and> ClientGameStateNAck.recreateList v = Span [1, 2]
    \<and> (GetFirstMissingFrame v, GetLastMissingFrame v) = (case Some (3, 5) of None \<Rightarrow> (0, 0) | Some m \<Rightarrow> m)"
  by (rule game_state_nack_received) simp_all

text \<open>
  The object ids that the server hands out arrive: \<open>SetIds\<close> compresses any list of at most 64 ids
  (6 in big mode) into runs that fit the packet, and what the client decodes with \<open>GetIds\<close> from the
  received packet is the list, in order.
\<close>

theorem object_ids_received:
  assumes "length xs \<le> (if BigMode then 6 else 64)"
    and "pdata p = snd (SetIds xs [] ServerObjectIds_init)"
  shows "\<exists>s. ProcessPacket (ServerObjectIdsPacket_Process BigMode) ServerObjectIdsPacket_init
      (ByteReader_make (packet_wire (ServerObjectIds_wire BigMode) p)
        (of_nat (length (packet_wire (ServerObjectIds_wire BigMode) p))) ind) = (Some p, s)
    \<and> GetIds (pdata p) [] = Some xs"
proof -
  have wf: "packet_wf (ServerObjectIds_wf BigMode) p" by (rule SetIds_packet_wf [OF assms])
  then have "addressable (length (packet_wire (ServerObjectIds_wire BigMode) p))"
    using soi_packet.window [OF wf] by (auto split: if_splits)
  moreover have "GetIds (pdata p) [] = Some xs"
    using assms(1) GetIds_SetIds [of xs] by (simp add: assms(2) split: if_splits)
  ultimately show ?thesis using soi_packet.ProcessPacket_wire [OF wf, of ind] by blast
qed

theorem object_ids_received_witness:
  "\<exists>s. ProcessPacket (ServerObjectIdsPacket_Process True) ServerObjectIdsPacket_init
      (ByteReader_make (packet_wire (ServerObjectIds_wire True)
          \<lparr>ptype = 1, pdata = snd (SetIds [4, 5, 9] [] ServerObjectIds_init)\<rparr>)
        (of_nat (length (packet_wire (ServerObjectIds_wire True)
          \<lparr>ptype = 1, pdata = snd (SetIds [4, 5, 9] [] ServerObjectIds_init)\<rparr>))) (\<lambda>_. 0))
      = (Some \<lparr>ptype = 1, pdata = snd (SetIds [4, 5, 9] [] ServerObjectIds_init)\<rparr>, s)
    \<and> GetIds (pdata \<lparr>ptype = 1, pdata = snd (SetIds [4, 5, 9] [] ServerObjectIds_init)\<rparr>) []
        = Some [4, 5, 9]"
  by (rule object_ids_received) simp_all

text \<open>
  An id entry whose size is 65535 makes \<open>GetIds\<close> run forever: the 16-bit loop variable can never
  exceed it, so a client that receives such an entry does not come back.
\<close>

theorem object_ids_endless:
  "GetIds \<lparr>ids = Span (IdEntry.make g (- 1) # es)\<rparr> acc = None"
  by (simp add: GetIds_def IdEntry.defs each_id_none)

text \<open>
  C3. The voice server gets every message whatever the chunks its socket delivers: for any cut of a
  stream of well-formed messages into non-empty chunks, the callback is called with exactly these
  messages in order, the loop of \<open>Push\<close> ends, no read leaves a buffer, and the buffer ends empty.
\<close>

theorem mumble_chunks:
  assumes "length buf = READ_BUFFER_SIZE" "[] \<notin> set chunks" "\<forall>v\<in>set ms. ClientMumbleMessage_wf v"
    and "concat chunks = concat (map ClientMumbleMessage_wire ms)" "length (concat chunks) < 2 ^ 61"
  shows "\<exists>st. Push_chunks ClientMumbleMessage_Process ClientMumbleMessage_init ind chunks
      (StreamByteReader_make buf (of_nat READ_BUFFER_SIZE)) = Some (True, ms, st) \<and> soffset st = 0"
  by (rule Mumble_chunks [OF assms])

theorem mumble_chunks_witness:
  "\<exists>st. Push_chunks ClientMumbleMessage_Process ClientMumbleMessage_init (\<lambda>_. 3)
      [[0], [1, 0, 0, 0], [2, 9, 8, 0, 1, 0, 0, 0, 1], [7]]
      (StreamByteReader_make (replicate READ_BUFFER_SIZE 0) (of_nat READ_BUFFER_SIZE))
    = Some (True, [ClientMumbleMessage.make 1 (Span [9, 8]), ClientMumbleMessage.make 1 (Span [7])], st)
    \<and> soffset st = 0"
  by (rule mumble_chunks)
    (simp_all add: ClientMumbleMessage_wf_def ClientMumbleMessage_wire_def ClientMumbleMessage.defs
      Mumble_option_def codec_simps size_fits_def wire_int_be_def wire_Span_def wire_size_def
      wire_elems_def u8_elem_def le_enc_2 le_enc_4)

text \<open>
  The size window of the event fragments: when the handler is called for a
  \<open>ReassembledEventV2\<close>, between 12 and 2059 bytes of the packet were left, which is the smallest and
  the largest encoding of the class.
\<close>

theorem event_fragment_window:
  assumes "reader_ok r"
    and "ProcessPacket ReassembledEventV2_Process ReassembledEventV2_init r = (Some v, s)"
  shows "12 \<le> length (rdata r) - unat (roffset r) \<and> length (rdata r) - unat (roffset r) \<le> 2059"
  using rev2.ProcessPacket_window [OF assms] by simp

theorem event_fragment_window_witness:
  "12 \<le> length (rdata (ByteReader_make (ReassembledEventV2_wire (ReassembledEventV2.make 1 2 3 (Span [7]))) 13 (\<lambda>_. 0)))
      - unat (roffset (ByteReader_make (ReassembledEventV2_wire (ReassembledEventV2.make 1 2 3 (Span [7]))) 13 (\<lambda>_. 0)))
    \<and> length (rdata (ByteReader_make (ReassembledEventV2_wire (ReassembledEventV2.make 1 2 3 (Span [7]))) 13 (\<lambda>_. 0)))
      - unat (roffset (ByteReader_make (ReassembledEventV2_wire (ReassembledEventV2.make 1 2 3 (Span [7]))) 13 (\<lambda>_. 0)))
      \<le> 2059"
proof (rule event_fragment_window)
  let ?v = "ReassembledEventV2.make 1 2 3 (Span [7])"
  have wf: "ReassembledEventV2_wf ?v"
    by (simp add: ReassembledEventV2_wf_def ReassembledEventV2.defs size_fits_def codec_simps)
  have len: "length (ReassembledEventV2_wire ?v) = 13"
    by (simp add: ReassembledEventV2_wire_def ReassembledEventV2.defs codec_simps)
  show "reader_ok (ByteReader_make (ReassembledEventV2_wire ?v) 13 (\<lambda>_. 0))"
    by (simp add: reader_ok_def ByteReader_make_def len)
  show "ProcessPacket ReassembledEventV2_Process ReassembledEventV2_init
      (ByteReader_make (ReassembledEventV2_wire ?v) 13 (\<lambda>_. 0))
    = (Some ?v, Reader (rdr (ReassembledEventV2_wire ?v) [] (\<lambda>_. 0)))"
    using rev2.ProcessPacket_wire [OF wf, of "\<lambda>_. 0"] by (simp add: len)
qed

text \<open>
  An eight-byte \<open>ClientNetGameEvent\<close> with one target player passes the size window although it
  ends before the size of its data. The failed read of that size is dropped and the local \<open>size\<close> is
  used unassigned: the packet reaches the handler exactly when the low 16 bits of that indeterminate
  value are 0.
\<close>

theorem truncated_game_event:
  "fst (ProcessPacket ClientNetGameEvent_Process ClientNetGameEvent_init
      (ByteReader_make [1, t0, t1, e0, e1, reply, y0, y1] 8 ind)) \<noteq> None \<longleftrightarrow> take_bit 16 (ind 0) = 0"
  unfolding ProcessPacket_def ClientNetGameEvent_sizes Let_def
  by (cases "take_bit 16 (ind 0) \<le> 1025"; cases "take_bit 16 (ind 0) = 0")
    (simp_all add: ClientNetGameEvent_Process_def ClientNetGameEvent_init_def ClientNetGameEvent.defs
      SmallBytesArray_def ConstrainedBytesArray_def execute_reader small_sum word_gt_0)

text \<open>
  A span whose size option is \<open>SmallBytesArray\<close> is cut without an error: the writer reports
  success after sending the first \<open>n mod 256\<close> of its \<open>n\<close> elements, so a list of 256 entries is sent
  as the empty list.
\<close>

theorem small_bytes_truncates:
  assumes "elem_ok el" "n = length es mod 256" "length es < 2 ^ 62" "esize el < 2 ^ 16"
    "1 + n * esize el \<le> length buf" "addressable (length buf)"
  shows "Property_Span el SmallBytesArray sr False (Span es) (Writer (wtr [] buf)) =
    (Success, Span es, Writer (wtr (of_nat n # wire_elems el (take n es)) (drop (1 + n * esize el) buf)))"
  by (rule small_bytes_writes [OF assms])

theorem small_bytes_truncates_witness:
  "Property_Span u8_elem SmallBytesArray False False (Span (replicate 257 4)) (Writer (wtr [] [0, 0])) =
    (Success, Span (replicate 257 4),
     Writer (wtr (of_nat 1 # wire_elems u8_elem (take 1 (replicate 257 4))) (drop (1 + 1 * esize u8_elem) [0, 0])))"
  by (rule small_bytes_truncates) simp_all

section \<open>The bit buffer\<close>

text \<open>
  C25. What \<open>WriteBitsSingle\<close> writes at any bit position, \<open>ReadBitsSingle\<close> reads back there, for every
  length from 1 to 32 (also under the 13-to-16-bit length hack), and no other bit of the buffer changes;
  neither leaves the buffer.
\<close>

theorem message_buffer_roundtrip:
  assumes "buffer_ok b" "1 \<le> len" "len \<le> 32" "hack_length hack n = len" "m_curBit b + len \<le> m_maxBit b"
  shows "\<exists>b'. WriteBitsSingle hack a n b = Some (True, b')
    \<and> ReadBitsSingle hack n (SetCurrentBit (m_curBit b) b') = Some (Some (take_bit len a), b')
    \<and> (\<forall>i. i < m_maxBit b \<and> (i < m_curBit b \<or> m_curBit b + len \<le> i)
          \<longrightarrow> bit_at (m_data b') i = bit_at (m_data b) i)"
  using write_read [OF assms, of a] by blast

theorem message_buffer_roundtrip_witness:
  "\<exists>b'. WriteBitsSingle True 0x1ABC 13 (SetCurrentBit 3 (MessageBuffer_sized 4)) = Some (True, b')
    \<and> ReadBitsSingle True 13 (SetCurrentBit 3 b') = Some (Some 0x1ABC, b')"
proof -
  let ?b = "SetCurrentBit 3 (MessageBuffer_sized 4)"
  have "\<exists>b'. WriteBitsSingle True 0x1ABC 13 ?b = Some (True, b')
    \<and> ReadBitsSingle True 13 (SetCurrentBit (m_curBit ?b) b') = Some (Some (take_bit 16 0x1ABC), b')
    \<and> (\<forall>i. i < m_maxBit ?b \<and> (i < m_curBit ?b \<or> m_curBit ?b + 16 \<le> i)
          \<longrightarrow> bit_at (m_data b') i = bit_at (m_data ?b) i)"
    by (rule message_buffer_roundtrip)
      (simp_all add: buffer_ok_def SetCurrentBit_def MessageBuffer_sized_def hack_length_def)
  moreover have "m_curBit ?b = 3" by (simp add: SetCurrentBit_def)
  ultimately show ?thesis by auto
qed

text \<open>
  \<open>WriteSigned\<close> and \<open>ReadSigned\<close> do not agree on negative numbers: a value that fits comes back
  as it was written when it is not negative, and one too large when it is negative.
\<close>

theorem signed_numbers_differ:
  assumes "buffer_ok b" "2 \<le> len" "len \<le> 32" "m_curBit b + len \<le> m_maxBit b"
    and "- (2 ^ (len - 1)) \<le> sint x" "sint x < 2 ^ (len - 1)"
  shows "\<exists>b1. WriteSigned False len x b = Some b1
    \<and> ReadSigned False len (SetCurrentBit (m_curBit b) b1)
        = Some (if sint x < 0 then x + 1 else x, b1)"
  by (rule WriteSigned_read [OF assms])

theorem signed_numbers_differ_witness:
  "\<exists>b1. WriteSigned False 9 (- 5) (MessageBuffer_sized 2) = Some b1
    \<and> ReadSigned False 9 (SetCurrentBit (m_curBit (MessageBuffer_sized 2)) b1)
        = Some (if sint (- 5 :: u32) < 0 then - 5 + 1 else - 5, b1)"
  by (rule signed_numbers_differ) (simp_all add: buffer_ok_def MessageBuffer_sized_def)

text \<open>
  \<open>Clone\<close> allocates one byte for the rest of the buffer however many bits it then copies into it.
\<close>

theorem clone_allocates_one_byte:
  "Clone_sizes b = (m_maxBit b - m_curBit b, if m_curBit b < m_maxBit b then 1 else 0)"
  by (auto simp: Clone_sizes_def Let_def min_def)

section \<open>Buffers\<close>

text \<open>
  Whatever is written to an empty \<open>net::Buffer\<close> is what is sent, and after \<open>Reset\<close> reads of the same
  sizes return the same pieces and leave the buffer at its end.
\<close>

theorem buffer_write_read:
  assumes "length (concat cs) < 2 ^ 63"
  shows "\<exists>b h' b'. Buffer_Write_all cs (fst (Buffer_empty h)) (snd (Buffer_empty h)) = Some (b, h')
    \<and> sent_bytes b h' = Some (concat cs)
    \<and> Buffer_Read_all (map length cs) (Buffer_Reset b) h' = Some (cs, b') \<and> Buffer_IsAtEnd b' h' = Some True"
  by (rule Buffer_write_read_all [OF assms])

theorem buffer_write_read_witness:
  "\<exists>b h' b'. Buffer_Write_all [[1, 2], [], [3]] (fst (Buffer_empty [[9]])) (snd (Buffer_empty [[9]])) = Some (b, h')
    \<and> sent_bytes b h' = Some (concat [[1, 2], [], [3]])
    \<and> Buffer_Read_all (map length [[1, 2], [], [3 :: u8]]) (Buffer_Reset b) h' = Some ([[1, 2], [], [3]], b')
    \<and> Buffer_IsAtEnd b' h' = Some True"
  by (rule buffer_write_read) simp

text \<open>
  Copies of a buffer share its bytes, clones do not: a write through the original shows in a copy
  taken before it, and not in a clone taken before it.
\<close>

theorem buffer_sharing:
  assumes "buffer_at h b bs" "length bs + length src < 2 ^ 63"
  shows "\<exists>c h1 b' h2. Buffer_Clone b h = Some (c, h1) \<and> Buffer_Write src b h1 = Some (b', h2)
    \<and> GetBytes h2 (Buffer_copy b) = Some (overwrite (unat (m_curOff b)) src bs) \<and> GetBytes h2 c = Some bs"
  by (rule Write_shared [OF assms])

theorem buffer_sharing_witness:
  "\<exists>c h1 b' h2. Buffer_Clone (fst (Buffer_of_bytes [1, 2] [])) (snd (Buffer_of_bytes [1, 2] [])) = Some (c, h1)
    \<and> Buffer_Write [7] (fst (Buffer_of_bytes [1, 2] [])) h1 = Some (b', h2)
    \<and> GetBytes h2 (Buffer_copy (fst (Buffer_of_bytes [1, 2] [])))
        = Some (overwrite (unat (m_curOff (fst (Buffer_of_bytes [1, 2] [])))) [7] [1, 2])
    \<and> GetBytes h2 c = Some [1, 2]"
  by (rule buffer_sharing) (simp_all add: Buffer_of_bytes_def make_shared_def buffer_at_def GetBytes_def)

section \<open>The client registry\<close>

text \<open>
  C9. In every registry the server can reach, the net id of a registered client finds that client, and
  no other registered client has it; the same holds of its slot.
\<close>

theorem registry_keys_unique:
  assumes "reachable big sync expired (limit, st)" "registered st r" "registered st q"
    and "net_id_of st r = Some k \<and> net_id_of st q = Some k' \<and> slot_of st r = slot \<and> slot_of st q = slot'"
  shows "GetClientByNetID k st = Some r \<and> (k = k' \<longrightarrow> r = q)
    \<and> (slot \<noteq> None \<longrightarrow> GetClientBySlotID (the slot) st = Some r \<and> (slot = slot' \<longrightarrow> r = q))"
proof -
  have ok: "some_ok st" using reachable_ok [OF assms(1)] by auto
  show ?thesis
    using net_ids.finds [OF ok assms(2)] net_ids.unique [OF ok assms(2,3)] slots.finds [OF ok assms(2)]
      slots.unique [OF ok assms(2,3)] assms(4) by fastforce
qed

theorem registry_keys_unique_witness:
  "GetClientByNetID 0x10000 (snd (register_client ''g'' ''n'' ''t'' ''a'' 0 5 (ClientRegistry_make False))) = Some 0"
proof -
  let ?st = "snd (register_client ''g'' ''n'' ''t'' ''a'' 0 5 (ClientRegistry_make False))"
  have r: "reachable False True False (0x10000 + 1, ?st)"
    by (rule reachable.step [OF reachable.start reg_step.register]) (simp_all add: ClientRegistry_make_def)
  note defs = register_client_def MakeClient_def ClientRegistry_make_def Let_def client_updates Client_make_def
    reg_SetConnectionToken_def reg_SetTcpEndPoint_def reg_SetNetId_def OnAssignNetId_def
    OnAssignTcpEndPoint_def OnAssignConnectionToken_def update_client_def
  have "registered ?st 0" "net_id_of ?st 0 = Some 0x10000"
    by (simp_all add: defs net_id_of_def HasNetId_def)
  then show ?thesis using registry_keys_unique [OF r, of 0 0] by blast
qed

text \<open>
  The search for the net id of a connecting client ends exactly when one of the 65534 usable ids is
  free, wherever it starts.
\<close>

theorem net_id_search_ends:
  assumes "net_id_ok i"
  shows "(\<exists>j. find_netId st i = Some j) = (\<exists>j. net_id_ok j \<and> net_id_free st j)"
  by (rule find_netId_iff [OF assms])

theorem net_id_search_ends_witness:
  "(\<exists>j. find_netId sample_registry 65534 = Some j) = (\<exists>j. net_id_ok j \<and> net_id_free sample_registry j)"
  by (rule net_id_search_ends) simp

text \<open>
  C35. The slots of a reachable registry are enough for 128 clients (2048 in big mode), and no client
  ever has slot 31.
\<close>

theorem slots_bounded:
  assumes "reachable big sync expired (limit, st)"
  shows "card {r. registered st r \<and> slot_of st r \<noteq> None} \<le> (if big then 2048 else 128)
    \<and> (\<nexists>r. registered st r \<and> slot_of st r = Some 31)"
proof
  let ?K = "{0..<length (m_clientsBySlotId st)} - {31}"
  have ok: "registry_ok limit st" using reachable_ok [OF assms] by simp
  note bounds = slot_of_bounds [OF ok]
  have "length (m_clientsBySlotId st) = (if big then 2049 else 129)" using length_slots [OF assms] by simp
  then have "card ?K = (if big then 2048 else 128)" by simp
  moreover have "card {r. registered st r \<and> slot_of st r \<noteq> None} \<le> card ?K"
    using ok bounds by (intro slots.bounded) blast+
  ultimately show "card {r. registered st r \<and> slot_of st r \<noteq> None} \<le> (if big then 2048 else 128)" by simp
  show "\<nexists>r. registered st r \<and> slot_of st r = Some 31" using bounds by blast
qed

theorem slots_bounded_witness:
  "\<nexists>r. registered (ClientRegistry_make True) r \<and> slot_of (ClientRegistry_make True) r = Some 31"
  using slots_bounded [OF reachable.start] by blast

text \<open>
  The number of connected clients that the registry reports is the number of registered clients
  that have connected, in every registry the server reaches by removing registered clients only.
\<close>

theorem connected_clients_counted:
  assumes "reachable big sync expired (limit, st)"
  shows "GetAmountOfConnectedClients st = of_nat (card (connected_refs st))"
  using reachable_counted [OF assms] by (simp add: counted_def GetAmountOfConnectedClients_def)

theorem connected_clients_counted_witness:
  "GetAmountOfConnectedClients (expire 3 (ClientRegistry_make True))
    = of_nat (card (connected_refs (expire 3 (ClientRegistry_make True))))"
  by (rule connected_clients_counted [OF reachable.step [OF reachable.start reg_step.expired]])

text \<open>Under OneSync there is never a host.\<close>

theorem one_sync_has_no_host:
  assumes "reachable big True expired (limit, st)"
  shows "GetHost st = None"
  using reachable_no_host [OF assms] by simp

theorem one_sync_has_no_host_witness:
  "GetHost (SetHost True (Some 0) (ClientRegistry_make True)) = None"
  by (rule one_sync_has_no_host [OF reachable.step [OF reachable.start reg_step.host]])

text \<open>
  After \<open>RemoveClient\<close> no key of the client finds it any more, apart from its TCP end point, whose
  entry stays.
\<close>

theorem removed_client_unfindable:
  assumes "registry_ok limit st" "registered st r" "m_pool st r = Some c"
  shows "GetClientByGuid (m_guid c) (RemoveClient r st) = None \<and> GetClientByNetID (m_netId c) (RemoveClient r st) = None
    \<and> GetClientByPeer (GetPeer c) (RemoveClient r st) = None
    \<and> GetClientByConnectionToken (m_connectionToken c) (RemoveClient r st) = None
    \<and> \<not> HasClientByConnectionTokenHash (HashString (m_connectionToken c)) (RemoveClient r st)
    \<and> GetClientByTcpEndPoint a (RemoveClient r st) = GetClientByTcpEndPoint a st"
  using RemoveClient_unfindable(1,2,4,5,6,8) [OF assms] by blast

theorem removed_client_unfindable_witness:
  "GetClientByGuid ''g'' (RemoveClient 0 (registry sample_server)) = None
    \<and> GetClientByTcpEndPoint ''a'' (RemoveClient 0 (registry sample_server))
      = GetClientByTcpEndPoint ''a'' (registry sample_server)"
  using removed_client_unfindable [OF sample_ok sample_lookups(1,3), of "''a''"] by simp

section \<open>The server\<close>

text \<open>
  C22. Dropping a client from another thread and then running the main thread removes it for good: the
  registry stays well formed, the client is not registered, no host, and not found by its guid or net id;
  the subscribers of \<open>OnDrop\<close> are told once and the counter goes down once.
\<close>

theorem dropped_client_removed:
  assumes "registry_ok limit (registry s)" "registered (registry s) r"
    and "client_of s r = Some c" "\<not> m_dropping c" "mainCallbacks s = []"
  shows "let st = registry (Run env (DropClientv env False r rn dr why s)) in
    registry_ok limit st \<and> \<not> registered st r \<and> GetHost st \<noteq> Some r
    \<and> m_events st = m_events (registry s) @ [OnDrop r]
    \<and> GetClientByGuid (m_guid c) st = None \<and> GetClientByNetID (m_netId c) st = None
    \<and> m_amountConnectedClients st = m_amountConnectedClients (registry s) - (if HasConnected c then 1 else 0)"
  using drop_and_run_removes [OF assms, of env rn dr why] unfolding drop_and_run_def Let_def by blast

theorem dropped_client_removed_witness:
  "\<not> registered (registry (Run sample_env (DropClientv sample_env False 0 [] 2 ''bye'' sample_server))) 0
    \<and> m_events (registry (Run sample_env (DropClientv sample_env False 0 [] 2 ''bye'' sample_server)))
      = m_events (registry sample_server) @ [OnDrop 0]"
  using dropped_client_removed [OF sample_ok sample_lookups(1,2) _ sample_lookups(10)] by (simp add: Let_def)

text \<open>
  The message that the server writes by hand when its host leaves is the encoding of the packet class
  that the other announcements of a host use, with both ids 65535.
\<close>

theorem host_left_message_is_packet:
  "written no_host_fields =
    Some (packet_wire ServerIHost_wire (ServerIHostPacket_init\<lparr>pdata := ServerIHost.make 0xFFFF 0xFFFF\<rparr>))"
  by (rule no_host_is_IHost)

text \<open>
  Whatever the body of a connection request, whoever sends it: if the handshake ends, the registry is
  well formed afterwards.
\<close>

theorem handshake_keeps_registry:
  assumes "registry_ok limit (registry s)" "handshake env peerId address body s = Some s'"
  shows "registry_ok limit (registry s')"
  by (rule handshake_keeps_registry_ok [OF assms])

theorem handshake_keeps_registry_witness:
  "registry_ok 0x10000 (registry sample_server)"
proof (rule handshake_keeps_registry [OF sample_ok])
  show "handshake sample_env 7 ''a'' (bytes_of_string ''guid=zz'') sample_server = Some sample_server"
  proof -
    have "UrlDecode ''guid'' True = (True, ''guid'')" "UrlDecode ''zz'' True = (True, ''zz'')"
      by (simp_all add: UrlDecode_def)
    then have "DecodeFormData ''guid=zz'' ''guid'' = Some ''zz''"
      by (simp add: DecodeFormData_def DecodeFormData_loop.simps)
    then show ?thesis
      by (simp add: handshake_def Let_def sample_server_def sample_registry_def GetClientByGuid_def)
  qed
qed



text \<open>
  The counter of connected clients goes down twice for one client when a handshake with its guid and
  a wrong token arrives between its drop and the main thread.
\<close>

theorem client_counted_down_twice:
  assumes "GetClientByGuid g (registry s) = Some r" "client_of s r = Some c" "\<not> m_dropping c" "HasConnected c"
    and "mainCallbacks s = []" "form_encodes [(''guid'', g), (''token'', t)] e" "t \<noteq> m_connectionToken c"
  shows "\<exists>s2. handshake env peerId address (bytes_of_string e) (DropClientv env False r rn dr why s) = Some s2
    \<and> m_amountConnectedClients (registry (Run env s2)) = m_amountConnectedClients (registry s) - 2"
  by (rule dropped_then_removed [OF assms])

theorem client_counted_down_twice_witness:
  "\<exists>s2. handshake sample_env 5 ''x'' (bytes_of_string ''guid=g&token=u'')
      (DropClientv sample_env False 0 [] 2 ''bye'' sample_server) = Some s2
    \<and> m_amountConnectedClients (registry (Run sample_env s2)) = m_amountConnectedClients (registry sample_server) - 2"
  by (rule client_counted_down_twice [OF sample_lookups(6,2) _ _ sample_lookups(10) sample_form(2)]) simp_all

section \<open>Packet handlers\<close>

text \<open>
  C34. Without OneSync a routed packet from one client reaches the client it names, unreliably and on
  channel 1, as a well-formed packet of the same class with the same payload and the sender's net id.
\<close>

theorem routing_relays_packet:
  assumes "\<not> oneSync env" "ClientRoute_wf v" "client_of s r = Some c"
    and "(ucast (ClientRoute.targetNetId v) :: u32) \<noteq> m_netId c"
    and "GetClientByNetID (ucast (ClientRoute.targetNetId v)) (registry s) = Some q"
    and "client_of s q = Some d" "m_peer d = Some p"
  shows "let (result, s') = Routing_Process env r
        (ByteReader_make (ClientRoute_wire v) (of_nat (length (ClientRoute_wire v))) ind) s in
    result \<and> packetsOut s' = packetsOut s @ [\<lparr>sp_peer = p, sp_channel = 1,
      sp_bytes = packet_wire ClientRoute_wire (relayed c v), sp_reliable = False\<rparr>]
    \<and> ClientRoute_wf (pdata (relayed c v))"
  using Routing_relays(1,2) [OF assms, of ind] Routing_relays(3) [OF assms] by (simp add: case_prod_unfold)

theorem routing_relays_packet_witness:
  "let (result, s') = Routing_Process sample_env 0
      (ByteReader_make (ClientRoute_wire (ClientRoute.make 2 1 (Span [8])))
        (of_nat (length (ClientRoute_wire (ClientRoute.make 2 1 (Span [8]))))) (\<lambda>_. 0)) sample_server in
    result \<and> packetsOut s' = packetsOut sample_server @ [\<lparr>sp_peer = 12, sp_channel = 1,
      sp_bytes = packet_wire ClientRoute_wire (relayed (sample_client ''g'' 1 11) (ClientRoute.make 2 1 (Span [8]))),
      sp_reliable = False\<rparr>]
    \<and> ClientRoute_wf (pdata (relayed (sample_client ''g'' 1 11) (ClientRoute.make 2 1 (Span [8]))))"
  by (rule routing_relays_packet [where q = 1 and d = "sample_client ''h'' 2 12"])
    (simp_all add: ClientRoute_wf_def ClientRoute.defs size_fits_def codec_simps)

text \<open>
  The players that a network event is routed to: each is on the list the client sent and may get the
  event (same routing bucket, the client's entity is relevant to it), each such player with a net id that
  the bitset of 2056 bits holds is among them, and no id below that bound occurs twice.
\<close>

theorem event_targets:
  "distinct (filter (\<lambda>p. unat p < PROCESSED_BITS) (target_players ev r s {} players))
    \<and> set (target_players ev r s {} players) \<subseteq> {p \<in> set players. may_get ev r s p}
    \<and> {p \<in> set players. unat p < PROCESSED_BITS \<and> may_get ev r s p} \<subseteq> set (target_players ev r s {} players)"
  using target_players_distinct [of ev r s "{}" players] target_players_sound [of _ ev r s "{}" players]
    target_players_complete [of _ players "{}" ev r s] by auto

text \<open>
  Without a host, one vote is enough to make a client the host while at most three clients have
  routed packets: the first vote for a candidate counts as two.
\<close>

theorem first_vote_elects:
  assumes "\<not> oneSync env" "GetHost (registry s) = None"
    and "GetClientByNetID (ClientHeHost.allegedNewId v) (registry s) = Some n" "client_of s n = Some c"
    and "m_netId c = ClientHeHost.allegedNewId v" "HasConnected c" "m_netId c \<noteq> 0"
    and "voteCounts s (ClientHeHost.allegedNewId v) = None" "routed_clients s \<le> 3"
  shows "GetHost (registry (HeHost_body env v s)) = Some n"
  by (rule HeHost_first_vote [OF assms])

theorem first_vote_elects_witness:
  "GetHost (registry (HeHost_body sample_env (ClientHeHost.make 2 5) sample_server)) = Some 1"
  by (rule first_vote_elects [where c = "sample_client ''h'' 2 12"]) (simp_all add: ClientHeHost.defs)

text \<open>
  C29. Object ids from end to end: what the server sends for a request is one reliable packet, and a client
  that decodes it gets exactly the free ids the sync state chose.
\<close>

theorem object_ids_delivered:
  assumes "client_of s r = Some c" "m_peer c = Some p"
    and "length (GetFreeObjectIds env r numIds s) \<le> (if bigMode env then 6 else 64)"
  shows "\<exists>bytes v state. SendObjectIds env r numIds s = s\<lparr>packetsOut := packetsOut s @ [\<lparr>sp_peer = p, sp_channel = 1,
      sp_bytes = bytes, sp_reliable = True\<rparr>]\<rparr>
    \<and> ProcessPacket (ServerObjectIdsPacket_Process (bigMode env)) ServerObjectIdsPacket_init
        (ByteReader_make bytes (of_nat (length bytes)) ind) = (Some v, state)
    \<and> GetIds (pdata v) [] = Some (GetFreeObjectIds env r numIds s)"
proof -
  let ?xs = "GetFreeObjectIds env r numIds s"
  have wf: "packet_wf (ServerObjectIds_wf (bigMode env)) (ids_packet ?xs)"
    by (rule SetIds_packet_wf [OF assms(3)]) (simp add: ids_packet_def)
  have "addressable (length (packet_wire (ServerObjectIds_wire (bigMode env)) (ids_packet ?xs)))"
    using soi_packet.window [OF wf] by (auto split: if_splits)
  moreover have "GetIds (pdata (ids_packet ?xs)) [] = Some ?xs"
    using assms(3) GetIds_SetIds [of ?xs] by (simp add: ids_packet_def split: if_splits)
  ultimately show ?thesis
    using soi_packet.ProcessPacket_wire [OF wf, of ind] SendObjectIds_sends [OF assms] by blast
qed

theorem object_ids_delivered_witness:
  "\<exists>bytes v state. SendObjectIds sample_env 0 3 sample_server = sample_server\<lparr>packetsOut := packetsOut sample_server @
      [\<lparr>sp_peer = 11, sp_channel = 1, sp_bytes = bytes, sp_reliable = True\<rparr>]\<rparr>
    \<and> ProcessPacket (ServerObjectIdsPacket_Process (bigMode sample_env)) ServerObjectIdsPacket_init
        (ByteReader_make bytes (of_nat (length bytes)) (\<lambda>_. 0)) = (Some v, state)
    \<and> GetIds (pdata v) [] = Some (GetFreeObjectIds sample_env 0 3 sample_server)"
  by (rule object_ids_delivered [OF sample_lookups(2) sample_fields(2)]) simp

text \<open>
  \<open>DecodeFormData\<close> reads back any form: for every URL encoding of fields with non-empty names and
  values, each name has the value of its last occurrence and no other name has one.
\<close>

theorem form_data_decoded:
  assumes "form_encodes kvs e"
  shows "DecodeFormData e = map_of (rev kvs)"
  using DecodeFormData_loop_encodes [OF assms, of "\<lambda>_. None"] by (simp add: DecodeFormData_def)

theorem form_data_decoded_witness:
  "DecodeFormData ''guid=g&token=t'' = map_of (rev [(''guid'', ''g''), (''token'', ''t'')])"
  by (rule form_data_decoded [OF sample_form(1)])

section \<open>Fragmented events\<close>



text \<open>
  C21. The receiver of an event refines a set of fragment numbers: handling fragment \<open>i\<close> adds \<open>i\<close> to the set,
  whatever was received before, and the event is queued in the step that completes the set.
\<close>

theorem receiver_refines_set:
  assumes "event_fits_V2 nm pl" "i < event_count nm pl" "\<not> LimitEvent env src"
    and "receiving kFragmentSizeV2 src e (event_bytes nm pl) (nm, pl) queued st S"
  shows "\<exists>st'. HandlePacketV2 env src (event_fragment e nm pl i) st = Some st'
    \<and> receiving kFragmentSizeV2 src e (event_bytes nm pl) (nm, pl) queued st' (insert i S)"
  by (rule HandlePacketV2_adds [OF assms])

theorem receiver_refines_set_witness:
  "\<exists>st'. HandlePacketV2 reassembly_clock 7 (event_fragment 0 ping_name ping_payload 0) (one_target 5) = Some st'
    \<and> receiving kFragmentSizeV2 7 0 (event_bytes ping_name ping_payload) (ping_name, ping_payload) [] st' (insert 0 {})"
proof (rule receiver_refines_set)
  show "receiving kFragmentSizeV2 7 0 (event_bytes ping_name ping_payload) (ping_name, ping_payload) [] (one_target 5) {}"
    using ping_fits(2) by (simp add: receiving_def Let_def lessThan_Suc del: length_event_bytes)
qed (simp_all add: ping_fits del: length_event_bytes)





text \<open>
  C37. Acknowledgements of version 2 are not found: as long as its target stays registered, an event that
  \<open>TriggerEventV2\<close> queued is still in the send list, and still unacknowledged, after any run of the component.
\<close>

theorem event_V2_never_finished:
  assumes "TriggerEventV2 t nm pl bps st = Some st1" "length nm \<le> 65535" "length nm + length pl < 2 ^ 61"
    and "\<not> oversized kMaxPacketSizeV2 nm pl" "t \<noteq> - 1" "map_of (m_targets st) t \<noteq> None"
    and "map_of (m_sendListV2 st) (m_eventId st) = None" "registered_run t st1 st2"
  shows "\<exists>ev td. map_of (m_sendListV2 st2) (m_eventId st) = Some ev \<and> t \<in> set (targets ev)
    \<and> targetData ev t = Some td \<and> False \<in> set (ackBits td)"
  using pending_run [OF assms(8)] TriggerEventV2_pending [OF assms(2-7), of bps] assms(1)
  by (auto simp: sends_pending_def pending_for_def)

theorem event_V2_never_finished_witness:
  "\<exists>st1 ev td. TriggerEventV2 7 ping_name ping_payload 0 (one_target 5) = Some st1
    \<and> registered_run 7 st1 (RegisterTarget 9 1 st1)
    \<and> map_of (m_sendListV2 (RegisterTarget 9 1 st1)) 0 = Some ev \<and> 7 \<in> set (targets ev)
    \<and> targetData ev 7 = Some td \<and> False \<in> set (ackBits td)"
proof -
  have o: "\<not> oversized kMaxPacketSizeV2 ping_name ping_payload"
    by (simp add: oversized_def kMaxPacketSizeV2_def kFragmentSizeV2_def)
  from TriggerEventV2_queues [OF _ _ this, of 7 "one_target 5" 0]
  obtain st1 where st1: "TriggerEventV2 7 ping_name ping_payload 0 (one_target 5) = Some st1" "m_targets st1 = [(7, 5)]"
    by auto
  have run: "registered_run 7 st1 (RegisterTarget 9 1 st1)"
    by (rule registered_run.step [OF registered_run.refl reassembly_step.register]) (simp add: RegisterTarget_def st1(2))
  have "\<exists>ev td. map_of (m_sendListV2 (RegisterTarget 9 1 st1)) (m_eventId (one_target 5)) = Some ev \<and> 7 \<in> set (targets ev)
    \<and> targetData ev 7 = Some td \<and> False \<in> set (ackBits td)"
    by (rule event_V2_never_finished [OF st1(1) _ _ o _ _ _ run]) simp_all
  with st1(1) run show ?thesis by auto
qed

text \<open>
  What a tick sends to a target: fragments at or behind its position that are not acknowledged, each
  once and in ascending order; the position stays inside the bit set, and the target is done exactly when
  every fragment is acknowledged.
\<close>

theorem burst_sends_unacknowledged:
  assumes "burst lat now startBit resTime td = (idxs, td', isDone)" "lastBit td < length (ackBits td)"
  shows "lastBit td' < length (ackBits td') \<and> ackBits td' = ackBits td \<and> sorted_wrt (<) idxs
    \<and> (\<forall>i\<in>set idxs. lastBit td \<le> i \<and> i < length (ackBits td) \<and> \<not> ackBits td ! i)
    \<and> (isDone = (False \<notin> set (ackBits td)))"
  using burst_sends [OF assms(1)] assms(2) unfolding target_ok_def by metis

theorem burst_sends_unacknowledged_witness:
  "\<exists>td'. burst 10 1000 0 500 \<lparr>lastSend = 0, delayNextSend = 0, ackBits = [True, False, True, False], lastBit = 0\<rparr> = ([1, 3], td', False)
    \<and> lastBit td' < length (ackBits td')"
proof -
  let ?td = "\<lparr>lastSend = 0, delayNextSend = 0, ackBits = [True, False, True, False], lastBit = 0\<rparr>"
  obtain td' where "burst 10 1000 0 500 ?td = ([1, 3], td', False)"
    by (simp add: burst.simps [of 10 1000 0 _ "per_target_data.make _ _ _ _"] burst.simps next_bit_def upt_rec Let_def)
  with burst_sends_unacknowledged [OF this, THEN conjunct1] show ?thesis by simp
qed



text \<open>
  The largest events that \<open>TriggerEventV2\<close> accepts, those with 65536 fragments, are lost: every fragment
  announces a count of 0, and the receiver ignores it.
\<close>

theorem largest_events_ignored:
  assumes "65535 * kFragmentSizeV2 < length (event_bytes nm pl)" "length (event_bytes nm pl) < 65536 * kFragmentSizeV2"
  shows "\<not> oversized kMaxPacketSizeV2 nm pl \<and> HandlePacketV2 env src (event_fragment e nm pl i) st = Some st"
  by (rule largest_events_lost [OF assms])

theorem largest_events_ignored_witness:
  "\<not> oversized kMaxPacketSizeV2 ping_name (replicate 134150146 0)
    \<and> HandlePacketV2 reassembly_clock 7 (event_fragment 0 ping_name (replicate 134150146 0) 0) (one_target 5) = Some (one_target 5)"
  by (rule largest_events_ignored) (simp_all only: length_event_bytes length_replicate kFragmentSizeV2_def, simp_all)

text \<open>
  A target registered without a limit (255) may send one event: when it is complete, the count of
  pending events wraps to 0, and no further event of the target is accepted.
\<close>

theorem unlimited_target_blocked:
  assumes "event_fits_V2 nm pl" "event_count nm pl = 1" "\<not> LimitEvent env src"
    and "m_receiveList st src e = None" "map_of (m_targets st) src = Some 0xFF" "src \<noteq> 0"
    and "length (staticEventName st) = 65536"
  shows "\<exists>st'. HandlePacketV2 env src (event_fragment e nm pl 0) st = Some st'
    \<and> (\<forall>env q. ReassembledEventV2.eventId q \<noteq> e \<and> m_receiveList st src (ReassembledEventV2.eventId q) = None
         \<and> span_elems (ReassembledEventV2.data q) \<noteq> [] \<longrightarrow> HandlePacketV2 env src q st' = Some st')"
proof -
  obtain st' where st': "HandlePacketV2 env src (event_fragment e nm pl 0) st = Some st'" "map_of (m_targets st') src = Some 0"
    using unlimited_target_wraps [OF assms] by blast
  have "m_receiveList st' src e' = m_receiveList st src e'" if "e' \<noteq> e" for e'
    using HandlePacketV2_others [OF st'(1)] that by (simp add: event_fragment_def ReassembledEventV2.defs)
  then show ?thesis using st' open_event_blocked [of st' src] by auto
qed

theorem unlimited_target_blocked_witness:
  "\<exists>st'. HandlePacketV2 reassembly_clock 7 (event_fragment 0 ping_name ping_payload 0) (one_target 0xFF) = Some st'
    \<and> HandlePacketV2 reassembly_clock 7 (ReassembledEventV2.make 9 0 1 (Span [1])) st' = Some st'"
proof -
  obtain st' where st': "HandlePacketV2 reassembly_clock 7 (event_fragment 0 ping_name ping_payload 0) (one_target 0xFF) = Some st'"
    "\<And>env q. ReassembledEventV2.eventId q \<noteq> 0 \<Longrightarrow> span_elems (ReassembledEventV2.data q) \<noteq> [] \<Longrightarrow> HandlePacketV2 env 7 q st' = Some st'"
    using unlimited_target_blocked [of ping_name ping_payload reassembly_clock 7 "one_target 0xFF" 0] ping_fits
    by (auto simp del: length_event_bytes)
  from st'(2) [of "ReassembledEventV2.make 9 0 1 (Span [1])"] st'(1) show ?thesis by (auto simp: ReassembledEventV2.defs)
qed

section \<open>State bags\<close>

text \<open>
  C5. State bags are replicated: from the moment a peer joins a bag, through any run of calls that replicate
  (see \<open>replicates\<close>), the packets it was sent, handled in order by its own component, give its bag the
  keys and values of the server's bag.
\<close>

theorem state_bag_replicated:
  assumes "bags_reachable env st" "all_fit st" "bags st r = Some bag" "holders st r > 0"
    and "\<not> m_useParentTargets bag" "m_replicationEnabled bag" "m_replicateData bag = []" "t \<notin> set (m_routingTargets bag)"
    and "AddRoutingTarget r t st = Some st1" "replicating_run env t r st1 st2"
    and "bags_reachable env' pst" "bags pst q = Some pbag" "m_bagId pbag = m_bagId bag" "m_bagData pbag = []"
      "m_owningPeer pbag = None \<or> m_owningPeer pbag = Some source" "\<not> hasChangeHandler env'"
  shows "\<exists>bag2 pst' new. bags st2 r = Some bag2
    \<and> handle_all (receive_packet env' source) (map snd (filter (\<lambda>(u, _). u = t) (drop (length (bagSent st)) (bagSent st2)))) pst = Some pst'
    \<and> bags pst' q = Some new \<and> GetKey new = GetKey bag2"
proof -
  have syn: "synced t r (m_bagId bag) (length (bagSent st)) st2"
    using replicating_run_joined [OF bags_reachable_inv [OF assms(1)] assms(2-10)] by blast
  then obtain bag2 where bag2: "bags st2 r = Some bag2" "m_bagId pbag = m_bagId bag2"
    using assms(13) by (auto simp: synced_def)
  from replica_equal [OF syn bag2(1) bags_reachable_inv [OF assms(11)] assms(12) bag2(2) assms(14-16)] bag2(1) show ?thesis by blast
qed

theorem state_bag_replicated_witness:
  "\<exists>st1 st2 bag2 pst' new. AddRoutingTarget 0 7 (one_bag Role_Server) = Some st1
    \<and> run_call quiet_bags (Call_SetKey 0 0 [107] [1] True) st1 = Some st2 \<and> bags st2 0 = Some bag2
    \<and> handle_all (receive_packet quiet_bags 1) (map snd (filter (\<lambda>(u, _). u = 7) (bagSent st2))) (one_bag Role_Client) = Some pst'
    \<and> bags pst' 0 = Some new \<and> GetKey new = GetKey bag2"
proof -
  obtain st1 where st1: "AddRoutingTarget 0 7 (one_bag Role_Server) = Some st1" "bags_reachable quiet_bags st1"
      "bags st1 0 = Some (StateBagImpl_make bag_name False\<lparr>m_routingTargets := [7]\<rparr>)" "holders st1 0 = 1"
    using one_bag_joined by blast
  have ok: "call_ok st1 (Call_SetKey 0 0 [107] [1] True)" using st1(4) by (simp add: call_ok_def)
  obtain st2 where st2: "run_call quiet_bags (Call_SetKey 0 0 [107] [1] True) st1 = Some st2"
    using run_call_inv [OF bags_reachable_inv [OF st1(2)] ok] by blast
  have run: "replicating_run quiet_bags 7 0 st1 st2"
    by (rule replicating_run.step [OF replicating_run.refl _ st2]) (use st1(3) ok small_fits in \<open>simp add: replicates_def\<close>)
  from state_bag_replicated [of quiet_bags "one_bag Role_Server" 0 "StateBagImpl_make bag_name False" 7 st1 st2
      quiet_bags "one_bag Role_Client" 0 "StateBagImpl_make bag_name False" 1] st1(1) run st2
  show ?thesis using one_bag_reachable one_bag_fits by simp
qed

text \<open>
  C17. In every state the component can reach without \<open>Reset\<close>, a live bag is the only one of its name, it is
  found under its name, and somebody owns it.
\<close>

theorem state_bag_names_unique:
  assumes "bags_reachable env st" "bags st r = Some bag"
  shows "fst (GetStateBag (m_bagId bag) st) = Some r \<and> owned st r
    \<and> (\<forall>s bag'. bags st s = Some bag' \<and> m_bagId bag' = m_bagId bag \<longrightarrow> s = r)"
proof -
  note inv = bags_reachable_inv [OF assms(1)]
  show ?thesis
    using lock_bag_live [OF inv assms(2)] bags_invD(4) [OF inv assms(2)] bag_names_unique [OF inv _ assms(2)]
    by (auto simp: GetStateBag_def)
qed

theorem state_bag_names_unique_witness:
  "fst (GetStateBag bag_name (one_bag Role_Server)) = Some 0 \<and> owned (one_bag Role_Server) 0"
  using state_bag_names_unique [OF one_bag_reachable [of quiet_bags Role_Server], of 0 "StateBagImpl_make bag_name False"] by simp







text \<open>
  A value for which the buffer of \<open>SendKeyValue\<close> has no room is lost without a trace: a packet is sent,
  but nothing of it is handled.
\<close>

theorem long_bag_value_lost:
  assumes "bags_reachable env st" "m_role st \<noteq> Role_ClientV2"
    and "m_bagId bag \<noteq> []" "k \<noteq> []" "length (m_bagId bag) < 65535" "length k < 65535"
    and "length (frame (m_bagId bag)) + length (frame k) \<le> 131072" "length (bag_frame (m_bagId bag) k v) > 131072"
  shows "\<exists>st' p. SendKeyValue bag t k v st = Some st' \<and> bagSent st' = bagSent st @ [(t, p)] \<and> decode_packet p = None"
  by (rule long_value_lost [OF bags_invD(10) [OF bags_reachable_inv [OF assms(1)]] assms(2-8)])

theorem long_bag_value_lost_witness:
  "\<exists>st' p. SendKeyValue (StateBagImpl_make bag_name False) 7 [107] (replicate 131072 1) (one_bag Role_Server) = Some st'
    \<and> bagSent st' = [(7, p)] \<and> decode_packet p = None"
  using long_bag_value_lost [OF one_bag_reachable, of Role_Server "StateBagImpl_make bag_name False" "[107]" "replicate 131072 1" 7]
  by (simp add: bag_frame_def)

text \<open>
  Without immediate replication the targets get an old value: of two values stored for a key before
  \<open>SendQueuedUpdates\<close>, the first is sent, while the bag has the second.
\<close>

theorem queued_bag_update_stale:
  assumes "bags_reachable env st" "bags st r = Some bag" "\<not> m_replicationEnabled bag" "m_replicateData bag = []"
      "\<not> m_useParentTargets bag" "t \<in> set (m_routingTargets bag)" "bag_data_fits bag"
    and "map_of (m_bagData bag) k = None" "bag_fits (m_bagId bag) k v1" "bag_fits (m_bagId bag) k v2"
      "hd v1 \<noteq> MsgPackNil" "hd v2 \<noteq> MsgPackNil" "v1 \<noteq> v2"
  shows "\<exists>st1 st2 st3 new. SetKeyInternal r k v1 True st = Some st1 \<and> SetKeyInternal r k v2 True st1 = Some st2
    \<and> SendQueuedUpdates r st2 = Some st3 \<and> bags st3 r = Some new \<and> GetKey new k = Some v2
    \<and> sent_updates t (m_bagId bag) (bagSent st3) = sent_updates t (m_bagId bag) (bagSent st) @ [(k, v1)]"
  by (rule queued_update_stale [OF bags_reachable_inv [OF assms(1)] assms(2-13)])

theorem queued_bag_update_stale_witness:
  "\<exists>st1 st2 st3 st4 st5 new. run_call quiet_bags (Call_Immediate 0 False) (one_bag Role_Server) = Some st1
    \<and> run_call quiet_bags (Call_AddTarget 0 7) st1 = Some st2
    \<and> SetKeyInternal 0 [107] [1] True st2 = Some st3 \<and> SetKeyInternal 0 [107] [2] True st3 = Some st4
    \<and> SendQueuedUpdates 0 st4 = Some st5 \<and> bags st5 0 = Some new \<and> GetKey new [107] = Some [2]
    \<and> sent_updates 7 bag_name (bagSent st5) = [([107], [1])]"
proof -
  let ?bag = "StateBagImpl_make bag_name False\<lparr>m_routingTargets := [7], m_replicationEnabled := False\<rparr>"
  let ?st1 = "EnableImmediateReplication 0 False (one_bag Role_Server)"
  let ?st2 = "?st1\<lparr>bags := (bags ?st1)(0 \<mapsto> ?bag)\<rparr>"
  have c1: "run_call quiet_bags (Call_Immediate 0 False) (one_bag Role_Server) = Some ?st1" by simp
  have b1: "bags ?st1 0 = Some (StateBagImpl_make bag_name False\<lparr>m_replicationEnabled := False\<rparr>)"
    "holders ?st1 0 = 1" "bagSent ?st1 = []"
    by (simp_all add: EnableImmediateReplication_def update_bag_def)
  have c2: "run_call quiet_bags (Call_AddTarget 0 7) ?st1 = Some ?st2"
    using b1 by (simp add: AddRoutingTarget_def SendAll_def Let_def StateBagImpl_make_def)
  have r1: "bags_reachable quiet_bags ?st1"
    by (rule bags_reachable.step [OF one_bag_reachable _ c1]) (simp add: call_ok_def)
  have r2: "bags_reachable quiet_bags ?st2"
    by (rule bags_reachable.step [OF r1 _ c2]) (use b1 in \<open>simp add: call_ok_def\<close>)
  have b2: "bags ?st2 0 = Some ?bag" "bag_data_fits ?bag" by (simp_all add: bag_data_fits_def)
  have "bagSent ?st2 = []" using b1(3) by simp
  with queued_bag_update_stale [OF r2 b2(1) _ _ _ _ b2(2), of 7 "[107]" "[1]" "[2]"] c1 c2 small_fits show ?thesis
    by (simp add: MsgPackNil_def)
qed

text \<open>
  \<open>Reset\<close> forgets bags that are in use: when the name of such a bag is registered again and the old bag
  is let go, the new bag, although it is held, is no longer found.
\<close>

theorem reset_bag_lost:
  "\<exists>st. run_calls env [Call_Register i False, Call_Reset, Call_Register i False, Call_Release 0, Call_Tick] (StateBags_make role) = Some st
    \<and> bags st 1 = Some (StateBagImpl_make i False) \<and> holders st 1 = 1 \<and> fst (GetStateBag i st) = None"
  using reset_loses_bag [of env i role] lock_bag_none by metis

section \<open>Access control\<close>

text \<open>
  C7. A privilege check always returns, also when principals inherit from each other in a cycle, and decides
  by the reference \<open>granted\<close>: some entry for the object or a parent of it allows it to a principal that the
  asking one stands for, and none denies it. On a stack one of its principals must be granted the object;
  without a stack it is \<open>builtin.everyone\<close>. The global context is made on the way, and changes no later answer.
\<close>

theorem privilege_check_decides:
  "seCheckPrivilege object st =
     (Some (if g_principalStack st = [] then granted (current_context st) everyone (Object object)
            else (\<exists>p. p \<in> stack_principals st \<and> granted (current_context st) p (Object object))),
      snd (seGetCurrentContext st))
   \<and> may (snd (seGetCurrentContext st)) = may st"
  by (auto simp: seCheckPrivilege_may may_def allowed_def)

text \<open>
  C38. The self check of \<open>add_ace\<close> compares the argument as it was typed, while principals are lowered: whoever
  writes the own principal with a capital letter gives it a new entry, so it may do what no entry denies it.
\<close>

theorem self_grant_by_capitals:
  assumes "p \<in> stack_principals st" "map ToLower s = GetIdentifier p" "\<forall>q\<in>stack_principals st. s \<noteq> GetIdentifier q"
    and "\<not> (\<exists>x\<in>set (m_aces (current_context st)). concerns (current_context st) p (Object obj) x \<and> aceType (snd x) = Deny)"
  shows "\<exists>st'. add_ace s obj ''allow'' st = (Ace_done, st') \<and> seCheckPrivilege obj st' = (Some True, snd (seGetCurrentContext st'))"
  using add_ace_capital [OF assms] by (auto simp: seCheckPrivilege_may)

theorem self_grant_by_capitals_witness:
  "\<exists>st'. add_ace ''Group.admin'' ''webadmin'' ''allow'' admin_state = (Ace_done, st')
    \<and> seCheckPrivilege ''webadmin'' st' = (Some True, snd (seGetCurrentContext st'))"
proof (rule self_grant_by_capitals)
  have a: "GetIdentifier admin = ''group.admin''" by code_simp
  show "admin \<in> stack_principals admin_state" by (simp add: stack_principals_def entry_principals_def admin_state_def)
  show "map ToLower ''Group.admin'' = GetIdentifier admin" by code_simp
  show "\<forall>q\<in>stack_principals admin_state. ''Group.admin'' \<noteq> GetIdentifier q"
    by (simp add: stack_principals_def entry_principals_def admin_state_def a)
  have "m_aces (current_context admin_state) =
      [(Object ''command'', \<lparr>aceObject = Object ''command'', acePrincipal = admin, aceType = Allow\<rparr>),
       (Object ''command.quit'', \<lparr>aceObject = Object ''command.quit'', acePrincipal = admin, aceType = Deny\<rparr>)]" by code_simp
  moreover have "\<not> covers (Object ''command.quit'') (Object ''webadmin'')"
  proof -
    have "Object ''command.quit'' \<noteq> Object ''webadmin''" "parent_objects (GetObjectIdentifier (Object ''webadmin'')) = []"
      by code_simp+
    then show ?thesis
      using parent_objects_iff [of "Object ''command.quit''" "GetObjectIdentifier (Object ''webadmin'')"] unfolding covers_def by simp
  qed
  ultimately show "\<not> (\<exists>x\<in>set (m_aces (current_context admin_state)).
      concerns (current_context admin_state) admin (Object ''webadmin'') x \<and> aceType (snd x) = Deny)"
    by (simp add: concerns_def)
qed

section \<open>The console\<close>

text \<open>
  C6. The console is always defined: in every state that can be reached, every call that other code may make,
  and every line, whatever its text and whatever commands and variables it names, returns, and ends in a
  reachable state. Contexts may fall back to each other and lines may be cut, tokenized and looked up.
\<close>

theorem console_calls_return:
  assumes "con_reachable st" "call_allowed st call"
  shows "\<exists>st'. run_con_call env call st = Some st' \<and> con_reachable st'"
  using con_call_ok [OF con_reachable_ok [OF assms(1)] assms(2)] con_reachable.step [OF assms] by blast

theorem console_calls_return_witness:
  "\<exists>st'. run_con_call quiet_console (Call_invoke 0 ''toggle motd'' []) with_quit = Some st' \<and> con_reachable st'"
  by (rule console_calls_return [OF with_quit_reachable]) (use context_0 in simp)

text \<open>
  C27. In every reachable state the current value of a variable, its default, its saved value and the C++
  variable behind it have one type, its context exists, and it has an owner: the entry of a name, or a
  \<open>ConVar\<close> object.
\<close>

theorem console_values_typed:
  assumes "con_reachable st" "cvars st r = Some v"
  shows "type_of (m_defaultValue v) = type_of (m_curValue v) \<and> type_of (m_offlineValue v) = type_of (m_curValue v)
    \<and> map_option type_of (m_trackingVar v) \<in> {None, Some (type_of (m_curValue v))}
    \<and> con_contexts st (cvManager v) \<noteq> None \<and> var_owned st r"
proof -
  have "con_inv {} st" "value_ok v" using con_reachable_ok [OF assms(1)] assms(2) by (auto simp: con_ok_def typed_def)
  then show ?thesis using con_invD(3,4) [OF _ assms(2)] by (cases "m_trackingVar v") (auto simp: value_ok_def)
qed

theorem console_values_typed_witness:
  "\<exists>v. cvars with_quit 1 = Some v \<and> type_of (m_defaultValue v) = type_of (m_curValue v) \<and> type_of (m_offlineValue v) = type_of (m_curValue v)
    \<and> map_option type_of (m_trackingVar v) \<in> {None, Some (type_of (m_curValue v))}
    \<and> con_contexts with_quit (cvManager v) \<noteq> None \<and> var_owned with_quit 1"
proof -
  obtain v where "cvars with_quit 1 = Some v" using with_quit_variables(3) by (cases "cvars with_quit 1") auto
  with console_values_typed [OF with_quit_reachable this] show ?thesis by blast
qed

text \<open>
  C11. Nothing that is executed, as a line, as a command or as a buffer, and by whomever, changes the value of a
  variable whose entry is read only or internal, unless a C++ variable is behind it.
\<close>

theorem protected_variable_unchanged:
  assumes "con_reachable st" "call_allowed st call" "executes call"
    and v: "cvars st r = Some v" "m_trackingVar v = None"
    and flag: "flagged (GetEntryFlags (cvManager v) (cvName v) st) (ConVar_ReadOnly OR ConVar_Internal)"
  shows "\<exists>st' w. run_con_call env call st = Some st' \<and> cvars st' r = Some w \<and> m_curValue w = m_curValue v"
proof -
  have ok: "con_ok st" by (rule con_reachable_ok [OF assms(1)])
  obtain st' where st': "run_con_call env call st = Some st'" using con_call_ok [OF ok assms(2)] by blast
  have "protected r (m_curValue v) st"
    using v flag con_invD(2) [of "{}" st r v] ok by (simp add: protected_def shielded_def flagged_OR2 con_ok_def)
  with guards_call_executes [OF assms(3) st'] have "protected r (m_curValue v) st'" by (simp add: guards_def)
  then show ?thesis using st' by (auto simp: protected_def)
qed

theorem protected_variable_unchanged_witness:
  "\<exists>v st' w. cvars with_quit 0 = Some v \<and> run_con_call quiet_console (Call_invoke 0 ''motd bye'' []) with_quit = Some st'
    \<and> cvars st' 0 = Some w \<and> m_curValue w = m_curValue v"
proof -
  obtain v where v: "cvars with_quit 0 = Some v" "cvManager v = 0" "cvName v = ''motd''" "m_trackingVar v = None"
    using with_quit_variables(1) by (cases "cvars with_quit 0") auto
  have "\<exists>st' w. run_con_call quiet_console (Call_invoke 0 ''motd bye'' []) with_quit = Some st' \<and> cvars st' 0 = Some w \<and> m_curValue w = m_curValue v"
    by (rule protected_variable_unchanged [OF with_quit_reachable _ _ v(1,4)])
      (use context_0 v with_quit_variables(2) in \<open>simp_all add: executes_def ConVar_ReadOnly_def ConVar_Internal_def\<close>)
  then show ?thesis using v(1) by blast
qed

text \<open>
  C15. A known command whose object the security state does not grant changes no context, no variable and no
  later privilege.
\<close>

theorem denied_command_changes_nothing:
  assumes "con_contexts st c = Some cx" "multi_get (ci cmd) (cmdEntries cx) \<noteq> []" "\<not> may (security st) (command_object cmd)"
  shows "\<exists>st'. InvokeDirect env c cmd args ectx st = Some st' \<and> con_contexts st' = con_contexts st \<and> cvars st' = cvars st
    \<and> may (security st') = may (security st)"
  by (rule InvokeDirect_denied [OF assms])

theorem denied_command_changes_nothing_witness:
  "\<exists>st'. InvokeDirect quiet_console 0 ''quit'' [] [] with_quit = Some st' \<and> con_contexts st' = con_contexts with_quit
    \<and> cvars st' = cvars with_quit \<and> may (security st') = may (security with_quit)"
proof -
  obtain cx where cx: "con_contexts with_quit 0 = Some cx" "multi_get ''quit'' (cmdEntries cx) \<noteq> []"
    using with_quit_variables(6) by (cases "con_contexts with_quit 0") auto
  have "ci ''quit'' = ''quit''" by code_simp
  then show ?thesis using cx with_quit_may(2) by (intro denied_command_changes_nothing [OF cx(1)]) (simp_all add: command_object_def)
qed

text \<open>
  C28. Whoever may run all commands but one runs that one, too: with a null character and any text behind its
  name, the lookup, which compares C strings, finds the command, and the object whose privilege is checked is
  another one.
\<close>

theorem null_name_evades_deny:
  assumes cx: "con_contexts st c = Some cx" "map cmdFunction (multi_get (ci nm) (cmdEntries cx)) = fs" "fs \<noteq> []"
    and dots: "CHR ''.'' \<notin> set nm" "CHR ''.'' \<notin> set tail"
    and p: "p \<in> stack_principals (security st)"
    and all: "(Object ''command'', e) \<in> set (m_aces (current_context (security st)))"
      "acePrincipal e \<in> acts_as (current_context (security st)) p" "aceType e = Allow"
    and deny: "\<forall>(k, d)\<in>set (m_aces (current_context (security st))).
      aceType d = Deny \<longrightarrow> acePrincipal d \<in> acts_as (current_context (security st)) p \<longrightarrow>
      k \<noteq> Object ''command'' \<and> CHR 0x00 \<notin> set (GetObjectIdentifier k)"
  shows "InvokeDirect env c (nm @ CHR 0x00 # tail) args ectx st =
    try_functions env ectx args fs (st\<lparr>security := snd (seGetCurrentContext (security st))\<rparr>)"
  by (rule InvokeDirect_null_name [OF cx dots HOL.refl p all deny])

theorem null_name_evades_deny_witness:
  "InvokeDirect quiet_console 0 (''quit'' @ [CHR 0x00]) [] [] with_quit =
    try_functions quiet_console [] [] [Fn_script 0] (with_quit\<lparr>security := snd (seGetCurrentContext (security with_quit))\<rparr>)"
proof -
  obtain cx where cx: "con_contexts with_quit 0 = Some cx" "map cmdFunction (multi_get ''quit'' (cmdEntries cx)) = [Fn_script 0]"
    using with_quit_variables(6) by (cases "con_contexts with_quit 0") auto
  have ci: "ci ''quit'' = ''quit''" by code_simp
  have names: "Object ''command.quit'' \<noteq> Object ''command''" "CHR 0x00 \<notin> set (GetObjectIdentifier (Object ''command.quit''))"
    by code_simp+
  let ?e = "\<lparr>aceObject = Object ''command'', acePrincipal = admin, aceType = Allow\<rparr>"
  show ?thesis
    by (rule null_name_evades_deny [where p = admin and e = ?e, OF cx(1)])
      (use cx(2) names in \<open>simp_all add: ci with_quit_security with_quit_admin\<close>)
qed



text \<open>
  C26. Arguments that are spelled as words, or in quotes with their quotes escaped, are what \<open>Tokenize\<close> reads
  from the line.
\<close>

theorem arguments_read_back:
  assumes "spells s arg" "list_all2 spells ss args" "to_bytes (s @ spaced ss) = Some line"
  shows "Tokenize j line = Some (map argument_bytes (arg # args))"
  by (rule Tokenize_spelled [OF assms])

theorem arguments_read_back_witness:
  "Tokenize (\<lambda>_. None) ''say X'' = Some (map argument_bytes [[115, 97, 121], [88]])"
  by (rule arguments_read_back [where s = "[115, 97, 121]" and ss = "[[88]]"])
    (simp_all add: spells_def word_def to_bytes_def scalar_value_def utf8_point_def char_of_def bit_0)

text \<open>
  A block comment between arguments is not skipped: the loop over it stops at the star that opens it, so
  the words inside it and its end are read as arguments.
\<close>

theorem block_comment_not_skipped:
  assumes "spells s arg" "list_all2 spells ss args" "list_all2 spells ts args'" "ts \<noteq> []"
    and "to_bytes (s @ spaced ss @ [blank, slash, star] @ spaced ts @ [blank, star, slash]) = Some line"
  shows "Tokenize j line = Some (map argument_bytes (arg # args @ args' @ [[star, slash]]))"
  by (rule Tokenize_comment [OF assms])

theorem block_comment_not_skipped_witness:
  "Tokenize (\<lambda>_. None) ''say /* X */'' = Some (map argument_bytes [[115, 97, 121], [88], [star, slash]])"
proof -
  have "to_bytes ([115, 97, 121] @ spaced [] @ [blank, slash, star] @ spaced [[88]] @ [blank, star, slash]) = Some ''say /* X */''"
    by (simp add: to_bytes_def scalar_value_def utf8_point_def char_of_def bit_0)
  from block_comment_not_skipped [OF _ _ _ _ this, where args = "[]" and args' = "[[88]]" and arg = "[115, 97, 121]"]
  show ?thesis by (simp add: spells_def word_def)
qed

text \<open>
  A buffer of lines is executed line by line, in order and each once, and is empty afterwards; semicolons
  in quotes do not end a line.
\<close>

theorem buffer_runs_lines:
  assumes "con_contexts st c = Some cx" "m_commandBuffer cx = terminated commands" "waitUntil cx = 0"
    and "\<forall>s\<in>set commands. clean False s \<and> take 4 (trim_left s) \<noteq> ''wait''"
  shows "ExecuteBuffer env c st =
    map_option (upd_context c (\<lambda>cx. cx\<lparr>m_executing := False\<rparr>))
      (handle_all (ExecuteSingleCommand env c) commands
        (upd_context c (\<lambda>cx. cx\<lparr>waitUntil := 0, m_commandBuffer := [], m_executing := True\<rparr>) st))"
  using assms take_commands_terminated [OF assms(4)] by (simp add: ExecuteBuffer_def)

theorem buffer_runs_lines_witness:
  "\<exists>st. ExecuteBuffer quiet_console 0 st =
    map_option (upd_context 0 (\<lambda>cx. cx\<lparr>m_executing := False\<rparr>))
      (handle_all (ExecuteSingleCommand quiet_console 0) [''quit'', ''set motd x'']
        (upd_context 0 (\<lambda>cx. cx\<lparr>waitUntil := 0, m_commandBuffer := [], m_executing := True\<rparr>) st))"
proof -
  let ?cx = "empty_context None\<lparr>m_commandBuffer := terminated [''quit'', ''set motd x'']\<rparr>"
  let ?st = "booted\<lparr>con_contexts := [0 \<mapsto> ?cx]\<rparr>"
  show ?thesis
    by (rule exI [of _ ?st], rule buffer_runs_lines [where cx = ?cx])
      (simp_all add: empty_context_def trim_left_def less_eq_char_def)
qed

text \<open>
  \<open>ExecuteBuffer\<close> does not know escaped quotes: a line with one and a semicolon behind it is one command
  with one argument for \<open>Tokenize\<close>, and two commands for the buffer.
\<close>

theorem escaped_quote_splits:
  assumes "harmless b" "harmless d" "from_bytes b = Some bs" "from_bytes d = Some ds"
  shows "Tokenize j (escaped_line b d) = Some [''say'', b @ [CHR 0x22, CHR '';''] @ d]
    \<and> take_commands i (escaped_line b d) = ([''say '' @ [CHR 0x22] @ b @ [CHR 0x5C, CHR 0x22], d @ [CHR 0x22]], [])"
  using Tokenize_escaped_line [OF assms] take_commands_escaped [OF assms(1,2)] by blast

theorem escaped_quote_splits_witness:
  "Tokenize (\<lambda>_. None) (escaped_line ''x'' ''quit'') = Some [''say'', ''x'' @ [CHR 0x22, CHR '';''] @ ''quit'']
    \<and> take_commands (\<lambda>_. None) (escaped_line ''x'' ''quit'') = ([''say '' @ [CHR 0x22] @ ''x'' @ [CHR 0x5C, CHR 0x22], ''quit'' @ [CHR 0x22]], [])"
  by (rule escaped_quote_splits [where bs = "[120]" and ds = "[113, 117, 105, 116]"])
    (simp_all add: harmless_def from_bytes_def)

section \<open>Resources\<close>

text \<open>
  C8. Dependencies run: after any sequence of stops and successful starts, by name, every resource that is
  started finds a started resource under the name of each of its dependencies. The system starts with
  nothing running, the dependencies have no cycle and no resource provides another's name, and scripts do
  not start or stop resources themselves. (Constraints, the entries that begin with a slash, are not names.)
\<close>

theorem started_dependencies_run:
  assumes "resource_session E w0 w" "silent E" "fresh_world w0" "ranked rk w0"
    and "GetState w q = Started" "d \<in> set (all_deps w q)" "plain_entry d"
  shows "\<exists>p. GetResource w d True = Some p \<and> GetState w p = Started"
proof -
  have "session_inv rk w" by (rule session_invariant [OF assms(1-4)])
  then show ?thesis using consistent_runs [OF _ assms(5-7)] by (auto simp: session_inv_def)
qed

theorem started_dependencies_run_witness:
  "\<exists>p. GetResource mode_running ''chat'' True = Some p \<and> GetState mode_running p = Started"
  by (rule started_dependencies_run [OF mode_session quiet_silent mode_fresh mode_ranked mode_states(1)])
    (simp_all add: mode_states [unfolded One_nat_def] plain_entry_def)

text \<open>
  C10. In such a session no call hangs: the next start and the next stop of a resource that is found by name
  both return, a start that reports success has started the resource, and a stop has stopped it together
  with every resource that depends on it, directly or not.
\<close>

theorem session_calls_return:
  assumes "resource_session E w0 w" "silent E" "fresh_world w0" "ranked rk w0" "GetResource w n True = Some r"
  shows "(\<exists>b v. run E (StartCall r) w = Some (b, v) \<and> (b \<longrightarrow> GetState v r = Started))
    \<and> (\<exists>b v. run E (StopCall r) w = Some (b, v) \<and> GetState v r = Stopped
        \<and> (\<forall>q d. GetState v q = Started \<and> d \<in> set (all_deps v q) \<and> plain_entry d \<longrightarrow>
             (\<exists>p. GetResource v d True = Some p \<and> GetState v p = Started)))"
proof
  have inv: "session_inv rk w" by (rule session_invariant [OF assms(1-4)])
  obtain b v where start: "run E (StartCall r) w = Some (b, v)"
    using session_ends(1) [OF inv assms(2,5)] by blast
  have "r < length (pool w)"
    using inv assms(5) base_invD(3,4) by (auto simp: session_inv_def)
  from Start_result [OF start this] start
  show "\<exists>b v. run E (StartCall r) w = Some (b, v) \<and> (b \<longrightarrow> GetState v r = Started)" by auto
  obtain c u where stop: "run E (StopCall r) w = Some (c, u)"
    using session_ends(2) [OF inv assms(2,5)] by blast
  note after = session_inv_stop [OF inv assms(5) stop assms(2)]
  show "\<exists>b v. run E (StopCall r) w = Some (b, v) \<and> GetState v r = Stopped
      \<and> (\<forall>q d. GetState v q = Started \<and> d \<in> set (all_deps v q) \<and> plain_entry d \<longrightarrow>
           (\<exists>p. GetResource v d True = Some p \<and> GetState v p = Started))"
    using stop after consistent_runs [of rk u] unfolding session_inv_def by blast
qed

theorem session_calls_return_witness:
  "(\<exists>b v. run quiet_server (StartCall 0) mode_running = Some (b, v))
    \<and> (\<exists>b v. run quiet_server (StopCall 0) mode_running = Some (b, v) \<and> GetState v 0 = Stopped)"
  using session_calls_return [OF mode_session quiet_silent mode_fresh mode_ranked mode_states(3)] by blast





text \<open>
  C24. A client that asks for its configuration gets each resource at most once, exactly those it asked for
  (all when it names none) that are started or starting and not for the server only, first those of the
  start order in their order.
\<close>

theorem configuration_lists_running:
  assumes "\<And>n r. m_resources w n = Some r \<Longrightarrow> GetName w r = n" "set rs = ran (m_resources w)"
    and "filters = (case asked of None \<Rightarrow> [] | Some s \<Rightarrow> config_filters s)"
  shows "distinct (GetConfiguration asked rs w)
    \<and> set (GetConfiguration asked rs w) = {r \<in> ran (m_resources w). config_wanted filters w r}
    \<and> (\<exists>rest. GetConfiguration asked rs w = filter (config_wanted filters w) (firsts (start_order_refs w)) @ rest)"
  using GetConfiguration_spec [OF assms(1,2), of asked] unfolding assms(3) by blast+

theorem configuration_lists_running_witness:
  "set (GetConfiguration (Some ''chat;mode'') [1, 0] mode_running)
    = {r \<in> ran (m_resources mode_running). config_wanted [''chat'', ''mode''] mode_running r}"
proof (rule configuration_lists_running [THEN conjunct2, THEN conjunct1])
  note f = same_frameD [OF run_frame [OF mode_started]]
  show "m_resources mode_running n = Some r \<Longrightarrow> GetName mode_running r = n" for n r
    by (auto simp: f mode_registry mode_system_fields split: if_splits)
  show "set [1, 0] = ran (m_resources mode_running)" by (simp add: f(4) mode_registry insert_commute)
  show "[''chat'', ''mode''] = (case Some ''chat;mode'' of None \<Rightarrow> [] | Some s \<Rightarrow> config_filters s)"
    by (simp only: option.case two_filters)
qed

text \<open>
  C30. \<open>refresh\<close> is idle on what it knows: a scan of folders whose resources are all registered under their
  paths returns, stops, removes and adds no resource, and keeps every state; only manifests are read again.
\<close>

theorem refresh_keeps_known:
  assumes "list_all (known_entry otherChat w paths root) folders"
  shows "\<exists>s. ScanResources E loader otherChat root folders w paths = Some s \<and> newResources s = 0
    \<and> m_resources (scan_world s) = m_resources w \<and> m_scanData s = paths
    \<and> (\<forall>q. GetState (scan_world s) q = GetState w q \<and> GetName (scan_world s) q = GetName w q)"
  using ScanResources_unchanged [OF assms, of E loader] unfolding unchanged_def by blast

theorem refresh_keeps_known_witness:
  "\<exists>s. ScanResources quiet_server (\<lambda>_. ([], None)) False ''resources'' mode_folders mode_running mode_paths = Some s
    \<and> newResources s = 0 \<and> m_resources (scan_world s) = m_resources mode_running"
proof -
  have "m_resources mode_running = m_resources mode_system" by (rule same_frameD [OF run_frame [OF mode_started]])
  then have "list_all (known_entry False mode_running mode_paths ''resources'') mode_folders"
    by (simp add: mode_folders_def mode_paths_def mode_registry isCategory_def skipped_entry_def)
  from refresh_keeps_known [OF this, of quiet_server "\<lambda>_. ([], None)"] show ?thesis by blast
qed

text \<open>
  C31. A resource that is started and in a cycle of dependencies cannot be stopped: when each resource of a
  set is not stopped and its first dependant is another of the set, a stop of one of them never returns,
  whatever the scripts do, because \<open>Stop\<close> marks a resource only behind its dependants. Two resources that
  depend on each other are started without complaint and are then in this state.
\<close>

theorem cyclic_stop_hangs:
  assumes "stop_cycle w C" "r \<in> C"
  shows "run E (StopCall r) w = None"
  by (rule stop_cycle_None [OF assms])

theorem cyclic_stop_hangs_witness:
  "run quiet_server (StartCall 0) cyclic_system = Some (True, cyclic_running)
    \<and> run quiet_server (StopCall 0) cyclic_running = None"
  using cyclic_stop_hangs [OF cyclic_cycle, of 0 quiet_server] cyclic_started by simp

text \<open>
  C39. A resource whose dependency failed once is started twice by its next start: the dependency, on its way
  up, launches what waits for it, which is the resource that is starting, before the dependency itself is
  announced, and the outer start launches it again. Its start event and its packet go out twice.
\<close>

theorem waiting_resource_started_twice:
  assumes "silent E" "\<And>w h r. verdict E w h r" "a \<noteq> b" "GetName w a \<noteq> GetName w b"
    and "a < length (pool w)" "GetState w a = Stopped" "m_resources w (GetName w a) = Some a"
    and "b < length (pool w)" "GetState w b = Stopped" "m_resources w (GetName w b) = Some b"
    and "m_resourceProvides w = []" "all_deps w a = [GetName w b]" "all_deps w b = []" "plain_entry (GetName w b)"
    and "resourceDependencies w = [(GetName w b, GetName w a)]" "allowed_game E w a" "allowed_game E w b"
    and "GetEntries w a ''server_only'' = []" "GetEntries w b ''server_only'' = []"
  shows "\<exists>v. run E (StartCall a) w = Some (True, v)
    \<and> g_resourceStartOrder v = g_resourceStartOrder w @ [GetName w a, GetName w b, GetName w a]
    \<and> triggered v = triggered w @ [(''onResourceStarting'', GetName w a), (''onResourceStarting'', GetName w b),
        (''onResourceStart'', GetName w b), (''onResourceStart'', GetName w a), (''onResourceStart'', GetName w a)]"
  by (rule deferred_started_twice [OF assms])

theorem waiting_resource_started_twice_witness:
  "run refusing_server (StartCall 0) pair_system = Some (False, deferred)
    \<and> (\<exists>v. run quiet_server (StartCall 0) deferred = Some (True, v) \<and> g_resourceStartOrder v = [''a'', ''b'', ''a''])"
proof -
  have "\<exists>v. run quiet_server (StartCall 0) deferred = Some (True, v)
    \<and> g_resourceStartOrder v = g_resourceStartOrder deferred @ [GetName deferred 0, GetName deferred 1, GetName deferred 0]
    \<and> triggered v = triggered deferred @ [(''onResourceStarting'', GetName deferred 0), (''onResourceStarting'', GetName deferred 1),
        (''onResourceStart'', GetName deferred 1), (''onResourceStart'', GetName deferred 0), (''onResourceStart'', GetName deferred 0)]"
    by (rule waiting_resource_started_twice) (simp_all add: deferred_fields [unfolded One_nat_def] plain_entry_def)
  then show ?thesis using deferred_reached by (auto simp: deferred_fields [unfolded One_nat_def])
qed

text \<open>
  C40. A removed resource is still found: removing it takes it out of the registry but not out of what it
  provides, so a name that no resource has and that it provided first resolves to the removed, uninitialized
  resource.
\<close>

theorem removed_resource_found:
  assumes "RemoveResource E r w = Some v" "r < length (pool w)" "m_resources w n = None"
    and "multi_get n (m_resourceProvides w) = r # providers"
  shows "m_resources v (GetName w r) = None \<and> GetResource v n True = Some r \<and> GetState v r = Uninitialized"
  using removed_still_provides [OF assms] by blast

theorem removed_resource_found_witness:
  "m_resources map_removed ''island'' = None \<and> GetResource map_removed ''map'' True = Some 0"
  using removed_resource_found [OF map_removal _ map_system_fields(2,3)] by (simp add: map_system_fields)

text \<open>
  C23. An event is cancelled by its own handlers only: when \<open>TriggerEvent\<close> returns, the flags of the events
  around it are what they were; it reports true when none of its handlers cancels, whatever the events that
  they trigger do, and false when a resource that it reaches always cancels it.
\<close>

theorem event_cancelled_by_own_handlers:
  assumes "TriggerEvent_result E e only m = Some (b, m')"
  shows "g_eventCancelationStack m' = g_eventCancelationStack m \<and> (never_cancels E e \<longrightarrow> b)
    \<and> ((\<forall>m. snd (global E m e)) \<and> (\<exists>r\<in>set (event_targets_of E m e only). always_cancels E r e) \<longrightarrow> \<not> b)"
  using TriggerEvent_cancelation(1,3,4) [OF assms] by blast+

theorem event_cancelled_by_own_handlers_witness:
  "fst (the (TriggerEvent_result two_handlers ''pick'' None two_registered))
    \<and> \<not> fst (the (TriggerEvent_result two_handlers ''check'' None two_registered))"
proof
  obtain b m where pick: "TriggerEvent_result two_handlers ''pick'' None two_registered = Some (b, m)"
    using two_events(1) by auto
  have "never_cancels two_handlers ''pick''" by (simp add: never_cancels_def two_handlers_def)
  from this event_cancelled_by_own_handlers [OF pick] pick
  show "fst (the (TriggerEvent_result two_handlers ''pick'' None two_registered))" by simp
  obtain c u where check: "TriggerEvent_result two_handlers ''check'' None two_registered = Some (c, u)"
    using two_events(2) by auto
  have "\<not> c"
    using event_cancelled_by_own_handlers [OF check]
    by (simp add: two_handlers_def event_targets_of_def nui_event_def two_registered_def AddResourceHandledEvent_def
        multi_get_def always_cancels_def)
  then show "\<not> fst (the (TriggerEvent_result two_handlers ''check'' None two_registered))" using check by simp
qed

end
